(* ===== verification/Prelude.thy ===== *)
theory Prelude
  imports Main "HOL-Library.Word" "HOL-Library.List_Lexorder" "HOL-Library.Char_ord"
begin

text \<open>
  Shared vocabulary of the development: the machine types of the Go source, its
  clock, its errors, the string primitives of the standard library the packages
  use, and the collections of automation (\<open>named_theorems\<close>) the component theories
  extend.  A Go \<open>string\<close> is a byte sequence and is modelled by \<open>char list\<close>, whose
  lexicographic order (\<open>List_Lexorder\<close>) is Go's byte-wise order.
\<close>

named_theorems bucket_simps \<open>reading a sorted bucket after a write\<close>
named_theorems tx_defs \<open>the unfoldings of the index transactions\<close>

subsection \<open>Machine types and time\<close>

text \<open>
  \<open>int64\<close> and \<open>uint64\<close> are 64-bit words: arithmetic wraps, and the signed reading of
  an \<open>int64\<close> is \<open>sint\<close>.  A \<open>time.Time\<close> is the number of nanoseconds since Go's zero
  time (so \<open>IsZero\<close> is equality with 0); \<open>Time.Sub\<close> saturates at the range of an
  \<open>int64\<close> \<open>Duration\<close>, as the standard library documents.
\<close>

type_synonym i64 = "64 word"
type_synonym u64 = "64 word"
type_synonym u32 = "32 word"
type_synonym gotime = int
type_synonym duration = int

definition time_is_zero :: "gotime \<Rightarrow> bool" where
  "time_is_zero t \<longleftrightarrow> t = 0"

definition time_sub :: "gotime \<Rightarrow> gotime \<Rightarrow> duration" where
  "time_sub a b = max (- (2 ^ 63)) (min (2 ^ 63 - 1) (a - b))"

lemma time_sub_in_range: "- (2 ^ 63) \<le> a - b \<Longrightarrow> a - b < 2 ^ 63 \<Longrightarrow> time_sub a b = a - b"
  by (simp add: time_sub_def)

lemma unat_Suc64: "n + 1 \<noteq> 0 \<Longrightarrow> unat (n + 1) = Suc (unat (n :: u64))"
  using unatSuc [of n] by (simp add: add.commute)

lemma unat_Suc64_bound: "Suc (unat n) < 2 ^ 64 \<Longrightarrow> unat (n + 1) = Suc (unat (n :: u64))"
  by (subst unat_plus_simple [THEN iffD1]) (auto simp: no_olen_add_nat)

lemma sint_of_nat64: "n < 2 ^ 63 \<Longrightarrow> sint (of_nat n :: i64) = int n"
  by (simp add: signed_take_bit_int_eq_self signed_of_nat)

subsection \<open>Errors\<close>

text \<open>
  Every error value the modelled functions return.  The typed errors of the source
  (\<open>ErrNoSuchBucket\<close>, \<open>ErrNoSuchKey\<close>, ...) keep their fields; an error made with
  \<open>fmt.Errorf\<close> is \<open>Errf\<close> with the text before the wrapped cause, and \<open>ErrIO\<close> is a
  failure reported by the operating system.
\<close>

datatype gerr =
    ErrNoSuchBucket string
  | ErrNoSuchKey string string
  | ErrNoSuchUpload string string
  | ErrInvalidPart int
  | ErrDigestMismatch string string
  | ErrBlobNotFound string
  | ErrNotExist
  | ErrIO
  | Errf string

text \<open>The value of a fallible Go call: an error, or the result.\<close>

fun res_bind :: "gerr + 'a \<Rightarrow> ('a \<Rightarrow> gerr + 'b) \<Rightarrow> gerr + 'b" where
  "res_bind (Inl e) f = Inl e"
| "res_bind (Inr a) f = f a"

lemma res_bind_Inr: "res_bind m f = Inr b \<longleftrightarrow> (\<exists>a. m = Inr a \<and> f a = Inr b)"
  by (cases m) auto

lemma res_bind_Inl: "res_bind m f = Inl e \<longleftrightarrow> m = Inl e \<or> (\<exists>a. m = Inr a \<and> f a = Inl e)"
  by (cases m) auto

lemma isl_res_bind: "isl (res_bind m f) \<longleftrightarrow> isl m \<or> isl (f (projr m))"
  by (cases m) auto

subsection \<open>Callbacks over a sequence\<close>

text \<open>
  The walks and the replay call a function on one element after another and stop at
  the first error; what the callback has already written to the variables it closes
  over stays written.
\<close>

fun fold_cb :: "('a \<Rightarrow> 's \<Rightarrow> 's \<times> gerr option) \<Rightarrow> 'a list \<Rightarrow> 's \<Rightarrow> 's \<times> gerr option" where
  "fold_cb fn [] st = (st, None)"
| "fold_cb fn (r # rs) st =
     (case fn r st of (st', Some e) \<Rightarrow> (st', Some e) | (st', None) \<Rightarrow> fold_cb fn rs st')"

lemma fold_cb_append:
  "fold_cb fn (a @ b) st =
     (case fold_cb fn a st of (st', Some e) \<Rightarrow> (st', Some e) | (st', None) \<Rightarrow> fold_cb fn b st')"
  by (induction fn a st rule: fold_cb.induct) (auto split: prod.splits option.splits)

lemma fold_cb_total:
  assumes "\<And>x st. snd (fn x st) = None"
  shows "fold_cb fn xs st = (fold (\<lambda>x s. fst (fn x s)) xs st, None)"
proof (induction xs arbitrary: st)
  case (Cons x xs)
  obtain st' where "fn x st = (st', None)" using assms [of x st] by (cases "fn x st") auto
  with Cons show ?case by simp
qed simp

subsection \<open>String primitives of the standard library\<close>

text \<open>\<open>strings.HasPrefix\<close>, \<open>CutPrefix\<close>, \<open>CutSuffix\<close>, \<open>TrimPrefix\<close>, \<open>TrimSuffix\<close>.\<close>

fun has_prefix :: "string \<Rightarrow> string \<Rightarrow> bool" where
  "has_prefix s [] = True"
| "has_prefix [] (p # ps) = False"
| "has_prefix (c # s) (p # ps) = (c = p \<and> has_prefix s ps)"

lemma has_prefix_append [simp]: "has_prefix (p @ s) p"
  by (induction p) auto

lemma has_prefix_iff: "has_prefix s p \<longleftrightarrow> (\<exists>t. s = p @ t)"
  by (induction s p rule: has_prefix.induct) auto

lemma has_prefix_append_cancel [simp]: "has_prefix (a @ s) (a @ p) = has_prefix s p"
  by (induction a) auto

definition cut_prefix :: "string \<Rightarrow> string \<Rightarrow> string option" where
  "cut_prefix s p = (if has_prefix s p then Some (drop (length p) s) else None)"

lemma cut_prefix_Some: "cut_prefix s p = Some t \<longleftrightarrow> s = p @ t"
  by (auto simp: cut_prefix_def has_prefix_iff)

definition has_suffix :: "string \<Rightarrow> string \<Rightarrow> bool" where
  "has_suffix s p = has_prefix (rev s) (rev p)"

lemma has_suffix_iff: "has_suffix s p \<longleftrightarrow> (\<exists>t. s = t @ p)"
proof -
  have "rev s = rev p @ t \<longleftrightarrow> s = rev t @ p" for t
    by (metis rev_append rev_rev_ident)
  then show ?thesis
    unfolding has_suffix_def has_prefix_iff by (metis rev_rev_ident)
qed

definition cut_suffix :: "string \<Rightarrow> string \<Rightarrow> string option" where
  "cut_suffix s p = (if has_suffix s p then Some (take (length s - length p) s) else None)"

lemma cut_suffix_Some: "cut_suffix s p = Some t \<longleftrightarrow> s = t @ p"
  by (auto simp: cut_suffix_def has_suffix_iff)

definition trim_prefix :: "string \<Rightarrow> string \<Rightarrow> string" where
  "trim_prefix s p = (case cut_prefix s p of Some t \<Rightarrow> t | None \<Rightarrow> s)"

text \<open>\<open>strings.Cut\<close> at a one-byte separator: what is before it, and what is after it when it occurs.\<close>

fun cut_at :: "char \<Rightarrow> string \<Rightarrow> string \<times> string option" where
  "cut_at c [] = ([], None)"
| "cut_at c (x # xs) =
     (if x = c then ([], Some xs) else (case cut_at c xs of (a, b) \<Rightarrow> (x # a, b)))"

lemma cut_at_append: "c \<notin> set a \<Longrightarrow> cut_at c (a @ c # b) = (a, Some b)"
  by (induction a) auto

lemma cut_at_none: "c \<notin> set a \<Longrightarrow> cut_at c a = (a, None)"
  by (induction a) auto

lemma cut_at_cases:
  obtains (sep) a b where "s = a @ c # b" "c \<notin> set a" | (nosep) "c \<notin> set s"
  by (meson split_list_first)

lemma cut_at_Some: "cut_at c s = (a, Some b) \<longleftrightarrow> s = a @ c # b \<and> c \<notin> set a"
proof
  assume "cut_at c s = (a, Some b)"
  then show "s = a @ c # b \<and> c \<notin> set a"
    by (cases s c rule: cut_at_cases) (auto simp: cut_at_append cut_at_none)
qed (auto simp: cut_at_append)

lemma cut_at_None: "cut_at c s = (a, None) \<longleftrightarrow> s = a \<and> c \<notin> set a"
  by (cases s c rule: cut_at_cases) (auto simp: cut_at_append cut_at_none)

lemma cut_at_shorter: "cut_at c s = (a, Some b) \<Longrightarrow> length b < length s"
  by (auto simp: cut_at_Some)

text \<open>\<open>filepath.Join\<close> of clean components is their concatenation with separators.\<close>

fun path_join :: "string list \<Rightarrow> string" where
  "path_join [] = []"
| "path_join [p] = p"
| "path_join (p # q # ps) = p @ ''/'' @ path_join (q # ps)"

subsection \<open>Decimal numbers: strconv.FormatUint and strconv.ParseUint\<close>

definition digit_char :: "nat \<Rightarrow> char" where
  "digit_char d = char_of (48 + d)"

definition is_digit :: "char \<Rightarrow> bool" where
  "is_digit c \<longleftrightarrow> 48 \<le> (of_char c :: nat) \<and> (of_char c :: nat) \<le> 57"

definition digit_val :: "char \<Rightarrow> nat" where
  "digit_val c = of_char c - 48"

fun format_nat :: "nat \<Rightarrow> string" where
  "format_nat n = (if n < 10 then [digit_char n] else format_nat (n div 10) @ [digit_char (n mod 10)])"

declare format_nat.simps [simp del]

definition digits_val :: "string \<Rightarrow> nat" where
  "digits_val s = foldl (\<lambda>a c. 10 * a + digit_val c) 0 s"

definition format_uint :: "u64 \<Rightarrow> string" where
  "format_uint w = format_nat (unat w)"

text \<open>\<open>ParseUint(s, 10, 64)\<close>: digits only, at least one, and a value below \<open>2^64\<close>.\<close>

definition parse_uint :: "string \<Rightarrow> u64 option" where
  "parse_uint s =
     (if s \<noteq> [] \<and> list_all is_digit s \<and> digits_val s < 2 ^ 64 then Some (of_nat (digits_val s)) else None)"

lemma digit_char_props: "d < 10 \<Longrightarrow> is_digit (digit_char d) \<and> digit_val (digit_char d) = d"
  by (simp add: is_digit_def digit_val_def digit_char_def)

lemma format_nat_props:
  "format_nat n \<noteq> [] \<and> list_all is_digit (format_nat n) \<and> digits_val (format_nat n) = n"
proof (induction n rule: format_nat.induct)
  case (1 n)
  show ?case
  proof (cases "n < 10")
    case True
    then show ?thesis
      by (subst (1 2 3) format_nat.simps) (simp add: digit_char_props digits_val_def)
  next
    case False
    with "1.IH" have IH: "list_all is_digit (format_nat (n div 10))"
      "digits_val (format_nat (n div 10)) = n div 10" by simp_all
    with False show ?thesis
      by (subst (1 2 3) format_nat.simps) (simp add: digit_char_props digits_val_def)
  qed
qed

lemma parse_format_uint [simp]: "parse_uint (format_uint w) = Some w"
  using format_nat_props [of "unat w"] unsigned_less [of w]
  by (auto simp: parse_uint_def format_uint_def)

lemma format_uint_nonempty [simp]: "format_uint w \<noteq> []"
  using format_nat_props by (simp add: format_uint_def)

lemma digits_val_zeros: "digits_val (replicate k (CHR ''0'') @ s) = digits_val s"
proof -
  have "foldl (\<lambda>a c. 10 * a + digit_val c) 0 (replicate k (CHR ''0'')) = 0"
    by (induction k) (simp_all add: digit_val_def)
  then show ?thesis by (simp add: digits_val_def)
qed

text \<open>\<open>fmt.Sprintf("%0*d", n, v)\<close>: decimal, padded with zeros to \<open>n\<close> digits.\<close>

definition format_padded :: "nat \<Rightarrow> u64 \<Rightarrow> string" where
  "format_padded n w = replicate (n - length (format_uint w)) (CHR ''0'') @ format_uint w"

lemma parse_format_padded [simp]: "parse_uint (format_padded n w) = Some w"
proof -
  have "list_all is_digit (replicate k (CHR ''0''))" for k
    by (induction k) (simp_all add: is_digit_def)
  then show ?thesis
    using format_nat_props [of "unat w"] unsigned_less [of w]
    by (auto simp: parse_uint_def format_padded_def format_uint_def digits_val_zeros)
qed

end
