(* ===== verification/KV.thy ===== *)
theory KV
  imports Prelude
begin

text \<open>
  The key/value buckets of the index file.  bbolt documents a bucket as a map from
  byte strings to byte strings kept in key order, with \<open>Get\<close>, \<open>Put\<close>, \<open>Delete\<close>,
  \<open>ForEach\<close> and a \<open>Cursor\<close> that seeks to the first key at or after a position.  A
  bucket is modelled by that content: the association list of its pairs in key
  order.  What the index relies on is stated as the locales \<open>kv_store\<close> (lookups
  after writes) and \<open>kv_sum\<close> (an aggregate kept beside the bucket follows every
  write), and both are interpreted on the list model.
\<close>

type_synonym 'a bucket = "(string \<times> 'a) list"

fun bk_put :: "string \<Rightarrow> 'a \<Rightarrow> 'a bucket \<Rightarrow> 'a bucket" where
  "bk_put k v [] = [(k, v)]"
| "bk_put k v (p # b) =
     (if fst p < k then p # bk_put k v b
      else if fst p = k then (k, v) # b
      else (k, v) # p # b)"

definition bk_get :: "'a bucket \<Rightarrow> string \<Rightarrow> 'a option" where
  "bk_get b k = map_of b k"

definition bk_del :: "string \<Rightarrow> 'a bucket \<Rightarrow> 'a bucket" where
  "bk_del k b = filter (\<lambda>p. fst p \<noteq> k) b"

definition bk_ok :: "'a bucket \<Rightarrow> bool" where
  "bk_ok b \<longleftrightarrow> sorted_wrt (<) (map fst b)"

definition bk_sum :: "('a \<Rightarrow> 'g::comm_monoid_add) \<Rightarrow> 'a bucket \<Rightarrow> 'g" where
  "bk_sum w b = sum_list (map (\<lambda>p. w (snd p)) b)"

text \<open>A cursor walk: \<open>Seek(p)\<close>, then \<open>Next\<close> while the key still starts with the prefix.\<close>

definition bk_scan :: "string \<Rightarrow> 'a bucket \<Rightarrow> 'a bucket" where
  "bk_scan p b = takeWhile (\<lambda>x. has_prefix (fst x) p) (dropWhile (\<lambda>x. fst x < p) b)"

subsection \<open>Lookups after writes\<close>

lemma bk_get_empty [simp]: "bk_get [] k = None"
  by (simp add: bk_get_def)

lemma bk_get_put [simp, bucket_simps]: "bk_get (bk_put k v b) k' = (if k' = k then Some v else bk_get b k')"
  unfolding bk_get_def by (induction k v b rule: bk_put.induct) auto

lemma bk_get_del [simp, bucket_simps]: "bk_get (bk_del k b) k' = (if k' = k then None else bk_get b k')"
  unfolding bk_get_def bk_del_def by (induction b) auto

lemma bk_ok_empty [simp, intro]: "bk_ok []"
  by (simp add: bk_ok_def)

lemma bk_keys_put: "fst ` set (bk_put k v b) = insert k (fst ` set b)"
  by (induction k v b rule: bk_put.induct) auto

lemma bk_ok_Cons: "bk_ok (p # b) \<longleftrightarrow> (\<forall>x \<in> set b. fst p < fst x) \<and> bk_ok b"
  by (auto simp: bk_ok_def)

lemma bk_ok_put [simp, intro]: "bk_ok b \<Longrightarrow> bk_ok (bk_put k v b)"
proof (induction k v b rule: bk_put.induct)
  case (2 k v p b)
  show ?case
  proof (cases "fst p < k")
    case True
    with 2 have "bk_ok (bk_put k v b)" by (simp add: bk_ok_Cons)
    moreover have "\<forall>x \<in> fst ` set (bk_put k v b). fst p < x"
      using True "2.prems" by (auto simp: bk_keys_put bk_ok_Cons)
    ultimately show ?thesis using True by (simp add: bk_ok_Cons)
  next
    case False
    with "2.prems" show ?thesis by (auto simp: bk_ok_Cons not_less)
  qed
qed (simp add: bk_ok_def)

lemma bk_ok_del [simp, intro]: "bk_ok b \<Longrightarrow> bk_ok (bk_del k b)"
  unfolding bk_ok_def bk_del_def by (induction b) auto

lemma bk_ok_distinct: "bk_ok b \<Longrightarrow> distinct (map fst b)"
  by (induction b) (auto simp: bk_ok_Cons)

lemma bk_get_in: "bk_get b k = Some v \<Longrightarrow> (k, v) \<in> set b"
  by (simp add: bk_get_def map_of_SomeD)

lemma bk_get_iff: "bk_ok b \<Longrightarrow> bk_get b k = Some v \<longleftrightarrow> (k, v) \<in> set b"
  using bk_ok_distinct [of b] by (simp add: bk_get_def)

subsection \<open>Aggregates over a bucket\<close>

lemma bk_get_none_lt: "bk_ok b \<Longrightarrow> \<forall>x \<in> set b. k < fst x \<Longrightarrow> bk_get b k = None"
  by (induction b) (auto simp: bk_ok_Cons bk_get_def)

lemma bk_get_Cons: "bk_get (p # b) k = (if fst p = k then Some (snd p) else bk_get b k)"
  by (auto simp: bk_get_def)

lemma bk_sum_Cons [simp]: "bk_sum w (p # b) = w (snd p) + bk_sum w b"
  by (simp add: bk_sum_def)

lemma bk_sum_empty [simp]: "bk_sum w [] = 0"
  by (simp add: bk_sum_def)

definition opt_weight :: "('a \<Rightarrow> 'g::zero) \<Rightarrow> 'a option \<Rightarrow> 'g" where
  "opt_weight w x = (case x of None \<Rightarrow> 0 | Some v \<Rightarrow> w v)"

lemma opt_weight_simps [simp]: "opt_weight w None = 0" "opt_weight w (Some v) = w v"
  by (simp_all add: opt_weight_def)

lemma bk_sum_put:
  fixes w :: "'a \<Rightarrow> 'g::ab_group_add"
  shows "bk_ok b \<Longrightarrow> bk_sum w (bk_put k v b) = bk_sum w b - opt_weight w (bk_get b k) + w v"
proof (induction k v b rule: bk_put.induct)
  case (2 k v p b)
  show ?case
  proof (cases "fst p < k \<or> fst p = k")
    case True
    with 2 show ?thesis by (auto simp: bk_get_Cons bk_ok_Cons algebra_simps)
  next
    case False
    then have "k < fst p" by auto
    with "2.prems" have "bk_get b k = None"
      by (intro bk_get_none_lt) (auto simp: bk_ok_Cons)
    with False show ?thesis by (simp add: bk_get_Cons algebra_simps)
  qed
qed simp

lemma bk_del_absent: "bk_get b k = None \<Longrightarrow> bk_del k b = b"
  by (induction b) (auto simp: bk_get_Cons bk_del_def split: if_splits)

lemma bk_sum_del:
  fixes w :: "'a \<Rightarrow> 'g::ab_group_add"
  shows "bk_ok b \<Longrightarrow> bk_sum w (bk_del k b) = bk_sum w b - opt_weight w (bk_get b k)"
proof (induction b)
  case (Cons p b)
  show ?case
  proof (cases "fst p = k")
    case True
    with Cons.prems have "bk_get b k = None"
      by (intro bk_get_none_lt) (auto simp: bk_ok_Cons)
    with True show ?thesis
      using bk_del_absent [of b k] by (simp add: bk_get_Cons bk_del_def)
  next
    case False
    with Cons show ?thesis by (simp add: bk_get_Cons bk_ok_Cons bk_del_def)
  qed
qed (simp add: bk_del_def)

lemma bk_sum_cong: "(\<And>k v. (k, v) \<in> set b \<Longrightarrow> f v = g v) \<Longrightarrow> bk_sum f b = bk_sum g b"
  by (auto simp: bk_sum_def intro!: arg_cong [where f = sum_list])

lemma bk_sum_zero: "(\<And>k v. (k, v) \<in> set b \<Longrightarrow> f v = 0) \<Longrightarrow> bk_sum f b = 0"
  using bk_sum_cong [of b f "\<lambda>_. 0"] by (simp add: bk_sum_def)

subsection \<open>Prefix scans\<close>

lemma has_prefix_le: "has_prefix k p \<Longrightarrow> p \<le> k"
  by (induction k p rule: has_prefix.induct) auto

lemma prefix_interval: "p \<le> k \<Longrightarrow> k \<le> p @ t \<Longrightarrow> has_prefix k p"
  by (induction k p rule: has_prefix.induct) auto

lemma takeWhile_prefix:
  "bk_ok b \<Longrightarrow> \<forall>x \<in> set b. p \<le> fst x \<Longrightarrow>
   takeWhile (\<lambda>x. has_prefix (fst x) p) b = filter (\<lambda>x. has_prefix (fst x) p) b"
proof (induction b)
  case (Cons x b)
  show ?case
  proof (cases "has_prefix (fst x) p")
    case True
    with Cons show ?thesis by (simp add: bk_ok_Cons)
  next
    case False
    have "\<not> has_prefix (fst y) p" if y: "y \<in> set b" for y
    proof
      assume "has_prefix (fst y) p"
      then obtain t where t: "fst y = p @ t" by (auto simp: has_prefix_iff)
      from Cons.prems y have "p \<le> fst x" "fst x \<le> fst y" by (auto simp: bk_ok_Cons less_imp_le)
      with t have "has_prefix (fst x) p" by (auto intro: prefix_interval)
      with False show False ..
    qed
    with False show ?thesis by (simp add: filter_empty_conv)
  qed
qed simp

text \<open>The cursor walk of a bucket in order visits exactly the keys with the prefix, in order.\<close>

lemma bk_scan_filter: "bk_ok b \<Longrightarrow> bk_scan p b = filter (\<lambda>x. has_prefix (fst x) p) b"
proof (induction b)
  case (Cons x b)
  show ?case
  proof (cases "fst x < p")
    case True
    then have "\<not> has_prefix (fst x) p" using has_prefix_le by (force simp: not_less [symmetric])
    with True Cons show ?thesis by (simp add: bk_scan_def bk_ok_Cons)
  next
    case False
    with Cons.prems have "\<forall>y \<in> set (x # b). p \<le> fst y"
      by (auto simp: bk_ok_Cons not_less dest: less_imp_le intro: order_trans)
    with False Cons.prems show ?thesis
      unfolding bk_scan_def by (simp only: dropWhile.simps if_False takeWhile_prefix)
  qed
qed (simp add: bk_scan_def)

subsection \<open>The interfaces the index uses\<close>

locale kv_store =
  fixes get :: "'b \<Rightarrow> 'k \<Rightarrow> 'v option"
    and upd :: "'k \<Rightarrow> 'v \<Rightarrow> 'b \<Rightarrow> 'b"
    and del :: "'k \<Rightarrow> 'b \<Rightarrow> 'b"
    and ok :: "'b \<Rightarrow> bool"
  assumes get_upd: "get (upd k v b) k' = (if k' = k then Some v else get b k')"
    and get_del: "get (del k b) k' = (if k' = k then None else get b k')"
    and ok_upd: "ok b \<Longrightarrow> ok (upd k v b)"
    and ok_del: "ok b \<Longrightarrow> ok (del k b)"
begin

lemma map_upd: "get (upd k v b) = (get b)(k \<mapsto> v)"
  by (rule ext) (simp add: get_upd)

lemma map_del: "get (del k b) = (get b)(k := None)"
  by (rule ext) (simp add: get_del)

lemma upd_overrides: "get (upd k v (upd k v' b)) = get (upd k v b)"
  by (simp add: map_upd)

lemma upd_del: "get (upd k v (del k b)) = get (upd k v b)"
  by (simp add: map_upd map_del)

lemma read_all_other: "k \<noteq> k' \<Longrightarrow> get (upd k v b) k' = get b k' \<and> get (del k b) k' = get b k'"
  by (simp add: get_upd get_del)

end

text \<open>
  An aggregate of weights kept beside the entries: the counter that subtracts the
  weight of what was there and adds the weight of what is written stays equal to
  the total.
\<close>

locale kv_sum = kv_store get upd del ok
  for get :: "'b \<Rightarrow> 'k \<Rightarrow> 'v option" and upd :: "'k \<Rightarrow> 'v \<Rightarrow> 'b \<Rightarrow> 'b"
    and del :: "'k \<Rightarrow> 'b \<Rightarrow> 'b" and ok :: "'b \<Rightarrow> bool" +
  fixes total :: "('v \<Rightarrow> 'g::ab_group_add) \<Rightarrow> 'b \<Rightarrow> 'g"
  assumes total_upd: "ok b \<Longrightarrow> total w (upd k v b) = total w b - opt_weight w (get b k) + w v"
    and total_del: "ok b \<Longrightarrow> total w (del k b) = total w b - opt_weight w (get b k)"
begin

lemma counter_upd:
  "ok b \<Longrightarrow> c = total w b \<Longrightarrow> get b k = Some old \<Longrightarrow> c - w old + w v = total w (upd k v b)"
  by (simp add: total_upd)

lemma counter_insert:
  "ok b \<Longrightarrow> c = total w b \<Longrightarrow> get b k = None \<Longrightarrow> c + w v = total w (upd k v b)"
  by (simp add: total_upd)

lemma counter_del:
  "ok b \<Longrightarrow> c = total w b \<Longrightarrow> get b k = Some old \<Longrightarrow> c - w old = total w (del k b)"
  by (simp add: total_del)

lemma same_weight:
  "ok b \<Longrightarrow> get b k = Some old \<Longrightarrow> w old = w v \<Longrightarrow> total w (upd k v b) = total w b"
  by (simp add: total_upd)

end

interpretation bk: kv_store bk_get bk_put bk_del bk_ok
  by unfold_locales auto

interpretation bks: kv_sum bk_get bk_put bk_del bk_ok bk_sum
  by unfold_locales (auto simp: bk_sum_put bk_sum_del)

end
