(* ===== verification/Types.thy ===== *)
theory Types
  imports KV
begin

text \<open>
  The data the components share: the journal record, the index entry with its
  state, the reference record of a blob, a multipart upload in progress, and the
  environment \<open>env\<close> the store runs in.  A field of \<open>env\<close> stands for code that is
  not under src/ and that the theorems only know through named hypotheses: the two
  digests (as the lower-case hexadecimal string the code works with), the JSON
  codec of a journal record, and the key sizes bbolt accepts.  \<open>max_segment\<close> is the
  journal's package variable \<open>maxSegment\<close>.
\<close>

subsection \<open>internal/journal: Record\<close>

definition opPut :: string where "opPut = ''put''"
definition opDelete :: string where "opDelete = ''delete''"
definition opGC :: string where "opGC = ''gc''"

record jrec =
  r_seq :: u64
  r_time :: gotime
  r_op :: string
  r_bucket :: string
  r_key :: string
  r_hash :: string
  r_etag :: string
  r_size :: i64
  r_mtime :: gotime

lemma op_distinct [simp]:
  "opPut \<noteq> opDelete" "opDelete \<noteq> opPut" "opPut \<noteq> opGC" "opGC \<noteq> opPut" "opDelete \<noteq> opGC" "opGC \<noteq> opDelete"
  by (simp_all add: opPut_def opDelete_def opGC_def)

subsection \<open>internal/index: State, Entry, Stats, Ref\<close>

datatype ostate = Dirty | Uploading | Synced | Evicted

definition st_local :: "ostate \<Rightarrow> bool" where
  "st_local s \<longleftrightarrow> s \<noteq> Evicted"

definition st_safe :: "ostate \<Rightarrow> bool" where
  "st_safe s \<longleftrightarrow> s = Synced \<or> s = Evicted"

record entry =
  e_key :: string
  e_size :: i64
  e_mtime :: gotime
  e_mode :: u32
  e_hash :: string
  e_etag :: string
  e_state :: ostate
  e_atime :: gotime
  e_pinned :: bool

record stats =
  s_objects :: i64
  s_bytes :: i64
  s_localObjects :: i64
  s_localBytes :: i64
  s_dirtyObjects :: i64
  s_dirtyBytes :: i64

record blobref =
  rf_count :: i64
  rf_unrefAt :: gotime

text \<open>
  \<open>Ref.Collectable\<close>: unreferenced, stamped, and stamped at least the grace period ago.
\<close>

definition collectable :: "blobref \<Rightarrow> gotime \<Rightarrow> duration \<Rightarrow> bool" where
  "collectable r now grace \<longleftrightarrow>
     sint (rf_count r) \<le> 0 \<and> \<not> time_is_zero (rf_unrefAt r) \<and> time_sub now (rf_unrefAt r) \<ge> grace"

subsection \<open>internal/store: Upload and UploadPart\<close>

record uploadPart =
  p_hash :: string
  p_etag :: string
  p_size :: i64
  p_uploaded :: gotime

text \<open>\<open>Parts\<close> is a \<open>map[int]*UploadPart\<close>: an association list with one pair per number.\<close>

record upload =
  u_bucket :: string
  u_key :: string
  u_id :: string
  u_initiated :: gotime
  u_parts :: "(int \<times> uploadPart) list"

subsection \<open>Stored values\<close>

text \<open>
  A value in the index file is the JSON of a Go value.  \<open>Enc x\<close> is a value that
  decodes to \<open>x\<close>; \<open>Bad\<close> is one \<open>json.Unmarshal\<close> rejects, which is what every
  "corrupt" branch of the code tests for.  The metadata bucket holds plain bytes
  and upload records.
\<close>

datatype 'a raw = Enc 'a | Bad

datatype metaval = MBytes string | MUpload upload

subsection \<open>The environment\<close>

record env =
  sha256_hex :: "string \<Rightarrow> string"
  md5_hex :: "string \<Rightarrow> string"
  marshal :: "jrec \<Rightarrow> string"
  unmarshal :: "string \<Rightarrow> jrec option"
  key_fits :: "string \<Rightarrow> bool"
  max_segment :: int

definition NL :: char where "NL = CHR 0x0A"
definition CR :: char where "CR = CHR 0x0D"

text \<open>The longest token \<open>replayFile\<close>'s scanner accepts (\<open>4<<20\<close> bytes, exclusive).\<close>

definition max_line :: nat where "max_line = 4194304"

text \<open>
  What the journal needs of \<open>encoding/json\<close> for one record: the compact encoding is
  one non-empty line that does not end in a carriage return, fits the scanner, and
  decodes to the record.  (It fails for a record whose strings are not UTF-8, which
  JSON cannot carry; the theorems ask for it of the records they write.)
\<close>

definition line_ok :: "env \<Rightarrow> jrec \<Rightarrow> bool" where
  "line_ok E r \<longleftrightarrow>
     unmarshal E (marshal E r) = Some r \<and> NL \<notin> set (marshal E r) \<and> marshal E r \<noteq> [] \<and>
     last (marshal E r) \<noteq> CR \<and> length (marshal E r) < max_line"

end
