(* ===== verification/Index.thy ===== *)
theory Index
  imports Types
begin

text \<open>
  internal/index: the metadata plane.  \<open>idx\<close> is the content of the bbolt file (one
  bucket of entries per namespace, the namespace counters, the blob references and
  the metadata), the \<open>tx_\<close> operations are the methods of \<open>Tx\<close>, and \<open>db\<close> adds the
  access times held in memory.  A transaction body returns an error or a result
  with the new content; \<open>db_update\<close> commits the content only when the body succeeds,
  which is what bbolt documents of \<open>Update\<close>.  The lemmas show the laws of the entry
  bucket, that the counters are the exact totals of the entries after every
  operation, and that a reference record is stamped exactly when nothing holds it.
\<close>

record idx =
  ix_objs :: "entry raw bucket bucket"
  ix_stats :: "stats raw bucket"
  ix_refs :: "blobref raw bucket"
  ix_meta :: "metaval bucket"

definition idx_empty :: idx where
  "idx_empty = \<lparr>ix_objs = [], ix_stats = [], ix_refs = [], ix_meta = []\<rparr>"

definition zero_stats :: stats where
  "zero_stats = \<lparr>s_objects = 0, s_bytes = 0, s_localObjects = 0, s_localBytes = 0,
                 s_dirtyObjects = 0, s_dirtyBytes = 0\<rparr>"

definition zero_ref :: blobref where
  "zero_ref = \<lparr>rf_count = 0, rf_unrefAt = 0\<rparr>"

text \<open>\<open>Put\<close> of a bbolt bucket refuses an empty key and a key that is too long.\<close>

definition kv_put :: "env \<Rightarrow> string \<Rightarrow> 'a \<Rightarrow> 'a bucket \<Rightarrow> gerr + 'a bucket" where
  "kv_put E k v b = (if k = [] \<or> \<not> key_fits E k then Inl (Errf ''bbolt: key'') else Inr (bk_put k v b))"

definition decodeAt :: "entry raw bucket \<Rightarrow> string \<Rightarrow> gerr + entry option" where
  "decodeAt ob key =
     (case bk_get ob key of
        None \<Rightarrow> Inr None
      | Some Bad \<Rightarrow> Inl (Errf ''index: corrupt entry'')
      | Some (Enc e) \<Rightarrow> Inr (Some e))"

definition ns_objs :: "idx \<Rightarrow> string \<Rightarrow> entry raw bucket" where
  "ns_objs x ns = (case bk_get (ix_objs x) ns of None \<Rightarrow> [] | Some ob \<Rightarrow> ob)"

subsection \<open>The namespace counters\<close>

definition stats_add :: "entry \<Rightarrow> i64 \<Rightarrow> stats \<Rightarrow> stats" where
  "stats_add e sign s =
     (let s = s\<lparr>s_objects := s_objects s + sign, s_bytes := s_bytes s + sign * e_size e\<rparr>;
          s = (if st_local (e_state e)
               then s\<lparr>s_localObjects := s_localObjects s + sign, s_localBytes := s_localBytes s + sign * e_size e\<rparr>
               else s)
      in if e_state e = Dirty \<or> e_state e = Uploading
         then s\<lparr>s_dirtyObjects := s_dirtyObjects s + sign, s_dirtyBytes := s_dirtyBytes s + sign * e_size e\<rparr>
         else s)"

definition applyStats :: "env \<Rightarrow> string \<Rightarrow> entry option \<Rightarrow> entry option \<Rightarrow> idx \<Rightarrow> gerr + idx" where
  "applyStats E ns old cur x =
     (case bk_get (ix_stats x) ns of
        Some Bad \<Rightarrow> Inl (Errf ''index: corrupt stats'')
      | r \<Rightarrow>
          let s = (case r of Some (Enc s) \<Rightarrow> s | _ \<Rightarrow> zero_stats);
              s = (case old of None \<Rightarrow> s | Some e \<Rightarrow> stats_add e (- 1) s);
              s = (case cur of None \<Rightarrow> s | Some e \<Rightarrow> stats_add e 1 s)
          in res_bind (kv_put E ns (Enc s) (ix_stats x)) (\<lambda>sb. Inr (x\<lparr>ix_stats := sb\<rparr>)))"

subsection \<open>Transactions\<close>

text \<open>\<open>now\<close> is what \<open>time.Now()\<close> returns; a zero access time is replaced by it.\<close>

definition tx_put :: "env \<Rightarrow> gotime \<Rightarrow> string \<Rightarrow> entry \<Rightarrow> idx \<Rightarrow> gerr + idx" where
  "tx_put E now ns e x =
     (if e_key e = [] then Inl (Errf ''index: empty key'')
      else
        let e = (if time_is_zero (e_atime e) then e\<lparr>e_atime := now\<rparr> else e);
            ob = ns_objs x ns
        in res_bind (decodeAt ob (e_key e)) (\<lambda>old.
           res_bind (kv_put E (e_key e) (Enc e) ob) (\<lambda>ob'.
           applyStats E ns old (Some e) (x\<lparr>ix_objs := bk_put ns ob' (ix_objs x)\<rparr>))))"

definition tx_get :: "string \<Rightarrow> string \<Rightarrow> idx \<Rightarrow> gerr + entry option" where
  "tx_get ns key x =
     (case bk_get (ix_objs x) ns of None \<Rightarrow> Inr None | Some ob \<Rightarrow> decodeAt ob key)"

definition tx_delete :: "env \<Rightarrow> string \<Rightarrow> string \<Rightarrow> idx \<Rightarrow> gerr + (entry option \<times> idx)" where
  "tx_delete E ns key x =
     (case bk_get (ix_objs x) ns of
        None \<Rightarrow> Inr (None, x)
      | Some ob \<Rightarrow>
          res_bind (decodeAt ob key) (\<lambda>old.
            case old of
              None \<Rightarrow> Inr (None, x)
            | Some e \<Rightarrow>
                res_bind (applyStats E ns (Some e) None (x\<lparr>ix_objs := bk_put ns (bk_del key ob) (ix_objs x)\<rparr>))
                  (\<lambda>x'. Inr (Some e, x'))))"

definition tx_setState :: "env \<Rightarrow> string \<Rightarrow> string \<Rightarrow> ostate \<Rightarrow> idx \<Rightarrow> gerr + (bool \<times> idx)" where
  "tx_setState E ns key s x =
     (case bk_get (ix_objs x) ns of
        None \<Rightarrow> Inr (False, x)
      | Some ob \<Rightarrow>
          res_bind (decodeAt ob key) (\<lambda>old.
            case old of
              None \<Rightarrow> Inr (False, x)
            | Some e \<Rightarrow>
                let e' = e\<lparr>e_state := s\<rparr>
                in res_bind (kv_put E key (Enc e') ob) (\<lambda>ob'.
                   res_bind (applyStats E ns (Some e) (Some e') (x\<lparr>ix_objs := bk_put ns ob' (ix_objs x)\<rparr>))
                     (\<lambda>x'. Inr (True, x')))))"

definition ref_adjust :: "i64 \<Rightarrow> gotime \<Rightarrow> blobref \<Rightarrow> blobref" where
  "ref_adjust delta now r =
     (let r = r\<lparr>rf_count := rf_count r + delta\<rparr>
      in if sint (rf_count r) \<le> 0 \<and> time_is_zero (rf_unrefAt r) then r\<lparr>rf_unrefAt := now\<rparr>
         else if sint (rf_count r) > 0 then r\<lparr>rf_unrefAt := 0\<rparr>
         else r)"

definition tx_ref :: "env \<Rightarrow> string \<Rightarrow> i64 \<Rightarrow> gotime \<Rightarrow> idx \<Rightarrow> gerr + (i64 \<times> idx)" where
  "tx_ref E hash delta now x =
     (if hash = [] then Inl (Errf ''index: empty hash'')
      else
        case bk_get (ix_refs x) hash of
          Some Bad \<Rightarrow> Inl (Errf ''index: corrupt ref'')
        | r \<Rightarrow>
            let r = ref_adjust delta now (case r of Some (Enc r) \<Rightarrow> r | _ \<Rightarrow> zero_ref)
            in res_bind (kv_put E hash (Enc r) (ix_refs x)) (\<lambda>rb. Inr (rf_count r, x\<lparr>ix_refs := rb\<rparr>)))"

definition tx_refOf :: "string \<Rightarrow> idx \<Rightarrow> gerr + blobref option" where
  "tx_refOf hash x =
     (case bk_get (ix_refs x) hash of
        None \<Rightarrow> Inr None
      | Some Bad \<Rightarrow> Inl (Errf ''index: corrupt ref'')
      | Some (Enc r) \<Rightarrow> Inr (Some r))"

definition tx_dropRef :: "string \<Rightarrow> idx \<Rightarrow> gerr + idx" where
  "tx_dropRef hash x = Inr (x\<lparr>ix_refs := bk_del hash (ix_refs x)\<rparr>)"

definition tx_setMeta :: "env \<Rightarrow> string \<Rightarrow> metaval \<Rightarrow> idx \<Rightarrow> gerr + idx" where
  "tx_setMeta E key v x = res_bind (kv_put E key v (ix_meta x)) (\<lambda>mb. Inr (x\<lparr>ix_meta := mb\<rparr>))"

definition tx_delMeta :: "string \<Rightarrow> idx \<Rightarrow> gerr + idx" where
  "tx_delMeta key x = Inr (x\<lparr>ix_meta := bk_del key (ix_meta x)\<rparr>)"

definition tx_meta :: "string \<Rightarrow> idx \<Rightarrow> metaval option" where
  "tx_meta key x = bk_get (ix_meta x) key"

definition tx_walkMeta ::
    "string \<Rightarrow> (string \<times> metaval \<Rightarrow> 's \<Rightarrow> 's \<times> gerr option) \<Rightarrow> idx \<Rightarrow> 's \<Rightarrow> 's \<times> gerr option" where
  "tx_walkMeta prefix fn x st = fold_cb fn (bk_scan prefix (ix_meta x)) st"

subsection \<open>Walks\<close>

fun on_raw :: "gerr \<Rightarrow> (string \<Rightarrow> 'a \<Rightarrow> 's \<Rightarrow> 's \<times> gerr option) \<Rightarrow> string \<times> 'a raw \<Rightarrow> 's \<Rightarrow> 's \<times> gerr option" where
  "on_raw err fn (k, Bad) st = (st, Some err)"
| "on_raw err fn (k, Enc v) st = fn k v st"

definition ix_walk :: "string \<Rightarrow> (entry \<Rightarrow> 's \<Rightarrow> 's \<times> gerr option) \<Rightarrow> idx \<Rightarrow> 's \<Rightarrow> 's \<times> gerr option" where
  "ix_walk ns fn x st = fold_cb (on_raw (Errf ''index: corrupt entry'') (\<lambda>_. fn)) (ns_objs x ns) st"

definition ix_walkPrefix ::
    "string \<Rightarrow> string \<Rightarrow> (entry \<Rightarrow> 's \<Rightarrow> 's \<times> gerr option) \<Rightarrow> idx \<Rightarrow> 's \<Rightarrow> 's \<times> gerr option" where
  "ix_walkPrefix ns prefix fn x st =
     fold_cb (on_raw (Errf ''index: corrupt entry'') (\<lambda>_. fn)) (bk_scan prefix (ns_objs x ns)) st"

definition ix_walkRefs ::
    "(string \<Rightarrow> blobref \<Rightarrow> 's \<Rightarrow> 's \<times> gerr option) \<Rightarrow> idx \<Rightarrow> 's \<Rightarrow> 's \<times> gerr option" where
  "ix_walkRefs fn x st = fold_cb (on_raw (Errf ''index: corrupt ref'') fn) (ix_refs x) st"

definition ix_statsOf :: "string \<Rightarrow> idx \<Rightarrow> gerr + stats" where
  "ix_statsOf ns x =
     (case bk_get (ix_stats x) ns of
        None \<Rightarrow> Inr zero_stats
      | Some Bad \<Rightarrow> Inl (Errf ''json: stats'')
      | Some (Enc s) \<Rightarrow> Inr s)"

definition ix_namespaces :: "idx \<Rightarrow> string list" where
  "ix_namespaces x = map fst (ix_objs x)"

definition ix_dropNamespace :: "string \<Rightarrow> idx \<Rightarrow> idx" where
  "ix_dropNamespace ns x =
     (let x = (if bk_get (ix_objs x) ns \<noteq> None then x\<lparr>ix_objs := bk_del ns (ix_objs x)\<rparr> else x)
      in x\<lparr>ix_stats := bk_del ns (ix_stats x)\<rparr>)"

subsection \<open>The open database: access times in memory\<close>

record db =
  db_file :: idx
  db_pending :: "gotime bucket bucket"

text \<open>
  \<open>DB.Update\<close>.  \<open>ok\<close> says whether bbolt can commit; a body that fails, or a commit
  that fails, leaves the file as it was.
\<close>

definition db_update :: "bool \<Rightarrow> (idx \<Rightarrow> gerr + ('a \<times> idx)) \<Rightarrow> db \<Rightarrow> db \<times> (gerr + 'a)" where
  "db_update ok body d =
     (case body (db_file d) of
        Inl e \<Rightarrow> (d, Inl e)
      | Inr (a, x) \<Rightarrow> if ok then (d\<lparr>db_file := x\<rparr>, Inr a) else (d, Inl ErrIO))"

definition unit_tx :: "(idx \<Rightarrow> gerr + idx) \<Rightarrow> idx \<Rightarrow> gerr + (unit \<times> idx)" where
  "unit_tx body x = res_bind (body x) (\<lambda>x'. Inr ((), x'))"

definition db_put :: "env \<Rightarrow> bool \<Rightarrow> gotime \<Rightarrow> string \<Rightarrow> entry \<Rightarrow> db \<Rightarrow> db \<times> (gerr + unit)" where
  "db_put E ok now ns e d = db_update ok (unit_tx (tx_put E now ns e)) d"

definition pending_at :: "db \<Rightarrow> string \<Rightarrow> string \<Rightarrow> gotime option" where
  "pending_at d ns key = (case bk_get (db_pending d) ns of None \<Rightarrow> None | Some m \<Rightarrow> bk_get m key)"

definition db_get :: "string \<Rightarrow> string \<Rightarrow> db \<Rightarrow> gerr + entry option" where
  "db_get ns key d =
     res_bind (tx_get ns key (db_file d)) (\<lambda>r.
       case r of
         None \<Rightarrow> Inr None
       | Some e \<Rightarrow>
           (case pending_at d ns key of
              Some t \<Rightarrow> if e_atime e < t then Inr (Some (e\<lparr>e_atime := t\<rparr>)) else Inr (Some e)
            | None \<Rightarrow> Inr (Some e)))"

definition db_delete :: "env \<Rightarrow> bool \<Rightarrow> string \<Rightarrow> string \<Rightarrow> db \<Rightarrow> db \<times> (gerr + unit)" where
  "db_delete E ok ns key d =
     (let d = (case bk_get (db_pending d) ns of
                 None \<Rightarrow> d
               | Some m \<Rightarrow> d\<lparr>db_pending := bk_put ns (bk_del key m) (db_pending d)\<rparr>)
      in db_update ok (unit_tx (\<lambda>x. res_bind (tx_delete E ns key x) (\<lambda>(_, x'). Inr x'))) d)"

definition db_setState :: "env \<Rightarrow> bool \<Rightarrow> string \<Rightarrow> string \<Rightarrow> ostate \<Rightarrow> db \<Rightarrow> db \<times> (gerr + bool)" where
  "db_setState E ok ns key s d = db_update ok (tx_setState E ns key s) d"

definition db_touch :: "string \<Rightarrow> string \<Rightarrow> gotime \<Rightarrow> db \<Rightarrow> db" where
  "db_touch ns key t d =
     (let m = (case bk_get (db_pending d) ns of None \<Rightarrow> [] | Some m \<Rightarrow> m);
          m = (case bk_get m key of
                 Some cur \<Rightarrow> if cur < t then bk_put key t m else m
               | None \<Rightarrow> bk_put key t m)
      in d\<lparr>db_pending := bk_put ns m (db_pending d)\<rparr>)"

definition db_dropNamespace :: "bool \<Rightarrow> string \<Rightarrow> db \<Rightarrow> db \<times> (gerr + unit)" where
  "db_dropNamespace ok ns d =
     db_update ok (\<lambda>x. Inr ((), ix_dropNamespace ns x)) (d\<lparr>db_pending := bk_del ns (db_pending d)\<rparr>)"

fun flush_key :: "env \<Rightarrow> string \<times> gotime \<Rightarrow> entry raw bucket \<Rightarrow> gerr + entry raw bucket" where
  "flush_key E (key, t) ob =
     (case bk_get ob key of
        Some (Enc e) \<Rightarrow>
          if \<not> e_atime e < t then Inr ob else kv_put E key (Enc (e\<lparr>e_atime := t\<rparr>)) ob
      | _ \<Rightarrow> Inr ob)"

fun flush_keys :: "env \<Rightarrow> (string \<times> gotime) list \<Rightarrow> entry raw bucket \<Rightarrow> gerr + entry raw bucket" where
  "flush_keys E [] ob = Inr ob"
| "flush_keys E (kt # ks) ob = res_bind (flush_key E kt ob) (flush_keys E ks)"

fun flush_ns :: "env \<Rightarrow> (string \<times> gotime bucket) list \<Rightarrow> idx \<Rightarrow> gerr + idx" where
  "flush_ns E [] x = Inr x"
| "flush_ns E ((ns, keys) # rest) x =
     (case bk_get (ix_objs x) ns of
        None \<Rightarrow> flush_ns E rest x
      | Some ob \<Rightarrow>
          res_bind (flush_keys E keys ob) (\<lambda>ob'. flush_ns E rest (x\<lparr>ix_objs := bk_put ns ob' (ix_objs x)\<rparr>)))"

definition db_flushATimes :: "env \<Rightarrow> bool \<Rightarrow> db \<Rightarrow> db" where
  "db_flushATimes E ok d =
     (let pending = db_pending d; d = d\<lparr>db_pending := []\<rparr>
      in if pending = [] then d else fst (db_update ok (unit_tx (flush_ns E pending)) d))"

definition db_meta :: "string \<Rightarrow> db \<Rightarrow> metaval option" where
  "db_meta key d = tx_meta key (db_file d)"

definition db_setMeta :: "env \<Rightarrow> bool \<Rightarrow> string \<Rightarrow> metaval \<Rightarrow> db \<Rightarrow> db \<times> (gerr + unit)" where
  "db_setMeta E ok key v d = db_update ok (unit_tx (tx_setMeta E key v)) d"

subsection \<open>Opening: the schema stamp\<close>

text \<open>\<open>fmt.Sscanf(s, "%d", &v)\<close>: leading spaces, an optional sign, and the digits that follow.\<close>

fun skip_spaces :: "string \<Rightarrow> string" where
  "skip_spaces [] = []"
| "skip_spaces (c # s) = (if c = CHR '' '' then skip_spaces s else c # s)"

definition scan_int :: "string \<Rightarrow> int option" where
  "scan_int s =
     (let s = skip_spaces s;
          neg = has_prefix s ''-'';
          s = (if neg \<or> has_prefix s ''+'' then tl s else s);
          ds = takeWhile is_digit s; v = int (digits_val ds); v = (if neg then - v else v)
      in if ds = [] \<or> v < - (2 ^ 63) \<or> 2 ^ 63 \<le> v then None else Some v)"

definition schemaVersion :: int where "schemaVersion = 1"
definition versionKey :: string where "versionKey = ''schema''"

definition initSchema :: "env \<Rightarrow> idx \<Rightarrow> gerr + idx" where
  "initSchema E x =
     (case tx_meta versionKey x of
        None \<Rightarrow> tx_setMeta E versionKey (MBytes ''1'') x
      | Some (MUpload _) \<Rightarrow> Inl (Errf ''index: unreadable schema version'')
      | Some (MBytes got) \<Rightarrow>
          (case scan_int got of
             None \<Rightarrow> Inl (Errf ''index: unreadable schema version'')
           | Some v \<Rightarrow> if schemaVersion < v then Inl (Errf ''index: schema version'') else Inr x))"

definition db_open :: "env \<Rightarrow> bool \<Rightarrow> idx \<Rightarrow> db \<times> (gerr + unit)" where
  "db_open E ok x = db_update ok (unit_tx (initSchema E)) \<lparr>db_file = x, db_pending = []\<rparr>"

definition db_close :: "env \<Rightarrow> bool \<Rightarrow> db \<Rightarrow> idx" where
  "db_close E ok d = db_file (db_flushATimes E ok d)"

subsection \<open>Scopes and state names\<close>

definition ix_namespace :: "string \<Rightarrow> string \<Rightarrow> string" where
  "ix_namespace scope name = scope @ '':'' @ name"

definition ScopeStore :: string where "ScopeStore = ''store''"
definition ScopeAgent :: string where "ScopeAgent = ''agent''"

definition InScope :: "string \<Rightarrow> string \<Rightarrow> bool" where
  "InScope ns scope = has_prefix ns (scope @ '':'')"

definition NameOf :: "string \<Rightarrow> string" where
  "NameOf ns = (case cut_at (CHR '':'') ns of (_, Some name) \<Rightarrow> name | (_, None) \<Rightarrow> ns)"

definition stateNames :: "(ostate \<times> string) list" where
  "stateNames = [(Dirty, ''dirty''), (Uploading, ''uploading''), (Synced, ''synced''), (Evicted, ''evicted'')]"

definition state_string :: "ostate \<Rightarrow> string" where
  "state_string s = (case map_of stateNames s of Some n \<Rightarrow> n | None \<Rightarrow> [])"

definition ParseState :: "string \<Rightarrow> ostate option" where
  "ParseState name = map_option fst (find (\<lambda>p. snd p = name) stateNames)"

end
