(* ===== verification/Blob.thy ===== *)
theory Blob
  imports Types
begin

text \<open>
  internal/blob: the content-addressed store.  The state is the two directories under
  the root: the files below \<open>blobs/\<close>, keyed by their path, and the files in \<open>tmp/\<close>,
  keyed by their name.  A file is its bytes and its modification time.  \<open>Put\<close> takes
  the outcome of its system calls as an argument (\<open>blob_fault\<close>), so every error branch
  is a branch of the model; a reader is the bytes it delivers and the error it ends
  with, if any.  The lemmas show that a valid name always holds content with that
  digest, that \<open>Put\<close> adds the content and touches nothing else, that no branch leaves
  a temporary file, and that a name is a path below \<open>blobs/\<close> and nowhere else.
\<close>

record bfile =
  f_data :: string
  f_mtime :: gotime

record blobfs =
  bf_blobs :: "bfile bucket"
  bf_tmp :: "bfile bucket"

record blobInfo =
  bi_hash :: string
  bi_md5 :: string
  bi_size :: i64
  bi_deduped :: bool

type_synonym reader = "string \<times> gerr option"

definition blobs_empty :: blobfs where
  "blobs_empty = \<lparr>bf_blobs = [], bf_tmp = []\<rparr>"

subsection \<open>Names and paths\<close>

definition is_lower_hex :: "char \<Rightarrow> bool" where
  "is_lower_hex c \<longleftrightarrow> is_digit c \<or> (97 \<le> (of_char c :: nat) \<and> (of_char c :: nat) \<le> 102)"

definition ValidHash :: "string \<Rightarrow> bool" where
  "ValidHash h \<longleftrightarrow> length h = 64 \<and> list_all is_lower_hex h"

definition blobsDir :: string where "blobsDir = ''blobs''"
definition fanoutLen :: nat where "fanoutLen = 2"

text \<open>The path below the store root; a malformed hash has none.\<close>

definition blob_Path :: "string \<Rightarrow> string" where
  "blob_Path hash =
     (if \<not> ValidHash hash then []
      else path_join [blobsDir, take fanoutLen hash, take fanoutLen (drop fanoutLen hash), hash])"

definition base_name :: "string \<Rightarrow> string" where
  "base_name p = rev (takeWhile (\<lambda>c. c \<noteq> CHR ''/'') (rev p))"

subsection \<open>Put\<close>

text \<open>
  Where a \<open>Put\<close> fails.  \<open>BF_rename f\<close> is a rename that fails; \<open>Some f\<close> is the case where
  another \<open>Put\<close> of the same content has created the destination since the \<open>Stat\<close>.
\<close>

datatype blob_fault =
    BF_none | BF_rand | BF_create | BF_write | BF_sync | BF_close | BF_mkdir
  | BF_rename "bfile option" | BF_syncdir

definition newTemp :: "blob_fault \<Rightarrow> gotime \<Rightarrow> string \<Rightarrow> blobfs \<Rightarrow> gerr + blobfs" where
  "newTemp flt now name fs =
     (if flt = BF_rand then Inl (Errf ''blob store: temp name'')
      else if flt = BF_create \<or> bk_get (bf_tmp fs) name \<noteq> None then Inl (Errf ''blob store: create temp'')
      else Inr (fs\<lparr>bf_tmp := bk_put name \<lparr>f_data = [], f_mtime = now\<rparr> (bf_tmp fs)\<rparr>))"

text \<open>The part of \<open>Put\<close> between the close of the temporary file and the return.\<close>

definition blob_commit :: "blob_fault \<Rightarrow> string \<Rightarrow> blobInfo \<Rightarrow> blobfs \<Rightarrow> blobfs \<times> (gerr + blobInfo)" where
  "blob_commit flt name info fs =
     (let dst = blob_Path (bi_hash info)
      in if bk_get (bf_blobs fs) dst \<noteq> None then (fs, Inr (info\<lparr>bi_deduped := True\<rparr>))
         else if flt = BF_mkdir then (fs, Inl (Errf ''blob store: create''))
         else
           (case flt of
              BF_rename (Some f) \<Rightarrow>
                (fs\<lparr>bf_blobs := bk_put dst f (bf_blobs fs)\<rparr>, Inr (info\<lparr>bi_deduped := True\<rparr>))
            | BF_rename None \<Rightarrow> (fs, Inl (Errf ''blob store: rename''))
            | _ \<Rightarrow>
                (case bk_get (bf_tmp fs) name of
                   None \<Rightarrow> (fs, Inl (Errf ''blob store: rename''))
                 | Some f \<Rightarrow>
                     let fs = fs\<lparr>bf_blobs := bk_put dst f (bf_blobs fs), bf_tmp := bk_del name (bf_tmp fs)\<rparr>
                     in if flt = BF_syncdir then (fs, Inl (Errf ''blob store: sync dir''))
                        else (fs, Inr info))))"

definition drop_tmp :: "string \<Rightarrow> blobfs \<Rightarrow> blobfs" where
  "drop_tmp name fs = fs\<lparr>bf_tmp := bk_del name (bf_tmp fs)\<rparr>"

text \<open>\<open>name\<close> is the random name the temporary file gets; the deferred call removes it on every return.\<close>

definition blob_put ::
    "env \<Rightarrow> blob_fault \<Rightarrow> gotime \<Rightarrow> string \<Rightarrow> reader \<Rightarrow> blobfs \<Rightarrow> blobfs \<times> (gerr + blobInfo)" where
  "blob_put E flt now name r fs =
     (case newTemp flt now name fs of
        Inl e \<Rightarrow> (fs, Inl e)
      | Inr fs1 \<Rightarrow>
          let data = fst r;
              fs2 = fs1\<lparr>bf_tmp := bk_put name \<lparr>f_data = data, f_mtime = now\<rparr> (bf_tmp fs1)\<rparr>;
              res = (if flt = BF_write \<or> snd r \<noteq> None then (fs2, Inl (Errf ''blob store: write''))
                     else if flt = BF_sync then (fs2, Inl (Errf ''blob store: sync''))
                     else if flt = BF_close then (fs2, Inl (Errf ''blob store: close''))
                     else blob_commit flt name
                            \<lparr>bi_hash = sha256_hex E data, bi_md5 = md5_hex E data,
                             bi_size = of_nat (length data), bi_deduped = False\<rparr> fs2)
          in (drop_tmp name (fst res), snd res))"

subsection \<open>The other operations\<close>

definition blob_open :: "string \<Rightarrow> blobfs \<Rightarrow> gerr + string" where
  "blob_open hash fs =
     (if \<not> ValidHash hash then Inl (Errf ''invalid blob hash'')
      else case bk_get (bf_blobs fs) (blob_Path hash) of
             None \<Rightarrow> Inl (ErrBlobNotFound hash)
           | Some f \<Rightarrow> Inr (f_data f))"

definition blob_stat :: "string \<Rightarrow> blobfs \<Rightarrow> gerr + i64 option" where
  "blob_stat hash fs =
     (if \<not> ValidHash hash then Inl (Errf ''invalid blob hash'')
      else Inr (map_option (\<lambda>f. of_nat (length (f_data f))) (bk_get (bf_blobs fs) (blob_Path hash))))"

text \<open>\<open>ok\<close> says whether the operating system lets the file be removed.\<close>

definition blob_remove :: "bool \<Rightarrow> string \<Rightarrow> blobfs \<Rightarrow> blobfs \<times> gerr option" where
  "blob_remove ok hash fs =
     (if \<not> ValidHash hash then (fs, Some (Errf ''invalid blob hash''))
      else if bk_get (bf_blobs fs) (blob_Path hash) = None then (fs, None)
      else if \<not> ok then (fs, Some ErrIO)
      else (fs\<lparr>bf_blobs := bk_del (blob_Path hash) (bf_blobs fs)\<rparr>, None))"

record walked =
  wk_hash :: string
  wk_size :: i64
  wk_mod :: gotime
  wk_bad :: bool

definition walk_item :: "string \<times> bfile \<Rightarrow> walked" where
  "walk_item p =
     \<lparr>wk_hash = base_name (fst p), wk_size = of_nat (length (f_data (snd p))), wk_mod = f_mtime (snd p),
      wk_bad = (\<not> ValidHash (base_name (fst p)))\<rparr>"

definition blob_walk :: "(walked \<Rightarrow> 's \<Rightarrow> 's \<times> gerr option) \<Rightarrow> blobfs \<Rightarrow> 's \<Rightarrow> 's \<times> gerr option" where
  "blob_walk fn fs st = fold_cb fn (map walk_item (bf_blobs fs)) st"

definition blob_verify :: "env \<Rightarrow> string \<Rightarrow> blobfs \<Rightarrow> gerr + bool" where
  "blob_verify E hash fs = res_bind (blob_open hash fs) (\<lambda>data. Inr (sha256_hex E data = hash))"

definition HashOf :: "env \<Rightarrow> string \<Rightarrow> string" where
  "HashOf E b = sha256_hex E b"

definition blob_usage :: "blobfs \<Rightarrow> (i64 \<times> i64) \<times> gerr option" where
  "blob_usage fs =
     blob_walk (\<lambda>w (count, bytes). if wk_bad w then ((count, bytes), None)
                                    else ((count + 1, bytes + wk_size w), None)) fs (0, 0)"

fun clear_names :: "(string \<Rightarrow> bool) \<Rightarrow> string list \<Rightarrow> blobfs \<Rightarrow> blobfs \<times> gerr option" where
  "clear_names rm [] fs = (fs, None)"
| "clear_names rm (n # ns) fs =
     (if rm n then clear_names rm ns (drop_tmp n fs) else (fs, Some (Errf ''blob store: clear temp'')))"

definition clearTmp :: "(string \<Rightarrow> bool) \<Rightarrow> blobfs \<Rightarrow> blobfs \<times> gerr option" where
  "clearTmp rm fs = clear_names rm (map fst (bf_tmp fs)) fs"

definition blob_open_store :: "(string \<Rightarrow> bool) \<Rightarrow> blobfs \<Rightarrow> blobfs \<times> gerr option" where
  "blob_open_store rm fs = clearTmp rm fs"

subsection \<open>A name is a path below blobs/\<close>

lemma hex_not_slash: "is_lower_hex c \<Longrightarrow> c \<noteq> CHR ''/'' \<and> c \<noteq> CHR ''.''"
  by (auto simp: is_lower_hex_def is_digit_def)

lemma ValidHash_no_slash: "ValidHash h \<Longrightarrow> CHR ''/'' \<notin> set h"
  by (auto simp: ValidHash_def list_all_iff dest: hex_not_slash)

lemma blob_Path_valid:
  "ValidHash h \<Longrightarrow> blob_Path h = ''blobs/'' @ take 2 h @ ''/'' @ take 2 (drop 2 h) @ ''/'' @ h"
  by (simp add: blob_Path_def blobsDir_def fanoutLen_def)

lemma base_name_append: "CHR ''/'' \<notin> set h \<Longrightarrow> base_name (p @ ''/'' @ h) = h"
  by (simp add: base_name_def takeWhile_append)

lemma base_name_Path [simp]: "ValidHash h \<Longrightarrow> base_name (blob_Path h) = h"
  using base_name_append [of h "''blobs/'' @ take 2 h @ ''/'' @ take 2 (drop 2 h)"]
  by (simp add: blob_Path_valid ValidHash_no_slash)

lemma blob_Path_inject: "ValidHash h \<Longrightarrow> ValidHash k \<Longrightarrow> blob_Path h = blob_Path k \<longleftrightarrow> h = k"
  by (metis base_name_Path)

subsection \<open>The content invariant\<close>

text \<open>What the code relies on of sha256: its hexadecimal form is a valid name.\<close>

definition sha_ok :: "env \<Rightarrow> bool" where
  "sha_ok E \<longleftrightarrow> (\<forall>d. ValidHash (sha256_hex E d))"

definition blob_at :: "blobfs \<Rightarrow> string \<Rightarrow> string option" where
  "blob_at fs h = (if ValidHash h then map_option f_data (bk_get (bf_blobs fs) (blob_Path h)) else None)"

definition blob_inv :: "env \<Rightarrow> blobfs \<Rightarrow> bool" where
  "blob_inv E fs \<longleftrightarrow> bk_ok (bf_blobs fs) \<and> bk_ok (bf_tmp fs) \<and> (\<forall>h d. blob_at fs h = Some d \<longrightarrow> sha256_hex E d = h)"

text \<open>No two contents this store has seen collide.\<close>

definition no_collision :: "env \<Rightarrow> blobfs \<Rightarrow> string \<Rightarrow> bool" where
  "no_collision E fs d \<longleftrightarrow> (\<forall>h d'. blob_at fs h = Some d' \<longrightarrow> sha256_hex E d' = sha256_hex E d \<longrightarrow> d' = d)"

lemma blob_inv_empty [simp]: "blob_inv E blobs_empty"
  by (simp add: blob_inv_def blobs_empty_def blob_at_def)

lemma blob_open_at: "blob_open h fs = Inr d \<longleftrightarrow> blob_at fs h = Some d"
  by (auto simp: blob_open_def blob_at_def split: option.splits)

lemma blob_stat_at: "ValidHash h \<Longrightarrow> blob_stat h fs = Inr (map_option (\<lambda>d. of_nat (length d)) (blob_at fs h))"
  by (simp add: blob_stat_def blob_at_def option.map_comp comp_def)

lemma blob_at_valid: "blob_at fs h = Some d \<Longrightarrow> ValidHash h"
  by (auto simp: blob_at_def split: if_splits)

lemma blob_at_put:
  "ValidHash h \<Longrightarrow> blob_at (fs\<lparr>bf_blobs := bk_put (blob_Path h) f (bf_blobs fs)\<rparr>) = (blob_at fs)(h \<mapsto> f_data f)"
  by (auto simp: blob_at_def fun_eq_iff blob_Path_inject)

lemma blob_at_tmp [simp]: "blob_at (fs\<lparr>bf_tmp := t\<rparr>) = blob_at fs"
  by (simp add: blob_at_def fun_eq_iff)

lemma blob_at_del:
  "ValidHash h \<Longrightarrow> blob_at (fs\<lparr>bf_blobs := bk_del (blob_Path h) (bf_blobs fs)\<rparr>) = (blob_at fs)(h := None)"
  by (auto simp: blob_at_def fun_eq_iff blob_Path_inject)

text \<open>The file another writer may have put in place carries the same content.\<close>

definition fault_ok :: "env \<Rightarrow> blob_fault \<Rightarrow> string \<Rightarrow> bool" where
  "fault_ok E flt d \<longleftrightarrow> (case flt of BF_rename (Some f) \<Rightarrow> f_data f = d | _ \<Rightarrow> True)"

lemma fault_ok_none [simp]: "fault_ok E BF_none d"
  by (simp add: fault_ok_def)

lemma blob_commit_effect:
  assumes tmp: "bk_get (bf_tmp fs) name = Some \<lparr>f_data = d, f_mtime = now\<rparr>"
    and h: "bi_hash info = sha256_hex E d" "sha_ok E" "fault_ok E flt d"
    and res: "blob_commit flt name info fs = (fs', r)"
  shows "(blob_at fs' = blob_at fs \<or> blob_at fs (bi_hash info) = None \<and> blob_at fs' = (blob_at fs)(bi_hash info \<mapsto> d)) \<and>
    (\<forall>i. r = Inr i \<longrightarrow> i = info\<lparr>bi_deduped := bi_deduped i\<rparr> \<and> blob_at fs' (bi_hash info) \<noteq> None) \<and>
    (bf_tmp fs' = bf_tmp fs \<or> bf_tmp fs' = bk_del name (bf_tmp fs)) \<and>
    (bk_ok (bf_blobs fs) \<longrightarrow> bk_ok (bf_blobs fs'))"
proof -
  have v: "ValidHash (bi_hash info)" using h by (simp add: sha_ok_def)
  have none: "bk_get (bf_blobs fs) (blob_Path (bi_hash info)) = None \<longleftrightarrow> blob_at fs (bi_hash info) = None"
    using v by (simp add: blob_at_def)
  note put = blob_at_put [OF v]
  show ?thesis
  proof (cases "bk_get (bf_blobs fs) (blob_Path (bi_hash info))")
    case (Some f)
    with res none show ?thesis by (auto simp: blob_commit_def)
  next
    case None
    with res none tmp h(3) show ?thesis
      by (cases flt) (auto simp: blob_commit_def Let_def fault_ok_def put split: option.splits if_splits)
  qed
qed

text \<open>
  What one \<open>Put\<close> does to the stored contents: it adds the content it read or leaves
  them alone, on success the content's digest is present, and the temporary directory
  is as before on every branch.
\<close>

lemma blob_put_effect:
  assumes "sha_ok E" "fault_ok E flt (fst r)" and res: "blob_put E flt now name r fs = (fs', res')"
  shows "blob_at fs' = blob_at fs \<or>
      blob_at fs (sha256_hex E (fst r)) = None \<and> blob_at fs' = (blob_at fs)(sha256_hex E (fst r) \<mapsto> fst r)"
    and "res' = Inr i \<Longrightarrow> bi_hash i = sha256_hex E (fst r) \<and> bi_md5 i = md5_hex E (fst r) \<and>
      bi_size i = of_nat (length (fst r)) \<and> blob_at fs' (bi_hash i) \<noteq> None \<and> snd r = None"
    and "bk_get (bf_tmp fs') = bk_get (bf_tmp fs)"
    and "bk_ok (bf_blobs fs) \<Longrightarrow> bk_ok (bf_tmp fs) \<Longrightarrow> bk_ok (bf_blobs fs') \<and> bk_ok (bf_tmp fs')"
proof -
  let ?d = "fst r"
  let ?fs2 = "fs\<lparr>bf_tmp := bk_put name \<lparr>f_data = ?d, f_mtime = now\<rparr> (bk_put name \<lparr>f_data = [], f_mtime = now\<rparr> (bf_tmp fs))\<rparr>"
  let ?info = "\<lparr>bi_hash = sha256_hex E ?d, bi_md5 = md5_hex E ?d, bi_size = of_nat (length ?d), bi_deduped = False\<rparr>"
  obtain fs3 r3 where c: "blob_commit flt name ?info ?fs2 = (fs3, r3)" by force
  have tmp: "bk_get (bf_tmp ?fs2) name = Some \<lparr>f_data = ?d, f_mtime = now\<rparr>" by simp
  note eff = blob_commit_effect [OF tmp _ assms(1,2) c, simplified]
  have A: "(blob_at fs' = blob_at fs \<or>
      blob_at fs (sha256_hex E ?d) = None \<and> blob_at fs' = (blob_at fs)(sha256_hex E ?d \<mapsto> ?d)) \<and>
    (\<forall>i. res' = Inr i \<longrightarrow> bi_hash i = sha256_hex E ?d \<and> bi_md5 i = md5_hex E ?d \<and>
      bi_size i = of_nat (length ?d) \<and> blob_at fs' (bi_hash i) \<noteq> None \<and> snd r = None) \<and>
    (bk_get (bf_tmp fs') = bk_get (bf_tmp fs)) \<and>
    (bk_ok (bf_blobs fs) \<longrightarrow> bk_ok (bf_tmp fs) \<longrightarrow> bk_ok (bf_blobs fs') \<and> bk_ok (bf_tmp fs'))"
  proof (cases "newTemp flt now name fs")
    case (Inl e)
    with res show ?thesis by (auto simp: blob_put_def)
  next
    case (Inr fs1)
    then have fs1: "fs1 = fs\<lparr>bf_tmp := bk_put name \<lparr>f_data = [], f_mtime = now\<rparr> (bf_tmp fs)\<rparr>"
      and free: "bk_get (bf_tmp fs) name = None" by (auto simp: newTemp_def split: if_splits)
    have tmps: "bk_get (bk_del name (bf_tmp ?fs2)) = bk_get (bf_tmp fs)"
      "bk_get (bk_del name (bk_del name (bf_tmp ?fs2))) = bk_get (bf_tmp fs)"
      using free by (auto simp: fun_eq_iff)
    show ?thesis
    proof (cases "flt = BF_write \<or> snd r \<noteq> None \<or> flt = BF_sync \<or> flt = BF_close")
      case True
      then have "fs' = drop_tmp name ?fs2 \<and> isl res'"
        using res Inr fs1 by (auto simp: blob_put_def Let_def split: if_splits)
      then show ?thesis using tmps by (auto simp: drop_tmp_def)
    next
      case False
      then have "fs' = drop_tmp name fs3" "res' = r3" "snd r = None"
        using res Inr fs1 c by (auto simp: blob_put_def Let_def split: if_splits)
      then have at: "blob_at fs' = blob_at fs3" and bl: "bf_blobs fs' = bf_blobs fs3"
        and t: "bf_tmp fs' = bk_del name (bf_tmp fs3)" by (simp_all add: drop_tmp_def)
      from eff have e1: "blob_at fs3 = blob_at fs \<or>
          blob_at fs (sha256_hex E ?d) = None \<and> blob_at fs3 = (blob_at fs)(sha256_hex E ?d \<mapsto> ?d)"
        by (rule conjunct1)
      from eff have e2: "\<forall>i. r3 = Inr i \<longrightarrow> i = ?info\<lparr>bi_deduped := bi_deduped i\<rparr> \<and> blob_at fs3 (sha256_hex E ?d) \<noteq> None"
        by (elim conjE) simp
      from eff have e3: "bf_tmp fs3 = bf_tmp ?fs2 \<or> bf_tmp fs3 = bk_del name (bf_tmp ?fs2)" by simp
      then have g: "bk_get (bf_tmp fs') = bk_get (bf_tmp fs)" using tmps t by (elim disjE) simp_all
      from eff have e4: "bk_ok (bf_blobs fs) \<longrightarrow> bk_ok (bf_blobs fs3)" by (elim conjE)
      have k: "bk_ok (bf_tmp fs) \<longrightarrow> bk_ok (bf_tmp fs')" using e3 t by (elim disjE) auto
      have m: "bi_hash i = sha256_hex E ?d \<and> bi_md5 i = md5_hex E ?d \<and> bi_size i = of_nat (length ?d) \<and>
          blob_at fs' (bi_hash i) \<noteq> None \<and> snd r = None" if "res' = Inr i" for i
      proof -
        from e2 that \<open>res' = r3\<close> have "i = ?info\<lparr>bi_deduped := bi_deduped i\<rparr>" "blob_at fs3 (sha256_hex E ?d) \<noteq> None"
          by blast+
        then show ?thesis using at \<open>snd r = None\<close> by (metis blobInfo.select_convs(1-3) blobInfo.update_convs(4))
      qed
      show ?thesis using e1 m g e4 k unfolding at bl by blast
    qed
  qed
  from A show "blob_at fs' = blob_at fs \<or>
      blob_at fs (sha256_hex E ?d) = None \<and> blob_at fs' = (blob_at fs)(sha256_hex E ?d \<mapsto> ?d)"
    by (rule conjunct1)
  from A have B: "\<forall>i. res' = Inr i \<longrightarrow> bi_hash i = sha256_hex E ?d \<and> bi_md5 i = md5_hex E ?d \<and>
      bi_size i = of_nat (length ?d) \<and> blob_at fs' (bi_hash i) \<noteq> None \<and> snd r = None"
    by (elim conjE)
  then show "res' = Inr i \<Longrightarrow> bi_hash i = sha256_hex E ?d \<and> bi_md5 i = md5_hex E ?d \<and>
      bi_size i = of_nat (length ?d) \<and> blob_at fs' (bi_hash i) \<noteq> None \<and> snd r = None"
    by (rule allE) (erule mp)
  from A show "bk_get (bf_tmp fs') = bk_get (bf_tmp fs)" by (elim conjE)
  from A show "bk_ok (bf_blobs fs) \<Longrightarrow> bk_ok (bf_tmp fs) \<Longrightarrow> bk_ok (bf_blobs fs') \<and> bk_ok (bf_tmp fs')"
    by (elim conjE) (drule (1) mp, drule (1) mp)
qed

lemma blob_put_inv:
  assumes "sha_ok E" "fault_ok E flt (fst r)" "blob_inv E fs" "blob_put E flt now name r fs = (fs', res')"
  shows "blob_inv E fs'"
  using blob_put_effect(1,4) [OF assms(1,2,4)] assms(3) unfolding blob_inv_def
  by (auto split: if_splits)

text \<open>A \<open>Put\<close> that returns has the content it read under the returned name.\<close>

lemma blob_put_readable:
  assumes "sha_ok E" "fault_ok E flt (fst r)" "blob_inv E fs" "no_collision E fs (fst r)"
    and "blob_put E flt now name r fs = (fs', Inr i)"
  shows "blob_at fs' (bi_hash i) = Some (fst r)"
proof -
  note put = blob_put_effect(1) [OF assms(1,2,5)] and res = blob_put_effect(2) [OF assms(1,2,5) refl]
  from put show ?thesis
  proof
    assume same: "blob_at fs' = blob_at fs"
    with res obtain d where d: "blob_at fs (bi_hash i) = Some d" by auto
    with assms(3) have "sha256_hex E d = sha256_hex E (fst r)" using res by (auto simp: blob_inv_def)
    with assms(4) d have "d = fst r" by (auto simp: no_collision_def)
    with d same show ?thesis by simp
  next
    assume "blob_at fs (sha256_hex E (fst r)) = None \<and> blob_at fs' = (blob_at fs)(sha256_hex E (fst r) \<mapsto> fst r)"
    with res show ?thesis by simp
  qed
qed

text \<open>What was stored stays stored.\<close>

lemma blob_put_keeps:
  assumes "sha_ok E" "fault_ok E flt (fst r)" "blob_put E flt now name r fs = (fs', res')" "blob_at fs h = Some d"
  shows "blob_at fs' h = Some d"
  using blob_put_effect(1) [OF assms(1,2,3)] assms(4) by (auto split: if_splits)

subsection \<open>Removal, verification, and opening\<close>

lemma blob_remove_effect:
  assumes "blob_remove ok h fs = (fs', e)"
  shows "blob_at fs' = (if e = None then (blob_at fs)(h := None) else blob_at fs)" "bf_tmp fs' = bf_tmp fs"
    "blob_inv E fs \<Longrightarrow> blob_inv E fs'"
proof -
  show at: "blob_at fs' = (if e = None then (blob_at fs)(h := None) else blob_at fs)"
    using assms by (auto simp: blob_remove_def blob_at_def blob_Path_inject fun_eq_iff split: if_splits)
  show t: "bf_tmp fs' = bf_tmp fs" using assms by (auto simp: blob_remove_def split: if_splits)
  assume "blob_inv E fs"
  moreover from this have "bk_ok (bf_blobs fs')" using assms by (auto simp: blob_inv_def blob_remove_def split: if_splits)
  ultimately show "blob_inv E fs'" using at t by (auto simp: blob_inv_def split: if_splits)
qed

lemma blob_verify_inv: "blob_inv E fs \<Longrightarrow> blob_at fs h \<noteq> None \<Longrightarrow> blob_verify E h fs = Inr True"
  by (auto simp: blob_verify_def blob_inv_def res_bind_Inr blob_open_at)

lemma clear_names_all: "clear_names (\<lambda>_. True) ns fs = (fs\<lparr>bf_tmp := filter (\<lambda>p. fst p \<notin> set ns) (bf_tmp fs)\<rparr>, None)"
  by (induction ns arbitrary: fs) (auto simp: drop_tmp_def bk_del_def intro!: arg_cong [where f = "\<lambda>t. fs\<lparr>bf_tmp := t\<rparr>" for fs] filter_cong)

lemma clearTmp_all: "clearTmp (\<lambda>_. True) fs = (fs\<lparr>bf_tmp := []\<rparr>, None)"
  by (simp add: clearTmp_def clear_names_all filter_empty_conv)

lemma clear_names_blobs: "clear_names rm ns fs = (fs', e) \<Longrightarrow> bf_blobs fs' = bf_blobs fs"
  by (induction ns arbitrary: fs) (auto simp: drop_tmp_def split: if_splits)

lemma clearTmp_blobs: "clearTmp rm fs = (fs', e) \<Longrightarrow> bf_blobs fs' = bf_blobs fs \<and> blob_at fs' = blob_at fs"
  using clear_names_blobs by (fastforce simp: clearTmp_def blob_at_def)

end
