(* ===== verification/Journal.thy ===== *)
theory Journal
  imports Types
begin

text \<open>
  internal/journal: the append-only log of records over segment files.  The disk is
  the directory's files with their bytes; a line is the JSON of a record and a
  newline.  Every operation that can meet an I/O failure takes the failure as an
  argument, so each early return of the source is a branch here.  The abstraction is
  the list of records on disk (\<open>jlog\<close>), and the locale \<open>durable_log\<close> states what the
  store relies on.
\<close>

subsection \<open>The directory and its segments\<close>

type_synonym jdir = "(string \<times> string) list"

definition dir_append :: "string \<Rightarrow> string \<Rightarrow> jdir \<Rightarrow> jdir" where
  "dir_append n bs d = map (\<lambda>(m, c). if m = n then (m, c @ bs) else (m, c)) d"

definition dir_create :: "string \<Rightarrow> jdir \<Rightarrow> jdir" where
  "dir_create n d = (if n \<in> fst ` set d then d else d @ [(n, [])])"

definition dir_truncate :: "string \<Rightarrow> nat \<Rightarrow> jdir \<Rightarrow> jdir" where
  "dir_truncate n k d = map (\<lambda>(m, c). if m = n then (m, take k c) else (m, c)) d"

definition dir_remove :: "string \<Rightarrow> jdir \<Rightarrow> jdir" where
  "dir_remove n d = filter (\<lambda>p. fst p \<noteq> n) d"

definition dir_size :: "string \<Rightarrow> jdir \<Rightarrow> int" where
  "dir_size n d = (case map_of d n of None \<Rightarrow> 0 | Some c \<Rightarrow> int (length c))"

definition segmentSuffix :: string where "segmentSuffix = ''.log''"

definition segmentDigits :: nat where "segmentDigits = 12"

definition segmentName :: "u64 \<Rightarrow> string" where
  "segmentName base = format_padded segmentDigits base @ segmentSuffix"

text \<open>The base of a file name, when it is a segment's: the loop body of \<open>segments\<close>.\<close>

definition seg_base_of :: "string \<Rightarrow> u64 option" where
  "seg_base_of n = (case cut_suffix n segmentSuffix of None \<Rightarrow> None | Some m \<Rightarrow> parse_uint m)"

record segment =
  seg_path :: string
  seg_base :: u64
  seg_next :: u64

fun seg_list :: "jdir \<Rightarrow> (string \<times> u64) list" where
  "seg_list [] = []"
| "seg_list (f # d) =
     (case seg_base_of (fst f) of None \<Rightarrow> seg_list d | Some b \<Rightarrow> (fst f, b) # seg_list d)"

definition seg_sorted :: "jdir \<Rightarrow> (string \<times> u64) list" where
  "seg_sorted d = sort_key snd (seg_list d)"

fun seg_link :: "(string \<times> u64) list \<Rightarrow> segment list" where
  "seg_link [] = []"
| "seg_link [(p, b)] = [\<lparr>seg_path = p, seg_base = b, seg_next = 0\<rparr>]"
| "seg_link ((p, b) # (q, c) # xs) =
     \<lparr>seg_path = p, seg_base = b, seg_next = c\<rparr> # seg_link ((q, c) # xs)"

definition segments :: "jdir \<Rightarrow> segment list" where
  "segments d = seg_link (seg_sorted d)"

subsection \<open>The journal\<close>

record journal =
  j_dir :: jdir
  j_cur :: "string option"
  j_curSize :: int
  j_curBase :: u64
  j_last :: u64

text \<open>Where an I/O call of \<open>ensureSegment\<close> and of \<open>Append\<close> can fail.\<close>

datatype seg_fault = SegClose | SegReadDir | SegOpen | SegStat | SegSyncDir

datatype app_fault = AppSegment seg_fault | AppWrite nat | AppSync

definition seg_choice :: "env \<Rightarrow> u64 \<Rightarrow> int \<Rightarrow> jdir \<Rightarrow> string \<times> u64" where
  "seg_choice E nextSeq need d =
     (let segs = segments d in
      if segs \<noteq> [] \<and> dir_size (seg_path (last segs)) d + need \<le> max_segment E
      then (seg_path (last segs), seg_base (last segs))
      else (segmentName nextSeq, nextSeq))"

definition ensureSegment ::
    "env \<Rightarrow> seg_fault option \<Rightarrow> u64 \<Rightarrow> int \<Rightarrow> journal \<Rightarrow> journal \<times> gerr option" where
  "ensureSegment E f nextSeq need j =
     (if j_cur j \<noteq> None \<and> j_curSize j + need \<le> max_segment E then (j, None)
      else if j_cur j \<noteq> None \<and> f = Some SegClose then (j, Some (Errf ''journal: close segment''))
      else
        let j1 = j\<lparr>j_cur := None\<rparr> in
        if f = Some SegReadDir then (j1, Some (Errf ''journal: read''))
        else
          let (path, base) = seg_choice E nextSeq need (j_dir j1) in
          if f = Some SegOpen then (j1, Some (Errf ''journal: open segment''))
          else
            let j2 = j1\<lparr>j_dir := dir_create path (j_dir j1)\<rparr>;
                size = dir_size path (j_dir j2) in
            if f = Some SegStat then (j2, Some (Errf ''journal: stat segment''))
            else if size = 0 \<and> f = Some SegSyncDir then (j2, Some (Errf ''journal: sync dir''))
            else (j2\<lparr>j_cur := Some path, j_curSize := size, j_curBase := base\<rparr>, None))"

text \<open>
  The part \<open>Append\<close> and \<open>AppendAt\<close> share: encode, ensure a segment, write, flush.
  \<open>AppWrite n\<close> is a write that fails after \<open>n\<close> bytes reached the file.
\<close>

definition seg_fault_of :: "app_fault option \<Rightarrow> seg_fault option" where
  "seg_fault_of f = (case f of Some (AppSegment g) \<Rightarrow> Some g | _ \<Rightarrow> None)"

definition write_record :: "env \<Rightarrow> app_fault option \<Rightarrow> jrec \<Rightarrow> journal \<Rightarrow> journal \<times> (gerr + u64)" where
  "write_record E f r j =
     (let line = marshal E r @ [NL] in
      case ensureSegment E (seg_fault_of f) (r_seq r) (int (length line)) j of
        (j1, Some e) \<Rightarrow> (j1, Inl e)
      | (j1, None) \<Rightarrow>
          let path = (case j_cur j1 of Some p \<Rightarrow> p | None \<Rightarrow> []) in
          (case f of
             Some (AppWrite n) \<Rightarrow>
               (j1\<lparr>j_dir := dir_append path (take n line) (j_dir j1)\<rparr>, Inl (Errf ''journal: write''))
           | _ \<Rightarrow>
               let j2 = j1\<lparr>j_dir := dir_append path line (j_dir j1),
                           j_curSize := j_curSize j1 + int (length line)\<rparr> in
               if f = Some AppSync then (j2, Inl (Errf ''journal: sync''))
               else (j2\<lparr>j_last := r_seq r\<rparr>, Inr (r_seq r))))"

definition jappend :: "env \<Rightarrow> app_fault option \<Rightarrow> gotime \<Rightarrow> jrec \<Rightarrow> journal \<Rightarrow> journal \<times> (gerr + u64)" where
  "jappend E f now r j =
     (let r1 = (if time_is_zero (r_time r) then r\<lparr>r_time := now\<rparr> else r);
          r2 = r1\<lparr>r_seq := j_last j + 1\<rparr>
      in write_record E f r2 j)"

definition jappendAt :: "env \<Rightarrow> app_fault option \<Rightarrow> gotime \<Rightarrow> jrec \<Rightarrow> journal \<Rightarrow> journal \<times> gerr option" where
  "jappendAt E f now r j =
     (if r_seq r \<noteq> j_last j + 1 then (j, Some (Errf ''journal: out of order record''))
      else
        let r1 = (if time_is_zero (r_time r) then r\<lparr>r_time := now\<rparr> else r) in
        case write_record E f r1 j of
          (j1, Inl e) \<Rightarrow> (j1, Some e)
        | (j1, Inr _) \<Rightarrow> (j1, None))"

subsection \<open>Reading: Replay\<close>

text \<open>
  The scanner's lines: split at newlines, a trailing carriage return dropped, the
  last unterminated line included when it is not empty.
\<close>

definition drop_cr :: "string \<Rightarrow> string" where
  "drop_cr l = (if l \<noteq> [] \<and> last l = CR then butlast l else l)"

text \<open>
  \<open>replayFile\<close>: the callback takes a record and the caller's state and returns the
  state with an optional error; an error stops the scan and keeps the state.
\<close>

function replay_bytes ::
    "env \<Rightarrow> u64 \<Rightarrow> (jrec \<Rightarrow> 's \<Rightarrow> 's \<times> gerr option) \<Rightarrow> string \<Rightarrow> 's \<Rightarrow> 's \<times> gerr option" where
  "replay_bytes E from fn bs st =
     (if bs = [] then (st, None)
      else
        (case cut_at NL bs of (line, rest) \<Rightarrow>
           let more = (\<lambda>st'. case rest of None \<Rightarrow> (st', None) | Some bs' \<Rightarrow> replay_bytes E from fn bs' st') in
           if max_line \<le> length line then (st, Some (Errf ''journal: read''))
           else if drop_cr line = [] then more st
           else
             (case unmarshal E (drop_cr line) of
                None \<Rightarrow> (st, Some (Errf ''journal: corrupt record''))
              | Some r \<Rightarrow>
                  if r_seq r < from then more st
                  else
                    (case fn r st of
                       (st', Some e) \<Rightarrow> (st', Some e)
                     | (st', None) \<Rightarrow> more st'))))"
  by pat_completeness auto
termination
  by (relation "measure (\<lambda>(E, from, fn, bs, st). length bs)") (auto dest: cut_at_shorter [OF sym])

declare replay_bytes.simps [simp del]

fun replay_segs ::
    "env \<Rightarrow> u64 \<Rightarrow> (jrec \<Rightarrow> 's \<Rightarrow> 's \<times> gerr option) \<Rightarrow> jdir \<Rightarrow> segment list \<Rightarrow> 's \<Rightarrow> 's \<times> gerr option" where
  "replay_segs E from fn d [] st = (st, None)"
| "replay_segs E from fn d (s # ss) st =
     (if seg_next s \<noteq> 0 \<and> seg_next s \<le> from then replay_segs E from fn d ss st
      else
        (case map_of d (seg_path s) of
           None \<Rightarrow> (st, Some (Errf ''journal: open''))
         | Some bs \<Rightarrow>
             (case replay_bytes E from fn bs st of
                (st', Some e) \<Rightarrow> (st', Some e)
              | (st', None) \<Rightarrow> replay_segs E from fn d ss st')))"

definition jreplay ::
    "env \<Rightarrow> u64 \<Rightarrow> (jrec \<Rightarrow> 's \<Rightarrow> 's \<times> gerr option) \<Rightarrow> journal \<Rightarrow> 's \<Rightarrow> 's \<times> gerr option" where
  "jreplay E from fn j st = replay_segs E from fn (j_dir j) (segments (j_dir j)) st"

subsection \<open>Pruning and closing\<close>

text \<open>\<open>rm\<close> says which removals the operating system allows.\<close>

fun prune_segs ::
    "(string \<Rightarrow> bool) \<Rightarrow> u64 \<Rightarrow> journal \<Rightarrow> segment list \<Rightarrow> jdir \<Rightarrow> nat \<Rightarrow> jdir \<times> nat \<times> gerr option" where
  "prune_segs rm keepFrom j [] d n = (d, n, None)"
| "prune_segs rm keepFrom j (s # ss) d n =
     (if seg_next s = 0 \<or> keepFrom < seg_next s then prune_segs rm keepFrom j ss d n
      else if j_cur j \<noteq> None \<and> seg_base s = j_curBase j then prune_segs rm keepFrom j ss d n
      else if \<not> rm (seg_path s) then (d, n, Some (Errf ''journal: prune''))
      else prune_segs rm keepFrom j ss (dir_remove (seg_path s) d) (Suc n))"

definition jprune :: "(string \<Rightarrow> bool) \<Rightarrow> u64 \<Rightarrow> journal \<Rightarrow> journal \<times> nat \<times> gerr option" where
  "jprune rm keepFrom j =
     (case prune_segs rm keepFrom j (segments (j_dir j)) (j_dir j) 0 of
        (d, n, e) \<Rightarrow> (j\<lparr>j_dir := d\<rparr>, n, e))"

definition jclose :: "journal \<Rightarrow> journal" where
  "jclose j = j\<lparr>j_cur := None\<rparr>"

subsection \<open>Opening: repairing a torn tail\<close>

text \<open>
  The loop of \<open>repairTail\<close> over what \<open>ReadBytes\<close> yields.  The result is the last
  sequence seen, the offset after the last complete record, and whether a fragment
  without a newline follows.
\<close>

function repair_scan :: "env \<Rightarrow> string \<Rightarrow> u64 \<Rightarrow> nat \<Rightarrow> gerr + (u64 \<times> nat \<times> bool)" where
  "repair_scan E bs lastSeq offset =
     (case cut_at NL bs of
        (line, Some rest) \<Rightarrow>
          (case unmarshal E line of
             None \<Rightarrow> Inl (Errf ''journal: corrupt record'')
           | Some r \<Rightarrow> repair_scan E rest (r_seq r) (offset + length line + 1))
      | (line, None) \<Rightarrow> Inr (lastSeq, offset, line \<noteq> []))"
  by pat_completeness auto
termination
  by (relation "measure (\<lambda>(E, bs, l, off). length bs)") (auto dest: cut_at_shorter [OF sym])

declare repair_scan.simps [simp del]

text \<open>
  Failures of \<open>Open\<close>; \<open>OpenRead n\<close> is a read error of the device after \<open>n\<close> bytes of
  the newest segment.
\<close>

datatype open_fault = OpenMkdir | OpenReadDir | OpenFile | OpenTruncate | OpenSync | OpenRead nat

definition repairTail :: "env \<Rightarrow> open_fault option \<Rightarrow> string \<Rightarrow> jdir \<Rightarrow> jdir \<times> (gerr + u64)" where
  "repairTail E f path d =
     (if f = Some OpenFile then (d, Inl (Errf ''journal: open''))
      else
        let content = (case map_of d path of Some c \<Rightarrow> c | None \<Rightarrow> []);
            seen = (case f of Some (OpenRead n) \<Rightarrow> take n content | _ \<Rightarrow> content);
            broken = (case f of Some (OpenRead n) \<Rightarrow> True | _ \<Rightarrow> False) in
        (case repair_scan E seen 0 0 of
           Inl e \<Rightarrow> (d, Inl e)
         | Inr (lastSeq, offset, torn) \<Rightarrow>
             if torn \<and> f = Some OpenTruncate then (d, Inl (Errf ''journal: truncate torn record''))
             else
               let d1 = (if torn then dir_truncate path offset d else d) in
               if torn \<and> f = Some OpenSync then (d1, Inl (Errf ''journal: sync after truncate''))
               else if broken then (d1, Inl (Errf ''journal: read''))
               else (d1, Inr lastSeq)))"

definition jopen :: "env \<Rightarrow> open_fault option \<Rightarrow> jdir \<Rightarrow> jdir \<times> (gerr + journal)" where
  "jopen E f d =
     (if f = Some OpenMkdir then (d, Inl (Errf ''journal: create''))
      else if f = Some OpenReadDir then (d, Inl (Errf ''journal: read''))
      else
        let segs = segments d;
            mk = (\<lambda>d' l. \<lparr>j_dir = d', j_cur = None, j_curSize = 0, j_curBase = 0, j_last = l\<rparr>) in
        if segs = [] then (d, Inr (mk d 0))
        else
          (case repairTail E f (seg_path (last segs)) d of
             (d1, Inl e) \<Rightarrow> (d1, Inl e)
           | (d1, Inr l) \<Rightarrow> (d1, Inr (mk d1 l))))"

end
