(* ===== verification/Config.thy ===== *)
theory Config
  imports Types
begin

text \<open>
  internal/config: the tenant table, the collection schedule and the replication role
  the store is configured with.
\<close>

record bucketcfg =
  bc_name :: string
  bc_accessKey :: string
  bc_secretKey :: string
  bc_publicRead :: bool
  bc_protected :: "string list"

record gccfg =
  gc_interval :: duration
  gc_grace :: duration

record replicacfg =
  rc_mode :: string
  rc_secret :: string
  rc_peers :: "string list"
  rc_from :: string
  rc_interval :: duration

end
