(* ===== verification/Store.thy ===== *)
theory Store
  imports Index Blob Journal Config
begin

text \<open>
  internal/store/store.go: the object store.  \<open>store\<close> is the \<open>Store\<close> struct: the
  blob files, the journal, the index, and the tenant table.  Each operation takes a
  \<open>sysenv\<close>: the readings of the clock in the order the call takes them, the name of
  the temporary file, and the outcome of the system calls.  \<open>PutWith\<close> and \<open>Delete\<close>
  are split where the code can be interrupted, after the blob and after the journal
  record, so that the crash and interleaving theories can stop between the stages.
\<close>

record store =
  s_blobs :: blobfs
  s_jrnl :: journal
  s_db :: db
  s_buckets :: "bucketcfg bucket"
  s_gc :: gccfg

record sysenv =
  sy_clock :: "nat \<Rightarrow> gotime"
  sy_tmp :: string
  sy_blob :: blob_fault
  sy_app :: "app_fault option"
  sy_commit :: bool

record putOpts =
  po_mtime :: gotime
  po_etag :: string
  po_expectHash :: string

definition appliedSeqKey :: string where "appliedSeqKey = ''store.applied_seq''"

definition store_ns :: "string \<Rightarrow> string" where
  "store_ns bucket = ix_namespace ScopeStore bucket"

definition store_Configure :: "bucketcfg list \<Rightarrow> gccfg \<Rightarrow> store \<Rightarrow> store" where
  "store_Configure cfgs gc s =
     s\<lparr>s_buckets := foldl (\<lambda>m b. bk_put (bc_name b) b m) [] cfgs, s_gc := gc\<rparr>"

definition store_Bucket :: "store \<Rightarrow> string \<Rightarrow> bucketcfg option" where
  "store_Bucket s name = bk_get (s_buckets s) name"

text \<open>\<open>range\<close> over a map visits the buckets in some order; the model's is key order.\<close>

definition BucketByAccessKey :: "store \<Rightarrow> string \<Rightarrow> bucketcfg option" where
  "BucketByAccessKey s accessKey = find (\<lambda>b. bc_accessKey b = accessKey) (map snd (s_buckets s))"

definition store_Buckets :: "store \<Rightarrow> string list" where
  "store_Buckets s = map fst (s_buckets s)"

subsection \<open>Folding one record into the index\<close>

definition mode644 :: u32 where "mode644 = 420"

definition store_bind ::
    "env \<Rightarrow> gotime \<Rightarrow> string \<Rightarrow> string \<Rightarrow> string \<Rightarrow> string \<Rightarrow> i64 \<Rightarrow> gotime \<Rightarrow> gotime \<Rightarrow> idx \<Rightarrow> gerr + idx" where
  "store_bind E t0 bucket key hash etag sz mtime now x =
     res_bind (tx_get (store_ns bucket) key x) (\<lambda>old.
       case old of
         Some o1 \<Rightarrow>
           if e_hash o1 = hash then
             tx_put E t0 (store_ns bucket)
               \<lparr>e_key = key, e_size = sz, e_mtime = mtime, e_mode = e_mode o1, e_hash = hash, e_etag = etag,
                e_state = Synced, e_atime = now, e_pinned = e_pinned o1\<rparr> x
           else
             res_bind (if e_hash o1 \<noteq> [] then res_bind (tx_ref E (e_hash o1) (- 1) now x) (\<lambda>(_, x'). Inr x') else Inr x) (\<lambda>x1.
             res_bind (tx_ref E hash 1 now x1) (\<lambda>(_, x2).
             tx_put E t0 (store_ns bucket)
               \<lparr>e_key = key, e_size = sz, e_mtime = mtime, e_mode = mode644, e_hash = hash, e_etag = etag,
                e_state = Synced, e_atime = now, e_pinned = False\<rparr> x2))
       | None \<Rightarrow>
           res_bind (tx_ref E hash 1 now x) (\<lambda>(_, x2).
           tx_put E t0 (store_ns bucket)
             \<lparr>e_key = key, e_size = sz, e_mtime = mtime, e_mode = mode644, e_hash = hash, e_etag = etag,
              e_state = Synced, e_atime = now, e_pinned = False\<rparr> x2))"

definition store_unbind :: "env \<Rightarrow> string \<Rightarrow> string \<Rightarrow> gotime \<Rightarrow> idx \<Rightarrow> gerr + idx" where
  "store_unbind E bucket key now x =
     res_bind (tx_delete E (store_ns bucket) key x) (\<lambda>(old, x1).
       case old of
         None \<Rightarrow> Inr x1
       | Some o1 \<Rightarrow>
           if e_hash o1 = [] then Inr x1
           else res_bind (tx_ref E (e_hash o1) (- 1) now x1) (\<lambda>(_, x2). Inr x2))"

definition set_applied :: "env \<Rightarrow> u64 \<Rightarrow> idx \<Rightarrow> gerr + idx" where
  "set_applied E seq x = tx_setMeta E appliedSeqKey (MBytes (format_uint seq)) x"

definition store_apply :: "env \<Rightarrow> gotime \<Rightarrow> jrec \<Rightarrow> idx \<Rightarrow> gerr + idx" where
  "store_apply E t0 r x =
     res_bind
       (if r_op r = opPut then
          store_bind E t0 (r_bucket r) (r_key r) (r_hash r) (r_etag r) (r_size r) (r_mtime r) (r_time r) x
        else if r_op r = opDelete then store_unbind E (r_bucket r) (r_key r) (r_time r) x
        else if r_op r = opGC then tx_dropRef (r_hash r) x
        else Inl (Errf ''store: unknown journal op''))
       (set_applied E (r_seq r))"

definition appliedSeq :: "db \<Rightarrow> gerr + u64" where
  "appliedSeq d =
     (case db_meta appliedSeqKey d of
        None \<Rightarrow> Inr 0
      | Some (MUpload _) \<Rightarrow> Inl (Errf ''store: unreadable store.applied_seq'')
      | Some (MBytes raw) \<Rightarrow>
          if raw = [] then Inr 0
          else (case parse_uint raw of
                  None \<Rightarrow> Inl (Errf ''store: unreadable store.applied_seq'')
                | Some v \<Rightarrow> Inr v))"

subsection \<open>Opening and recovery\<close>

definition replay_cb :: "env \<Rightarrow> gotime \<Rightarrow> jrec \<Rightarrow> idx \<times> nat \<Rightarrow> (idx \<times> nat) \<times> gerr option" where
  "replay_cb E t0 r st =
     (case store_apply E t0 r (fst st) of
        Inl e \<Rightarrow> (st, Some e)
      | Inr x' \<Rightarrow> ((x', Suc (snd st)), None))"

definition replay_body :: "env \<Rightarrow> gotime \<Rightarrow> u64 \<Rightarrow> journal \<Rightarrow> idx \<Rightarrow> gerr + (nat \<times> idx)" where
  "replay_body E t0 from j x =
     (case jreplay E from (replay_cb E t0) j (x, 0) of
        ((x', n), None) \<Rightarrow> Inr (n, x')
      | (_, Some e) \<Rightarrow> Inl e)"

definition store_Recover :: "env \<Rightarrow> sysenv \<Rightarrow> store \<Rightarrow> store \<times> (gerr + nat)" where
  "store_Recover E sy s =
     (case appliedSeq (s_db s) of
        Inl e \<Rightarrow> (s, Inl e)
      | Inr applied \<Rightarrow>
          if j_last (s_jrnl s) \<le> applied then (s, Inr 0)
          else
            (case db_update (sy_commit sy) (replay_body E (sy_clock sy 0) (applied + 1) (s_jrnl s)) (s_db s) of
               (d, Inl _) \<Rightarrow> (s\<lparr>s_db := d\<rparr>, Inl (Errf ''store: recover''))
             | (d, Inr n) \<Rightarrow> (s\<lparr>s_db := d\<rparr>, Inr n)))"

text \<open>\<open>New\<close>: open the blob store and the journal over what the disk holds.\<close>

definition store_New ::
    "env \<Rightarrow> (string \<Rightarrow> bool) \<Rightarrow> open_fault option \<Rightarrow> bucketcfg list \<Rightarrow> gccfg \<Rightarrow> blobfs \<Rightarrow> jdir \<Rightarrow> db \<Rightarrow>
     gerr + store" where
  "store_New E rm jf cfgs gc fs jd d =
     (case blob_open_store rm fs of
        (_, Some e) \<Rightarrow> Inl e
      | (fs', None) \<Rightarrow>
          res_bind (snd (jopen E jf jd)) (\<lambda>j.
            Inr (store_Configure cfgs gc
                   \<lparr>s_blobs = fs', s_jrnl = j, s_db = d, s_buckets = [], s_gc = gc\<rparr>)))"

subsection \<open>Put, in its three stages\<close>

definition put_blob :: "env \<Rightarrow> sysenv \<Rightarrow> string \<Rightarrow> string \<Rightarrow> reader \<Rightarrow> putOpts \<Rightarrow> store \<Rightarrow> store \<times> (gerr + blobInfo)" where
  "put_blob E sy bucket key r opt s =
     (if store_Bucket s bucket = None then (s, Inl (ErrNoSuchBucket bucket))
      else if key = [] then (s, Inl (Errf ''store: empty key''))
      else
        (case blob_put E (sy_blob sy) (sy_clock sy 1) (sy_tmp sy) r (s_blobs s) of
           (fs, Inl e) \<Rightarrow> (s\<lparr>s_blobs := fs\<rparr>, Inl e)
         | (fs, Inr info) \<Rightarrow>
             if po_expectHash opt \<noteq> [] \<and> po_expectHash opt \<noteq> bi_hash info
             then (s\<lparr>s_blobs := fs\<rparr>, Inl (ErrDigestMismatch (po_expectHash opt) (bi_hash info)))
             else (s\<lparr>s_blobs := fs\<rparr>, Inr info)))"

definition put_mtime :: "sysenv \<Rightarrow> putOpts \<Rightarrow> gotime" where
  "put_mtime sy opt = (if time_is_zero (po_mtime opt) then sy_clock sy 0 else po_mtime opt)"

definition put_etag :: "putOpts \<Rightarrow> blobInfo \<Rightarrow> string" where
  "put_etag opt info = (if po_etag opt = [] then bi_md5 info else po_etag opt)"

definition put_record :: "sysenv \<Rightarrow> string \<Rightarrow> string \<Rightarrow> putOpts \<Rightarrow> blobInfo \<Rightarrow> jrec" where
  "put_record sy bucket key opt info =
     \<lparr>r_seq = 0, r_time = 0, r_op = opPut, r_bucket = bucket, r_key = key, r_hash = bi_hash info,
      r_etag = put_etag opt info, r_size = bi_size info, r_mtime = put_mtime sy opt\<rparr>"

definition put_journal :: "env \<Rightarrow> sysenv \<Rightarrow> string \<Rightarrow> string \<Rightarrow> putOpts \<Rightarrow> blobInfo \<Rightarrow> store \<Rightarrow> store \<times> (gerr + u64)" where
  "put_journal E sy bucket key opt info s =
     (case jappend E (sy_app sy) (sy_clock sy 2) (put_record sy bucket key opt info) (s_jrnl s) of
        (j, r) \<Rightarrow> (s\<lparr>s_jrnl := j\<rparr>, r))"

definition put_index ::
    "env \<Rightarrow> sysenv \<Rightarrow> string \<Rightarrow> string \<Rightarrow> putOpts \<Rightarrow> blobInfo \<Rightarrow> u64 \<Rightarrow> store \<Rightarrow> store \<times> (gerr + entry)" where
  "put_index E sy bucket key opt info seq s =
     (let now = sy_clock sy 3; etag = put_etag opt info; mtime = put_mtime sy opt in
      case db_update (sy_commit sy)
             (unit_tx (\<lambda>x. res_bind (store_bind E (sy_clock sy 4) bucket key (bi_hash info) etag (bi_size info) mtime now x)
                             (set_applied E seq))) (s_db s) of
        (d, Inl _) \<Rightarrow> (s\<lparr>s_db := d\<rparr>, Inl (Errf ''store: index put''))
      | (d, Inr _) \<Rightarrow>
          (s\<lparr>s_db := d\<rparr>,
           Inr \<lparr>e_key = key, e_size = bi_size info, e_mtime = mtime, e_mode = mode644, e_hash = bi_hash info,
                e_etag = etag, e_state = Synced, e_atime = now, e_pinned = False\<rparr>))"

definition store_PutWith ::
    "env \<Rightarrow> sysenv \<Rightarrow> string \<Rightarrow> string \<Rightarrow> reader \<Rightarrow> putOpts \<Rightarrow> store \<Rightarrow> store \<times> (gerr + entry)" where
  "store_PutWith E sy bucket key r opt s =
     (case put_blob E sy bucket key r opt s of
        (s1, Inl e) \<Rightarrow> (s1, Inl e)
      | (s1, Inr info) \<Rightarrow>
          (case put_journal E sy bucket key opt info s1 of
             (s2, Inl e) \<Rightarrow> (s2, Inl e)
           | (s2, Inr seq) \<Rightarrow> put_index E sy bucket key opt info seq s2))"

definition store_Put ::
    "env \<Rightarrow> sysenv \<Rightarrow> string \<Rightarrow> string \<Rightarrow> reader \<Rightarrow> gotime \<Rightarrow> store \<Rightarrow> store \<times> (gerr + entry)" where
  "store_Put E sy bucket key r mtime s =
     store_PutWith E sy bucket key r \<lparr>po_mtime = mtime, po_etag = [], po_expectHash = []\<rparr> s"

subsection \<open>Reading\<close>

definition store_Head :: "string \<Rightarrow> string \<Rightarrow> store \<Rightarrow> gerr + entry" where
  "store_Head bucket key s =
     (if store_Bucket s bucket = None then Inl (ErrNoSuchBucket bucket)
      else
        res_bind (db_get (store_ns bucket) key (s_db s)) (\<lambda>r.
          case r of None \<Rightarrow> Inl (ErrNoSuchKey bucket key) | Some e \<Rightarrow> Inr e))"

definition store_Get :: "sysenv \<Rightarrow> string \<Rightarrow> string \<Rightarrow> store \<Rightarrow> store \<times> (gerr + (entry \<times> string))" where
  "store_Get sy bucket key s =
     (case store_Head bucket key s of
        Inl e \<Rightarrow> (s, Inl e)
      | Inr e \<Rightarrow>
          (case blob_open (e_hash e) (s_blobs s) of
             Inl err \<Rightarrow> (s, Inl err)
           | Inr data \<Rightarrow>
               (s\<lparr>s_db := db_touch (store_ns bucket) key (sy_clock sy 0) (s_db s)\<rparr>, Inr (e, data))))"

definition store_List ::
    "string \<Rightarrow> string \<Rightarrow> (entry \<Rightarrow> 's \<Rightarrow> 's \<times> gerr option) \<Rightarrow> store \<Rightarrow> 's \<Rightarrow> 's \<times> gerr option" where
  "store_List bucket prefix fn s st =
     (if store_Bucket s bucket = None then (st, Some (ErrNoSuchBucket bucket))
      else if prefix = [] then ix_walk (store_ns bucket) fn (db_file (s_db s)) st
      else ix_walkPrefix (store_ns bucket) prefix fn (db_file (s_db s)) st)"

definition store_Stats :: "string \<Rightarrow> store \<Rightarrow> gerr + stats" where
  "store_Stats bucket s = ix_statsOf (store_ns bucket) (db_file (s_db s))"

subsection \<open>Delete\<close>

definition delete_record :: "string \<Rightarrow> string \<Rightarrow> jrec" where
  "delete_record bucket key =
     \<lparr>r_seq = 0, r_time = 0, r_op = opDelete, r_bucket = bucket, r_key = key, r_hash = [], r_etag = [],
      r_size = 0, r_mtime = 0\<rparr>"

definition delete_journal :: "env \<Rightarrow> sysenv \<Rightarrow> string \<Rightarrow> string \<Rightarrow> store \<Rightarrow> store \<times> (gerr + u64)" where
  "delete_journal E sy bucket key s =
     (case jappend E (sy_app sy) (sy_clock sy 0) (delete_record bucket key) (s_jrnl s) of
        (j, r) \<Rightarrow> (s\<lparr>s_jrnl := j\<rparr>, r))"

definition delete_index :: "env \<Rightarrow> sysenv \<Rightarrow> string \<Rightarrow> string \<Rightarrow> u64 \<Rightarrow> store \<Rightarrow> store \<times> gerr option" where
  "delete_index E sy bucket key seq s =
     (case db_update (sy_commit sy)
             (unit_tx (\<lambda>x. res_bind (store_unbind E bucket key (sy_clock sy 1) x) (set_applied E seq))) (s_db s) of
        (d, Inl _) \<Rightarrow> (s\<lparr>s_db := d\<rparr>, Some (Errf ''store: index delete''))
      | (d, Inr _) \<Rightarrow> (s\<lparr>s_db := d\<rparr>, None))"

definition store_Delete :: "env \<Rightarrow> sysenv \<Rightarrow> string \<Rightarrow> string \<Rightarrow> store \<Rightarrow> store \<times> gerr option" where
  "store_Delete E sy bucket key s =
     (if store_Bucket s bucket = None then (s, Some (ErrNoSuchBucket bucket))
      else
        (case db_get (store_ns bucket) key (s_db s) of
           Inl e \<Rightarrow> (s, Some e)
         | Inr None \<Rightarrow> (s, None)
         | Inr (Some _) \<Rightarrow>
             (case delete_journal E sy bucket key s of
                (s1, Inl e) \<Rightarrow> (s1, Some e)
              | (s1, Inr seq) \<Rightarrow> delete_index E sy bucket key seq s1)))"

definition store_Close :: "store \<Rightarrow> store" where
  "store_Close s = s\<lparr>s_jrnl := jclose (s_jrnl s)\<rparr>"

end
