(* ===== verification/IndexLaws.thy ===== *)
theory IndexLaws
  imports Index
begin

text \<open>
  What the index promises.  \<open>ix_lookup\<close> and \<open>ix_ref\<close> read the content as two maps;
  \<open>idx_inv\<close> is the invariant: every bucket is in key order, every entry decodes and
  carries its own key, the counters of a namespace are the totals over its entries,
  and a reference record is stamped exactly when its count is not positive.  Every
  transaction keeps it, and acts on the two maps as its name says.
\<close>

subsection \<open>The counters as totals\<close>

definition w_local :: "entry \<Rightarrow> bool" where "w_local e \<longleftrightarrow> st_local (e_state e)"
definition w_dirty :: "entry \<Rightarrow> bool" where "w_dirty e \<longleftrightarrow> e_state e = Dirty \<or> e_state e = Uploading"

fun raw_w :: "(entry \<Rightarrow> i64) \<Rightarrow> entry raw \<Rightarrow> i64" where
  "raw_w w (Enc e) = w e"
| "raw_w w Bad = 0"

definition stats_of :: "entry raw bucket \<Rightarrow> stats" where
  "stats_of ob =
     \<lparr>s_objects = bk_sum (raw_w (\<lambda>_. 1)) ob,
      s_bytes = bk_sum (raw_w e_size) ob,
      s_localObjects = bk_sum (raw_w (\<lambda>e. if w_local e then 1 else 0)) ob,
      s_localBytes = bk_sum (raw_w (\<lambda>e. if w_local e then e_size e else 0)) ob,
      s_dirtyObjects = bk_sum (raw_w (\<lambda>e. if w_dirty e then 1 else 0)) ob,
      s_dirtyBytes = bk_sum (raw_w (\<lambda>e. if w_dirty e then e_size e else 0)) ob\<rparr>"

lemma stats_of_empty [simp]: "stats_of [] = zero_stats"
  by (simp add: stats_of_def zero_stats_def)

lemma stats_add_alt:
  "stats_add e sg s =
     \<lparr>s_objects = s_objects s + sg,
      s_bytes = s_bytes s + sg * e_size e,
      s_localObjects = s_localObjects s + sg * (if w_local e then 1 else 0),
      s_localBytes = s_localBytes s + sg * (if w_local e then e_size e else 0),
      s_dirtyObjects = s_dirtyObjects s + sg * (if w_dirty e then 1 else 0),
      s_dirtyBytes = s_dirtyBytes s + sg * (if w_dirty e then e_size e else 0)\<rparr>"
  by (simp add: stats_add_def w_local_def w_dirty_def Let_def)

definition stats_swap :: "entry option \<Rightarrow> entry option \<Rightarrow> stats \<Rightarrow> stats" where
  "stats_swap old cur s =
     (let s = (case old of None \<Rightarrow> s | Some e \<Rightarrow> stats_add e (- 1) s)
      in case cur of None \<Rightarrow> s | Some e \<Rightarrow> stats_add e 1 s)"

lemma decodeAt_Inr:
  "decodeAt ob k = Inr r \<longleftrightarrow> (case r of None \<Rightarrow> bk_get ob k = None | Some e \<Rightarrow> bk_get ob k = Some (Enc e))"
  by (auto simp: decodeAt_def split: option.splits raw.splits)

lemma stats_of_put:
  "bk_ok ob \<Longrightarrow> decodeAt ob k = Inr old \<Longrightarrow>
   stats_of (bk_put k (Enc e) ob) = stats_swap old (Some e) (stats_of ob)"
  by (cases old) (simp_all add: decodeAt_Inr stats_swap_def stats_add_alt stats_of_def bks.total_upd)

lemma stats_of_del:
  "bk_ok ob \<Longrightarrow> decodeAt ob k = Inr (Some e) \<Longrightarrow>
   stats_of (bk_del k ob) = stats_swap (Some e) None (stats_of ob)"
  by (simp add: decodeAt_Inr stats_swap_def stats_add_alt stats_of_def bks.total_del)

lemma stats_of_same:
  "bk_ok ob \<Longrightarrow> bk_get ob k = Some (Enc e) \<Longrightarrow> e_size e' = e_size e \<Longrightarrow> e_state e' = e_state e \<Longrightarrow>
   stats_of (bk_put k (Enc e') ob) = stats_of ob"
  by (simp add: stats_of_def bks.total_upd w_local_def w_dirty_def)

subsection \<open>The index as maps, and its invariant\<close>

definition ix_lookup :: "idx \<Rightarrow> string \<times> string \<Rightarrow> entry option" where
  "ix_lookup x p = (case bk_get (ns_objs x (fst p)) (snd p) of Some (Enc e) \<Rightarrow> Some e | _ \<Rightarrow> None)"

definition ix_ref :: "idx \<Rightarrow> string \<Rightarrow> blobref option" where
  "ix_ref x h = (case bk_get (ix_refs x) h of Some (Enc r) \<Rightarrow> Some r | _ \<Rightarrow> None)"

definition ref_ok :: "blobref \<Rightarrow> bool" where
  "ref_ok r \<longleftrightarrow> (sint (rf_count r) \<le> 0 \<longleftrightarrow> \<not> time_is_zero (rf_unrefAt r))"

definition objs_ok :: "entry raw bucket \<Rightarrow> bool" where
  "objs_ok ob \<longleftrightarrow> bk_ok ob \<and> (\<forall>k v. bk_get ob k = Some v \<longrightarrow> (\<exists>e. v = Enc e \<and> e_key e = k))"

definition refs_ok :: "blobref raw bucket \<Rightarrow> bool" where
  "refs_ok rb \<longleftrightarrow> bk_ok rb \<and> (\<forall>h v. bk_get rb h = Some v \<longrightarrow> (\<exists>r. v = Enc r \<and> ref_ok r))"

definition idx_inv :: "idx \<Rightarrow> bool" where
  "idx_inv x \<longleftrightarrow>
     bk_ok (ix_objs x) \<and> bk_ok (ix_stats x) \<and> bk_ok (ix_meta x) \<and> refs_ok (ix_refs x) \<and>
     (\<forall>ns. objs_ok (ns_objs x ns) \<and> ix_statsOf ns x = Inr (stats_of (ns_objs x ns)))"

lemma idx_inv_empty [simp]: "idx_inv idx_empty"
  by (simp add: idx_inv_def idx_empty_def objs_ok_def refs_ok_def ns_objs_def ix_statsOf_def)

lemma idx_invD:
  assumes "idx_inv x"
  shows "objs_ok (ns_objs x ns)" "bk_ok (ns_objs x ns)" "ix_statsOf ns x = Inr (stats_of (ns_objs x ns))"
    "refs_ok (ix_refs x)" "bk_ok (ix_objs x)" "bk_ok (ix_stats x)" "bk_ok (ix_meta x)"
  using assms by (auto simp: idx_inv_def objs_ok_def)

lemma ns_objs_put [simp]: "ns_objs (x\<lparr>ix_objs := bk_put ns ob (ix_objs x)\<rparr>) ns' = (if ns' = ns then ob else ns_objs x ns')"
  by (simp add: ns_objs_def)

lemma ns_objs_other [simp]:
  "ns_objs (x\<lparr>ix_stats := s\<rparr>) ns = ns_objs x ns" "ns_objs (x\<lparr>ix_refs := r\<rparr>) ns = ns_objs x ns"
  "ns_objs (x\<lparr>ix_meta := m\<rparr>) ns = ns_objs x ns"
  by (simp_all add: ns_objs_def)

lemma ix_lookup_other [simp]:
  "ix_lookup (x\<lparr>ix_stats := s\<rparr>) = ix_lookup x" "ix_lookup (x\<lparr>ix_refs := r\<rparr>) = ix_lookup x"
  "ix_lookup (x\<lparr>ix_meta := m\<rparr>) = ix_lookup x"
  by (simp_all add: ix_lookup_def fun_eq_iff)

lemma ix_ref_other [simp]:
  "ix_ref (x\<lparr>ix_stats := s\<rparr>) = ix_ref x" "ix_ref (x\<lparr>ix_objs := b\<rparr>) = ix_ref x"
  "ix_ref (x\<lparr>ix_meta := m\<rparr>) = ix_ref x"
  by (simp_all add: ix_ref_def fun_eq_iff)

lemma decodeAt_lookup:
  assumes "idx_inv x"
  shows "decodeAt (ns_objs x ns) k = Inr (ix_lookup x (ns, k))"
proof (cases "bk_get (ns_objs x ns) k")
  case (Some v)
  with idx_invD(1) [OF assms, of ns] obtain e where "v = Enc e" by (auto simp: objs_ok_def)
  with Some show ?thesis by (simp add: decodeAt_def ix_lookup_def)
qed (simp add: decodeAt_def ix_lookup_def)

lemma tx_get_lookup: "idx_inv x \<Longrightarrow> tx_get ns k x = Inr (ix_lookup x (ns, k))"
  using decodeAt_lookup [of x ns k]
  by (auto simp: tx_get_def ns_objs_def ix_lookup_def decodeAt_def split: option.splits)

lemma tx_refOf_ref: "idx_inv x \<Longrightarrow> tx_refOf h x = Inr (ix_ref x h)"
  by (auto simp: tx_refOf_def ix_ref_def idx_inv_def refs_ok_def split: option.splits raw.splits)

lemma ix_lookup_key: "idx_inv x \<Longrightarrow> ix_lookup x (ns, k) = Some e \<Longrightarrow> e_key e = k"
  using idx_invD(1) [of x ns] by (auto simp: ix_lookup_def objs_ok_def split: option.splits raw.splits)

lemma kv_put_Inr: "kv_put E k v b = Inr b' \<longleftrightarrow> k \<noteq> [] \<and> key_fits E k \<and> b' = bk_put k v b"
  by (auto simp: kv_put_def)

lemma applyStats_Inr:
  assumes "ix_statsOf ns x = Inr s" "applyStats E ns old cur x = Inr x'"
  shows "x' = x\<lparr>ix_stats := bk_put ns (Enc (stats_swap old cur s)) (ix_stats x)\<rparr>" "ns \<noteq> []" "key_fits E ns"
  using assms
  by (auto simp: applyStats_def ix_statsOf_def stats_swap_def res_bind_Inr kv_put_Inr Let_def
      split: option.splits raw.splits)

lemma applyStats_ok:
  "ix_statsOf ns x = Inr s \<Longrightarrow> ns \<noteq> [] \<Longrightarrow> key_fits E ns \<Longrightarrow>
   applyStats E ns old cur x = Inr (x\<lparr>ix_stats := bk_put ns (Enc (stats_swap old cur s)) (ix_stats x)\<rparr>)"
  by (auto simp: applyStats_def ix_statsOf_def stats_swap_def kv_put_def Let_def
      split: option.splits raw.splits)

text \<open>Replacing one namespace's bucket, and writing the matching counters, keeps the invariant.\<close>

lemma idx_inv_swap:
  assumes inv: "idx_inv x" and ob: "objs_ok ob"
  shows "idx_inv (x\<lparr>ix_objs := bk_put ns ob (ix_objs x), ix_stats := bk_put ns (Enc (stats_of ob)) (ix_stats x)\<rparr>)"
proof -
  let ?x = "x\<lparr>ix_objs := bk_put ns ob (ix_objs x), ix_stats := bk_put ns (Enc (stats_of ob)) (ix_stats x)\<rparr>"
  have "ns_objs ?x ns' = (if ns' = ns then ob else ns_objs x ns')" for ns' by (simp add: ns_objs_def)
  moreover have "ix_statsOf ns' ?x = (if ns' = ns then Inr (stats_of ob) else ix_statsOf ns' x)" for ns'
    by (simp add: ix_statsOf_def)
  ultimately show ?thesis using inv ob by (auto simp: idx_inv_def)
qed

lemma objs_ok_put: "objs_ok ob \<Longrightarrow> e_key e = k \<Longrightarrow> objs_ok (bk_put k (Enc e) ob)"
  by (auto simp: objs_ok_def)

lemma objs_ok_del: "objs_ok ob \<Longrightarrow> objs_ok (bk_del k ob)"
  by (auto simp: objs_ok_def)

lemma ix_lookup_put:
  "ix_lookup (x\<lparr>ix_objs := bk_put ns (bk_put k (Enc e) (ns_objs x ns)) (ix_objs x), ix_stats := s\<rparr>)
     = (ix_lookup x)((ns, k) \<mapsto> e)"
  by (auto simp: ix_lookup_def ns_objs_def fun_eq_iff split: option.splits)

lemma ix_lookup_del:
  "ix_lookup (x\<lparr>ix_objs := bk_put ns (bk_del k (ns_objs x ns)) (ix_objs x), ix_stats := s\<rparr>)
     = (ix_lookup x)((ns, k) := None)"
  by (auto simp: ix_lookup_def ns_objs_def fun_eq_iff split: option.splits)

subsection \<open>What each transaction does\<close>

definition stamped :: "gotime \<Rightarrow> entry \<Rightarrow> entry" where
  "stamped now e = (if time_is_zero (e_atime e) then e\<lparr>e_atime := now\<rparr> else e)"

lemma stamped_simps [simp]:
  "e_key (stamped now e) = e_key e" "e_size (stamped now e) = e_size e" "e_hash (stamped now e) = e_hash e"
  "e_etag (stamped now e) = e_etag e" "e_mtime (stamped now e) = e_mtime e" "e_state (stamped now e) = e_state e"
  "e_mode (stamped now e) = e_mode e" "e_pinned (stamped now e) = e_pinned e"
  by (simp_all add: stamped_def)

definition name_ok :: "env \<Rightarrow> string \<Rightarrow> bool" where
  "name_ok E s \<longleftrightarrow> s \<noteq> [] \<and> key_fits E s"

lemma tx_put_eq:
  assumes inv: "idx_inv x"
  shows "tx_put E now ns e x =
    (if e_key e = [] then Inl (Errf ''index: empty key'')
     else if name_ok E (e_key e) \<and> name_ok E ns
     then Inr (x\<lparr>ix_objs := bk_put ns (bk_put (e_key e) (Enc (stamped now e)) (ns_objs x ns)) (ix_objs x),
                ix_stats := bk_put ns (Enc (stats_of (bk_put (e_key e) (Enc (stamped now e)) (ns_objs x ns)))) (ix_stats x)\<rparr>)
     else Inl (Errf ''bbolt: key''))"
proof (cases "e_key e = []")
  case False
  let ?ob = "ns_objs x ns" and ?e = "stamped now e"
  let ?x = "x\<lparr>ix_objs := bk_put ns (bk_put (e_key e) (Enc ?e) ?ob) (ix_objs x)\<rparr>"
  note d = decodeAt_lookup [OF inv, of ns "e_key e"]
  have s: "ix_statsOf ns ?x = Inr (stats_of ?ob)" using idx_invD(3) [OF inv] by (simp add: ix_statsOf_def)
  have st: "stats_of (bk_put (e_key e) (Enc ?e) ?ob) = stats_swap (ix_lookup x (ns, e_key e)) (Some ?e) (stats_of ?ob)"
    by (rule stats_of_put [OF idx_invD(2) [OF inv] d])
  have a: "applyStats E ns (ix_lookup x (ns, e_key e)) (Some ?e) ?x =
      (if name_ok E ns then Inr (?x\<lparr>ix_stats := bk_put ns (Enc (stats_of (bk_put (e_key e) (Enc ?e) ?ob))) (ix_stats x)\<rparr>)
       else Inl (Errf ''bbolt: key''))"
    using s by (auto simp: st name_ok_def applyStats_def ix_statsOf_def stats_swap_def kv_put_def Let_def
      split: option.splits raw.splits)
  have e: "(if time_is_zero (e_atime e) then e\<lparr>e_atime := now\<rparr> else e) = ?e" by (simp add: stamped_def)
  show ?thesis
    unfolding tx_put_def Let_def e stamped_simps d res_bind.simps
    using a False by (auto simp: kv_put_def name_ok_def)
qed (simp add: tx_put_def)

lemma tx_put_Inr:
  assumes inv: "idx_inv x" and res: "tx_put E now ns e x = Inr x'"
  shows "idx_inv x'" "ix_lookup x' = (ix_lookup x)((ns, e_key e) \<mapsto> stamped now e)"
    "ix_refs x' = ix_refs x" "ix_meta x' = ix_meta x"
proof -
  have x': "x' = x\<lparr>ix_objs := bk_put ns (bk_put (e_key e) (Enc (stamped now e)) (ns_objs x ns)) (ix_objs x),
     ix_stats := bk_put ns (Enc (stats_of (bk_put (e_key e) (Enc (stamped now e)) (ns_objs x ns)))) (ix_stats x)\<rparr>"
    using res unfolding tx_put_eq [OF inv] by (auto split: if_splits)
  show "idx_inv x'" unfolding x'
    by (rule idx_inv_swap [OF inv]) (simp add: objs_ok_put idx_invD [OF inv])
  show "ix_lookup x' = (ix_lookup x)((ns, e_key e) \<mapsto> stamped now e)"
    unfolding x' by (rule ix_lookup_put)
  show "ix_refs x' = ix_refs x" "ix_meta x' = ix_meta x" by (simp_all add: x')
qed

lemma tx_put_succeeds:
  "idx_inv x \<Longrightarrow> name_ok E (e_key e) \<Longrightarrow> name_ok E ns \<Longrightarrow> \<exists>x'. tx_put E now ns e x = Inr x'"
  by (auto simp: tx_put_eq name_ok_def)

lemma tx_delete_eq:
  assumes inv: "idx_inv x"
  shows "tx_delete E ns key x =
    (case ix_lookup x (ns, key) of
       None \<Rightarrow> Inr (None, x)
     | Some e \<Rightarrow>
         if name_ok E ns
         then Inr (Some e, x\<lparr>ix_objs := bk_put ns (bk_del key (ns_objs x ns)) (ix_objs x),
                ix_stats := bk_put ns (Enc (stats_of (bk_del key (ns_objs x ns)))) (ix_stats x)\<rparr>)
         else Inl (Errf ''bbolt: key''))"
proof (cases "bk_get (ix_objs x) ns")
  case None
  then have "ix_lookup x (ns, key) = None" by (simp add: ix_lookup_def ns_objs_def)
  with None show ?thesis by (simp add: tx_delete_def)
next
  case (Some ob)
  then have ob: "ns_objs x ns = ob" by (simp add: ns_objs_def)
  note d = decodeAt_lookup [OF inv, of ns key, unfolded ob]
  show ?thesis
  proof (cases "ix_lookup x (ns, key)")
    case None
    with Some d show ?thesis by (simp add: tx_delete_def)
  next
    case look: (Some e)
    let ?x = "x\<lparr>ix_objs := bk_put ns (bk_del key ob) (ix_objs x)\<rparr>"
    have s: "ix_statsOf ns ?x = Inr (stats_of ob)" using idx_invD(3) [OF inv, of ns] ob by (simp add: ix_statsOf_def)
    have st: "stats_of (bk_del key ob) = stats_swap (Some e) None (stats_of ob)"
      using d look idx_invD(2) [OF inv, of ns] ob by (intro stats_of_del) auto
    have "applyStats E ns (Some e) None ?x =
      (if name_ok E ns then Inr (?x\<lparr>ix_stats := bk_put ns (Enc (stats_of (bk_del key ob))) (ix_stats x)\<rparr>)
       else Inl (Errf ''bbolt: key''))"
      using s by (auto simp: st name_ok_def applyStats_def ix_statsOf_def stats_swap_def kv_put_def Let_def
        split: option.splits raw.splits)
    with Some d look ob show ?thesis by (simp add: tx_delete_def)
  qed
qed

lemma tx_delete_Inr:
  assumes inv: "idx_inv x" and res: "tx_delete E ns key x = Inr (old, x')"
  shows "idx_inv x'" "old = ix_lookup x (ns, key)" "ix_lookup x' = (ix_lookup x)((ns, key) := None)"
    "ix_refs x' = ix_refs x" "ix_meta x' = ix_meta x"
proof -
  consider (no) "ix_lookup x (ns, key) = None" "old = None" "x' = x"
    | (yes) e where "ix_lookup x (ns, key) = Some e" "old = Some e"
      "x' = x\<lparr>ix_objs := bk_put ns (bk_del key (ns_objs x ns)) (ix_objs x),
              ix_stats := bk_put ns (Enc (stats_of (bk_del key (ns_objs x ns)))) (ix_stats x)\<rparr>"
    using res unfolding tx_delete_eq [OF inv] by (auto split: option.splits if_splits)
  then have "idx_inv x' \<and> old = ix_lookup x (ns, key) \<and> ix_lookup x' = (ix_lookup x)((ns, key) := None) \<and>
      ix_refs x' = ix_refs x \<and> ix_meta x' = ix_meta x"
  proof cases
    case no
    with inv show ?thesis by (auto simp: fun_eq_iff)
  next
    case yes
    have "idx_inv x'" unfolding yes(3)
      by (rule idx_inv_swap [OF inv]) (simp add: objs_ok_del idx_invD [OF inv])
    moreover have "ix_lookup x' = (ix_lookup x)((ns, key) := None)" unfolding yes(3) by (rule ix_lookup_del)
    ultimately show ?thesis using yes by simp
  qed
  then show "idx_inv x'" "old = ix_lookup x (ns, key)" "ix_lookup x' = (ix_lookup x)((ns, key) := None)"
    "ix_refs x' = ix_refs x" "ix_meta x' = ix_meta x" by auto
qed

lemma tx_delete_succeeds: "idx_inv x \<Longrightarrow> name_ok E ns \<Longrightarrow> \<exists>r. tx_delete E ns key x = Inr r"
  by (auto simp: tx_delete_eq split: option.split)

lemma tx_setState_eq:
  assumes inv: "idx_inv x"
  shows "tx_setState E ns key s x =
    (case ix_lookup x (ns, key) of
       None \<Rightarrow> Inr (False, x)
     | Some e \<Rightarrow>
         let ob = bk_put key (Enc (e\<lparr>e_state := s\<rparr>)) (ns_objs x ns)
         in if name_ok E key \<and> name_ok E ns
            then Inr (True, x\<lparr>ix_objs := bk_put ns ob (ix_objs x), ix_stats := bk_put ns (Enc (stats_of ob)) (ix_stats x)\<rparr>)
            else Inl (Errf ''bbolt: key''))"
proof (cases "bk_get (ix_objs x) ns")
  case None
  then have "ix_lookup x (ns, key) = None" by (simp add: ix_lookup_def ns_objs_def)
  with None show ?thesis by (simp add: tx_setState_def)
next
  case (Some ob)
  then have ob: "ns_objs x ns = ob" by (simp add: ns_objs_def)
  note d = decodeAt_lookup [OF inv, of ns key, unfolded ob]
  show ?thesis
  proof (cases "ix_lookup x (ns, key)")
    case None
    with Some d show ?thesis by (simp add: tx_setState_def)
  next
    case look: (Some e)
    let ?ob = "bk_put key (Enc (e\<lparr>e_state := s\<rparr>)) ob"
    let ?x = "x\<lparr>ix_objs := bk_put ns ?ob (ix_objs x)\<rparr>"
    have s: "ix_statsOf ns ?x = Inr (stats_of ob)" using idx_invD(3) [OF inv, of ns] ob by (simp add: ix_statsOf_def)
    have st: "stats_of ?ob = stats_swap (Some e) (Some (e\<lparr>e_state := s\<rparr>)) (stats_of ob)"
      using d look idx_invD(2) [OF inv, of ns] ob by (intro stats_of_put) auto
    have "applyStats E ns (Some e) (Some (e\<lparr>e_state := s\<rparr>)) ?x =
      (if name_ok E ns then Inr (?x\<lparr>ix_stats := bk_put ns (Enc (stats_of ?ob)) (ix_stats x)\<rparr>)
       else Inl (Errf ''bbolt: key''))"
      using s by (auto simp: st name_ok_def applyStats_def ix_statsOf_def stats_swap_def kv_put_def Let_def
        split: option.splits raw.splits)
    with Some d look ob show ?thesis by (simp add: tx_setState_def kv_put_def name_ok_def Let_def)
  qed
qed

lemma tx_setState_Inr:
  assumes inv: "idx_inv x" and res: "tx_setState E ns key s x = Inr (b, x')"
  shows "idx_inv x'" "b \<longleftrightarrow> ix_lookup x (ns, key) \<noteq> None"
    "ix_lookup x' = (ix_lookup x)((ns, key) := map_option (e_state_update (\<lambda>_. s)) (ix_lookup x (ns, key)))"
    "ix_refs x' = ix_refs x" "ix_meta x' = ix_meta x"
proof -
  consider (no) "ix_lookup x (ns, key) = None" "\<not> b" "x' = x"
    | (yes) e ob where "ix_lookup x (ns, key) = Some e" "b" "ob = bk_put key (Enc (e\<lparr>e_state := s\<rparr>)) (ns_objs x ns)"
      "x' = x\<lparr>ix_objs := bk_put ns ob (ix_objs x), ix_stats := bk_put ns (Enc (stats_of ob)) (ix_stats x)\<rparr>"
    using res unfolding tx_setState_eq [OF inv] by (auto simp: Let_def split: option.splits if_splits)
  then have "idx_inv x' \<and> (b \<longleftrightarrow> ix_lookup x (ns, key) \<noteq> None) \<and>
      ix_lookup x' = (ix_lookup x)((ns, key) := map_option (e_state_update (\<lambda>_. s)) (ix_lookup x (ns, key))) \<and>
      ix_refs x' = ix_refs x \<and> ix_meta x' = ix_meta x"
  proof cases
    case no
    with inv show ?thesis by (auto simp: fun_eq_iff)
  next
    case yes
    have "idx_inv x'" unfolding yes(4)
      by (rule idx_inv_swap [OF inv])
        (use yes(1,3) ix_lookup_key [OF inv] in \<open>auto intro!: objs_ok_put simp: idx_invD [OF inv]\<close>)
    moreover have "ix_lookup x' = (ix_lookup x)((ns, key) \<mapsto> e\<lparr>e_state := s\<rparr>)"
      unfolding yes(3,4) by (rule ix_lookup_put)
    ultimately show ?thesis using yes by simp
  qed
  then show "idx_inv x'" "b \<longleftrightarrow> ix_lookup x (ns, key) \<noteq> None"
    "ix_lookup x' = (ix_lookup x)((ns, key) := map_option (e_state_update (\<lambda>_. s)) (ix_lookup x (ns, key)))"
    "ix_refs x' = ix_refs x" "ix_meta x' = ix_meta x" by auto
qed

lemma ref_adjust_ok: "\<not> time_is_zero now \<Longrightarrow> ref_ok (ref_adjust d now r)"
  by (auto simp: ref_adjust_def ref_ok_def time_is_zero_def Let_def)

lemma ref_adjust_count [simp]: "rf_count (ref_adjust d now r) = rf_count r + d"
  by (simp add: ref_adjust_def Let_def)

definition ref_or_zero :: "idx \<Rightarrow> string \<Rightarrow> blobref" where
  "ref_or_zero x h = (case ix_ref x h of None \<Rightarrow> zero_ref | Some r \<Rightarrow> r)"

lemma tx_ref_eq:
  assumes "idx_inv x"
  shows "tx_ref E h d now x =
    (if h = [] then Inl (Errf ''index: empty hash'')
     else if key_fits E h
     then let r = ref_adjust d now (ref_or_zero x h)
          in Inr (rf_count r, x\<lparr>ix_refs := bk_put h (Enc r) (ix_refs x)\<rparr>)
     else Inl (Errf ''bbolt: key''))"
  using idx_invD(4) [OF assms]
  by (auto simp: tx_ref_def refs_ok_def kv_put_def ref_or_zero_def ix_ref_def Let_def split: option.splits raw.splits)

lemma idx_inv_refs: "idx_inv x \<Longrightarrow> refs_ok rb \<Longrightarrow> idx_inv (x\<lparr>ix_refs := rb\<rparr>)"
  by (simp add: idx_inv_def ix_statsOf_def)

lemma idx_inv_meta: "idx_inv x \<Longrightarrow> bk_ok mb \<Longrightarrow> idx_inv (x\<lparr>ix_meta := mb\<rparr>)"
  by (simp add: idx_inv_def ix_statsOf_def)

lemma tx_ref_Inr:
  assumes inv: "idx_inv x" and now: "\<not> time_is_zero now" and res: "tx_ref E h d now x = Inr (n, x')"
  shows "idx_inv x'" "ix_ref x' = (ix_ref x)(h \<mapsto> ref_adjust d now (ref_or_zero x h))"
    "n = rf_count (ref_or_zero x h) + d" "ix_lookup x' = ix_lookup x" "ix_meta x' = ix_meta x" "ix_objs x' = ix_objs x"
proof -
  let ?r = "ref_adjust d now (ref_or_zero x h)"
  have x': "x' = x\<lparr>ix_refs := bk_put h (Enc ?r) (ix_refs x)\<rparr>" and n: "n = rf_count ?r"
    using res unfolding tx_ref_eq [OF inv] by (auto simp: Let_def split: if_splits)
  have "refs_ok (bk_put h (Enc ?r) (ix_refs x))"
    using idx_invD(4) [OF inv] ref_adjust_ok [OF now] by (auto simp: refs_ok_def)
  then show "idx_inv x'" unfolding x' by (rule idx_inv_refs [OF inv])
  show "ix_ref x' = (ix_ref x)(h \<mapsto> ?r)" by (auto simp: x' ix_ref_def fun_eq_iff)
  show "n = rf_count (ref_or_zero x h) + d" "ix_lookup x' = ix_lookup x" "ix_meta x' = ix_meta x" "ix_objs x' = ix_objs x"
    by (simp_all add: n x')
qed

lemma tx_ref_succeeds: "idx_inv x \<Longrightarrow> name_ok E h \<Longrightarrow> \<exists>r. tx_ref E h d now x = Inr r"
  by (auto simp: tx_ref_eq name_ok_def Let_def)

lemma tx_dropRef_Inr:
  assumes "idx_inv x" "tx_dropRef h x = Inr x'"
  shows "idx_inv x'" "ix_ref x' = (ix_ref x)(h := None)" "ix_lookup x' = ix_lookup x" "ix_meta x' = ix_meta x"
    "ix_objs x' = ix_objs x"
  using assms idx_invD(4) [OF assms(1)]
  by (auto simp: tx_dropRef_def refs_ok_def ix_ref_def fun_eq_iff intro!: idx_inv_refs)

lemma tx_setMeta_Inr:
  assumes "idx_inv x" "tx_setMeta E k v x = Inr x'"
  shows "idx_inv x'" "tx_meta k' x' = (if k' = k then Some v else tx_meta k' x)" "ix_lookup x' = ix_lookup x"
    "ix_refs x' = ix_refs x" "ix_objs x' = ix_objs x" "ix_ref x' = ix_ref x"
  using assms
  by (auto simp: tx_setMeta_def tx_meta_def res_bind_Inr kv_put_Inr idx_invD(7) intro!: idx_inv_meta)

lemma tx_setMeta_succeeds: "name_ok E k \<Longrightarrow> \<exists>x'. tx_setMeta E k v x = Inr x'"
  by (simp add: tx_setMeta_def kv_put_def name_ok_def)

lemma tx_delMeta_Inr:
  assumes "idx_inv x" "tx_delMeta k x = Inr x'"
  shows "idx_inv x'" "tx_meta k' x' = (if k' = k then None else tx_meta k' x)" "ix_lookup x' = ix_lookup x"
    "ix_refs x' = ix_refs x"
  using assms by (auto simp: tx_delMeta_def tx_meta_def idx_invD(7) intro!: idx_inv_meta)

subsection \<open>Flushing access times changes nothing else\<close>

definition atime_only :: "entry option \<Rightarrow> entry option \<Rightarrow> bool" where
  "atime_only a b \<longleftrightarrow> rel_option (\<lambda>e e'. e_atime e \<le> e_atime e' \<and> e' = e\<lparr>e_atime := e_atime e'\<rparr>) a b"

lemma atime_only_refl [simp]: "atime_only a a"
  by (cases a) (simp_all add: atime_only_def)

lemma atime_only_trans: "atime_only a b \<Longrightarrow> atime_only b c \<Longrightarrow> atime_only a c"
  unfolding atime_only_def
  by (cases a; cases b; cases c) (auto, metis entry.surjective entry.update_convs(8))

definition at_entry :: "entry raw bucket \<Rightarrow> string \<Rightarrow> entry option" where
  "at_entry ob k = (case bk_get ob k of Some (Enc e) \<Rightarrow> Some e | _ \<Rightarrow> None)"

lemma flush_key_Inr:
  assumes ob: "objs_ok ob" and res: "flush_key E kt ob = Inr ob'"
  shows "objs_ok ob' \<and> stats_of ob' = stats_of ob \<and> (\<forall>k. atime_only (at_entry ob k) (at_entry ob' k))"
proof -
  obtain key t where kt: "kt = (key, t)" by force
  show ?thesis
  proof (cases "\<exists>e. bk_get ob key = Some (Enc e) \<and> e_atime e < t")
    case True
    then obtain e where e: "bk_get ob key = Some (Enc e)" "e_atime e < t" by blast
    with res kt have ob': "ob' = bk_put key (Enc (e\<lparr>e_atime := t\<rparr>)) ob" by (simp add: kv_put_Inr)
    have "e_key e = key" using ob e by (auto simp: objs_ok_def)
    moreover have "stats_of ob' = stats_of ob"
      unfolding ob' by (rule stats_of_same [OF _ e(1)]) (use ob in \<open>simp_all add: objs_ok_def\<close>)
    moreover have "at_entry ob' k = (if k = key then Some (e\<lparr>e_atime := t\<rparr>) else at_entry ob k)"
      "at_entry ob key = Some e" for k using e by (simp_all add: ob' at_entry_def)
    ultimately show ?thesis
      using ob e by (auto simp: ob' objs_ok_put) (simp add: atime_only_def)
  next
    case False
    with res kt have "ob' = ob" by (auto split: option.splits raw.splits)
    with ob show ?thesis by simp
  qed
qed

lemma flush_keys_Inr:
  "objs_ok ob \<Longrightarrow> flush_keys E kts ob = Inr ob' \<Longrightarrow>
   objs_ok ob' \<and> stats_of ob' = stats_of ob \<and> (\<forall>k. atime_only (at_entry ob k) (at_entry ob' k))"
proof (induction E kts ob rule: flush_keys.induct)
  case (2 E kt ks ob)
  from "2.prems"(2) obtain ob1 where 1: "flush_key E kt ob = Inr ob1" "flush_keys E ks ob1 = Inr ob'"
    by (auto simp: res_bind_Inr)
  from flush_key_Inr [OF "2.prems"(1) 1(1)] "2.IH" [OF _ 1(2)] show ?case
    by (metis atime_only_trans)
qed simp

lemma flush_ns_Inr:
  "idx_inv x \<Longrightarrow> flush_ns E ps x = Inr x' \<Longrightarrow>
   idx_inv x' \<and> (\<forall>p. atime_only (ix_lookup x p) (ix_lookup x' p)) \<and> ix_refs x' = ix_refs x \<and>
   ix_meta x' = ix_meta x \<and> ix_stats x' = ix_stats x"
proof (induction E ps x rule: flush_ns.induct)
  case (2 E ns keys rest x)
  show ?case
  proof (cases "bk_get (ix_objs x) ns")
    case None
    with 2 show ?thesis by simp
  next
    case (Some ob)
    then have nob: "ns_objs x ns = ob" by (simp add: ns_objs_def)
    from Some "2.prems"(2) obtain ob1 where ob1: "flush_keys E keys ob = Inr ob1"
      and rest: "flush_ns E rest (x\<lparr>ix_objs := bk_put ns ob1 (ix_objs x)\<rparr>) = Inr x'"
      by (auto simp: res_bind_Inr)
    let ?x = "x\<lparr>ix_objs := bk_put ns ob1 (ix_objs x)\<rparr>"
    have ok: "objs_ok ob" using idx_invD(1) [OF "2.prems"(1), of ns] nob by simp
    note f = flush_keys_Inr [OF ok ob1]
    have inv: "idx_inv ?x"
      using "2.prems"(1) f nob by (auto simp: idx_inv_def ix_statsOf_def)
    have "ix_lookup ?x (n, k) = (if n = ns then at_entry ob1 k else ix_lookup x (n, k))" for n k
      by (simp add: ix_lookup_def at_entry_def)
    moreover have "ix_lookup x (ns, k) = at_entry ob k" for k by (simp add: ix_lookup_def at_entry_def nob)
    ultimately have "atime_only (ix_lookup x p) (ix_lookup ?x p)" for p using f by (cases p) auto
    with "2.IH"(2) [OF Some inv rest] atime_only_trans show ?thesis by fastforce
  qed
qed simp

subsection \<open>The open database\<close>

lemma db_update_Inr: "db_update ok body d = (d', Inr a) \<longleftrightarrow> ok \<and> (\<exists>x. body (db_file d) = Inr (a, x) \<and> d' = d\<lparr>db_file := x\<rparr>)"
  by (auto simp: db_update_def split: sum.split)

lemma db_update_Inl: "db_update ok body d = (d', Inl e) \<Longrightarrow> d' = d"
  by (auto simp: db_update_def split: sum.splits if_splits)

lemma unit_tx_Inr [simp]: "unit_tx body x = Inr ((), x') \<longleftrightarrow> body x = Inr x'"
  by (simp add: unit_tx_def res_bind_Inr)

definition db_inv :: "db \<Rightarrow> bool" where
  "db_inv d \<longleftrightarrow> idx_inv (db_file d)"

text \<open>An update keeps the invariant when its body does, whether or not it commits.\<close>

lemma db_update_inv:
  assumes "db_inv d" "db_update ok body d = (d', r)"
    and "\<And>a x. idx_inv (db_file d) \<Longrightarrow> body (db_file d) = Inr (a, x) \<Longrightarrow> idx_inv x"
  shows "db_inv d'"
  using assms by (auto simp: db_update_def db_inv_def split: sum.splits if_splits)

text \<open>A flush commits the new access times or leaves the file as it was.\<close>

lemma db_flush_cases:
  obtains "db_file (db_flushATimes E ok d) = db_file d"
  | x where "flush_ns E (db_pending d) (db_file d) = Inr x" "db_file (db_flushATimes E ok d) = x"
  by (cases "db_pending d = []"; cases "flush_ns E (db_pending d) (db_file d)"; cases ok)
     (auto simp: db_flushATimes_def db_update_def unit_tx_def Let_def)

lemma db_flush_inv: "db_inv d \<Longrightarrow> db_inv (db_flushATimes E ok d)"
  by (rule db_flush_cases [of E ok d]) (auto simp: db_inv_def dest: flush_ns_Inr)

definition db_view :: "db \<Rightarrow> string \<times> string \<Rightarrow> entry option" where
  "db_view d = ix_lookup (db_file d)"

lemma db_flush_view:
  assumes "db_inv d"
  shows "atime_only (db_view d p) (db_view (db_flushATimes E ok d) p)"
    "ix_refs (db_file (db_flushATimes E ok d)) = ix_refs (db_file d)"
    "ix_meta (db_file (db_flushATimes E ok d)) = ix_meta (db_file d)"
  using assms by (rule_tac [!] db_flush_cases [of E ok d]) (auto simp: db_inv_def db_view_def dest: flush_ns_Inr)

lemma db_get_view:
  assumes "db_inv d"
  shows "\<exists>r. db_get ns k d = Inr r \<and> atime_only (db_view d (ns, k)) r"
  using assms tx_get_lookup [of "db_file d" ns k]
  by (auto simp: db_inv_def db_view_def db_get_def atime_only_def split: option.split)

lemma dropNamespace_lookup:
  "ix_lookup (ix_dropNamespace ns x) p = (if fst p = ns then None else ix_lookup x p)"
  by (auto simp: ix_dropNamespace_def ix_lookup_def ns_objs_def Let_def split: option.splits)

lemma dropNamespace_refs [simp]: "ix_refs (ix_dropNamespace ns x) = ix_refs x" "ix_meta (ix_dropNamespace ns x) = ix_meta x"
  by (simp_all add: ix_dropNamespace_def Let_def)

lemma dropNamespace_inv:
  assumes "idx_inv x"
  shows "idx_inv (ix_dropNamespace ns x)"
proof -
  have "ns_objs (ix_dropNamespace ns x) n = (if n = ns then [] else ns_objs x n)" for n
    by (auto simp: ix_dropNamespace_def ns_objs_def Let_def split: option.splits)
  moreover have "ix_statsOf n (ix_dropNamespace ns x) = (if n = ns then Inr zero_stats else ix_statsOf n x)" for n
    by (simp add: ix_dropNamespace_def ix_statsOf_def Let_def)
  moreover have "bk_ok (ix_objs (ix_dropNamespace ns x))" "bk_ok (ix_stats (ix_dropNamespace ns x))"
    "bk_ok (ix_meta (ix_dropNamespace ns x))"
    using assms by (auto simp: ix_dropNamespace_def idx_inv_def Let_def)
  ultimately show ?thesis using assms by (simp add: idx_inv_def objs_ok_def)
qed

subsection \<open>Walks\<close>

lemma fold_on_raw:
  "\<forall>x \<in> set b. \<exists>v. snd x = Enc v \<Longrightarrow>
   fold_cb (on_raw err fn) b st =
   fold_cb (\<lambda>(k, v). fn k v) (map (\<lambda>x. (fst x, case snd x of Enc v \<Rightarrow> v | Bad \<Rightarrow> undefined)) b) st"
  by (induction b arbitrary: st) (auto split: prod.splits option.splits)

definition entries_of :: "entry raw bucket \<Rightarrow> entry list" where
  "entries_of ob = concat (map (\<lambda>x. case snd x of Enc e \<Rightarrow> [e] | Bad \<Rightarrow> []) ob)"

lemma fold_entries:
  "\<forall>x \<in> set b. \<exists>e. snd x = Enc e \<Longrightarrow> fold_cb (on_raw err (\<lambda>_. fn)) b st = fold_cb fn (entries_of b) st"
  by (induction b arbitrary: st) (auto simp: entries_of_def split: prod.splits option.splits)

lemma objs_ok_Enc: "objs_ok ob \<Longrightarrow> x \<in> set ob \<Longrightarrow> \<exists>e. snd x = Enc e \<and> e_key e = fst x"
  using bk_get_iff [of ob "fst x" "snd x"] by (auto simp: objs_ok_def)

text \<open>\<open>Walk\<close> delivers the namespace's entries in key order.\<close>

lemma ix_walk_entries:
  assumes "idx_inv x"
  shows "ix_walk ns fn x st = fold_cb fn (entries_of (ns_objs x ns)) st"
  using objs_ok_Enc [OF idx_invD(1) [OF assms]] unfolding ix_walk_def by (intro fold_entries) blast

lemma entries_filter:
  "\<forall>x \<in> set ob. \<exists>e. snd x = Enc e \<and> e_key e = fst x \<Longrightarrow>
   entries_of (filter (\<lambda>x. P (fst x)) ob) = filter (\<lambda>e. P (e_key e)) (entries_of ob)"
  by (induction ob) (auto simp: entries_of_def)

lemma ix_walkPrefix_entries:
  assumes "idx_inv x"
  shows "ix_walkPrefix ns prefix fn x st =
    fold_cb fn (filter (\<lambda>e. has_prefix (e_key e) prefix) (entries_of (ns_objs x ns))) st"
proof -
  note E = objs_ok_Enc [OF idx_invD(1) [OF assms]]
  have "ix_walkPrefix ns prefix fn x st =
      fold_cb fn (entries_of (filter (\<lambda>y. has_prefix (fst y) prefix) (ns_objs x ns))) st"
    unfolding ix_walkPrefix_def bk_scan_filter [OF idx_invD(2) [OF assms]] by (intro fold_entries) (use E in fastforce)
  also have "entries_of (filter (\<lambda>y. has_prefix (fst y) prefix) (ns_objs x ns)) =
      filter (\<lambda>e. has_prefix (e_key e) prefix) (entries_of (ns_objs x ns))"
    using E by (intro entries_filter) blast
  finally show ?thesis .
qed

lemma entries_of_lookup:
  assumes "idx_inv x"
  shows "e \<in> set (entries_of (ns_objs x ns)) \<longleftrightarrow> ix_lookup x (ns, e_key e) = Some e"
proof
  assume "e \<in> set (entries_of (ns_objs x ns))"
  then obtain k where "(k, Enc e) \<in> set (ns_objs x ns)" by (auto simp: entries_of_def split: raw.splits)
  with objs_ok_Enc [OF idx_invD(1) [OF assms], of _ ns] have "(e_key e, Enc e) \<in> set (ns_objs x ns)" by fastforce
  then show "ix_lookup x (ns, e_key e) = Some e"
    using bk_get_iff [OF idx_invD(2) [OF assms], of ns "e_key e" "Enc e"] by (simp add: ix_lookup_def)
next
  assume "ix_lookup x (ns, e_key e) = Some e"
  then have "bk_get (ns_objs x ns) (e_key e) = Some (Enc e)" by (auto simp: ix_lookup_def split: option.splits raw.splits)
  then have "(e_key e, Enc e) \<in> set (ns_objs x ns)" by (rule bk_get_in)
  then show "e \<in> set (entries_of (ns_objs x ns))" by (force simp: entries_of_def)
qed

lemma entries_of_sorted:
  assumes "objs_ok ob"
  shows "sorted_wrt (<) (map e_key (entries_of ob))"
proof -
  have "\<forall>x \<in> set b. \<exists>e. snd x = Enc e \<and> e_key e = fst x \<Longrightarrow> map e_key (entries_of b) = map fst b" for b
    by (induction b) (auto simp: entries_of_def)
  then have "map e_key (entries_of ob) = map fst ob" using objs_ok_Enc [OF assms] by blast
  then show ?thesis using assms by (simp add: objs_ok_def bk_ok_def)
qed

text \<open>\<open>WalkRefs\<close> delivers every reference record.\<close>

lemma ix_walkRefs_refs:
  assumes "idx_inv x"
  shows "ix_walkRefs fn x st =
    fold_cb (\<lambda>(h, r). fn h r) (map (\<lambda>p. (fst p, case snd p of Enc r \<Rightarrow> r | Bad \<Rightarrow> undefined)) (ix_refs x)) st"
proof -
  have "\<exists>r. snd p = Enc r" if "p \<in> set (ix_refs x)" for p
    using idx_invD(4) [OF assms] bk_get_iff [of "ix_refs x" "fst p" "snd p"] that by (auto simp: refs_ok_def)
  then show ?thesis unfolding ix_walkRefs_def by (intro fold_on_raw) blast
qed

subsection \<open>Names\<close>

lemma NameOf_namespace: "CHR '':'' \<notin> set scope \<Longrightarrow> NameOf (ix_namespace scope n) = n"
  using cut_at_append [of "CHR '':''" scope n] by (simp add: NameOf_def ix_namespace_def)

lemma InScope_namespace [simp]: "InScope (ix_namespace scope n) scope"
  by (simp add: InScope_def ix_namespace_def has_prefix_iff)

lemma namespace_scopes_apart: "ix_namespace ScopeStore a \<noteq> ix_namespace ScopeAgent b"
  by (simp add: ix_namespace_def ScopeStore_def ScopeAgent_def)

lemma namespace_inject [simp]: "ix_namespace s a = ix_namespace s b \<longleftrightarrow> a = b"
  by (simp add: ix_namespace_def)

lemma ParseState_string: "ParseState (state_string s) = Some s"
  by (cases s) (simp_all add: ParseState_def state_string_def stateNames_def)

end
