(* ===== verification/JournalLog.thy ===== *)
theory JournalLog
  imports Journal
begin

text \<open>
  The journal refines a list of records.  \<open>jlog\<close> is the list \<open>Replay\<close> delivers from
  the start; \<open>jwf\<close> is the invariant every operation keeps: each segment holds whole
  encoded records, is named after the first of them, and the sequence numbers run on
  without a gap.  The lemmas show what one append, a replay from a position, a prune,
  and an open after a torn append do to that list, and the locale \<open>durable_log\<close> is the
  contract the store is proved against.
\<close>

definition encode_recs :: "env \<Rightarrow> jrec list \<Rightarrow> string" where
  "encode_recs E rs = concat (map (\<lambda>r. marshal E r @ [NL]) rs)"

text \<open>Records that follow sequence number \<open>n\<close> without a gap, and the last number reached.\<close>

fun consec :: "u64 \<Rightarrow> jrec list \<Rightarrow> bool" where
  "consec n [] = True"
| "consec n (r # rs) = (unat (r_seq r) = Suc (unat n) \<and> consec (r_seq r) rs)"

fun last_seq :: "u64 \<Rightarrow> jrec list \<Rightarrow> u64" where
  "last_seq n [] = n"
| "last_seq n (r # rs) = last_seq (r_seq r) rs"

text \<open>Reference replay: the callback over a list of records.\<close>

definition collect_cb :: "jrec \<Rightarrow> jrec list \<Rightarrow> jrec list \<times> gerr option" where
  "collect_cb r acc = (acc @ [r], None)"

definition jlog :: "env \<Rightarrow> journal \<Rightarrow> jrec list" where
  "jlog E j = fst (jreplay E 0 collect_cb j [])"

subsection \<open>Lists of records\<close>

lemma encode_recs_simps [simp]:
  "encode_recs E [] = []"
  "encode_recs E (r # rs) = marshal E r @ NL # encode_recs E rs"
  "encode_recs E (rs @ rs') = encode_recs E rs @ encode_recs E rs'"
  by (simp_all add: encode_recs_def)

lemma encode_recs_Nil [simp]: "encode_recs E rs = [] \<longleftrightarrow> rs = []"
  by (cases rs) auto

lemma consec_append [simp]: "consec n (a @ b) \<longleftrightarrow> consec n a \<and> consec (last_seq n a) b"
  by (induction n a rule: consec.induct) auto

lemma last_seq_append [simp]: "last_seq n (a @ b) = last_seq (last_seq n a) b"
  by (induction n a rule: last_seq.induct) auto

lemma unat_last_seq: "consec n rs \<Longrightarrow> unat (last_seq n rs) = unat n + length rs"
  by (induction n rs rule: consec.induct) auto

lemma consec_bounds:
  "consec n rs \<Longrightarrow> r \<in> set rs \<Longrightarrow> unat n < unat (r_seq r) \<and> unat (r_seq r) \<le> unat (last_seq n rs)"
  by (induction n rs rule: consec.induct) (auto simp: unat_last_seq)

lemma last_seq_hd: "rs \<noteq> [] \<Longrightarrow> last_seq n rs = r_seq (last rs)"
  by (induction n rs rule: last_seq.induct) auto

lemma fold_cb_collect [simp]: "fold_cb collect_cb rs acc = (acc @ rs, None)"
  by (induction rs arbitrary: acc) (auto simp: collect_cb_def)

subsection \<open>One segment's bytes\<close>

lemma line_okD:
  "line_ok E r \<Longrightarrow> cut_at NL (marshal E r @ NL # bs) = (marshal E r, Some bs)"
  "line_ok E r \<Longrightarrow> drop_cr (marshal E r) = marshal E r"
  "line_ok E r \<Longrightarrow> unmarshal E (marshal E r) = Some r"
  "line_ok E r \<Longrightarrow> marshal E r \<noteq> []"
  "line_ok E r \<Longrightarrow> \<not> max_line \<le> length (marshal E r)"
  by (auto simp: line_ok_def cut_at_append drop_cr_def)

lemma replay_bytes_empty: "replay_bytes E from fn [] st = (st, None)"
  by (simp add: replay_bytes.simps)

lemma replay_bytes_line:
  assumes "line_ok E r"
  shows "replay_bytes E from fn (marshal E r @ NL # bs) st =
    (if r_seq r < from then replay_bytes E from fn bs st
     else (case fn r st of (st', Some e) \<Rightarrow> (st', Some e) | (st', None) \<Rightarrow> replay_bytes E from fn bs st'))"
  by (subst replay_bytes.simps)
     (simp add: line_okD [OF assms] Let_def split: prod.splits option.splits)

lemma replay_bytes_encode:
  "\<forall>r \<in> set rs. line_ok E r \<Longrightarrow>
   replay_bytes E from fn (encode_recs E rs) st = fold_cb fn (filter (\<lambda>r. \<not> r_seq r < from) rs) st"
proof (induction rs arbitrary: st)
  case (Cons r rs)
  then show ?case
    by (simp add: replay_bytes_line split: prod.splits option.splits)
qed (simp add: replay_bytes_empty)

lemma repair_scan_encode:
  "\<forall>r \<in> set rs. line_ok E r \<Longrightarrow> NL \<notin> set frag \<Longrightarrow>
   repair_scan E (encode_recs E rs @ frag) l off =
     Inr (last_seq l rs, off + length (encode_recs E rs), frag \<noteq> [])"
proof (induction rs arbitrary: l off)
  case Nil
  then show ?case by (simp add: repair_scan.simps cut_at_none)
next
  case (Cons r rs)
  have ok: "line_ok E r" using Cons.prems by simp
  have "repair_scan E (encode_recs E (r # rs) @ frag) l off =
        repair_scan E (encode_recs E rs @ frag) (r_seq r) (off + length (marshal E r) + 1)"
    by (subst repair_scan.simps) (simp add: line_okD [OF ok])
  with Cons show ?case by simp
qed

subsection \<open>The directory\<close>

lemma map_fst_dir_append [simp]: "map fst (dir_append n bs d) = map fst d"
  by (induction d) (auto simp: dir_append_def)

lemma map_fst_dir_truncate [simp]: "map fst (dir_truncate n k d) = map fst d"
  by (induction d) (auto simp: dir_truncate_def)

lemma map_of_dir_append [simp]:
  "map_of (dir_append n bs d) m = (if m = n then map_option (\<lambda>c. c @ bs) (map_of d m) else map_of d m)"
  by (induction d) (auto simp: dir_append_def)

lemma dir_append_Nil [simp]: "dir_append n [] d = d"
  unfolding dir_append_def by (rule map_idI) auto

lemma map_of_dir_truncate [simp]:
  "map_of (dir_truncate n k d) m = (if m = n then map_option (take k) (map_of d m) else map_of d m)"
  by (induction d) (auto simp: dir_truncate_def)

lemma map_of_dir_remove [simp]: "map_of (dir_remove n d) m = (if m = n then None else map_of d m)"
  by (induction d) (auto simp: dir_remove_def)

lemma dir_truncate_append:
  "distinct (map fst d) \<Longrightarrow> map_of d n = Some c \<Longrightarrow> dir_truncate n (length c) (dir_append n bs d) = d"
proof (induction d)
  case (Cons p d)
  obtain m c' where p: "p = (m, c')" by (cases p)
  have cons: "dir_truncate n (length c) (dir_append n bs (p # d)) =
    (if m = n then (m, take (length c) (c' @ bs)) else p) # dir_truncate n (length c) (dir_append n bs d)"
    by (simp add: dir_truncate_def dir_append_def p)
  show ?case
  proof (cases "m = n")
    case True
    with Cons.prems p have c: "c' = c" and "n \<notin> fst ` set d" by auto
    then have "dir_truncate n (length c) (dir_append n bs d) = d"
      unfolding dir_truncate_def dir_append_def map_map by (intro map_idI) (force simp: image_iff)
    with cons True c p show ?thesis by simp
  next
    case False
    with Cons p have "dir_truncate n (length c) (dir_append n bs d) = d" by simp
    with cons False show ?thesis by simp
  qed
qed simp

lemma seg_list_names: "map fst d = map fst d' \<Longrightarrow> seg_list d = seg_list d'"
proof (induction d arbitrary: d')
  case (Cons p d)
  then obtain q d'' where "d' = q # d''" by (cases d') auto
  with Cons show ?case by (auto split: option.splits)
qed simp

lemma seg_sorted_names: "map fst d = map fst d' \<Longrightarrow> seg_sorted d = seg_sorted d'"
  using seg_list_names [of d d'] by (simp add: seg_sorted_def)

lemma seg_list_append: "seg_list (d @ d') = seg_list d @ seg_list d'"
  by (induction d rule: seg_list.induct) (auto split: option.splits)

lemma in_seg_list: "(p, b) \<in> set (seg_list d) \<longleftrightarrow> p \<in> fst ` set d \<and> seg_base_of p = Some b"
  by (induction d rule: seg_list.induct) (force split: option.splits)+

lemma set_seg_sorted [simp]: "set (seg_sorted d) = set (seg_list d)"
  by (simp add: seg_sorted_def)

lemma seg_base_of_name [simp]: "seg_base_of (segmentName b) = Some b"
proof -
  have "cut_suffix (segmentName b) segmentSuffix = Some (format_padded segmentDigits b)"
    by (simp add: cut_suffix_Some segmentName_def)
  then show ?thesis by (simp add: seg_base_of_def)
qed

lemma sort_key_snoc: "\<forall>x \<in> set xs. f x \<le> f y \<Longrightarrow> sort_key f (xs @ [y]) = sort_key f xs @ [y]"
proof -
  assume le: "\<forall>x \<in> set xs. f x \<le> f y"
  have ins: "f x \<le> f y \<Longrightarrow> insort_key f x (zs @ [y]) = insort_key f x zs @ [y]" for x zs
    by (induction zs) auto
  have "\<forall>x \<in> set xs. f x \<le> f y \<Longrightarrow> foldr (insort_key f) xs [y] = foldr (insort_key f) xs [] @ [y]"
    by (induction xs) (auto simp: ins)
  with le show ?thesis by (simp add: sort_key_def)
qed

lemma seg_link_Nil [simp]: "seg_link ps = [] \<longleftrightarrow> ps = []"
  by (cases ps rule: seg_link.cases) auto

lemma last_seg_link: "ps \<noteq> [] \<Longrightarrow> seg_path (last (seg_link ps)) = fst (last ps) \<and> seg_base (last (seg_link ps)) = snd (last ps)"
  by (induction ps rule: seg_link.induct) auto

subsection \<open>The invariant\<close>

definition seg_rep :: "env \<Rightarrow> jdir \<Rightarrow> string \<times> u64 \<Rightarrow> jrec list \<Rightarrow> bool" where
  "seg_rep E d pb rs \<longleftrightarrow>
     map_of d (fst pb) = Some (encode_recs E rs) \<and> rs \<noteq> [] \<and> snd pb = r_seq (hd rs) \<and>
     (\<forall>r \<in> set rs. line_ok E r)"

definition jrep :: "env \<Rightarrow> jdir \<Rightarrow> jrec list list \<Rightarrow> bool" where
  "jrep E d rss \<longleftrightarrow> distinct (map fst d) \<and> list_all2 (seg_rep E d) (seg_sorted d) rss"

definition jinv :: "env \<Rightarrow> u64 \<Rightarrow> journal \<Rightarrow> jrec list list \<Rightarrow> bool" where
  "jinv E n j rss \<longleftrightarrow>
     jrep E (j_dir j) rss \<and> consec n (concat rss) \<and> (rss = [] \<longrightarrow> n = 0) \<and>
     j_last j = last_seq n (concat rss) \<and>
     (case j_cur j of None \<Rightarrow> True
      | Some p \<Rightarrow> rss \<noteq> [] \<and> p = fst (last (seg_sorted (j_dir j))) \<and>
          j_curBase j = snd (last (seg_sorted (j_dir j))) \<and>
          j_curSize j = int (length (encode_recs E (last rss))))"

lemma jinvI:
  assumes "jrep E (j_dir j) rss" "consec n (concat rss)" "rss = [] \<longrightarrow> n = 0"
    and "last_seq n (concat rss) = j_last j"
    and "\<And>p. j_cur j = Some p \<Longrightarrow> rss \<noteq> [] \<and> p = fst (last (seg_sorted (j_dir j))) \<and>
          j_curBase j = snd (last (seg_sorted (j_dir j))) \<and>
          j_curSize j = int (length (encode_recs E (last rss)))"
  shows "jinv E n j rss"
  using assms by (simp add: jinv_def split: option.split)

definition jwf :: "env \<Rightarrow> journal \<Rightarrow> bool" where
  "jwf E j \<longleftrightarrow> (\<exists>n rss. jinv E n j rss)"

definition jempty :: journal where
  "jempty = \<lparr>j_dir = [], j_cur = None, j_curSize = 0, j_curBase = 0, j_last = 0\<rparr>"

lemma jwf_empty [simp]: "jwf E jempty"
proof -
  have "jinv E 0 jempty []" by (simp add: jinv_def jrep_def jempty_def seg_sorted_def)
  then show ?thesis unfolding jwf_def by blast
qed

lemma jrep_nonempty: "jrep E d rss \<Longrightarrow> rs \<in> set rss \<Longrightarrow> rs \<noteq> []"
  unfolding jrep_def by (metis in_set_conv_nth list_all2_conv_all_nth seg_rep_def)

lemma jrep_Nil: "jrep E d rss \<Longrightarrow> rss = [] \<longleftrightarrow> seg_sorted d = []"
  by (auto simp: jrep_def)

lemma jrep_line_ok: "jrep E d rss \<Longrightarrow> r \<in> set (concat rss) \<Longrightarrow> line_ok E r"
proof -
  assume "jrep E d rss" "r \<in> set (concat rss)"
  then obtain rs pb where "r \<in> set rs" "seg_rep E d pb rs"
    unfolding jrep_def set_concat by (metis UN_iff in_set_conv_nth list_all2_conv_all_nth)
  then show "line_ok E r" by (simp add: seg_rep_def)
qed

lemma jrep_base_bounds:
  assumes "jrep E d rss" "consec n (concat rss)" "(p, b) \<in> set (seg_sorted d)"
  shows "unat n < unat b \<and> unat b \<le> unat (last_seq n (concat rss))"
proof -
  from assms(1,3) obtain rs where "rs \<in> set rss" "seg_rep E d (p, b) rs"
    unfolding jrep_def by (metis in_set_conv_nth list_all2_conv_all_nth)
  then have "b = r_seq (hd rs)" "hd rs \<in> set (concat rss)"
    by (auto simp: seg_rep_def intro!: bexI [of _ rs])
  with consec_bounds [OF assms(2)] show ?thesis by simp
qed

lemma jrep_last:
  assumes "jrep E d rss" "rss \<noteq> []"
  shows "seg_rep E d (last (seg_sorted d)) (last rss)" "seg_sorted d \<noteq> []"
proof -
  from assms have len: "length (seg_sorted d) = length rss" and ne: "seg_sorted d \<noteq> []"
    by (auto simp: jrep_def list_all2_lengthD)
  with assms show "seg_rep E d (last (seg_sorted d)) (last rss)"
    unfolding jrep_def by (auto simp: last_conv_nth list_all2_conv_all_nth)
  show "seg_sorted d \<noteq> []" by (rule ne)
qed

subsection \<open>Writing one record\<close>

lemma seg_paths_distinct: "distinct (map fst d) \<Longrightarrow> distinct (map fst (seg_sorted d))"
proof -
  assume d: "distinct (map fst d)"
  have "distinct (map fst (seg_list d))"
    using d
  proof (induction d rule: seg_list.induct)
    case (2 f d)
    have "fst f \<notin> fst ` set (seg_list d)"
    proof
      assume "fst f \<in> fst ` set (seg_list d)"
      then obtain b where "(fst f, b) \<in> set (seg_list d)" by force
      then show False using "2.prems" by (simp add: in_seg_list)
    qed
    with 2 show ?case by (auto split: option.splits)
  qed simp
  then show ?thesis by (simp add: distinct_map seg_sorted_def)
qed

lemma list_all2_snocI: "list_all2 P xs ys \<Longrightarrow> P x y \<Longrightarrow> list_all2 P (xs @ [x]) (ys @ [y])"
  by (simp add: list_all2_appendI)

text \<open>A record written to the end of the newest segment.\<close>

lemma jrep_extend:
  assumes rep: "jrep E d (rss @ [rs])" and ok: "line_ok E r"
  shows "jrep E (dir_append (fst (last (seg_sorted d))) (marshal E r @ [NL]) d) (rss @ [rs @ [r]])"
proof -
  let ?p = "fst (last (seg_sorted d))"
  let ?d = "dir_append ?p (marshal E r @ [NL]) d"
  from rep obtain ss s where ss: "seg_sorted d = ss @ [s]" and
    all: "list_all2 (seg_rep E d) ss rss" and one: "seg_rep E d s rs"
  proof (cases "seg_sorted d" rule: rev_cases)
    case Nil
    with rep show ?thesis by (simp add: jrep_def)
  next
    case (snoc ss s)
    with rep have "length ss = length rss" by (auto simp: jrep_def dest: list_all2_lengthD)
    with snoc rep that show ?thesis by (simp add: jrep_def list_all2_append)
  qed
  have same: "seg_sorted ?d = ss @ [s]" using seg_sorted_names [of ?d d] ss by simp
  have dist: "distinct (map fst (ss @ [s]))"
    using rep seg_paths_distinct [of d] ss by (simp add: jrep_def)
  have "list_all2 (seg_rep E ?d) ss rss"
    using all
  proof (rule list.rel_mono_strong)
    fix x y assume "x \<in> set ss" then have "fst x \<noteq> fst s" using dist by (auto simp: image_iff)
    moreover assume "seg_rep E d x y"
    ultimately show "seg_rep E ?d x y" using ss by (simp add: seg_rep_def)
  qed
  moreover have "seg_rep E ?d s (rs @ [r])"
    using one ok ss by (auto simp: seg_rep_def)
  ultimately show ?thesis using rep same by (simp add: jrep_def list_all2_snocI)
qed

text \<open>A record written to a new segment named after it.\<close>

lemma jrep_new_segment:
  assumes rep: "jrep E d rss" and ok: "line_ok E r"
    and above: "\<forall>(p, b) \<in> set (seg_sorted d). b < r_seq r"
  defines "d' \<equiv> dir_append (segmentName (r_seq r)) (marshal E r @ [NL]) (dir_create (segmentName (r_seq r)) d)"
  shows "jrep E d' (rss @ [[r]])"
    and "seg_sorted d' = seg_sorted d @ [(segmentName (r_seq r), r_seq r)]"
    and "segmentName (r_seq r) \<notin> fst ` set d"
proof -
  let ?n = "segmentName (r_seq r)"
  show fresh: "?n \<notin> fst ` set d"
  proof
    assume "?n \<in> fst ` set d"
    then have "(?n, r_seq r) \<in> set (seg_sorted d)" by (simp add: in_seg_list)
    with above show False by auto
  qed
  then have names: "map fst d' = map fst (d @ [(?n, [])])" by (simp add: d'_def dir_create_def)
  have "seg_sorted (d @ [(?n, [])]) = seg_sorted d @ [(?n, r_seq r)]"
    unfolding seg_sorted_def using above
    by (auto simp: seg_list_append intro!: sort_key_snoc)
  then show sorted: "seg_sorted d' = seg_sorted d @ [(?n, r_seq r)]"
    using seg_sorted_names [OF names] by simp
  have get: "map_of d' m = (if m = ?n then Some (marshal E r @ [NL]) else map_of d m)" for m
  proof -
    have "map_of (d @ [(?n, [])]) m = (if m = ?n then Some [] else map_of d m)"
      using fresh map_of_eq_None_iff [of d ?n] by (auto simp: map_add_def split: option.split)
    moreover have "dir_create ?n d = d @ [(?n, [])]" using fresh by (simp add: dir_create_def)
    ultimately show ?thesis by (simp only: d'_def map_of_dir_append) simp
  qed
  have "list_all2 (seg_rep E d') (seg_sorted d) rss"
    using rep [unfolded jrep_def, THEN conjunct2]
  proof (rule list.rel_mono_strong)
    fix x y assume "x \<in> set (seg_sorted d)"
    then have "(fst x, snd x) \<in> set (seg_list d)" by simp
    then have "fst x \<noteq> ?n" using fresh by (auto simp only: in_seg_list)
    moreover assume "seg_rep E d x y"
    ultimately show "seg_rep E d' x y" by (simp add: seg_rep_def get)
  qed
  moreover have "seg_rep E d' (?n, r_seq r) [r]" using ok by (simp add: seg_rep_def get)
  moreover have "distinct (map fst d')" using rep fresh names by (simp add: jrep_def)
  ultimately show "jrep E d' (rss @ [[r]])" by (simp add: jrep_def sorted list_all2_snocI)
qed

lemma seg_last_choice:
  "segments d \<noteq> [] \<longleftrightarrow> seg_sorted d \<noteq> []"
  "seg_sorted d \<noteq> [] \<Longrightarrow> seg_path (last (segments d)) = fst (last (seg_sorted d))"
  "seg_sorted d \<noteq> [] \<Longrightarrow> seg_base (last (segments d)) = snd (last (seg_sorted d))"
  by (simp_all add: segments_def last_seg_link)

lemma dir_create_existing: "map_of d n = Some c \<Longrightarrow> dir_create n d = d"
  by (auto simp: dir_create_def dest: map_of_SomeD intro: rev_image_eqI)

text \<open>
  \<open>ensureSegment\<close> leaves the journal positioned either at the end of the newest
  segment or at a new, empty file named after the next record.
\<close>

definition positioned_old :: "env \<Rightarrow> journal \<Rightarrow> jrec list list \<Rightarrow> journal \<Rightarrow> bool" where
  "positioned_old E j rss j' \<longleftrightarrow> rss \<noteq> [] \<and>
     j' = j\<lparr>j_cur := Some (fst (last (seg_sorted (j_dir j)))),
            j_curSize := int (length (encode_recs E (last rss))),
            j_curBase := snd (last (seg_sorted (j_dir j)))\<rparr>"

definition positioned_new :: "u64 \<Rightarrow> journal \<Rightarrow> journal \<Rightarrow> bool" where
  "positioned_new s j j' \<longleftrightarrow>
     j' = j\<lparr>j_dir := dir_create (segmentName s) (j_dir j), j_cur := Some (segmentName s),
            j_curSize := 0, j_curBase := s\<rparr>"

lemma ensureSegment_positions:
  assumes inv: "jinv E n j rss" and s: "unat s = Suc (unat (j_last j))"
  shows "\<exists>j'. ensureSegment E None s need j = (j', None) \<and>
           (positioned_old E j rss j' \<or> positioned_new s j j')"
proof (cases "j_cur j \<noteq> None \<and> j_curSize j + need \<le> max_segment E")
  case True
  then have "ensureSegment E None s need j = (j, None)" by (simp add: ensureSegment_def)
  moreover have "positioned_old E j rss j"
    using inv True by (auto simp: jinv_def positioned_old_def)
  ultimately show ?thesis by blast
next
  case False
  let ?d = "j_dir j"
  from inv have rep: "jrep E ?d rss" by (simp add: jinv_def)
  show ?thesis
  proof (cases "segments ?d \<noteq> [] \<and> dir_size (seg_path (last (segments ?d))) ?d + need \<le> max_segment E")
    case old: True
    then have ne: "seg_sorted ?d \<noteq> []" "rss \<noteq> []" using jrep_Nil [OF rep] by (auto simp: seg_last_choice(1))
    then have rp: "map_of ?d (fst (last (seg_sorted ?d))) = Some (encode_recs E (last rss))"
      using jrep_last(1) [OF rep] by (simp add: seg_rep_def)
    obtain p b where pb: "last (seg_sorted ?d) = (p, b)" by fastforce
    have "seg_choice E s need ?d = (p, b)"
      using old ne pb by (simp add: seg_choice_def seg_last_choice)
    moreover have "map_of ?d p = Some (encode_recs E (last rss))" using rp pb by simp
    moreover from this have "dir_create p ?d = ?d" by (rule dir_create_existing)
    ultimately have "ensureSegment E None s need j =
        (j\<lparr>j_cur := Some (fst (last (seg_sorted ?d))), j_curSize := int (length (encode_recs E (last rss))),
           j_curBase := snd (last (seg_sorted ?d))\<rparr>, None)"
      using False pb by (auto simp: ensureSegment_def Let_def dir_size_def)
    then show ?thesis using ne by (auto simp: positioned_old_def)
  next
    case new: False
    have "(segmentName s, s) \<notin> set (seg_sorted ?d)"
      using jrep_base_bounds [OF rep] inv s by (fastforce simp: jinv_def)
    then have "segmentName s \<notin> fst ` set ?d" by (simp add: in_seg_list)
    then have "dir_size (segmentName s) (dir_create (segmentName s) ?d) = 0"
      using map_of_eq_None_iff [of ?d "segmentName s"]
      by (auto simp: dir_create_def dir_size_def map_add_def split: option.split)
    moreover have "seg_choice E s need ?d = (segmentName s, s)" using new by (auto simp: seg_choice_def)
    ultimately have "positioned_new s j (fst (ensureSegment E None s need j)) \<and>
        snd (ensureSegment E None s need j) = None"
      using False by (auto simp: ensureSegment_def positioned_new_def Let_def)
    then show ?thesis by (metis prod.collapse)
  qed
qed

lemma write_record_ok:
  assumes inv: "jinv E n j rss" and ok: "line_ok E r" and s: "unat (r_seq r) = Suc (unat (j_last j))"
  shows "\<exists>j' rss'. write_record E None r j = (j', Inr (r_seq r)) \<and> jinv E n j' rss' \<and>
           concat rss' = concat rss @ [r] \<and> j_last j' = r_seq r"
proof -
  let ?d = "j_dir j" and ?line = "marshal E r @ [NL]"
  from inv have rep: "jrep E ?d rss" and cons: "consec n (concat rss)"
    and last: "j_last j = last_seq n (concat rss)" and n0: "rss = [] \<longrightarrow> n = 0"
    by (simp_all add: jinv_def)
  have cons': "consec n (concat rss @ [r])" using cons last s by simp
  obtain j1 where e: "ensureSegment E None (r_seq r) (int (length ?line)) j = (j1, None)"
    and pos: "positioned_old E j rss j1 \<or> positioned_new (r_seq r) j j1"
    using ensureSegment_positions [OF inv s] by blast
  from pos show ?thesis
  proof
    assume "positioned_old E j rss j1"
    then have ne: "rss \<noteq> []" and j1: "j1 = j\<lparr>j_cur := Some (fst (last (seg_sorted ?d))),
        j_curSize := int (length (encode_recs E (last rss))), j_curBase := snd (last (seg_sorted ?d))\<rparr>"
      by (simp_all add: positioned_old_def)
    let ?d' = "dir_append (fst (last (seg_sorted ?d))) ?line ?d"
    let ?rss = "butlast rss @ [last rss @ [r]]"
    let ?j = "j1\<lparr>j_dir := ?d', j_curSize := j_curSize j1 + int (length ?line), j_last := r_seq r\<rparr>"
    have "jrep E ?d' ?rss"
      using rep ne ok by (intro jrep_extend) simp_all
    moreover have "seg_sorted ?d' = seg_sorted ?d" by (rule seg_sorted_names) simp
    moreover have flat: "concat ?rss = concat rss @ [r]"
    proof -
      have "concat rss = concat (butlast rss @ [last rss])" using ne by simp
      also have "\<dots> @ [r] = concat ?rss" by (simp del: append_butlast_last_id)
      finally show ?thesis ..
    qed
    moreover have "consec n (concat ?rss)" "last_seq n (concat ?rss) = r_seq r"
      using cons' last_seq_append [of n "concat rss" "[r]"] by (simp_all only: flat last_seq.simps)
    ultimately have "jinv E n ?j ?rss" using j1 by (intro jinvI) simp_all
    moreover have "write_record E None r j = (?j, Inr (r_seq r))"
      using e j1 by (simp add: write_record_def seg_fault_of_def)
    ultimately have "write_record E None r j = (?j, Inr (r_seq r)) \<and> jinv E n ?j ?rss \<and>
        concat ?rss = concat rss @ [r] \<and> j_last ?j = r_seq r"
      using flat by (intro conjI) (assumption | simp)+
    then show ?thesis by blast
  next
    assume "positioned_new (r_seq r) j j1"
    then have j1: "j1 = j\<lparr>j_dir := dir_create (segmentName (r_seq r)) ?d, j_cur := Some (segmentName (r_seq r)),
        j_curSize := 0, j_curBase := r_seq r\<rparr>" by (simp add: positioned_new_def)
    let ?d' = "dir_append (segmentName (r_seq r)) ?line (dir_create (segmentName (r_seq r)) ?d)"
    let ?j = "j1\<lparr>j_dir := ?d', j_curSize := j_curSize j1 + int (length ?line), j_last := r_seq r\<rparr>"
    have above: "\<forall>(p, b) \<in> set (seg_sorted ?d). b < r_seq r"
      using jrep_base_bounds [OF rep cons] s last by (fastforce simp: word_less_nat_alt)
    note new = jrep_new_segment [OF rep ok above]
    have "jinv E n ?j (rss @ [[r]])"
      using new cons' j1 n0 last s by (auto simp: jinv_def)
    moreover have "write_record E None r j = (?j, Inr (r_seq r))"
      using e j1 by (simp add: write_record_def seg_fault_of_def)
    ultimately have "write_record E None r j = (?j, Inr (r_seq r)) \<and> jinv E n ?j (rss @ [[r]]) \<and>
        concat (rss @ [[r]]) = concat rss @ [r] \<and> j_last ?j = r_seq r" by simp
    then show ?thesis by blast
  qed
qed

subsection \<open>Replay reads the records at or after a position\<close>

lemma filter_from_empty:
  "consec m rs \<Longrightarrow> last_seq m rs < from \<Longrightarrow> filter (\<lambda>r. \<not> r_seq r < from) rs = []"
  using consec_bounds [of m rs] by (auto simp: filter_empty_conv word_less_nat_alt intro: le_less_trans)

lemma replay_segs_rep:
  "list_all2 (seg_rep E d) ps rss \<Longrightarrow> consec m (concat rss) \<Longrightarrow>
   replay_segs E from fn d (seg_link ps) st = fold_cb fn (filter (\<lambda>r. \<not> r_seq r < from) (concat rss)) st"
proof (induction ps arbitrary: rss m st rule: seg_link.induct)
  case 1
  then show ?case by simp
next
  case (2 p b)
  then obtain rs where "rss = [rs]" "seg_rep E d (p, b) rs" by (auto simp: list_all2_Cons1)
  then show ?case by (simp add: seg_rep_def replay_bytes_encode split: prod.split option.split)
next
  case (3 p b q c xs)
  then obtain rs rs2 rest where rss: "rss = rs # rs2 # rest" and rp: "seg_rep E d (p, b) rs"
    and rq: "seg_rep E d (q, c) rs2" and all: "list_all2 (seg_rep E d) ((q, c) # xs) (rs2 # rest)"
    by (auto simp: list_all2_Cons1)
  from "3.prems" rss have c1: "consec m rs" and c2: "consec (last_seq m rs) (concat (rs2 # rest))" by auto
  have IH: "replay_segs E from fn d (seg_link ((q, c) # xs)) st' =
      fold_cb fn (filter (\<lambda>r. \<not> r_seq r < from) (concat (rs2 # rest))) st'" for st'
    by (rule "3.IH" [OF all c2])
  show ?case
  proof (cases "c \<noteq> 0 \<and> c \<le> from")
    case True
    have "r_seq (hd rs2) = c" "hd rs2 \<in> set (concat (rs2 # rest))" using rq by (auto simp: seg_rep_def)
    then have "last_seq m rs < c" using consec_bounds [OF c2] by (auto simp: word_less_nat_alt)
    with True have "last_seq m rs < from" by (metis less_le_trans)
    then have "filter (\<lambda>r. \<not> r_seq r < from) rs = []" by (rule filter_from_empty [OF c1])
    with True IH rss show ?thesis by simp
  next
    case False
    with rp IH rss show ?thesis
      by (auto simp: seg_rep_def replay_bytes_encode fold_cb_append split: prod.split option.split)
  qed
qed

lemma jreplay_inv:
  "jinv E n j rss \<Longrightarrow> jreplay E from fn j st = fold_cb fn (filter (\<lambda>r. \<not> r_seq r < from) (concat rss)) st"
  unfolding jreplay_def segments_def by (rule replay_segs_rep) (auto simp: jinv_def jrep_def)

lemma jlog_inv: "jinv E n j rss \<Longrightarrow> jlog E j = concat rss"
  by (simp add: jlog_def jreplay_inv)

subsection \<open>Opening after a torn append\<close>

definition reopened :: "jdir \<Rightarrow> u64 \<Rightarrow> journal" where
  "reopened d l = \<lparr>j_dir = d, j_cur = None, j_curSize = 0, j_curBase = 0, j_last = l\<rparr>"

lemma jopen_empty: "seg_sorted d = [] \<Longrightarrow> jopen E None d = (d, Inr (reopened d 0))"
  by (simp add: jopen_def segments_def reopened_def Let_def)

lemma jopen_torn:
  assumes inv: "jinv E n j rss" and ne: "rss \<noteq> []" and frag: "NL \<notin> set frag"
  shows "jopen E None (dir_append (fst (last (seg_sorted (j_dir j)))) frag (j_dir j)) =
           (j_dir j, Inr (reopened (j_dir j) (j_last j)))"
    and "jinv E n (reopened (j_dir j) (j_last j)) rss"
proof -
  let ?d = "j_dir j" and ?p = "fst (last (seg_sorted (j_dir j)))"
  let ?d' = "dir_append ?p frag ?d"
  from inv have rep: "jrep E ?d rss" and cons: "consec n (concat rss)"
    and last: "j_last j = last_seq n (concat rss)" by (simp_all add: jinv_def)
  then have dist: "distinct (map fst ?d)" by (simp add: jrep_def)
  from jrep_last [OF rep ne] have get: "map_of ?d ?p = Some (encode_recs E (last rss))"
    and lne: "last rss \<noteq> []" and ok: "\<forall>r \<in> set (last rss). line_ok E r" and sne: "seg_sorted ?d \<noteq> []"
    by (simp_all add: seg_rep_def)
  have sorted: "seg_sorted ?d' = seg_sorted ?d" by (rule seg_sorted_names) simp
  have path: "segments ?d' \<noteq> []" "seg_path (last (segments ?d')) = ?p"
    using sne sorted by (simp_all add: seg_last_choice)
  have "last_seq 0 (last rss) = last_seq n (concat rss)"
  proof -
    have "concat rss = concat (butlast rss) @ last rss"
      using ne append_butlast_last_id [of rss] by (metis concat.simps(1) concat.simps(2) concat_append append_Nil2)
    then show ?thesis using lne by (simp add: last_seq_hd)
  qed
  then have scan: "repair_scan E (encode_recs E (last rss) @ frag) 0 0 =
      Inr (j_last j, length (encode_recs E (last rss)), frag \<noteq> [])"
    using repair_scan_encode [OF ok frag] last by simp
  have trunc: "dir_truncate ?p (length (encode_recs E (last rss))) ?d' = ?d"
    by (rule dir_truncate_append [OF dist get])
  have "repairTail E None ?p ?d' = (?d, Inr (j_last j))"
    using get scan trunc by (cases "frag = []") (simp_all add: repairTail_def Let_def)
  with path show "jopen E None ?d' = (?d, Inr (reopened ?d (j_last j)))"
    by (simp add: jopen_def reopened_def Let_def)
  show "jinv E n (reopened ?d (j_last j)) rss"
    using inv by (simp add: jinv_def reopened_def)
qed

subsection \<open>Pruning drops a prefix of old segments\<close>

lemma prune_none:
  "\<forall>s \<in> set ss. seg_next s = 0 \<or> keepFrom < seg_next s \<Longrightarrow> prune_segs rm keepFrom j ss d k = (d, k, None)"
  by (induction ss) auto

lemma seg_link_nexts:
  "\<forall>x \<in> set xs. b < snd x \<Longrightarrow> s \<in> set (seg_link xs) \<Longrightarrow> seg_next s = 0 \<or> b < seg_next s"
  by (induction xs rule: seg_link.induct) auto

lemma seg_sorted_remove: "seg_sorted (dir_remove p d) = filter (\<lambda>x. fst x \<noteq> p) (seg_sorted d)"
proof -
  have "seg_list (dir_remove p d) = filter (\<lambda>x. fst x \<noteq> p) (seg_list d)"
    by (induction d rule: seg_list.induct) (auto simp: dir_remove_def split: option.splits)
  then show ?thesis by (simp add: seg_sorted_def filter_sort)
qed

lemma jrep_remove_first:
  assumes rep: "jrep E d (rs # rss)" and s: "seg_sorted d = (p, b) # xs"
  shows "jrep E (dir_remove p d) rss" "seg_sorted (dir_remove p d) = xs"
proof -
  have dist: "distinct (map fst ((p, b) # xs))"
    using rep seg_paths_distinct [of d] s by (simp add: jrep_def)
  then have ne: "\<forall>x \<in> set xs. fst x \<noteq> p" by (auto simp: image_iff)
  then show xs: "seg_sorted (dir_remove p d) = xs"
    by (simp add: seg_sorted_remove s filter_id_conv)
  have "list_all2 (seg_rep E d) xs rss" using rep s by (simp add: jrep_def)
  then have "list_all2 (seg_rep E (dir_remove p d)) xs rss"
    by (rule list.rel_mono_strong) (use ne in \<open>simp add: seg_rep_def\<close>)
  moreover have "distinct (map fst (dir_remove p d))"
    using rep by (auto simp: jrep_def dir_remove_def distinct_map intro: inj_on_subset)
  ultimately show "jrep E (dir_remove p d) rss" by (simp add: jrep_def xs)
qed

lemma seg_bases_sorted:
  "list_all2 (seg_rep E d) ps rss \<Longrightarrow> consec m (concat rss) \<Longrightarrow>
   sorted_wrt (<) (map snd ps) \<and> (\<forall>x \<in> set ps. unat m < unat (snd x))"
proof (induction ps arbitrary: rss m)
  case (Cons x ps)
  then obtain rs0 rss' where "rss = rs0 # rss'" "seg_rep E d x rs0"
    and all: "list_all2 (seg_rep E d) ps rss'" by (auto simp: list_all2_Cons1)
  then obtain r rs where rss: "rss = (r # rs) # rss'" and x: "snd x = r_seq r"
    by (cases rs0) (auto simp: seg_rep_def)
  from Cons.prems(2) rss have c: "consec (r_seq r) rs" "consec (last_seq (r_seq r) rs) (concat rss')"
    and m: "unat m < unat (r_seq r)" by auto
  from Cons.IH [OF all c(2)] have "sorted_wrt (<) (map snd ps)"
    and "\<forall>y \<in> set ps. unat (last_seq (r_seq r) rs) < unat (snd y)" by auto
  moreover from this have "r_seq r < snd y \<and> unat m < unat (snd y)" if "y \<in> set ps" for y
    using that m unat_last_seq [OF c(1)] unfolding word_less_nat_alt by fastforce
  ultimately show ?case using x m by simp
qed simp

lemma prune_segs_drop:
  "jrep E d rss \<Longrightarrow> consec n (concat rss) \<Longrightarrow>
   (j_cur j \<noteq> None \<Longrightarrow> seg_sorted d \<noteq> [] \<and> j_curBase j = snd (last (seg_sorted d))) \<Longrightarrow>
   prune_segs rm keepFrom j (segments d) d k = (d', m, e) \<Longrightarrow>
   \<exists>i. jrep E d' (drop i rss) \<and> (rss \<noteq> [] \<longrightarrow> i < length rss) \<and>
       last (seg_sorted d') = last (seg_sorted d) \<and>
       (\<forall>r \<in> set (concat (take i rss)). r_seq r < keepFrom)"
proof (induction "seg_sorted d" arbitrary: d rss n k rule: seg_link.induct)
  case 1
  then have "segments d = []" by (simp add: segments_def)
  with 1 show ?case by (intro exI [of _ 0]) auto
next
  case (2 p b)
  from "2.hyps" [symmetric] have "segments d = [\<lparr>seg_path = p, seg_base = b, seg_next = 0\<rparr>]"
    by (simp add: segments_def)
  with 2 show ?case by (intro exI [of _ 0]) auto
next
  case (3 p b q c xs)
  note sd = "3.hyps"(2) [symmetric]
  have segs: "segments d = \<lparr>seg_path = p, seg_base = b, seg_next = c\<rparr> # seg_link ((q, c) # xs)"
    using sd by (simp add: segments_def)
  from "3.prems"(1) sd obtain rs rss' where rss: "rss = rs # rss'" and rne: "rss' \<noteq> []"
    by (auto simp: jrep_def list_all2_Cons1)
  have all: "list_all2 (seg_rep E d) ((q, c) # xs) rss'" using "3.prems"(1) sd rss by (simp add: jrep_def)
  have c1: "consec n rs" and c2: "consec (last_seq n rs) (concat rss')" using "3.prems"(2) rss by auto
  note below = seg_bases_sorted [OF all c2]
  have bases: "sorted_wrt (<) (map snd (seg_sorted d))"
    using seg_bases_sorted [of E d "seg_sorted d" rss n] "3.prems"(1,2) by (simp add: jrep_def)
  show ?case
  proof (cases "c = 0 \<or> keepFrom < c")
    case True
    have c0: "c \<noteq> 0" using below by auto
    have "\<forall>x \<in> set ((q, c) # xs). keepFrom < snd x"
      using below True c0 by (auto intro: less_trans)
    then have "\<forall>s \<in> set (segments d). seg_next s = 0 \<or> keepFrom < seg_next s"
      using segs seg_link_nexts [of "(q, c) # xs" keepFrom] by auto
    then have "d' = d" using prune_none "3.prems"(4) by (metis prod.inject)
    with "3.prems"(1) rss show ?thesis by (intro exI [of _ 0]) simp
  next
    case False
    have notcur: "\<not> (j_cur j \<noteq> None \<and> b = j_curBase j)"
      using "3.prems"(3) bases sd by (auto simp: last_ConsR less_imp_neq split: if_splits)
    have old: "r_seq r < keepFrom" if "r \<in> set rs" for r
      using consec_bounds [OF c1 that] below False by (auto simp: word_less_nat_alt word_le_nat_alt)
    show ?thesis
    proof (cases "rm p")
      case rm: False
      with "3.prems"(4) False notcur have "d' = d" by (auto simp: segs split: if_splits)
      with "3.prems"(1) rss show ?thesis by (intro exI [of _ 0]) simp
    next
      case rm: True
      note rest = jrep_remove_first [OF "3.prems"(1) [unfolded rss] sd]
      have lst: "last (seg_sorted (dir_remove p d)) = last (seg_sorted d)" by (simp add: rest(2) sd)
      have step: "prune_segs rm keepFrom j (segments (dir_remove p d)) (dir_remove p d) (Suc k) = (d', m, e)"
        using "3.prems"(4) [unfolded segs] False notcur rm unfolding segments_def rest(2) by (auto split: if_splits)
      have "\<exists>i. jrep E d' (drop i rss') \<and> (rss' \<noteq> [] \<longrightarrow> i < length rss') \<and>
          last (seg_sorted d') = last (seg_sorted (dir_remove p d)) \<and>
          (\<forall>r \<in> set (concat (take i rss')). r_seq r < keepFrom)"
        by (rule "3.hyps"(1) [OF rest(2) [symmetric] rest(1) c2 _ step])
           (use "3.prems"(3) lst rest(2) in auto)
      then obtain i where "jrep E d' (drop i rss')" "rss' \<noteq> [] \<longrightarrow> i < length rss'"
        "last (seg_sorted d') = last (seg_sorted d)" "\<forall>r \<in> set (concat (take i rss')). r_seq r < keepFrom"
        using lst by auto
      with rss rne old show ?thesis by (intro exI [of _ "Suc i"]) auto
    qed
  qed
qed

lemma jprune_inv:
  assumes inv: "jinv E n j rss" and res: "jprune rm keepFrom j = (j', m, e)"
  shows "\<exists>i n'. jinv E n' j' (drop i rss) \<and> j_last j' = j_last j \<and>
           (\<forall>r \<in> set (concat (take i rss)). r_seq r < keepFrom)"
proof -
  obtain d' where p: "prune_segs rm keepFrom j (segments (j_dir j)) (j_dir j) 0 = (d', m, e)"
    and j': "j' = j\<lparr>j_dir := d'\<rparr>" using res by (auto simp: jprune_def split: prod.splits)
  have "jrep E (j_dir j) rss" "consec n (concat rss)" using inv by (auto simp: jinv_def)
  moreover have "j_cur j \<noteq> None \<Longrightarrow> seg_sorted (j_dir j) \<noteq> [] \<and> j_curBase j = snd (last (seg_sorted (j_dir j)))"
    using inv by (auto simp: jinv_def jrep_def)
  ultimately obtain i where i: "jrep E d' (drop i rss)" "rss \<noteq> [] \<longrightarrow> i < length rss"
    "last (seg_sorted d') = last (seg_sorted (j_dir j))" "\<forall>r \<in> set (concat (take i rss)). r_seq r < keepFrom"
    using prune_segs_drop [OF _ _ _ p] by blast
  let ?n = "if rss = [] then n else last_seq n (concat (take i rss))"
  have "consec n (concat (take i rss) @ concat (drop i rss))"
    using inv by (simp add: jinv_def flip: concat_append)
  moreover have "last_seq n (concat (take i rss) @ concat (drop i rss)) = j_last j"
    using inv by (simp add: jinv_def flip: concat_append)
  ultimately have "jinv E ?n j' (drop i rss)"
    using i inv j' by (auto simp: jinv_def split: option.splits)
  then show ?thesis using i(4) j' by auto
qed

text \<open>Pruning keeps every record a reader at or above \<open>keepFrom\<close> can ask for.\<close>

lemma jprune_replay:
  assumes "jwf E j" and "jprune rm keepFrom j = (j', m, e)" and "keepFrom \<le> from"
  shows "jwf E j' \<and> j_last j' = j_last j \<and> jreplay E from fn j' st = jreplay E from fn j st"
proof -
  from assms(1) obtain n rss where inv: "jinv E n j rss" by (auto simp: jwf_def)
  from jprune_inv [OF inv assms(2)] obtain i n' where i: "jinv E n' j' (drop i rss)" "j_last j' = j_last j"
    "\<forall>r \<in> set (concat (take i rss)). r_seq r < keepFrom" by blast
  have "\<forall>r \<in> set (concat (take i rss)). r_seq r < from"
    using i(3) assms(3) by (meson less_le_trans)
  then have "filter (\<lambda>r. \<not> r_seq r < from) (concat (take i rss)) = []"
    by (simp add: filter_empty_conv)
  then have "filter (\<lambda>r. \<not> r_seq r < from) (concat rss) = filter (\<lambda>r. \<not> r_seq r < from) (concat (drop i rss))"
    by (metis append_Nil append_take_drop_id concat_append filter_append)
  then have "jreplay E from fn j' st = jreplay E from fn j st"
    by (simp add: jreplay_inv [OF i(1)] jreplay_inv [OF inv])
  with i show ?thesis by (auto simp: jwf_def)
qed

subsection \<open>The contract of a durable log\<close>

definition jpending :: "env \<Rightarrow> u64 \<Rightarrow> journal \<Rightarrow> jrec list" where
  "jpending E from j = fst (jreplay E from collect_cb j [])"

definition jwritten :: "env \<Rightarrow> jrec \<Rightarrow> journal \<Rightarrow> journal" where
  "jwritten E r j = fst (write_record E None r j)"

locale durable_log =
  fixes recs :: "'j \<Rightarrow> jrec list" and latest :: "'j \<Rightarrow> u64" and wr :: "jrec \<Rightarrow> 'j \<Rightarrow> 'j"
    and since :: "u64 \<Rightarrow> 'j \<Rightarrow> jrec list" and ok :: "'j \<Rightarrow> bool" and fits :: "jrec \<Rightarrow> bool"
  assumes log_write: "ok j \<Longrightarrow> fits r \<Longrightarrow> unat (r_seq r) = Suc (unat (latest j)) \<Longrightarrow> recs (wr r j) = recs j @ [r]"
    and top_write: "ok j \<Longrightarrow> fits r \<Longrightarrow> unat (r_seq r) = Suc (unat (latest j)) \<Longrightarrow> latest (wr r j) = r_seq r"
    and ok_write: "ok j \<Longrightarrow> fits r \<Longrightarrow> unat (r_seq r) = Suc (unat (latest j)) \<Longrightarrow> ok (wr r j)"
    and after_log: "ok j \<Longrightarrow> since from j = filter (\<lambda>r. \<not> r_seq r < from) (recs j)"
    and numbered: "ok j \<Longrightarrow> \<exists>n. consec n (recs j) \<and> last_seq n (recs j) = latest j"
begin

lemma after_write:
  assumes "ok j" "fits r" "unat (r_seq r) = Suc (unat (latest j))" "from \<le> r_seq r"
  shows "since from (wr r j) = since from j @ [r]"
  using assms by (simp add: after_log log_write ok_write)

lemma after_top: "ok j \<Longrightarrow> latest j < from \<Longrightarrow> since from j = []"
  using numbered [of j] filter_from_empty [of _ "recs j" "from"] by (auto simp: after_log)

lemma after_consec:
  assumes "ok j" "from \<noteq> 0" "recs j = a @ b" "last_seq n a = from - 1" "consec n (recs j)"
  shows "since from j = b"
proof -
  have c: "consec n a" "consec (from - 1) b" using assms by simp_all
  have f: "unat from = Suc (unat (from - 1))" using assms(2) by (simp add: unat_minus_one Suc_pred unat_gt_0)
  have "filter (\<lambda>r. \<not> r_seq r < from) a = []"
    using assms(2,4) f by (intro filter_from_empty [OF c(1)]) (simp add: word_less_nat_alt)
  moreover have "filter (\<lambda>r. \<not> r_seq r < from) b = b"
    using consec_bounds [OF c(2)] f by (fastforce simp: filter_id_conv word_less_nat_alt)
  ultimately show ?thesis using assms(1,3) by (simp add: after_log)
qed

lemma seqs_distinct: "ok j \<Longrightarrow> r \<in> set (recs j) \<Longrightarrow> r_seq r \<le> latest j"
  using numbered [of j] consec_bounds by (fastforce simp: word_le_nat_alt)

end

lemma jpending_inv: "jwf E j \<Longrightarrow> jpending E from j = filter (\<lambda>r. \<not> r_seq r < from) (jlog E j)"
  unfolding jwf_def jpending_def by (auto simp: jreplay_inv jlog_inv)

lemma jreplay_log: "jwf E j \<Longrightarrow> jreplay E from fn j st = fold_cb fn (jpending E from j) st"
  unfolding jwf_def by (auto simp: jreplay_inv jpending_def)

lemma jwritten_laws:
  assumes "jwf E j" "line_ok E r" "unat (r_seq r) = Suc (unat (j_last j))"
  shows "write_record E None r j = (jwritten E r j, Inr (r_seq r))"
    and "jlog E (jwritten E r j) = jlog E j @ [r]"
    and "j_last (jwritten E r j) = r_seq r" and "jwf E (jwritten E r j)"
proof -
  from assms(1) obtain n rss where inv: "jinv E n j rss" by (auto simp: jwf_def)
  from write_record_ok [OF inv assms(2,3)] obtain j' rss' where w: "write_record E None r j = (j', Inr (r_seq r))"
    and inv': "jinv E n j' rss'" and c: "concat rss' = concat rss @ [r]" and l: "j_last j' = r_seq r" by blast
  from w show "write_record E None r j = (jwritten E r j, Inr (r_seq r))" by (simp add: jwritten_def)
  from w c jlog_inv [OF inv] jlog_inv [OF inv'] show "jlog E (jwritten E r j) = jlog E j @ [r]"
    by (simp add: jwritten_def)
  from w l show "j_last (jwritten E r j) = r_seq r" by (simp add: jwritten_def)
  from w inv' show "jwf E (jwritten E r j)" by (auto simp: jwritten_def jwf_def)
qed

lemma jwf_numbered: "jwf E j \<Longrightarrow> \<exists>n. consec n (jlog E j) \<and> last_seq n (jlog E j) = j_last j"
  unfolding jwf_def jinv_def using jlog_inv unfolding jinv_def by metis

interpretation jl: durable_log "jlog E" j_last "jwritten E" "jpending E" "jwf E" "line_ok E"
  by unfold_locales (auto simp: jwritten_laws jpending_inv jwf_numbered)

end
