(* ===== verification/StoreLaws.thy ===== *)
theory StoreLaws
  imports Store IndexLaws JournalLog
begin

text \<open>
  The store implements a map from (bucket, key) to an object value, and the journal is
  the list of updates of that map.  \<open>sabs\<close> reads the map off the index, \<open>spec_apply\<close> is
  what a record means, and \<open>store_apply\<close> refines it: this is the contract \<open>replayable\<close>,
  interpreted on the code's definitions.  \<open>refs_inv\<close> says that the count kept for a
  blob is the number of keys and open upload parts that hold it, and every operation
  of the store keeps it.
\<close>

subsection \<open>The abstract store\<close>

record objval =
  ov_hash :: string
  ov_etag :: string
  ov_size :: i64
  ov_mtime :: gotime

type_synonym spec = "string \<times> string \<Rightarrow> objval option"

definition objval_of :: "entry \<Rightarrow> objval" where
  "objval_of e = \<lparr>ov_hash = e_hash e, ov_etag = e_etag e, ov_size = e_size e, ov_mtime = e_mtime e\<rparr>"

definition sabs :: "idx \<Rightarrow> spec" where
  "sabs x p = map_option objval_of (ix_lookup x (store_ns (fst p), snd p))"

definition spec_apply :: "jrec \<Rightarrow> spec \<Rightarrow> spec" where
  "spec_apply r m =
     (if r_op r = opPut then
        m((r_bucket r, r_key r) \<mapsto> \<lparr>ov_hash = r_hash r, ov_etag = r_etag r, ov_size = r_size r, ov_mtime = r_mtime r\<rparr>)
      else if r_op r = opDelete then m((r_bucket r, r_key r) := None)
      else m)"

definition spec_run :: "jrec list \<Rightarrow> spec \<Rightarrow> spec" where
  "spec_run rs m = foldl (\<lambda>m r. spec_apply r m) m rs"

lemma spec_run_simps [simp]:
  "spec_run [] m = m" "spec_run (r # rs) m = spec_run rs (spec_apply r m)"
  "spec_run (a @ b) m = spec_run b (spec_run a m)"
  by (simp_all add: spec_run_def)

subsection \<open>Counting what holds a blob\<close>

definition holders :: "('k \<Rightarrow> 'v option) \<Rightarrow> ('k \<Rightarrow> 'v \<Rightarrow> bool) \<Rightarrow> nat" where
  "holders m P = card {p. \<exists>v. m p = Some v \<and> P p v}"

definition opt_holds :: "('v \<Rightarrow> bool) \<Rightarrow> 'v option \<Rightarrow> nat" where
  "opt_holds P v = (case v of Some a \<Rightarrow> if P a then 1 else 0 | None \<Rightarrow> 0)"

lemma card_split: "finite S \<Longrightarrow> card S = card (S - {p}) + (if p \<in> S then 1 else 0)"
  using card_Suc_Diff1 [of S p] by auto

lemma holders_upd:
  assumes "finite (dom m)"
  shows "holders (m(p := v)) P + opt_holds (P p) (m p) = holders m P + opt_holds (P p) v"
proof -
  let ?S = "{q. \<exists>v. m q = Some v \<and> P q v}" and ?T = "{q. \<exists>w. (m(p := v)) q = Some w \<and> P q w}"
  have "finite ?S" by (rule finite_subset [OF _ assms]) auto
  moreover have "finite ?T" by (rule finite_subset [of _ "insert p (dom m)"]) (use assms in auto)
  moreover have "?T - {p} = ?S - {p}" by auto
  moreover have "(if p \<in> ?S then 1 else 0) = opt_holds (P p) (m p)" "(if p \<in> ?T then 1 else 0) = opt_holds (P p) v"
    by (simp_all add: opt_holds_def split: option.split)
  ultimately show ?thesis
    unfolding holders_def using card_split [of ?S p] card_split [of ?T p] by simp
qed

lemma holders_zero:
  assumes "finite (dom m)"
  shows "holders m P = 0 \<longleftrightarrow> (\<forall>p v. m p = Some v \<longrightarrow> \<not> P p v)"
proof -
  have "finite {p. \<exists>v. m p = Some v \<and> P p v}" by (rule finite_subset [OF _ assms]) blast
  then show ?thesis by (simp add: holders_def)
qed

lemma holders_pos: "finite (dom m) \<Longrightarrow> m p = Some v \<Longrightarrow> P p v \<Longrightarrow> 0 < holders m P"
  using holders_zero [of m P] by (metis gr0I)

lemma finite_lookup [simp]: "finite (dom (ix_lookup x))"
proof (rule finite_subset)
  show "dom (ix_lookup x) \<subseteq> (\<Union>q \<in> set (ix_objs x). {fst q} \<times> fst ` set (snd q))"
  proof
    fix p assume "p \<in> dom (ix_lookup x)"
    then obtain ob e where ob: "bk_get (ix_objs x) (fst p) = Some ob" and e: "bk_get ob (snd p) = Some (Enc e)"
      by (auto simp: ix_lookup_def ns_objs_def split: option.splits raw.splits)
    from bk_get_in [OF ob] bk_get_in [OF e] have "(fst p, ob) \<in> set (ix_objs x)" "snd p \<in> fst ` set ob"
      by (auto intro: rev_image_eqI)
    then show "p \<in> (\<Union>q \<in> set (ix_objs x). {fst q} \<times> fst ` set (snd q))"
      by (cases p) force
  qed
qed simp

definition key_count :: "idx \<Rightarrow> string \<Rightarrow> nat" where
  "key_count x h = holders (ix_lookup x) (\<lambda>p e. InScope (fst p) ScopeStore \<and> e_hash e = h)"

fun part_w :: "string \<Rightarrow> metaval \<Rightarrow> int" where
  "part_w h (MBytes b) = 0"
| "part_w h (MUpload u) = int (length (filter (\<lambda>p. p_hash (snd p) = h) (u_parts u)))"

definition part_count :: "idx \<Rightarrow> string \<Rightarrow> int" where
  "part_count x h = bk_sum (part_w h) (ix_meta x)"

definition refc :: "idx \<Rightarrow> string \<Rightarrow> i64" where
  "refc x h = rf_count (ref_or_zero x h)"

definition refs_inv :: "idx \<Rightarrow> bool" where
  "refs_inv x \<longleftrightarrow> (\<forall>h. h \<noteq> [] \<longrightarrow> refc x h = of_int (int (key_count x h) + part_count x h))"

lemma part_count_nonneg: "0 \<le> part_count x h"
proof -
  have "0 \<le> part_w h v" for v by (cases v) simp_all
  then show ?thesis unfolding part_count_def bk_sum_def by (intro sum_list_nonneg) auto
qed

lemma refs_inv_empty [simp]: "refs_inv idx_empty"
proof -
  have "ix_lookup idx_empty p = None" for p by (simp add: ix_lookup_def ns_objs_def idx_empty_def)
  then have "key_count idx_empty h = 0" for h by (simp add: key_count_def holders_def)
  then show ?thesis
    by (simp add: refs_inv_def refc_def ref_or_zero_def ix_ref_def part_count_def idx_empty_def zero_ref_def)
qed

subsection \<open>Binding and releasing a key\<close>

definition holds :: "string \<Rightarrow> entry option \<Rightarrow> nat" where
  "holds h v = opt_holds (\<lambda>e. e_hash e = h) v"

lemma holds_simps [simp]: "holds h None = 0" "holds h (Some e) = (if e_hash e = h then 1 else 0)"
  by (simp_all add: holds_def opt_holds_def)

lemma store_ns_scope [simp]: "InScope (store_ns b) ScopeStore"
  by (simp add: store_ns_def)

lemma store_ns_inject [simp]: "store_ns a = store_ns b \<longleftrightarrow> a = b"
  by (simp add: store_ns_def)

lemma key_count_upd:
  assumes "ix_lookup x' = (ix_lookup x)((store_ns b, k) := v)"
  shows "key_count x' h + holds h (ix_lookup x (store_ns b, k)) = key_count x h + holds h v"
  using holders_upd [of "ix_lookup x" "(store_ns b, k)" v "\<lambda>p e. InScope (fst p) ScopeStore \<and> e_hash e = h"]
  by (simp add: key_count_def assms holds_def opt_holds_def)

text \<open>
  How the two counts must move together: the reference of every blob changes by what
  the key's old and new values hold.
\<close>

lemma refs_inv_upd:
  assumes inv: "refs_inv x" and look: "ix_lookup x' = (ix_lookup x)((store_ns b, k) := v)"
    and parts: "part_count x' = part_count x"
    and refc: "\<And>h. h \<noteq> [] \<Longrightarrow> refc x' h = refc x h + of_nat (holds h v) - of_nat (holds h (ix_lookup x (store_ns b, k)))"
  shows "refs_inv x'"
  unfolding refs_inv_def
proof (intro allI impI)
  fix h :: string assume h: "h \<noteq> []"
  from key_count_upd [OF look, of h]
  have "int (key_count x' h) = int (key_count x h) + int (holds h v) - int (holds h (ix_lookup x (store_ns b, k)))"
    by linarith
  then show "refc x' h = of_int (int (key_count x' h) + part_count x' h)"
    using inv h by (simp add: refc refs_inv_def parts)
qed

lemma refc_other:
  "ix_refs x' = ix_refs x \<Longrightarrow> refc x' h = refc x h"
  by (simp add: refc_def ref_or_zero_def ix_ref_def)

lemma part_count_other: "ix_meta x' = ix_meta x \<Longrightarrow> part_count x' = part_count x"
  by (simp add: part_count_def fun_eq_iff)

lemma tx_ref_refc:
  assumes "idx_inv x" "\<not> time_is_zero now" "tx_ref E h d now x = Inr (n, x')"
  shows "refc x' h' = (if h' = h then refc x h + d else refc x h')"
  using tx_ref_Inr(2) [OF assms] by (simp add: refc_def ref_or_zero_def)

definition bound_entry :: "gotime \<Rightarrow> string \<Rightarrow> string \<Rightarrow> string \<Rightarrow> i64 \<Rightarrow> gotime \<Rightarrow> gotime \<Rightarrow> entry option \<Rightarrow> entry" where
  "bound_entry t0 key hash etag sz mtime now old =
     stamped t0 \<lparr>e_key = key, e_size = sz, e_mtime = mtime,
       e_mode = (case old of Some o1 \<Rightarrow> if e_hash o1 = hash then e_mode o1 else mode644 | None \<Rightarrow> mode644),
       e_hash = hash, e_etag = etag, e_state = Synced, e_atime = now,
       e_pinned = (case old of Some o1 \<Rightarrow> e_hash o1 = hash \<and> e_pinned o1 | None \<Rightarrow> False)\<rparr>"

lemma store_bind_Inr:
  assumes inv: "idx_inv x" and now: "\<not> time_is_zero now"
    and res: "store_bind E t0 b k hash etag sz mtime now x = Inr x'"
  shows "idx_inv x'"
    and "ix_lookup x' = (ix_lookup x)((store_ns b, k) \<mapsto> bound_entry t0 k hash etag sz mtime now (ix_lookup x (store_ns b, k)))"
    and "ix_meta x' = ix_meta x"
    and "h \<noteq> [] \<Longrightarrow> refc x' h = refc x h + of_nat (holds h (Some (bound_entry t0 k hash etag sz mtime now (ix_lookup x (store_ns b, k)))))
            - of_nat (holds h (ix_lookup x (store_ns b, k)))"
proof -
  let ?old = "ix_lookup x (store_ns b, k)"
  let ?e = "bound_entry t0 k hash etag sz mtime now ?old"
  have main: "idx_inv x' \<and> ix_lookup x' = (ix_lookup x)((store_ns b, k) \<mapsto> ?e) \<and> ix_meta x' = ix_meta x \<and>
      (h \<noteq> [] \<longrightarrow> refc x' h = refc x h + of_nat (holds h (Some ?e)) - of_nat (holds h ?old))" for h
  proof (cases "\<exists>o1. ?old = Some o1 \<and> e_hash o1 = hash")
    case True
    then obtain o1 where o1: "?old = Some o1" "e_hash o1 = hash" by blast
    let ?f = "\<lparr>e_key = k, e_size = sz, e_mtime = mtime, e_mode = e_mode o1, e_hash = hash, e_etag = etag,
              e_state = Synced, e_atime = now, e_pinned = e_pinned o1\<rparr>"
    have put: "tx_put E t0 (store_ns b) ?f x = Inr x'" using res o1 by (simp add: store_bind_def tx_get_lookup [OF inv])
    have "stamped t0 ?f = ?e" using o1 by (simp add: bound_entry_def)
    moreover note tx_put_Inr [OF inv put] refc_other [of x' x h]
    ultimately show ?thesis using o1 by (simp add: bound_entry_def)
  next
    case False
    let ?f = "\<lparr>e_key = k, e_size = sz, e_mtime = mtime, e_mode = mode644, e_hash = hash, e_etag = etag,
              e_state = Synced, e_atime = now, e_pinned = False\<rparr>"
    have e: "stamped t0 ?f = ?e" using False by (auto simp: bound_entry_def split: option.split)
    have eh: "e_hash ?e = hash" by (simp add: bound_entry_def)
    obtain x1 where x1: "idx_inv x1" "ix_lookup x1 = ix_lookup x" "ix_meta x1 = ix_meta x"
        "h \<noteq> [] \<longrightarrow> refc x1 h = refc x h - of_nat (holds h ?old)"
      and rest: "res_bind (tx_ref E hash 1 now x1) (\<lambda>(_, x2). tx_put E t0 (store_ns b) ?f x2) = Inr x'"
    proof (cases "\<exists>o1. ?old = Some o1 \<and> e_hash o1 \<noteq> []")
      case True
      then obtain o1 where o1: "?old = Some o1" "e_hash o1 \<noteq> []" by blast
      then obtain n x1 where r: "tx_ref E (e_hash o1) (- 1) now x = Inr (n, x1)"
        and rest: "res_bind (tx_ref E hash 1 now x1) (\<lambda>(_, x2). tx_put E t0 (store_ns b) ?f x2) = Inr x'"
        using res False by (auto simp: store_bind_def tx_get_lookup [OF inv] res_bind_Inr)
      show thesis
        by (rule that [OF _ _ _ _ rest])
          (use tx_ref_Inr [OF inv now r] tx_ref_refc [OF inv now r] o1 in auto)
    next
      case no: False
      then have "res_bind (tx_ref E hash 1 now x) (\<lambda>(_, x2). tx_put E t0 (store_ns b) ?f x2) = Inr x'"
        using res False by (cases "?old") (auto simp: store_bind_def tx_get_lookup [OF inv])
      moreover have "h \<noteq> [] \<longrightarrow> holds h ?old = 0" using no by (cases "?old") auto
      ultimately show thesis using inv by (intro that) auto
    qed
    from rest obtain n x2 where r2: "tx_ref E hash 1 now x1 = Inr (n, x2)" and put: "tx_put E t0 (store_ns b) ?f x2 = Inr x'"
      by (auto simp: res_bind_Inr)
    note t2 = tx_ref_Inr [OF x1(1) now r2] and c2 = tx_ref_refc [OF x1(1) now r2]
    note t3 = tx_put_Inr [OF t2(1) put, unfolded e]
    show ?thesis
      using t3 t2 x1 c2 [of h] refc_other [OF t3(3), of h] eh by auto
  qed
  from main [of "[]"] show "idx_inv x'" "ix_lookup x' = (ix_lookup x)((store_ns b, k) \<mapsto> ?e)" "ix_meta x' = ix_meta x"
    by simp_all
  from main [of h] show "h \<noteq> [] \<Longrightarrow> refc x' h = refc x h + of_nat (holds h (Some ?e)) - of_nat (holds h ?old)"
    by (elim conjE) (erule (1) mp)
qed

lemma store_unbind_Inr:
  assumes inv: "idx_inv x" and now: "\<not> time_is_zero now" and res: "store_unbind E b k now x = Inr x'"
  shows "idx_inv x'" and "ix_lookup x' = (ix_lookup x)((store_ns b, k) := None)" and "ix_meta x' = ix_meta x"
    and "h \<noteq> [] \<Longrightarrow> refc x' h = refc x h - of_nat (holds h (ix_lookup x (store_ns b, k)))"
proof -
  let ?old = "ix_lookup x (store_ns b, k)"
  from res obtain old x1 where d: "tx_delete E (store_ns b) k x = Inr (old, x1)"
    by (auto simp: store_unbind_def res_bind_Inr)
  note t = tx_delete_Inr [OF inv d]
  have "idx_inv x' \<and> ix_lookup x' = (ix_lookup x)((store_ns b, k) := None) \<and> ix_meta x' = ix_meta x \<and>
      (h \<noteq> [] \<longrightarrow> refc x' h = refc x h - of_nat (holds h ?old))" for h
  proof (cases "\<exists>o1. ?old = Some o1 \<and> e_hash o1 \<noteq> []")
    case False
    with res d t have "x' = x1" by (auto simp: store_unbind_def split: option.splits if_splits)
    moreover have "h \<noteq> [] \<longrightarrow> holds h ?old = 0" using False by (cases "?old") auto
    ultimately show ?thesis using t refc_other [OF t(4), of h] by simp
  next
    case True
    then obtain o1 n where o1: "?old = Some o1" "e_hash o1 \<noteq> []" and r: "tx_ref E (e_hash o1) (- 1) now x1 = Inr (n, x')"
      using res d t(2) by (auto simp: store_unbind_def res_bind_Inr)
    note t2 = tx_ref_Inr [OF t(1) now r]
    show ?thesis
      using tx_ref_refc [OF t(1) now r, of h] refc_other [OF t(4)] o1 t2(1) t2(4,5) t(3,5) by simp
  qed
  note main = this
  from main [of "[]"] show "idx_inv x'" "ix_lookup x' = (ix_lookup x)((store_ns b, k) := None)" "ix_meta x' = ix_meta x"
    by simp_all
  from main [of h] show "h \<noteq> [] \<Longrightarrow> refc x' h = refc x h - of_nat (holds h ?old)"
    by (elim conjE) (erule (1) mp)
qed

subsection \<open>Applying a record refines the abstract update\<close>

definition hashes_ok :: "env \<Rightarrow> idx \<Rightarrow> bool" where
  "hashes_ok E x \<longleftrightarrow> (\<forall>b k e. ix_lookup x (store_ns b, k) = Some e \<longrightarrow> name_ok E (e_hash e))"

definition applied_ok :: "idx \<Rightarrow> bool" where
  "applied_ok x \<longleftrightarrow> (case tx_meta appliedSeqKey x of Some (MUpload _) \<Rightarrow> False | _ \<Rightarrow> True)"

text \<open>A record the store can apply: stamped, and with names the index accepts.\<close>

definition rec_ok :: "env \<Rightarrow> jrec \<Rightarrow> bool" where
  "rec_ok E r \<longleftrightarrow> \<not> time_is_zero (r_time r) \<and>
     (r_op r = opPut \<and> name_ok E (store_ns (r_bucket r)) \<and> name_ok E (r_key r) \<and> name_ok E (r_hash r) \<or>
      r_op r = opDelete \<and> name_ok E (store_ns (r_bucket r)) \<or>
      r_op r = opGC)"

definition index_ok :: "env \<Rightarrow> idx \<Rightarrow> bool" where
  "index_ok E x \<longleftrightarrow> idx_inv x \<and> hashes_ok E x \<and> applied_ok x"

lemma index_ok_empty [simp]: "index_ok E idx_empty"
  by (simp add: index_ok_def hashes_ok_def applied_ok_def ix_lookup_def ns_objs_def tx_meta_def idx_empty_def
      del: idx_inv_empty) (simp add: idx_inv_empty [unfolded idx_empty_def])

lemma set_applied_Inr:
  assumes "idx_inv x" "set_applied E seq x = Inr x'"
  shows "idx_inv x'" "ix_lookup x' = ix_lookup x" "ix_refs x' = ix_refs x"
    "tx_meta appliedSeqKey x' = Some (MBytes (format_uint seq))" "applied_ok x'"
    "applied_ok x \<Longrightarrow> part_count x' = part_count x" "k \<noteq> appliedSeqKey \<Longrightarrow> tx_meta k x' = tx_meta k x"
proof -
  note t = assms(2) [unfolded set_applied_def]
  from tx_setMeta_Inr [OF assms(1) t]
  show "idx_inv x'" "ix_lookup x' = ix_lookup x" "ix_refs x' = ix_refs x"
    and m: "tx_meta appliedSeqKey x' = Some (MBytes (format_uint seq))"
    and "k \<noteq> appliedSeqKey \<Longrightarrow> tx_meta k x' = tx_meta k x" by simp_all
  show "applied_ok x'" by (simp add: applied_ok_def m)
  assume old: "applied_ok x"
  from t have "ix_meta x' = bk_put appliedSeqKey (MBytes (format_uint seq)) (ix_meta x)"
    by (auto simp: tx_setMeta_def res_bind_Inr kv_put_Inr)
  then show "part_count x' = part_count x"
    using old idx_invD(7) [OF assms(1)]
    by (auto simp: part_count_def fun_eq_iff bks.total_upd applied_ok_def tx_meta_def opt_weight_def
        split: option.splits metaval.splits)
qed

lemma store_bind_succeeds:
  assumes "idx_inv x" "hashes_ok E x" "\<not> time_is_zero now" "name_ok E (store_ns b)" "name_ok E k" "name_ok E hash"
  shows "\<exists>x'. store_bind E t0 b k hash etag sz mtime now x = Inr x'"
proof -
  have put: "\<exists>x'. tx_put E t0 (store_ns b) e y = Inr x'" if "idx_inv y" "e_key e = k" for e y
    using tx_put_succeeds [OF that(1)] that(2) assms(4,5) by simp
  have rest: "\<exists>x'. res_bind (tx_ref E hash 1 now y) (\<lambda>(_, x2). tx_put E t0 (store_ns b) e x2) = Inr x'"
    if y: "idx_inv y" and e: "e_key e = k" for y e
  proof -
    obtain n x2 where r: "tx_ref E hash 1 now y = Inr (n, x2)" using tx_ref_succeeds [OF y assms(6)] by force
    with put [OF tx_ref_Inr(1) [OF y assms(3) r] e] show ?thesis by simp
  qed
  show ?thesis
  proof (cases "ix_lookup x (store_ns b, k)")
    case None
    then show ?thesis using rest [OF assms(1)] by (simp add: store_bind_def tx_get_lookup [OF assms(1)])
  next
    case (Some o1)
    then have "name_ok E (e_hash o1)" using assms(2) by (auto simp: hashes_ok_def)
    then obtain n x1 where r: "tx_ref E (e_hash o1) (- 1) now x = Inr (n, x1)"
      using tx_ref_succeeds [OF assms(1)] by force
    show ?thesis
      using Some r put [OF assms(1)] rest [OF assms(1)] rest [OF tx_ref_Inr(1) [OF assms(1,3) r]]
      by (simp add: store_bind_def tx_get_lookup [OF assms(1)])
  qed
qed

lemma store_unbind_succeeds:
  assumes "idx_inv x" "hashes_ok E x" "name_ok E (store_ns b)"
  shows "\<exists>x'. store_unbind E b k now x = Inr x'"
proof -
  from tx_delete_succeeds [OF assms(1,3)] obtain old x1 where d: "tx_delete E (store_ns b) k x = Inr (old, x1)" by force
  note t = tx_delete_Inr [OF assms(1) d]
  show ?thesis
  proof (cases old)
    case None
    with d show ?thesis by (simp add: store_unbind_def)
  next
    case (Some o1)
    then have "name_ok E (e_hash o1)" using assms(2) t(2) by (auto simp: hashes_ok_def)
    then obtain n x2 where "tx_ref E (e_hash o1) (- 1) now x1 = Inr (n, x2)" using tx_ref_succeeds [OF t(1)] by force
    with d Some show ?thesis by (simp add: store_unbind_def)
  qed
qed

lemma sabs_upd:
  "ix_lookup x' = (ix_lookup x)((store_ns b, k) := v) \<Longrightarrow> sabs x' = (sabs x)((b, k) := map_option objval_of v)"
  by (auto simp: sabs_def fun_eq_iff)

lemma hashes_ok_upd:
  "hashes_ok E x \<Longrightarrow> ix_lookup x' = (ix_lookup x)((store_ns b, k) := v) \<Longrightarrow>
   (\<And>e. v = Some e \<Longrightarrow> name_ok E (e_hash e)) \<Longrightarrow> hashes_ok E x'"
  by (auto simp: hashes_ok_def split: if_splits)

lemma bound_entry_simps [simp]:
  "e_hash (bound_entry t0 k hash etag sz mtime now old) = hash"
  "objval_of (bound_entry t0 k hash etag sz mtime now old) =
     \<lparr>ov_hash = hash, ov_etag = etag, ov_size = sz, ov_mtime = mtime\<rparr>"
  by (simp_all add: bound_entry_def objval_of_def)

text \<open>The record's own part of \<open>store_apply\<close>, before the position is stored.\<close>

definition apply_op :: "env \<Rightarrow> gotime \<Rightarrow> jrec \<Rightarrow> idx \<Rightarrow> gerr + idx" where
  "apply_op E t0 r x =
     (if r_op r = opPut then
        store_bind E t0 (r_bucket r) (r_key r) (r_hash r) (r_etag r) (r_size r) (r_mtime r) (r_time r) x
      else if r_op r = opDelete then store_unbind E (r_bucket r) (r_key r) (r_time r) x
      else if r_op r = opGC then tx_dropRef (r_hash r) x
      else Inl (Errf ''store: unknown journal op''))"

lemma store_apply_op: "store_apply E t0 r x = res_bind (apply_op E t0 r x) (set_applied E (r_seq r))"
  by (simp add: store_apply_def apply_op_def)

text \<open>A collection record may drop a reference only when nothing holds the blob.\<close>

definition gc_ok :: "(string \<Rightarrow> int) \<Rightarrow> jrec \<Rightarrow> spec \<Rightarrow> bool" where
  "gc_ok parts r m \<longleftrightarrow> (r_op r = opGC \<longrightarrow> parts (r_hash r) = 0 \<and> (\<forall>p v. m p = Some v \<longrightarrow> ov_hash v \<noteq> r_hash r))"

lemma key_count_sabs:
  "key_count x h = 0 \<longleftrightarrow> (\<forall>p v. InScope (fst p) ScopeStore \<longrightarrow> ix_lookup x p = Some v \<longrightarrow> e_hash v \<noteq> h)"
  by (auto simp: key_count_def holders_zero)

text \<open>Every namespace in the store's scope is the namespace of a bucket.\<close>

lemma InScope_store: "InScope ns ScopeStore \<Longrightarrow> \<exists>b. ns = store_ns b"
  by (auto simp: InScope_def has_prefix_iff store_ns_def ix_namespace_def)

lemma gc_key_count: "\<forall>p v. sabs x p = Some v \<longrightarrow> ov_hash v \<noteq> h \<Longrightarrow> key_count x h = 0"
  unfolding key_count_sabs
proof (intro allI impI)
  fix p v assume a: "\<forall>p v. sabs x p = Some v \<longrightarrow> ov_hash v \<noteq> h" "InScope (fst p) ScopeStore" "ix_lookup x p = Some v"
  from InScope_store [OF a(2)] obtain b where "p = (store_ns b, snd p)" by (cases p) auto
  with a(3) have "sabs x (b, snd p) = Some (objval_of v)" by (simp add: sabs_def)
  with a(1) show "e_hash v \<noteq> h" by (fastforce simp: objval_of_def)
qed

lemma apply_op_Inr:
  assumes ok: "index_ok E x" "rec_ok E r" and res: "apply_op E t0 r x = Inr x'"
  shows "index_ok E x'" "sabs x' = spec_apply r (sabs x)" "ix_meta x' = ix_meta x"
    and "refs_inv x \<Longrightarrow> gc_ok (part_count x) r (sabs x) \<Longrightarrow> refs_inv x'"
proof -
  have inv: "idx_inv x" and hs: "hashes_ok E x" and ap: "applied_ok x" and now: "\<not> time_is_zero (r_time r)"
    using ok by (auto simp: index_ok_def rec_ok_def)
  have "index_ok E x' \<and> sabs x' = spec_apply r (sabs x) \<and> ix_meta x' = ix_meta x \<and>
      (refs_inv x \<longrightarrow> gc_ok (part_count x) r (sabs x) \<longrightarrow> refs_inv x')"
  proof -
    consider (put) "r_op r = opPut" | (del) "r_op r = opDelete" | (gc) "r_op r = opGC"
      using ok(2) by (auto simp: rec_ok_def)
    then show ?thesis
    proof cases
      case put
      let ?old = "ix_lookup x (store_ns (r_bucket r), r_key r)"
      let ?e = "bound_entry t0 (r_key r) (r_hash r) (r_etag r) (r_size r) (r_mtime r) (r_time r) ?old"
      have b: "store_bind E t0 (r_bucket r) (r_key r) (r_hash r) (r_etag r) (r_size r) (r_mtime r) (r_time r) x = Inr x'"
        using res put by (simp add: apply_op_def)
      note t = store_bind_Inr [OF inv now b]
      have "name_ok E (r_hash r)" using ok(2) put by (auto simp: rec_ok_def)
      then have "hashes_ok E x'" by (intro hashes_ok_upd [OF hs t(2)]) auto
      moreover have "refs_inv x'" if "refs_inv x"
        by (rule refs_inv_upd [OF that t(2) part_count_other [OF t(3)] t(4)])
      moreover have "applied_ok x'" using ap t(3) by (simp add: applied_ok_def tx_meta_def)
      ultimately show ?thesis
        using t(1,3) sabs_upd [OF t(2)] put by (simp add: index_ok_def spec_apply_def)
    next
      case del
      then have u: "store_unbind E (r_bucket r) (r_key r) (r_time r) x = Inr x'"
        using res by (simp add: apply_op_def)
      note t = store_unbind_Inr [OF inv now u]
      have "hashes_ok E x'" by (intro hashes_ok_upd [OF hs t(2)]) auto
      moreover have "refs_inv x'" if "refs_inv x"
        by (rule refs_inv_upd [OF that t(2) part_count_other [OF t(3)]]) (simp add: t(4))
      moreover have "applied_ok x'" using ap t(3) by (simp add: applied_ok_def tx_meta_def)
      ultimately show ?thesis
        using t(1,3) sabs_upd [OF t(2)] del by (simp add: index_ok_def spec_apply_def)
    next
      case gc
      then have d: "tx_dropRef (r_hash r) x = Inr x'" using res by (simp add: apply_op_def)
      note t = tx_dropRef_Inr [OF inv d]
      have "sabs x' = sabs x" by (simp add: sabs_def fun_eq_iff t(3))
      moreover have "refs_inv x'" if r: "refs_inv x" and g: "gc_ok (part_count x) r (sabs x)"
      proof -
        have kc: "key_count x' = key_count x" by (simp add: key_count_def t(3) fun_eq_iff)
        have "key_count x (r_hash r) = 0" "part_count x (r_hash r) = 0"
          using g gc gc_key_count [of x "r_hash r"] by (auto simp: gc_ok_def)
        then show ?thesis
          using r unfolding refs_inv_def kc part_count_other [OF t(4)]
          by (auto simp: refc_def ref_or_zero_def t(2) zero_ref_def)
      qed
      ultimately show ?thesis
        using t gc hs ap by (auto simp: index_ok_def hashes_ok_def applied_ok_def tx_meta_def spec_apply_def)
    qed
  qed
  then show "index_ok E x'" "sabs x' = spec_apply r (sabs x)" "ix_meta x' = ix_meta x"
    and "refs_inv x \<Longrightarrow> gc_ok (part_count x) r (sabs x) \<Longrightarrow> refs_inv x'" by auto
qed

lemma apply_op_succeeds:
  assumes "index_ok E x" "rec_ok E r"
  shows "\<exists>x'. apply_op E t0 r x = Inr x'"
  using assms store_bind_succeeds [of x E "r_time r"] store_unbind_succeeds [of x E]
  by (auto simp: apply_op_def rec_ok_def index_ok_def tx_dropRef_def)

lemma store_apply_Inr:
  assumes ok: "index_ok E x" "rec_ok E r" and res: "store_apply E t0 r x = Inr x'"
  shows "index_ok E x'" "sabs x' = spec_apply r (sabs x)" "part_count x' = part_count x"
    "tx_meta appliedSeqKey x' = Some (MBytes (format_uint (r_seq r)))"
    "refs_inv x \<Longrightarrow> gc_ok (part_count x) r (sabs x) \<Longrightarrow> refs_inv x'"
    "k \<noteq> appliedSeqKey \<Longrightarrow> tx_meta k x' = tx_meta k x"
proof -
  obtain x1 where a: "apply_op E t0 r x = Inr x1" and b: "set_applied E (r_seq r) x1 = Inr x'"
    using res by (auto simp: store_apply_op res_bind_Inr)
  note t = apply_op_Inr [OF ok a]
  have inv: "idx_inv x1" "applied_ok x1" using t(1) by (simp_all add: index_ok_def)
  note s = set_applied_Inr [OF inv(1) b]
  show "index_ok E x'" using t(1) s by (simp add: index_ok_def hashes_ok_def)
  show "sabs x' = spec_apply r (sabs x)" using t(2) s(2) by (simp add: sabs_def fun_eq_iff)
  show pc: "part_count x' = part_count x" using s(6) [OF inv(2)] part_count_other [OF t(3)] by simp
  show "tx_meta appliedSeqKey x' = Some (MBytes (format_uint (r_seq r)))" by (rule s(4))
  show "k \<noteq> appliedSeqKey \<Longrightarrow> tx_meta k x' = tx_meta k x" using s(7) [of k] t(3) by (simp add: tx_meta_def)
  assume "refs_inv x" "gc_ok (part_count x) r (sabs x)"
  then have "refs_inv x1" by (rule t(4))
  then show "refs_inv x'"
    using s(2) refc_other [OF s(3)] s(6) [OF inv(2)] by (simp add: refs_inv_def key_count_def)
qed

lemma store_apply_succeeds:
  assumes "index_ok E x" "rec_ok E r" "name_ok E appliedSeqKey"
  shows "\<exists>x'. store_apply E t0 r x = Inr x'"
proof -
  from apply_op_succeeds [OF assms(1,2)] obtain x1 where "apply_op E t0 r x = Inr x1" by blast
  then show ?thesis using tx_setMeta_succeeds [OF assms(3)] by (simp add: store_apply_op set_applied_def)
qed

subsection \<open>The contract of a replayable state\<close>

fun app_all :: "('r \<Rightarrow> 'x \<Rightarrow> gerr + 'x) \<Rightarrow> 'r list \<Rightarrow> 'x \<Rightarrow> gerr + 'x" where
  "app_all app [] x = Inr x"
| "app_all app (r # rs) x = res_bind (app r x) (app_all app rs)"

fun ok_all :: "('r \<Rightarrow> 'm \<Rightarrow> 'm) \<Rightarrow> ('r \<Rightarrow> 'm \<Rightarrow> bool) \<Rightarrow> 'r list \<Rightarrow> 'm \<Rightarrow> bool" where
  "ok_all sp ok [] m = True"
| "ok_all sp ok (r # rs) m = (ok r m \<and> ok_all sp ok rs (sp r m))"

lemma ok_all_append [simp]:
  "ok_all sp ok (a @ b) m \<longleftrightarrow> ok_all sp ok a m \<and> ok_all sp ok b (foldl (\<lambda>m r. sp r m) m a)"
  by (induction a arbitrary: m) auto

lemma app_all_append: "app_all app (a @ b) x = res_bind (app_all app a x) (app_all app b)"
proof (induction a arbitrary: x)
  case (Cons r a)
  then show ?case by (cases "app r x") simp_all
qed simp

locale replayable =
  fixes app :: "'r \<Rightarrow> 'x \<Rightarrow> gerr + 'x" and sp :: "'r \<Rightarrow> 'm \<Rightarrow> 'm" and view :: "'x \<Rightarrow> 'm"
    and inv :: "'x \<Rightarrow> bool" and ok :: "'r \<Rightarrow> 'm \<Rightarrow> bool"
  assumes app_refines: "inv x \<Longrightarrow> ok r (view x) \<Longrightarrow> \<exists>x'. app r x = Inr x' \<and> inv x' \<and> view x' = sp r (view x)"
begin

lemma app_all_refines:
  "inv x \<Longrightarrow> ok_all sp ok rs (view x) \<Longrightarrow>
   \<exists>x'. app_all app rs x = Inr x' \<and> inv x' \<and> view x' = foldl (\<lambda>m r. sp r m) (view x) rs"
proof (induction rs arbitrary: x)
  case (Cons r rs)
  then obtain x1 where x1: "app r x = Inr x1" "inv x1" "view x1 = sp r (view x)"
    using app_refines [of x r] by auto
  with Cons.IH [of x1] Cons.prems(2) show ?case by auto
qed simp

lemma app_all_view:
  assumes "inv x" "ok_all sp ok rs (view x)" "app_all app rs x = Inr x'"
  shows "inv x'" "view x' = foldl (\<lambda>m r. sp r m) (view x) rs"
  using app_all_refines [OF assms(1,2)] assms(3) by auto

text \<open>Stopping after a prefix and replaying the rest later comes to the same.\<close>

lemma resume:
  assumes "inv x" "ok_all sp ok (a @ b) (view x)" "app_all app a x = Inr y"
  shows "\<exists>x'. app_all app b y = Inr x' \<and> inv x' \<and> view x' = foldl (\<lambda>m r. sp r m) (view x) (a @ b)"
  using app_all_view [of x a y] app_all_refines [of y b] assms by simp

end

lemma version_not_applied [simp]: "versionKey \<noteq> appliedSeqKey"
  by (simp add: versionKey_def appliedSeqKey_def)

definition rec_index_ok :: "env \<Rightarrow> idx \<Rightarrow> bool" where
  "rec_index_ok E x \<longleftrightarrow> index_ok E x \<and> name_ok E appliedSeqKey \<and> tx_meta versionKey x = Some (MBytes ''1'')"

definition rec_refs_ok :: "env \<Rightarrow> (string \<Rightarrow> int) \<Rightarrow> idx \<Rightarrow> bool" where
  "rec_refs_ok E parts x \<longleftrightarrow> rec_index_ok E x \<and> refs_inv x \<and> part_count x = parts"

interpretation rp: replayable "store_apply E t0" spec_apply sabs "rec_index_ok E" "\<lambda>r m. rec_ok E r"
proof unfold_locales
  fix x r assume a: "rec_index_ok E x" "rec_ok E r"
  then obtain x' where "store_apply E t0 r x = Inr x'" using store_apply_succeeds [of E x r t0] by (auto simp: rec_index_ok_def)
  with store_apply_Inr(1,2,6) [of E x r t0 x'] a
  show "\<exists>x'. store_apply E t0 r x = Inr x' \<and> rec_index_ok E x' \<and> sabs x' = spec_apply r (sabs x)"
    by (auto simp: rec_index_ok_def)
qed

interpretation rr: replayable "store_apply E t0" spec_apply sabs "rec_refs_ok E parts" "\<lambda>r m. rec_ok E r \<and> gc_ok parts r m"
proof unfold_locales
  fix x r assume a: "rec_refs_ok E parts x" "rec_ok E r \<and> gc_ok parts r (sabs x)"
  then obtain x' where "store_apply E t0 r x = Inr x'"
    using store_apply_succeeds [of E x r t0] by (auto simp: rec_refs_ok_def rec_index_ok_def)
  with store_apply_Inr(1,2,3,5,6) [of E x r t0 x'] a
  show "\<exists>x'. store_apply E t0 r x = Inr x' \<and> rec_refs_ok E parts x' \<and> sabs x' = spec_apply r (sabs x)"
    by (auto simp: rec_refs_ok_def rec_index_ok_def)
qed

lemma ok_all_list: "ok_all sp (\<lambda>r m. P r) rs m \<longleftrightarrow> list_all P rs"
  by (induction rs arbitrary: m) auto

end
