(* ===== verification/Recovery.thy ===== *)
theory Recovery
  imports StoreLaws
begin

text \<open>
  Crash and restart of the store.  \<open>store_inv\<close> is the invariant of the running store:
  the index is the fold of a prefix of the journal, every record of the journal can be
  applied, and every blob a key of the journal's map names is on disk.  A crash keeps
  what is on disk (\<open>crash_disk\<close>), with a torn record at the end of the newest segment
  and leftovers in \<open>tmp/\<close>; \<open>store_start\<close> is what the daemon does at startup.
\<close>

record disk =
  dk_blobs :: blobfs
  dk_jrnl :: jdir
  dk_index :: idx

definition store_disk :: "store \<Rightarrow> disk" where
  "store_disk s = \<lparr>dk_blobs = s_blobs s, dk_jrnl = j_dir (s_jrnl s), dk_index = db_file (s_db s)\<rparr>"

text \<open>The startup sequence of \<open>cmd/tana\<close>: open the index, open the store, replay.\<close>

definition store_start ::
    "env \<Rightarrow> sysenv \<Rightarrow> (string \<Rightarrow> bool) \<Rightarrow> open_fault option \<Rightarrow> bucketcfg list \<Rightarrow> gccfg \<Rightarrow> disk \<Rightarrow> gerr + store" where
  "store_start E sy rm jf cfgs gc dk =
     (case db_open E (sy_commit sy) (dk_index dk) of
        (_, Inl e) \<Rightarrow> Inl e
      | (d, Inr _) \<Rightarrow>
          res_bind (store_New E rm jf cfgs gc (dk_blobs dk) (dk_jrnl dk) d) (\<lambda>s.
            case store_Recover E sy s of (_, Inl e) \<Rightarrow> Inl e | (s', Inr _) \<Rightarrow> Inr s'))"

definition crash_disk :: "string \<Rightarrow> bfile bucket \<Rightarrow> store \<Rightarrow> disk" where
  "crash_disk frag tmp s =
     (let d = j_dir (s_jrnl s) in
      \<lparr>dk_blobs = (s_blobs s)\<lparr>bf_tmp := tmp\<rparr>,
       dk_jrnl = (if seg_sorted d = [] then d else dir_append (fst (last (seg_sorted d))) frag d),
       dk_index = db_file (s_db s)\<rparr>)"

subsection \<open>The invariant of the store\<close>

definition journal_inv :: "env \<Rightarrow> journal \<Rightarrow> bool" where
  "journal_inv E j \<longleftrightarrow> jwf E j \<and> consec 0 (jlog E j) \<and> list_all (rec_ok E) (jlog E j)"

definition store_spec :: "env \<Rightarrow> store \<Rightarrow> spec" where
  "store_spec E s = spec_run (jlog E (s_jrnl s)) Map.empty"

definition store_inv :: "env \<Rightarrow> store \<Rightarrow> bool" where
  "store_inv E s \<longleftrightarrow>
     journal_inv E (s_jrnl s) \<and> blob_inv E (s_blobs s) \<and> rec_index_ok E (db_file (s_db s)) \<and>
     (\<exists>a. appliedSeq (s_db s) = Inr a \<and> a \<le> j_last (s_jrnl s) \<and>
        sabs (db_file (s_db s)) = spec_run (filter (\<lambda>r. r_seq r \<le> a) (jlog E (s_jrnl s))) Map.empty) \<and>
     (\<forall>p v. store_spec E s p = Some v \<longrightarrow> blob_at (s_blobs s) (ov_hash v) \<noteq> None)"

definition caught_up :: "store \<Rightarrow> bool" where
  "caught_up s \<longleftrightarrow> appliedSeq (s_db s) = Inr (j_last (s_jrnl s))"

lemma consec_filter:
  "consec n rs \<Longrightarrow> filter (\<lambda>r. r_seq r \<le> a) rs @ filter (\<lambda>r. \<not> r_seq r \<le> a) rs = rs"
proof (induction rs arbitrary: n)
  case (Cons r rs)
  show ?case
  proof (cases "r_seq r \<le> a")
    case True
    with Cons.IH [of "r_seq r"] Cons.prems show ?thesis by simp
  next
    case False
    have "\<not> r_seq q \<le> a" if "q \<in> set rs" for q
      using consec_bounds [of "r_seq r" rs q] Cons.prems that False by (auto simp: word_le_nat_alt)
    with False show ?thesis by (auto simp: filter_empty_conv filter_id_conv)
  qed
qed simp

lemma consec_upto_last: "consec n rs \<Longrightarrow> filter (\<lambda>r. r_seq r \<le> last_seq n rs) rs = rs"
  using consec_bounds by (auto simp: filter_id_conv word_le_nat_alt)

lemma journal_inv_last: "journal_inv E j \<Longrightarrow> last_seq 0 (jlog E j) = j_last j"
proof -
  assume a: "journal_inv E j"
  then obtain n where n: "consec n (jlog E j)" "last_seq n (jlog E j) = j_last j"
    using jl.numbered by (auto simp: journal_inv_def)
  show ?thesis
  proof (cases "jlog E j = []")
    case False
    with n show ?thesis by (simp add: last_seq_hd)
  next
    case True
    from a obtain m rss where "jinv E m j rss" by (auto simp: journal_inv_def jwf_def)
    then have c: "concat rss = []" and "rss = [] \<longrightarrow> m = 0" "j_last j = last_seq m (concat rss)" "jrep E (j_dir j) rss"
      using True jlog_inv by (force, simp_all add: jinv_def)
    moreover from c have "rss = []" using jrep_nonempty [OF \<open>jrep E (j_dir j) rss\<close>] by (cases rss) auto
    ultimately show ?thesis using True by simp
  qed
qed

text \<open>A store whose index is caught up shows exactly the journal's map.\<close>

lemma caught_up_spec:
  assumes "store_inv E s" "caught_up s"
  shows "sabs (db_file (s_db s)) = store_spec E s"
  using assms journal_inv_last [of E "s_jrnl s"] consec_upto_last [of 0 "jlog E (s_jrnl s)"]
  by (auto simp: store_inv_def caught_up_def store_spec_def journal_inv_def)

text \<open>The index shows the journal's map, even where the last records (a collection) are not marked as applied.\<close>

definition in_step :: "env \<Rightarrow> store \<Rightarrow> bool" where
  "in_step E s \<longleftrightarrow> sabs (db_file (s_db s)) = store_spec E s"

lemma caught_up_in_step: "store_inv E s \<Longrightarrow> caught_up s \<Longrightarrow> in_step E s"
  by (simp add: in_step_def caught_up_spec)

subsection \<open>Recover replays what is missing\<close>

lemma fold_replay_cb:
  "app_all (store_apply E t0) rs x = Inr x' \<Longrightarrow> fold_cb (replay_cb E t0) rs (x, n) = ((x', n + length rs), None)"
proof (induction rs arbitrary: x n)
  case (Cons r rs)
  then obtain x1 where "store_apply E t0 r x = Inr x1" "app_all (store_apply E t0) rs x1 = Inr x'"
    by (auto simp: res_bind_Inr)
  with Cons.IH [of x1 "Suc n"] show ?case by (simp add: replay_cb_def)
qed simp

lemma app_all_position:
  "rec_index_ok E x \<Longrightarrow> list_all (rec_ok E) rs \<Longrightarrow> rs \<noteq> [] \<Longrightarrow> app_all (store_apply E t0) rs x = Inr x' \<Longrightarrow>
   tx_meta appliedSeqKey x' = Some (MBytes (format_uint (r_seq (last rs))))"
proof (induction rs arbitrary: x rule: rev_induct)
  case (snoc r rs)
  then obtain x1 where x1: "app_all (store_apply E t0) rs x = Inr x1" "store_apply E t0 r x1 = Inr x'"
    by (auto simp: app_all_append res_bind_Inr)
  have "rec_index_ok E x1"
    using rp.app_all_view [OF snoc.prems(1) _ x1(1)] snoc.prems(2) by (simp add: ok_all_list)
  with store_apply_Inr(4) [OF _ _ x1(2)] snoc.prems(2) show ?case by (simp add: rec_index_ok_def)
qed simp

lemma appliedSeq_of: "tx_meta appliedSeqKey (db_file d) = Some (MBytes (format_uint v)) \<Longrightarrow> appliedSeq d = Inr v"
  by (simp add: appliedSeq_def db_meta_def)

lemma consec_after:
  assumes "jwf E j" "a < j_last j"
  shows "jpending E (a + 1) j = filter (\<lambda>r. \<not> r_seq r \<le> a) (jlog E j)"
proof -
  have "unat a < unat (j_last j)" using assms(2) by (simp add: word_less_nat_alt)
  moreover have "unat (j_last j) < 2 ^ 64" using unsigned_less [of "j_last j"] by simp
  ultimately have "unat (a + 1) = Suc (unat a)" by (intro unat_Suc64_bound) linarith
  then have "\<not> r < a + 1 \<longleftrightarrow> \<not> r \<le> a" for r by (auto simp: word_less_nat_alt word_le_nat_alt)
  then show ?thesis using jl.after_log [OF assms(1), of "a + 1"] by simp
qed

lemma Recover_correct:
  assumes inv: "store_inv E s" and ok: "sy_commit sy"
  obtains n s' where "store_Recover E sy s = (s', Inr n)" "store_inv E s'" "caught_up s'"
    "s_jrnl s' = s_jrnl s" "s_blobs s' = s_blobs s" "s_buckets s' = s_buckets s"
    "sabs (db_file (s_db s')) = store_spec E s"
    "\<And>a. appliedSeq (s_db s) = Inr a \<Longrightarrow> n = length (filter (\<lambda>r. \<not> r_seq r \<le> a) (jlog E (s_jrnl s)))"
proof -
  let ?j = "s_jrnl s" and ?x = "db_file (s_db s)"
  let ?log = "jlog E ?j"
  from inv obtain a where a: "appliedSeq (s_db s) = Inr a" "a \<le> j_last ?j"
    "sabs ?x = spec_run (filter (\<lambda>r. r_seq r \<le> a) ?log) Map.empty" by (auto simp: store_inv_def)
  have J: "jwf E ?j" "consec 0 ?log" "list_all (rec_ok E) ?log" and X: "rec_index_ok E ?x"
    using inv by (auto simp: store_inv_def journal_inv_def)
  have last: "last_seq 0 ?log = j_last ?j" using inv by (auto simp: store_inv_def intro: journal_inv_last)
  note split = consec_filter [OF J(2), of a]
  show thesis
  proof (cases "a < j_last ?j")
    case False
    then have eq: "a = j_last ?j" using a(2) by simp
    then have c: "caught_up s" using a(1) by (simp add: caught_up_def)
    have "filter (\<lambda>r. \<not> r_seq r \<le> a) ?log = []"
      using split consec_upto_last [OF J(2)] eq last by (metis append_self_conv)
    then show thesis
      using that [of s 0] a(1) eq inv c caught_up_spec [OF inv c] by (simp add: store_Recover_def)
  next
    case True
    let ?new = "filter (\<lambda>r. \<not> r_seq r \<le> a) ?log"
    have okn: "list_all (rec_ok E) ?new" using J(3) by (auto simp: list_all_iff)
    obtain x' where x': "app_all (store_apply E (sy_clock sy 0)) ?new ?x = Inr x'" "rec_index_ok E x'"
      "sabs x' = foldl (\<lambda>m r. spec_apply r m) (sabs ?x) ?new"
      using rp.app_all_refines [OF X, of ?new] okn by (auto simp: ok_all_list)
    have full: "sabs x' = store_spec E s"
      using split x'(3) a(3) by (metis spec_run_def spec_run_simps(3) store_spec_def)
    have ne: "?new \<noteq> []"
    proof
      assume "?new = []"
      with split have "\<forall>r \<in> set ?log. r_seq r \<le> a" by (metis append_Nil2 filter_id_conv)
      with last True have "?log \<noteq> []" by auto
      with last \<open>\<forall>r \<in> set ?log. r_seq r \<le> a\<close> have "j_last ?j \<le> a" by (metis last_in_set last_seq_hd)
      with True show False by simp
    qed
    have "last ?log = last ?new" using split ne by (metis last_appendR)
    then have seq: "r_seq (last ?new) = j_last ?j"
      using last last_seq_hd [of ?log 0] ne by (metis filter.simps(1))
    have m: "tx_meta appliedSeqKey x' = Some (MBytes (format_uint (j_last ?j)))"
      using app_all_position [OF X okn ne x'(1)] seq by simp
    have body: "replay_body E (sy_clock sy 0) (a + 1) ?j ?x = Inr (length ?new, x')"
      using fold_replay_cb [OF x'(1), of 0]
      by (simp add: replay_body_def jreplay_log [OF J(1)] consec_after [OF J(1) True])
    let ?s = "s\<lparr>s_db := (s_db s)\<lparr>db_file := x'\<rparr>\<rparr>"
    have r: "store_Recover E sy s = (?s, Inr (length ?new))"
      using a(1) body ok True by (auto simp: store_Recover_def db_update_def dest: leD)
    have ap: "appliedSeq (s_db ?s) = Inr (j_last ?j)" by (rule appliedSeq_of) (simp add: m)
    have "store_inv E ?s"
      using inv x'(2) ap full consec_upto_last [OF J(2)] last
      by (auto simp: store_inv_def store_spec_def)
    moreover have "caught_up ?s" using ap by (simp add: caught_up_def)
    ultimately show thesis using that [OF r] full a(1) by simp
  qed
qed

subsection \<open>Restart after a crash\<close>

lemma reopen_journal:
  assumes j: "journal_inv E j" and frag: "NL \<notin> set frag"
    and d: "d = (if seg_sorted (j_dir j) = [] then j_dir j else dir_append (fst (last (seg_sorted (j_dir j)))) frag (j_dir j))"
  shows "snd (jopen E None d) = Inr (reopened (j_dir j) (j_last j))"
    and "journal_inv E (reopened (j_dir j) (j_last j))" and "jlog E (reopened (j_dir j) (j_last j)) = jlog E j"
proof -
  from j obtain n rss where inv: "jinv E n j rss" by (auto simp: journal_inv_def jwf_def)
  have rep: "jrep E (j_dir j) rss" using inv by (simp add: jinv_def)
  have inv': "jinv E n (reopened (j_dir j) (j_last j)) rss"
    using inv by (simp add: jinv_def reopened_def)
  then show log: "jlog E (reopened (j_dir j) (j_last j)) = jlog E j" using jlog_inv [OF inv] jlog_inv by metis
  show "journal_inv E (reopened (j_dir j) (j_last j))"
    using j inv' log by (auto simp: journal_inv_def jwf_def)
  show "snd (jopen E None d) = Inr (reopened (j_dir j) (j_last j))"
  proof (cases "rss = []")
    case True
    then have "seg_sorted (j_dir j) = []" using jrep_Nil [OF rep] by simp
    moreover from this True inv have "j_last j = 0" by (simp add: jinv_def)
    ultimately show ?thesis using jopen_empty [of "j_dir j" E] d by simp
  next
    case False
    then have "seg_sorted (j_dir j) \<noteq> []" using jrep_Nil [OF rep] by simp
    then show ?thesis using jopen_torn(1) [OF inv False frag] d by simp
  qed
qed

lemma initSchema_current: "tx_meta versionKey x = Some (MBytes ''1'') \<Longrightarrow> initSchema E x = Inr x"
  by (simp add: initSchema_def scan_int_def schemaVersion_def is_digit_def digits_val_def digit_val_def Let_def)

lemma open_after_crash:
  assumes inv: "store_inv E s" and frag: "NL \<notin> set frag"
  obtains s0 where
    "db_open E True (dk_index (crash_disk frag tmp s)) = (s_db s0, Inr ())"
    "store_New E (\<lambda>_. True) None cfgs gc (dk_blobs (crash_disk frag tmp s)) (dk_jrnl (crash_disk frag tmp s)) (s_db s0) = Inr s0"
    "store_inv E s0" "store_spec E s0 = store_spec E s" "s_db s0 = \<lparr>db_file = db_file (s_db s), db_pending = []\<rparr>"
    "jlog E (s_jrnl s0) = jlog E (s_jrnl s)" "s_blobs s0 = (s_blobs s)\<lparr>bf_tmp := []\<rparr>"
    "s_buckets s0 = foldl (\<lambda>m b. bk_put (bc_name b) b m) [] cfgs"
proof -
  let ?dk = "crash_disk frag tmp s" and ?j = "reopened (j_dir (s_jrnl s)) (j_last (s_jrnl s))"
  let ?d = "\<lparr>db_file = db_file (s_db s), db_pending = []\<rparr> :: db"
  have ji: "journal_inv E (s_jrnl s)" and sch: "tx_meta versionKey (db_file (s_db s)) = Some (MBytes ''1'')"
    using inv by (auto simp: store_inv_def rec_index_ok_def)
  have jo: "snd (jopen E None (dk_jrnl ?dk)) = Inr ?j" "journal_inv E ?j" "jlog E ?j = jlog E (s_jrnl s)"
    by (rule reopen_journal [OF ji frag], simp add: crash_disk_def Let_def)+
  have db: "db_open E True (dk_index ?dk) = (?d, Inr ())"
    using initSchema_current [OF sch] by (simp add: db_open_def db_update_def unit_tx_def crash_disk_def Let_def)
  let ?fs = "(s_blobs s)\<lparr>bf_tmp := []\<rparr>"
  let ?s = "store_Configure cfgs gc \<lparr>s_blobs = ?fs, s_jrnl = ?j, s_db = ?d, s_buckets = [], s_gc = gc\<rparr>"
  have new: "store_New E (\<lambda>_. True) None cfgs gc (dk_blobs ?dk) (dk_jrnl ?dk) ?d = Inr ?s"
    using jo(1) by (simp add: store_New_def blob_open_store_def clearTmp_all crash_disk_def Let_def)
  have sel: "s_jrnl ?s = ?j" "s_db ?s = ?d" "s_blobs ?s = ?fs" "s_buckets ?s = foldl (\<lambda>m b. bk_put (bc_name b) b m) [] cfgs"
    by (simp_all add: store_Configure_def)
  have spec: "store_spec E ?s = store_spec E s" using jo(3) sel by (simp add: store_spec_def)
  have ap: "appliedSeq ?d = appliedSeq (s_db s)" by (simp add: appliedSeq_def db_meta_def)
  have inv': "store_inv E ?s"
    using inv jo sel spec ap unfolding store_inv_def by (auto simp: blob_inv_def reopened_def)
  show thesis by (rule that [of ?s]) (use db new inv' spec sel jo(3) in simp_all)
qed

lemma start_after_crash:
  assumes inv: "store_inv E s" and ok: "sy_commit sy" and frag: "NL \<notin> set frag"
  obtains s' where "store_start E sy (\<lambda>_. True) None cfgs gc (crash_disk frag tmp s) = Inr s'"
    "store_inv E s'" "caught_up s'" "store_spec E s' = store_spec E s"
    "jlog E (s_jrnl s') = jlog E (s_jrnl s)" "blob_at (s_blobs s') = blob_at (s_blobs s)"
    "bf_tmp (s_blobs s') = []" "s_buckets s' = foldl (\<lambda>m b. bk_put (bc_name b) b m) [] cfgs"
proof (rule open_after_crash [OF inv frag, where tmp = tmp and cfgs = cfgs and gc = gc])
  fix s0
  assume o: "db_open E True (dk_index (crash_disk frag tmp s)) = (s_db s0, Inr ())"
    "store_New E (\<lambda>_. True) None cfgs gc (dk_blobs (crash_disk frag tmp s)) (dk_jrnl (crash_disk frag tmp s)) (s_db s0) = Inr s0"
    "store_inv E s0" "store_spec E s0 = store_spec E s" "s_db s0 = \<lparr>db_file = db_file (s_db s), db_pending = []\<rparr>"
    "jlog E (s_jrnl s0) = jlog E (s_jrnl s)" "s_blobs s0 = (s_blobs s)\<lparr>bf_tmp := []\<rparr>"
    "s_buckets s0 = foldl (\<lambda>m b. bk_put (bc_name b) b m) [] cfgs"
  from Recover_correct [OF o(3) ok] obtain n s' where r: "store_Recover E sy s0 = (s', Inr n)" "store_inv E s'"
    "caught_up s'" "s_jrnl s' = s_jrnl s0" "s_blobs s' = s_blobs s0" "s_buckets s' = s_buckets s0" by metis
  have "store_start E sy (\<lambda>_. True) None cfgs gc (crash_disk frag tmp s) = Inr s'"
    using r(1) o(1,2) ok by (simp add: store_start_def)
  then show thesis
    by (rule that) (use r o in \<open>simp_all add: store_spec_def\<close>)
qed

end
