(* ===== verification/Durability.thy ===== *)
theory Durability
  imports Recovery
begin

text \<open>
  Writes against the invariant of the store: an acknowledged \<open>PutWith\<close> or \<open>Delete\<close>
  appends one record to the journal, moves the abstract map by that record, and leaves
  the index caught up, so that every crash afterwards restarts into the same map.  The
  live path of a write is the replay of its own record at another clock reading, which
  is why recovery comes to the state the client was told of.
\<close>

definition env_ok :: "env \<Rightarrow> bool" where
  "env_ok E \<longleftrightarrow> sha_ok E \<and> (\<forall>h. ValidHash h \<longrightarrow> key_fits E h) \<and> key_fits E appliedSeqKey"

lemma env_okD:
  assumes "env_ok E"
  shows "sha_ok E" "name_ok E (sha256_hex E d)" "name_ok E appliedSeqKey"
proof -
  show s: "sha_ok E" using assms by (simp add: env_ok_def)
  then have "ValidHash (sha256_hex E d)" by (simp add: sha_ok_def)
  then show "name_ok E (sha256_hex E d)" using assms by (auto simp: env_ok_def name_ok_def ValidHash_def)
  show "name_ok E appliedSeqKey" using assms by (simp add: env_ok_def name_ok_def appliedSeqKey_def)
qed

subsection \<open>Appending\<close>

definition stamp_rec :: "gotime \<Rightarrow> journal \<Rightarrow> jrec \<Rightarrow> jrec" where
  "stamp_rec now j r =
     (if time_is_zero (r_time r) then r\<lparr>r_time := now\<rparr> else r)\<lparr>r_seq := j_last j + 1\<rparr>"

lemma stamp_rec_simps [simp]:
  "r_op (stamp_rec now j r) = r_op r" "r_bucket (stamp_rec now j r) = r_bucket r" "r_key (stamp_rec now j r) = r_key r"
  "r_hash (stamp_rec now j r) = r_hash r" "r_etag (stamp_rec now j r) = r_etag r" "r_size (stamp_rec now j r) = r_size r"
  "r_mtime (stamp_rec now j r) = r_mtime r" "r_seq (stamp_rec now j r) = j_last j + 1"
  by (simp_all add: stamp_rec_def)

text \<open>An append that returns a number did what the append without a fault does.\<close>

lemma ensureSegment_None:
  assumes "ensureSegment E f n need j = (j1, None)"
  shows "ensureSegment E None n need j = (j1, None)"
  using assms unfolding ensureSegment_def Let_def by (auto split: if_splits prod.splits)

lemma write_record_Inr:
  assumes "write_record E f r j = (j', Inr n)"
  shows "write_record E None r j = (j', Inr n)"
proof -
  let ?line = "marshal E r @ [NL]"
  obtain j1 where e: "ensureSegment E (seg_fault_of f) (r_seq r) (int (length ?line)) j = (j1, None)"
    using assms by (auto simp: write_record_def Let_def split: prod.splits option.splits)
  have "ensureSegment E (seg_fault_of None) (r_seq r) (int (length ?line)) j = (j1, None)"
    using ensureSegment_None [OF e] by (simp add: seg_fault_of_def)
  then show ?thesis
    using assms e by (auto simp: write_record_def Let_def split: option.splits app_fault.splits if_splits)
qed

lemma jappend_ok:
  assumes j: "journal_inv E j" and room: "Suc (unat (j_last j)) < 2 ^ 64"
    and line: "line_ok E (stamp_rec now j r)" and rec: "rec_ok E (stamp_rec now j r)"
    and res: "jappend E f now r j = (j', Inr n)"
  shows "journal_inv E j'" "jlog E j' = jlog E j @ [stamp_rec now j r]" "j_last j' = j_last j + 1" "n = j_last j + 1"
proof -
  let ?r = "stamp_rec now j r"
  have w: "write_record E None ?r j = (j', Inr n)"
    using res write_record_Inr by (simp add: jappend_def stamp_rec_def Let_def)
  have seq: "unat (r_seq ?r) = Suc (unat (j_last j))" using unat_Suc64_bound [OF room] by simp
  have wf: "jwf E j" using j by (simp add: journal_inv_def)
  note laws = jwritten_laws [OF wf line seq]
  from laws(1) w have j': "j' = jwritten E ?r j" and n: "n = r_seq ?r" by simp_all
  show log: "jlog E j' = jlog E j @ [?r]" using jl.log_write [OF wf line seq] j' by simp
  show "j_last j' = j_last j + 1" "n = j_last j + 1" using laws(3) j' n by simp_all
  have "consec 0 (jlog E j @ [?r])" using j seq journal_inv_last [OF j] by (simp add: journal_inv_def)
  then show "journal_inv E j'"
    using j rec log jl.ok_write [OF wf line seq] j' by (simp add: journal_inv_def)
qed

text \<open>Without a fault the append succeeds.\<close>

lemma jappend_succeeds:
  assumes "journal_inv E j" "Suc (unat (j_last j)) < 2 ^ 64" "line_ok E (stamp_rec now j r)"
  shows "\<exists>j'. jappend E None now r j = (j', Inr (j_last j + 1))"
proof -
  have "jwf E j" using assms(1) by (simp add: journal_inv_def)
  then show ?thesis
    using jwritten_laws(1) [OF _ assms(3)] unat_Suc64_bound [OF assms(2)]
    by (simp add: jappend_def stamp_rec_def Let_def)
qed

subsection \<open>The live path is the replay of the record\<close>

lemma put_body_apply:
  "res_bind (store_bind E t0 b k h etag sz mtime now x) (set_applied E seq) =
   store_apply E t0 \<lparr>r_seq = seq, r_time = now, r_op = opPut, r_bucket = b, r_key = k, r_hash = h,
                     r_etag = etag, r_size = sz, r_mtime = mtime\<rparr> x"
  by (simp add: store_apply_def)

lemma delete_body_apply:
  "res_bind (store_unbind E b k now x) (set_applied E seq) =
   store_apply E t0 \<lparr>r_seq = seq, r_time = now, r_op = opDelete, r_bucket = b, r_key = k, r_hash = [],
                     r_etag = [], r_size = 0, r_mtime = 0\<rparr> x"
  by (simp add: store_apply_def)

lemma spec_apply_cong:
  "r_op r = r_op r' \<Longrightarrow> r_bucket r = r_bucket r' \<Longrightarrow> r_key r = r_key r' \<Longrightarrow> r_hash r = r_hash r' \<Longrightarrow>
   r_etag r = r_etag r' \<Longrightarrow> r_size r = r_size r' \<Longrightarrow> r_mtime r = r_mtime r' \<Longrightarrow> spec_apply r m = spec_apply r' m"
  by (simp add: spec_apply_def)

lemma store_inv_blob: "store_inv E s \<Longrightarrow> store_spec E s p = Some v \<Longrightarrow> \<exists>d. blob_at (s_blobs s) (ov_hash v) = Some d"
  unfolding store_inv_def by blast

text \<open>
  The last stage of a write: when the journal has just taken record \<open>r\<close> and the index
  transaction that applies its twin commits, the store is caught up again.
\<close>

lemma indexed_record:
  assumes inv: "store_inv E s" and cu: "in_step E s"
    and j': "journal_inv E j'" "jlog E j' = jlog E (s_jrnl s) @ [r]" "j_last j' = j_last (s_jrnl s) + 1"
    and fs': "blob_inv E fs'" "\<And>h. blob_at (s_blobs s) h \<noteq> None \<Longrightarrow> blob_at fs' h \<noteq> None"
      "r_op r = opPut \<Longrightarrow> blob_at fs' (r_hash r) \<noteq> None"
    and tw: "rec_ok E r'" "r_seq r' = j_last j'" "\<And>m. spec_apply r' m = spec_apply r m"
    and ap: "store_apply E t0 r' (db_file (s_db s)) = Inr x'"
    and s': "s_jrnl s' = j'" "s_blobs s' = fs'" "db_file (s_db s') = x'"
  shows "store_inv E s'" "caught_up s'" "store_spec E s' = spec_apply r (store_spec E s)"
    "r_op r \<noteq> opGC \<Longrightarrow> r_op r' = r_op r \<Longrightarrow> refs_inv (db_file (s_db s)) \<Longrightarrow> refs_inv (db_file (s_db s'))"
    "part_count (db_file (s_db s')) = part_count (db_file (s_db s))"
    "k \<noteq> appliedSeqKey \<Longrightarrow> tx_meta k (db_file (s_db s')) = tx_meta k (db_file (s_db s))"
proof -
  let ?x = "db_file (s_db s)"
  have X: "rec_index_ok E ?x" using inv by (simp add: store_inv_def)
  then have ok: "index_ok E ?x" by (simp add: rec_index_ok_def)
  note t = store_apply_Inr [OF ok tw(1) ap]
  show "r_op r \<noteq> opGC \<Longrightarrow> r_op r' = r_op r \<Longrightarrow> refs_inv ?x \<Longrightarrow> refs_inv (db_file (s_db s'))"
    using t(5) by (simp add: gc_ok_def s')
  show "part_count (db_file (s_db s')) = part_count ?x" using t(3) by (simp add: s')
  show "k \<noteq> appliedSeqKey \<Longrightarrow> tx_meta k (db_file (s_db s')) = tx_meta k ?x" using t(6) by (simp add: s')
  show spec: "store_spec E s' = spec_apply r (store_spec E s)" by (simp add: store_spec_def s' j')
  have seq: "appliedSeq (s_db s') = Inr (j_last j')" by (rule appliedSeq_of) (simp add: s' t(4) tw(2))
  then show "caught_up s'" by (simp add: caught_up_def s')
  have "rec_index_ok E x'" using X t(1,6) by (simp add: rec_index_ok_def)
  moreover have "sabs x' = store_spec E s'" using t(2) cu [unfolded in_step_def] spec tw(3) by simp
  moreover have "filter (\<lambda>r. r_seq r \<le> j_last j') (jlog E j') = jlog E j'"
    using consec_upto_last [of 0 "jlog E j'"] journal_inv_last [OF j'(1)] j'(1) by (simp add: journal_inv_def)
  moreover have "\<forall>p v. store_spec E s' p = Some v \<longrightarrow> blob_at fs' (ov_hash v) \<noteq> None"
  proof (intro allI impI)
    fix p v assume "store_spec E s' p = Some v"
    then have "store_spec E s p = Some v \<or> r_op r = opPut \<and> ov_hash v = r_hash r"
      unfolding spec by (auto simp: spec_apply_def split: if_splits)
    then show "blob_at fs' (ov_hash v) \<noteq> None"
    proof
      assume "store_spec E s p = Some v"
      from store_inv_blob [OF inv this] have "blob_at (s_blobs s) (ov_hash v) \<noteq> None" by blast
      then show ?thesis by (rule fs'(2))
    qed (use fs'(3) in simp)
  qed
  ultimately show "store_inv E s'"
    using j'(1) fs'(1) seq by (auto simp: store_inv_def s' store_spec_def)
qed

subsection \<open>Put\<close>

text \<open>What the theorems ask of one put: a clock that runs, names and a record the stores accept, and room.\<close>

definition put_ready :: "env \<Rightarrow> sysenv \<Rightarrow> string \<Rightarrow> string \<Rightarrow> reader \<Rightarrow> putOpts \<Rightarrow> store \<Rightarrow> bool" where
  "put_ready E sy b k r opt s \<longleftrightarrow>
     \<not> time_is_zero (sy_clock sy 2) \<and> \<not> time_is_zero (sy_clock sy 3) \<and>
     name_ok E (store_ns b) \<and> name_ok E k \<and> fault_ok E (sy_blob sy) (fst r) \<and>
     Suc (unat (j_last (s_jrnl s))) < 2 ^ 64 \<and>
     line_ok E (stamp_rec (sy_clock sy 2) (s_jrnl s)
       (put_record sy b k opt \<lparr>bi_hash = sha256_hex E (fst r), bi_md5 = md5_hex E (fst r),
                               bi_size = of_nat (length (fst r)), bi_deduped = False\<rparr>))"

definition put_value :: "env \<Rightarrow> sysenv \<Rightarrow> reader \<Rightarrow> putOpts \<Rightarrow> objval" where
  "put_value E sy r opt =
     \<lparr>ov_hash = sha256_hex E (fst r), ov_etag = (if po_etag opt = [] then md5_hex E (fst r) else po_etag opt),
      ov_size = of_nat (length (fst r)), ov_mtime = put_mtime sy opt\<rparr>"

lemma PutWith_Inr:
  assumes "store_PutWith E sy b k r opt s = (s', Inr e)"
  obtains fs info j d n where
    "blob_put E (sy_blob sy) (sy_clock sy 1) (sy_tmp sy) r (s_blobs s) = (fs, Inr info)"
    "store_Bucket s b \<noteq> None" "k \<noteq> []" "po_expectHash opt = [] \<or> po_expectHash opt = bi_hash info"
    "jappend E (sy_app sy) (sy_clock sy 2) (put_record sy b k opt info) (s_jrnl s) = (j, Inr n)"
    "db_update (sy_commit sy) (unit_tx (\<lambda>x. res_bind (store_bind E (sy_clock sy 4) b k (bi_hash info) (put_etag opt info)
        (bi_size info) (put_mtime sy opt) (sy_clock sy 3) x) (set_applied E n))) (s_db s) = (d, Inr ())"
    "s' = s\<lparr>s_blobs := fs, s_jrnl := j, s_db := d\<rparr>"
    "e_hash e = bi_hash info" "objval_of e = \<lparr>ov_hash = bi_hash info, ov_etag = put_etag opt info, ov_size = bi_size info,
       ov_mtime = put_mtime sy opt\<rparr>"
  using assms
  by (auto simp: store_PutWith_def put_blob_def put_journal_def put_index_def objval_of_def Let_def
      split: prod.splits sum.splits if_splits)

text \<open>An acknowledged put: the journal holds it, the map has it, the bytes are there.\<close>

lemma PutWith_effect:
  assumes E: "env_ok E" and inv: "store_inv E s" and cu: "in_step E s" and rdy: "put_ready E sy b k r opt s"
    and res: "store_PutWith E sy b k r opt s = (s', Inr e)"
  shows "store_inv E s'" "caught_up s'"
    "store_spec E s' = (store_spec E s)((b, k) \<mapsto> put_value E sy r opt)"
    "objval_of e = put_value E sy r opt" "s_buckets s' = s_buckets s"
    "no_collision E (s_blobs s) (fst r) \<Longrightarrow> blob_at (s_blobs s') (e_hash e) = Some (fst r)"
    "refs_inv (db_file (s_db s)) \<Longrightarrow> refs_inv (db_file (s_db s'))"
    "part_count (db_file (s_db s')) = part_count (db_file (s_db s))"
    "m \<noteq> appliedSeqKey \<Longrightarrow> tx_meta m (db_file (s_db s')) = tx_meta m (db_file (s_db s))"
    "blob_at (s_blobs s) h = Some dd \<Longrightarrow> blob_at (s_blobs s') h = Some dd"
    "\<exists>r. jlog E (s_jrnl s') = jlog E (s_jrnl s) @ [r] \<and> r_op r = opPut \<and> r_hash r = e_hash e"
    "j_last (s_jrnl s') = j_last (s_jrnl s) + 1"
proof -
  from res obtain fs info j d n where b: "blob_put E (sy_blob sy) (sy_clock sy 1) (sy_tmp sy) r (s_blobs s) = (fs, Inr info)"
    and ja: "jappend E (sy_app sy) (sy_clock sy 2) (put_record sy b k opt info) (s_jrnl s) = (j, Inr n)"
    and up: "db_update (sy_commit sy) (unit_tx (\<lambda>x. res_bind (store_bind E (sy_clock sy 4) b k (bi_hash info)
        (put_etag opt info) (bi_size info) (put_mtime sy opt) (sy_clock sy 3) x) (set_applied E n))) (s_db s) = (d, Inr ())"
    and s': "s' = s\<lparr>s_blobs := fs, s_jrnl := j, s_db := d\<rparr>" and eh: "e_hash e = bi_hash info"
    and ev: "objval_of e = \<lparr>ov_hash = bi_hash info, ov_etag = put_etag opt info, ov_size = bi_size info, ov_mtime = put_mtime sy opt\<rparr>"
    by (rule PutWith_Inr)
  have sha: "sha_ok E" and flt: "fault_ok E (sy_blob sy) (fst r)" using E rdy by (simp_all add: env_okD put_ready_def)
  have bi: "blob_inv E (s_blobs s)" and ji: "journal_inv E (s_jrnl s)" using inv by (simp_all add: store_inv_def)
  note be = blob_put_effect(2) [OF sha flt b refl]
  let ?r = "stamp_rec (sy_clock sy 2) (s_jrnl s) (put_record sy b k opt info)"
  have rc: "put_record sy b k opt info = put_record sy b k opt
      \<lparr>bi_hash = sha256_hex E (fst r), bi_md5 = md5_hex E (fst r), bi_size = of_nat (length (fst r)), bi_deduped = False\<rparr>"
    using be by (simp add: put_record_def put_etag_def)
  have hn: "name_ok E (bi_hash info)" using be env_okD(2) [OF E] by simp
  have rok: "rec_ok E ?r"
    using rdy hn by (simp add: rec_ok_def put_ready_def put_record_def stamp_rec_def time_is_zero_def)
  have room: "Suc (unat (j_last (s_jrnl s))) < 2 ^ 64" using rdy by (simp add: put_ready_def)
  have line: "line_ok E ?r" using rdy unfolding rc by (simp add: put_ready_def)
  note js = jappend_ok [OF ji room line rok ja]
  let ?tw = "\<lparr>r_seq = n, r_time = sy_clock sy 3, r_op = opPut, r_bucket = b, r_key = k, r_hash = bi_hash info,
     r_etag = put_etag opt info, r_size = bi_size info, r_mtime = put_mtime sy opt\<rparr>"
  obtain x' where x': "store_apply E (sy_clock sy 4) ?tw (db_file (s_db s)) = Inr x'" and d: "d = (s_db s)\<lparr>db_file := x'\<rparr>"
    using up unfolding db_update_Inr unit_tx_Inr put_body_apply by blast
  have tok: "rec_ok E ?tw" using rdy hn by (simp add: rec_ok_def put_ready_def)
  have tsp: "spec_apply ?tw m = spec_apply ?r m" for m
    by (rule spec_apply_cong) (simp_all add: put_record_def)
  have keep: "blob_at fs h \<noteq> None" if "blob_at (s_blobs s) h \<noteq> None" for h
    using that blob_put_keeps [OF sha flt b] by blast
  have "r_hash ?r = bi_hash info" by (simp add: put_record_def)
  then have here: "blob_at fs (r_hash ?r) \<noteq> None" using be by metis
  have tsq: "r_seq ?tw = j_last j" using js(3,4) by simp
  have sel: "s_jrnl s' = j" "s_blobs s' = fs" "db_file (s_db s') = x'" by (simp_all add: s' d)
  note ir = indexed_record [OF inv cu js(1-3) blob_put_inv [OF sha flt bi b] keep here tok tsq tsp x' sel]
  have "store_inv E s' \<and> caught_up s' \<and> store_spec E s' = spec_apply ?r (store_spec E s)"
    using ir by blast
  then show "store_inv E s'" "caught_up s'" and sp: "store_spec E s' = (store_spec E s)((b, k) \<mapsto> put_value E sy r opt)"
    using be by (auto simp: spec_apply_def put_record_def put_value_def put_etag_def)
  show "refs_inv (db_file (s_db s)) \<Longrightarrow> refs_inv (db_file (s_db s'))"
    by (rule ir(4)) (simp_all add: put_record_def)
  show "part_count (db_file (s_db s')) = part_count (db_file (s_db s))" by (rule ir(5))
  show "m \<noteq> appliedSeqKey \<Longrightarrow> tx_meta m (db_file (s_db s')) = tx_meta m (db_file (s_db s))" by (rule ir(6))
  show "blob_at (s_blobs s) h = Some dd \<Longrightarrow> blob_at (s_blobs s') h = Some dd"
    using blob_put_keeps [OF sha flt b] s' by simp
  show "objval_of e = put_value E sy r opt" using ev be by (simp add: put_value_def put_etag_def)
  show "s_buckets s' = s_buckets s" by (simp add: s')
  have "jlog E (s_jrnl s') = jlog E (s_jrnl s) @ [?r] \<and> r_op ?r = opPut \<and> r_hash ?r = e_hash e"
    using js(2) sel eh by (simp add: put_record_def)
  then show "\<exists>r. jlog E (s_jrnl s') = jlog E (s_jrnl s) @ [r] \<and> r_op r = opPut \<and> r_hash r = e_hash e" by blast
  show "j_last (s_jrnl s') = j_last (s_jrnl s) + 1" using js(3) sel by simp
  assume "no_collision E (s_blobs s) (fst r)"
  from blob_put_readable [OF sha flt bi this b] show "blob_at (s_blobs s') (e_hash e) = Some (fst r)"
    by (simp add: s' eh)
qed

subsection \<open>Reading\<close>

lemma db_get_some:
  assumes "idx_inv (db_file d)" "ix_lookup (db_file d) (ns, k) = Some e"
  shows "\<exists>t. db_get ns k d = Inr (Some (e\<lparr>e_atime := t\<rparr>))"
proof -
  have "\<exists>t. e = e\<lparr>e_atime := t\<rparr>" by (rule exI [of _ "e_atime e"]) simp
  with assms show ?thesis
    unfolding db_get_def tx_get_lookup [OF assms(1)] by (auto split: option.split)
qed

lemma db_get_none:
  "idx_inv (db_file d) \<Longrightarrow> ix_lookup (db_file d) (ns, k) = None \<Longrightarrow> db_get ns k d = Inr None"
  by (simp add: db_get_def tx_get_lookup)

text \<open>\<open>Get\<close> delivers exactly the abstract map's value, with the bytes stored under its digest.\<close>

lemma Get_spec:
  assumes inv: "store_inv E s" and cu: "in_step E s" and bk: "store_Bucket s b \<noteq> None"
    and v: "store_spec E s (b, k) = Some v"
  shows "\<exists>s' e d. store_Get sy b k s = (s', Inr (e, d)) \<and> objval_of e = v \<and> blob_at (s_blobs s) (ov_hash v) = Some d"
proof -
  let ?x = "db_file (s_db s)"
  have i: "idx_inv ?x" using inv by (simp add: store_inv_def rec_index_ok_def index_ok_def)
  from v have "sabs ?x (b, k) = Some v" using cu [unfolded in_step_def] by simp
  then obtain e0 where e0: "ix_lookup ?x (store_ns b, k) = Some e0" "objval_of e0 = v" by (auto simp: sabs_def)
  from db_get_some [OF i e0(1)] obtain t where g: "db_get (store_ns b) k (s_db s) = Inr (Some (e0\<lparr>e_atime := t\<rparr>))" by blast
  have ov: "objval_of (e0\<lparr>e_atime := t\<rparr>) = v" "e_hash e0 = ov_hash v" using e0(2) by (auto simp: objval_of_def)
  from store_inv_blob [OF inv v] obtain d where d: "blob_at (s_blobs s) (ov_hash v) = Some d" ..
  then have "blob_open (e_hash e0) (s_blobs s) = Inr d" by (simp add: blob_open_at ov)
  with g bk d ov show ?thesis by (auto simp: store_Get_def store_Head_def)
qed

lemma Get_absent:
  assumes inv: "store_inv E s" and cu: "in_step E s" and bk: "store_Bucket s b \<noteq> None"
    and v: "store_spec E s (b, k) = None"
  shows "store_Get sy b k s = (s, Inl (ErrNoSuchKey b k))"
proof -
  let ?x = "db_file (s_db s)"
  have i: "idx_inv ?x" using inv by (simp add: store_inv_def rec_index_ok_def index_ok_def)
  from v have "sabs ?x (b, k) = None" using cu [unfolded in_step_def] by simp
  then have "ix_lookup ?x (store_ns b, k) = None" by (auto simp: sabs_def)
  from db_get_none [OF i this] bk show ?thesis by (simp add: store_Get_def store_Head_def)
qed

subsection \<open>Delete\<close>

definition delete_ready :: "env \<Rightarrow> sysenv \<Rightarrow> string \<Rightarrow> string \<Rightarrow> store \<Rightarrow> bool" where
  "delete_ready E sy b k s \<longleftrightarrow>
     \<not> time_is_zero (sy_clock sy 0) \<and> \<not> time_is_zero (sy_clock sy 1) \<and> name_ok E (store_ns b) \<and>
     Suc (unat (j_last (s_jrnl s))) < 2 ^ 64 \<and>
     line_ok E (stamp_rec (sy_clock sy 0) (s_jrnl s) (delete_record b k))"

lemma Delete_effect:
  assumes inv: "store_inv E s" and cu: "in_step E s" and rdy: "delete_ready E sy b k s"
    and res: "store_Delete E sy b k s = (s', None)"
  shows "store_inv E s'" "in_step E s'" "store_spec E s' = (store_spec E s)((b, k) := None)" "s_buckets s' = s_buckets s"
    "s_blobs s' = s_blobs s" "refs_inv (db_file (s_db s)) \<Longrightarrow> refs_inv (db_file (s_db s'))"
proof -
  let ?x = "db_file (s_db s)"
  have i: "idx_inv ?x" using inv by (simp add: store_inv_def rec_index_ok_def index_ok_def)
  have "store_inv E s' \<and> in_step E s' \<and> store_spec E s' = (store_spec E s)((b, k) := None) \<and> s_buckets s' = s_buckets s \<and>
      s_blobs s' = s_blobs s \<and> (refs_inv ?x \<longrightarrow> refs_inv (db_file (s_db s')))"
  proof (cases "ix_lookup ?x (store_ns b, k)")
    case None
    then have "s' = s" using res db_get_none [OF i None] by (auto simp: store_Delete_def split: if_splits)
    moreover have "sabs ?x (b, k) = None" using None by (simp add: sabs_def)
    then have "store_spec E s (b, k) = None" using cu [unfolded in_step_def] by simp
    ultimately show ?thesis using inv cu by (auto simp: fun_eq_iff)
  next
    case (Some e0)
    then obtain t where g: "db_get (store_ns b) k (s_db s) = Inr (Some (e0\<lparr>e_atime := t\<rparr>))" using db_get_some [OF i] by blast
    obtain j n d where ja: "jappend E (sy_app sy) (sy_clock sy 0) (delete_record b k) (s_jrnl s) = (j, Inr n)"
      and up: "db_update (sy_commit sy) (unit_tx (\<lambda>x. res_bind (store_unbind E b k (sy_clock sy 1) x) (set_applied E n))) (s_db s) = (d, Inr ())"
      and s': "s' = s\<lparr>s_jrnl := j, s_db := d\<rparr>"
      using res g by (auto simp: store_Delete_def delete_journal_def delete_index_def split: prod.splits sum.splits if_splits)
    have ji: "journal_inv E (s_jrnl s)" using inv by (simp add: store_inv_def)
    let ?r = "stamp_rec (sy_clock sy 0) (s_jrnl s) (delete_record b k)"
    have rok: "rec_ok E ?r" using rdy by (simp add: rec_ok_def delete_ready_def delete_record_def stamp_rec_def time_is_zero_def)
    note js = jappend_ok [OF ji _ _ rok ja]
    have js: "journal_inv E j" "jlog E j = jlog E (s_jrnl s) @ [?r]" "j_last j = j_last (s_jrnl s) + 1" "n = j_last (s_jrnl s) + 1"
      using js rdy by (simp_all add: delete_ready_def)
    let ?tw = "\<lparr>r_seq = n, r_time = sy_clock sy 1, r_op = opDelete, r_bucket = b, r_key = k, r_hash = [], r_etag = [], r_size = 0, r_mtime = 0\<rparr>"
    obtain x' where x': "store_apply E 0 ?tw ?x = Inr x'" and d: "d = (s_db s)\<lparr>db_file := x'\<rparr>"
      using up unfolding db_update_Inr unit_tx_Inr delete_body_apply [where ?t0.0 = 0] by blast
    have tok: "rec_ok E ?tw" using rdy by (simp add: rec_ok_def delete_ready_def)
    have tsp: "spec_apply ?tw m = spec_apply ?r m" for m
      by (rule spec_apply_cong) (simp_all add: delete_record_def)
    have bi: "blob_inv E (s_blobs s)" using inv by (simp add: store_inv_def)
    have ops: "r_op ?r = opDelete" "r_op ?tw = opDelete" by (simp_all add: delete_record_def)
    have sel: "s_jrnl s' = j" "s_blobs s' = s_blobs s" "db_file (s_db s') = x'" by (simp_all add: s' d)
    have tsq: "r_seq ?tw = j_last j" using js(3,4) by simp
    have no: "blob_at (s_blobs s) (r_hash ?r) \<noteq> None" if "r_op ?r = opPut" using that ops by simp
    note ir = indexed_record [OF inv cu js(1-3) bi _ no tok tsq tsp x' sel]
    have "in_step E s'" using ir(1,2) by (simp add: caught_up_in_step)
    moreover have "refs_inv ?x \<longrightarrow> refs_inv (db_file (s_db s'))" using ir(4) ops by simp
    moreover have "store_spec E s' = (store_spec E s)((b, k) := None)" using ir(3) by (simp add: spec_apply_def delete_record_def)
    ultimately show ?thesis using ir(1) by (simp add: s')
  qed
  then show "store_inv E s'" "in_step E s'" "store_spec E s' = (store_spec E s)((b, k) := None)" "s_buckets s' = s_buckets s"
    "s_blobs s' = s_blobs s" "refs_inv ?x \<Longrightarrow> refs_inv (db_file (s_db s'))" by auto
qed

subsection \<open>A write interrupted between its stages\<close>

text \<open>The journal has the record and the index does not: the store is behind by one, and sound.\<close>

lemma journalled_inv:
  assumes inv: "store_inv E s"
    and j': "journal_inv E j'" "jlog E j' = jlog E (s_jrnl s) @ [r]" "j_last j' = j_last (s_jrnl s) + 1" "r_seq r = j_last j'"
    and room: "Suc (unat (j_last (s_jrnl s))) < 2 ^ 64"
    and fs': "blob_inv E fs'" "\<And>p v. store_spec E s p = Some v \<Longrightarrow> blob_at fs' (ov_hash v) \<noteq> None"
      "r_op r = opPut \<Longrightarrow> blob_at fs' (r_hash r) \<noteq> None"
  shows "store_inv E (s\<lparr>s_blobs := fs', s_jrnl := j'\<rparr>)"
    "store_spec E (s\<lparr>s_blobs := fs', s_jrnl := j'\<rparr>) = spec_apply r (store_spec E s)"
proof -
  let ?s = "s\<lparr>s_blobs := fs', s_jrnl := j'\<rparr>"
  show spec: "store_spec E ?s = spec_apply r (store_spec E s)" by (simp add: store_spec_def j')
  from inv obtain a where a: "appliedSeq (s_db s) = Inr a" "a \<le> j_last (s_jrnl s)"
    "sabs (db_file (s_db s)) = spec_run (filter (\<lambda>r. r_seq r \<le> a) (jlog E (s_jrnl s))) Map.empty"
    by (auto simp: store_inv_def)
  have nxt: "unat (j_last j') = Suc (unat (j_last (s_jrnl s)))" using unat_Suc64_bound [OF room] j'(3) by simp
  then have "\<not> r_seq r \<le> a" "a \<le> j_last j'" using a(2) j'(4) by (auto simp: word_le_nat_alt)
  moreover have "blob_at fs' (ov_hash v) \<noteq> None" if "store_spec E ?s p = Some v" for p v
  proof -
    have "store_spec E s p = Some v \<or> r_op r = opPut \<and> ov_hash v = r_hash r"
      using that unfolding spec by (auto simp: spec_apply_def split: if_splits)
    then show ?thesis
    proof
      assume "store_spec E s p = Some v"
      then show ?thesis by (rule fs'(2))
    qed (use fs'(3) in simp)
  qed
  ultimately show "store_inv E ?s"
    using inv a j'(1,2) fs'(1) by (auto simp: store_inv_def)
qed

lemma put_blob_stage:
  assumes E: "env_ok E" and inv: "store_inv E s" and flt: "fault_ok E (sy_blob sy) (fst r)"
    and res: "put_blob E sy b k r opt s = (s1, res)"
  shows "store_inv E s1" "store_spec E s1 = store_spec E s" "s_jrnl s1 = s_jrnl s" "s_db s1 = s_db s"
    "s_buckets s1 = s_buckets s"
proof -
  obtain fs where fs: "s1 = s\<lparr>s_blobs := fs\<rparr>"
    and c: "fs = s_blobs s \<or> (\<exists>x. blob_put E (sy_blob sy) (sy_clock sy 1) (sy_tmp sy) r (s_blobs s) = (fs, x))"
    using res by (auto simp: put_blob_def split: if_splits prod.splits sum.splits) (metis store.surjective store.update_convs(1))+
  have bi: "blob_inv E (s_blobs s)" using inv by (simp add: store_inv_def)
  have "blob_inv E fs \<and> (\<forall>h d. blob_at (s_blobs s) h = Some d \<longrightarrow> blob_at fs h = Some d)"
    using c blob_put_inv [OF env_okD(1) [OF E] flt bi] blob_put_keeps [OF env_okD(1) [OF E] flt] bi by blast
  moreover show spec: "store_spec E s1 = store_spec E s" by (simp add: fs store_spec_def)
  ultimately show "store_inv E s1"
    using inv store_inv_blob [OF inv] unfolding store_inv_def spec by (force simp: fs)
  show "s_jrnl s1 = s_jrnl s" "s_db s1 = s_db s" "s_buckets s1 = s_buckets s" by (simp_all add: fs)
qed

lemma put_journal_stage:
  assumes E: "env_ok E" and inv: "store_inv E s" and rdy: "put_ready E sy b k r opt s"
    and b: "put_blob E sy b k r opt s = (s1, Inr info)" and j: "put_journal E sy b k opt info s1 = (s2, Inr n)"
  shows "store_inv E s2" "store_spec E s2 = (store_spec E s)((b, k) \<mapsto> put_value E sy r opt)" "s_buckets s2 = s_buckets s"
proof -
  have sha: "sha_ok E" and flt: "fault_ok E (sy_blob sy) (fst r)" using E rdy by (simp_all add: env_okD put_ready_def)
  obtain fs where bp: "blob_put E (sy_blob sy) (sy_clock sy 1) (sy_tmp sy) r (s_blobs s) = (fs, Inr info)"
    and s1: "s1 = s\<lparr>s_blobs := fs\<rparr>" using b by (auto simp: put_blob_def split: if_splits prod.splits sum.splits)
  obtain jn where ja: "jappend E (sy_app sy) (sy_clock sy 2) (put_record sy b k opt info) (s_jrnl s) = (jn, Inr n)"
    and s2: "s2 = s\<lparr>s_blobs := fs, s_jrnl := jn\<rparr>" using j by (auto simp: put_journal_def s1 split: prod.splits)
  note be = blob_put_effect(2) [OF sha flt bp refl]
  have bi: "blob_inv E (s_blobs s)" and ji: "journal_inv E (s_jrnl s)" using inv by (simp_all add: store_inv_def)
  let ?r = "stamp_rec (sy_clock sy 2) (s_jrnl s) (put_record sy b k opt info)"
  have rc: "put_record sy b k opt info = put_record sy b k opt
      \<lparr>bi_hash = sha256_hex E (fst r), bi_md5 = md5_hex E (fst r), bi_size = of_nat (length (fst r)), bi_deduped = False\<rparr>"
    using be by (simp add: put_record_def put_etag_def)
  have rok: "rec_ok E ?r" using rdy be env_okD(2) [OF E]
    by (simp add: rec_ok_def put_ready_def put_record_def stamp_rec_def time_is_zero_def)
  have room: "Suc (unat (j_last (s_jrnl s))) < 2 ^ 64" using rdy by (simp add: put_ready_def)
  have line: "line_ok E ?r" using rdy unfolding rc by (simp add: put_ready_def)
  note js = jappend_ok [OF ji room line rok ja]
  have keep: "blob_at fs (ov_hash v) \<noteq> None" if "store_spec E s p = Some v" for p v
    using store_inv_blob [OF inv that] blob_put_keeps [OF sha flt bp] by blast
  have "r_hash ?r = bi_hash info" by (simp add: put_record_def)
  then have here: "blob_at fs (r_hash ?r) \<noteq> None" using be by metis
  have sq: "r_seq ?r = j_last jn" using js(3) by simp
  note ji2 = journalled_inv [OF inv js(1-3) sq room blob_put_inv [OF sha flt bi bp] keep here]
  show "store_inv E s2" using ji2(1) s2 by simp
  show "store_spec E s2 = (store_spec E s)((b, k) \<mapsto> put_value E sy r opt)"
    using ji2(2) s2 be by (simp add: spec_apply_def put_record_def put_value_def put_etag_def)
  show "s_buckets s2 = s_buckets s" by (simp add: s2)
qed

end
