(* ===== verification/Gc.thy ===== *)
theory Gc
  imports Durability
begin

text \<open>
  internal/store/gc.go: the collector.  A pass first drops the reference records that
  have expired, re-checking each in its own write transaction, removes their blobs and
  journals the removal; then it removes blobs no record mentions that are older than
  the grace period.  \<open>gcenv\<close> holds the outcomes of the system calls of a pass, by blob.
  The lemmas show that, under the reference invariant, no outcome of a pass, failed
  ones included, removes a blob a key or an open upload holds.
\<close>

record gcStats =
  gs_refsScanned :: i64
  gs_collected :: i64
  gs_orphans :: i64
  gs_foreign :: i64
  gs_bytesReclaimed :: i64
  gs_duration :: duration

record gcenv =
  ge_commit :: "string \<Rightarrow> bool"
  ge_rm :: "string \<Rightarrow> bool"
  ge_app :: "string \<Rightarrow> app_fault option"
  ge_clock :: "string \<Rightarrow> gotime"

definition zero_gcStats :: gcStats where
  "zero_gcStats = \<lparr>gs_refsScanned = 0, gs_collected = 0, gs_orphans = 0, gs_foreign = 0, gs_bytesReclaimed = 0, gs_duration = 0\<rparr>"

subsection \<open>Expired references\<close>

definition gc_scan :: "gotime \<Rightarrow> duration \<Rightarrow> string \<Rightarrow> blobref \<Rightarrow> gcStats \<times> string list \<Rightarrow> (gcStats \<times> string list) \<times> gerr option" where
  "gc_scan now grace hash r acc =
     (let st = (fst acc)\<lparr>gs_refsScanned := gs_refsScanned (fst acc) + 1\<rparr>
      in ((st, if collectable r now grace then snd acc @ [hash] else snd acc), None))"

text \<open>The re-check under the write transaction.\<close>

definition gc_drop_body :: "gotime \<Rightarrow> duration \<Rightarrow> string \<Rightarrow> idx \<Rightarrow> gerr + (bool \<times> idx)" where
  "gc_drop_body now grace hash x =
     res_bind (tx_refOf hash x) (\<lambda>r.
       case r of
         None \<Rightarrow> Inr (False, x)
       | Some rf \<Rightarrow>
           if \<not> collectable rf now grace then Inr (False, x)
           else res_bind (tx_dropRef hash x) (\<lambda>x'. Inr (True, x')))"

definition gc_record :: "string \<Rightarrow> jrec" where
  "gc_record hash =
     \<lparr>r_seq = 0, r_time = 0, r_op = opGC, r_bucket = [], r_key = [], r_hash = hash, r_etag = [], r_size = 0, r_mtime = 0\<rparr>"

definition gc_one ::
    "env \<Rightarrow> gcenv \<Rightarrow> gotime \<Rightarrow> duration \<Rightarrow> string \<Rightarrow> store \<times> gcStats \<Rightarrow> (store \<times> gcStats) \<times> gerr option" where
  "gc_one E G now grace hash acc =
     (let s = fst acc; st = snd acc in
      case blob_stat hash (s_blobs s) of
        Inl e \<Rightarrow> (acc, Some e)
      | Inr sz \<Rightarrow>
          (case db_update (ge_commit G hash) (gc_drop_body now grace hash) (s_db s) of
             (d, Inl _) \<Rightarrow> ((s\<lparr>s_db := d\<rparr>, st), Some (Errf ''store: gc drop ref''))
           | (d, Inr False) \<Rightarrow> ((s\<lparr>s_db := d\<rparr>, st), None)
           | (d, Inr True) \<Rightarrow>
               (case blob_remove (ge_rm G hash) hash (s_blobs s) of
                  (fs, Some _) \<Rightarrow> ((s\<lparr>s_db := d, s_blobs := fs\<rparr>, st), Some (Errf ''store: gc remove''))
                | (fs, None) \<Rightarrow>
                    (case jappend E (ge_app G hash) (ge_clock G hash) (gc_record hash) (s_jrnl s) of
                       (j, Inl e) \<Rightarrow> ((s\<lparr>s_db := d, s_blobs := fs, s_jrnl := j\<rparr>, st), Some e)
                     | (j, Inr _) \<Rightarrow>
                         ((s\<lparr>s_db := d, s_blobs := fs, s_jrnl := j\<rparr>,
                           st\<lparr>gs_collected := gs_collected st + 1,
                              gs_bytesReclaimed := gs_bytesReclaimed st + (case sz of None \<Rightarrow> 0 | Some n \<Rightarrow> n)\<rparr>), None)))))"

definition collectExpired ::
    "env \<Rightarrow> gcenv \<Rightarrow> gotime \<Rightarrow> duration \<Rightarrow> store \<times> gcStats \<Rightarrow> (store \<times> gcStats) \<times> gerr option" where
  "collectExpired E G now grace acc =
     (case ix_walkRefs (gc_scan now grace) (db_file (s_db (fst acc))) (snd acc, []) of
        ((st, _), Some e) \<Rightarrow> ((fst acc, st), Some e)
      | ((st, candidates), None) \<Rightarrow> fold_cb (gc_one E G now grace) candidates (fst acc, st))"

subsection \<open>Orphans\<close>

definition orphan_scan ::
    "idx \<Rightarrow> gotime \<Rightarrow> duration \<Rightarrow> walked \<Rightarrow> gcStats \<times> (string \<times> i64) list \<Rightarrow> (gcStats \<times> (string \<times> i64) list) \<times> gerr option" where
  "orphan_scan x now grace w acc =
     (if wk_bad w then (((fst acc)\<lparr>gs_foreign := gs_foreign (fst acc) + 1\<rparr>, snd acc), None)
      else if time_sub now (wk_mod w) < grace then (acc, None)
      else
        (case tx_refOf (wk_hash w) x of
           Inl e \<Rightarrow> (acc, Some e)
         | Inr (Some _) \<Rightarrow> (acc, None)
         | Inr None \<Rightarrow> ((fst acc, snd acc @ [(wk_hash w, wk_size w)]), None)))"

definition orphan_one :: "gcenv \<Rightarrow> string \<times> i64 \<Rightarrow> store \<times> gcStats \<Rightarrow> (store \<times> gcStats) \<times> gerr option" where
  "orphan_one G v acc =
     (case blob_remove (ge_rm G (fst v)) (fst v) (s_blobs (fst acc)) of
        (fs, Some _) \<Rightarrow> (((fst acc)\<lparr>s_blobs := fs\<rparr>, snd acc), Some (Errf ''store: gc remove orphan''))
      | (fs, None) \<Rightarrow>
          (((fst acc)\<lparr>s_blobs := fs\<rparr>,
            (snd acc)\<lparr>gs_orphans := gs_orphans (snd acc) + 1, gs_bytesReclaimed := gs_bytesReclaimed (snd acc) + snd v\<rparr>), None))"

definition collectOrphans :: "gcenv \<Rightarrow> gotime \<Rightarrow> duration \<Rightarrow> store \<times> gcStats \<Rightarrow> (store \<times> gcStats) \<times> gerr option" where
  "collectOrphans G now grace acc =
     (case blob_walk (orphan_scan (db_file (s_db (fst acc))) now grace) (s_blobs (fst acc)) (snd acc, []) of
        ((st, _), Some e) \<Rightarrow> ((fst acc, st), Some e)
      | ((st, victims), None) \<Rightarrow> fold_cb (orphan_one G) victims (fst acc, st))"

definition store_GC :: "env \<Rightarrow> gcenv \<Rightarrow> gotime \<Rightarrow> duration \<Rightarrow> store \<Rightarrow> (store \<times> gcStats) \<times> gerr option" where
  "store_GC E G now took s =
     (let grace = gc_grace (s_gc s) in
      case collectExpired E G now grace (s, zero_gcStats) of
        (acc, Some e) \<Rightarrow> (acc, Some e)
      | (acc, None) \<Rightarrow>
          (case collectOrphans G now grace acc of
             (acc', Some e) \<Rightarrow> (acc', Some e)
           | (acc', None) \<Rightarrow> ((fst acc', (snd acc')\<lparr>gs_duration := took\<rparr>), None)))"

subsection \<open>What is held is not collectable\<close>

definition held :: "idx \<Rightarrow> string \<Rightarrow> bool" where
  "held x h \<longleftrightarrow> 0 < key_count x h \<or> 0 < part_count x h"

text \<open>The counts of a real store fit an \<open>int64\<close>.\<close>

definition few :: "idx \<Rightarrow> bool" where
  "few x \<longleftrightarrow> (\<forall>h. int (key_count x h) + part_count x h < 2 ^ 63)"

lemma small_of_int: "0 \<le> n \<Longrightarrow> n < 2 ^ 63 \<Longrightarrow> sint (of_int n :: i64) = n"
  using sint_of_nat64 [of "nat n"] by (simp add: nat_less_iff)

lemma not_held_count:
  assumes "refs_inv x" "few x" "h \<noteq> []" "sint (refc x h) \<le> 0"
  shows "\<not> held x h"
proof -
  let ?n = "int (key_count x h) + part_count x h"
  have n: "0 \<le> ?n" "?n < 2 ^ 63" using assms(2) part_count_nonneg [of x h] by (auto simp: few_def)
  have "sint (refc x h) = ?n" using assms(1,3) small_of_int [OF n] by (simp add: refs_inv_def)
  with assms(4) n part_count_nonneg [of x h] show ?thesis by (auto simp: held_def)
qed

lemma collectable_not_held:
  assumes "refs_inv x" "few x" "h \<noteq> []" "ix_ref x h = Some r" "collectable r now grace"
  shows "\<not> held x h"
  using assms by (intro not_held_count) (auto simp: refc_def ref_or_zero_def collectable_def)

lemma unreferenced_not_held:
  assumes "refs_inv x" "few x" "h \<noteq> []" "ix_ref x h = None"
  shows "\<not> held x h"
  using assms by (intro not_held_count) (auto simp: refc_def ref_or_zero_def zero_ref_def)

lemma refs_inv_drop:
  assumes "idx_inv x" "refs_inv x" "\<not> held x h" "tx_dropRef h x = Inr x'"
  shows "refs_inv x'" "held x' = held x" "few x' = few x"
proof -
  note t = tx_dropRef_Inr [OF assms(1,4)]
  have kc: "key_count x' = key_count x" by (simp add: key_count_def t(3) fun_eq_iff)
  have pc: "part_count x' = part_count x" by (rule part_count_other [OF t(4)])
  show "held x' = held x" "few x' = few x" by (simp_all add: held_def few_def kc pc fun_eq_iff)
  have "key_count x h = 0" "part_count x h = 0" using assms(3) part_count_nonneg [of x h] by (auto simp: held_def)
  then show "refs_inv x'"
    using assms(2) unfolding refs_inv_def kc pc by (auto simp: refc_def ref_or_zero_def t(2) zero_ref_def)
qed

subsection \<open>The pass keeps what is held\<close>

text \<open>
  What a step of the collector may do to a store: the entries, the uploads and the held
  blobs stay, and the reference counts stay exact.
\<close>

definition gc_safe :: "store \<Rightarrow> store \<Rightarrow> bool" where
  "gc_safe s s' \<longleftrightarrow>
     (let x = db_file (s_db s); x' = db_file (s_db s') in
      ix_lookup x' = ix_lookup x \<and> ix_meta x' = ix_meta x \<and>
      (\<forall>h. held x h \<longrightarrow> blob_at (s_blobs s') h = blob_at (s_blobs s) h) \<and>
      (idx_inv x \<and> refs_inv x \<and> few x \<longrightarrow> idx_inv x' \<and> refs_inv x' \<and> few x' \<and> held x' = held x))"

lemma gc_safe_refl [simp]: "gc_safe s s"
  by (simp add: gc_safe_def Let_def)

lemma gc_safe_trans:
  assumes "gc_safe s s1" "gc_safe s1 s2" "idx_inv (db_file (s_db s))" "refs_inv (db_file (s_db s))" "few (db_file (s_db s))"
  shows "gc_safe s s2"
  using assms unfolding gc_safe_def Let_def by metis

lemma gc_drop_body_cases:
  assumes "idx_inv x" "gc_drop_body now grace h x = Inr (b, x')"
  obtains "\<not> b" "x' = x" | r where "b" "ix_ref x h = Some r" "collectable r now grace" "tx_dropRef h x = Inr x'"
  using assms by (auto simp: gc_drop_body_def tx_refOf_ref res_bind_Inr split: option.splits if_splits)

lemma gc_one_safe:
  assumes inv: "idx_inv (db_file (s_db s))" "refs_inv (db_file (s_db s))" "few (db_file (s_db s))"
    and res: "gc_one E G now grace h (s, st) = ((s', st'), e)"
  shows "gc_safe s s'"
proof (cases "blob_stat h (s_blobs s)")
  case (Inl err)
  with res show ?thesis by (simp add: gc_one_def)
next
  case (Inr sz)
  then have hne: "h \<noteq> []" by (auto simp: blob_stat_def ValidHash_def split: if_splits)
  let ?x = "db_file (s_db s)"
  obtain d u where up: "db_update (ge_commit G h) (gc_drop_body now grace h) (s_db s) = (d, u)" by force
  show ?thesis
  proof (cases u)
    case (Inl err)
    with up have "d = s_db s" using db_update_Inl by metis
    with res Inr up Inl show ?thesis by (simp add: gc_one_def gc_safe_def Let_def)
  next
    case u: (Inr b)
    with up obtain x' where body: "gc_drop_body now grace h ?x = Inr (b, x')" and d: "d = (s_db s)\<lparr>db_file := x'\<rparr>"
      by (auto simp: db_update_Inr)
    from gc_drop_body_cases [OF inv(1) body] show ?thesis
    proof cases
      case 1
      then have "s' = s\<lparr>s_db := d\<rparr>" using res Inr up u by (simp add: gc_one_def)
      then show ?thesis using 1 d by (simp add: gc_safe_def Let_def)
    next
      case (2 r)
      note nh = collectable_not_held [OF inv(2,3) hne 2(2,3)]
      note dr = refs_inv_drop [OF inv(1,2) nh 2(4)] tx_dropRef_Inr [OF inv(1) 2(4)]
      obtain fs e2 where rm: "blob_remove (ge_rm G h) h (s_blobs s) = (fs, e2)" by force
      have keep: "blob_at fs g = blob_at (s_blobs s) g" if "held ?x g" for g
        using blob_remove_effect(1) [OF rm] that nh by auto
      have "db_file (s_db s') = x'" "s_blobs s' = fs"
        using res Inr up u 2(1) rm d by (auto simp: gc_one_def split: option.splits prod.splits sum.splits)
      then show ?thesis using dr keep inv by (simp add: gc_safe_def Let_def)
    qed
  qed
qed

lemma fold_safe:
  assumes step: "\<And>v s st s' st' e. idx_inv (db_file (s_db s)) \<Longrightarrow> refs_inv (db_file (s_db s)) \<Longrightarrow> few (db_file (s_db s)) \<Longrightarrow>
      P s v \<Longrightarrow> f v (s, st) = ((s', st'), e) \<Longrightarrow> gc_safe s s' \<and> (\<forall>w. P s w \<longrightarrow> P s' w)"
  shows "idx_inv (db_file (s_db s)) \<Longrightarrow> refs_inv (db_file (s_db s)) \<Longrightarrow> few (db_file (s_db s)) \<Longrightarrow> \<forall>v \<in> set vs. P s v \<Longrightarrow>
    fold_cb f vs (s, st) = ((s', st'), e) \<Longrightarrow> gc_safe s s'"
proof (induction vs arbitrary: s st)
  case (Cons v vs)
  obtain s1 st1 e1 where one: "f v (s, st) = ((s1, st1), e1)" by (metis prod.collapse)
  have s1: "gc_safe s s1" "\<forall>w. P s w \<longrightarrow> P s1 w" using step [OF Cons.prems(1-3) _ one] Cons.prems(4) by auto
  show ?case
  proof (cases e1)
    case (Some err)
    with one Cons.prems(5) s1 show ?thesis by simp
  next
    case None
    have i: "idx_inv (db_file (s_db s1))" "refs_inv (db_file (s_db s1))" "few (db_file (s_db s1))"
      using s1(1) Cons.prems(1-3) by (simp_all add: gc_safe_def Let_def)
    have "gc_safe s1 s'" using None one Cons.prems(4,5) s1(2) by (intro Cons.IH [OF i]) auto
    from gc_safe_trans [OF s1(1) this Cons.prems(1-3)] show ?thesis .
  qed
qed simp

lemma collectExpired_safe:
  assumes "idx_inv (db_file (s_db s))" "refs_inv (db_file (s_db s))" "few (db_file (s_db s))"
    and "collectExpired E G now grace (s, st) = ((s', st'), e)"
  shows "gc_safe s s'"
proof -
  obtain st1 c e1 where w: "ix_walkRefs (gc_scan now grace) (db_file (s_db s)) (st, []) = ((st1, c), e1)"
    by (metis prod.collapse)
  show ?thesis
  proof (cases e1)
    case None
    with w assms(4) have "fold_cb (gc_one E G now grace) c (s, st1) = ((s', st'), e)" by (simp add: collectExpired_def)
    then have fold: "fold_cb (gc_one E G now grace) c (s, st1) = ((s', st'), e)" .
    have step: "gc_safe t t' \<and> (\<forall>w. True \<longrightarrow> True)"
      if "idx_inv (db_file (s_db t))" "refs_inv (db_file (s_db t))" "few (db_file (s_db t))" True
        "gc_one E G now grace v (t, u) = ((t', u'), e')" for v :: string and t u t' u' e'
      using gc_one_safe [OF that(1-3,5)] by simp
    show ?thesis by (rule fold_safe [where P = "\<lambda>_ _. True", OF step assms(1-3) _ fold]) simp_all
  qed (use w assms in \<open>simp add: collectExpired_def\<close>)
qed

lemma orphan_scan_victims:
  assumes "idx_inv x" "\<forall>w \<in> set ws. wk_bad w \<longleftrightarrow> \<not> ValidHash (wk_hash w)"
  shows "fold_cb (orphan_scan x now grace) ws (st, vs) = ((st', vs'), e) \<Longrightarrow>
    \<forall>v \<in> set vs'. v \<in> set vs \<or> ix_ref x (fst v) = None \<and>
      (\<exists>w \<in> set ws. wk_hash w = fst v \<and> ValidHash (fst v) \<and> grace \<le> time_sub now (wk_mod w))"
  using assms(2)
proof (induction ws arbitrary: st vs)
  case (Cons w ws)
  obtain st1 vs1 e1 where one: "orphan_scan x now grace w (st, vs) = ((st1, vs1), e1)" by (metis prod.collapse)
  have new: "v \<in> set vs \<or> ix_ref x (fst v) = None \<and> wk_hash w = fst v \<and> ValidHash (fst v) \<and> grace \<le> time_sub now (wk_mod w)"
    if "v \<in> set vs1" for v
    using one that Cons.prems(2) by (auto simp: orphan_scan_def tx_refOf_ref [OF assms(1)] split: if_splits option.splits)
  show ?case
  proof (cases e1)
    case (Some err)
    with one Cons.prems(1) new show ?thesis by auto
  next
    case None
    with one Cons.prems have "\<forall>v \<in> set vs'. v \<in> set vs1 \<or> ix_ref x (fst v) = None \<and>
        (\<exists>w \<in> set ws. wk_hash w = fst v \<and> ValidHash (fst v) \<and> grace \<le> time_sub now (wk_mod w))"
      by (intro Cons.IH) auto
    with new show ?thesis by fastforce
  qed
qed simp

lemma orphan_one_safe:
  assumes "refs_inv (db_file (s_db s))" "few (db_file (s_db s))"
    and "ix_ref (db_file (s_db s)) (fst v) = None \<and> fst v \<noteq> []" and res: "orphan_one G v (s, st) = ((s', st'), e)"
  shows "gc_safe s s' \<and> s_db s' = s_db s"
proof -
  have nh: "\<not> held (db_file (s_db s)) (fst v)" using unreferenced_not_held assms(1-3) by blast
  obtain fs e2 where rm: "blob_remove (ge_rm G (fst v)) (fst v) (s_blobs s) = (fs, e2)" by force
  have "s' = s\<lparr>s_blobs := fs\<rparr>" using res rm by (auto simp: orphan_one_def split: option.splits)
  moreover have "blob_at fs g = blob_at (s_blobs s) g" if "held (db_file (s_db s)) g" for g
    using blob_remove_effect(1) [OF rm] that nh by auto
  ultimately show ?thesis by (simp add: gc_safe_def Let_def)
qed

lemma walk_items_bad: "\<forall>w \<in> set (map walk_item b). wk_bad w \<longleftrightarrow> \<not> ValidHash (wk_hash w)"
  by (simp add: walk_item_def)

lemma collectOrphans_safe:
  assumes "idx_inv (db_file (s_db s))" "refs_inv (db_file (s_db s))" "few (db_file (s_db s))"
    and "collectOrphans G now grace (s, st) = ((s', st'), e)"
  shows "gc_safe s s'"
proof -
  let ?x = "db_file (s_db s)"
  obtain st1 vs e1 where w: "blob_walk (orphan_scan ?x now grace) (s_blobs s) (st, []) = ((st1, vs), e1)"
    by (metis prod.collapse)
  show ?thesis
  proof (cases e1)
    case None
    with w assms(4) have fold: "fold_cb (orphan_one G) vs (s, st1) = ((s', st'), e)" by (simp add: collectOrphans_def)
    have vs: "\<forall>v \<in> set vs. ix_ref ?x (fst v) = None \<and> fst v \<noteq> []"
      using orphan_scan_victims [OF assms(1) walk_items_bad w [unfolded blob_walk_def]] by (auto simp: ValidHash_def)
    let ?P = "\<lambda>t v. ix_ref (db_file (s_db t)) (fst v) = None \<and> fst v \<noteq> []"
    have step: "gc_safe t t' \<and> (\<forall>w. ?P t w \<longrightarrow> ?P t' w)"
      if "idx_inv (db_file (s_db t))" "refs_inv (db_file (s_db t))" "few (db_file (s_db t))" "?P t v"
        "orphan_one G v (t, u) = ((t', u'), e')" for v :: "string \<times> i64" and t u t' u' e'
      using orphan_one_safe [OF that(2-5)] by simp
    show ?thesis by (rule fold_safe [where P = ?P, OF step assms(1-3) vs fold])
  qed (use w assms in \<open>simp add: collectOrphans_def\<close>)
qed

text \<open>Whatever the outcome of a pass, it is safe.\<close>

lemma GC_safe:
  assumes inv: "idx_inv (db_file (s_db s))" "refs_inv (db_file (s_db s))" "few (db_file (s_db s))"
    and res: "store_GC E G now took s = ((s', st'), e)"
  shows "gc_safe s s'"
proof -
  let ?g = "gc_grace (s_gc s)"
  obtain s1 st1 e1 where c: "collectExpired E G now ?g (s, zero_gcStats) = ((s1, st1), e1)" by (metis prod.collapse)
  note safe1 = collectExpired_safe [OF inv c]
  show ?thesis
  proof (cases e1)
    case (Some err)
    with c res safe1 show ?thesis by (simp add: store_GC_def)
  next
    case None
    obtain s2 st2 e2 where o: "collectOrphans G now ?g (s1, st1) = ((s2, st2), e2)" by (metis prod.collapse)
    have i: "idx_inv (db_file (s_db s1))" "refs_inv (db_file (s_db s1))" "few (db_file (s_db s1))"
      using safe1 inv by (simp_all add: gc_safe_def Let_def)
    have "s' = s2" using None c o res by (cases e2) (simp_all add: store_GC_def Let_def)
    then show ?thesis using gc_safe_trans [OF safe1 collectOrphans_safe [OF i o] inv] by simp
  qed
qed

subsection \<open>A pass that returns keeps the store\<close>

definition gc_fits :: "env \<Rightarrow> gcenv \<Rightarrow> bool" where
  "gc_fits E G \<longleftrightarrow> (\<forall>h q. ValidHash h \<longrightarrow> \<not> time_is_zero (ge_clock G h) \<and> line_ok E ((gc_record h)\<lparr>r_time := ge_clock G h, r_seq := q\<rparr>))"

definition gc_good :: "env \<Rightarrow> spec \<Rightarrow> store \<Rightarrow> bool" where
  "gc_good E m s \<longleftrightarrow> store_inv E s \<and> in_step E s \<and> store_spec E s = m \<and> refs_inv (db_file (s_db s)) \<and> few (db_file (s_db s))"

lemma spec_held:
  assumes "in_step E s" "store_spec E s p = Some v"
  shows "held (db_file (s_db s)) (ov_hash v)"
proof -
  have "sabs (db_file (s_db s)) p = Some v" using assms by (simp add: in_step_def)
  then obtain e where "ix_lookup (db_file (s_db s)) (store_ns (fst p), snd p) = Some e" "e_hash e = ov_hash v"
    by (auto simp: sabs_def objval_of_def)
  then have "key_count (db_file (s_db s)) (ov_hash v) \<noteq> 0" unfolding key_count_sabs by force
  then show ?thesis by (simp add: held_def)
qed

lemma gc_good_step:
  assumes good: "gc_good E m s" and safe: "gc_safe s s'" and bi: "blob_inv E (s_blobs s')"
    and j: "s_jrnl s' = s_jrnl s"
  shows "gc_good E m s'"
proof -
  let ?x = "db_file (s_db s)" and ?x' = "db_file (s_db s')"
  have inv: "store_inv E s" and st: "in_step E s" and m: "store_spec E s = m" "refs_inv ?x" "few ?x"
    using good by (simp_all add: gc_good_def)
  have i: "idx_inv ?x" using inv by (simp add: store_inv_def rec_index_ok_def index_ok_def)
  have s': "ix_lookup ?x' = ix_lookup ?x" "ix_meta ?x' = ix_meta ?x" "idx_inv ?x'" "refs_inv ?x'" "few ?x'"
    "\<And>h. held ?x h \<Longrightarrow> blob_at (s_blobs s') h = blob_at (s_blobs s) h"
    using safe i m by (simp_all add: gc_safe_def Let_def)
  have sp: "store_spec E s' = store_spec E s" by (simp add: store_spec_def j)
  have sa: "sabs ?x' = sabs ?x" by (simp add: sabs_def s'(1) fun_eq_iff)
  have ap: "appliedSeq (s_db s') = appliedSeq (s_db s)" by (simp add: appliedSeq_def db_meta_def tx_meta_def s'(2))
  have rx: "rec_index_ok E ?x'"
    using inv s' by (simp add: store_inv_def rec_index_ok_def index_ok_def hashes_ok_def applied_ok_def tx_meta_def)
  have cov: "blob_at (s_blobs s') (ov_hash v) \<noteq> None" if "store_spec E s' p = Some v" for p v
  proof -
    have v: "store_spec E s p = Some v" using that sp by simp
    with s'(6) [OF spec_held [OF st v]] store_inv_blob [OF inv v] show ?thesis by simp
  qed
  have "store_inv E s'"
    using inv bi rx cov unfolding store_inv_def j ap sa by blast
  then show ?thesis using st m s' sp sa by (simp add: gc_good_def in_step_def)
qed

lemma gc_one_good:
  assumes good: "gc_good E m s" and fits: "gc_fits E G" and room: "Suc (unat (j_last (s_jrnl s))) < 2 ^ 64"
    and res: "gc_one E G now grace h (s, st) = ((s', st'), None)"
  shows "gc_good E m s'" "unat (j_last (s_jrnl s')) \<le> Suc (unat (j_last (s_jrnl s)))"
proof -
  let ?x = "db_file (s_db s)"
  have inv: "store_inv E s" and m: "refs_inv ?x" "few ?x" using good by (simp_all add: gc_good_def)
  have i: "idx_inv ?x" and bi: "blob_inv E (s_blobs s)" and ji: "journal_inv E (s_jrnl s)"
    using inv by (simp_all add: store_inv_def rec_index_ok_def index_ok_def)
  note safe = gc_one_safe [OF i m res]
  obtain sz where sz: "blob_stat h (s_blobs s) = Inr sz" using res by (cases "blob_stat h (s_blobs s)") (auto simp: gc_one_def)
  obtain d b where up: "db_update (ge_commit G h) (gc_drop_body now grace h) (s_db s) = (d, Inr b)"
    using res sz by (auto simp: gc_one_def split: prod.splits sum.splits)
  have main: "gc_good E m s' \<and> unat (j_last (s_jrnl s')) \<le> Suc (unat (j_last (s_jrnl s)))"
  proof (cases b)
    case False
    then have s': "s' = s\<lparr>s_db := d\<rparr>" using res sz up by (simp add: gc_one_def)
    then show ?thesis using gc_good_step [OF good safe] bi by simp
  next
    case True
    obtain fs where rm: "blob_remove (ge_rm G h) h (s_blobs s) = (fs, None)"
      using res sz up True by (auto simp: gc_one_def split: prod.splits option.splits)
    obtain j n where ja: "jappend E (ge_app G h) (ge_clock G h) (gc_record h) (s_jrnl s) = (j, Inr n)"
      and s': "s' = s\<lparr>s_db := d, s_blobs := fs, s_jrnl := j\<rparr>"
      using res sz up True rm by (auto simp: gc_one_def split: prod.splits sum.splits)
    let ?t = "s\<lparr>s_db := d, s_blobs := fs\<rparr>"
    have bt: "blob_inv E fs" using blob_remove_effect(3) [OF rm bi] .
    have safe_t: "gc_safe s ?t" using safe by (simp add: gc_safe_def Let_def s')
    have gt: "gc_good E m ?t" by (rule gc_good_step [OF good safe_t]) (simp_all add: bt)
    let ?r = "stamp_rec (ge_clock G h) (s_jrnl s) (gc_record h)"
    have r: "?r = (gc_record h)\<lparr>r_time := ge_clock G h, r_seq := j_last (s_jrnl s) + 1\<rparr>"
      by (simp add: stamp_rec_def gc_record_def time_is_zero_def)
    have "ValidHash h" using sz by (simp add: blob_stat_def split: if_splits)
    then have rok: "rec_ok E ?r" "line_ok E ?r" using fits unfolding r by (auto simp: rec_ok_def gc_fits_def gc_record_def)
    note js = jappend_ok [OF ji room rok(2,1) ja]
    have invt: "store_inv E ?t" using gt by (simp add: gc_good_def)
    have noput: "blob_at fs (r_hash ?r) \<noteq> None" if "r_op ?r = opPut" using that by (simp add: gc_record_def)
    have cov: "blob_at fs (ov_hash v) \<noteq> None" if "store_spec E ?t p = Some v" for p v
      using store_inv_blob [OF invt that] by auto
    have sel: "jlog E j = jlog E (s_jrnl ?t) @ [?r]" "j_last j = j_last (s_jrnl ?t) + 1" "r_seq ?r = j_last j"
      "Suc (unat (j_last (s_jrnl ?t))) < 2 ^ 64" using js room by simp_all
    note jl = journalled_inv [OF invt js(1) sel bt cov noput]
    have st: "?t\<lparr>s_blobs := fs, s_jrnl := j\<rparr> = s'" by (simp add: s')
    have "spec_apply ?r mm = mm" for mm by (simp add: spec_apply_def gc_record_def)
    then have "store_spec E s' = store_spec E ?t" using jl(2) st by simp
    moreover have "store_inv E s'" using jl(1) st by simp
    moreover have "in_step E ?t" "refs_inv (db_file (s_db s'))" "few (db_file (s_db s'))" "store_spec E ?t = m"
      using gt by (simp_all add: gc_good_def s')
    moreover have "db_file (s_db s') = db_file (s_db ?t)" by (simp add: s')
    ultimately have "gc_good E m s'" by (simp add: gc_good_def in_step_def)
    moreover have "unat (j_last j) = Suc (unat (j_last (s_jrnl s)))" using unat_Suc64_bound [OF room] js(3) by simp
    ultimately show ?thesis by (simp add: s')
  qed
  then show "gc_good E m s'" "unat (j_last (s_jrnl s')) \<le> Suc (unat (j_last (s_jrnl s)))" by simp_all
qed

lemma gc_fold_good:
  "gc_good E m s \<Longrightarrow> gc_fits E G \<Longrightarrow> unat (j_last (s_jrnl s)) + length cs < 2 ^ 64 - 1 \<Longrightarrow>
   fold_cb (gc_one E G now grace) cs (s, st) = ((s', st'), None) \<Longrightarrow> gc_good E m s'"
proof (induction cs arbitrary: s st)
  case (Cons c cs)
  obtain s1 st1 e1 where one: "gc_one E G now grace c (s, st) = ((s1, st1), e1)" by (metis prod.collapse)
  then have n: "e1 = None" using Cons.prems(4) by (cases e1) auto
  have room: "Suc (unat (j_last (s_jrnl s))) < 2 ^ 64" using Cons.prems(3) by simp
  note g = gc_one_good [OF Cons.prems(1,2) room one [unfolded n]]
  show ?case
    by (rule Cons.IH [OF g(1) Cons.prems(2)]) (use g(2) Cons.prems(3,4) one n in auto)
qed simp

lemma gc_scan_length:
  "fold_cb (\<lambda>(h, r). gc_scan now grace h r) ps (st, cs) = ((st', cs'), e) \<Longrightarrow> length cs' \<le> length cs + length ps"
proof (induction ps arbitrary: st cs)
  case (Cons p ps)
  obtain h r where p: "p = (h, r)" by force
  obtain st1 cs1 where one: "gc_scan now grace h r (st, cs) = ((st1, cs1), None)" "length cs1 \<le> Suc (length cs)"
    by (auto simp: gc_scan_def Let_def)
  with Cons.prems p have "fold_cb (\<lambda>(h, r). gc_scan now grace h r) ps (st1, cs1) = ((st', cs'), e)" by simp
  from Cons.IH [OF this] one(2) show ?case by simp
qed simp

lemma orphan_fold_good:
  assumes "gc_good E m s" "\<forall>v \<in> set vs. ix_ref (db_file (s_db s)) (fst v) = None \<and> fst v \<noteq> []"
    and "fold_cb (orphan_one G) vs (s, st) = ((s', st'), e)"
  shows "gc_good E m s'"
  using assms
proof (induction vs arbitrary: s st)
  case (Cons v vs)
  obtain s1 st1 e1 where one: "orphan_one G v (s, st) = ((s1, st1), e1)" by (metis prod.collapse)
  have inv: "store_inv E s" "refs_inv (db_file (s_db s))" "few (db_file (s_db s))" using Cons.prems(1) by (simp_all add: gc_good_def)
  have safe: "gc_safe s s1 \<and> s_db s1 = s_db s" by (rule orphan_one_safe [OF inv(2,3) _ one]) (use Cons.prems(2) in simp)
  obtain fs e2 where rm: "blob_remove (ge_rm G (fst v)) (fst v) (s_blobs s) = (fs, e2)" by force
  have s1: "s1 = s\<lparr>s_blobs := fs\<rparr>" using one rm by (auto simp: orphan_one_def split: option.splits)
  have "blob_inv E (s_blobs s1)" using blob_remove_effect(3) [OF rm] inv(1) by (simp add: s1 store_inv_def)
  then have g: "gc_good E m s1" using gc_good_step [OF Cons.prems(1)] safe s1 by simp
  show ?case
  proof (cases e1)
    case None
    then show ?thesis using Cons.IH [OF g, of st1] Cons.prems(2,3) one safe by simp
  next
    case (Some err)
    then show ?thesis using g one Cons.prems(3) by simp
  qed
qed simp

lemma GC_keeps_store:
  assumes good: "gc_good E m s" and fits: "gc_fits E G"
    and room: "unat (j_last (s_jrnl s)) + length (ix_refs (db_file (s_db s))) < 2 ^ 64 - 1"
    and res: "store_GC E G now took s = ((s', st'), None)"
  shows "gc_good E m s'"
proof -
  let ?g = "gc_grace (s_gc s)" and ?x = "db_file (s_db s)"
  have i: "idx_inv ?x" using good by (simp add: gc_good_def store_inv_def rec_index_ok_def index_ok_def)
  obtain st1 cs e1 where w: "ix_walkRefs (gc_scan now ?g) ?x (zero_gcStats, []) = ((st1, cs), e1)" by (metis prod.collapse)
  obtain s2 st2 e2 where c: "collectExpired E G now ?g (s, zero_gcStats) = ((s2, st2), e2)" by (metis prod.collapse)
  have e2: "e2 = None" using c res by (cases e2) (auto simp: store_GC_def)
  have e1: "e1 = None" using c w e2 by (cases e1) (auto simp: collectExpired_def)
  have fold: "fold_cb (gc_one E G now ?g) cs (s, st1) = ((s2, st2), None)" using c w e1 e2 by (simp add: collectExpired_def)
  have "length cs \<le> length (ix_refs ?x)"
    using gc_scan_length [OF w [unfolded ix_walkRefs_refs [OF i]]] by simp
  then have "gc_good E m s2" using gc_fold_good [OF good fits _ fold] room by linarith
  obtain s3 st3 e3 where o: "collectOrphans G now ?g (s2, st2) = ((s3, st3), e3)" by (metis prod.collapse)
  have s3: "s' = s3" "e3 = None" using c o e2 res by (cases e3, auto simp: store_GC_def Let_def)+
  obtain st4 vs e4 where bw: "blob_walk (orphan_scan (db_file (s_db s2)) now ?g) (s_blobs s2) (st2, []) = ((st4, vs), e4)"
    by (metis prod.collapse)
  have e4: "e4 = None" using o bw s3 by (cases e4) (auto simp: collectOrphans_def)
  have of: "fold_cb (orphan_one G) vs (s2, st4) = ((s3, st3), e3)" using o bw e4 by (simp add: collectOrphans_def)
  have i2: "idx_inv (db_file (s_db s2))"
    using \<open>gc_good E m s2\<close> by (simp add: gc_good_def store_inv_def rec_index_ok_def index_ok_def)
  have vs: "\<forall>v \<in> set vs. ix_ref (db_file (s_db s2)) (fst v) = None \<and> fst v \<noteq> []"
    using orphan_scan_victims [OF i2 walk_items_bad bw [unfolded blob_walk_def]] by (auto simp: ValidHash_def)
  show ?thesis using orphan_fold_good [OF \<open>gc_good E m s2\<close> vs of] s3 by simp
qed

end
