(* ===== verification/GcComplete.thy ===== *)
theory GcComplete
  imports Gc
begin

text \<open>
  What a pass of the collector removes.  A pass that returns without an error leaves no
  reference record that was collectable when it started and none of those blobs, and no
  unreferenced file older than the grace period; a pass whose system calls succeed
  returns.  Together with the safety lemmas of the component this says that what a pass
  takes away is exactly what may go.
\<close>

subsection \<open>What a returned pass has removed\<close>

definition expired :: "idx \<Rightarrow> gotime \<Rightarrow> duration \<Rightarrow> string \<Rightarrow> bool" where
  "expired x now grace h \<longleftrightarrow> (\<exists>r. ix_ref x h = Some r \<and> collectable r now grace)"

lemma gc_one_drops:
  assumes i: "idx_inv (db_file (s_db s))" and res: "gc_one E G now grace h (s, st) = ((s', st'), None)"
  shows "idx_inv (db_file (s_db s'))"
    "ix_ref (db_file (s_db s')) = (if expired (db_file (s_db s)) now grace h then (ix_ref (db_file (s_db s)))(h := None) else ix_ref (db_file (s_db s)))"
    "blob_at (s_blobs s') = (if expired (db_file (s_db s)) now grace h then (blob_at (s_blobs s))(h := None) else blob_at (s_blobs s))"
    "s_gc s' = s_gc s"
proof -
  let ?x = "db_file (s_db s)"
  obtain sz where sz: "blob_stat h (s_blobs s) = Inr sz" using res by (cases "blob_stat h (s_blobs s)") (auto simp: gc_one_def)
  obtain d b where up: "db_update (ge_commit G h) (gc_drop_body now grace h) (s_db s) = (d, Inr b)"
    using res sz by (auto simp: gc_one_def split: prod.splits sum.splits)
  then obtain x' where body: "gc_drop_body now grace h ?x = Inr (b, x')" and d: "d = (s_db s)\<lparr>db_file := x'\<rparr>"
    by (auto simp: db_update_Inr)
  have b: "b = expired ?x now grace h"
    using body by (auto simp: gc_drop_body_def tx_refOf_ref [OF i] res_bind_Inr expired_def split: option.splits if_splits)
  have main: "idx_inv (db_file (s_db s')) \<and> s_gc s' = s_gc s \<and>
      ix_ref (db_file (s_db s')) = (if b then (ix_ref ?x)(h := None) else ix_ref ?x) \<and>
      blob_at (s_blobs s') = (if b then (blob_at (s_blobs s))(h := None) else blob_at (s_blobs s))"
  proof (cases b)
    case False
    with body have "x' = ?x" using gc_drop_body_cases [OF i body] by auto
    moreover have "s' = s\<lparr>s_db := d\<rparr>" using res sz up False by (simp add: gc_one_def)
    ultimately show ?thesis using False i d by simp
  next
    case True
    obtain fs where rm: "blob_remove (ge_rm G h) h (s_blobs s) = (fs, None)"
      using res sz up True by (auto simp: gc_one_def split: prod.splits option.splits)
    have dr: "tx_dropRef h ?x = Inr x'" using gc_drop_body_cases [OF i body] True by metis
    have "db_file (s_db s') = x'" "s_blobs s' = fs" "s_gc s' = s_gc s"
      using res sz up True rm d by (auto simp: gc_one_def split: prod.splits sum.splits)
    then show ?thesis using tx_dropRef_Inr [OF i dr] blob_remove_effect(1) [OF rm] True by simp
  qed
  then show "idx_inv (db_file (s_db s'))" "s_gc s' = s_gc s"
    "ix_ref (db_file (s_db s')) = (if expired ?x now grace h then (ix_ref ?x)(h := None) else ix_ref ?x)"
    "blob_at (s_blobs s') = (if expired ?x now grace h then (blob_at (s_blobs s))(h := None) else blob_at (s_blobs s))"
    by (simp_all add: b)
qed

lemma gc_fold_drops:
  assumes "idx_inv (db_file (s_db s))" "fold_cb (gc_one E G now grace) cs (s, st) = ((s', st'), None)"
  shows "idx_inv (db_file (s_db s')) \<and>
    (\<forall>h \<in> set cs. expired (db_file (s_db s)) now grace h \<longrightarrow> ix_ref (db_file (s_db s')) h = None \<and> blob_at (s_blobs s') h = None) \<and>
    (\<forall>h. ix_ref (db_file (s_db s)) h = None \<longrightarrow> ix_ref (db_file (s_db s')) h = None) \<and>
    (\<forall>h. blob_at (s_blobs s) h = None \<longrightarrow> blob_at (s_blobs s') h = None)"
  using assms
proof (induction cs arbitrary: s st)
  case (Cons c cs)
  obtain s1 st1 e1 where one: "gc_one E G now grace c (s, st) = ((s1, st1), e1)" by (metis prod.collapse)
  then have n: "e1 = None" using Cons.prems(2) by (cases e1) auto
  note g = gc_one_drops [OF Cons.prems(1) one [unfolded n]]
  have rest: "fold_cb (gc_one E G now grace) cs (s1, st1) = ((s', st'), None)" using one n Cons.prems(2) by simp
  note ih = Cons.IH [OF g(1) rest]
  let ?x = "db_file (s_db s)" and ?x1 = "db_file (s_db s1)" and ?x' = "db_file (s_db s')"
  have nn: "ix_ref ?x' h = None" if "ix_ref ?x1 h = None" for h using ih that by blast
  have bn: "blob_at (s_blobs s') h = None" if "blob_at (s_blobs s1) h = None" for h using ih that by blast
  have keep: "ix_ref ?x1 h = None" if "ix_ref ?x h = None" for h using g(2) that by simp
  have keepb: "blob_at (s_blobs s1) h = None" if "blob_at (s_blobs s) h = None" for h using g(3) that by simp
  have "ix_ref ?x' h = None \<and> blob_at (s_blobs s') h = None" if h: "h \<in> set (c # cs)" "expired ?x now grace h" for h
  proof (cases "h = c")
    case True
    then have "ix_ref ?x1 h = None" "blob_at (s_blobs s1) h = None" using g(2,3) h(2) by simp_all
    with nn bn show ?thesis by blast
  next
    case False
    then have "expired ?x1 now grace h" using g(2) h(2) by (simp add: expired_def)
    with ih False h(1) show ?thesis by auto
  qed
  with ih nn keep bn keepb show ?case by blast
qed simp

lemma gc_scan_all:
  "fold_cb (\<lambda>(h, r). gc_scan now grace h r) ps (st, cs) = ((st', cs'), e) \<Longrightarrow>
   e = None \<and> cs' = cs @ map fst (filter (\<lambda>p. collectable (snd p) now grace) ps)"
proof (induction ps arbitrary: st cs)
  case (Cons p ps)
  obtain h r where p: "p = (h, r)" by force
  obtain st1 cs1 where one: "gc_scan now grace h r (st, cs) = ((st1, cs1), None)" "cs1 = cs @ (if collectable r now grace then [h] else [])"
    by (auto simp: gc_scan_def Let_def)
  with Cons.prems p have "fold_cb (\<lambda>(h, r). gc_scan now grace h r) ps (st1, cs1) = ((st', cs'), e)" by simp
  from Cons.IH [OF this] one(2) p show ?case by auto
qed simp

lemma expired_candidate:
  assumes i: "idx_inv x" and w: "ix_walkRefs (gc_scan now grace) x (st, []) = ((st', cs), e)" and h: "expired x now grace h"
  shows "e = None" "h \<in> set cs"
proof -
  let ?ps = "map (\<lambda>p. (fst p, case snd p of Enc r \<Rightarrow> r | Bad \<Rightarrow> undefined)) (ix_refs x)"
  note s = gc_scan_all [OF w [unfolded ix_walkRefs_refs [OF i]]]
  then show "e = None" ..
  from h obtain r where r: "bk_get (ix_refs x) h = Some (Enc r)" "collectable r now grace"
    by (auto simp: expired_def ix_ref_def split: option.splits raw.splits)
  then have "(h, r) \<in> set ?ps" by (force dest: bk_get_in)
  with r(2) s show "h \<in> set cs" by force
qed

lemma orphan_scan_finds:
  assumes "idx_inv x"
  shows "fold_cb (orphan_scan x now grace) ws (st, vs) = ((st', vs'), e) \<Longrightarrow>
    e = None \<and> set vs \<subseteq> set vs' \<and> (\<forall>w \<in> set ws. \<not> wk_bad w \<longrightarrow> grace \<le> time_sub now (wk_mod w) \<longrightarrow>
      ix_ref x (wk_hash w) = None \<longrightarrow> wk_hash w \<in> fst ` set vs')"
proof (induction ws arbitrary: st vs)
  case (Cons w ws)
  obtain st1 vs1 e1 where o: "orphan_scan x now grace w (st, vs) = ((st1, vs1), e1)" by (metis prod.collapse)
  have one: "orphan_scan x now grace w (st, vs) = ((st1, vs1), None)" "set vs \<subseteq> set vs1"
    "\<not> wk_bad w \<Longrightarrow> grace \<le> time_sub now (wk_mod w) \<Longrightarrow> ix_ref x (wk_hash w) = None \<Longrightarrow> wk_hash w \<in> fst ` set vs1"
    using o by (auto simp: orphan_scan_def tx_refOf_ref [OF assms] split: if_splits option.splits)
  with Cons.prems have "fold_cb (orphan_scan x now grace) ws (st1, vs1) = ((st', vs'), e)" by simp
  from Cons.IH [OF this] one(2,3) show ?case by auto
qed simp

lemma orphan_fold_drops:
  "fold_cb (orphan_one G) vs (s, st) = ((s', st'), None) \<Longrightarrow>
   s_db s' = s_db s \<and> (\<forall>v \<in> set vs. blob_at (s_blobs s') (fst v) = None) \<and>
   (\<forall>h. blob_at (s_blobs s) h = None \<longrightarrow> blob_at (s_blobs s') h = None)"
proof (induction vs arbitrary: s st)
  case (Cons v vs)
  obtain fs e2 where rm: "blob_remove (ge_rm G (fst v)) (fst v) (s_blobs s) = (fs, e2)" by force
  have n: "e2 = None" using Cons.prems rm by (cases e2) (simp_all add: orphan_one_def)
  obtain st1 where one: "orphan_one G v (s, st) = ((s\<lparr>s_blobs := fs\<rparr>, st1), None)" using rm n by (simp add: orphan_one_def)
  have at: "blob_at fs = (blob_at (s_blobs s))(fst v := None)" using blob_remove_effect(1) [OF rm] n by simp
  have "fold_cb (orphan_one G) vs (s\<lparr>s_blobs := fs\<rparr>, st1) = ((s', st'), None)" using Cons.prems one by simp
  from Cons.IH [OF this] at show ?case by auto
qed simp

definition orphan_old :: "store \<Rightarrow> gotime \<Rightarrow> duration \<Rightarrow> string \<Rightarrow> bool" where
  "orphan_old s now grace h \<longleftrightarrow> ValidHash h \<and> ix_ref (db_file (s_db s)) h = None \<and>
     (\<forall>f. bk_get (bf_blobs (s_blobs s)) (blob_Path h) = Some f \<longrightarrow> grace \<le> time_sub now (f_mtime f))"

lemma collectOrphans_drops:
  assumes i: "idx_inv (db_file (s_db s))" and res: "collectOrphans G now grace (s, st) = ((s', st'), None)"
  shows "s_db s' = s_db s" "blob_at (s_blobs s) h = None \<Longrightarrow> blob_at (s_blobs s') h = None"
    "orphan_old s now grace h \<Longrightarrow> blob_at (s_blobs s') h = None"
proof -
  let ?x = "db_file (s_db s)"
  obtain st1 vs e1 where w: "blob_walk (orphan_scan ?x now grace) (s_blobs s) (st, []) = ((st1, vs), e1)" by (metis prod.collapse)
  note f = orphan_scan_finds [OF i w [unfolded blob_walk_def]]
  then have "fold_cb (orphan_one G) vs (s, st1) = ((s', st'), None)" using res w by (simp add: collectOrphans_def)
  note d = orphan_fold_drops [OF this]
  show "s_db s' = s_db s" using d by blast
  show k: "blob_at (s_blobs s) h = None \<Longrightarrow> blob_at (s_blobs s') h = None" for h using d by blast
  assume o: "orphan_old s now grace h"
  show "blob_at (s_blobs s') h = None"
  proof (cases "bk_get (bf_blobs (s_blobs s)) (blob_Path h)")
    case None
    then show ?thesis by (intro k) (simp add: blob_at_def)
  next
    case (Some b)
    then have "walk_item (blob_Path h, b) \<in> set (map walk_item (bf_blobs (s_blobs s)))" by (auto dest: bk_get_in)
    with f o Some have "h \<in> fst ` set vs"
      by (auto simp: orphan_old_def walk_item_def dest!: bspec [where x = "walk_item (blob_Path h, b)"])
    with d show ?thesis by auto
  qed
qed

lemma GC_drops:
  assumes i: "idx_inv (db_file (s_db s))" and res: "store_GC E G now took s = ((s', st'), None)"
  shows "expired (db_file (s_db s)) now (gc_grace (s_gc s)) h \<Longrightarrow> ix_ref (db_file (s_db s')) h = None \<and> blob_at (s_blobs s') h = None"
proof -
  let ?g = "gc_grace (s_gc s)" and ?x = "db_file (s_db s)"
  assume h: "expired ?x now ?g h"
  obtain st1 cs e1 where w: "ix_walkRefs (gc_scan now ?g) ?x (zero_gcStats, []) = ((st1, cs), e1)" by (metis prod.collapse)
  note c1 = expired_candidate [OF i w h]
  obtain s2 st2 e2 where c: "collectExpired E G now ?g (s, zero_gcStats) = ((s2, st2), e2)" by (metis prod.collapse)
  have e2: "e2 = None" using c res by (cases e2) (auto simp: store_GC_def)
  have "fold_cb (gc_one E G now ?g) cs (s, st1) = ((s2, st2), None)" using c w c1 e2 by (simp add: collectExpired_def)
  note d = gc_fold_drops [OF i this]
  obtain s3 st3 e3 where o: "collectOrphans G now ?g (s2, st2) = ((s3, st3), e3)" by (metis prod.collapse)
  have s3: "s' = s3" "e3 = None" using c o e2 res by (cases e3, auto simp: store_GC_def Let_def)+
  have i2: "idx_inv (db_file (s_db s2))" using d by blast
  note od = collectOrphans_drops [OF i2 o [unfolded s3(2)]]
  show "ix_ref (db_file (s_db s')) h = None \<and> blob_at (s_blobs s') h = None" using d c1(2) h od(1,2) s3(1) by auto
qed

lemma gc_fold_files:
  "idx_inv (db_file (s_db s)) \<Longrightarrow> fold_cb (gc_one E G now grace) cs (s, st) = ((s', st'), None) \<Longrightarrow>
   (bk_ok (bf_blobs (s_blobs s)) \<longrightarrow> bk_ok (bf_blobs (s_blobs s'))) \<and>
   (bk_ok (bf_blobs (s_blobs s)) \<longrightarrow> bk_get (bf_blobs (s_blobs s')) p = Some f \<longrightarrow> bk_get (bf_blobs (s_blobs s)) p = Some f)"
proof (induction cs arbitrary: s st)
  case (Cons c cs)
  obtain s1 st1 e1 where one: "gc_one E G now grace c (s, st) = ((s1, st1), e1)" by (metis prod.collapse)
  then have n: "e1 = None" using Cons.prems(2) by (cases e1) auto
  note g = gc_one_drops [OF Cons.prems(1) one [unfolded n]]
  obtain sz where sz: "blob_stat c (s_blobs s) = Inr sz"
    using one n by (cases "blob_stat c (s_blobs s)") (auto simp: gc_one_def)
  have "s_blobs s1 = s_blobs s \<or> s_blobs s1 = (s_blobs s)\<lparr>bf_blobs := bk_del (blob_Path c) (bf_blobs (s_blobs s))\<rparr>"
    using one n sz by (auto simp: gc_one_def blob_remove_def split: prod.splits sum.splits bool.splits option.splits if_splits)
  moreover note Cons.IH [OF g(1), of st1] one n Cons.prems(2)
  ultimately show ?case by (auto split: if_splits)
qed simp

lemma GC_drops_orphans:
  assumes i: "idx_inv (db_file (s_db s))" "bk_ok (bf_blobs (s_blobs s))" and res: "store_GC E G now took s = ((s', st'), None)"
    and h: "orphan_old s now (gc_grace (s_gc s)) h"
  shows "blob_at (s_blobs s') h = None"
proof -
  let ?g = "gc_grace (s_gc s)" and ?x = "db_file (s_db s)"
  obtain st1 cs e1 where w: "ix_walkRefs (gc_scan now ?g) ?x (zero_gcStats, []) = ((st1, cs), e1)" by (metis prod.collapse)
  have e1: "e1 = None" using gc_scan_all [OF w [unfolded ix_walkRefs_refs [OF i(1)]]] ..
  obtain s2 st2 e2 where c: "collectExpired E G now ?g (s, zero_gcStats) = ((s2, st2), e2)" by (metis prod.collapse)
  have e2: "e2 = None" using c res by (cases e2) (auto simp: store_GC_def)
  have f: "fold_cb (gc_one E G now ?g) cs (s, st1) = ((s2, st2), None)" using c w e1 e2 by (simp add: collectExpired_def)
  note d = gc_fold_drops [OF i(1) f] and files = gc_fold_files [OF i(1) f]
  obtain s3 st3 e3 where o: "collectOrphans G now ?g (s2, st2) = ((s3, st3), e3)" by (metis prod.collapse)
  have s3: "s' = s3" "e3 = None" using c o e2 res by (cases e3, auto simp: store_GC_def Let_def)+
  have i2: "idx_inv (db_file (s_db s2))" using d by blast
  have "orphan_old s2 now ?g h" using h d files i(2) by (auto simp: orphan_old_def)
  from collectOrphans_drops(3) [OF i2 o [unfolded s3(2)] this] s3(1) show ?thesis by simp
qed

subsection \<open>A pass whose system calls succeed returns\<close>

definition gc_free :: "gcenv \<Rightarrow> bool" where
  "gc_free G \<longleftrightarrow> (\<forall>h. ge_commit G h \<and> ge_rm G h \<and> ge_app G h = None)"

lemma gc_one_returns:
  assumes good: "gc_good E m s" and fits: "gc_fits E G" and free: "gc_free G"
    and room: "Suc (unat (j_last (s_jrnl s))) < 2 ^ 64" and h: "ValidHash h"
  shows "\<exists>s' st'. gc_one E G now grace h (s, st) = ((s', st'), None)"
proof -
  let ?x = "db_file (s_db s)"
  have inv: "store_inv E s" using good by (simp add: gc_good_def)
  have i: "idx_inv ?x" and ji: "journal_inv E (s_jrnl s)" using inv by (simp_all add: store_inv_def rec_index_ok_def index_ok_def)
  have "(gc_record h)\<lparr>r_time := ge_clock G h, r_seq := j_last (s_jrnl s) + 1\<rparr> = stamp_rec (ge_clock G h) (s_jrnl s) (gc_record h)"
    by (simp add: stamp_rec_def gc_record_def time_is_zero_def)
  then have "line_ok E (stamp_rec (ge_clock G h) (s_jrnl s) (gc_record h))" using fits h by (metis gc_fits_def)
  from jappend_succeeds [OF ji room this] obtain j where
    j: "jappend E None (ge_clock G h) (gc_record h) (s_jrnl s) = (j, Inr (j_last (s_jrnl s) + 1))" ..
  obtain sz where sz: "blob_stat h (s_blobs s) = Inr sz" using h by (simp add: blob_stat_def)
  obtain fs where rm: "blob_remove True h (s_blobs s) = (fs, None)" using h by (cases "bk_get (bf_blobs (s_blobs s)) (blob_Path h)") (auto simp: blob_remove_def)
  obtain b x' where body: "gc_drop_body now grace h ?x = Inr (b, x')"
    by (cases "ix_ref ?x h"; cases "expired ?x now grace h")
      (auto simp: gc_drop_body_def tx_refOf_ref [OF i] tx_dropRef_def expired_def)
  have f: "ge_commit G h" "ge_rm G h" "ge_app G h = None" using free by (auto simp: gc_free_def)
  then have up: "db_update (ge_commit G h) (gc_drop_body now grace h) (s_db s) = ((s_db s)\<lparr>db_file := x'\<rparr>, Inr b)"
    using body by (simp add: db_update_Inr)
  show ?thesis using sz up rm j f by (cases b) (simp_all add: gc_one_def)
qed

lemma gc_fold_returns:
  "gc_good E m s \<Longrightarrow> gc_fits E G \<Longrightarrow> gc_free G \<Longrightarrow> unat (j_last (s_jrnl s)) + length cs < 2 ^ 64 - 1 \<Longrightarrow>
   \<forall>h \<in> set cs. ValidHash h \<Longrightarrow> \<exists>s' st'. fold_cb (gc_one E G now grace) cs (s, st) = ((s', st'), None)"
proof (induction cs arbitrary: s st)
  case (Cons c cs)
  have room: "Suc (unat (j_last (s_jrnl s))) < 2 ^ 64" using Cons.prems(4) by simp
  have "ValidHash c" using Cons.prems(5) by simp
  from gc_one_returns [OF Cons.prems(1-3) room this] obtain s1 st1 where
    one: "gc_one E G now grace c (s, st) = ((s1, st1), None)" by blast
  note g = gc_one_good [OF Cons.prems(1,2) room one]
  have n: "unat (j_last (s_jrnl s1)) + length cs < 2 ^ 64 - 1" using g(2) Cons.prems(4) by simp
  from Cons.IH [OF g(1) Cons.prems(2,3) n, of st1] Cons.prems(5) one show ?case by auto
qed simp

lemma orphan_fold_returns:
  "gc_free G \<Longrightarrow> \<forall>v \<in> set vs. ValidHash (fst v) \<Longrightarrow> \<exists>s' st'. fold_cb (orphan_one G) vs (s, st) = ((s', st'), None)"
proof (induction vs arbitrary: s st)
  case (Cons v vs)
  then obtain fs where "blob_remove (ge_rm G (fst v)) (fst v) (s_blobs s) = (fs, None)"
    by (cases "bk_get (bf_blobs (s_blobs s)) (blob_Path (fst v))") (auto simp: blob_remove_def gc_free_def)
  then obtain s1 st1 where "orphan_one G v (s, st) = ((s1, st1), None)" by (simp add: orphan_one_def)
  with Cons.IH [of s1 st1] Cons.prems show ?case by simp
qed simp

lemma candidates_refs:
  assumes i: "idx_inv x" and w: "ix_walkRefs (gc_scan now grace) x (st, []) = ((st', cs), e)"
  shows "e = None \<and> length cs \<le> length (ix_refs x) \<and> (\<forall>h \<in> set cs. ix_ref x h \<noteq> None)"
proof -
  note s = gc_scan_all [OF w [unfolded ix_walkRefs_refs [OF i]]]
  have "ix_ref x (fst p) \<noteq> None" if "p \<in> set (ix_refs x)" for p
    using idx_invD(4) [OF i] bk_get_iff [of "ix_refs x" "fst p" "snd p"] that
    by (fastforce simp: refs_ok_def ix_ref_def split: option.splits raw.splits)
  with s show ?thesis by (auto intro: order_trans [OF length_filter_le])
qed

lemma GC_returns:
  assumes good: "gc_good E m s" and fits: "gc_fits E G" and free: "gc_free G"
    and room: "unat (j_last (s_jrnl s)) + length (ix_refs (db_file (s_db s))) < 2 ^ 64 - 1"
    and valid: "\<forall>h. ix_ref (db_file (s_db s)) h \<noteq> None \<longrightarrow> ValidHash h"
  shows "\<exists>s' st'. store_GC E G now took s = ((s', st'), None)"
proof -
  let ?g = "gc_grace (s_gc s)" and ?x = "db_file (s_db s)"
  have i: "idx_inv ?x" using good by (simp add: gc_good_def store_inv_def rec_index_ok_def index_ok_def)
  obtain st1 cs e1 where w: "ix_walkRefs (gc_scan now ?g) ?x (zero_gcStats, []) = ((st1, cs), e1)" by (metis prod.collapse)
  note cr = candidates_refs [OF i w]
  have n: "unat (j_last (s_jrnl s)) + length cs < 2 ^ 64 - 1" using cr room by linarith
  have v: "\<forall>h \<in> set cs. ValidHash h" using cr valid by blast
  from gc_fold_returns [OF good fits free n v, of now ?g st1] obtain s2 st2 where
    f: "fold_cb (gc_one E G now ?g) cs (s, st1) = ((s2, st2), None)" by blast
  then have c: "collectExpired E G now ?g (s, zero_gcStats) = ((s2, st2), None)" using w cr by (simp add: collectExpired_def)
  note g2 = gc_fold_good [OF good fits n f]
  have i2: "idx_inv (db_file (s_db s2))" using g2 by (simp add: gc_good_def store_inv_def rec_index_ok_def index_ok_def)
  obtain st3 vs e3 where bw: "blob_walk (orphan_scan (db_file (s_db s2)) now ?g) (s_blobs s2) (st2, []) = ((st3, vs), e3)"
    by (metis prod.collapse)
  have e3: "e3 = None" using orphan_scan_finds [OF i2 bw [unfolded blob_walk_def]] by blast
  have "\<forall>v \<in> set vs. ValidHash (fst v)"
    using orphan_scan_victims [OF i2 walk_items_bad bw [unfolded blob_walk_def]] by auto
  from orphan_fold_returns [OF free this, of s2 st3] obtain s3 st4 where
    "fold_cb (orphan_one G) vs (s2, st3) = ((s3, st4), None)" by blast
  then have "collectOrphans G now ?g (s2, st2) = ((s3, st4), None)" using bw e3 by (simp add: collectOrphans_def)
  with c show ?thesis by (simp add: store_GC_def Let_def)
qed

end
