(* ===== verification/Multipart.thy ===== *)
theory Multipart
  imports Durability
begin

text \<open>
  internal/store/multipart.go: uploads in progress.  An upload is a record in the index
  metadata under \<open>mpu/<bucket>/<id>\<close>; each part is a blob with a reference of its own.
  An operation runs several index transactions, and \<open>ok\<close> says which of them commit.
  The lemmas show that parts keep the reference counts exact, that completing an
  upload stores the concatenation of its parts, and that one bucket's uploads are out
  of reach of another.
\<close>

definition uploadPrefix :: string where "uploadPrefix = ''mpu/''"
definition maxParts :: int where "maxParts = 10000"

definition uploadKey :: "string \<Rightarrow> string \<Rightarrow> string" where
  "uploadKey bucket ident = uploadPrefix @ bucket @ ''/'' @ ident"

definition parts_put :: "int \<Rightarrow> uploadPart \<Rightarrow> (int \<times> uploadPart) list \<Rightarrow> (int \<times> uploadPart) list" where
  "parts_put n p ps = (n, p) # filter (\<lambda>q. fst q \<noteq> n) ps"

definition saveUpload :: "env \<Rightarrow> bool \<Rightarrow> upload \<Rightarrow> store \<Rightarrow> store \<times> gerr option" where
  "saveUpload E ok u s =
     (case db_update ok (unit_tx (tx_setMeta E (uploadKey (u_bucket u) (u_id u)) (MUpload u))) (s_db s) of
        (d, Inl e) \<Rightarrow> (s\<lparr>s_db := d\<rparr>, Some e)
      | (d, Inr _) \<Rightarrow> (s\<lparr>s_db := d\<rparr>, None))"

definition loadUpload :: "string \<Rightarrow> string \<Rightarrow> store \<Rightarrow> gerr + upload" where
  "loadUpload bucket ident s =
     (if store_Bucket s bucket = None then Inl (ErrNoSuchBucket bucket)
      else
        case db_meta (uploadKey bucket ident) (s_db s) of
          None \<Rightarrow> Inl (ErrNoSuchUpload bucket ident)
        | Some (MBytes raw) \<Rightarrow>
            if raw = [] then Inl (ErrNoSuchUpload bucket ident)
            else Inl (Errf ''store: corrupt upload record'')
        | Some (MUpload u) \<Rightarrow> Inr u)"

definition releaseBlob :: "env \<Rightarrow> bool \<Rightarrow> gotime \<Rightarrow> string \<Rightarrow> store \<Rightarrow> store \<times> gerr option" where
  "releaseBlob E ok now hash s =
     (case db_update ok (tx_ref E hash (- 1) now) (s_db s) of
        (d, Inl e) \<Rightarrow> (s\<lparr>s_db := d\<rparr>, Some e)
      | (d, Inr _) \<Rightarrow> (s\<lparr>s_db := d\<rparr>, None))"

text \<open>\<open>raw\<close> is what \<open>crypto/rand\<close> delivers, in hexadecimal, or its failure.\<close>

definition CreateUpload ::
    "env \<Rightarrow> bool \<Rightarrow> string option \<Rightarrow> gotime \<Rightarrow> string \<Rightarrow> string \<Rightarrow> store \<Rightarrow> store \<times> (gerr + upload)" where
  "CreateUpload E ok raw now bucket key s =
     (if store_Bucket s bucket = None then (s, Inl (ErrNoSuchBucket bucket))
      else if key = [] then (s, Inl (Errf ''store: empty key''))
      else
        case raw of
          None \<Rightarrow> (s, Inl (Errf ''store: upload id''))
        | Some ident \<Rightarrow>
            let u = \<lparr>u_bucket = bucket, u_key = key, u_id = ident, u_initiated = now, u_parts = []\<rparr> in
            (case saveUpload E ok u s of
               (s1, Some e) \<Rightarrow> (s1, Inl e)
             | (s1, None) \<Rightarrow> (s1, Inr u)))"

text \<open>The bookkeeping of one part, after its blob is stored.\<close>

definition part_record ::
    "env \<Rightarrow> (nat \<Rightarrow> bool) \<Rightarrow> (nat \<Rightarrow> gotime) \<Rightarrow> upload \<Rightarrow> int \<Rightarrow> blobInfo \<Rightarrow> store \<Rightarrow> store \<times> (gerr + uploadPart)" where
  "part_record E ok clock u number info s =
     (case db_update (ok 0) (tx_ref E (bi_hash info) 1 (clock 0)) (s_db s) of
        (d, Inl e) \<Rightarrow> (s\<lparr>s_db := d\<rparr>, Inl e)
      | (d, Inr _) \<Rightarrow>
          let s1 = s\<lparr>s_db := d\<rparr> in
          (case (case map_of (u_parts u) number of
                   None \<Rightarrow> (s1, None)
                 | Some old \<Rightarrow> releaseBlob E (ok 1) (clock 1) (p_hash old) s1) of
             (s2, Some e) \<Rightarrow> (s2, Inl e)
           | (s2, None) \<Rightarrow>
               let part = \<lparr>p_hash = bi_hash info, p_etag = bi_md5 info, p_size = bi_size info, p_uploaded = clock 2\<rparr>;
                   u' = u\<lparr>u_parts := parts_put number part (u_parts u)\<rparr> in
               (case saveUpload E (ok 2) u' s2 of
                  (s3, Some e) \<Rightarrow> (s3, Inl e)
                | (s3, None) \<Rightarrow> (s3, Inr part))))"

definition UploadPart ::
    "env \<Rightarrow> sysenv \<Rightarrow> (nat \<Rightarrow> bool) \<Rightarrow> (nat \<Rightarrow> gotime) \<Rightarrow> string \<Rightarrow> string \<Rightarrow> int \<Rightarrow> reader \<Rightarrow> store \<Rightarrow>
     store \<times> (gerr + uploadPart)" where
  "UploadPart E sy ok clock bucket ident number r s =
     (if number < 1 \<or> maxParts < number then (s, Inl (Errf ''store: part number out of range''))
      else
        case loadUpload bucket ident s of
          Inl e \<Rightarrow> (s, Inl e)
        | Inr u \<Rightarrow>
            (case blob_put E (sy_blob sy) (sy_clock sy 0) (sy_tmp sy) r (s_blobs s) of
               (fs, Inl e) \<Rightarrow> (s\<lparr>s_blobs := fs\<rparr>, Inl e)
             | (fs, Inr info) \<Rightarrow> part_record E ok clock u number info (s\<lparr>s_blobs := fs\<rparr>)))"

text \<open>The loop of \<open>discardUpload\<close> over the parts, then the removal of the record.\<close>

fun release_parts :: "env \<Rightarrow> (nat \<Rightarrow> bool) \<Rightarrow> (nat \<Rightarrow> gotime) \<Rightarrow> nat \<Rightarrow> (int \<times> uploadPart) list \<Rightarrow> store \<Rightarrow> store \<times> gerr option" where
  "release_parts E ok clock i [] s = (s, None)"
| "release_parts E ok clock i (p # ps) s =
     (case releaseBlob E (ok i) (clock i) (p_hash (snd p)) s of
        (s1, Some e) \<Rightarrow> (s1, Some e)
      | (s1, None) \<Rightarrow> release_parts E ok clock (Suc i) ps s1)"

definition discardUpload :: "env \<Rightarrow> (nat \<Rightarrow> bool) \<Rightarrow> (nat \<Rightarrow> gotime) \<Rightarrow> upload \<Rightarrow> store \<Rightarrow> store \<times> gerr option" where
  "discardUpload E ok clock u s =
     (case release_parts E ok clock 0 (u_parts u) s of
        (s1, Some e) \<Rightarrow> (s1, Some e)
      | (s1, None) \<Rightarrow>
          (case db_update (ok (length (u_parts u))) (unit_tx (tx_delMeta (uploadKey (u_bucket u) (u_id u)))) (s_db s1) of
             (d, Inl e) \<Rightarrow> (s1\<lparr>s_db := d\<rparr>, Some e)
           | (d, Inr _) \<Rightarrow> (s1\<lparr>s_db := d\<rparr>, None)))"

definition AbortUpload ::
    "env \<Rightarrow> (nat \<Rightarrow> bool) \<Rightarrow> (nat \<Rightarrow> gotime) \<Rightarrow> string \<Rightarrow> string \<Rightarrow> store \<Rightarrow> store \<times> gerr option" where
  "AbortUpload E ok clock bucket ident s =
     (case loadUpload bucket ident s of
        Inl e \<Rightarrow> (s, Some e)
      | Inr u \<Rightarrow> discardUpload E ok clock u s)"

definition ListParts :: "string \<Rightarrow> string \<Rightarrow> store \<Rightarrow> gerr + (upload \<times> int list)" where
  "ListParts bucket ident s = res_bind (loadUpload bucket ident s) (\<lambda>u. Inr (u, sort (map fst (u_parts u))))"

definition uploads_cb :: "string \<times> metaval \<Rightarrow> upload list \<Rightarrow> upload list \<times> gerr option" where
  "uploads_cb kv out = (case snd kv of MUpload u \<Rightarrow> (out @ [u], None) | MBytes _ \<Rightarrow> (out, Some (Errf ''json: upload'')))"

definition ListUploads :: "string \<Rightarrow> store \<Rightarrow> upload list \<times> gerr option" where
  "ListUploads bucket s =
     (if store_Bucket s bucket = None then ([], Some (ErrNoSuchBucket bucket))
      else case tx_walkMeta (uploadPrefix @ bucket @ ''/'') uploads_cb (db_file (s_db s)) [] of
             (out, e) \<Rightarrow> (sort_key u_initiated out, e))"

subsection \<open>Completion\<close>

definition trimETag :: "string \<Rightarrow> string" where
  "trimETag s =
     (if length s \<ge> 2 \<and> hd s = CHR 0x22 \<and> last s = CHR 0x22 then butlast (tl s) else s)"

definition etagEqual :: "string \<Rightarrow> string \<Rightarrow> bool" where
  "etagEqual a b \<longleftrightarrow> trimETag a = trimETag b"

definition hex_val :: "char \<Rightarrow> nat option" where
  "hex_val c =
     (let n = (of_char c :: nat) in
      if is_digit c then Some (n - 48)
      else if 97 \<le> n \<and> n \<le> 102 then Some (n - 87)
      else if 65 \<le> n \<and> n \<le> 70 then Some (n - 55)
      else None)"

fun hex_decode :: "string \<Rightarrow> string option" where
  "hex_decode [] = Some []"
| "hex_decode [c] = None"
| "hex_decode (a # b # s) =
     (case (hex_val a, hex_val b, hex_decode s) of
        (Some x, Some y, Some t) \<Rightarrow> Some (char_of (16 * x + y) # t)
      | _ \<Rightarrow> None)"

record completedPart =
  cp_number :: int
  cp_etag :: string

text \<open>The loop that checks the listed parts: their contents in order, and the digests to sum.\<close>

fun gather_parts :: "upload \<Rightarrow> blobfs \<Rightarrow> completedPart list \<Rightarrow> gerr + (string \<times> string)" where
  "gather_parts u fs [] = Inr ([], [])"
| "gather_parts u fs (p # ps) =
     (case map_of (u_parts u) (cp_number p) of
        None \<Rightarrow> Inl (ErrInvalidPart (cp_number p))
      | Some got \<Rightarrow>
          if \<not> etagEqual (p_etag got) (cp_etag p) then Inl (ErrInvalidPart (cp_number p))
          else
            res_bind (blob_open (p_hash got) fs) (\<lambda>data.
              case hex_decode (p_etag got) of
                None \<Rightarrow> Inl (Errf ''store: unreadable part etag'')
              | Some raw \<Rightarrow>
                  res_bind (gather_parts u fs ps) (\<lambda>(datas, raws). Inr (data @ datas, raw @ raws))))"

definition complete_etag :: "env \<Rightarrow> string \<Rightarrow> nat \<Rightarrow> string" where
  "complete_etag E raws n = md5_hex E raws @ ''-'' @ format_nat n"

definition CompleteUpload ::
    "env \<Rightarrow> sysenv \<Rightarrow> (nat \<Rightarrow> bool) \<Rightarrow> (nat \<Rightarrow> gotime) \<Rightarrow> string \<Rightarrow> string \<Rightarrow> completedPart list \<Rightarrow> store \<Rightarrow>
     store \<times> (gerr + entry)" where
  "CompleteUpload E sy ok clock bucket ident parts s =
     (case loadUpload bucket ident s of
        Inl e \<Rightarrow> (s, Inl e)
      | Inr u \<Rightarrow>
          if parts = [] then (s, Inl (Errf ''store: completion listed no parts''))
          else
            (case gather_parts u (s_blobs s) (sort_key cp_number parts) of
               Inl e \<Rightarrow> (s, Inl e)
             | Inr (datas, raws) \<Rightarrow>
                 (case store_PutWith E sy bucket (u_key u) (datas, None)
                         \<lparr>po_mtime = 0, po_etag = complete_etag E raws (length parts), po_expectHash = []\<rparr> s of
                    (s1, Inl e) \<Rightarrow> (s1, Inl e)
                  | (s1, Inr entry) \<Rightarrow>
                      (case discardUpload E ok clock u s1 of
                         (s2, Some e) \<Rightarrow> (s2, Inl e)
                       | (s2, None) \<Rightarrow> (s2, Inr entry)))))"

subsection \<open>Uploads of different buckets are apart\<close>

lemma uploadKey_inject:
  assumes "CHR ''/'' \<notin> set b" "CHR ''/'' \<notin> set b'"
  shows "uploadKey b i = uploadKey b' i' \<longleftrightarrow> b = b' \<and> i = i'"
proof
  assume "uploadKey b i = uploadKey b' i'"
  then have "b @ CHR ''/'' # i = b' @ CHR ''/'' # i'" by (simp add: uploadKey_def)
  then have "cut_at (CHR ''/'') (b @ CHR ''/'' # i) = cut_at (CHR ''/'') (b' @ CHR ''/'' # i')" by simp
  then show "b = b' \<and> i = i'" using assms by (simp add: cut_at_append)
qed simp

lemma uploadKey_meta [simp]: "uploadKey b i \<noteq> appliedSeqKey" "uploadKey b i \<noteq> versionKey"
  by (simp_all add: uploadKey_def uploadPrefix_def appliedSeqKey_def versionKey_def)

lemmas uploadKey_meta' [simp] = uploadKey_meta [THEN not_sym]

subsection \<open>Parts and reference counts\<close>

definition part_holds :: "string \<Rightarrow> (int \<times> uploadPart) list \<Rightarrow> int" where
  "part_holds h ps = int (length (filter (\<lambda>p. p_hash (snd p) = h) ps))"

lemma part_holds_simps [simp]:
  "part_holds h [] = 0" "part_holds h (p # ps) = (if p_hash (snd p) = h then 1 else 0) + part_holds h ps"
  by (simp_all add: part_holds_def)

lemma part_w_upload: "part_w h (MUpload u) = part_holds h (u_parts u)"
  by (simp add: part_holds_def)

lemma part_holds_remove:
  assumes "distinct (map fst ps)"
  shows "part_holds h (filter (\<lambda>q. fst q \<noteq> n) ps) =
    part_holds h ps - (case map_of ps n of None \<Rightarrow> 0 | Some p \<Rightarrow> if p_hash p = h then 1 else 0)"
  using assms
proof (induction ps)
  case (Cons q ps)
  show ?case
  proof (cases "fst q = n")
    case True
    with Cons.prems have "map_of ps n = None" "\<forall>p \<in> set ps. fst p \<noteq> n"
      by (auto simp: map_of_eq_None_iff rev_image_eqI)
    then have "filter (\<lambda>q. fst q \<noteq> n) ps = ps" by (simp add: filter_id_conv)
    with True show ?thesis by (cases q) simp
  next
    case False
    with Cons show ?thesis by (cases q) (simp split: option.split)
  qed
qed simp

text \<open>What the metadata must be: every upload in its own place, with distinct part numbers.\<close>

definition uploads_ok :: "idx \<Rightarrow> bool" where
  "uploads_ok x \<longleftrightarrow> (\<forall>k u. tx_meta k x = Some (MUpload u) \<longrightarrow> k = uploadKey (u_bucket u) (u_id u) \<and> distinct (map fst (u_parts u)))"

text \<open>The invariant less the balance of references: \<open>debt h\<close> more references than holders.\<close>

definition refs_off :: "(string \<Rightarrow> int) \<Rightarrow> idx \<Rightarrow> bool" where
  "refs_off debt x \<longleftrightarrow> (\<forall>h. h \<noteq> [] \<longrightarrow> refc x h = of_int (int (key_count x h) + part_count x h + debt h))"

lemma refs_off_zero: "refs_off (\<lambda>_. 0) x \<longleftrightarrow> refs_inv x"
  by (simp add: refs_off_def refs_inv_def)

definition meta_ok :: "env \<Rightarrow> idx \<Rightarrow> bool" where
  "meta_ok E x \<longleftrightarrow> rec_index_ok E x \<and> uploads_ok x"

lemma ref_step:
  assumes inv: "meta_ok E x" "refs_off debt x" and now: "\<not> time_is_zero now"
    and res: "tx_ref E h d now x = Inr (n, x')" and d: "d = of_int z"
  shows "meta_ok E x'" "refs_off (debt(h := debt h + z)) x'" "sabs x' = sabs x" "ix_meta x' = ix_meta x"
    "key_count x' = key_count x"
proof -
  have i: "idx_inv x" using inv by (simp add: meta_ok_def rec_index_ok_def index_ok_def)
  note t = tx_ref_Inr [OF i now res] and c = tx_ref_refc [OF i now res]
  show "meta_ok E x'"
    using inv t by (simp add: meta_ok_def rec_index_ok_def index_ok_def hashes_ok_def applied_ok_def tx_meta_def uploads_ok_def)
  show kc: "key_count x' = key_count x" by (simp add: key_count_def t(4) fun_eq_iff)
  show "refs_off (debt(h := debt h + z)) x'"
    using inv(2) unfolding refs_off_def kc part_count_other [OF t(5)] by (simp add: c d)
  show "sabs x' = sabs x" by (simp add: sabs_def t(4) fun_eq_iff)
  show "ix_meta x' = ix_meta x" by (rule t(5))
qed

lemma save_step:
  assumes inv: "meta_ok E x" "refs_off debt x" and u: "distinct (map fst (u_parts u))"
    and res: "tx_setMeta E (uploadKey (u_bucket u) (u_id u)) (MUpload u) x = Inr x'"
  shows "meta_ok E x'" "sabs x' = sabs x"
    "refs_off (\<lambda>h. debt h - part_holds h (u_parts u) +
       (case tx_meta (uploadKey (u_bucket u) (u_id u)) x of Some v \<Rightarrow> part_w h v | None \<Rightarrow> 0)) x'"
proof -
  let ?k = "uploadKey (u_bucket u) (u_id u)"
  have i: "idx_inv x" using inv by (simp add: meta_ok_def rec_index_ok_def index_ok_def)
  note t = tx_setMeta_Inr [OF i res]
  show "sabs x' = sabs x" by (simp add: sabs_def t(3) fun_eq_iff)
  show "meta_ok E x'"
    using inv t(1,3,4) u unfolding meta_ok_def rec_index_ok_def index_ok_def hashes_ok_def applied_ok_def uploads_ok_def
    by (auto simp: t(2))
  have kc: "key_count x' = key_count x" by (simp add: key_count_def t(3) fun_eq_iff)
  have m: "ix_meta x' = bk_put ?k (MUpload u) (ix_meta x)"
    using res by (auto simp: tx_setMeta_def res_bind_Inr kv_put_Inr)
  have pc: "part_count x' h = part_count x h - opt_weight (part_w h) (tx_meta ?k x) + part_holds h (u_parts u)" for h
    using idx_invD(7) [OF i] by (simp add: part_count_def m bks.total_upd tx_meta_def part_w_upload del: part_w.simps)
  show "refs_off (\<lambda>h. debt h - part_holds h (u_parts u) + (case tx_meta ?k x of Some v \<Rightarrow> part_w h v | None \<Rightarrow> 0)) x'"
    using inv(2) unfolding refs_off_def kc pc
    by (simp add: refc_other [OF t(4)] opt_weight_def algebra_simps split: option.split)
qed

lemma del_step:
  assumes inv: "meta_ok E x" "refs_off debt x" and u: "tx_meta k x = Some (MUpload u)"
    and res: "tx_delMeta k x = Inr x'"
  shows "meta_ok E x'" "sabs x' = sabs x" "refs_off (\<lambda>h. debt h + part_holds h (u_parts u)) x'"
proof -
  have i: "idx_inv x" using inv by (simp add: meta_ok_def rec_index_ok_def index_ok_def)
  note t = tx_delMeta_Inr [OF i res]
  have k: "k = uploadKey (u_bucket u) (u_id u)" using inv u by (simp add: meta_ok_def uploads_ok_def)
  show "sabs x' = sabs x" by (simp add: sabs_def t(3) fun_eq_iff)
  show "meta_ok E x'"
    using inv t(1,3,4) unfolding meta_ok_def rec_index_ok_def index_ok_def hashes_ok_def applied_ok_def uploads_ok_def
    by (auto simp: t(2) k split: option.splits)
  have kc: "key_count x' = key_count x" by (simp add: key_count_def t(3) fun_eq_iff)
  have m: "ix_meta x' = bk_del k (ix_meta x)" using res by (auto simp: tx_delMeta_def)
  have pc: "part_count x' h = part_count x h - part_holds h (u_parts u)" for h
    using idx_invD(7) [OF i] u by (simp add: part_count_def m bks.total_del tx_meta_def part_w_upload del: part_w.simps)
  show "refs_off (\<lambda>h. debt h + part_holds h (u_parts u)) x'"
    using inv(2) unfolding refs_off_def kc pc by (simp add: refc_other [OF t(4)] algebra_simps)
qed

subsection \<open>What the operations do\<close>

text \<open>Transactions that leave the objects and the journal position alone keep the store's invariant.\<close>

lemma store_inv_meta:
  assumes inv: "store_inv E s" and same: "s_jrnl s' = s_jrnl s" "\<And>h. blob_at (s_blobs s) h \<noteq> None \<Longrightarrow> blob_at (s_blobs s') h \<noteq> None"
    and x': "rec_index_ok E (db_file (s_db s'))" "sabs (db_file (s_db s')) = sabs (db_file (s_db s))"
      "tx_meta appliedSeqKey (db_file (s_db s')) = tx_meta appliedSeqKey (db_file (s_db s))"
    and bi: "blob_inv E (s_blobs s')"
  shows "store_inv E s'" "store_spec E s' = store_spec E s" "in_step E s \<Longrightarrow> in_step E s'"
proof -
  show sp: "store_spec E s' = store_spec E s" by (simp add: store_spec_def same)
  have ap: "appliedSeq (s_db s') = appliedSeq (s_db s)" by (simp add: appliedSeq_def db_meta_def x'(3))
  have "blob_at (s_blobs s') (ov_hash v) \<noteq> None" if "store_spec E s p = Some v" for p v
    using store_inv_blob [OF inv that] same(2) by auto
  then show "store_inv E s'"
    using inv bi x' unfolding store_inv_def sp ap same(1) by auto
  show "in_step E s \<Longrightarrow> in_step E s'" by (simp add: in_step_def sp x'(2))
qed

lemma store_db_upd: "(t :: store) = s\<lparr>s_db := d\<rparr> \<Longrightarrow> t\<lparr>s_db := X\<rparr> = s\<lparr>s_db := X\<rparr>"
  by simp

lemma release_step:
  assumes inv: "meta_ok E (db_file (s_db s))" "refs_off debt (db_file (s_db s))" and now: "\<not> time_is_zero now"
    and res: "releaseBlob E ok now h s = (s', None)"
  shows "meta_ok E (db_file (s_db s'))" "refs_off (debt(h := debt h - 1)) (db_file (s_db s'))"
    "sabs (db_file (s_db s')) = sabs (db_file (s_db s))" "ix_meta (db_file (s_db s')) = ix_meta (db_file (s_db s))"
    "s' = s\<lparr>s_db := s_db s'\<rparr>"
proof -
  obtain n x' where r: "tx_ref E h (- 1) now (db_file (s_db s)) = Inr (n, x')" and s': "s' = s\<lparr>s_db := (s_db s)\<lparr>db_file := x'\<rparr>\<rparr>"
    using res by (auto simp: releaseBlob_def db_update_def split: sum.splits if_splits prod.splits)
  have m: "(- 1 :: i64) = of_int (- 1)" by simp
  note t = ref_step [OF inv now r m]
  show "meta_ok E (db_file (s_db s'))" "refs_off (debt(h := debt h - 1)) (db_file (s_db s'))"
    "sabs (db_file (s_db s')) = sabs (db_file (s_db s))" "ix_meta (db_file (s_db s')) = ix_meta (db_file (s_db s))"
    "s' = s\<lparr>s_db := s_db s'\<rparr>"
    using t by (simp_all add: s')
qed

lemma release_parts_step:
  assumes clock: "\<And>i. \<not> time_is_zero (clock i)"
  shows "meta_ok E (db_file (s_db s)) \<Longrightarrow> refs_off debt (db_file (s_db s)) \<Longrightarrow>
    release_parts E ok clock i ps s = (s', None) \<Longrightarrow>
    meta_ok E (db_file (s_db s')) \<and> refs_off (\<lambda>h. debt h - part_holds h ps) (db_file (s_db s')) \<and>
    sabs (db_file (s_db s')) = sabs (db_file (s_db s)) \<and> ix_meta (db_file (s_db s')) = ix_meta (db_file (s_db s)) \<and>
    s' = s\<lparr>s_db := s_db s'\<rparr>"
proof (induction ps arbitrary: s i debt)
  case (Cons p ps)
  obtain s1 e1 where one: "releaseBlob E (ok i) (clock i) (p_hash (snd p)) s = (s1, e1)" by force
  with Cons.prems(3) have n: "e1 = None" "release_parts E ok clock (Suc i) ps s1 = (s', None)" by (cases e1; simp)+
  note t = release_step [OF Cons.prems(1,2) clock one [unfolded n]]
  have "(\<lambda>h. (debt(p_hash (snd p) := debt (p_hash (snd p)) - 1)) h - part_holds h ps) = (\<lambda>h. debt h - part_holds h (p # ps))"
    by (auto simp: fun_eq_iff)
  with Cons.IH [OF t(1,2) n(2)] t(3-5) show ?case by (metis store.update_convs(3) store.surjective)
qed simp

lemma discard_step:
  assumes inv: "meta_ok E (db_file (s_db s))" "refs_inv (db_file (s_db s))" and clock: "\<And>i. \<not> time_is_zero (clock i)"
    and u: "tx_meta (uploadKey (u_bucket u) (u_id u)) (db_file (s_db s)) = Some (MUpload u)"
    and res: "discardUpload E ok clock u s = (s', None)"
  shows "meta_ok E (db_file (s_db s'))" "refs_inv (db_file (s_db s'))" "sabs (db_file (s_db s')) = sabs (db_file (s_db s))"
    "tx_meta k (db_file (s_db s')) = (if k = uploadKey (u_bucket u) (u_id u) then None else tx_meta k (db_file (s_db s)))"
    "s' = s\<lparr>s_db := s_db s'\<rparr>"
proof -
  let ?k = "uploadKey (u_bucket u) (u_id u)"
  obtain s1 e1 where rel: "release_parts E ok clock 0 (u_parts u) s = (s1, e1)" by force
  then have e1: "e1 = None" using res by (cases e1) (simp_all add: discardUpload_def)
  obtain x' where del: "tx_delMeta ?k (db_file (s_db s1)) = Inr x'" and s': "s' = s1\<lparr>s_db := (s_db s1)\<lparr>db_file := x'\<rparr>\<rparr>"
    using res rel e1 by (auto simp: discardUpload_def db_update_def unit_tx_def res_bind_Inr split: sum.splits if_splits prod.splits)
  have off: "refs_off (\<lambda>_. 0) (db_file (s_db s))" using inv(2) by (simp add: refs_off_zero)
  note t = release_parts_step [OF clock inv(1) off rel [unfolded e1]]
  have u1: "tx_meta ?k (db_file (s_db s1)) = Some (MUpload u)" using t u by (simp add: tx_meta_def)
  have d: "meta_ok E x'" "sabs x' = sabs (db_file (s_db s1))" "refs_off (\<lambda>h. 0 - part_holds h (u_parts u) + part_holds h (u_parts u)) x'"
    using del_step [OF _ _ u1 del] t by blast+
  show "meta_ok E (db_file (s_db s'))" "refs_inv (db_file (s_db s'))" "sabs (db_file (s_db s')) = sabs (db_file (s_db s))"
    using d t by (simp_all add: s' refs_off_zero)
  have i: "idx_inv (db_file (s_db s1))" using t by (simp add: meta_ok_def rec_index_ok_def index_ok_def)
  show "tx_meta k (db_file (s_db s')) = (if k = ?k then None else tx_meta k (db_file (s_db s)))"
    using tx_delMeta_Inr(2) [OF i del, of k] t by (simp add: s' tx_meta_def)
  show "s' = s\<lparr>s_db := s_db s'\<rparr>" using t by (metis s' store.surjective store.update_convs(3))
qed

lemma part_record_step:
  assumes inv: "meta_ok E (db_file (s_db s))" "refs_inv (db_file (s_db s))" and clock: "\<And>i. \<not> time_is_zero (clock i)"
    and u: "tx_meta (uploadKey (u_bucket u) (u_id u)) (db_file (s_db s)) = Some (MUpload u)"
    and res: "part_record E ok clock u number info s = (s', Inr part)"
  shows "meta_ok E (db_file (s_db s'))" "refs_inv (db_file (s_db s'))" "sabs (db_file (s_db s')) = sabs (db_file (s_db s))"
    "tx_meta k (db_file (s_db s')) =
       (if k = uploadKey (u_bucket u) (u_id u) then Some (MUpload (u\<lparr>u_parts := parts_put number part (u_parts u)\<rparr>))
        else tx_meta k (db_file (s_db s)))"
    "s' = s\<lparr>s_db := s_db s'\<rparr>" "p_hash part = bi_hash info" "p_etag part = bi_md5 info"
proof -
  let ?x = "db_file (s_db s)" and ?k = "uploadKey (u_bucket u) (u_id u)"
  let ?u = "u\<lparr>u_parts := parts_put number part (u_parts u)\<rparr>"
  obtain d n where up: "db_update (ok 0) (tx_ref E (bi_hash info) 1 (clock 0)) (s_db s) = (d, Inr n)"
    using res by (auto simp: part_record_def split: prod.splits sum.splits)
  obtain x1 where r: "tx_ref E (bi_hash info) 1 (clock 0) ?x = Inr (n, x1)" and d: "d = (s_db s)\<lparr>db_file := x1\<rparr>"
    using up by (auto simp: db_update_Inr)
  let ?s1 = "s\<lparr>s_db := d\<rparr>"
  have off: "refs_off (\<lambda>_. 0) ?x" using inv(2) by (simp add: refs_off_zero)
  have one: "(1 :: i64) = of_int 1" by simp
  note t1 = ref_step [OF inv(1) off clock r one]
  obtain s2 where s2: "(case map_of (u_parts u) number of None \<Rightarrow> (?s1, None)
        | Some old \<Rightarrow> releaseBlob E (ok 1) (clock 1) (p_hash old) ?s1) = (s2, None)"
    using res up by (auto simp: part_record_def Let_def split: prod.splits sum.splits option.splits)
  have p: "part = \<lparr>p_hash = bi_hash info, p_etag = bi_md5 info, p_size = bi_size info, p_uploaded = clock 2\<rparr>"
    and save: "saveUpload E (ok 2) ?u s2 = (s', None)"
    using res up s2 by (auto simp: part_record_def Let_def split: prod.splits sum.splits option.splits)
  let ?debt1 = "(\<lambda>_. 0)(bi_hash info := 0 + 1) :: string \<Rightarrow> int"
  let ?debt = "\<lambda>h. ?debt1 h - (case map_of (u_parts u) number of None \<Rightarrow> 0 | Some p \<Rightarrow> if p_hash p = h then 1 else 0)"
  have t2: "meta_ok E (db_file (s_db s2)) \<and> refs_off ?debt (db_file (s_db s2)) \<and> sabs (db_file (s_db s2)) = sabs ?x \<and>
      ix_meta (db_file (s_db s2)) = ix_meta ?x \<and> s2 = s\<lparr>s_db := s_db s2\<rparr>"
  proof (cases "map_of (u_parts u) number")
    case None
    with s2 have "s2 = ?s1" by simp
    moreover have "?debt = ?debt1" using None by (simp add: fun_eq_iff)
    ultimately show ?thesis using t1 by (simp add: d)
  next
    case (Some old)
    have f1: "meta_ok E (db_file (s_db ?s1))" "refs_off ?debt1 (db_file (s_db ?s1))" using t1 by (simp_all add: d)
    have rl: "releaseBlob E (ok 1) (clock 1) (p_hash old) ?s1 = (s2, None)" using s2 Some by simp
    note t = release_step [OF f1 clock rl]
    have "?debt1(p_hash old := ?debt1 (p_hash old) - 1) = ?debt" using Some by (auto simp: fun_eq_iff)
    moreover have "s2 = s\<lparr>s_db := s_db s2\<rparr>" using t(5) by (metis store.surjective store.update_convs(3))
    ultimately show ?thesis using t(1-4) t1 by (simp add: d)
  qed
  obtain x' where set: "tx_setMeta E ?k (MUpload ?u) (db_file (s_db s2)) = Inr x'" and s': "s' = s2\<lparr>s_db := (s_db s2)\<lparr>db_file := x'\<rparr>\<rparr>"
    using save by (auto simp: saveUpload_def db_update_def unit_tx_def res_bind_Inr split: sum.splits if_splits prod.splits)
  from t2 have sb: "sabs (db_file (s_db s2)) = sabs ?x" and ms: "ix_meta (db_file (s_db s2)) = ix_meta ?x"
    and ok2: "meta_ok E (db_file (s_db s2))" and off2: "refs_off ?debt (db_file (s_db s2))" by blast+
  have dist: "distinct (map fst (u_parts u))" using inv(1) u by (auto simp: meta_ok_def uploads_ok_def)
  then have dist': "distinct (map fst (u_parts ?u))" by (auto simp: parts_put_def distinct_map_filter)
  have u2: "tx_meta ?k (db_file (s_db s2)) = Some (MUpload u)" using ms u by (simp add: tx_meta_def)
  have t3: "meta_ok E x'" "sabs x' = sabs (db_file (s_db s2))"
    "refs_off (\<lambda>h. ?debt h - part_holds h (u_parts ?u) + part_holds h (u_parts u)) x'"
    using save_step [OF ok2 off2 dist', of x'] set u2 by (simp_all add: part_w_upload del: part_w.simps)
  have bal: "?debt h - part_holds h (u_parts ?u) + part_holds h (u_parts u) = 0" for h
  proof -
    have "part_holds h (u_parts ?u) = (if p_hash part = h then 1 else 0) + part_holds h (filter (\<lambda>q. fst q \<noteq> number) (u_parts u))"
      by (simp add: parts_put_def)
    moreover have "?debt1 h = (if p_hash part = h then 1 else 0)" by (simp add: p)
    ultimately show ?thesis unfolding part_holds_remove [OF dist] by simp
  qed
  show "meta_ok E (db_file (s_db s'))" "refs_inv (db_file (s_db s'))" "sabs (db_file (s_db s')) = sabs ?x"
    using t3(1) t3(2) sb t3(3) [unfolded bal] by (simp_all add: s' refs_off_zero)
  have i: "idx_inv (db_file (s_db s2))" using ok2 by (simp add: meta_ok_def rec_index_ok_def index_ok_def)
  show "tx_meta k (db_file (s_db s')) = (if k = ?k then Some (MUpload ?u) else tx_meta k ?x)"
    using tx_setMeta_Inr(2) [OF i set, of k] ms by (simp add: s' tx_meta_def)
  from t2 have "s2 = s\<lparr>s_db := s_db s2\<rparr>" by (elim conjE)
  from store_db_upd [OF this] have "s2\<lparr>s_db := X\<rparr> = s\<lparr>s_db := X\<rparr>" for X .
  then show "s' = s\<lparr>s_db := s_db s'\<rparr>" by (simp add: s')
  show "p_hash part = bi_hash info" "p_etag part = bi_md5 info" by (simp_all add: p)
qed

lemma loadUpload_meta:
  assumes "loadUpload b i s = Inr u"
  shows "tx_meta (uploadKey b i) (db_file (s_db s)) = Some (MUpload u)" "store_Bucket s b \<noteq> None"
  using assms by (auto simp: loadUpload_def db_meta_def split: if_splits option.splits metaval.splits)

lemma UploadPart_effect:
  assumes E: "env_ok E" and inv: "store_inv E s" and m: "meta_ok E (db_file (s_db s))" "refs_inv (db_file (s_db s))"
    and flt: "fault_ok E (sy_blob sy) (fst r)" and clock: "\<And>i. \<not> time_is_zero (clock i)"
    and res: "UploadPart E sy ok clock b i number r s = (s', Inr part)"
  shows "store_inv E s'" "store_spec E s' = store_spec E s" "meta_ok E (db_file (s_db s'))" "refs_inv (db_file (s_db s'))"
    "p_hash part = sha256_hex E (fst r)" "blob_at (s_blobs s') (p_hash part) \<noteq> None"
    "\<exists>u'. loadUpload b i s' = Inr u' \<and> map_of (u_parts u') number = Some part"
    "in_step E s \<Longrightarrow> in_step E s'"
proof -
  let ?x = "db_file (s_db s)"
  obtain u fs info where u: "loadUpload b i s = Inr u"
    and bp: "blob_put E (sy_blob sy) (sy_clock sy 0) (sy_tmp sy) r (s_blobs s) = (fs, Inr info)"
    and pr: "part_record E ok clock u number info (s\<lparr>s_blobs := fs\<rparr>) = (s', Inr part)"
    using res by (auto simp: UploadPart_def split: if_splits sum.splits prod.splits)
  have sha: "sha_ok E" using E by (simp add: env_okD)
  have bi: "blob_inv E (s_blobs s)" using inv by (simp add: store_inv_def)
  note lm = loadUpload_meta [OF u]
  have ub: "uploadKey (u_bucket u) (u_id u) = uploadKey b i" using m(1) lm(1) by (simp add: meta_ok_def uploads_ok_def)
  let ?s = "s\<lparr>s_blobs := fs\<rparr>"
  have pre: "meta_ok E (db_file (s_db ?s))" "refs_inv (db_file (s_db ?s))"
    "tx_meta (uploadKey (u_bucket u) (u_id u)) (db_file (s_db ?s)) = Some (MUpload u)"
    using m lm ub by simp_all
  note t = part_record_step [OF pre(1,2) clock pre(3) pr]
  have sel: "s_jrnl s' = s_jrnl s" "s_blobs s' = fs" "s_buckets s' = s_buckets s" by (subst t(5), simp)+
  have keep: "blob_at (s_blobs s') h \<noteq> None" if "blob_at (s_blobs s) h \<noteq> None" for h
    using that blob_put_keeps [OF sha flt bp] sel(2) by auto
  have ap: "tx_meta appliedSeqKey (db_file (s_db s')) = tx_meta appliedSeqKey ?x" using t(4) [of appliedSeqKey] by simp
  have rx: "rec_index_ok E (db_file (s_db s'))" using t(1) by (simp add: meta_ok_def)
  have sb: "sabs (db_file (s_db s')) = sabs ?x" using t(3) by simp
  have bi': "blob_inv E (s_blobs s')" using blob_put_inv [OF sha flt bi bp] sel(2) by simp
  note si = store_inv_meta [OF inv sel(1) keep rx sb ap bi']
  show "store_inv E s'" "store_spec E s' = store_spec E s" "in_step E s \<Longrightarrow> in_step E s'" using si by blast+
  show "meta_ok E (db_file (s_db s'))" "refs_inv (db_file (s_db s'))" by (rule t(1), rule t(2))
  note be = blob_put_effect(2) [OF sha flt bp refl]
  show "p_hash part = sha256_hex E (fst r)" "blob_at (s_blobs s') (p_hash part) \<noteq> None"
    using be t(6) sel(2) by (simp, metis)
  have "loadUpload b i s' = Inr (u\<lparr>u_parts := parts_put number part (u_parts u)\<rparr>)"
    using t(4) [of "uploadKey b i"] ub lm(2) sel(3) by (simp add: loadUpload_def db_meta_def store_Bucket_def)
  then show "\<exists>u'. loadUpload b i s' = Inr u' \<and> map_of (u_parts u') number = Some part"
    by (auto simp: parts_put_def)
qed

text \<open>The data a completion assembles is the listed parts' contents, in order of their numbers.\<close>

definition part_data :: "upload \<Rightarrow> blobfs \<Rightarrow> completedPart \<Rightarrow> string option" where
  "part_data u fs p =
     (case map_of (u_parts u) (cp_number p) of None \<Rightarrow> None | Some got \<Rightarrow> blob_at fs (p_hash got))"

lemma gather_parts_data:
  "gather_parts u fs ps = Inr (datas, raws) \<Longrightarrow>
   (\<forall>p \<in> set ps. part_data u fs p \<noteq> None) \<and> datas = concat (map (\<lambda>p. the (part_data u fs p)) ps)"
proof (induction ps arbitrary: datas raws)
  case (Cons p ps)
  then obtain got d raw ds rs where "map_of (u_parts u) (cp_number p) = Some got" "blob_open (p_hash got) fs = Inr d"
    "hex_decode (p_etag got) = Some raw" "gather_parts u fs ps = Inr (ds, rs)" "datas = d @ ds"
    by (auto simp: res_bind_Inr split: option.splits if_splits)
  with Cons.IH [of ds rs] show ?case by (simp add: part_data_def blob_open_at)
qed simp

text \<open>A put leaves the uploads alone.\<close>

lemma put_meta_ok:
  assumes E: "env_ok E" and inv: "store_inv E s" and st: "in_step E s" and rdy: "put_ready E sy b k r opt s"
    and put: "store_PutWith E sy b k r opt s = (s1, Inr e)" and m: "meta_ok E (db_file (s_db s))"
  shows "meta_ok E (db_file (s_db s1))"
proof -
  note p = PutWith_effect [OF E inv st rdy put]
  have r1: "rec_index_ok E (db_file (s_db s1))" using p(1) by (simp add: store_inv_def)
  have "uploads_ok (db_file (s_db s1))"
    unfolding uploads_ok_def
  proof (intro allI impI)
    fix k v assume a: "tx_meta k (db_file (s_db s1)) = Some (MUpload v)"
    have "k \<noteq> appliedSeqKey" using a r1 by (auto simp: rec_index_ok_def index_ok_def applied_ok_def)
    with a p(9) m show "k = uploadKey (u_bucket v) (u_id v) \<and> distinct (map fst (u_parts v))"
      by (simp add: meta_ok_def uploads_ok_def)
  qed
  then show ?thesis using r1 by (simp add: meta_ok_def)
qed

lemma CompleteUpload_effect:
  assumes E: "env_ok E" and inv: "store_inv E s" and st: "in_step E s"
    and m: "meta_ok E (db_file (s_db s))" "refs_inv (db_file (s_db s))" and clock: "\<And>i. \<not> time_is_zero (clock i)"
    and u: "loadUpload b i s = Inr u" and g: "gather_parts u (s_blobs s) (sort_key cp_number parts) = Inr (datas, raws)"
    and rdy: "put_ready E sy b (u_key u) (datas, None)
        \<lparr>po_mtime = 0, po_etag = complete_etag E raws (length parts), po_expectHash = []\<rparr> s"
    and nc: "no_collision E (s_blobs s) datas"
    and res: "CompleteUpload E sy ok clock b i parts s = (s', Inr e)"
  shows "store_inv E s'" "in_step E s'" "meta_ok E (db_file (s_db s'))" "refs_inv (db_file (s_db s'))"
    "store_spec E s' = (store_spec E s)((b, u_key u) \<mapsto> objval_of e)" "blob_at (s_blobs s') (e_hash e) = Some datas"
    "loadUpload b i s' = Inl (ErrNoSuchUpload b i)" "s_buckets s' = s_buckets s"
proof -
  let ?opt = "\<lparr>po_mtime = 0, po_etag = complete_etag E raws (length parts), po_expectHash = []\<rparr>"
  obtain s1 where put: "store_PutWith E sy b (u_key u) (datas, None) ?opt s = (s1, Inr e)"
    and dis: "discardUpload E ok clock u s1 = (s', None)"
    using res u g by (auto simp: CompleteUpload_def split: if_splits sum.splits prod.splits option.splits)
  note p = PutWith_effect [OF E inv st rdy put]
  note lm = loadUpload_meta [OF u]
  have ub: "uploadKey (u_bucket u) (u_id u) = uploadKey b i" using m(1) lm(1) by (simp add: meta_ok_def uploads_ok_def)
  have metas: "tx_meta k (db_file (s_db s1)) = tx_meta k (db_file (s_db s))" if "k \<noteq> appliedSeqKey" for k
    by (rule p(9) [OF that])
  note m1 = put_meta_ok [OF E inv st rdy put m(1)]
  have u1: "tx_meta (uploadKey (u_bucket u) (u_id u)) (db_file (s_db s1)) = Some (MUpload u)"
    using metas lm(1) ub by simp
  note d = discard_step [OF m1 p(7) [OF m(2)] clock u1 dis]
  have sel: "s_jrnl s' = s_jrnl s1" "s_blobs s' = s_blobs s1" "s_buckets s' = s_buckets s1"
    by (subst d(5), simp)+
  have ap: "tx_meta appliedSeqKey (db_file (s_db s')) = tx_meta appliedSeqKey (db_file (s_db s1))"
    using d(4) [of appliedSeqKey] by simp
  have rx: "rec_index_ok E (db_file (s_db s'))" using d(1) by (simp add: meta_ok_def)
  have bi: "blob_inv E (s_blobs s')" using p(1) sel(2) by (simp add: store_inv_def)
  have keep: "blob_at (s_blobs s') h \<noteq> None" if "blob_at (s_blobs s1) h \<noteq> None" for h using that sel(2) by simp
  note si = store_inv_meta [OF p(1) sel(1) keep rx d(3) ap bi]
  show "store_inv E s'" by (rule si(1))
  show "in_step E s'" by (rule si(3) [OF _ caught_up_in_step [OF p(1,2)]]) simp
  show "meta_ok E (db_file (s_db s'))" "refs_inv (db_file (s_db s'))" by (rule d(1), rule d(2))
  show "store_spec E s' = (store_spec E s)((b, u_key u) \<mapsto> objval_of e)" using si(2) p(3,4) by simp
  show "blob_at (s_blobs s') (e_hash e) = Some datas" using p(6) nc sel(2) by simp
  show "loadUpload b i s' = Inl (ErrNoSuchUpload b i)"
    using d(4) [of "uploadKey b i"] ub lm(2) sel(3) p(5) by (simp add: loadUpload_def db_meta_def store_Bucket_def)
  show "s_buckets s' = s_buckets s" using sel(3) p(5) by simp
qed

end
