(* ===== verification/Demo.thy ===== *)
theory Demo
  imports Durability
begin

text \<open>
  A concrete environment for the witnesses: a codec for journal records with a proof of
  its round trip, digests that are valid names, and the documented key limit of bbolt.
  Nothing in the program rests on it; it shows that the hypotheses the theorems make of
  code outside src/ can hold together, and gives the witnesses a store to run.
\<close>

subsection \<open>A codec\<close>

definition nib :: "nat \<Rightarrow> char" where "nib n = char_of (97 + n)"
definition unnib :: "char \<Rightarrow> nat" where "unnib c = of_char c - 97"

lemma nib_props: "n < 16 \<Longrightarrow> unnib (nib n) = n \<and> nib n \<noteq> CHR '','' \<and> nib n \<noteq> NL \<and> nib n \<noteq> CR"
proof -
  assume "n < 16"
  then have "(of_char (nib n) :: nat) = 97 + n" by (simp add: nib_def)
  then show ?thesis by (auto simp: unnib_def NL_def CR_def)
qed

fun enc_str :: "string \<Rightarrow> string" where
  "enc_str [] = []"
| "enc_str (c # s) = nib (of_char c div 16) # nib (of_char c mod 16) # enc_str s"

fun dec_str :: "string \<Rightarrow> string" where
  "dec_str (a # b # s) = char_of (16 * unnib a + unnib b) # dec_str s"
| "dec_str _ = []"

lemma of_char_nibbles: "(of_char c :: nat) div 16 < 16" "(of_char c :: nat) mod 16 < 16"
  by (rule less_mult_imp_div_less) simp_all

lemma dec_enc_str [simp]: "dec_str (enc_str s) = s"
  by (induction s) (simp_all add: nib_props of_char_nibbles)

lemma enc_str_clean: "c \<in> set (enc_str s) \<Longrightarrow> c \<noteq> CHR '','' \<and> c \<noteq> NL \<and> c \<noteq> CR"
  by (induction s) (auto simp: nib_props of_char_nibbles)

lemma length_enc_str [simp]: "length (enc_str s) = 2 * length s"
  by (induction s) simp_all

definition int_str :: "int \<Rightarrow> string" where
  "int_str i = (if i < 0 then ''-'' else ''+'') @ format_nat (nat \<bar>i\<bar>)"

definition str_int :: "string \<Rightarrow> int" where
  "str_int s = (if hd s = CHR ''-'' then - int (digits_val (tl s)) else int (digits_val (tl s)))"

lemma str_int_str [simp]: "str_int (int_str i) = i"
  using format_nat_props [of "nat \<bar>i\<bar>"] by (auto simp: str_int_def int_str_def abs_if)

definition rec_fields :: "jrec \<Rightarrow> string list" where
  "rec_fields r =
     [format_uint (r_seq r), int_str (r_time r), r_op r, r_bucket r, r_key r, r_hash r, r_etag r,
      format_uint (r_size r), int_str (r_mtime r)]"

definition fields_rec :: "string list \<Rightarrow> jrec option" where
  "fields_rec fs =
     (case fs of
        [a, b, c, d, e, f, g, h, i] \<Rightarrow>
          (case (parse_uint a, parse_uint h) of
             (Some q, Some z) \<Rightarrow>
               Some \<lparr>r_seq = q, r_time = str_int b, r_op = c, r_bucket = d, r_key = e, r_hash = f, r_etag = g,
                     r_size = z, r_mtime = str_int i\<rparr>
           | _ \<Rightarrow> None)
      | _ \<Rightarrow> None)"

lemma fields_rec_fields [simp]: "fields_rec (rec_fields r) = Some r"
  by (simp add: fields_rec_def rec_fields_def)

fun enc_fields :: "string list \<Rightarrow> string" where
  "enc_fields [] = []"
| "enc_fields (f # fs) = enc_str f @ CHR '','' # enc_fields fs"

function dec_fields :: "string \<Rightarrow> string list" where
  "dec_fields s = (case cut_at (CHR '','') s of (f, Some rest) \<Rightarrow> dec_str f # dec_fields rest | (_, None) \<Rightarrow> [])"
  by pat_completeness auto
termination
  by (relation "measure length") (auto dest: cut_at_shorter [OF sym])

declare dec_fields.simps [simp del]

lemma dec_enc_fields [simp]: "dec_fields (enc_fields fs) = fs"
proof (induction fs)
  case Nil
  show ?case by (subst dec_fields.simps) simp
next
  case (Cons f fs)
  have "CHR '','' \<notin> set (enc_str f)" using enc_str_clean by blast
  then show ?case using Cons by (subst dec_fields.simps) (simp add: cut_at_append)
qed

definition pad_hex :: "nat \<Rightarrow> string \<Rightarrow> string" where
  "pad_hex n s = take n (map (\<lambda>c. if is_lower_hex c then c else CHR ''f'') (enc_str s) @ replicate n (CHR ''0''))"

definition demo_env :: env where
  "demo_env =
     \<lparr>sha256_hex = pad_hex 64, md5_hex = pad_hex 32,
      marshal = (\<lambda>r. enc_fields (rec_fields r)), unmarshal = (\<lambda>s. fields_rec (dec_fields s)),
      key_fits = (\<lambda>k. length k \<le> 32768), max_segment = 67108864\<rparr>"

lemma pad_hex_valid: "ValidHash (pad_hex 64 d)"
proof -
  have "is_lower_hex (CHR ''0'')" "is_lower_hex (CHR ''f'')" by (simp_all add: is_lower_hex_def is_digit_def)
  then show ?thesis
    by (auto simp: ValidHash_def pad_hex_def list_all_iff dest!: in_set_takeD)
qed

lemma demo_env_ok [simp]: "env_ok demo_env"
  by (simp add: env_ok_def sha_ok_def demo_env_def pad_hex_valid appliedSeqKey_def) (simp add: ValidHash_def)

lemma enc_fields_clean: "NL \<notin> set (enc_fields fs)"
  by (induction fs) (auto dest: enc_str_clean simp: NL_def)

lemma last_enc_fields: "fs \<noteq> [] \<Longrightarrow> last (enc_fields fs) = CHR '',''"
proof (induction fs)
  case (Cons f fs)
  then show ?case by (cases fs) simp_all
qed simp

lemma length_enc_fields: "length (enc_fields fs) = (\<Sum>f \<leftarrow> fs. 2 * length f + 1)"
  by (induction fs) auto

lemma demo_line_ok:
  assumes "(\<Sum>f \<leftarrow> rec_fields r. 2 * length f + 1) < max_line"
  shows "line_ok demo_env r"
proof -
  have "rec_fields r \<noteq> []" by (simp add: rec_fields_def)
  then have "enc_fields (rec_fields r) \<noteq> []" by (cases "rec_fields r") simp_all
  with assms \<open>rec_fields r \<noteq> []\<close> show ?thesis
    by (simp add: line_ok_def demo_env_def enc_fields_clean last_enc_fields length_enc_fields CR_def)
qed

text \<open>Decimal numerals of machine integers are short.\<close>

lemma format_nat_length: "n < 10 ^ k \<Longrightarrow> 0 < k \<Longrightarrow> length (format_nat n) \<le> k"
proof (induction n arbitrary: k rule: format_nat.induct)
  case (1 n)
  show ?case
  proof (cases "n < 10")
    case True
    with "1.prems" show ?thesis by (subst format_nat.simps) simp
  next
    case False
    then obtain m where k: "k = Suc m" "0 < m"
      using "1.prems" by (cases k; cases "k - 1") auto
    with "1.prems" have "n div 10 < 10 ^ m" by (simp add: less_mult_imp_div_less mult.commute)
    with "1.IH" [OF False, of m] k False show ?thesis by (subst format_nat.simps) simp
  qed
qed

lemma format_uint_length: "length (format_uint w) \<le> 20"
proof -
  have "unat w < 2 ^ 64" using unsigned_less [of w] by simp
  also have "(2::nat) ^ 64 \<le> 10 ^ 20" by simp
  finally show ?thesis unfolding format_uint_def by (intro format_nat_length) simp_all
qed

lemma int_str_length: "\<bar>i\<bar> < 10 ^ 30 \<Longrightarrow> length (int_str i) \<le> 31"
  using format_nat_length [of "nat \<bar>i\<bar>" 30] by (auto simp: int_str_def nat_less_iff abs_if split: if_splits)

text \<open>Every record with short strings and ordinary times is one line.\<close>

lemma demo_line:
  assumes "\<bar>r_time r\<bar> < 10 ^ 30" "\<bar>r_mtime r\<bar> < 10 ^ 30"
    and "length (r_op r) + length (r_bucket r) + length (r_key r) + length (r_hash r) + length (r_etag r) < 2000000"
  shows "line_ok demo_env r"
  using assms format_uint_length [of "r_seq r"] format_uint_length [of "r_size r"]
    int_str_length [of "r_time r"] int_str_length [of "r_mtime r"]
  by (intro demo_line_ok) (simp add: rec_fields_def max_line_def)

subsection \<open>A fresh store\<close>

definition demo_bucket :: bucketcfg where
  "demo_bucket = \<lparr>bc_name = ''media'', bc_accessKey = ''AK'', bc_secretKey = ''SK'', bc_publicRead = False, bc_protected = []\<rparr>"

definition demo_gc :: gccfg where
  "demo_gc = \<lparr>gc_interval = 100, gc_grace = 1000\<rparr>"

definition fresh_idx :: idx where
  "fresh_idx = idx_empty\<lparr>ix_meta := [(versionKey, MBytes ''1'')]\<rparr>"

definition demo_store :: store where
  "demo_store =
     \<lparr>s_blobs = blobs_empty, s_jrnl = jempty, s_db = \<lparr>db_file = fresh_idx, db_pending = []\<rparr>,
      s_buckets = [(''media'', demo_bucket)], s_gc = demo_gc\<rparr>"

definition demo_sys :: sysenv where
  "demo_sys = \<lparr>sy_clock = (\<lambda>i. 1000 + int i), sy_tmp = ''t'', sy_blob = BF_none, sy_app = None, sy_commit = True\<rparr>"

definition demo_opts :: putOpts where
  "demo_opts = \<lparr>po_mtime = 0, po_etag = [], po_expectHash = []\<rparr>"

lemma jlog_jempty [simp]: "jlog E jempty = []"
  by (simp add: jlog_def jreplay_def jempty_def segments_def seg_sorted_def)

lemma fresh_idx_inv: "idx_inv fresh_idx"
  using idx_inv_meta [OF idx_inv_empty, of "[(versionKey, MBytes ''1'')]"] by (simp add: fresh_idx_def bk_ok_def)

lemma fresh_lookup [simp]: "ix_lookup fresh_idx = (\<lambda>_. None)"
  by (simp add: fun_eq_iff ix_lookup_def ns_objs_def fresh_idx_def idx_empty_def)

lemma fresh_meta [simp]: "tx_meta k fresh_idx = (if k = versionKey then Some (MBytes ''1'') else None)"
  by (simp add: tx_meta_def fresh_idx_def bk_get_def)

lemma fresh_rec_index_ok: "key_fits E appliedSeqKey \<Longrightarrow> rec_index_ok E fresh_idx"
  by (simp add: rec_index_ok_def index_ok_def fresh_idx_inv hashes_ok_def applied_ok_def name_ok_def appliedSeqKey_def versionKey_def)

lemma fresh_refs_inv: "refs_inv fresh_idx"
proof -
  have "key_count fresh_idx h = 0" for h by (simp add: key_count_def holders_def)
  then show ?thesis
    by (simp add: refs_inv_def refc_def ref_or_zero_def ix_ref_def part_count_def fresh_idx_def idx_empty_def zero_ref_def)
qed

text \<open>A store over empty directories and a freshly stamped index satisfies the invariant.\<close>

lemma demo_store_inv [simp]: "store_inv demo_env demo_store" "caught_up demo_store"
proof -
  have ap: "appliedSeq (s_db demo_store) = Inr 0"
    by (simp add: demo_store_def appliedSeq_def db_meta_def versionKey_def appliedSeqKey_def)
  have "sabs fresh_idx = Map.empty" by (simp add: sabs_def fun_eq_iff)
  then show "store_inv demo_env demo_store"
    using ap env_okD(3) [OF demo_env_ok]
    by (simp add: store_inv_def journal_inv_def demo_store_def store_spec_def fresh_rec_index_ok name_ok_def)
  show "caught_up demo_store" using ap by (simp add: caught_up_def demo_store_def jempty_def)
qed

lemma demo_in_step [simp]: "in_step demo_env demo_store"
  by (rule caught_up_in_step) simp_all

subsection \<open>A put without faults returns\<close>

lemma blob_put_succeeds:
  assumes "bk_get (bf_tmp fs) name = None" "snd r = None"
  shows "\<exists>fs' i. blob_put E BF_none now name r fs = (fs', Inr i)"
  using assms by (auto simp: blob_put_def newTemp_def blob_commit_def Let_def split: option.splits)

lemma PutWith_succeeds:
  assumes E: "env_ok E" and inv: "store_inv E s" and rdy: "put_ready E sy b k r opt s"
    and bk: "store_Bucket s b \<noteq> None" and sy: "sy_blob sy = BF_none" "sy_app sy = None" "sy_commit sy"
    and r: "snd r = None" and tmp: "bk_get (bf_tmp (s_blobs s)) (sy_tmp sy) = None"
    and ex: "po_expectHash opt = [] \<or> po_expectHash opt = sha256_hex E (fst r)"
  shows "\<exists>s' e. store_PutWith E sy b k r opt s = (s', Inr e)"
proof -
  from blob_put_succeeds [OF tmp r] obtain fs i where b: "blob_put E BF_none (sy_clock sy 1) (sy_tmp sy) r (s_blobs s) = (fs, Inr i)"
    by blast
  note be = blob_put_effect(2) [OF env_okD(1) [OF E] fault_ok_none b refl]
  have rc: "put_record sy b k opt i = put_record sy b k opt
      \<lparr>bi_hash = sha256_hex E (fst r), bi_md5 = md5_hex E (fst r), bi_size = of_nat (length (fst r)), bi_deduped = False\<rparr>"
    using be by (simp add: put_record_def put_etag_def)
  have ji: "journal_inv E (s_jrnl s)" and X: "rec_index_ok E (db_file (s_db s))" using inv by (simp_all add: store_inv_def)
  obtain j where ja: "jappend E None (sy_clock sy 2) (put_record sy b k opt i) (s_jrnl s) = (j, Inr (j_last (s_jrnl s) + 1))"
    using jappend_succeeds [OF ji, of "sy_clock sy 2" "put_record sy b k opt i"] rdy unfolding rc by (auto simp: put_ready_def)
  have kne: "k \<noteq> []" using rdy by (simp add: put_ready_def name_ok_def)
  let ?tw = "\<lparr>r_seq = j_last (s_jrnl s) + 1, r_time = sy_clock sy 3, r_op = opPut, r_bucket = b, r_key = k, r_hash = bi_hash i,
     r_etag = put_etag opt i, r_size = bi_size i, r_mtime = put_mtime sy opt\<rparr>"
  have "rec_ok E ?tw" using rdy env_okD(2) [OF E] be by (simp add: rec_ok_def put_ready_def)
  then obtain x' where "store_apply E (sy_clock sy 4) ?tw (db_file (s_db s)) = Inr x'"
    using store_apply_succeeds [of E _ ?tw "sy_clock sy 4"] X by (auto simp: rec_index_ok_def)
  then have up: "db_update True (unit_tx (\<lambda>x. res_bind (store_bind E (sy_clock sy 4) b k (bi_hash i) (put_etag opt i) (bi_size i)
      (put_mtime sy opt) (sy_clock sy 3) x) (set_applied E (j_last (s_jrnl s) + 1)))) (s_db s) = ((s_db s)\<lparr>db_file := x'\<rparr>, Inr ())"
    by (simp add: db_update_Inr put_body_apply)
  have exp: "\<not> (po_expectHash opt \<noteq> [] \<and> po_expectHash opt \<noteq> bi_hash i)" using ex be by auto
  have p1: "put_blob E sy b k r opt s = (s\<lparr>s_blobs := fs\<rparr>, Inr i)"
    using bk kne b exp sy by (auto simp: put_blob_def)
  show ?thesis
    unfolding store_PutWith_def p1 using ja up sy by (simp add: put_journal_def put_index_def Let_def)
qed

lemma demo_put_ready:
  assumes "length b + length k < 1000" "b \<noteq> []" "k \<noteq> []" "Suc (unat (j_last (s_jrnl s))) < 2 ^ 64"
  shows "put_ready demo_env demo_sys b k (d, None) demo_opts s"
proof -
  have n: "name_ok demo_env (store_ns b)" "name_ok demo_env k"
    using assms by (simp_all add: name_ok_def demo_env_def store_ns_def ix_namespace_def ScopeStore_def)
  have "line_ok demo_env (stamp_rec (sy_clock demo_sys 2) (s_jrnl s) (put_record demo_sys b k demo_opts
      \<lparr>bi_hash = sha256_hex demo_env d, bi_md5 = md5_hex demo_env d, bi_size = of_nat (length d), bi_deduped = False\<rparr>))"
    using assms(1)
    by (intro demo_line)
      (simp_all add: stamp_rec_def put_record_def put_mtime_def put_etag_def demo_opts_def demo_sys_def time_is_zero_def
        opPut_def demo_env_def pad_hex_def)
  then show ?thesis using n assms(4) by (simp add: put_ready_def demo_sys_def time_is_zero_def)
qed

definition demo_reader :: reader where "demo_reader = (''hello'', None)"

lemma demo_put:
  "\<exists>s e. store_PutWith demo_env demo_sys ''media'' ''a.jpg'' demo_reader demo_opts demo_store = (s, Inr e)"
  using PutWith_succeeds [OF demo_env_ok demo_store_inv(1) demo_put_ready [of "''media''" "''a.jpg''"]]
  by (simp add: demo_reader_def demo_store_def store_Bucket_def bk_get_def demo_sys_def blobs_empty_def demo_opts_def jempty_def)

lemma demo_ready: "put_ready demo_env demo_sys ''media'' ''a.jpg'' demo_reader demo_opts demo_store"
  unfolding demo_reader_def by (rule demo_put_ready) (simp_all add: demo_store_def jempty_def)

lemma demo_fresh: "no_collision demo_env (s_blobs demo_store) d"
  by (simp add: no_collision_def demo_store_def blobs_empty_def blob_at_def)

end
