(* ===== verification/MultipartRun.thy ===== *)
theory MultipartRun
  imports Multipart Demo
begin

text \<open>
  Runs of the multipart operations: with no system call failing they return, and the
  concrete upload the witnesses use, opened on the demonstration store by
  \<open>CreateUpload\<close> itself.
\<close>

subsection \<open>Without faults the operations return\<close>

lemma meta_idx: "meta_ok E x \<Longrightarrow> idx_inv x"
  by (simp add: meta_ok_def rec_index_ok_def index_ok_def)

lemma release_returns:
  assumes "meta_ok E (db_file (s_db s))" "name_ok E h"
  shows "\<exists>s'. releaseBlob E True now h s = (s', None)"
proof -
  obtain n x' where "tx_ref E h (- 1) now (db_file (s_db s)) = Inr (n, x')" using tx_ref_succeeds [OF meta_idx [OF assms(1)] assms(2)] by force
  then show ?thesis by (simp add: releaseBlob_def db_update_def)
qed

lemma release_parts_returns:
  assumes clock: "\<And>i. \<not> time_is_zero (clock i)"
  shows "meta_ok E (db_file (s_db s)) \<Longrightarrow> refs_off debt (db_file (s_db s)) \<Longrightarrow> \<forall>p \<in> set ps. name_ok E (p_hash (snd p)) \<Longrightarrow>
    \<exists>s'. release_parts E (\<lambda>_. True) clock i ps s = (s', None)"
proof (induction ps arbitrary: s i debt)
  case (Cons p ps)
  have "name_ok E (p_hash (snd p))" using Cons.prems(3) by simp
  from release_returns [OF Cons.prems(1) this] obtain s1 where one: "releaseBlob E True (clock i) (p_hash (snd p)) s = (s1, None)" by blast
  note t = release_step [OF Cons.prems(1,2) clock one]
  from Cons.IH [OF t(1,2)] Cons.prems(3) one show ?case by auto
qed simp

lemma discard_returns:
  assumes inv: "meta_ok E (db_file (s_db s))" "refs_inv (db_file (s_db s))" and clock: "\<And>i. \<not> time_is_zero (clock i)"
    and names: "\<forall>p \<in> set (u_parts u). name_ok E (p_hash (snd p))"
  shows "\<exists>s'. discardUpload E (\<lambda>_. True) clock u s = (s', None)"
proof -
  have "refs_off (\<lambda>_. 0) (db_file (s_db s))" using inv(2) by (simp add: refs_off_zero)
  from release_parts_returns [where clock = clock and i = 0, OF clock inv(1) this names] obtain s1 where
    "release_parts E (\<lambda>_. True) clock 0 (u_parts u) s = (s1, None)" by blast
  then show ?thesis by (simp add: discardUpload_def db_update_def unit_tx_def tx_delMeta_def)
qed

lemma UploadPart_returns:
  assumes E: "env_ok E" and m: "meta_ok E (db_file (s_db s))" and clock: "\<And>i. \<not> time_is_zero (clock i)"
    and n: "1 \<le> number" "number \<le> maxParts" and u: "loadUpload b i s = Inr u" "map_of (u_parts u) number = None"
    and b: "sy_blob sy = BF_none" "snd r = None" "bk_get (bf_tmp (s_blobs s)) (sy_tmp sy) = None"
    and k: "name_ok E (uploadKey (u_bucket u) (u_id u))"
  shows "\<exists>s' part. UploadPart E sy (\<lambda>_. True) clock b i number r s = (s', Inr part)"
proof -
  from blob_put_succeeds [OF b(3,2)] obtain fs info where p: "blob_put E BF_none (sy_clock sy 0) (sy_tmp sy) r (s_blobs s) = (fs, Inr info)" by blast
  have "bi_hash info = sha256_hex E (fst r)" using blob_put_effect(2) [OF env_okD(1) [OF E] fault_ok_none p refl] by simp
  then have "name_ok E (bi_hash info)" using env_okD(2) [OF E] by simp
  from tx_ref_succeeds [OF meta_idx [OF m] this] obtain c x where x: "tx_ref E (bi_hash info) 1 (clock 0) (db_file (s_db s)) = Inr (c, x)" by force
  obtain y where "tx_setMeta E (uploadKey (u_bucket u) (u_id u)) (MUpload (u\<lparr>u_parts := parts_put number
      \<lparr>p_hash = bi_hash info, p_etag = bi_md5 info, p_size = bi_size info, p_uploaded = clock 2\<rparr> (u_parts u)\<rparr>)) x = Inr y"
    using tx_setMeta_succeeds [OF k] by blast
  with n u b p x show ?thesis
    by (simp add: UploadPart_def part_record_def db_update_def saveUpload_def unit_tx_def Let_def)
qed

subsection \<open>An upload on the demonstration store\<close>

definition demo_upload :: upload where
  "demo_upload = \<lparr>u_bucket = ''media'', u_key = ''big.bin'', u_id = ''u1'', u_initiated = 1, u_parts = []\<rparr>"

definition demo_open :: store where
  "demo_open = fst (CreateUpload demo_env True (Some ''u1'') 1 ''media'' ''big.bin'' demo_store)"

lemma demo_open_eq:
  "demo_open = demo_store\<lparr>s_db := \<lparr>db_file = fresh_idx\<lparr>ix_meta := bk_put (uploadKey ''media'' ''u1'') (MUpload demo_upload)
     (ix_meta fresh_idx)\<rparr>, db_pending = []\<rparr>\<rparr>"
  by (simp add: demo_open_def CreateUpload_def saveUpload_def demo_store_def store_Bucket_def bk_get_def db_update_def
      unit_tx_def tx_setMeta_def kv_put_def uploadKey_def uploadPrefix_def demo_env_def Let_def demo_upload_def)

lemma demo_open_step:
  "tx_setMeta demo_env (uploadKey (u_bucket demo_upload) (u_id demo_upload)) (MUpload demo_upload) fresh_idx =
     Inr (db_file (s_db demo_open))"
  by (simp add: demo_open_eq tx_setMeta_def kv_put_def uploadKey_def uploadPrefix_def demo_env_def demo_upload_def)

lemma fresh_meta_ok: "meta_ok demo_env fresh_idx"
proof -
  have "key_fits demo_env appliedSeqKey" using env_okD(3) [OF demo_env_ok] by (simp add: name_ok_def)
  then show ?thesis by (simp add: meta_ok_def fresh_rec_index_ok uploads_ok_def)
qed

lemma demo_open_inv:
  "meta_ok demo_env (db_file (s_db demo_open))" "refs_inv (db_file (s_db demo_open))" "store_inv demo_env demo_open"
  "in_step demo_env demo_open" "loadUpload ''media'' ''u1'' demo_open = Inr demo_upload"
  "store_spec demo_env demo_open = Map.empty"
proof -
  have off: "refs_off (\<lambda>_. 0) fresh_idx" by (simp add: refs_off_zero fresh_refs_inv)
  have d: "distinct (map fst (u_parts demo_upload))" by (simp add: demo_upload_def)
  note t = save_step [OF fresh_meta_ok off d demo_open_step]
  show m: "meta_ok demo_env (db_file (s_db demo_open))" by (rule t(1))
  have "tx_meta (uploadKey (u_bucket demo_upload) (u_id demo_upload)) fresh_idx = None"
    by (simp add: uploadKey_def uploadPrefix_def versionKey_def)
  with t(3) show "refs_inv (db_file (s_db demo_open))" by (simp add: demo_upload_def flip: refs_off_zero)
  have x: "db_file (s_db demo_store) = fresh_idx" by (simp add: demo_store_def)
  have f: "s_jrnl demo_open = s_jrnl demo_store" "s_blobs demo_open = s_blobs demo_store" by (simp_all add: demo_open_eq)
  have ap: "tx_meta appliedSeqKey (db_file (s_db demo_open)) = tx_meta appliedSeqKey (db_file (s_db demo_store))"
    by (simp add: x demo_open_eq tx_meta_def)
  have bi: "blob_inv demo_env (s_blobs demo_open)" using demo_store_inv(1) by (simp add: f store_inv_def)
  have rx: "rec_index_ok demo_env (db_file (s_db demo_open))" using m by (simp add: meta_ok_def)
  have sb: "sabs (db_file (s_db demo_open)) = sabs (db_file (s_db demo_store))" using t(2) x by simp
  have keep: "blob_at (s_blobs demo_open) h \<noteq> None" if "blob_at (s_blobs demo_store) h \<noteq> None" for h using that f by simp
  note si = store_inv_meta [OF demo_store_inv(1) f(1) keep rx sb ap bi]
  show "store_inv demo_env demo_open" "in_step demo_env demo_open" using si by simp_all
  show "store_spec demo_env demo_open = Map.empty" using si(2) by (simp add: store_spec_def demo_store_def)
  show "loadUpload ''media'' ''u1'' demo_open = Inr demo_upload"
    by (simp add: loadUpload_def demo_open_eq db_meta_def tx_meta_def store_Bucket_def demo_store_def bk_get_def [of "[_]"])
qed

definition demo_clock :: "nat \<Rightarrow> gotime" where "demo_clock i = 2000 + int i"

lemma demo_clock_runs [simp]: "\<not> time_is_zero (demo_clock i)"
  by (simp add: demo_clock_def time_is_zero_def)

lemma demo_part:
  "\<exists>s part. UploadPart demo_env demo_sys (\<lambda>_. True) demo_clock ''media'' ''u1'' 1 (''hello'', None) demo_open = (s, Inr part)"
proof (rule UploadPart_returns [OF demo_env_ok demo_open_inv(1) _ _ _ demo_open_inv(5)])
  show "name_ok demo_env (uploadKey (u_bucket demo_upload) (u_id demo_upload))"
    by (simp add: name_ok_def demo_env_def uploadKey_def uploadPrefix_def demo_upload_def)
qed (simp_all add: maxParts_def demo_sys_def demo_open_eq demo_store_def blobs_empty_def demo_upload_def bk_get_def)

text \<open>After one part: the blob is there, and the upload holds exactly that part.\<close>

lemma demo_part_state:
  assumes res: "UploadPart demo_env demo_sys (\<lambda>_. True) demo_clock ''media'' ''u1'' 1 (''hello'', None) demo_open = (s, Inr part)"
  shows "loadUpload ''media'' ''u1'' s = Inr (demo_upload\<lparr>u_parts := [(1, part)]\<rparr>)" "p_hash part = sha256_hex demo_env ''hello''"
    "p_etag part = md5_hex demo_env ''hello''" "s_jrnl s = jempty" "s_buckets s = [(''media'', demo_bucket)]"
    "bf_tmp (s_blobs s) = []" "blob_at (s_blobs s) = [sha256_hex demo_env ''hello'' \<mapsto> ''hello'']"
proof -
  let ?h = "sha256_hex demo_env ''hello''"
  let ?fs = "\<lparr>bf_blobs = [(blob_Path ?h, \<lparr>f_data = ''hello'', f_mtime = 1000\<rparr>)], bf_tmp = []\<rparr>"
  let ?info = "\<lparr>bi_hash = ?h, bi_md5 = md5_hex demo_env ''hello'', bi_size = 5, bi_deduped = False\<rparr>"
  have bp: "blob_put demo_env BF_none 1000 ''t'' (''hello'', None) blobs_empty = (?fs, Inr ?info)"
    by (simp add: blob_put_def newTemp_def blob_commit_def Let_def blobs_empty_def drop_tmp_def bk_get_def bk_del_def)
  have sb: "s_blobs demo_open = blobs_empty" by (simp add: demo_open_eq demo_store_def)
  have pr: "part_record demo_env (\<lambda>_. True) demo_clock demo_upload 1 ?info (demo_open\<lparr>s_blobs := ?fs\<rparr>) = (s, Inr part)"
    using res demo_open_inv(5) bp sb by (simp add: UploadPart_def maxParts_def demo_sys_def)
  have u: "tx_meta (uploadKey (u_bucket demo_upload) (u_id demo_upload)) (db_file (s_db (demo_open\<lparr>s_blobs := ?fs\<rparr>))) = Some (MUpload demo_upload)"
    using loadUpload_meta(1) [OF demo_open_inv(5)] by (simp add: demo_upload_def)
  have pre: "meta_ok demo_env (db_file (s_db (demo_open\<lparr>s_blobs := ?fs\<rparr>)))" "refs_inv (db_file (s_db (demo_open\<lparr>s_blobs := ?fs\<rparr>)))"
    using demo_open_inv(1,2) by simp_all
  note t = part_record_step [OF pre demo_clock_runs u pr]
  have s: "s_jrnl s = s_jrnl demo_open" "s_blobs s = ?fs" "s_buckets s = s_buckets demo_open" by (subst t(5), simp)+
  show "p_hash part = ?h" "p_etag part = md5_hex demo_env ''hello''" using t(6,7) by simp_all
  show "s_jrnl s = jempty" "s_buckets s = [(''media'', demo_bucket)]" "bf_tmp (s_blobs s) = []"
    using s by (simp_all add: demo_open_eq demo_store_def)
  have v: "ValidHash ?h" using demo_env_ok by (simp add: env_ok_def sha_ok_def)
  show "blob_at (s_blobs s) = [?h \<mapsto> ''hello'']"
    unfolding s by (auto simp: blob_at_def v bk_get_def blob_Path_inject fun_eq_iff)
  have "store_Bucket s ''media'' \<noteq> None" by (simp add: store_Bucket_def s demo_open_eq demo_store_def bk_get_def)
  then show "loadUpload ''media'' ''u1'' s = Inr (demo_upload\<lparr>u_parts := [(1, part)]\<rparr>)"
    using t(4) [of "uploadKey ''media'' ''u1''"] by (simp add: loadUpload_def db_meta_def parts_put_def) (simp add: demo_upload_def)
qed

lemma lower_hex_val: "is_lower_hex c \<Longrightarrow> hex_val c \<noteq> None"
  by (auto simp: is_lower_hex_def hex_val_def Let_def)

lemma hex_decode_total: "even (length s) \<Longrightarrow> list_all is_lower_hex s \<Longrightarrow> hex_decode s \<noteq> None"
proof (induction s rule: hex_decode.induct)
  case (3 a b s)
  then show ?case using lower_hex_val [of a] lower_hex_val [of b] by (auto split: option.split)
qed simp_all

lemma demo_tag: "hex_decode (md5_hex demo_env d) \<noteq> None"
proof (rule hex_decode_total)
  have "is_lower_hex (CHR ''0'')" "is_lower_hex (CHR ''f'')" by (simp_all add: is_lower_hex_def is_digit_def)
  then show "list_all is_lower_hex (md5_hex demo_env d)"
    by (auto simp: demo_env_def pad_hex_def list_all_iff dest!: in_set_takeD)
qed (simp add: demo_env_def pad_hex_def min_def)

lemma demo_complete:
  assumes res: "UploadPart demo_env demo_sys (\<lambda>_. True) demo_clock ''media'' ''u1'' 1 (''hello'', None) demo_open = (s, Inr part)"
    and inv: "store_inv demo_env s" "in_step demo_env s" "meta_ok demo_env (db_file (s_db s))" "refs_inv (db_file (s_db s))"
    and raw: "hex_decode (md5_hex demo_env ''hello'') = Some raw"
  defines "opt \<equiv> \<lparr>po_mtime = 0, po_etag = complete_etag demo_env raw 1, po_expectHash = []\<rparr>"
    and "done \<equiv> [\<lparr>cp_number = 1, cp_etag = md5_hex demo_env ''hello''\<rparr>]"
  shows "gather_parts (demo_upload\<lparr>u_parts := [(1, part)]\<rparr>) (s_blobs s) (sort_key cp_number done) = Inr (''hello'', raw)"
    "put_ready demo_env demo_sys ''media'' ''big.bin'' (''hello'', None) opt s" "no_collision demo_env (s_blobs s) ''hello''"
    "\<exists>s' e. CompleteUpload demo_env demo_sys (\<lambda>_. True) demo_clock ''media'' ''u1'' done s = (s', Inr e)"
proof -
  note st = demo_part_state [OF res]
  have v: "ValidHash (sha256_hex demo_env ''hello'')" using demo_env_ok by (simp add: env_ok_def sha_ok_def)
  have op: "blob_open (p_hash part) (s_blobs s) = Inr ''hello''" by (simp add: blob_open_at st)
  then show g: "gather_parts (demo_upload\<lparr>u_parts := [(1, part)]\<rparr>) (s_blobs s) (sort_key cp_number done) = Inr (''hello'', raw)"
    using raw st(3) by (simp add: done_def etagEqual_def)
  show nc: "no_collision demo_env (s_blobs s) ''hello''" by (auto simp: no_collision_def st(7) split: if_splits)
  have "length (format_nat 1) \<le> 1" by (rule format_nat_length) simp_all
  then have "length (complete_etag demo_env raw 1) \<le> 34" by (simp add: complete_etag_def demo_env_def pad_hex_def)
  then have "line_ok demo_env (stamp_rec (sy_clock demo_sys 2) (s_jrnl s) (put_record demo_sys ''media'' ''big.bin'' opt
      \<lparr>bi_hash = sha256_hex demo_env ''hello'', bi_md5 = md5_hex demo_env ''hello'', bi_size = of_nat (length ''hello''), bi_deduped = False\<rparr>))"
    by (intro demo_line)
      (auto simp: stamp_rec_def put_record_def put_mtime_def put_etag_def opt_def demo_sys_def time_is_zero_def
        opPut_def demo_env_def pad_hex_def)
  then show rdy: "put_ready demo_env demo_sys ''media'' ''big.bin'' (''hello'', None) opt s"
    by (simp add: put_ready_def demo_sys_def time_is_zero_def st(4) jempty_def name_ok_def demo_env_def store_ns_def
        ix_namespace_def ScopeStore_def)
  have "store_Bucket s ''media'' \<noteq> None" by (simp add: store_Bucket_def st(5) bk_get_def)
  moreover have "bk_get (bf_tmp (s_blobs s)) (sy_tmp demo_sys) = None" by (simp add: st(6) bk_get_def)
  ultimately obtain s1 e where put: "store_PutWith demo_env demo_sys ''media'' ''big.bin'' (''hello'', None) opt s = (s1, Inr e)"
    using PutWith_succeeds [OF demo_env_ok inv(1) rdy] by (force simp: demo_sys_def opt_def)
  note p = PutWith_effect [OF demo_env_ok inv(1,2) rdy put]
  have n: "\<forall>q \<in> set (u_parts (demo_upload\<lparr>u_parts := [(1, part)]\<rparr>)). name_ok demo_env (p_hash (snd q))"
    using env_okD(2) [OF demo_env_ok] v st(2) by simp
  from discard_returns [where clock = demo_clock, OF put_meta_ok [OF demo_env_ok inv(1,2) rdy put inv(3)] p(7) [OF inv(4)] demo_clock_runs n] obtain s2 where
    "discardUpload demo_env (\<lambda>_. True) demo_clock (demo_upload\<lparr>u_parts := [(1, part)]\<rparr>) s1 = (s2, None)" by blast
  then show "\<exists>s' e. CompleteUpload demo_env demo_sys (\<lambda>_. True) demo_clock ''media'' ''u1'' done s = (s', Inr e)"
    using st(1) g put by (simp add: CompleteUpload_def done_def opt_def demo_upload_def)
qed

end
