(* ===== verification/Fsck.thy ===== *)
theory Fsck
  imports Durability
begin

text \<open>
  internal/store/fsck.go: the integrity checks.  \<open>rebuildIndex\<close> throws the derived
  index away and replays the journal, \<open>store_Fsck\<close> compares the index with the blobs, and
  \<open>store_Scrub\<close> re-reads every blob against its name.  The lemmas show that a rebuild
  comes to the journal's map from any index, damaged or not, leaves every other scope
  of the file alone, and that the reports say what is on disk.
\<close>

record fsckReport =
  fr_journalRecords :: nat
  fr_objects :: i64
  fr_references :: i64
  fr_missing :: "string list"
  fr_unreferenced :: i64
  fr_staleRefs :: i64
  fr_rebuilt :: bool

definition zero_fsck :: fsckReport where
  "zero_fsck = \<lparr>fr_journalRecords = 0, fr_objects = 0, fr_references = 0, fr_missing = [], fr_unreferenced = 0,
                fr_staleRefs = 0, fr_rebuilt = False\<rparr>"

definition fsck_Healthy :: "fsckReport \<Rightarrow> bool" where
  "fsck_Healthy r \<longleftrightarrow> fr_missing r = [] \<and> fr_staleRefs r = 0"

definition storeNamespaces :: "idx \<Rightarrow> string list" where
  "storeNamespaces x = filter (\<lambda>ns. InScope ns ScopeStore) (ix_namespaces x)"

subsection \<open>Rebuilding\<close>

text \<open>\<open>ok i\<close> says whether the transaction number \<open>i\<close> of the call commits.\<close>

fun drop_namespaces :: "(nat \<Rightarrow> bool) \<Rightarrow> nat \<Rightarrow> string list \<Rightarrow> db \<Rightarrow> db \<times> gerr option" where
  "drop_namespaces ok i [] d = (d, None)"
| "drop_namespaces ok i (ns # rest) d =
     (case db_dropNamespace (ok i) ns d of
        (d1, Inl e) \<Rightarrow> (d1, Some e)
      | (d1, Inr _) \<Rightarrow> drop_namespaces ok (Suc i) rest d1)"

fun drop_refs :: "string list \<Rightarrow> idx \<Rightarrow> gerr + idx" where
  "drop_refs [] x = Inr x"
| "drop_refs (h # hs) x = res_bind (tx_dropRef h x) (drop_refs hs)"

definition rebuildIndex :: "env \<Rightarrow> (nat \<Rightarrow> bool) \<Rightarrow> gotime \<Rightarrow> store \<Rightarrow> store \<times> (gerr + nat)" where
  "rebuildIndex E ok t0 s =
     (let nss = storeNamespaces (db_file (s_db s)) in
      case drop_namespaces ok 0 nss (s_db s) of
        (d, Some e) \<Rightarrow> (s\<lparr>s_db := d\<rparr>, Inl e)
      | (d, None) \<Rightarrow>
          (case ix_walkRefs (\<lambda>h r acc. (acc @ [h], None)) (db_file d) [] of
             (_, Some e) \<Rightarrow> (s\<lparr>s_db := d\<rparr>, Inl e)
           | (refs, None) \<Rightarrow>
               (case db_update (ok (length nss)) (unit_tx (\<lambda>x. res_bind (drop_refs refs x)
                        (tx_setMeta E appliedSeqKey (MBytes ''0'')))) d of
                  (d1, Inl e) \<Rightarrow> (s\<lparr>s_db := d1\<rparr>, Inl e)
                | (d1, Inr _) \<Rightarrow>
                    (case db_update (ok (Suc (length nss))) (replay_body E t0 1 (s_jrnl s)) d1 of
                       (d2, Inl _) \<Rightarrow> (s\<lparr>s_db := d2\<rparr>, Inl (Errf ''store: rebuild''))
                     | (d2, Inr n) \<Rightarrow> (s\<lparr>s_db := d2\<rparr>, Inr n)))))"

subsection \<open>Fsck\<close>

definition fsck_entry ::
    "blobfs \<Rightarrow> string \<Rightarrow> entry \<Rightarrow> fsckReport \<times> string list \<Rightarrow> (fsckReport \<times> string list) \<times> gerr option" where
  "fsck_entry fs ns e acc =
     (let rep = (fst acc)\<lparr>fr_objects := fr_objects (fst acc) + 1\<rparr> in
      if e_hash e = [] then ((rep, snd acc), None)
      else
        let referenced = e_hash e # snd acc in
        case blob_stat (e_hash e) fs of
          Inl err \<Rightarrow> ((rep, referenced), Some err)
        | Inr (Some _) \<Rightarrow> ((rep, referenced), None)
        | Inr None \<Rightarrow> ((rep\<lparr>fr_missing := fr_missing rep @ [NameOf ns @ ''/'' @ e_key e]\<rparr>, referenced), None))"

definition fsck_ns :: "idx \<Rightarrow> blobfs \<Rightarrow> string \<Rightarrow> fsckReport \<times> string list \<Rightarrow> (fsckReport \<times> string list) \<times> gerr option" where
  "fsck_ns x fs ns acc = ix_walk ns (fsck_entry fs ns) x acc"

definition fsck_ref :: "blobfs \<Rightarrow> string \<Rightarrow> blobref \<Rightarrow> fsckReport \<Rightarrow> fsckReport \<times> gerr option" where
  "fsck_ref fs h r rep =
     (let rep = rep\<lparr>fr_references := fr_references rep + 1\<rparr> in
      if sint (rf_count r) \<le> 0 then (rep, None)
      else case blob_stat h fs of
             Inl e \<Rightarrow> (rep, Some e)
           | Inr (Some _) \<Rightarrow> (rep, None)
           | Inr None \<Rightarrow> (rep\<lparr>fr_staleRefs := fr_staleRefs rep + 1\<rparr>, None))"

definition fsck_blob :: "string list \<Rightarrow> walked \<Rightarrow> fsckReport \<Rightarrow> fsckReport \<times> gerr option" where
  "fsck_blob referenced w rep =
     (if wk_bad w \<or> wk_hash w \<in> set referenced then (rep, None)
      else (rep\<lparr>fr_unreferenced := fr_unreferenced rep + 1\<rparr>, None))"

definition fsck_check :: "store \<Rightarrow> fsckReport \<Rightarrow> fsckReport \<times> gerr option" where
  "fsck_check s rep =
     (let x = db_file (s_db s); fs = s_blobs s in
      case fold_cb (fsck_ns x fs) (storeNamespaces x) (rep, []) of
        ((rep1, _), Some e) \<Rightarrow> (rep1, Some e)
      | ((rep1, referenced), None) \<Rightarrow>
          let rep2 = rep1\<lparr>fr_missing := sort (fr_missing rep1)\<rparr> in
          (case ix_walkRefs (fsck_ref fs) x rep2 of
             (rep3, Some e) \<Rightarrow> (rep3, Some e)
           | (rep3, None) \<Rightarrow> blob_walk (fsck_blob referenced) fs rep3))"

definition store_Fsck :: "env \<Rightarrow> (nat \<Rightarrow> bool) \<Rightarrow> gotime \<Rightarrow> bool \<Rightarrow> store \<Rightarrow> store \<times> fsckReport \<times> gerr option" where
  "store_Fsck E ok t0 rebuild s =
     (if rebuild then
        (case rebuildIndex E ok t0 s of
           (s1, Inl e) \<Rightarrow> (s1, zero_fsck, Some e)
         | (s1, Inr n) \<Rightarrow>
             (s1, fsck_check s1 (zero_fsck\<lparr>fr_journalRecords := n, fr_rebuilt := True\<rparr>)))
      else (s, fsck_check s zero_fsck))"

subsection \<open>Scrub\<close>

record scrubReport =
  sr_blobs :: i64
  sr_bytes :: i64
  sr_corrupt :: "string list"
  sr_foreign :: i64

definition scrub_Healthy :: "scrubReport \<Rightarrow> bool" where
  "scrub_Healthy r \<longleftrightarrow> sr_corrupt r = []"

definition scrub_scan :: "walked \<Rightarrow> i64 \<times> (string \<times> i64) list \<Rightarrow> (i64 \<times> (string \<times> i64) list) \<times> gerr option" where
  "scrub_scan w acc =
     (if wk_bad w then ((fst acc + 1, snd acc), None)
      else ((fst acc, snd acc @ [(wk_hash w, wk_size w)]), None))"

definition scrub_one :: "env \<Rightarrow> blobfs \<Rightarrow> string \<times> i64 \<Rightarrow> scrubReport \<Rightarrow> scrubReport \<times> gerr option" where
  "scrub_one E fs v rep =
     (case blob_verify E (fst v) fs of
        Inl e \<Rightarrow> (rep, Some e)
      | Inr good \<Rightarrow>
          let rep = rep\<lparr>sr_blobs := sr_blobs rep + 1, sr_bytes := sr_bytes rep + snd v\<rparr>
          in (if good then rep else rep\<lparr>sr_corrupt := sr_corrupt rep @ [fst v]\<rparr>, None))"

definition store_Scrub :: "env \<Rightarrow> blobfs \<Rightarrow> scrubReport \<times> gerr option" where
  "store_Scrub E fs =
     (case blob_walk scrub_scan fs (0, []) of
        ((foreign, _), Some e) \<Rightarrow> (\<lparr>sr_blobs = 0, sr_bytes = 0, sr_corrupt = [], sr_foreign = foreign\<rparr>, Some e)
      | ((foreign, vs), None) \<Rightarrow>
          (case fold_cb (scrub_one E fs) vs \<lparr>sr_blobs = 0, sr_bytes = 0, sr_corrupt = [], sr_foreign = foreign\<rparr> of
             (rep, Some e) \<Rightarrow> (rep, Some e)
           | (rep, None) \<Rightarrow> (rep\<lparr>sr_corrupt := sort (sr_corrupt rep)\<rparr>, None)))"

subsection \<open>A rebuild comes to the journal's map\<close>

lemma drop_namespaces_effect:
  assumes "\<And>i. ok i"
  shows "idx_inv (db_file d) \<Longrightarrow> \<exists>d'. drop_namespaces ok i nss d = (d', None) \<and> idx_inv (db_file d') \<and>
     (\<forall>p. ix_lookup (db_file d') p = (if fst p \<in> set nss then None else ix_lookup (db_file d) p)) \<and>
     ix_refs (db_file d') = ix_refs (db_file d) \<and> ix_meta (db_file d') = ix_meta (db_file d)"
proof (induction nss arbitrary: d i)
  case (Cons ns nss)
  let ?d = "d\<lparr>db_pending := bk_del ns (db_pending d), db_file := ix_dropNamespace ns (db_file d)\<rparr>"
  have one: "db_dropNamespace (ok i) ns d = (?d, Inr ())"
    using assms by (simp add: db_dropNamespace_def db_update_def)
  have "idx_inv (db_file ?d)" using dropNamespace_inv [OF Cons.prems] by simp
  from Cons.IH [OF this, of "Suc i"] show ?case using one by (auto simp: dropNamespace_lookup)
qed simp

lemma drop_refs_all: "drop_refs hs x = Inr (x\<lparr>ix_refs := filter (\<lambda>p. fst p \<notin> set hs) (ix_refs x)\<rparr>)"
proof (induction hs arbitrary: x)
  case (Cons h hs)
  have "filter (\<lambda>p. fst p \<notin> set hs) (filter (\<lambda>p. fst p \<noteq> h) (ix_refs x)) = filter (\<lambda>p. fst p \<notin> set (h # hs)) (ix_refs x)"
    by (simp add: filter_filter conj_commute)
  then show ?case by (simp add: tx_dropRef_def Cons bk_del_def)
qed simp

lemma collect_refs: "fold_cb (\<lambda>(h, r) acc. (acc @ [h], None)) ps acc = (acc @ map fst ps, None)"
  by (induction ps arbitrary: acc) auto

lemma walk_ref_names:
  assumes "idx_inv x"
  shows "ix_walkRefs (\<lambda>h r acc. (acc @ [h], None)) x [] = (map fst (ix_refs x), None)"
  by (simp add: ix_walkRefs_refs [OF assms] collect_refs comp_def)

text \<open>Applying records leaves every namespace outside the store's scope alone.\<close>

lemma store_apply_outside:
  assumes ok: "index_ok E x" "rec_ok E r" and res: "store_apply E t0 r x = Inr x'" and out: "\<not> InScope (fst p) ScopeStore"
  shows "ix_lookup x' p = ix_lookup x p"
proof -
  have inv: "idx_inv x" and now: "\<not> time_is_zero (r_time r)" using ok by (simp_all add: index_ok_def rec_ok_def)
  obtain x1 where a: "apply_op E t0 r x = Inr x1" and b: "set_applied E (r_seq r) x1 = Inr x'"
    using res by (auto simp: store_apply_op res_bind_Inr)
  have i1: "idx_inv x1" using apply_op_Inr(1) [OF ok a] by (simp add: index_ok_def)
  have ne: "p \<noteq> (store_ns bb, k)" for bb k using out by auto
  have "ix_lookup x1 p = ix_lookup x p"
  proof -
    consider (put) "store_bind E t0 (r_bucket r) (r_key r) (r_hash r) (r_etag r) (r_size r) (r_mtime r) (r_time r) x = Inr x1"
      | (del) "store_unbind E (r_bucket r) (r_key r) (r_time r) x = Inr x1" | (gc) "tx_dropRef (r_hash r) x = Inr x1"
      using a by (auto simp: apply_op_def split: if_splits)
    then show ?thesis
      by cases (use store_bind_Inr(2) [OF inv now] store_unbind_Inr(2) [OF inv now] tx_dropRef_Inr(3) [OF inv] ne in auto)
  qed
  then show ?thesis using set_applied_Inr(2) [OF i1 b] by simp
qed

lemma app_all_outside:
  "rec_index_ok E x \<Longrightarrow> list_all (rec_ok E) rs \<Longrightarrow> app_all (store_apply E t0) rs x = Inr x' \<Longrightarrow>
   \<not> InScope (fst p) ScopeStore \<Longrightarrow> ix_lookup x' p = ix_lookup x p"
proof (induction rs arbitrary: x)
  case (Cons r rs)
  then obtain x1 where x1: "store_apply E t0 r x = Inr x1" "app_all (store_apply E t0) rs x1 = Inr x'"
    by (auto simp: res_bind_Inr)
  have ok: "index_ok E x" "rec_ok E r" using Cons.prems by (simp_all add: rec_index_ok_def)
  have "app_all (store_apply E t0) [r] x = Inr x1" using x1 by simp
  then have "rec_index_ok E x1" using rp.app_all_view(1) [OF Cons.prems(1), of "[r]"] ok(2) by (simp add: ok_all_list)
  with Cons x1 store_apply_outside [OF ok x1(1)] show ?case by simp
qed simp

text \<open>With no upload open and a journal whose collections were justified, the references are exact again.\<close>

definition log_gc_ok :: "env \<Rightarrow> journal \<Rightarrow> bool" where
  "log_gc_ok E j \<longleftrightarrow> ok_all spec_apply (gc_ok (\<lambda>_. 0)) (jlog E j) Map.empty"

lemma ok_all_conj: "ok_all sp (\<lambda>r m. P r m \<and> Q r m) rs m \<longleftrightarrow> ok_all sp P rs m \<and> ok_all sp Q rs m"
  by (induction rs arbitrary: m) auto

lemma rebuild_correct:
  assumes x: "idx_inv (db_file (s_db s))" "tx_meta versionKey (db_file (s_db s)) = Some (MBytes ''1'')"
    and j: "journal_inv E (s_jrnl s)" and E: "name_ok E appliedSeqKey" and ok: "\<And>i. ok i"
  obtains s' where "rebuildIndex E ok t0 s = (s', Inr (length (jlog E (s_jrnl s))))"
    "sabs (db_file (s_db s')) = store_spec E s" "rec_index_ok E (db_file (s_db s'))"
    "appliedSeq (s_db s') = Inr (j_last (s_jrnl s))" "s_jrnl s' = s_jrnl s" "s_blobs s' = s_blobs s"
    "\<And>p. \<not> InScope (fst p) ScopeStore \<Longrightarrow> ix_lookup (db_file (s_db s')) p = ix_lookup (db_file (s_db s)) p"
    "(\<forall>h. part_count (db_file (s_db s)) h = 0) \<Longrightarrow> log_gc_ok E (s_jrnl s) \<Longrightarrow> refs_inv (db_file (s_db s'))"
proof -
  let ?x = "db_file (s_db s)" and ?log = "jlog E (s_jrnl s)" and ?nss = "storeNamespaces (db_file (s_db s))"
  obtain d where d: "drop_namespaces ok 0 ?nss (s_db s) = (d, None)" "idx_inv (db_file d)"
    "\<And>p. ix_lookup (db_file d) p = (if fst p \<in> set ?nss then None else ix_lookup ?x p)"
    "ix_meta (db_file d) = ix_meta ?x"
    using drop_namespaces_effect [where ok = ok and i = 0 and nss = ?nss, OF ok x(1)] by blast
  let ?x1 = "(db_file d)\<lparr>ix_refs := []\<rparr>"
  have f: "filter (\<lambda>p. fst p \<notin> set (map fst (ix_refs (db_file d)))) (ix_refs (db_file d)) = []"
    by (auto simp: filter_empty_conv)
  have i1: "idx_inv ?x1" by (rule idx_inv_refs [OF d(2)]) (simp add: refs_ok_def)
  obtain x2 where set: "tx_setMeta E appliedSeqKey (MBytes ''0'') ?x1 = Inr x2" using tx_setMeta_succeeds [OF E] by blast
  note t = tx_setMeta_Inr [OF i1 set]
  let ?d1 = "d\<lparr>db_file := x2\<rparr>"
  have up: "db_update (ok (length ?nss)) (unit_tx (\<lambda>x. res_bind (drop_refs (map fst (ix_refs (db_file d))) x)
      (tx_setMeta E appliedSeqKey (MBytes ''0'')))) d = (?d1, Inr ())"
    using ok set by (simp add: db_update_Inr drop_refs_all f)
  have gone: "ix_lookup x2 (store_ns b, k) = None" for b k
  proof (cases "store_ns b \<in> set ?nss")
    case False
    then have "store_ns b \<notin> fst ` set (ix_objs ?x)" by (simp add: storeNamespaces_def ix_namespaces_def)
    then have "bk_get (ix_objs ?x) (store_ns b) = None" by (simp add: bk_get_def map_of_eq_None_iff)
    then have "ix_lookup ?x (store_ns b, k) = None" by (simp add: ix_lookup_def ns_objs_def)
    then show ?thesis using d(3) [of "(store_ns b, k)"] t(3) by simp
  qed (use d(3) t(3) in simp)
  have x2: "rec_index_ok E x2"
    using t E x(2) d(4) gone by (simp add: rec_index_ok_def index_ok_def hashes_ok_def applied_ok_def tx_meta_def)
  have empty: "sabs x2 = Map.empty" by (simp add: sabs_def gone fun_eq_iff)
  have J: "jwf E (s_jrnl s)" "list_all (rec_ok E) ?log" "consec 0 ?log" using j by (simp_all add: journal_inv_def)
  obtain x3 where x3: "app_all (store_apply E t0) ?log x2 = Inr x3" "rec_index_ok E x3"
    "sabs x3 = foldl (\<lambda>m r. spec_apply r m) (sabs x2) ?log"
    using rp.app_all_refines [OF x2, of ?log] J(2) by (auto simp: ok_all_list)
  have pend: "jpending E 1 (s_jrnl s) = ?log"
    using jl.after_consec [OF J(1), of 1 "[]" ?log 0] J(3) by simp
  have body: "replay_body E t0 1 (s_jrnl s) x2 = Inr (length ?log, x3)"
    using fold_replay_cb [OF x3(1), of 0] by (simp add: replay_body_def jreplay_log [OF J(1)] pend)
  let ?s = "s\<lparr>s_db := ?d1\<lparr>db_file := x3\<rparr>\<rparr>"
  have res: "rebuildIndex E ok t0 s = (?s, Inr (length ?log))"
    using d(1) walk_ref_names [OF d(2)] up body ok by (simp add: rebuildIndex_def db_update_def)
  have "appliedSeq (s_db ?s) = Inr (j_last (s_jrnl s))"
  proof (cases "?log = []")
    case True
    then have "x3 = x2" "j_last (s_jrnl s) = 0" using x3(1) journal_inv_last [OF j] by simp_all
    moreover have "parse_uint ''0'' = Some 0" by (simp add: parse_uint_def is_digit_def digits_val_def digit_val_def)
    ultimately show ?thesis using t(2) [of appliedSeqKey] by (simp add: appliedSeq_def db_meta_def)
  next
    case False
    have "r_seq (last ?log) = j_last (s_jrnl s)" using journal_inv_last [OF j] last_seq_hd [OF False, of 0] by simp
    then show ?thesis using app_all_position [OF x2 J(2) False x3(1)] by (intro appliedSeq_of) simp
  qed
  moreover have "ix_lookup x3 p = ix_lookup ?x p" if "\<not> InScope (fst p) ScopeStore" for p
  proof -
    have "fst p \<notin> set ?nss" using that by (auto simp: storeNamespaces_def)
    then show ?thesis using app_all_outside [OF x2 J(2) x3(1) that] d(3) t(3) by simp
  qed
  moreover have "refs_inv x3" if parts: "\<forall>h. part_count ?x h = 0" and gc: "log_gc_ok E (s_jrnl s)"
  proof -
    have pc: "part_count x2 h = 0" for h
    proof -
      have ap: "applied_ok x2" using x2 by (simp add: rec_index_ok_def index_ok_def)
      have "ix_meta x2 = bk_put appliedSeqKey (MBytes ''0'') (ix_meta ?x)"
        using set d(4) by (auto simp: tx_setMeta_def res_bind_Inr kv_put_Inr)
      then have "part_count x2 h = part_count ?x h - opt_weight (part_w h) (bk_get (ix_meta ?x) appliedSeqKey)"
        using idx_invD(7) [OF x(1)] by (simp add: part_count_def bks.total_upd)
      moreover have "0 \<le> part_w h v" for v by (cases v) simp_all
      then have "0 \<le> opt_weight (part_w h) (bk_get (ix_meta ?x) appliedSeqKey)" by (simp add: opt_weight_def split: option.split)
      ultimately show ?thesis using parts part_count_nonneg [of x2 h] by simp
    qed
    have "key_count x2 h = 0" for h
      unfolding key_count_sabs
    proof (intro allI impI)
      fix p v assume "InScope (fst p) ScopeStore" "ix_lookup x2 p = Some v"
      with InScope_store gone show "e_hash v \<noteq> h" by (metis option.distinct(1) prod.collapse)
    qed
    moreover have "refc x2 h = 0" for h using t(4) by (simp add: refc_def ref_or_zero_def ix_ref_def zero_ref_def)
    ultimately have "refs_inv x2" by (simp add: refs_inv_def pc)
    then have r2: "rec_refs_ok E (\<lambda>_. 0) x2" using x2 pc by (simp add: rec_refs_ok_def fun_eq_iff)
    have "ok_all spec_apply (\<lambda>r m. rec_ok E r \<and> gc_ok (\<lambda>_. 0) r m) ?log (sabs x2)"
      using J(2) gc unfolding ok_all_conj ok_all_list empty by (simp add: log_gc_ok_def)
    from rr.app_all_view(1) [OF r2 this x3(1)] show ?thesis by (simp add: rec_refs_ok_def)
  qed
  ultimately show thesis
    using res x3 by (intro that [of ?s]) (simp_all add: store_spec_def spec_run_def empty)
qed

subsection \<open>What the checks report\<close>

lemma fsck_missing_ns:
  assumes "idx_inv x"
  shows "fold_cb (fsck_entry fs ns) es (rep, refd) = ((rep', refd'), None) \<Longrightarrow>
    fr_missing rep' = fr_missing rep @ map (\<lambda>e. NameOf ns @ ''/'' @ e_key e)
      (filter (\<lambda>e. e_hash e \<noteq> [] \<and> blob_at fs (e_hash e) = None) es)"
proof (induction es arbitrary: rep refd)
  case (Cons e es)
  show ?case
  proof (cases "e_hash e = []")
    case True
    with Cons show ?thesis by (simp add: fsck_entry_def)
  next
    case False
    with Cons.prems have v: "ValidHash (e_hash e)"
      by (auto simp: fsck_entry_def blob_stat_def Let_def split: if_splits)
    show ?thesis
      using False Cons.prems Cons.IH blob_stat_at [OF v, of fs]
      by (cases "blob_at fs (e_hash e)") (auto simp: fsck_entry_def Let_def)
  qed
qed simp

lemma fsck_missing_all:
  assumes "idx_inv x"
  shows "fold_cb (fsck_ns x fs) nss (rep, refd) = ((rep', refd'), None) \<Longrightarrow>
    fr_missing rep' = fr_missing rep @ concat (map (\<lambda>ns. map (\<lambda>e. NameOf ns @ ''/'' @ e_key e)
      (filter (\<lambda>e. e_hash e \<noteq> [] \<and> blob_at fs (e_hash e) = None) (entries_of (ns_objs x ns)))) nss)"
proof (induction nss arbitrary: rep refd)
  case (Cons ns nss)
  obtain rep1 refd1 e1 where one: "fsck_ns x fs ns (rep, refd) = ((rep1, refd1), e1)" by (metis prod.collapse)
  with Cons.prems have n: "e1 = None" by (cases e1) simp_all
  have "fold_cb (fsck_entry fs ns) (entries_of (ns_objs x ns)) (rep, refd) = ((rep1, refd1), None)"
    using one n by (simp add: fsck_ns_def ix_walk_entries [OF assms])
  from fsck_missing_ns [OF assms this] Cons.IH [of rep1 refd1] Cons.prems one n show ?case by simp
qed simp

lemma fsck_ref_missing: "fsck_ref fs h r rep = (rep', e) \<Longrightarrow> fr_missing rep' = fr_missing rep"
  by (auto simp: fsck_ref_def Let_def split: if_splits sum.splits option.splits)

lemma fsck_blob_missing: "fsck_blob refd w rep = (rep', e) \<Longrightarrow> fr_missing rep' = fr_missing rep"
  by (auto simp: fsck_blob_def split: if_splits)

lemma fold_cb_keeps:
  "(\<And>a s s' e. f a s = (s', e) \<Longrightarrow> P s' = P s) \<Longrightarrow> fold_cb f xs s = (s', e) \<Longrightarrow> P s' = P s"
proof (induction xs arbitrary: s)
  case (Cons a xs)
  obtain s1 e1 where one: "f a s = (s1, e1)" by force
  have s1: "P s1 = P s" by (rule Cons.prems(1) [OF one])
  show ?case
  proof (cases e1)
    case None
    with Cons.prems(2) one have "fold_cb f xs s1 = (s', e)" by simp
    from Cons.IH [OF Cons.prems(1) this] s1 show ?thesis by simp
  next
    case (Some err)
    with Cons.prems(2) one s1 show ?thesis by simp
  qed
qed simp

text \<open>A check that ends without an error names exactly the objects whose blob is gone.\<close>

definition lost :: "store \<Rightarrow> string \<Rightarrow> string \<Rightarrow> bool" where
  "lost s b k \<longleftrightarrow> (\<exists>e. ix_lookup (db_file (s_db s)) (store_ns b, k) = Some e \<and> e_hash e \<noteq> [] \<and> blob_at (s_blobs s) (e_hash e) = None)"

lemma store_ns_listed:
  assumes "ix_lookup x (store_ns b, k) = Some e"
  shows "store_ns b \<in> set (storeNamespaces x)"
proof -
  have "bk_get (ix_objs x) (store_ns b) \<noteq> None" using assms by (auto simp: ix_lookup_def ns_objs_def split: option.splits)
  then show ?thesis
    by (auto simp: storeNamespaces_def ix_namespaces_def dest!: bk_get_in intro: rev_image_eqI)
qed

lemma NameOf_store [simp]: "NameOf (store_ns b) = b"
  by (simp add: store_ns_def NameOf_namespace ScopeStore_def)

lemma fsck_missing:
  assumes x: "idx_inv (db_file (s_db s))" and res: "fsck_check s rep = (rep', None)" "fr_missing rep = []"
  shows "set (fr_missing rep') = {b @ ''/'' @ k | b k. lost s b k}"
proof -
  let ?x = "db_file (s_db s)" and ?fs = "s_blobs s"
  obtain rep1 refd where f: "fold_cb (fsck_ns ?x ?fs) (storeNamespaces ?x) (rep, []) = ((rep1, refd), None)"
    using res by (auto simp: fsck_check_def Let_def split: prod.splits option.splits)
  obtain rep3 where w: "ix_walkRefs (fsck_ref ?fs) ?x (rep1\<lparr>fr_missing := sort (fr_missing rep1)\<rparr>) = (rep3, None)"
    and b: "blob_walk (fsck_blob refd) ?fs rep3 = (rep', None)"
    using res f by (auto simp: fsck_check_def Let_def split: prod.splits option.splits)
  have "fr_missing rep3 = sort (fr_missing rep1)"
    using fold_cb_keeps [of "\<lambda>(h, r). fsck_ref ?fs h r" fr_missing, OF _ w [unfolded ix_walkRefs_refs [OF x]]] fsck_ref_missing
    by fastforce
  moreover have "fr_missing rep' = fr_missing rep3"
    using fold_cb_keeps [of "fsck_blob refd" fr_missing, OF _ b [unfolded blob_walk_def]] fsck_blob_missing by blast
  ultimately have m: "set (fr_missing rep') = {NameOf ns @ ''/'' @ e_key e | ns e. ns \<in> set (storeNamespaces ?x) \<and>
      e \<in> set (entries_of (ns_objs ?x ns)) \<and> e_hash e \<noteq> [] \<and> blob_at ?fs (e_hash e) = None}"
    using fsck_missing_all [OF x f] res(2) by auto
  have "NameOf ns @ ''/'' @ e_key e \<in> {b @ ''/'' @ k | b k. lost s b k}"
    if e: "ns \<in> set (storeNamespaces ?x)" "e \<in> set (entries_of (ns_objs ?x ns))" "e_hash e \<noteq> []" "blob_at ?fs (e_hash e) = None" for ns e
  proof -
    from e(1) obtain b where b: "ns = store_ns b" using InScope_store by (auto simp: storeNamespaces_def)
    have "ix_lookup ?x (store_ns b, e_key e) = Some e" using e(2) entries_of_lookup [OF x] b by blast
    with e(3,4) have "lost s b (e_key e)" by (auto simp: lost_def)
    then show ?thesis using b by auto
  qed
  moreover have "b @ ''/'' @ k \<in> set (fr_missing rep')" if l: "lost s b k" for b k
  proof -
    from l obtain e where e: "ix_lookup ?x (store_ns b, k) = Some e" "e_hash e \<noteq> []" "blob_at ?fs (e_hash e) = None" by (auto simp: lost_def)
    have key: "e_key e = k" by (rule ix_lookup_key [OF x e(1)])
    have "NameOf (store_ns b) = b" by simp
    moreover have "e \<in> set (entries_of (ns_objs ?x (store_ns b)))" using entries_of_lookup [OF x] e(1) key by simp
    ultimately show ?thesis unfolding m using store_ns_listed [OF e(1)] e(2,3) key by force
  qed
  ultimately show ?thesis unfolding m by blast
qed

lemma fold_cb_returns:
  "(\<And>a s. a \<in> set xs \<Longrightarrow> \<exists>s'. f a s = (s', None)) \<Longrightarrow> \<exists>s'. fold_cb f xs s = (s', None)"
proof (induction xs arbitrary: s)
  case (Cons a xs)
  from Cons.prems obtain s1 where "f a s = (s1, None)" by fastforce
  moreover from Cons obtain s2 where "fold_cb f xs s1 = (s2, None)" by (metis list.set_intros(2))
  ultimately show ?case by simp
qed simp

text \<open>With names that are hashes the check always ends without an error.\<close>

definition hashes_valid :: "idx \<Rightarrow> bool" where
  "hashes_valid x \<longleftrightarrow> (\<forall>p e. ix_lookup x p = Some e \<longrightarrow> e_hash e = [] \<or> ValidHash (e_hash e)) \<and>
     (\<forall>h. ix_ref x h \<noteq> None \<longrightarrow> ValidHash h)"

lemma fsck_returns:
  assumes x: "idx_inv (db_file (s_db s))" and v: "hashes_valid (db_file (s_db s))"
  shows "\<exists>rep'. fsck_check s rep = (rep', None)"
proof -
  let ?x = "db_file (s_db s)" and ?fs = "s_blobs s"
  have entry: "\<exists>a'. fsck_entry ?fs ns e a = (a', None)" if "e_hash e = [] \<or> ValidHash (e_hash e)" for ns e a
    using that by (auto simp: fsck_entry_def Let_def blob_stat_at split: option.split)
  have "\<exists>a'. fsck_ns ?x ?fs ns a = (a', None)" for ns a
    unfolding fsck_ns_def ix_walk_entries [OF x]
    by (rule fold_cb_returns) (use v entries_of_lookup [OF x] entry in \<open>auto simp: hashes_valid_def\<close>)
  then obtain rep1 refd where f: "fold_cb (fsck_ns ?x ?fs) (storeNamespaces ?x) (rep, []) = ((rep1, refd), None)"
    using fold_cb_returns [of "storeNamespaces ?x" "fsck_ns ?x ?fs" "(rep, [])"] by force
  have ref: "\<exists>a'. fsck_ref ?fs h r a = (a', None)" if "ValidHash h" for h r a
    using that by (auto simp: fsck_ref_def Let_def blob_stat_at split: option.split)
  have "ix_ref ?x (fst p) \<noteq> None" if "p \<in> set (ix_refs ?x)" for p
    using idx_invD(4) [OF x] bk_get_iff [of "ix_refs ?x" "fst p" "snd p"] that
    by (fastforce simp: refs_ok_def ix_ref_def split: option.splits raw.splits)
  then have "\<exists>rep3. ix_walkRefs (fsck_ref ?fs) ?x (rep1\<lparr>fr_missing := sort (fr_missing rep1)\<rparr>) = (rep3, None)"
    unfolding ix_walkRefs_refs [OF x] using v ref by (intro fold_cb_returns) (auto simp: hashes_valid_def)
  then obtain rep3 where w: "ix_walkRefs (fsck_ref ?fs) ?x (rep1\<lparr>fr_missing := sort (fr_missing rep1)\<rparr>) = (rep3, None)" ..
  have "\<exists>a'. fsck_blob refd it a = (a', None)" for it a by (simp add: fsck_blob_def)
  then have "\<exists>r. blob_walk (fsck_blob refd) ?fs rep3 = (r, None)" unfolding blob_walk_def by (intro fold_cb_returns)
  with f w show ?thesis by (auto simp: fsck_check_def Let_def)
qed

text \<open>Every file with a valid name sits at its own path.\<close>

definition placed :: "blobfs \<Rightarrow> bool" where
  "placed fs \<longleftrightarrow> bk_ok (bf_blobs fs) \<and> (\<forall>p \<in> set (bf_blobs fs). ValidHash (base_name (fst p)) \<longrightarrow> fst p = blob_Path (base_name (fst p)))"

lemma scrub_scan_all:
  "fold_cb scrub_scan (map walk_item ps) (n, vs) = ((n', vs'), e) \<Longrightarrow>
   e = None \<and> vs' = vs @ map (\<lambda>p. (base_name (fst p), of_nat (length (f_data (snd p)))))
     (filter (\<lambda>p. ValidHash (base_name (fst p))) ps)"
proof (induction ps arbitrary: n vs)
  case (Cons p ps)
  obtain n1 vs1 where one: "scrub_scan (walk_item p) (n, vs) = ((n1, vs1), None)"
    "vs1 = vs @ (if ValidHash (base_name (fst p)) then [(base_name (fst p), of_nat (length (f_data (snd p))))] else [])"
    by (cases "ValidHash (base_name (fst p))") (simp_all add: scrub_scan_def walk_item_def)
  with Cons.prems have "fold_cb scrub_scan (map walk_item ps) (n1, vs1) = ((n', vs'), e)" by simp
  from Cons.IH [OF this] one(2) show ?case by simp
qed simp

lemma scrub_fold:
  assumes "\<forall>v \<in> set vs. blob_at fs (fst v) \<noteq> None"
  shows "\<exists>rep'. fold_cb (scrub_one E fs) vs rep = (rep', None) \<and>
    sr_corrupt rep' = sr_corrupt rep @ filter (\<lambda>h. sha256_hex E (the (blob_at fs h)) \<noteq> h) (map fst vs)"
  using assms
proof (induction vs arbitrary: rep)
  case (Cons v vs)
  then obtain d where d: "blob_at fs (fst v) = Some d" by auto
  then have o: "blob_open (fst v) fs = Inr d" by (simp add: blob_open_at)
  obtain rep1 where one: "scrub_one E fs v rep = (rep1, None)"
    "sr_corrupt rep1 = sr_corrupt rep @ (if sha256_hex E d = fst v then [] else [fst v])"
    by (auto simp: scrub_one_def blob_verify_def o Let_def)
  from Cons.IH [of rep1] Cons.prems show ?case using one d by auto
qed simp

lemma scrub_report:
  assumes p: "placed fs"
  shows "\<exists>rep. store_Scrub E fs = (rep, None) \<and>
    set (sr_corrupt rep) = {h. \<exists>d. blob_at fs h = Some d \<and> sha256_hex E d \<noteq> h}"
proof -
  let ?vs = "map (\<lambda>p. (base_name (fst p), of_nat (length (f_data (snd p))) :: i64)) (filter (\<lambda>p. ValidHash (base_name (fst p))) (bf_blobs fs))"
  obtain n vs e where w: "blob_walk scrub_scan fs (0, []) = ((n, vs), e)" by (metis prod.collapse)
  from scrub_scan_all [OF w [unfolded blob_walk_def]] have e: "e = None" and vs: "vs = ?vs" by simp_all
  have at: "h \<in> fst ` set vs \<longleftrightarrow> blob_at fs h \<noteq> None" for h
  proof
    assume "h \<in> fst ` set vs"
    then obtain q where q: "q \<in> set (bf_blobs fs)" "ValidHash (base_name (fst q))" "h = base_name (fst q)" by (auto simp: vs)
    then have "bk_get (bf_blobs fs) (blob_Path h) = Some (snd q)"
      using p bk_get_iff [of "bf_blobs fs" "blob_Path h" "snd q"] by (auto simp: placed_def)
    with q show "blob_at fs h \<noteq> None" by (simp add: blob_at_def)
  next
    assume "blob_at fs h \<noteq> None"
    then obtain f where "ValidHash h" "(blob_Path h, f) \<in> set (bf_blobs fs)" by (auto simp: blob_at_def dest: bk_get_in split: if_splits)
    then show "h \<in> fst ` set vs" by (force simp: vs image_iff)
  qed
  obtain rep' where r: "fold_cb (scrub_one E fs) vs \<lparr>sr_blobs = 0, sr_bytes = 0, sr_corrupt = [], sr_foreign = n\<rparr> = (rep', None)"
    "sr_corrupt rep' = filter (\<lambda>h. sha256_hex E (the (blob_at fs h)) \<noteq> h) (map fst vs)"
    using scrub_fold [of vs fs E "\<lparr>sr_blobs = 0, sr_bytes = 0, sr_corrupt = [], sr_foreign = n\<rparr>"] at by force
  have "set (sr_corrupt rep') = {h. \<exists>d. blob_at fs h = Some d \<and> sha256_hex E d \<noteq> h}"
    using at by (auto simp: r(2))
  then show ?thesis using w e r(1) by (simp add: store_Scrub_def)
qed

end
