(* ===== verification/Layers.thy ===== *)
theory Layers
  imports Demo
begin

text \<open>
  The properties of the lower layers, each over its own component: the journal, the index
  and the blob files.  The index is also seen as a transition system, one step per
  transaction body of the code, with the reachable states described by an invariant.
\<close>

section \<open>Journal\<close>

text \<open>
  C29: an append that meets no I/O failure is durable and ordered: the record gets the next sequence
  number, a reader from any earlier point then sees exactly what it saw before followed by this
  record, and no reader sees it twice.
\<close>

theorem append_then_replay:
  assumes "jwf E j" "Suc (unat (j_last j)) < 2 ^ 64" "line_ok E (stamp_rec now j r)"
  shows "\<exists>j'. jappend E None now r j = (j', Inr (j_last j + 1)) \<and> jwf E j' \<and> j_last j' = j_last j + 1 \<and>
    (\<forall>from (fn :: jrec \<Rightarrow> 's \<Rightarrow> 's \<times> gerr option) st. from \<le> j_last j + 1 \<longrightarrow>
       jreplay E from fn j' st = fold_cb fn (jpending E from j @ [stamp_rec now j r]) st) \<and>
    (\<forall>from (fn :: jrec \<Rightarrow> 's \<Rightarrow> 's \<times> gerr option) st. j_last j + 1 < from \<longrightarrow> jreplay E from fn j' st = (st, None))"
proof -
  let ?r = "stamp_rec now j r" and ?j = "jwritten E (stamp_rec now j r) j"
  have sq: "unat (r_seq ?r) = Suc (unat (j_last j))" using unat_Suc64_bound [OF assms(2)] by simp
  note w = jwritten_laws [OF assms(1,3) sq]
  have a: "jappend E None now r j = (?j, Inr (j_last j + 1))"
    using w(1) by (simp add: jappend_def Let_def stamp_rec_def)
  have up: "jreplay E from fn ?j st = fold_cb fn (jpending E from j @ [?r]) st" if "from \<le> j_last j + 1"
    for "from" and fn :: "jrec \<Rightarrow> 's \<Rightarrow> 's \<times> gerr option" and st
    using that by (simp add: jreplay_log [OF w(4)] jl.after_write [OF assms(1,3) sq])
  have top: "jreplay E from fn ?j st = (st, None)" if "j_last j + 1 < from"
    for "from" and fn :: "jrec \<Rightarrow> 's \<Rightarrow> 's \<times> gerr option" and st
    using that by (simp add: jreplay_log [OF w(4)] jl.after_top [OF w(4)] w(3))
  show ?thesis using a w(3,4) up top by (intro exI [of _ ?j]) simp
qed

lemma demo_delete_line: "line_ok demo_env (stamp_rec 7 jempty (delete_record ''media'' ''a.jpg''))"
  by (rule demo_line) (simp_all add: stamp_rec_def delete_record_def opDelete_def time_is_zero_def)

theorem append_then_replay_witness:
  "\<exists>j. jappend demo_env None 7 (delete_record ''media'' ''a.jpg'') jempty = (j, Inr 1) \<and>
     jreplay demo_env 1 (\<lambda>r st. (st @ [r_key r], None)) j [] = ([''a.jpg''], None)"
proof -
  have "Suc (unat (j_last jempty)) < 2 ^ 64" by (simp add: jempty_def)
  from append_then_replay [OF jwf_empty this demo_delete_line] obtain j where
    j: "jappend demo_env None 7 (delete_record ''media'' ''a.jpg'') jempty = (j, Inr (j_last jempty + 1))"
    and up: "\<forall>from fn st. from \<le> j_last jempty + 1 \<longrightarrow> jreplay demo_env from fn j st =
      fold_cb fn (jpending demo_env from jempty @ [stamp_rec 7 jempty (delete_record ''media'' ''a.jpg'')]) (st :: string list)" by blast
  have "(1 :: u64) \<le> j_last jempty + 1" by (simp add: jempty_def)
  with up have "jreplay demo_env 1 (\<lambda>r st. (st @ [r_key r], None)) j [] =
      fold_cb (\<lambda>r st. (st @ [r_key r], None)) (jpending demo_env 1 jempty @ [stamp_rec 7 jempty (delete_record ''media'' ''a.jpg'')]) []" by blast
  moreover have "jpending demo_env 1 jempty = []" by (simp add: jpending_inv)
  ultimately show ?thesis using j by (simp add: jempty_def delete_record_def)
qed

text \<open>
  Pruning never takes what a reader may still ask for: after \<open>Prune(keepFrom)\<close>, stopped by a
  removal error or not, a replay from \<open>keepFrom\<close> or later delivers the same records in the same
  order as before, the journal is well-formed and its last sequence is unchanged.
\<close>

theorem prune_keeps_the_tail:
  assumes "jwf E j" "jprune rm keepFrom j = (j', m, e)" "keepFrom \<le> from"
  shows "jwf E j' \<and> j_last j' = j_last j \<and> jreplay E from fn j' st = jreplay E from fn j st"
  by (rule jprune_replay [OF assms])

theorem prune_keeps_the_tail_witness:
  "\<exists>j j' m e. jappend demo_env None 7 (delete_record ''media'' ''a.jpg'') jempty = (j, Inr 1) \<and>
     jprune (\<lambda>_. True) 1 j = (j', m, e) \<and> jreplay demo_env 1 collect_cb j' [] = jreplay demo_env 1 collect_cb j []"
proof -
  let ?r = "stamp_rec 7 jempty (delete_record ''media'' ''a.jpg'')"
  have "unat (r_seq ?r) = Suc (unat (j_last jempty))" by (simp add: jempty_def)
  note w = jwritten_laws [OF jwf_empty demo_delete_line this]
  obtain j' m e where p: "jprune (\<lambda>_. True) 1 (jwritten demo_env ?r jempty) = (j', m, e)" by (metis prod.collapse)
  have "jappend demo_env None 7 (delete_record ''media'' ''a.jpg'') jempty = (jwritten demo_env ?r jempty, Inr 1)"
    using w(1) by (simp add: jappend_def Let_def stamp_rec_def jempty_def)
  moreover note prune_keeps_the_tail [OF w(4) p order_refl, of collect_cb "[]"]
  ultimately show ?thesis using p by blast
qed

text \<open>
  A crash in the middle of an append loses nothing that was acknowledged: whatever part of a
  record it left at the end of the newest segment, \<open>Open\<close> cuts exactly that off, and the reopened
  journal has the same records and continues with the same sequence number.
\<close>

theorem torn_record_is_cut_off:
  assumes "journal_inv E j" "NL \<notin> set frag" "seg_sorted (j_dir j) \<noteq> []"
  shows "\<exists>j'. snd (jopen E None (dir_append (fst (last (seg_sorted (j_dir j)))) frag (j_dir j))) = Inr j' \<and>
    jlog E j' = jlog E j \<and> j_last j' = j_last j \<and> j_dir j' = j_dir j \<and> journal_inv E j'"
proof -
  have d: "dir_append (fst (last (seg_sorted (j_dir j)))) frag (j_dir j) =
      (if seg_sorted (j_dir j) = [] then j_dir j else dir_append (fst (last (seg_sorted (j_dir j)))) frag (j_dir j))"
    using assms(3) by simp
  show ?thesis using reopen_journal [OF assms(1,2) d] by (simp add: reopened_def)
qed

theorem torn_record_is_cut_off_witness:
  "\<exists>j j'. jappend demo_env None 7 (delete_record ''media'' ''a.jpg'') jempty = (j, Inr 1) \<and>
     snd (jopen demo_env None (dir_append (fst (last (seg_sorted (j_dir j)))) ''{torn'' (j_dir j))) = Inr j' \<and>
     map r_key (jlog demo_env j') = [''a.jpg''] \<and> j_last j' = 1"
proof -
  let ?r = "stamp_rec 7 jempty (delete_record ''media'' ''a.jpg'')"
  have sq: "unat (r_seq ?r) = Suc (unat (j_last jempty))" by (simp add: jempty_def)
  note w = jwritten_laws [OF jwf_empty demo_delete_line sq]
  let ?j = "jwritten demo_env ?r jempty"
  have a: "jappend demo_env None 7 (delete_record ''media'' ''a.jpg'') jempty = (?j, Inr 1)"
    using w(1) by (simp add: jappend_def Let_def stamp_rec_def jempty_def)
  have "rec_ok demo_env ?r"
    by (simp add: rec_ok_def stamp_rec_def delete_record_def time_is_zero_def name_ok_def demo_env_def store_ns_def ix_namespace_def ScopeStore_def)
  moreover have l0: "j_last jempty = 0" by (simp add: jempty_def)
  ultimately have inv: "journal_inv demo_env ?j" using w(2,4) sq by (simp add: journal_inv_def)
  have now: "map r_key (jlog demo_env ?j) = [''a.jpg'']" "j_last ?j = 1"
    using w(3) l0 unfolding w(2) by (simp_all add: delete_record_def)
  have "jlog demo_env ?j \<noteq> []" using w(2) by simp
  then have "seg_sorted (j_dir ?j) \<noteq> []" by (auto simp: jlog_def jreplay_def segments_def)
  moreover have "NL \<notin> set ''{torn''" by (simp add: NL_def)
  ultimately obtain j' where "snd (jopen demo_env None (dir_append (fst (last (seg_sorted (j_dir ?j)))) ''{torn'' (j_dir ?j))) = Inr j'"
    "jlog demo_env j' = jlog demo_env ?j" "j_last j' = j_last ?j" using torn_record_is_cut_off [OF inv] by blast
  with a now show ?thesis by (intro exI [of _ ?j] exI [of _ j']) simp
qed

section \<open>Index\<close>

text \<open>The transactions of the code, one rule per body; a clock that has run stamps the references.\<close>

inductive idx_step :: "env \<Rightarrow> idx \<Rightarrow> idx \<Rightarrow> bool" for E :: env where
  put: "tx_put E now ns e x = Inr x' \<Longrightarrow> idx_step E x x'"
| del: "tx_delete E ns key x = Inr (old, x') \<Longrightarrow> idx_step E x x'"
| state: "tx_setState E ns key st x = Inr (b, x') \<Longrightarrow> idx_step E x x'"
| ref: "tx_ref E h d now x = Inr (n, x') \<Longrightarrow> \<not> time_is_zero now \<Longrightarrow> idx_step E x x'"
| dropRef: "tx_dropRef h x = Inr x' \<Longrightarrow> idx_step E x x'"
| setMeta: "tx_setMeta E k v x = Inr x' \<Longrightarrow> idx_step E x x'"
| delMeta: "tx_delMeta k x = Inr x' \<Longrightarrow> idx_step E x x'"
| dropNs: "idx_step E x (ix_dropNamespace ns x)"
| flush: "flush_ns E pending x = Inr x' \<Longrightarrow> idx_step E x x'"

lemma idx_step_inv: "idx_step E x x' \<Longrightarrow> idx_inv x \<Longrightarrow> idx_inv x'"
proof (induction rule: idx_step.induct)
  case put then show ?case using tx_put_Inr(1) by blast
next
  case del then show ?case using tx_delete_Inr(1) by blast
next
  case state then show ?case using tx_setState_Inr(1) by blast
next
  case ref then show ?case using tx_ref_Inr(1) by blast
next
  case dropRef then show ?case using tx_dropRef_Inr(1) by blast
next
  case setMeta then show ?case using tx_setMeta_Inr(1) by blast
next
  case delMeta then show ?case using tx_delMeta_Inr(1) by blast
next
  case dropNs then show ?case by (rule dropNamespace_inv)
next
  case flush then show ?case using flush_ns_Inr by blast
qed

text \<open>
  C30: after any sequence of transactions from an empty index, the stored counters of every
  namespace are the totals over its entries (objects and bytes, all, local and dirty), and a
  reference record carries the stamp \<open>UnrefAt\<close> exactly when its count is not positive.
\<close>

theorem index_counters_exact:
  assumes "(idx_step E)\<^sup>*\<^sup>* idx_empty x"
  shows "ix_statsOf ns x = Inr (stats_of (ns_objs x ns)) \<and>
    (\<forall>h r. ix_ref x h = Some r \<longrightarrow> (sint (rf_count r) \<le> 0 \<longleftrightarrow> \<not> time_is_zero (rf_unrefAt r)))"
proof -
  have "idx_inv x" using assms by (induction rule: rtranclp_induct) (simp_all add: idx_step_inv)
  then show ?thesis
    by (auto simp: idx_invD(3) ix_ref_def idx_inv_def refs_ok_def ref_ok_def split: option.splits raw.splits)
qed

definition demo_row :: entry where
  "demo_row = \<lparr>e_key = ''a.jpg'', e_size = 5, e_mtime = 1, e_mode = 420, e_hash = ''h'', e_etag = ''t'',
     e_state = Dirty, e_atime = 1, e_pinned = False\<rparr>"

theorem index_counters_exact_witness:
  "\<exists>x. tx_put demo_env 1 ''s3:media'' demo_row idx_empty = Inr x \<and>
     ix_statsOf ''s3:media'' x = Inr \<lparr>s_objects = 1, s_bytes = 5, s_localObjects = 1, s_localBytes = 5, s_dirtyObjects = 1, s_dirtyBytes = 5\<rparr>"
proof -
  have "name_ok demo_env (e_key demo_row)" "name_ok demo_env ''s3:media''" by (simp_all add: name_ok_def demo_env_def demo_row_def)
  then obtain x where x: "tx_put demo_env 1 ''s3:media'' demo_row idx_empty = Inr x" using tx_put_succeeds by fastforce
  then have r: "(idx_step demo_env)\<^sup>*\<^sup>* idx_empty x" by (blast intro: idx_step.put)
  have e: "ns_objs idx_empty ''s3:media'' = []" by (simp add: ns_objs_def idx_empty_def bk_get_def)
  have "ns_objs x ''s3:media'' = [(''a.jpg'', Enc demo_row)]"
    using x unfolding tx_put_eq [OF idx_inv_empty] e by (auto simp: demo_row_def stamped_def time_is_zero_def split: if_splits)
  with index_counters_exact [OF r, of "''s3:media''"] x show ?thesis
    by (simp add: stats_of_def bk_sum_def demo_row_def w_local_def w_dirty_def st_local_def)
qed

text \<open>
  A walk is complete, exact and ordered: the walk with a prefix calls its callback for
  exactly the entries whose key starts with the prefix, once each, in ascending byte order of
  their keys.
\<close>

theorem prefix_walk_is_exact:
  assumes "idx_inv x"
  shows "\<exists>es. ix_walkPrefix ns prefix fn x st = fold_cb fn es st \<and> sorted_wrt (<) (map e_key es) \<and>
    (\<forall>e. e \<in> set es \<longleftrightarrow> ix_lookup x (ns, e_key e) = Some e \<and> has_prefix (e_key e) prefix)"
proof -
  let ?es = "filter (\<lambda>e. has_prefix (e_key e) prefix) (entries_of (ns_objs x ns))"
  have "sorted_wrt (<) (map e_key ?es)"
    using entries_of_sorted [OF idx_invD(1) [OF assms], of ns] by (simp add: sorted_wrt_map sorted_wrt_filter)
  then show ?thesis
    using ix_walkPrefix_entries [OF assms] entries_of_lookup [OF assms] by (intro exI [of _ ?es]) auto
qed

theorem prefix_walk_is_exact_witness:
  "\<exists>x. tx_put demo_env 1 ''s3:media'' demo_row idx_empty = Inr x \<and>
     fst (ix_walkPrefix ''s3:media'' ''a.'' (\<lambda>e st. (st @ [e_key e], None)) x []) \<noteq> []"
proof -
  have "name_ok demo_env (e_key demo_row)" "name_ok demo_env ''s3:media''" by (simp_all add: name_ok_def demo_env_def demo_row_def)
  then obtain x where x: "tx_put demo_env 1 ''s3:media'' demo_row idx_empty = Inr x" using tx_put_succeeds by fastforce
  note t = tx_put_Inr [OF idx_inv_empty x]
  from prefix_walk_is_exact [OF t(1), of "''s3:media''" "''a.''" "\<lambda>e st. (st @ [e_key e], None)" "[]"] obtain es where
    es: "ix_walkPrefix ''s3:media'' ''a.'' (\<lambda>e st. (st @ [e_key e], None)) x [] = fold_cb (\<lambda>e st. (st @ [e_key e], None)) es []"
    "\<forall>e. e \<in> set es \<longleftrightarrow> ix_lookup x (''s3:media'', e_key e) = Some e \<and> has_prefix (e_key e) ''a.''" by blast
  have "stamped 1 demo_row \<in> set es"
    using es(2) t(2) by (simp add: demo_row_def has_prefix_iff)
  moreover have "fold_cb (\<lambda>e st. (st @ [e_key e], None :: gerr option)) es st = (st @ map e_key es, None)" for st
    by (induction es arbitrary: st) auto
  ultimately show ?thesis using es(1) x by auto
qed

text \<open>
  Flushing the pending access times changes nothing but access times: no entry appears or
  disappears, and no other field, reference record or metadata value changes, whether the
  transaction commits or fails.
\<close>

theorem flush_changes_only_access_times:
  assumes "db_inv d"
  shows "db_inv (db_flushATimes E ok d) \<and> (\<forall>p. atime_only (db_view d p) (db_view (db_flushATimes E ok d) p)) \<and>
    ix_refs (db_file (db_flushATimes E ok d)) = ix_refs (db_file d) \<and>
    ix_meta (db_file (db_flushATimes E ok d)) = ix_meta (db_file d)"
  using db_flush_inv [OF assms] db_flush_view [OF assms] by blast

theorem flush_changes_only_access_times_witness:
  "\<exists>x. tx_put demo_env 1 ''s3:media'' demo_row idx_empty = Inr x \<and>
     (\<exists>e. db_view (db_flushATimes demo_env True (db_touch ''s3:media'' ''a.jpg'' 99 \<lparr>db_file = x, db_pending = []\<rparr>)) (''s3:media'', ''a.jpg'') = Some e \<and>
       e_hash e = ''h'')"
proof -
  have "name_ok demo_env (e_key demo_row)" "name_ok demo_env ''s3:media''" by (simp_all add: name_ok_def demo_env_def demo_row_def)
  then obtain x where x: "tx_put demo_env 1 ''s3:media'' demo_row idx_empty = Inr x" using tx_put_succeeds by fastforce
  note t = tx_put_Inr [OF idx_inv_empty x]
  let ?d = "db_touch ''s3:media'' ''a.jpg'' 99 \<lparr>db_file = x, db_pending = []\<rparr>"
  have f: "db_file ?d = x" by (simp add: db_touch_def Let_def)
  have "db_inv ?d" using t(1) f by (simp add: db_inv_def)
  from flush_changes_only_access_times [OF this, of demo_env True] have
    "atime_only (db_view ?d (''s3:media'', ''a.jpg'')) (db_view (db_flushATimes demo_env True ?d) (''s3:media'', ''a.jpg''))" by blast
  moreover have "db_view ?d (''s3:media'', ''a.jpg'') = Some (stamped 1 demo_row)"
    unfolding db_view_def f t(2) by (simp add: demo_row_def)
  ultimately obtain e where e: "db_view (db_flushATimes demo_env True ?d) (''s3:media'', ''a.jpg'') = Some e"
    "e = (stamped 1 demo_row)\<lparr>e_atime := e_atime e\<rparr>" by (auto simp: atime_only_def option_rel_Some1)
  have "e_hash e = ''h''" by (subst e(2)) (simp add: demo_row_def)
  with e(1) x show ?thesis by blast
qed

section \<open>Blob files\<close>



text \<open>
  No name leaves the blob directory: a string that is not 64 lower-case hexadecimal digits is
  refused by every operation before a path is built, with the files untouched, and a valid
  hash has its own path, with no separator or dot taken from the name.
\<close>

theorem blob_paths_are_confined:
  "(\<not> ValidHash h \<longrightarrow> (\<exists>e. blob_open h fs = Inl e) \<and> (\<exists>e. blob_stat h fs = Inl e) \<and> (\<exists>e. blob_remove ok h fs = (fs, Some e)) \<and>
      (\<exists>e. blob_verify E h fs = Inl e)) \<and>
   (ValidHash h \<longrightarrow> blob_Path h = ''blobs/'' @ take 2 h @ ''/'' @ take 2 (drop 2 h) @ ''/'' @ h \<and>
      CHR ''/'' \<notin> set h \<and> CHR ''.'' \<notin> set h \<and> (\<forall>k. ValidHash k \<longrightarrow> blob_Path k = blob_Path h \<longrightarrow> k = h))"
proof -
  have "\<not> is_lower_hex (CHR ''.'')" by (simp add: is_lower_hex_def is_digit_def)
  then have "CHR ''/'' \<notin> set h \<and> CHR ''.'' \<notin> set h" if "ValidHash h"
    using that ValidHash_no_slash [OF that] by (auto simp: ValidHash_def list_all_iff)
  moreover have "blob_Path k = blob_Path h \<longrightarrow> k = h" if "ValidHash h" "ValidHash k" for k
    using blob_Path_inject [OF that] by auto
  ultimately show ?thesis
    using blob_Path_valid [of h] by (auto simp: blob_open_def blob_stat_def blob_remove_def blob_verify_def)
qed

theorem blob_paths_are_confined_witness:
  "\<exists>e. blob_open ''../../etc/passwd'' blobs_empty = Inl e"
  using blob_paths_are_confined [of "''../../etc/passwd''" blobs_empty True demo_env] by (simp add: ValidHash_def)

end
