(* ===== verification/Replica.thy ===== *)
theory Replica
  imports Durability Demo
begin

text \<open>
  internal/store/replica.go: the secondary pulls the primary's journal and applies it.
  The primary's two handlers answer from a \<open>store\<close>; the network is a \<open>peer\<close>, two
  functions from the \<open>Authorization\<close> header and the request's argument to a reply, so
  the secondary's code can be run against an honest primary, a lossy network or a
  peer that lies.  A JSON body is a \<open>raw\<close> value; a blob body is a reader, with the
  error a transfer that broke off ends with.
\<close>

datatype 'b reply = NetFail | Status nat 'b

record journalPage =
  jp_records :: "jrec list"
  jp_last :: u64

record peer =
  pe_journal :: "string \<Rightarrow> string \<Rightarrow> journalPage raw reply"
  pe_blob :: "string \<Rightarrow> string \<Rightarrow> reader reply"

record replicaStatus =
  rs_mode :: string
  rs_from :: string
  rs_applied :: u64
  rs_upstream :: u64
  rs_lag :: u64
  rs_error :: "gerr option"
  rs_lastPull :: gotime

record secondary =
  sec_store :: store
  sec_from :: string
  sec_secret :: string
  sec_status :: replicaStatus

definition replicaAuthScheme :: string where "replicaAuthScheme = ''TANA-REPLICA''"
definition replicaBatch :: nat where "replicaBatch = 500"
definition replicaPollFloor :: duration where "replicaPollFloor = 1000000000"

subsection \<open>The primary's handlers\<close>

definition cutPrefix :: "string \<Rightarrow> string \<Rightarrow> string \<times> bool" where
  "cutPrefix s prefix =
     (if length s < length prefix \<or> take (length prefix) s \<noteq> prefix then ([], False)
      else (drop (length prefix) s, True))"

definition replicaAuthorized :: "string \<Rightarrow> string \<Rightarrow> bool" where
  "replicaAuthorized header secret =
     (if secret = [] then False
      else (case cutPrefix header (replicaAuthScheme @ '' '') of
              (got, ok) \<Rightarrow> if \<not> ok then False else got = secret))"

definition batch_full :: gerr where "batch_full = Errf ''batch full''"

definition page_cb :: "jrec \<Rightarrow> jrec list \<Rightarrow> jrec list \<times> gerr option" where
  "page_cb r rs = (if replicaBatch \<le> length rs then (rs, Some batch_full) else (rs @ [r], None))"

definition serve_journal :: "env \<Rightarrow> store \<Rightarrow> string \<Rightarrow> string \<Rightarrow> string \<Rightarrow> journalPage raw reply" where
  "serve_journal E s secret auth from_param =
     (if \<not> replicaAuthorized auth secret then Status 403 Bad
      else
        (case parse_uint from_param of
           None \<Rightarrow> Status 400 Bad
         | Some start \<Rightarrow>
             (case jreplay E start page_cb (s_jrnl s) [] of
                (rs, err) \<Rightarrow>
                  if err \<noteq> None \<and> err \<noteq> Some batch_full then Status 500 Bad
                  else Status 200 (Enc \<lparr>jp_records = rs, jp_last = j_last (s_jrnl s)\<rparr>))))"

definition serve_blob :: "store \<Rightarrow> string \<Rightarrow> string \<Rightarrow> string \<Rightarrow> reader reply" where
  "serve_blob s secret auth hash =
     (if \<not> replicaAuthorized auth secret then Status 403 ([], None)
      else if \<not> ValidHash hash then Status 400 ([], None)
      else (case blob_open hash (s_blobs s) of
              Inl _ \<Rightarrow> Status 404 ([], None)
            | Inr data \<Rightarrow> Status 200 (data, None)))"

definition primary_peer :: "env \<Rightarrow> store \<Rightarrow> string \<Rightarrow> peer" where
  "primary_peer E s secret = \<lparr>pe_journal = serve_journal E s secret, pe_blob = serve_blob s secret\<rparr>"

subsection \<open>The secondary\<close>

definition NewSecondary :: "store \<Rightarrow> replicacfg \<Rightarrow> secondary" where
  "NewSecondary s cfg =
     \<lparr>sec_store = s, sec_from = rc_from cfg, sec_secret = rc_secret cfg,
      sec_status = \<lparr>rs_mode = ''secondary'', rs_from = rc_from cfg, rs_applied = 0, rs_upstream = 0, rs_lag = 0,
                    rs_error = None, rs_lastPull = 0\<rparr>\<rparr>"

definition sec_record :: "(replicaStatus \<Rightarrow> replicaStatus) \<Rightarrow> secondary \<Rightarrow> secondary" where
  "sec_record fn sec = sec\<lparr>sec_status := fn (sec_status sec)\<rparr>"

definition sec_auth :: "secondary \<Rightarrow> string" where
  "sec_auth sec = replicaAuthScheme @ '' '' @ sec_secret sec"

text \<open>\<open>get\<close>: only a reply with status 200 is a reply.\<close>

definition sec_get :: "'b reply \<Rightarrow> gerr + 'b" where
  "sec_get r = (case r of NetFail \<Rightarrow> Inl ErrIO
                | Status code body \<Rightarrow> if code \<noteq> 200 then Inl (Errf ''replica: http'') else Inr body)"

definition fetchJournal :: "peer \<Rightarrow> string \<Rightarrow> u64 \<Rightarrow> gerr + journalPage" where
  "fetchJournal pe auth start =
     res_bind (sec_get (pe_journal pe auth (format_uint start))) (\<lambda>body.
       case body of Bad \<Rightarrow> Inl (Errf ''replica: malformed journal page'') | Enc page \<Rightarrow> Inr page)"

definition fetchBlob :: "env \<Rightarrow> sysenv \<Rightarrow> peer \<Rightarrow> string \<Rightarrow> string \<Rightarrow> store \<Rightarrow> store \<times> gerr option" where
  "fetchBlob E sy pe auth hash s =
     (case sec_get (pe_blob pe auth hash) of
        Inl e \<Rightarrow> (s, Some e)
      | Inr body \<Rightarrow>
          (case blob_put E (sy_blob sy) (sy_clock sy 0) (sy_tmp sy) body (s_blobs s) of
             (fs, Inl e) \<Rightarrow> (s\<lparr>s_blobs := fs\<rparr>, Some e)
           | (fs, Inr info) \<Rightarrow>
               (s\<lparr>s_blobs := fs\<rparr>,
                if bi_hash info \<noteq> hash then Some (Errf ''replica: primary served another blob'') else None)))"

text \<open>\<open>applyOne\<close>: the blob, then the journal, then the index.\<close>

definition have_blob :: "env \<Rightarrow> sysenv \<Rightarrow> peer \<Rightarrow> string \<Rightarrow> jrec \<Rightarrow> store \<Rightarrow> store \<times> gerr option" where
  "have_blob E sy pe auth r s =
     (if r_op r = opPut \<and> r_hash r \<noteq> [] then
        (case blob_stat (r_hash r) (s_blobs s) of
           Inl e \<Rightarrow> (s, Some e)
         | Inr (Some _) \<Rightarrow> (s, None)
         | Inr None \<Rightarrow>
             (case fetchBlob E sy pe auth (r_hash r) s of
                (s1, Some _) \<Rightarrow> (s1, Some (Errf ''replica: fetch blob''))
              | (s1, None) \<Rightarrow> (s1, None)))
      else (s, None))"

definition applyOne :: "env \<Rightarrow> sysenv \<Rightarrow> peer \<Rightarrow> string \<Rightarrow> jrec \<Rightarrow> store \<Rightarrow> store \<times> gerr option" where
  "applyOne E sy pe auth r s =
     (case have_blob E sy pe auth r s of
        (s1, Some e) \<Rightarrow> (s1, Some e)
      | (s1, None) \<Rightarrow>
          (case jappendAt E (sy_app sy) (sy_clock sy 1) r (s_jrnl s1) of
             (j, Some e) \<Rightarrow> (s1\<lparr>s_jrnl := j\<rparr>, Some e)
           | (j, None) \<Rightarrow>
               (case db_update (sy_commit sy) (unit_tx (store_apply E (sy_clock sy 2) r)) (s_db s1) of
                  (d, Inl e) \<Rightarrow> (s1\<lparr>s_jrnl := j, s_db := d\<rparr>, Some e)
                | (d, Inr _) \<Rightarrow> (s1\<lparr>s_jrnl := j, s_db := d\<rparr>, None))))"

text \<open>One \<open>sysenv\<close> per record of the batch; the count is of the records applied.\<close>

fun apply_batch ::
    "env \<Rightarrow> (nat \<Rightarrow> sysenv) \<Rightarrow> peer \<Rightarrow> string \<Rightarrow> jrec list \<Rightarrow> nat \<Rightarrow> store \<Rightarrow> store \<times> nat \<times> gerr option" where
  "apply_batch E sys pe auth [] n s = (s, n, None)"
| "apply_batch E sys pe auth (r # rs) n s =
     (case applyOne E (sys n) pe auth r s of
        (s', Some e) \<Rightarrow> (s', n, Some e)
      | (s', None) \<Rightarrow> apply_batch E sys pe auth rs (Suc n) s')"

definition Pull :: "env \<Rightarrow> gotime \<Rightarrow> (nat \<Rightarrow> sysenv) \<Rightarrow> peer \<Rightarrow> secondary \<Rightarrow> secondary \<times> nat \<times> gerr option" where
  "Pull E now sys pe sec =
     (case appliedSeq (s_db (sec_store sec)) of
        Inl e \<Rightarrow> (sec, 0, Some e)
      | Inr applied \<Rightarrow>
          (case fetchJournal pe (sec_auth sec) (applied + 1) of
             Inl e \<Rightarrow> (sec_record (\<lambda>st. st\<lparr>rs_error := Some e\<rparr>) sec, 0, Some e)
           | Inr page \<Rightarrow>
               let sec1 = sec_record (\<lambda>st. st\<lparr>rs_error := None, rs_lastPull := now, rs_upstream := jp_last page\<rparr>) sec in
               if jp_records page = [] then
                 (sec_record (\<lambda>st. st\<lparr>rs_applied := applied, rs_lag := jp_last page - applied\<rparr>) sec1, 0, None)
               else
                 (case apply_batch E sys pe (sec_auth sec) (jp_records page) 0 (sec_store sec1) of
                    (s', count, Some e) \<Rightarrow>
                      (sec_record (\<lambda>st. st\<lparr>rs_error := Some e\<rparr>) (sec1\<lparr>sec_store := s'\<rparr>), count, Some e)
                  | (s', count, None) \<Rightarrow>
                      let done = (case appliedSeq (s_db s') of Inl _ \<Rightarrow> 0 | Inr v \<Rightarrow> v) in
                      (sec_record (\<lambda>st. st\<lparr>rs_applied := done,
                                          rs_lag := (if done < jp_last page then jp_last page - done else 0)\<rparr>)
                         (sec1\<lparr>sec_store := s'\<rparr>), count, None))))"

definition pull_interval :: "duration \<Rightarrow> duration" where
  "pull_interval interval = (if interval < replicaPollFloor then 10 * 1000000000 else interval)"

text \<open>\<open>Start\<close>: pull at once, then once for every tick until the loop is stopped; an error is only logged.\<close>

fun secondary_Start :: "env \<Rightarrow> (gotime \<times> (nat \<Rightarrow> sysenv)) list \<Rightarrow> peer \<Rightarrow> secondary \<Rightarrow> secondary" where
  "secondary_Start E [] pe sec = sec"
| "secondary_Start E (t # ts) pe sec = secondary_Start E ts pe (fst (Pull E (fst t) (snd t) pe sec))"

subsection \<open>Authorization\<close>

lemma cutPrefix_Some: "cutPrefix s p = (t, True) \<longleftrightarrow> s = p @ t"
  by (auto simp: cutPrefix_def append_eq_conv_conj not_less) (metis append_take_drop_id)

lemma replicaAuthorized_iff:
  "replicaAuthorized header secret \<longleftrightarrow> secret \<noteq> [] \<and> header = replicaAuthScheme @ '' '' @ secret"
proof -
  obtain got ok where c: "cutPrefix header (replicaAuthScheme @ '' '') = (got, ok)" by force
  show ?thesis
    using c cutPrefix_Some [of header "replicaAuthScheme @ '' ''" secret]
      cutPrefix_Some [of header "replicaAuthScheme @ '' ''" got]
    by (cases ok) (auto simp: replicaAuthorized_def)
qed

lemma sec_auth_authorized: "sec_secret sec \<noteq> [] \<Longrightarrow> replicaAuthorized (sec_auth sec) (sec_secret sec)"
  by (simp add: replicaAuthorized_iff sec_auth_def)

subsection \<open>A page of the journal\<close>

lemma fold_page_cb:
  "length acc \<le> replicaBatch \<Longrightarrow>
   fst (fold_cb page_cb rs acc) = acc @ take (replicaBatch - length acc) rs \<and>
   snd (fold_cb page_cb rs acc) \<in> {None, Some batch_full}"
proof (induction rs arbitrary: acc)
  case (Cons r rs)
  show ?case
  proof (cases "replicaBatch \<le> length acc")
    case True
    with Cons.prems show ?thesis by (simp add: page_cb_def)
  next
    case False
    with Cons.IH [of "acc @ [r]"] show ?thesis
      by (simp add: page_cb_def) (metis Suc_diff_Suc not_le take_Suc_Cons)
  qed
qed simp

lemma serve_journal_page:
  assumes "jwf E (s_jrnl p)" "replicaAuthorized auth secret"
  shows "serve_journal E p secret auth (format_uint start) =
    Status 200 (Enc \<lparr>jp_records = take replicaBatch (jpending E start (s_jrnl p)), jp_last = j_last (s_jrnl p)\<rparr>)"
  using fold_page_cb [of "[]" "jpending E start (s_jrnl p)"] assms
  by (auto simp: serve_journal_def jreplay_log split: prod.splits)

lemma fetchJournal_primary:
  assumes "jwf E (s_jrnl p)" "sec_secret sec \<noteq> []"
  shows "fetchJournal (primary_peer E p (sec_secret sec)) (sec_auth sec) start =
    Inr \<lparr>jp_records = take replicaBatch (jpending E start (s_jrnl p)), jp_last = j_last (s_jrnl p)\<rparr>"
  using serve_journal_page [OF assms(1) sec_auth_authorized [OF assms(2)]]
  by (simp add: fetchJournal_def primary_peer_def sec_get_def)


subsection \<open>Applying one record\<close>

text \<open>What the theorems ask of one received record: it decodes to something the store can hold, and there is room.\<close>

definition take_ready :: "env \<Rightarrow> jrec \<Rightarrow> journal \<Rightarrow> bool" where
  "take_ready E r j \<longleftrightarrow> rec_ok E r \<and> line_ok E r \<and> Suc (unat (j_last j)) < 2 ^ 64"

text \<open>The body a peer sends for a name is not raced by another writer of other bytes.\<close>

definition unraced :: "env \<Rightarrow> sysenv \<Rightarrow> bool" where
  "unraced E sy \<longleftrightarrow> (\<forall>f. sy_blob sy \<noteq> BF_rename (Some f))"

lemma unraced_fault_ok: "unraced E sy \<Longrightarrow> fault_ok E (sy_blob sy) d"
  by (auto simp: unraced_def fault_ok_def split: blob_fault.splits option.splits)

text \<open>
  However the peer answers: the blobs on disk stay, only content under its own digest is
  added, and success means the record's blob is there.
\<close>

lemma fetchBlob_effect:
  assumes sha: "sha_ok E" and u: "unraced E sy" and bi: "blob_inv E (s_blobs s)"
    and res: "fetchBlob E sy pe auth h s = (s', e)"
  obtains fs where "s' = s\<lparr>s_blobs := fs\<rparr>" "blob_inv E fs" "\<And>k d. blob_at (s_blobs s) k = Some d \<Longrightarrow> blob_at fs k = Some d"
    "e = None \<Longrightarrow> blob_at fs h \<noteq> None" "bk_get (bf_tmp fs) = bk_get (bf_tmp (s_blobs s))"
proof (cases "sec_get (pe_blob pe auth h)")
  case (Inl e')
  with res have "s' = s\<lparr>s_blobs := s_blobs s\<rparr>" "e \<noteq> None" by (auto simp: fetchBlob_def)
  then show ?thesis using that bi by blast
next
  case (Inr body)
  obtain fs r where p: "blob_put E (sy_blob sy) (sy_clock sy 0) (sy_tmp sy) body (s_blobs s) = (fs, r)" by force
  note f = unraced_fault_ok [OF u]
  have "s' = s\<lparr>s_blobs := fs\<rparr>" using res Inr p by (auto simp: fetchBlob_def split: sum.splits)
  moreover have "blob_at fs h \<noteq> None" if "e = None"
    using res Inr p that blob_put_effect(2) [OF sha f p] by (auto simp: fetchBlob_def split: sum.splits if_splits)
  ultimately show ?thesis
    using that blob_put_inv [OF sha f bi p] blob_put_keeps [OF sha f p] blob_put_effect(3) [OF sha f p] by blast
qed

lemma have_blob_effect:
  assumes sha: "sha_ok E" and u: "unraced E sy" and bi: "blob_inv E (s_blobs s)"
    and res: "have_blob E sy pe auth r s = (s', e)"
  obtains fs where "s' = s\<lparr>s_blobs := fs\<rparr>" "blob_inv E fs" "\<And>k d. blob_at (s_blobs s) k = Some d \<Longrightarrow> blob_at fs k = Some d"
    "e = None \<Longrightarrow> r_op r = opPut \<Longrightarrow> r_hash r \<noteq> [] \<Longrightarrow> blob_at fs (r_hash r) \<noteq> None"
    "bk_get (bf_tmp fs) = bk_get (bf_tmp (s_blobs s))"
proof -
  consider (fetched) e2 where "fetchBlob E sy pe auth (r_hash r) s = (s', e2)" "e = None \<longrightarrow> e2 = None"
    | (kept) "s' = s" "e = None \<longrightarrow> r_op r = opPut \<longrightarrow> r_hash r \<noteq> [] \<longrightarrow> blob_at (s_blobs s) (r_hash r) \<noteq> None"
    using res by (auto simp: have_blob_def blob_stat_def blob_at_def split: if_splits sum.splits option.splits prod.splits)
  then show ?thesis
  proof cases
    case fetched
    obtain fs where "s' = s\<lparr>s_blobs := fs\<rparr>" "blob_inv E fs" "\<And>k d. blob_at (s_blobs s) k = Some d \<Longrightarrow> blob_at fs k = Some d"
      "e2 = None \<Longrightarrow> blob_at fs (r_hash r) \<noteq> None" "bk_get (bf_tmp fs) = bk_get (bf_tmp (s_blobs s))"
      by (rule fetchBlob_effect [OF sha u bi fetched(1)]) blast
    then show ?thesis using fetched(2) by (intro that [of fs]) auto
  next
    case kept
    then have "s' = s\<lparr>s_blobs := s_blobs s\<rparr>" by simp
    then show ?thesis using that bi kept by blast
  qed
qed

lemma jappendAt_ok:
  assumes j: "journal_inv E j" and rdy: "take_ready E r j" and res: "jappendAt E f now r j = (j', None)"
  shows "journal_inv E j'" "jlog E j' = jlog E j @ [r]" "j_last j' = j_last j + 1" "r_seq r = j_last j + 1"
proof -
  show q: "r_seq r = j_last j + 1" using res by (auto simp: jappendAt_def split: if_splits)
  have nz: "\<not> time_is_zero (r_time r)" using rdy by (simp add: take_ready_def rec_ok_def)
  then obtain n where "write_record E f r j = (j', Inr n)"
    using res q by (auto simp: jappendAt_def split: prod.splits sum.splits)
  then have w: "write_record E None r j = (j', Inr n)" by (rule write_record_Inr)
  have seq: "unat (r_seq r) = Suc (unat (j_last j))" using unat_Suc64_bound rdy q by (simp add: take_ready_def)
  have wf: "jwf E j" and line: "line_ok E r" using j rdy by (simp_all add: journal_inv_def take_ready_def)
  note laws = jwritten_laws [OF wf line seq]
  have j': "j' = jwritten E r j" using laws(1) w by simp
  show log: "jlog E j' = jlog E j @ [r]" using laws(2) j' by simp
  show "j_last j' = j_last j + 1" using laws(3) j' q by simp
  have "consec 0 (jlog E j')" using j log seq journal_inv_last [OF j] by (simp add: journal_inv_def)
  then show "journal_inv E j'" using j log laws(4) j' rdy by (simp add: journal_inv_def take_ready_def)
qed

lemma applyOne_effect:
  assumes E: "env_ok E" and inv: "store_inv E s" and cu: "in_step E s" and u: "unraced E sy"
    and rdy: "take_ready E r (s_jrnl s)" and res: "applyOne E sy pe auth r s = (s', None)"
  shows "store_inv E s'" "caught_up s'" "jlog E (s_jrnl s') = jlog E (s_jrnl s) @ [r]"
    "r_seq r = j_last (s_jrnl s) + 1" "j_last (s_jrnl s') = j_last (s_jrnl s) + 1"
    "store_spec E s' = spec_apply r (store_spec E s)" "bk_get (bf_tmp (s_blobs s')) = bk_get (bf_tmp (s_blobs s))"
    "blob_at (s_blobs s) h = Some d \<Longrightarrow> blob_at (s_blobs s') h = Some d"
proof -
  obtain s1 where h: "have_blob E sy pe auth r s = (s1, None)"
    using res by (auto simp: applyOne_def split: prod.splits option.splits)
  have bi: "blob_inv E (s_blobs s)" and ji: "journal_inv E (s_jrnl s)" using inv by (simp_all add: store_inv_def)
  obtain fs where s1: "s1 = s\<lparr>s_blobs := fs\<rparr>" and fi: "blob_inv E fs"
    and keep: "\<And>k d. blob_at (s_blobs s) k = Some d \<Longrightarrow> blob_at fs k = Some d"
    and here: "r_op r = opPut \<Longrightarrow> r_hash r \<noteq> [] \<Longrightarrow> blob_at fs (r_hash r) \<noteq> None"
    and tmp: "bk_get (bf_tmp fs) = bk_get (bf_tmp (s_blobs s))"
    by (rule have_blob_effect [OF env_okD(1) [OF E] u bi h]) blast
  obtain j where ja: "jappendAt E (sy_app sy) (sy_clock sy 1) r (s_jrnl s) = (j, None)"
    using res h s1 by (auto simp: applyOne_def split: prod.splits option.splits)
  obtain d where up: "db_update (sy_commit sy) (unit_tx (store_apply E (sy_clock sy 2) r)) (s_db s) = (d, Inr ())"
    and s': "s' = s\<lparr>s_blobs := fs, s_jrnl := j, s_db := d\<rparr>"
    using res h s1 ja by (auto simp: applyOne_def split: prod.splits option.splits sum.splits)
  obtain x' where ap: "store_apply E (sy_clock sy 2) r (db_file (s_db s)) = Inr x'" and d: "d = (s_db s)\<lparr>db_file := x'\<rparr>"
    using up unfolding db_update_Inr unit_tx_Inr by blast
  note js = jappendAt_ok [OF ji rdy ja]
  have rok: "rec_ok E r" using rdy by (simp add: take_ready_def)
  have hne: "r_op r = opPut \<Longrightarrow> r_hash r \<noteq> []"
    using rok by (auto simp: rec_ok_def name_ok_def opPut_def opDelete_def opGC_def)
  have k: "blob_at fs h \<noteq> None" if "blob_at (s_blobs s) h \<noteq> None" for h using that keep by blast
  have sel: "s_jrnl s' = j" "s_blobs s' = fs" "db_file (s_db s') = x'" by (simp_all add: s' d)
  have sq: "r_seq r = j_last j" using js by simp
  note ir = indexed_record [OF inv cu js(1-3) fi k here [OF _ hne] rok sq refl ap sel]
  show "store_inv E s'" "caught_up s'" "store_spec E s' = spec_apply r (store_spec E s)" using ir(1-3) by blast+
  show "jlog E (s_jrnl s') = jlog E (s_jrnl s) @ [r]" "r_seq r = j_last (s_jrnl s) + 1" "j_last (s_jrnl s') = j_last (s_jrnl s) + 1"
    using js sel by simp_all
  show "bk_get (bf_tmp (s_blobs s')) = bk_get (bf_tmp (s_blobs s))" using sel tmp by simp
  show "blob_at (s_blobs s) h = Some d \<Longrightarrow> blob_at (s_blobs s') h = Some d" for h d using keep sel by simp
qed

text \<open>A disk that works; the network and the peer may still do anything.\<close>

definition disk_ok :: "env \<Rightarrow> sysenv \<Rightarrow> bool" where
  "disk_ok E sy \<longleftrightarrow> unraced E sy \<and> sy_app sy = None \<and> sy_commit sy"

lemma blobs_grown:
  assumes inv: "store_inv E s" and cu: "caught_up s" and fs: "blob_inv E fs"
    and keep: "\<And>k d. blob_at (s_blobs s) k = Some d \<Longrightarrow> blob_at fs k = Some d"
  shows "store_inv E (s\<lparr>s_blobs := fs\<rparr>)" "caught_up (s\<lparr>s_blobs := fs\<rparr>)"
proof -
  have "store_spec E (s\<lparr>s_blobs := fs\<rparr>) = store_spec E s" by (simp add: store_spec_def)
  then show "store_inv E (s\<lparr>s_blobs := fs\<rparr>)"
    using inv fs keep unfolding store_inv_def by simp blast
  show "caught_up (s\<lparr>s_blobs := fs\<rparr>)" using cu by (simp add: caught_up_def)
qed

lemma jappendAt_succeeds:
  assumes "journal_inv E j" "take_ready E r j" "r_seq r = j_last j + 1"
  shows "\<exists>j'. jappendAt E None now r j = (j', None)"
proof -
  have "unat (r_seq r) = Suc (unat (j_last j))" using unat_Suc64_bound assms by (simp add: take_ready_def)
  then have "write_record E None r j = (jwritten E r j, Inr (r_seq r))"
    using assms by (intro jwritten_laws(1)) (simp_all add: journal_inv_def take_ready_def)
  moreover have "\<not> time_is_zero (r_time r)" using assms by (simp add: take_ready_def rec_ok_def)
  ultimately show ?thesis using assms(3) by (simp add: jappendAt_def)
qed

lemma apply_commits:
  assumes E: "env_ok E" and inv: "store_inv E s" and rok: "rec_ok E r"
  shows "\<exists>d. db_update True (unit_tx (store_apply E t0 r)) (s_db s) = (d, Inr ())"
proof -
  have "index_ok E (db_file (s_db s))" using inv by (simp add: store_inv_def rec_index_ok_def)
  from store_apply_succeeds [OF this rok env_okD(3) [OF E]]
  obtain x' where "store_apply E t0 r (db_file (s_db s)) = Inr x'" by blast
  then have "db_update True (unit_tx (store_apply E t0 r)) (s_db s) = ((s_db s)\<lparr>db_file := x'\<rparr>, Inr ())"
    by (simp add: db_update_Inr)
  then show ?thesis by blast
qed

lemma applyOne_any:
  assumes E: "env_ok E" and inv: "store_inv E s" and cu: "caught_up s" and d: "disk_ok E sy"
    and rdy: "take_ready E r (s_jrnl s)" and res: "applyOne E sy pe auth r s = (s', e)"
  shows "store_inv E s'" "caught_up s'" "jlog E (s_jrnl s') = jlog E (s_jrnl s) @ (if e = None then [r] else [])"
    "bk_get (bf_tmp (s_blobs s')) = bk_get (bf_tmp (s_blobs s))"
    "blob_at (s_blobs s) h = Some dd \<Longrightarrow> blob_at (s_blobs s') h = Some dd"
    "e = None \<Longrightarrow> j_last (s_jrnl s') = j_last (s_jrnl s) + 1"
proof -
  have u: "unraced E sy" using d by (simp add: disk_ok_def)
  have "store_inv E s' \<and> caught_up s' \<and> jlog E (s_jrnl s') = jlog E (s_jrnl s) @ (if e = None then [r] else []) \<and>
    bk_get (bf_tmp (s_blobs s')) = bk_get (bf_tmp (s_blobs s)) \<and>
    (\<forall>h dd. blob_at (s_blobs s) h = Some dd \<longrightarrow> blob_at (s_blobs s') h = Some dd) \<and>
    (e = None \<longrightarrow> j_last (s_jrnl s') = j_last (s_jrnl s) + 1)"
  proof (cases e)
    case None
    note eff = applyOne_effect [OF E inv caught_up_in_step [OF inv cu] u rdy res [unfolded None]]
    from None eff(1-3,5,7) eff(8) show ?thesis by simp
  next
    case (Some x)
    obtain s1 e1 where h: "have_blob E sy pe auth r s = (s1, e1)" by force
    have bi: "blob_inv E (s_blobs s)" and ji: "journal_inv E (s_jrnl s)" using inv by (simp_all add: store_inv_def)
    obtain fs where s1: "s1 = s\<lparr>s_blobs := fs\<rparr>" and fi: "blob_inv E fs"
      and keep: "\<And>k d. blob_at (s_blobs s) k = Some d \<Longrightarrow> blob_at fs k = Some d"
      and tmp: "bk_get (bf_tmp fs) = bk_get (bf_tmp (s_blobs s))"
      by (rule have_blob_effect [OF env_okD(1) [OF E] u bi h]) blast
    note g = blobs_grown [OF inv cu fi keep]
    have rok: "rec_ok E r" using rdy by (simp add: take_ready_def)
    have "s' = s1"
    proof (cases e1)
      case e1: None
      show ?thesis
      proof (cases "r_seq r = j_last (s_jrnl s) + 1")
        case True
        from jappendAt_succeeds [OF ji rdy True] obtain j where "jappendAt E None (sy_clock sy 1) r (s_jrnl s) = (j, None)" by blast
        moreover from apply_commits [OF E inv rok]
        obtain dd where "db_update True (unit_tx (store_apply E (sy_clock sy 2) r)) (s_db s) = (dd, Inr ())" by blast
        ultimately have "e = None" using res h s1 e1 d by (simp add: applyOne_def disk_ok_def)
        with Some show ?thesis by simp
      next
        case False
        then show ?thesis using res h s1 e1 by (simp add: applyOne_def jappendAt_def)
      qed
    next
      case (Some y)
      with h res show ?thesis by (simp add: applyOne_def)
    qed
    with g s1 keep tmp Some show ?thesis by simp
  qed
  then show "store_inv E s'" "caught_up s'" "jlog E (s_jrnl s') = jlog E (s_jrnl s) @ (if e = None then [r] else [])"
    "bk_get (bf_tmp (s_blobs s')) = bk_get (bf_tmp (s_blobs s))"
    "blob_at (s_blobs s) h = Some dd \<Longrightarrow> blob_at (s_blobs s') h = Some dd"
    "e = None \<Longrightarrow> j_last (s_jrnl s') = j_last (s_jrnl s) + 1" by blast+
qed


subsection \<open>A batch and a pull\<close>

definition page_ready :: "env \<Rightarrow> jrec list \<Rightarrow> store \<Rightarrow> bool" where
  "page_ready E rs s \<longleftrightarrow>
     list_all (\<lambda>r. rec_ok E r \<and> line_ok E r) rs \<and> unat (j_last (s_jrnl s)) + length rs < 2 ^ 64"

lemma apply_batch_any:
  assumes E: "env_ok E" and d: "\<forall>i. disk_ok E (sys i)"
  shows "store_inv E s \<Longrightarrow> caught_up s \<Longrightarrow> page_ready E rs s \<Longrightarrow>
    apply_batch E sys pe auth rs n s = (s', m, e) \<Longrightarrow>
    store_inv E s' \<and> caught_up s' \<and> n \<le> m \<and> m \<le> n + length rs \<and> (e = None \<longrightarrow> m = n + length rs) \<and>
    jlog E (s_jrnl s') = jlog E (s_jrnl s) @ take (m - n) rs \<and>
    bk_get (bf_tmp (s_blobs s')) = bk_get (bf_tmp (s_blobs s)) \<and>
    (\<forall>h x. blob_at (s_blobs s) h = Some x \<longrightarrow> blob_at (s_blobs s') h = Some x)"
proof (induction rs arbitrary: n s)
  case (Cons r rs)
  obtain s1 e1 where a: "applyOne E (sys n) pe auth r s = (s1, e1)" by force
  have rdy: "take_ready E r (s_jrnl s)" using Cons.prems(3) by (simp add: page_ready_def take_ready_def)
  have di: "disk_ok E (sys n)" using d by blast
  note f = applyOne_any [OF E Cons.prems(1,2) di rdy a]
  show ?case
  proof (cases e1)
    case (Some x)
    with Cons.prems(4) a have "s' = s1" "m = n" "e = Some x" by simp_all
    then show ?thesis using f(1-5) Some by simp
  next
    case None
    have "unat (j_last (s_jrnl s1)) = Suc (unat (j_last (s_jrnl s)))"
      using f(6) None rdy unat_Suc64_bound by (simp add: take_ready_def)
    then have pr: "page_ready E rs s1" using Cons.prems(3) by (simp add: page_ready_def)
    have rest: "apply_batch E sys pe auth rs (Suc n) s1 = (s', m, e)" using Cons.prems(4) a None by simp
    note ih = Cons.IH [OF f(1,2) pr rest]
    then have "m - n = Suc (m - Suc n)" by linarith
    then show ?thesis using ih f(3,4) f(5) None by auto
  qed
qed auto

lemma sec_record_store [simp]: "sec_store (sec_record fn sec) = sec_store sec" "sec_secret (sec_record fn sec) = sec_secret sec"
  by (simp_all add: sec_record_def)

text \<open>
  Whatever the peer sends, a pull leaves the secondary's store sound, and its journal
  longer by a prefix of the records it was sent.
\<close>

definition page_of :: "peer \<Rightarrow> secondary \<Rightarrow> jrec list" where
  "page_of pe sec =
     (case appliedSeq (s_db (sec_store sec)) of
        Inl _ \<Rightarrow> []
      | Inr a \<Rightarrow> (case fetchJournal pe (sec_auth sec) (a + 1) of Inl _ \<Rightarrow> [] | Inr page \<Rightarrow> jp_records page))"

lemma Pull_cases:
  assumes "Pull E now sys pe sec = (sec', m, e)"
  shows "sec_store sec' = fst (apply_batch E sys pe (sec_auth sec) (page_of pe sec) 0 (sec_store sec)) \<and>
    m = fst (snd (apply_batch E sys pe (sec_auth sec) (page_of pe sec) 0 (sec_store sec))) \<and>
    (e = None \<longrightarrow> snd (snd (apply_batch E sys pe (sec_auth sec) (page_of pe sec) 0 (sec_store sec))) = None \<and>
       (\<exists>a page. appliedSeq (s_db (sec_store sec)) = Inr a \<and> fetchJournal pe (sec_auth sec) (a + 1) = Inr page)) \<and>
    sec_secret sec' = sec_secret sec"
  using assms unfolding Pull_def page_of_def
  by (auto simp: Let_def split: sum.splits prod.splits option.splits if_splits)

lemma Pull_any:
  assumes E: "env_ok E" and d: "\<forall>i. disk_ok E (sys i)" and inv: "store_inv E (sec_store sec)" "caught_up (sec_store sec)"
    and pg: "page_ready E (page_of pe sec) (sec_store sec)" and res: "Pull E now sys pe sec = (sec', m, e)"
  shows "store_inv E (sec_store sec')" "caught_up (sec_store sec')"
    "jlog E (s_jrnl (sec_store sec')) = jlog E (s_jrnl (sec_store sec)) @ take m (page_of pe sec)"
    "m \<le> length (page_of pe sec)" "e = None \<Longrightarrow> m = length (page_of pe sec)"
    "bk_get (bf_tmp (s_blobs (sec_store sec'))) = bk_get (bf_tmp (s_blobs (sec_store sec)))"
    "blob_at (s_blobs (sec_store sec)) h = Some x \<Longrightarrow> blob_at (s_blobs (sec_store sec')) h = Some x"
proof -
  obtain s' k e' where b: "apply_batch E sys pe (sec_auth sec) (page_of pe sec) 0 (sec_store sec) = (s', k, e')"
    by (metis prod.exhaust)
  from Pull_cases [OF res] have "sec_store sec' = s'" "m = k" "e = None \<longrightarrow> e' = None" by (simp_all add: b)
  then show "store_inv E (sec_store sec')" "caught_up (sec_store sec')"
    "jlog E (s_jrnl (sec_store sec')) = jlog E (s_jrnl (sec_store sec)) @ take m (page_of pe sec)"
    "m \<le> length (page_of pe sec)" "e = None \<Longrightarrow> m = length (page_of pe sec)"
    "bk_get (bf_tmp (s_blobs (sec_store sec'))) = bk_get (bf_tmp (s_blobs (sec_store sec)))"
    "blob_at (s_blobs (sec_store sec)) h = Some x \<Longrightarrow> blob_at (s_blobs (sec_store sec')) h = Some x"
    using apply_batch_any [OF E d inv pg b] by auto
qed


subsection \<open>An honest primary\<close>

text \<open>The secondary's log is a prefix of the primary's, and both stores are sound.\<close>

definition follows :: "env \<Rightarrow> secondary \<Rightarrow> store \<Rightarrow> bool" where
  "follows E sec p \<longleftrightarrow>
     store_inv E (sec_store sec) \<and> caught_up (sec_store sec) \<and> store_inv E p \<and> sec_secret sec \<noteq> [] \<and>
     Suc (unat (j_last (s_jrnl p))) < 2 ^ 64 \<and>
     (\<exists>rest. jlog E (s_jrnl p) = jlog E (s_jrnl (sec_store sec)) @ rest)"

definition behind :: "env \<Rightarrow> secondary \<Rightarrow> store \<Rightarrow> jrec list" where
  "behind E sec p = drop (length (jlog E (s_jrnl (sec_store sec)))) (jlog E (s_jrnl p))"

lemma follows_log: "follows E sec p \<Longrightarrow> jlog E (s_jrnl p) = jlog E (s_jrnl (sec_store sec)) @ behind E sec p"
  by (auto simp: follows_def behind_def)

lemma jwf_line_ok: "jwf E j \<Longrightarrow> r \<in> set (jlog E j) \<Longrightarrow> line_ok E r"
  unfolding jwf_def jinv_def using jrep_line_ok jlog_inv unfolding jinv_def by metis

lemma follows_counts:
  assumes "follows E sec p"
  shows "unat (j_last (s_jrnl p)) = unat (j_last (s_jrnl (sec_store sec))) + length (behind E sec p)"
    "j_last (s_jrnl (sec_store sec)) + 1 \<noteq> 0"
proof -
  let ?s = "sec_store sec"
  have js: "journal_inv E (s_jrnl ?s)" and jp: "journal_inv E (s_jrnl p)" using assms by (simp_all add: follows_def store_inv_def)
  have c: "consec 0 (jlog E (s_jrnl ?s))" "consec 0 (jlog E (s_jrnl p))" using js jp by (simp_all add: journal_inv_def)
  show n: "unat (j_last (s_jrnl p)) = unat (j_last (s_jrnl ?s)) + length (behind E sec p)"
    using unat_last_seq [OF c(1)] unat_last_seq [OF c(2)] journal_inv_last [OF js] journal_inv_last [OF jp]
      follows_log [OF assms] by simp
  have "Suc (unat (j_last (s_jrnl ?s))) < 2 ^ 64" using assms n by (simp add: follows_def)
  from unat_Suc64_bound [OF this] show "j_last (s_jrnl ?s) + 1 \<noteq> 0" by (metis unat_0 nat.distinct(1))
qed

lemma follows_page:
  assumes f: "follows E sec p"
  shows "fetchJournal (primary_peer E p (sec_secret sec)) (sec_auth sec) (j_last (s_jrnl (sec_store sec)) + 1) =
      Inr \<lparr>jp_records = take replicaBatch (behind E sec p), jp_last = j_last (s_jrnl p)\<rparr>"
    and "page_of (primary_peer E p (sec_secret sec)) sec = take replicaBatch (behind E sec p)"
    and "page_ready E (take replicaBatch (behind E sec p)) (sec_store sec)"
proof -
  let ?s = "sec_store sec"
  have js: "journal_inv E (s_jrnl ?s)" and jp: "journal_inv E (s_jrnl p)" using f by (simp_all add: follows_def store_inv_def)
  have wf: "jwf E (s_jrnl p)" using jp by (simp add: journal_inv_def)
  have "jpending E (j_last (s_jrnl ?s) + 1) (s_jrnl p) = behind E sec p"
    using jl.after_consec [OF wf follows_counts(2) [OF f] follows_log [OF f], of 0] journal_inv_last [OF js] jp
    by (simp add: journal_inv_def)
  then show fe: "fetchJournal (primary_peer E p (sec_secret sec)) (sec_auth sec) (j_last (s_jrnl ?s) + 1) =
      Inr \<lparr>jp_records = take replicaBatch (behind E sec p), jp_last = j_last (s_jrnl p)\<rparr>"
    using fetchJournal_primary [OF wf] f by (simp add: follows_def)
  then show "page_of (primary_peer E p (sec_secret sec)) sec = take replicaBatch (behind E sec p)"
    using f by (simp add: page_of_def follows_def caught_up_def)
  have "rec_ok E r \<and> line_ok E r" if "r \<in> set (behind E sec p)" for r
    using that jp jwf_line_ok [OF wf, of r] follows_log [OF f] by (auto simp: journal_inv_def list_all_iff)
  then have "list_all (\<lambda>r. rec_ok E r \<and> line_ok E r) (take replicaBatch (behind E sec p))"
    by (auto simp: list_all_iff dest: in_set_takeD)
  moreover have "unat (j_last (s_jrnl ?s)) + length (take replicaBatch (behind E sec p)) < 2 ^ 64"
    using follows_counts(1) [OF f] f unfolding follows_def length_take by linarith
  ultimately show "page_ready E (take replicaBatch (behind E sec p)) ?s" by (simp add: page_ready_def)
qed

lemma Pull_follows:
  assumes E: "env_ok E" and d: "\<forall>i. disk_ok E (sys i)" and f: "follows E sec p"
    and res: "Pull E now sys (primary_peer E p (sec_secret sec)) sec = (sec', m, e)"
  shows "follows E sec' p" "behind E sec' p = drop m (behind E sec p)"
    "m \<le> min replicaBatch (length (behind E sec p))" "e = None \<Longrightarrow> m = min replicaBatch (length (behind E sec p))"
    "bk_get (bf_tmp (s_blobs (sec_store sec'))) = bk_get (bf_tmp (s_blobs (sec_store sec)))"
    "blob_at (s_blobs (sec_store sec)) h = Some x \<Longrightarrow> blob_at (s_blobs (sec_store sec')) h = Some x"
    "sec_secret sec' = sec_secret sec"
proof -
  have inv: "store_inv E (sec_store sec)" "caught_up (sec_store sec)" using f by (simp_all add: follows_def)
  note pg = follows_page(2) [OF f]
  have pr: "page_ready E (page_of (primary_peer E p (sec_secret sec)) sec) (sec_store sec)"
    using follows_page(3) [OF f] pg by simp
  note a = Pull_any [OF E d inv pr res]
  show le: "m \<le> min replicaBatch (length (behind E sec p))" using a(4) pg by simp
  show "e = None \<Longrightarrow> m = min replicaBatch (length (behind E sec p))" using a(5) pg by simp
  show sec: "sec_secret sec' = sec_secret sec" using Pull_cases [OF res] by simp
  have log: "jlog E (s_jrnl (sec_store sec')) = jlog E (s_jrnl (sec_store sec)) @ take m (behind E sec p)"
    using a(3) pg le by simp
  show "behind E sec' p = drop m (behind E sec p)"
    unfolding behind_def [of E sec'] using le by (subst follows_log [OF f]) (simp add: log)
  have "jlog E (s_jrnl p) = jlog E (s_jrnl (sec_store sec')) @ drop m (behind E sec p)"
    using follows_log [OF f] log by simp
  then show "follows E sec' p" using f a(1,2) sec by (auto simp: follows_def)
  show "bk_get (bf_tmp (s_blobs (sec_store sec'))) = bk_get (bf_tmp (s_blobs (sec_store sec)))" by (rule a(6))
  show "blob_at (s_blobs (sec_store sec)) h = Some x \<Longrightarrow> blob_at (s_blobs (sec_store sec')) h = Some x" by (rule a(7))
qed

text \<open>With nothing left the two stores show the same objects.\<close>

lemma follows_done: "follows E sec p \<Longrightarrow> behind E sec p = [] \<Longrightarrow> store_spec E (sec_store sec) = store_spec E p"
  using follows_log [of E sec p] by (simp add: store_spec_def)

subsection \<open>A pull that succeeds\<close>

text \<open>No faults on the secondary's disk, and a free temporary name for every transfer.\<close>

definition quiet :: "(nat \<Rightarrow> sysenv) \<Rightarrow> store \<Rightarrow> bool" where
  "quiet sys s \<longleftrightarrow> (\<forall>i. sy_blob (sys i) = BF_none \<and> sy_app (sys i) = None \<and> sy_commit (sys i) \<and>
     bk_get (bf_tmp (s_blobs s)) (sy_tmp (sys i)) = None)"

lemma quiet_disk_ok: "quiet sys s \<Longrightarrow> disk_ok E (sys i)"
  by (simp add: quiet_def disk_ok_def unraced_def)

definition served :: "store \<Rightarrow> jrec list \<Rightarrow> bool" where
  "served p rs \<longleftrightarrow> (\<forall>r \<in> set rs. r_op r = opPut \<longrightarrow> blob_at (s_blobs p) (r_hash r) \<noteq> None)"

lemma fetchBlob_primary:
  assumes E: "env_ok E" and bi: "blob_inv E (s_blobs p)" and h: "blob_at (s_blobs p) h \<noteq> None"
    and sec: "replicaAuthorized auth secret" and q: "sy_blob sy = BF_none" "bk_get (bf_tmp (s_blobs s)) (sy_tmp sy) = None"
  shows "\<exists>s1. fetchBlob E sy (primary_peer E p secret) auth h s = (s1, None)"
proof -
  obtain d where d: "blob_at (s_blobs p) h = Some d" using h by blast
  then have "sec_get (pe_blob (primary_peer E p secret) auth h) = Inr (d, None)"
    using sec blob_open_at [of h "s_blobs p" d] blob_at_valid [OF d]
    by (simp add: primary_peer_def serve_blob_def sec_get_def)
  moreover obtain fs i where b: "blob_put E BF_none (sy_clock sy 0) (sy_tmp sy) (d, None) (s_blobs s) = (fs, Inr i)"
    using blob_put_succeeds [of "s_blobs s" "sy_tmp sy" "(d, None)" E "sy_clock sy 0"] q by auto
  moreover have "bi_hash i = h"
    using blob_put_effect(2) [OF env_okD(1) [OF E] fault_ok_none b refl] bi d by (simp add: blob_inv_def)
  ultimately show ?thesis using q by (simp add: fetchBlob_def)
qed

lemma applyOne_succeeds:
  assumes E: "env_ok E" and inv: "store_inv E s" and bi: "blob_inv E (s_blobs p)" and sec: "replicaAuthorized auth secret"
    and rdy: "take_ready E r (s_jrnl s)" and sq: "r_seq r = j_last (s_jrnl s) + 1" and sv: "served p [r]"
    and q: "quiet (\<lambda>_. sy) s"
  shows "\<exists>s'. applyOne E sy (primary_peer E p secret) auth r s = (s', None)"
proof -
  have ji: "journal_inv E (s_jrnl s)" and sbi: "blob_inv E (s_blobs s)" using inv by (simp_all add: store_inv_def)
  have dk: "unraced E sy" and app: "sy_app sy = None" "sy_commit sy" using q by (simp_all add: quiet_def unraced_def)
  have "\<exists>s1. have_blob E sy (primary_peer E p secret) auth r s = (s1, None)"
  proof (cases "r_op r = opPut \<and> r_hash r \<noteq> [] \<and> blob_at (s_blobs s) (r_hash r) = None")
    case True
    then have h: "blob_at (s_blobs p) (r_hash r) \<noteq> None" using sv by (simp add: served_def)
    then have "ValidHash (r_hash r)" using blob_at_valid by blast
    then have "blob_stat (r_hash r) (s_blobs s) = Inr None" using True by (simp add: blob_stat_at)
    moreover have "sy_blob sy = BF_none" "bk_get (bf_tmp (s_blobs s)) (sy_tmp sy) = None" using q by (simp_all add: quiet_def)
    ultimately show ?thesis
      using fetchBlob_primary [OF E bi h sec, of sy s] True by (auto simp: have_blob_def)
  next
    case False
    show ?thesis
    proof (cases "r_op r = opPut \<and> r_hash r \<noteq> []")
      case True
      with False obtain y where y: "blob_at (s_blobs s) (r_hash r) = Some y" by auto
      with True blob_at_valid [OF y] show ?thesis by (simp add: have_blob_def blob_stat_at)
    qed (auto simp: have_blob_def)
  qed
  then obtain s1 where h: "have_blob E sy (primary_peer E p secret) auth r s = (s1, None)" by blast
  obtain fs where s1: "s1 = s\<lparr>s_blobs := fs\<rparr>" by (rule have_blob_effect [OF env_okD(1) [OF E] dk sbi h]) blast
  obtain j where "jappendAt E None (sy_clock sy 1) r (s_jrnl s) = (j, None)"
    using jappendAt_succeeds [OF ji rdy sq] by blast
  moreover obtain d where "db_update True (unit_tx (store_apply E (sy_clock sy 2) r)) (s_db s) = (d, Inr ())"
    using apply_commits [OF E inv] rdy by (auto simp: take_ready_def)
  ultimately show ?thesis using h s1 app by (simp add: applyOne_def)
qed

lemma apply_batch_succeeds:
  assumes E: "env_ok E" and bi: "blob_inv E (s_blobs p)" and sec: "replicaAuthorized auth secret"
  shows "store_inv E s \<Longrightarrow> caught_up s \<Longrightarrow> page_ready E rs s \<Longrightarrow> consec (j_last (s_jrnl s)) rs \<Longrightarrow> served p rs \<Longrightarrow>
    quiet sys s \<Longrightarrow> snd (snd (apply_batch E sys (primary_peer E p secret) auth rs n s)) = None"
proof (induction rs arbitrary: n s)
  case (Cons r rs)
  let ?pe = "primary_peer E p secret"
  have rdy: "take_ready E r (s_jrnl s)" using Cons.prems(3) by (simp add: page_ready_def take_ready_def)
  have nxt: "unat (j_last (s_jrnl s) + 1) = Suc (unat (j_last (s_jrnl s)))"
    using rdy unat_Suc64_bound by (simp add: take_ready_def)
  have sq: "r_seq r = j_last (s_jrnl s) + 1" using Cons.prems(4) nxt by (simp add: word_unat_eq_iff)
  have "served p [r]" "quiet (\<lambda>_. sys n) s" using Cons.prems(5,6) by (simp_all add: served_def quiet_def)
  from applyOne_succeeds [OF E Cons.prems(1) bi sec rdy sq this]
  obtain s1 where a: "applyOne E (sys n) ?pe auth r s = (s1, None)" by blast
  note f = applyOne_any [OF E Cons.prems(1,2) quiet_disk_ok [OF Cons.prems(6)] rdy a]
  have l: "j_last (s_jrnl s1) = r_seq r" using f(6) sq by simp
  have "page_ready E rs s1" "consec (j_last (s_jrnl s1)) rs" "served p rs" "quiet sys s1"
    using Cons.prems(3-6) l sq nxt f(4) by (simp_all add: page_ready_def served_def quiet_def)
  from Cons.IH [OF f(1,2) this] a show ?case by simp
qed simp

lemma Pull_succeeds:
  assumes E: "env_ok E" and f: "follows E sec p" and sv: "served p (behind E sec p)" and q: "quiet sys (sec_store sec)"
  shows "\<exists>sec'. Pull E now sys (primary_peer E p (sec_secret sec)) sec = (sec', min replicaBatch (length (behind E sec p)), None)"
proof -
  let ?s = "sec_store sec" and ?pe = "primary_peer E p (sec_secret sec)" and ?rs = "take replicaBatch (behind E sec p)"
  have inv: "store_inv E ?s" "caught_up ?s" "blob_inv E (s_blobs p)" using f by (simp_all add: follows_def store_inv_def)
  have auth: "replicaAuthorized (sec_auth sec) (sec_secret sec)" using sec_auth_authorized f by (simp add: follows_def)
  have js: "journal_inv E (s_jrnl ?s)" and jp: "journal_inv E (s_jrnl p)" using f by (simp_all add: follows_def store_inv_def)
  have "consec 0 (jlog E (s_jrnl ?s) @ ?rs @ drop replicaBatch (behind E sec p))"
    using jp follows_log [OF f] by (simp add: journal_inv_def)
  then have c: "consec (j_last (s_jrnl ?s)) ?rs" using journal_inv_last [OF js] by (simp del: append_take_drop_id)
  have svb: "served p ?rs" using sv by (auto simp: served_def dest: in_set_takeD)
  obtain s' k e where b: "apply_batch E sys ?pe (sec_auth sec) ?rs 0 ?s = (s', k, e)" by (metis prod.exhaust)
  have "e = None" using apply_batch_succeeds [OF E inv(3) auth inv(1,2) follows_page(3) [OF f] c svb q, of 0] b by simp
  moreover have "k = length ?rs"
    using apply_batch_any [OF E _ inv(1,2) follows_page(3) [OF f] b] quiet_disk_ok [OF q] \<open>e = None\<close> by auto
  ultimately have "\<exists>sec'. Pull E now sys ?pe sec = (sec', length ?rs, None)"
    using b inv(2) follows_page(1) [OF f] by (auto simp: Pull_def caught_up_def Let_def)
  then show ?thesis by (simp add: min.commute)
qed

text \<open>Ticks without a fault: the secondary reaches the primary after as many batches as it is behind.\<close>

lemma Start_catches_up:
  assumes E: "env_ok E"
  shows "follows E sec p \<Longrightarrow> served p (behind E sec p) \<Longrightarrow> \<forall>t \<in> set ts. quiet (snd t) (sec_store sec) \<Longrightarrow>
    follows E (secondary_Start E ts (primary_peer E p (sec_secret sec)) sec) p \<and>
    behind E (secondary_Start E ts (primary_peer E p (sec_secret sec)) sec) p = drop (replicaBatch * length ts) (behind E sec p)"
proof (induction ts arbitrary: sec)
  case (Cons t ts)
  let ?pe = "primary_peer E p (sec_secret sec)"
  have q: "quiet (snd t) (sec_store sec)" using Cons.prems(3) by simp
  obtain sec' where pl: "Pull E (fst t) (snd t) ?pe sec = (sec', min replicaBatch (length (behind E sec p)), None)"
    using Pull_succeeds [OF E Cons.prems(1,2) q] by blast
  have "\<forall>i. disk_ok E (snd t i)" using quiet_disk_ok [OF q] by blast
  note pf = Pull_follows [OF E this Cons.prems(1) pl]
  have b: "behind E sec' p = drop replicaBatch (behind E sec p)"
    using pf(2) by (cases "replicaBatch \<le> length (behind E sec p)") (simp_all add: min_def)
  have "served p (behind E sec' p)" using Cons.prems(2) b by (auto simp: served_def dest: in_set_dropD)
  moreover have "\<forall>t \<in> set ts. quiet (snd t) (sec_store sec')" using Cons.prems(3) pf(5) by (simp add: quiet_def)
  ultimately show ?case using Cons.IH [OF pf(1)] pf(7) pl b by (simp add: add.commute)
qed simp


subsection \<open>Failures and properties\<close>

text \<open>A put whose bytes neither side has: the transfer is refused, and nothing of the record is applied.\<close>

lemma have_blob_missing:
  assumes "r_op r = opPut" "ValidHash (r_hash r)" "blob_at (s_blobs s) (r_hash r) = None" "blob_at (s_blobs p) (r_hash r) = None"
  shows "have_blob E sy (primary_peer E p secret) auth r s = (s, Some (Errf ''replica: fetch blob''))"
proof -
  have v: "r_hash r \<noteq> []" using assms(2) by (auto simp: ValidHash_def)
  have "\<And>d. blob_open (r_hash r) (s_blobs p) \<noteq> Inr d" using assms(4) by (simp add: blob_open_at)
  then obtain e where "blob_open (r_hash r) (s_blobs p) = Inl e" by (cases "blob_open (r_hash r) (s_blobs p)") auto
  then have "\<exists>c. serve_blob p secret auth (r_hash r) = Status c ([], None) \<and> c \<noteq> 200"
    using assms(2) by (simp add: serve_blob_def)
  then have "\<exists>e. fetchBlob E sy (primary_peer E p secret) auth (r_hash r) s = (s, Some e)"
    by (auto simp: fetchBlob_def primary_peer_def sec_get_def)
  then show ?thesis using assms v by (auto simp: have_blob_def blob_stat_at)
qed

text \<open>A primary with one object, and a secondary that has nothing yet.\<close>

definition demo_cfg :: replicacfg where
  "demo_cfg = \<lparr>rc_mode = ''secondary'', rc_secret = ''s3cret'', rc_peers = [], rc_from = ''http://p'', rc_interval = 10\<rparr>"

definition demo_sec :: secondary where
  "demo_sec = NewSecondary demo_store demo_cfg"

lemma demo_primary:
  obtains p r where "follows demo_env demo_sec p" "behind demo_env demo_sec p = [r]" "served p [r]" "r_op r = opPut"
    "ValidHash (r_hash r)" "blob_at (s_blobs demo_store) (r_hash r) = None"
    "(store_spec demo_env p)((''media'', ''a.jpg'') := None) = Map.empty" "j_last (s_jrnl p) = 1"
proof -
  have rdy: "put_ready demo_env demo_sys ''media'' ''a.jpg'' (''hello'', None) demo_opts demo_store"
    by (rule demo_put_ready) (simp_all add: demo_store_def jempty_def)
  obtain p e where put: "store_PutWith demo_env demo_sys ''media'' ''a.jpg'' (''hello'', None) demo_opts demo_store = (p, Inr e)"
    using PutWith_succeeds [OF demo_env_ok demo_store_inv(1) rdy]
    by (auto simp: demo_store_def store_Bucket_def bk_get_def demo_sys_def blobs_empty_def demo_opts_def)
  note w = PutWith_effect [OF demo_env_ok demo_store_inv(1) demo_in_step rdy put]
  have log: "jlog demo_env (s_jrnl demo_store) = []" by (simp add: demo_store_def)
  obtain r where r: "jlog demo_env (s_jrnl p) = [r]" "r_op r = opPut" "r_hash r = e_hash e" using w(11) log by auto
  have one: "j_last (s_jrnl p) = 1" using w(12) by (simp add: demo_store_def jempty_def)
  have sp: "(store_spec demo_env p)((''media'', ''a.jpg'') := None) = Map.empty"
    using w(3) log by (auto simp: store_spec_def)
  from one have f: "follows demo_env demo_sec p" using w(1) demo_store_inv log r
    by (simp add: follows_def demo_sec_def NewSecondary_def demo_cfg_def)
  have b: "behind demo_env demo_sec p = [r]" using r log by (simp add: behind_def demo_sec_def NewSecondary_def)
  have "no_collision demo_env (s_blobs demo_store) ''hello''" by (simp add: no_collision_def demo_store_def blobs_empty_def blob_at_def)
  then have at: "blob_at (s_blobs p) (r_hash r) = Some ''hello''" using w(6) r by simp
  have "served p [r]" using at by (simp add: served_def)
  moreover have "blob_at (s_blobs demo_store) (r_hash r) = None" by (simp add: demo_store_def blobs_empty_def blob_at_def)
  ultimately show thesis using that [OF f b] r(2) blob_at_valid [OF at] sp one by blast
qed

lemma demo_quiet: "quiet (\<lambda>_. demo_sys) (sec_store demo_sec)"
  by (simp add: quiet_def demo_sys_def demo_sec_def NewSecondary_def demo_store_def blobs_empty_def)

text \<open>
  C13: replication refines the primary's history.  A pull from an honest primary, whatever
  the network cuts short, leaves the secondary's journal a prefix of the primary's, longer
  by the records the pull counts, and its objects those of that prefix; a pull without an
  error takes a whole batch, and one that takes nothing means the two stores agree.
\<close>

theorem pull_extends_the_prefix:
  assumes "env_ok E" "\<forall>i. disk_ok E (sys i)" "follows E sec p"
    and "Pull E now sys (primary_peer E p (sec_secret sec)) sec = (sec', m, e)"
  shows "follows E sec' p \<and>
    jlog E (s_jrnl (sec_store sec')) = jlog E (s_jrnl (sec_store sec)) @ take m (behind E sec p) \<and>
    store_spec E (sec_store sec') = spec_run (take m (behind E sec p)) (store_spec E (sec_store sec)) \<and>
    (e = None \<longrightarrow> m = min replicaBatch (length (behind E sec p))) \<and>
    (e = None \<and> m = 0 \<longrightarrow> store_spec E (sec_store sec') = store_spec E p)"
proof -
  note pf = Pull_follows [OF assms]
  have inv: "store_inv E (sec_store sec)" "caught_up (sec_store sec)" using assms(3) by (simp_all add: follows_def)
  note pg = follows_page(2) [OF assms(3)]
  have pr: "page_ready E (page_of (primary_peer E p (sec_secret sec)) sec) (sec_store sec)"
    using follows_page(3) [OF assms(3)] pg by simp
  have log: "jlog E (s_jrnl (sec_store sec')) = jlog E (s_jrnl (sec_store sec)) @ take m (behind E sec p)"
    using Pull_any(3) [OF assms(1,2) inv pr assms(4)] pg pf(3) by simp
  moreover have "behind E sec' p = []" if "e = None" "m = 0"
    using pf(2,4) that by (auto simp: replicaBatch_def min_def split: if_splits)
  ultimately show ?thesis
    using pf(1,4) follows_done [OF pf(1)] by (auto simp: store_spec_def)
qed

theorem pull_extends_the_prefix_witness:
  "\<exists>p sec' r. Pull demo_env 5 (\<lambda>_. demo_sys) (primary_peer demo_env p (sec_secret demo_sec)) demo_sec = (sec', 1, None) \<and>
     jlog demo_env (s_jrnl (sec_store sec')) = [r]"
proof (rule demo_primary)
  fix p r assume p: "follows demo_env demo_sec p" "behind demo_env demo_sec p = [r]" "served p [r]"
  have "\<forall>i. disk_ok demo_env demo_sys" using quiet_disk_ok [OF demo_quiet] by blast
  moreover obtain sec' where pl: "Pull demo_env 5 (\<lambda>_. demo_sys) (primary_peer demo_env p (sec_secret demo_sec)) demo_sec = (sec', 1, None)"
    using Pull_succeeds [OF demo_env_ok p(1) _ demo_quiet, of 5] p(2,3) by (auto simp: replicaBatch_def)
  ultimately have "jlog demo_env (s_jrnl (sec_store sec')) = jlog demo_env (s_jrnl (sec_store demo_sec)) @ take 1 [r]"
    using pull_extends_the_prefix [OF demo_env_ok _ p(1) pl] p(2) by simp
  then have "jlog demo_env (s_jrnl (sec_store sec')) = [r]" by (simp add: demo_sec_def NewSecondary_def demo_store_def)
  with pl show ?thesis by blast
qed

text \<open>
  C14: the secondary catches up.  While the primary still has every blob its remaining
  records name, ticks without a disk or network fault bring the secondary to the primary's
  exact objects as soon as their number times the batch size covers the lag.
\<close>

theorem secondary_catches_up:
  assumes "env_ok E" "follows E sec p" "served p (behind E sec p)" "\<forall>t \<in> set ts. quiet (snd t) (sec_store sec)"
    and "length (behind E sec p) \<le> replicaBatch * length ts"
    and "sec' = secondary_Start E ts (primary_peer E p (sec_secret sec)) sec"
  shows "store_inv E (sec_store sec') \<and> store_spec E (sec_store sec') = store_spec E p"
  using Start_catches_up [OF assms(1-4)] follows_done [of E sec' p] assms(5,6) by (simp add: follows_def)

theorem secondary_catches_up_witness:
  "\<exists>p sec' r. behind demo_env demo_sec p = [r] \<and>
     sec' = secondary_Start demo_env [(5, \<lambda>_. demo_sys)] (primary_peer demo_env p (sec_secret demo_sec)) demo_sec \<and>
     store_spec demo_env (sec_store sec') = store_spec demo_env p"
proof (rule demo_primary)
  fix p r assume p: "follows demo_env demo_sec p" "behind demo_env demo_sec p = [r]" "served p [r]"
  have "served p (behind demo_env demo_sec p)" using p by simp
  moreover have "\<forall>t \<in> set [(5 :: gotime, \<lambda>_. demo_sys)]. quiet (snd t) (sec_store demo_sec)" using demo_quiet by simp
  moreover have "length (behind demo_env demo_sec p) \<le> replicaBatch * length [(5 :: gotime, \<lambda>_ :: nat. demo_sys)]"
    using p(2) by (simp add: replicaBatch_def)
  ultimately show ?thesis
    using secondary_catches_up [OF demo_env_ok p(1) _ _ _ refl] p(2) by blast
qed


definition liar :: peer where
  "liar = \<lparr>pe_journal = (\<lambda>_ _. Status 200 (Enc \<lparr>jp_records =
      [\<lparr>r_seq = 1, r_time = 7, r_op = opPut, r_bucket = ''media'', r_key = ''k'', r_hash = pad_hex 64 ''zz'', r_etag = [],
        r_size = 2, r_mtime = 7\<rparr>], jp_last = 9\<rparr>)),
    pe_blob = (\<lambda>_ _. Status 200 (''evil'', None))\<rparr>"


text \<open>
  The replication endpoint is never open.  Both handlers answer 403 unless the request
  carries exactly the scheme and the configured secret, whatever it asks for, and with no
  secret configured they answer 403 to everything.
\<close>

theorem replica_endpoint_is_closed:
  "(secret \<noteq> [] \<and> auth = replicaAuthScheme @ '' '' @ secret) =
     (\<not> ((\<forall>start. serve_journal E s secret auth start = Status 403 Bad) \<and> (\<forall>h. serve_blob s secret auth h = Status 403 ([], None))))"
proof -
  have "serve_journal E s secret auth [] \<noteq> Status 403 Bad" if "replicaAuthorized auth secret"
    using that by (simp add: serve_journal_def parse_uint_def)
  then show ?thesis
    unfolding replicaAuthorized_iff [symmetric, THEN arg_cong [of _ _ Not], simplified]
    by (auto simp: serve_journal_def serve_blob_def replicaAuthorized_iff)
qed

text \<open>
  C16: one collected blob stops replication.  When the next record is a put whose bytes the
  primary has since collected and the secondary never had, every pull fails on that record:
  it applies nothing, reports the error, and leaves the store as it was, so the next pull
  asks for the same record again.
\<close>

theorem collected_blob_blocks_the_secondary:
  assumes "env_ok E" "follows E sec p" "behind E sec p = r # rest" "r_op r = opPut" "ValidHash (r_hash r)"
    and "blob_at (s_blobs (sec_store sec)) (r_hash r) = None" "blob_at (s_blobs p) (r_hash r) = None"
  shows "\<exists>sec'. Pull E now sys (primary_peer E p (sec_secret sec)) sec = (sec', 0, Some (Errf ''replica: fetch blob'')) \<and>
    sec_store sec' = sec_store sec \<and> rs_error (sec_status sec') = Some (Errf ''replica: fetch blob'')"
proof -
  let ?pe = "primary_peer E p (sec_secret sec)"
  have "take replicaBatch (behind E sec p) = r # take (replicaBatch - 1) rest" by (simp add: assms(3) replicaBatch_def take_Cons')
  moreover have "appliedSeq (s_db (sec_store sec)) = Inr (j_last (s_jrnl (sec_store sec)))"
    using assms(2) by (simp add: follows_def caught_up_def)
  ultimately show ?thesis
    using follows_page(1) [OF assms(2)] have_blob_missing [OF assms(4-7), of E "sys 0" "sec_secret sec" "sec_auth sec"]
    by (simp add: Pull_def applyOne_def Let_def sec_record_def)
qed


text \<open>A primary that stored an object, deleted it and collected its bytes.\<close>

definition demo_del :: jrec where
  "demo_del = \<lparr>r_seq = 2, r_time = 9, r_op = opDelete, r_bucket = ''media'', r_key = ''a.jpg'', r_hash = [], r_etag = [],
     r_size = 0, r_mtime = 0\<rparr>"

lemma demo_collected:
  obtains p r rest where "follows demo_env demo_sec p" "behind demo_env demo_sec p = r # rest" "r_op r = opPut"
    "ValidHash (r_hash r)" "blob_at (s_blobs (sec_store demo_sec)) (r_hash r) = None" "blob_at (s_blobs p) (r_hash r) = None"
proof (rule demo_primary)
  fix p r assume p: "follows demo_env demo_sec p" "behind demo_env demo_sec p = [r]" "r_op r = opPut"
    "ValidHash (r_hash r)" and none: "blob_at (s_blobs demo_store) (r_hash r) = None"
    and sp: "(store_spec demo_env p)((''media'', ''a.jpg'') := None) = Map.empty" and one: "j_last (s_jrnl p) = 1"
  have sec: "sec_store demo_sec = demo_store" by (simp add: demo_sec_def NewSecondary_def)
  have inv: "store_inv demo_env p" using p(1) by (simp add: follows_def)
  then have ji: "journal_inv demo_env (s_jrnl p)" and bi: "blob_inv demo_env (s_blobs p)" and X: "rec_index_ok demo_env (db_file (s_db p))"
    by (simp_all add: store_inv_def)
  have rok: "rec_ok demo_env demo_del"
    by (simp add: rec_ok_def demo_del_def time_is_zero_def name_ok_def demo_env_def store_ns_def ix_namespace_def ScopeStore_def)
  have "line_ok demo_env demo_del" by (rule demo_line) (simp_all add: demo_del_def opDelete_def)
  then have rdy: "take_ready demo_env demo_del (s_jrnl p)" using rok one by (simp add: take_ready_def)
  have "r_seq demo_del = j_last (s_jrnl p) + 1" using one by (simp add: demo_del_def)
  from jappendAt_succeeds [OF ji rdy this] obtain j where ja: "jappendAt demo_env None 5 demo_del (s_jrnl p) = (j, None)" by blast
  note js = jappendAt_ok [OF ji rdy ja]
  define q where "q = p\<lparr>s_blobs := blobs_empty, s_jrnl := j\<rparr>"
  have log0: "jlog demo_env (s_jrnl p) = [r]" using p(2) sec by (simp add: behind_def demo_store_def)
  have spec: "store_spec demo_env q = Map.empty"
    using js(2) sp by (simp add: q_def store_spec_def spec_apply_def demo_del_def opDelete_def opPut_def)
  obtain a where a: "appliedSeq (s_db p) = Inr a" "a \<le> j_last (s_jrnl p)"
    "sabs (db_file (s_db p)) = spec_run (filter (\<lambda>r. r_seq r \<le> a) (jlog demo_env (s_jrnl p))) Map.empty"
    using inv by (auto simp: store_inv_def)
  have l2: "j_last j = 2" using js(3) one by simp
  moreover have "a \<le> 1" using a(2) one by simp
  ultimately have "\<not> r_seq demo_del \<le> a" "a \<le> j_last j" by (simp_all add: demo_del_def word_le_nat_alt)
  then have "store_inv demo_env q"
    using js(1,2) a X spec by (auto simp: store_inv_def q_def)
  then have "follows demo_env demo_sec q"
    using p(1) l2 by (simp add: follows_def sec q_def demo_store_def)
  moreover have "behind demo_env demo_sec q = r # [demo_del]"
    using js(2) log0 sec by (simp add: behind_def q_def demo_store_def)
  ultimately show thesis
    using that p(3,4) none sec by (simp add: q_def blobs_empty_def blob_at_def)
qed

theorem collected_blob_blocks_the_secondary_witness:
  "\<exists>p sec'. Pull demo_env 5 (\<lambda>_. demo_sys) (primary_peer demo_env p (sec_secret demo_sec)) demo_sec =
     (sec', 0, Some (Errf ''replica: fetch blob''))"
proof (rule demo_collected)
  fix p r rest assume "follows demo_env demo_sec p" "behind demo_env demo_sec p = r # rest" "r_op r = opPut"
    "ValidHash (r_hash r)" "blob_at (s_blobs (sec_store demo_sec)) (r_hash r) = None" "blob_at (s_blobs p) (r_hash r) = None"
  then show ?thesis using collected_blob_blocks_the_secondary [OF demo_env_ok] by blast
qed

end
