(* ===== verification/Glob.thy ===== *)
theory Glob
  imports Prelude
begin

text \<open>
  internal/config/glob.go: the patterns of the \<open>protected\<close> and \<open>never_evict\<close> lists,
  over a model of the standard library's \<open>path.Match\<close>.  A key is bytes; \<open>?\<close> and a
  character class read one UTF-8 encoded rune, \<open>*\<close> skips bytes, as the library does.
  The matcher commits to the first position a chunk matches at, which is the
  library's algorithm and not the same as full backtracking.
\<close>

subsection \<open>unicode/utf8.DecodeRuneInString\<close>

definition byte_in :: "nat \<Rightarrow> nat \<Rightarrow> char \<Rightarrow> bool" where
  "byte_in lo hi c \<longleftrightarrow> lo \<le> of_char c \<and> of_char c \<le> hi"

definition cont_byte :: "char \<Rightarrow> bool" where
  "cont_byte c \<longleftrightarrow> byte_in 0x80 0xBF c"

definition low6 :: "char \<Rightarrow> nat" where
  "low6 c = of_char c mod 64"

definition rune_error :: nat where "rune_error = 0xFFFD"

text \<open>The rune and its width; an invalid sequence is the error rune and one byte.\<close>

definition decode_rune :: "string \<Rightarrow> nat \<times> nat" where
  "decode_rune s =
     (case s of
        [] \<Rightarrow> (rune_error, 0)
      | b0 # t \<Rightarrow>
          let n0 = of_char b0 :: nat in
          if n0 < 0x80 then (n0, 1)
          else if 0xC2 \<le> n0 \<and> n0 \<le> 0xDF then
            (case t of b1 # _ \<Rightarrow> if cont_byte b1 then ((n0 mod 32) * 64 + low6 b1, 2) else (rune_error, 1)
             | [] \<Rightarrow> (rune_error, 1))
          else if 0xE0 \<le> n0 \<and> n0 \<le> 0xEF then
            (case t of b1 # b2 # _ \<Rightarrow>
               if byte_in (if n0 = 0xE0 then 0xA0 else 0x80) (if n0 = 0xED then 0x9F else 0xBF) b1 \<and> cont_byte b2
               then (((n0 mod 16) * 64 + low6 b1) * 64 + low6 b2, 3) else (rune_error, 1)
             | _ \<Rightarrow> (rune_error, 1))
          else if 0xF0 \<le> n0 \<and> n0 \<le> 0xF4 then
            (case t of b1 # b2 # b3 # _ \<Rightarrow>
               if byte_in (if n0 = 0xF0 then 0x90 else 0x80) (if n0 = 0xF4 then 0x8F else 0xBF) b1 \<and> cont_byte b2 \<and> cont_byte b3
               then ((((n0 mod 8) * 64 + low6 b1) * 64 + low6 b2) * 64 + low6 b3, 4) else (rune_error, 1)
             | _ \<Rightarrow> (rune_error, 1))
          else (rune_error, 1))"

lemma decode_rune_width: "s \<noteq> [] \<Longrightarrow> 0 < snd (decode_rune s)"
  by (auto simp: decode_rune_def Let_def split: list.splits)

lemma drop_rune_shorter: "s \<noteq> [] \<Longrightarrow> length (drop (snd (decode_rune s)) s) < length s"
  using decode_rune_width [of s] by (cases s) simp_all

subsection \<open>path.Match\<close>

text \<open>\<open>getEsc\<close>: one possibly escaped rune of a class; \<open>None\<close> is \<open>ErrBadPattern\<close>.\<close>

definition get_esc :: "string \<Rightarrow> (nat \<times> string) option" where
  "get_esc chunk =
     (if chunk = [] \<or> hd chunk = CHR ''-'' \<or> hd chunk = CHR '']'' then None
      else
        let c = (if hd chunk = CHR 0x5C then tl chunk else chunk) in
        if c = [] then None
        else case decode_rune c of
               (r, n) \<Rightarrow> if r = rune_error \<and> n = 1 \<or> drop n c = [] then None else Some (r, drop n c))"

lemma get_esc_shorter: "get_esc chunk = Some (r, rest) \<Longrightarrow> length rest < length chunk"
proof -
  assume a: "get_esc chunk = Some (r, rest)"
  define c where "c = (if hd chunk = CHR 0x5C then tl chunk else chunk)"
  from a have "c \<noteq> []" "rest = drop (snd (decode_rune c)) c" "chunk \<noteq> []"
    by (auto simp: get_esc_def c_def Let_def split: if_splits prod.splits)
  then have "length rest < length c" using drop_rune_shorter by simp
  also have "length c \<le> length chunk" by (simp add: c_def)
  finally show ?thesis .
qed

text \<open>The ranges of a class up to its bracket: whether one holds \<open>r\<close>, and what follows.\<close>

function class_ranges :: "nat \<Rightarrow> bool \<Rightarrow> string \<Rightarrow> (bool \<times> string) option" where
  "class_ranges r first chunk =
     (if chunk \<noteq> [] \<and> hd chunk = CHR '']'' \<and> \<not> first then Some (False, tl chunk)
      else
        (case get_esc chunk of
           None \<Rightarrow> None
         | Some (lo, c1) \<Rightarrow>
             (case (if hd c1 = CHR ''-'' then get_esc (tl c1) else Some (lo, c1)) of
                None \<Rightarrow> None
              | Some (hi, c2) \<Rightarrow>
                  (case class_ranges r False c2 of
                     None \<Rightarrow> None
                   | Some (m, rest) \<Rightarrow> Some (lo \<le> r \<and> r \<le> hi \<or> m, rest)))))"
  by pat_completeness auto
termination
  by (relation "measure (\<lambda>(r, first, chunk). length chunk)")
    (auto dest!: get_esc_shorter split: if_splits)

declare class_ranges.simps [simp del]

lemma class_ranges_shorter: "class_ranges r first chunk = Some (m, rest) \<Longrightarrow> length rest < length chunk"
proof (induction r first chunk arbitrary: m rest rule: class_ranges.induct)
  case (1 r first chunk)
  show ?case
  proof (cases "chunk \<noteq> [] \<and> hd chunk = CHR '']'' \<and> \<not> first")
    case True
    with "1.prems" show ?thesis by (auto simp: class_ranges.simps [of r False chunk])
  next
    case False
    note step = "1.prems" [unfolded class_ranges.simps [of r first chunk] if_not_P [OF False]]
    then obtain lo c1 where e: "get_esc chunk = Some (lo, c1)" by (cases "get_esc chunk") auto
    note step = step [unfolded e option.case prod.case]
    then obtain hi c2 where h: "(if hd c1 = CHR ''-'' then get_esc (tl c1) else Some (lo, c1)) = Some (hi, c2)"
      by (cases "if hd c1 = CHR ''-'' then get_esc (tl c1) else Some (lo, c1)") auto
    note step = step [unfolded h option.case prod.case]
    then obtain m' where c: "class_ranges r False c2 = Some (m', rest)" by (cases "class_ranges r False c2") auto
    have "length rest < length c2" using "1.IH" [OF False e refl h refl c] .
    also have "length c2 \<le> length c1" using h get_esc_shorter [of "tl c1"] by (auto split: if_splits dest: less_imp_le)
    also have "length c1 < length chunk" using get_esc_shorter [OF e] .
    finally show ?thesis .
  qed
qed

text \<open>
  \<open>matchChunk\<close>: \<open>None\<close> is a malformed chunk, \<open>Some None\<close> no match, \<open>Some (Some t)\<close> a match
  that leaves \<open>t\<close>.  Once the match has failed the chunk is still read to its end.
\<close>

function match_chunk :: "bool \<Rightarrow> string \<Rightarrow> string \<Rightarrow> string option option" where
  "match_chunk failed [] s = Some (if failed then None else Some s)"
| "match_chunk failed (c # cs) s =
     (let bad = failed \<or> s = []; n = snd (decode_rune s) in
      if c = CHR ''['' then
        let neg = (cs \<noteq> [] \<and> hd cs = CHR ''^''); body = (if cs \<noteq> [] \<and> hd cs = CHR ''^'' then tl cs else cs) in
        (case class_ranges (if bad then 0 else fst (decode_rune s)) True body of
           None \<Rightarrow> None
         | Some (m, rest) \<Rightarrow> match_chunk (bad \<or> m = neg) rest (if bad then s else drop n s))
      else if c = CHR ''?'' then
        match_chunk (bad \<or> hd s = CHR ''/'') cs (if bad then s else drop n s)
      else if c = CHR 0x5C then
        (case cs of
           [] \<Rightarrow> None
         | d # ds \<Rightarrow> match_chunk (bad \<or> d \<noteq> hd s) ds (if bad then s else tl s))
      else match_chunk (bad \<or> c \<noteq> hd s) cs (if bad then s else tl s))"
  by pat_completeness auto
termination
  by (relation "measure (\<lambda>(failed, chunk, s). length chunk)")
    (auto dest!: class_ranges_shorter split: if_splits)

text \<open>\<open>scanChunk\<close>: the leading stars, the text up to the next star, and the rest.\<close>

fun scan_text :: "bool \<Rightarrow> string \<Rightarrow> string \<times> string" where
  "scan_text inrange [] = ([], [])"
| "scan_text inrange (c # cs) =
     (if c = CHR 0x5C then
        (case cs of [] \<Rightarrow> ([c], []) | d # ds \<Rightarrow> (case scan_text inrange ds of (a, b) \<Rightarrow> (c # d # a, b)))
      else if c = CHR ''*'' \<and> \<not> inrange then ([], c # cs)
      else
        (case scan_text (if c = CHR ''['' then True else if c = CHR '']'' then False else inrange) cs of
           (a, b) \<Rightarrow> (c # a, b)))"

definition scan_chunk :: "string \<Rightarrow> bool \<times> string \<times> string" where
  "scan_chunk p =
     (let q = dropWhile (\<lambda>c. c = CHR ''*'') p
      in (p \<noteq> [] \<and> hd p = CHR ''*'', scan_text False q))"

lemma scan_text_split: "scan_text r s = (a, b) \<Longrightarrow> s = a @ b"
  by (induction r s arbitrary: a b rule: scan_text.induct) (auto split: if_splits list.splits prod.splits)

lemma scan_text_first: "scan_text False s = (a, b) \<Longrightarrow> s \<noteq> [] \<Longrightarrow> hd s \<noteq> CHR ''*'' \<Longrightarrow> a \<noteq> []"
  by (cases s) (auto split: if_splits list.splits prod.splits)

lemma hd_dropWhile_star: "dropWhile (\<lambda>c. c = x) p \<noteq> [] \<Longrightarrow> hd (dropWhile (\<lambda>c. c = x) p) \<noteq> x"
  using hd_dropWhile [of "\<lambda>c. c = x" p] by simp

lemma scan_chunk_shorter:
  assumes "p \<noteq> []" "scan_chunk p = (star, chunk, rest)"
  shows "length rest < length p"
proof -
  let ?q = "dropWhile (\<lambda>c. c = CHR ''*'') p"
  have s: "scan_text False ?q = (chunk, rest)" using assms(2) by (simp add: scan_chunk_def Let_def)
  have l: "length ?q = length chunk + length rest" using scan_text_split [OF s] by (metis length_append)
  show ?thesis
  proof (cases "hd p = CHR ''*''")
    case True
    then have "length ?q < length p" using assms(1) length_dropWhile_le [of _ "tl p"] by (cases p) (auto simp: le_imp_less_Suc)
    with l show ?thesis by simp
  next
    case False
    then have "?q = p" using assms(1) by (cases p) auto
    then have "chunk \<noteq> []" using scan_text_first [OF s] False assms(1) by simp
    with l \<open>?q = p\<close> show ?thesis by (cases chunk) simp_all
  qed
qed

text \<open>The positions a star tries after the first: it skips bytes, never a separator.\<close>

fun star_try :: "string \<Rightarrow> bool \<Rightarrow> string \<Rightarrow> string option option" where
  "star_try chunk more [] = Some None"
| "star_try chunk more (c # cs) =
     (if c = CHR ''/'' then Some None
      else
        (case match_chunk False chunk cs of
           None \<Rightarrow> None
         | Some (Some t) \<Rightarrow> if \<not> more \<and> t \<noteq> [] then star_try chunk more cs else Some (Some t)
         | Some None \<Rightarrow> star_try chunk more cs))"

function chunks_ok :: "string \<Rightarrow> bool" where
  "chunks_ok p =
     (if p = [] then True
      else (case scan_chunk p of (_, chunk, rest) \<Rightarrow> match_chunk False chunk [] \<noteq> None \<and> chunks_ok rest))"
  by pat_completeness auto
termination
  by (relation "measure length") (auto dest: scan_chunk_shorter [OF _ sym])

declare chunks_ok.simps [simp del]

function path_match :: "string \<Rightarrow> string \<Rightarrow> bool option" where
  "path_match p name =
     (if p = [] then Some (name = [])
      else
        (case scan_chunk p of
           (star, chunk, rest) \<Rightarrow>
             if star \<and> chunk = [] then Some (CHR ''/'' \<notin> set name)
             else
               (case match_chunk False chunk name of
                  None \<Rightarrow> None
                | Some here \<Rightarrow>
                    if here \<noteq> None \<and> (the here = [] \<or> rest \<noteq> []) then path_match rest (the here)
                    else
                      (case (if star then star_try chunk (rest \<noteq> []) name else Some None) of
                         None \<Rightarrow> None
                       | Some (Some t) \<Rightarrow> path_match rest t
                       | Some None \<Rightarrow> if chunks_ok rest then Some False else None))))"
  by pat_completeness auto
termination
  by (relation "measure (\<lambda>(p, name). length p)") (auto dest: scan_chunk_shorter [OF _ sym])

declare path_match.simps [simp del]

subsection \<open>MatchGlob, MatchAny\<close>

definition MatchGlob :: "string \<Rightarrow> string \<Rightarrow> bool" where
  "MatchGlob pattern key =
     (if pattern = ''**'' then True
      else
        (case cut_suffix pattern ''/**'' of
           Some prefix \<Rightarrow> key = prefix \<or> has_prefix key (prefix @ ''/'')
         | None \<Rightarrow> path_match pattern key = Some True))"

fun MatchAny :: "string list \<Rightarrow> string \<Rightarrow> bool" where
  "MatchAny [] key = False"
| "MatchAny (p # ps) key = (if MatchGlob p key then True else MatchAny ps key)"

lemma MatchAny_iff: "MatchAny ps key \<longleftrightarrow> (\<exists>p \<in> set ps. MatchGlob p key)"
  by (induction ps) auto


subsection \<open>What the patterns cover\<close>

definition plain_char :: "char \<Rightarrow> bool" where
  "plain_char c \<longleftrightarrow> c \<noteq> CHR ''*'' \<and> c \<noteq> CHR ''?'' \<and> c \<noteq> CHR ''['' \<and> c \<noteq> CHR 0x5C"

lemma match_chunk_failed_plain: "list_all plain_char p \<Longrightarrow> match_chunk True p s = Some None"
  by (induction p arbitrary: s) (simp_all add: plain_char_def Let_def)

lemma match_chunk_plain:
  "list_all plain_char p \<Longrightarrow> match_chunk False p s = Some (if has_prefix s p then Some (drop (length p) s) else None)"
proof (induction p arbitrary: s)
  case (Cons c p)
  have p: "list_all plain_char p" using Cons.prems by simp
  have "plain_char c" using Cons.prems by simp
  then show ?case
    using Cons.IH [OF p] match_chunk_failed_plain [OF p]
    by (cases s; cases "c = hd s") (simp_all add: plain_char_def Let_def)
qed simp

lemma scan_text_plain: "list_all plain_char p \<Longrightarrow> scan_text False (p @ rest) = (case scan_text False rest of (a, b) \<Rightarrow> (p @ a, b))"
  by (induction p) (auto simp: plain_char_def split: prod.splits)

lemma scan_text_star: "scan_text False (CHR ''*'' # s) = ([], CHR ''*'' # s)"
  by simp

lemma plain_head: "list_all plain_char p \<Longrightarrow> p \<noteq> [] \<Longrightarrow> dropWhile (\<lambda>c. c = CHR ''*'') (p @ s) = p @ s \<and> hd (p @ s) \<noteq> CHR ''*''"
  by (cases p) (auto simp: plain_char_def)

lemma path_match_plain:
  assumes "list_all plain_char p"
  shows "path_match p name = Some (name = p)"
proof (cases "p = []")
  case False
  have sc: "scan_chunk p = (False, p, [])"
    using scan_text_plain [OF assms, of "[]"] plain_head [OF assms False, of "[]"] by (simp add: scan_chunk_def Let_def)
  have e: "path_match [] t = Some (t = [])" for t by (subst path_match.simps) simp
  have "has_prefix name p \<and> drop (length p) name = [] \<longleftrightarrow> name = p" by (auto simp: has_prefix_iff)
  then show ?thesis
    using False e by (subst path_match.simps) (auto simp: sc match_chunk_plain [OF assms] chunks_ok.simps has_prefix_iff)
qed (subst path_match.simps, simp)

text \<open>A final star stays inside one path segment.\<close>

lemma path_match_dir_star:
  assumes "list_all plain_char d"
  shows "path_match (d @ ''*'') name = Some (\<exists>t. name = d @ t \<and> CHR ''/'' \<notin> set t)"
proof -
  have star: "path_match ''*'' t = Some (CHR ''/'' \<notin> set t)" for t
    by (subst path_match.simps) (simp add: scan_chunk_def)
  show ?thesis
  proof (cases "d = []")
    case True
    then show ?thesis using star by simp
  next
    case False
    have sc: "scan_chunk (d @ ''*'') = (False, d, ''*'')"
      using scan_text_plain [OF assms, of "''*''"] plain_head [OF assms False, of "''*''"] by (simp add: scan_chunk_def Let_def)
    have ok: "chunks_ok ''*''" by (subst chunks_ok.simps) (simp add: scan_chunk_def chunks_ok.simps [of "[]"])
    show ?thesis
      using False star ok by (subst path_match.simps) (auto simp: sc match_chunk_plain [OF assms] has_prefix_iff)
  qed
qed

lemma MatchGlob_dir: "MatchGlob (d @ ''/**'') key \<longleftrightarrow> key = d \<or> (\<exists>t. key = d @ ''/'' @ t)"
proof -
  have "cut_suffix (d @ ''/**'') ''/**'' = Some d" by (simp add: cut_suffix_Some)
  then show ?thesis by (auto simp: MatchGlob_def has_prefix_iff)
qed

lemma no_suffix_plain:
  assumes "list_all plain_char p"
  shows "cut_suffix p ''/**'' = None" "p \<noteq> ''**''"
proof -
  have "CHR ''*'' \<notin> set p" using assms by (auto simp: list_all_iff plain_char_def)
  then show "cut_suffix p ''/**'' = None" "p \<noteq> ''**''" by (auto simp: cut_suffix_def has_suffix_iff)
qed

lemma MatchGlob_plain: "list_all plain_char p \<Longrightarrow> MatchGlob p key \<longleftrightarrow> key = p"
  by (auto simp: MatchGlob_def no_suffix_plain path_match_plain)

lemma MatchGlob_star:
  assumes "list_all plain_char d"
  shows "MatchGlob (d @ ''*'') key \<longleftrightarrow> (\<exists>t. key = d @ t \<and> CHR ''/'' \<notin> set t)"
proof -
  have n: "CHR ''*'' \<notin> set d" using assms by (auto simp: list_all_iff plain_char_def)
  have "d @ ''*'' \<noteq> ''**''" using n by (cases d) auto
  moreover have "cut_suffix (d @ ''*'') ''/**'' = None"
  proof -
    have "d @ ''*'' \<noteq> t @ ''/**''" for t
    proof
      assume "d @ ''*'' = t @ ''/**''"
      then have "butlast (d @ ''*'') = butlast (t @ ''/**'')" by simp
      then have "d = t @ ''/*''" by (simp add: butlast_append)
      with n show False by simp
    qed
    then show ?thesis by (auto simp: cut_suffix_def has_suffix_iff)
  qed
  ultimately show ?thesis by (simp add: MatchGlob_def path_match_dir_star [OF assms])
qed

text \<open>
  What a protection rule covers.  \<open>dir/**\<close> covers the directory and every key below
  it at any depth and nothing else; a rule without metacharacters covers its own key only;
  a final \<open>*\<close> covers one path segment; and a list covers what one of its rules covers.
\<close>

theorem protection_rules_cover:
  "(MatchAny ps key \<longleftrightarrow> (\<exists>p \<in> set ps. MatchGlob p key)) \<and>
   (MatchGlob (d @ ''/**'') key \<longleftrightarrow> key = d \<or> (\<exists>t. key = d @ ''/'' @ t)) \<and>
   (list_all plain_char d \<longrightarrow> (MatchGlob d key \<longleftrightarrow> key = d)) \<and>
   (list_all plain_char d \<longrightarrow> (MatchGlob (d @ ''*'') key \<longleftrightarrow> (\<exists>t. key = d @ t \<and> CHR ''/'' \<notin> set t)))"
  by (simp add: MatchAny_iff MatchGlob_dir MatchGlob_plain MatchGlob_star)

theorem protection_rules_cover_witness:
  "MatchAny [''woo/**'', ''wc/*''] ''woo/2024/a.zip'' \<and> \<not> MatchAny [''woo/**'', ''wc/*''] ''wc/a/b''"
proof -
  have p: "list_all plain_char ''wc/''" "list_all plain_char ''woo''" by (simp_all add: plain_char_def)
  have "MatchGlob (''woo'' @ ''/**'') ''woo/2024/a.zip''"
    using protection_rules_cover [of "[]" "''woo/2024/a.zip''" "''woo''"] by auto
  moreover have "\<not> MatchGlob (''wc/'' @ ''*'') ''wc/a/b''"
    using protection_rules_cover [of "[]" "''wc/a/b''" "''wc/''"] p by simp
  moreover have "\<not> MatchGlob (''woo'' @ ''/**'') ''wc/a/b''"
    using protection_rules_cover [of "[]" "''wc/a/b''" "''woo''"] by auto
  ultimately show ?thesis by simp
qed

end
