(* ===== verification/ConfigLoad.thy ===== *)
theory ConfigLoad
  imports Config Glob
begin

text \<open>
  internal/config/config.go and manager.go: the configuration file, its defaults and its
  validation, and the manager that replaces the running configuration when the file
  changes.  The YAML decoder, URL and address syntax, quoting and the floating point reader are
  arguments (\<open>cfgenv\<close>, \<open>floats\<close>); white space and upper case are those of ASCII text.  A warning keeps the values it is formatted from.
\<close>

subsection \<open>Durations and sizes\<close>

definition wrap64 :: "int \<Rightarrow> int" where
  "wrap64 i = sint (word_of_int i :: i64)"

text \<open>\<open>strconv.Atoi\<close>, \<open>ParseInt(s, 10, 64)\<close> and \<open>FormatInt(i, 10)\<close>.\<close>

definition parse_int :: "string \<Rightarrow> int option" where
  "parse_int s =
     (let neg = (s \<noteq> [] \<and> hd s = CHR ''-'');
          ds = (if s \<noteq> [] \<and> (hd s = CHR ''-'' \<or> hd s = CHR ''+'') then tl s else s)
      in if ds = [] \<or> \<not> list_all is_digit ds then None
         else let v = int (digits_val ds) in
              if neg then (if v \<le> 2 ^ 63 then Some (- v) else None)
              else (if v < 2 ^ 63 then Some v else None))"

definition format_int :: "int \<Rightarrow> string" where
  "format_int i = (if i < 0 then CHR ''-'' # format_nat (nat (- i)) else format_nat (nat i))"

definition is_space :: "char \<Rightarrow> bool" where
  "is_space c \<longleftrightarrow> (of_char c :: nat) \<in> {9, 10, 11, 12, 13, 32}"

definition trim_space :: "string \<Rightarrow> string" where
  "trim_space s = rev (dropWhile is_space (rev (dropWhile is_space s)))"

definition upper_char :: "char \<Rightarrow> char" where
  "upper_char c = (if 97 \<le> (of_char c :: nat) \<and> (of_char c :: nat) \<le> 122 then char_of (of_char c - 32 :: nat) else c)"

definition hour_ns :: int where "hour_ns = 3600000000000"

text \<open>\<open>Duration.UnmarshalYAML\<close> of the decoded scalar; \<open>pd\<close> is \<open>time.ParseDuration\<close>.\<close>

definition Duration_Unmarshal :: "(string \<Rightarrow> duration option) \<Rightarrow> string \<Rightarrow> gerr + duration" where
  "Duration_Unmarshal pd s =
     (case cut_suffix s ''d'' of
        Some days \<Rightarrow>
          (case parse_int days of
             None \<Rightarrow> Inl (Errf ''invalid duration'')
           | Some n \<Rightarrow> if n < 0 then Inl (Errf ''invalid duration'') else Inr (wrap64 (wrap64 (n * 24) * hour_ns)))
      | None \<Rightarrow>
          (case pd s of None \<Rightarrow> Inl (Errf ''invalid duration'') | Some v \<Rightarrow> Inr v))"

record 'f floats =
  fl_parse :: "string \<Rightarrow> 'f option"
  fl_neg :: "'f \<Rightarrow> bool"
  fl_scale :: "'f \<Rightarrow> i64 \<Rightarrow> i64"

definition sizeUnits :: "(string \<times> i64) list" where
  "sizeUnits =
     [(''TIB'', 2 ^ 40), (''GIB'', 2 ^ 30), (''MIB'', 2 ^ 20), (''KIB'', 2 ^ 10),
      (''TB'', 2 ^ 40), (''GB'', 2 ^ 30), (''MB'', 2 ^ 20), (''KB'', 2 ^ 10),
      (''T'', 2 ^ 40), (''G'', 2 ^ 30), (''M'', 2 ^ 20), (''K'', 2 ^ 10), (''B'', 1)]"

fun size_units :: "'f floats \<Rightarrow> string \<Rightarrow> (string \<times> i64) list \<Rightarrow> gerr + i64" where
  "size_units F t [] =
     (case parse_int t of
        None \<Rightarrow> Inl (Errf ''invalid size'')
      | Some v \<Rightarrow> if v < 0 then Inl (Errf ''invalid size'') else Inr (word_of_int v))"
| "size_units F t (u # us) =
     (case cut_suffix t (fst u) of
        None \<Rightarrow> size_units F t us
      | Some num \<Rightarrow>
          (case fl_parse F (trim_space num) of
             None \<Rightarrow> Inl (Errf ''invalid size'')
           | Some v \<Rightarrow> if fl_neg F v then Inl (Errf ''invalid size'') else Inr (fl_scale F v (snd u))))"

definition ParseSize :: "'f floats \<Rightarrow> string \<Rightarrow> gerr + i64" where
  "ParseSize F s =
     (let t = map upper_char (trim_space s)
      in if t = [] then Inl (Errf ''empty size'') else size_units F t sizeUnits)"

fun size_print :: "int \<Rightarrow> (string \<times> int) list \<Rightarrow> string" where
  "size_print n [] = format_int n @ ''B''"
| "size_print n (u # us) =
     (if snd u \<le> n \<and> n mod snd u = 0 then format_int (n div snd u) @ fst u else size_print n us)"

definition size_string :: "i64 \<Rightarrow> string" where
  "size_string z = size_print (sint z) [(''TB'', 2 ^ 40), (''GB'', 2 ^ 30), (''MB'', 2 ^ 20), (''KB'', 2 ^ 10)]"

subsection \<open>The configuration\<close>

record backendcfg =
  be_endpoint :: string
  be_bucket :: string
  be_region :: string
  be_accessKey :: string
  be_secretKey :: string
  be_ack :: string

record cachecfg =
  ca_maxSize :: i64
  ca_minFree :: i64
  ca_keepBelow :: i64
  ca_neverEvict :: "string list"
  ca_interval :: duration

record mountcfg =
  mo_allowOther :: bool
  mo_populateUser :: string
  mo_debug :: bool

record sitecfg =
  si_name :: string
  si_uploads :: string
  si_backing :: string
  si_cache :: cachecfg
  si_backend :: backendcfg
  si_mount :: mountcfg

record storecfg =
  sc_data :: string
  sc_listen :: string
  sc_region :: string
  sc_buckets :: "bucketcfg list"
  sc_gc :: gccfg
  sc_replica :: replicacfg

datatype warning =
    WBucketNoName
  | WBucketBadName string
  | WBucketTwice string
  | WBucketNoCreds string
  | WNoPeers
  | WSiteSkipped string gerr
  | WSiteNoBucket string string
  | WSiteOtherCreds string string

record config =
  cf_roles :: "string list"
  cf_store :: storecfg
  cf_sites :: "sitecfg list"
  cf_warnings :: "warning list"

record cfgenv =
  ce_yaml :: "string \<Rightarrow> config \<Rightarrow> config option"
  ce_hostPort :: "string \<Rightarrow> bool"
  ce_url :: "string \<Rightarrow> (string \<times> string) option"
  ce_quote :: "string \<Rightarrow> string"

definition RoleStore :: string where "RoleStore = ''store''"
definition RoleAgent :: string where "RoleAgent = ''agent''"
definition AckRemote :: string where "AckRemote = ''remote''"
definition AckLocal :: string where "AckLocal = ''local''"
definition ReplicaOff :: string where "ReplicaOff = ''off''"
definition ReplicaPrimary :: string where "ReplicaPrimary = ''primary''"
definition ReplicaSecondary :: string where "ReplicaSecondary = ''secondary''"
definition DefaultStoreData :: string where "DefaultStoreData = ''/srv/tana''"

definition IsProtected :: "bucketcfg \<Rightarrow> string \<Rightarrow> bool" where
  "IsProtected b key = MatchAny (bc_protected b) key"

definition cfg_Default :: config where
  "cfg_Default =
     \<lparr>cf_roles = [],
      cf_store =
        \<lparr>sc_data = DefaultStoreData, sc_listen = ''127.0.0.1:9200'', sc_region = ''tana'', sc_buckets = [],
         sc_gc = \<lparr>gc_interval = 6 * hour_ns, gc_grace = 72 * hour_ns\<rparr>,
         sc_replica = \<lparr>rc_mode = ReplicaOff, rc_secret = [], rc_peers = [], rc_from = [], rc_interval = 0\<rparr>\<rparr>,
      cf_sites = [], cf_warnings = []\<rparr>"

definition cfg_Has :: "config \<Rightarrow> string \<Rightarrow> bool" where
  "cfg_Has c r = list_ex (\<lambda>got. got = r) (cf_roles c)"

definition site_defaults :: "string \<Rightarrow> sitecfg \<Rightarrow> sitecfg" where
  "site_defaults region s =
     (let be = si_backend s; ca = si_cache s;
          be1 = (if be_region be = [] then be\<lparr>be_region := region\<rparr> else be);
          be2 = (if be_ack be1 = [] then be1\<lparr>be_ack := AckRemote\<rparr> else be1);
          ca1 = (if ca_keepBelow ca = 0 then ca\<lparr>ca_keepBelow := push_bit 10 64\<rparr> else ca);
          ca2 = (if ca_interval ca1 = 0 then ca1\<lparr>ca_interval := 60000000000\<rparr> else ca1)
      in s\<lparr>si_backend := be2, si_cache := ca2\<rparr>)"

definition store_defaults :: "storecfg \<Rightarrow> storecfg" where
  "store_defaults s =
     (let d = cf_store cfg_Default;
          s1 = (if sc_data s = [] then s\<lparr>sc_data := sc_data d\<rparr> else s);
          s2 = (if sc_listen s1 = [] then s1\<lparr>sc_listen := sc_listen d\<rparr> else s1);
          s3 = (if sc_region s2 = [] then s2\<lparr>sc_region := sc_region d\<rparr> else s2);
          g = sc_gc s3;
          g1 = (if gc_interval g = 0 then g\<lparr>gc_interval := gc_interval (sc_gc d)\<rparr> else g);
          g2 = (if gc_grace g1 = 0 then g1\<lparr>gc_grace := gc_grace (sc_gc d)\<rparr> else g1);
          r = sc_replica s3;
          r1 = (if rc_mode r = [] then r\<lparr>rc_mode := ReplicaOff\<rparr> else r);
          r2 = (if rc_interval r1 = 0 then r1\<lparr>rc_interval := 10000000000\<rparr> else r1)
      in s3\<lparr>sc_gc := g2, sc_replica := r2\<rparr>)"

definition applyDefaults :: "config \<Rightarrow> config" where
  "applyDefaults c =
     (let st = store_defaults (cf_store c)
      in c\<lparr>cf_store := st, cf_sites := map (site_defaults (sc_region st)) (cf_sites c)\<rparr>)"

definition warnf :: "warning \<Rightarrow> config \<Rightarrow> config" where
  "warnf w c = c\<lparr>cf_warnings := cf_warnings c @ [w]\<rparr>"

subsection \<open>Paths and names\<close>

definition isAbs :: "string \<Rightarrow> bool" where
  "isAbs p = has_prefix p ''/''"

definition path_under :: "string \<Rightarrow> string \<Rightarrow> bool" where
  "path_under child parent = (if parent = ''/'' then True else child = parent \<or> has_prefix child (parent @ ''/''))"

text \<open>\<open>path.Clean\<close>: the components between separators, \<open>.\<close> dropped and \<open>..\<close> resolved.\<close>

fun split_slash :: "string \<Rightarrow> string list" where
  "split_slash [] = [[]]"
| "split_slash (c # cs) =
     (if c = CHR ''/'' then [] # split_slash cs
      else (case split_slash cs of [] \<Rightarrow> [[c]] | w # ws \<Rightarrow> (c # w) # ws))"

fun clean_parts :: "bool \<Rightarrow> string list \<Rightarrow> string list \<Rightarrow> string list" where
  "clean_parts rooted [] acc = acc"
| "clean_parts rooted (w # ws) acc =
     clean_parts rooted ws
       (if w = [] \<or> w = ''.'' then acc
        else if w = ''..'' then
          (if acc \<noteq> [] \<and> last acc \<noteq> ''..'' then butlast acc else if rooted then acc else acc @ [w])
        else acc @ [w])"

definition path_clean :: "string \<Rightarrow> string" where
  "path_clean p =
     (if p = [] then ''.''
      else if hd p = CHR ''/'' then CHR ''/'' # path_join (clean_parts True (split_slash (tl p)) [])
      else (let r = path_join (clean_parts False (split_slash p) []) in if r = [] then ''.'' else r))"

definition name_char :: "char \<Rightarrow> bool" where
  "name_char ch \<longleftrightarrow> (CHR ''a'' \<le> ch \<and> ch \<le> CHR ''z'') \<or> (CHR ''0'' \<le> ch \<and> ch \<le> CHR ''9'') \<or> ch = CHR ''-'' \<or> ch = CHR ''.''"

fun has_dotdot :: "string \<Rightarrow> bool" where
  "has_dotdot (a # b # s) = (a = CHR ''.'' \<and> b = CHR ''.'' \<or> has_dotdot (b # s))"
| "has_dotdot s = False"

definition validBucketName :: "string \<Rightarrow> bool" where
  "validBucketName name =
     (if length name < 3 \<or> 63 < length name then False
      else if hd name = CHR ''-'' \<or> hd name = CHR ''.'' \<or> last name = CHR ''-'' \<or> last name = CHR ''.'' then False
      else if \<not> list_all name_char name then False
      else \<not> has_dotdot name)"

subsection \<open>Validation\<close>

fun check_buckets :: "bucketcfg list \<Rightarrow> string list \<Rightarrow> bucketcfg list \<times> warning list" where
  "check_buckets [] seen = ([], [])"
| "check_buckets (b # bs) seen =
     (if bc_name b = [] then (case check_buckets bs seen of (k, w) \<Rightarrow> (k, WBucketNoName # w))
      else if \<not> validBucketName (bc_name b) then
        (case check_buckets bs seen of (k, w) \<Rightarrow> (k, WBucketBadName (bc_name b) # w))
      else if bc_name b \<in> set seen then
        (case check_buckets bs seen of (k, w) \<Rightarrow> (k, WBucketTwice (bc_name b) # w))
      else if bc_accessKey b = [] \<or> bc_secretKey b = [] then
        (case check_buckets bs seen of (k, w) \<Rightarrow> (k, WBucketNoCreds (bc_name b) # w))
      else (case check_buckets bs (bc_name b # seen) of (k, w) \<Rightarrow> (b # k, w)))"

definition check_replica :: "replicacfg \<Rightarrow> gerr + warning list" where
  "check_replica r =
     (if rc_mode r = ReplicaOff then Inr []
      else if rc_mode r = ReplicaPrimary then
        (if rc_secret r = [] then Inl (Errf ''store.replica.mode is primary but replica.secret is empty'')
         else Inr (if rc_peers r = [] then [WNoPeers] else []))
      else if rc_mode r = ReplicaSecondary then
        (if rc_from r = [] then Inl (Errf ''store.replica.mode is secondary but replica.from is empty'')
         else if rc_secret r = [] then Inl (Errf ''store.replica.mode is secondary but replica.secret is empty'')
         else Inr [])
      else Inl (Errf ''unknown store.replica.mode''))"

definition validateStore :: "cfgenv \<Rightarrow> config \<Rightarrow> gerr + config" where
  "validateStore E c =
     (let s = cf_store c in
      if \<not> isAbs (sc_data s) then Inl (Errf ''store.data must be an absolute path'')
      else if \<not> ce_hostPort E (sc_listen s) then Inl (Errf ''store.listen'')
      else
        (case check_buckets (sc_buckets s) [] of
           (kept, ws) \<Rightarrow>
             if kept = [] then Inl (Errf ''store role declared but no usable bucket configured'')
             else res_bind (check_replica (sc_replica s)) (\<lambda>rw.
                    Inr (c\<lparr>cf_store := s\<lparr>sc_buckets := kept\<rparr>, cf_warnings := cf_warnings c @ ws @ rw\<rparr>))))"

definition siteLabel :: "cfgenv \<Rightarrow> sitecfg \<Rightarrow> string" where
  "siteLabel E s =
     (if si_name s \<noteq> [] then ce_quote E (si_name s)
      else if si_uploads s \<noteq> [] then ce_quote E (si_uploads s) else ''(unnamed)'')"

definition checkSite :: "cfgenv \<Rightarrow> sitecfg \<Rightarrow> string list \<Rightarrow> (string \<times> string) list \<Rightarrow> gerr option" where
  "checkSite E s seenName seenPath =
     (let up = path_clean (si_uploads s); back = path_clean (si_backing s); be = si_backend s; ca = si_cache s in
      if si_name s = [] then Some (Errf ''name is empty'')
      else if si_name s \<in> set seenName then Some (Errf ''name declared twice'')
      else if \<not> isAbs (si_uploads s) then Some (Errf ''uploads must be an absolute path'')
      else if \<not> isAbs (si_backing s) then Some (Errf ''backing must be an absolute path'')
      else if up = back then Some (Errf ''uploads and backing are the same path'')
      else if path_under back up \<or> path_under up back then Some (Errf ''uploads and backing must not be nested'')
      else if map_of seenPath up \<noteq> None then Some (Errf ''uploads path already used'')
      else if map_of seenPath back \<noteq> None then Some (Errf ''backing path already used'')
      else if be_endpoint be = [] then Some (Errf ''backend.endpoint is empty'')
      else if (case ce_url E (be_endpoint be) of
                 None \<Rightarrow> True | Some (scheme, host) \<Rightarrow> host = [] \<or> (scheme \<noteq> ''http'' \<and> scheme \<noteq> ''https''))
        then Some (Errf ''backend.endpoint must be an http(s) URL'')
      else if be_bucket be = [] then Some (Errf ''backend.bucket is empty'')
      else if \<not> validBucketName (be_bucket be) then Some (Errf ''backend.bucket is not a valid bucket name'')
      else if be_accessKey be = [] \<or> be_secretKey be = [] then Some (Errf ''backend credentials are empty'')
      else if be_ack be \<noteq> AckRemote \<and> be_ack be \<noteq> AckLocal then Some (Errf ''backend.ack must be remote or local'')
      else if sint (ca_maxSize ca) < 0 \<or> sint (ca_minFree ca) < 0 \<or> sint (ca_keepBelow ca) < 0
        then Some (Errf ''cache sizes must not be negative'')
      else if 0 < sint (ca_maxSize ca) \<and> sint (ca_maxSize ca) < sint (ca_keepBelow ca)
        then Some (Errf ''cache.keep_below exceeds cache.max_size'')
      else None)"

fun check_sites ::
    "cfgenv \<Rightarrow> sitecfg list \<Rightarrow> string list \<Rightarrow> (string \<times> string) list \<Rightarrow> sitecfg list \<times> warning list" where
  "check_sites E [] names paths = ([], [])"
| "check_sites E (s # ss) names paths =
     (case checkSite E s names paths of
        Some e \<Rightarrow> (case check_sites E ss names paths of (k, w) \<Rightarrow> (k, WSiteSkipped (siteLabel E s) e # w))
      | None \<Rightarrow>
          (case check_sites E ss (si_name s # names)
                  ((path_clean (si_backing s), si_name s) # (path_clean (si_uploads s), si_name s) # paths) of
             (k, w) \<Rightarrow> (s # k, w)))"

definition validateAgent :: "cfgenv \<Rightarrow> config \<Rightarrow> gerr + config" where
  "validateAgent E c =
     (case check_sites E (cf_sites c) [] [] of
        (kept, ws) \<Rightarrow>
          if kept = [] then Inl (Errf ''agent role declared but no usable site configured'')
          else Inr (c\<lparr>cf_sites := kept, cf_warnings := cf_warnings c @ ws\<rparr>))"

text \<open>\<open>crossCheck\<close>: the last bucket of a name is the one the map keeps.\<close>

definition cross_site :: "(string \<times> bucketcfg) list \<Rightarrow> sitecfg \<Rightarrow> warning list" where
  "cross_site local s =
     (case map_of local (be_bucket (si_backend s)) of
        None \<Rightarrow> [WSiteNoBucket (si_name s) (be_bucket (si_backend s))]
      | Some b \<Rightarrow>
          if bc_accessKey b \<noteq> be_accessKey (si_backend s) \<or> bc_secretKey b \<noteq> be_secretKey (si_backend s)
          then [WSiteOtherCreds (si_name s) (be_bucket (si_backend s))] else [])"

definition crossCheck :: "config \<Rightarrow> config" where
  "crossCheck c =
     (let local = rev (map (\<lambda>b. (bc_name b, b)) (sc_buckets (cf_store c)))
      in c\<lparr>cf_warnings := cf_warnings c @ concat (map (cross_site local) (cf_sites c))\<rparr>)"

definition cfg_validate :: "cfgenv \<Rightarrow> config \<Rightarrow> gerr + config" where
  "cfg_validate E c =
     (if cf_roles c = [] then Inl (Errf ''roles is empty'')
      else if list_ex (\<lambda>r. r \<noteq> RoleStore \<and> r \<noteq> RoleAgent) (cf_roles c) then Inl (Errf ''unknown role'')
      else
        res_bind (if cfg_Has c RoleStore then validateStore E c else Inr c) (\<lambda>c1.
        res_bind (if cfg_Has c1 RoleAgent then validateAgent E c1 else Inr c1) (\<lambda>c2.
          Inr (if cfg_Has c2 RoleStore \<and> cfg_Has c2 RoleAgent then crossCheck c2 else c2))))"

text \<open>\<open>Load\<close> of what \<open>os.ReadFile\<close> returned.\<close>

definition cfg_Load :: "cfgenv \<Rightarrow> gerr + string \<Rightarrow> gerr + config" where
  "cfg_Load E file =
     (case file of
        Inl _ \<Rightarrow> Inl (Errf ''read config'')
      | Inr data \<Rightarrow>
          (case ce_yaml E data cfg_Default of
             None \<Rightarrow> Inl (Errf ''parse'')
           | Some cfg \<Rightarrow>
               (case cfg_validate E (applyDefaults cfg) of
                  Inl _ \<Rightarrow> Inl (Errf ''invalid'')
                | Inr c \<Rightarrow> Inr c)))"

subsection \<open>The manager\<close>

record manager =
  mg_path :: string
  mg_current :: config
  mg_reloadErr :: "gerr option"

definition NewManager :: "cfgenv \<Rightarrow> string \<Rightarrow> gerr + string \<Rightarrow> gerr + manager" where
  "NewManager E path file =
     res_bind (cfg_Load E file) (\<lambda>cfg. Inr \<lparr>mg_path = path, mg_current = cfg, mg_reloadErr = None\<rparr>)"

definition mg_Get :: "manager \<Rightarrow> config" where "mg_Get m = mg_current m"
definition mg_Path :: "manager \<Rightarrow> string" where "mg_Path m = mg_path m"

definition mg_LastError :: "manager \<Rightarrow> gerr option" where
  "mg_LastError m = mg_reloadErr m"

definition mg_Reload :: "cfgenv \<Rightarrow> gerr + string \<Rightarrow> manager \<Rightarrow> manager \<times> gerr option" where
  "mg_Reload E file m =
     (case cfg_Load E file of
        Inl e \<Rightarrow> (m\<lparr>mg_reloadErr := Some e\<rparr>, Some e)
      | Inr cfg \<Rightarrow> (m\<lparr>mg_reloadErr := None, mg_current := cfg\<rparr>, None))"

text \<open>
  One turn of the loop in \<open>Watch\<close>.  An event carries the name, whether its kind is write,
  create or rename, and what reading the file gives at that moment; a watcher error is
  only reported.  What the callbacks are told is the second component.
\<close>

datatype watch_event = FileEvent string bool "gerr + string" | WatchError gerr
datatype notice = NoNotice | OnErr gerr | OnReload config

fun watch_step :: "cfgenv \<Rightarrow> watch_event \<Rightarrow> manager \<Rightarrow> manager \<times> notice" where
  "watch_step E (FileEvent name kind file) m =
     (if path_clean name \<noteq> path_clean (mg_path m) then (m, NoNotice)
      else if \<not> kind then (m, NoNotice)
      else (case mg_Reload E file m of
              (m', Some e) \<Rightarrow> (m', OnErr e)
            | (m', None) \<Rightarrow> (m', OnReload (mg_Get m'))))"
| "watch_step E (WatchError e) m = (m, OnErr e)"

end
