(* ===== verification/ConfigLaws.thy ===== *)
theory ConfigLaws
  imports ConfigLoad
begin

text \<open>
  What a loaded configuration guarantees: the tenant table has valid distinct names with
  credentials, replication never runs without a secret, the sites' directories are
  absolute, not nested within a site and never shared between sites.  A configuration
  that was loaded loads again unchanged, the manager only ever holds one that loaded, and
  the size and duration literals are read with the bounds the machine integers give.
\<close>

subsection \<open>The tenant table\<close>

definition bucket_ok :: "bucketcfg \<Rightarrow> bool" where
  "bucket_ok b \<longleftrightarrow> validBucketName (bc_name b) \<and> bc_accessKey b \<noteq> [] \<and> bc_secretKey b \<noteq> []"

lemma validBucketName_nonempty: "validBucketName n \<Longrightarrow> n \<noteq> []"
  by (auto simp: validBucketName_def)

lemma check_buckets_kept:
  "check_buckets bs seen = (k, w) \<Longrightarrow>
   list_all bucket_ok k \<and> distinct (map bc_name k) \<and> set (map bc_name k) \<inter> set seen = {} \<and> set k \<subseteq> set bs"
proof (induction bs seen arbitrary: k w rule: check_buckets.induct)
  case (2 b bs seen)
  show ?case
  proof (cases "bc_name b = [] \<or> \<not> validBucketName (bc_name b) \<or> bc_name b \<in> set seen \<or> bc_accessKey b = [] \<or> bc_secretKey b = []")
    case True
    obtain k' w' where r: "check_buckets bs seen = (k', w')" by force
    then have "k = k'" using "2.prems" True by (auto split: if_splits)
    moreover have "list_all bucket_ok k' \<and> distinct (map bc_name k') \<and> set (map bc_name k') \<inter> set seen = {} \<and> set k' \<subseteq> set bs"
      using True r "2.IH"(1-4) by (cases "bc_name b = []"; cases "validBucketName (bc_name b)"; cases "bc_name b \<in> set seen") blast+
    ultimately show ?thesis by auto
  next
    case False
    obtain k' w' where r: "check_buckets bs (bc_name b # seen) = (k', w')" by force
    with False "2.prems" have k: "k = b # k'" by auto
    from False have "bucket_ok b" "bc_name b \<notin> set seen" by (simp_all add: bucket_ok_def)
    moreover note "2.IH"(5) [OF _ _ _ _ r]
    ultimately show ?thesis using False k by auto
  qed
qed auto

lemma check_buckets_again:
  "list_all bucket_ok k \<Longrightarrow> distinct (map bc_name k) \<Longrightarrow> set (map bc_name k) \<inter> set seen = {} \<Longrightarrow> check_buckets k seen = (k, [])"
proof (induction k arbitrary: seen)
  case (Cons b k)
  have "check_buckets k (bc_name b # seen) = (k, [])" using Cons.prems by (intro Cons.IH) auto
  then show ?case using Cons.prems validBucketName_nonempty [of "bc_name b"] by (auto simp: bucket_ok_def)
qed simp

definition replica_ok :: "replicacfg \<Rightarrow> bool" where
  "replica_ok r \<longleftrightarrow> rc_mode r = ReplicaOff \<or> rc_mode r = ReplicaPrimary \<and> rc_secret r \<noteq> [] \<or>
     rc_mode r = ReplicaSecondary \<and> rc_from r \<noteq> [] \<and> rc_secret r \<noteq> []"

lemma check_replica_ok: "(\<exists>w. check_replica r = Inr w) \<longleftrightarrow> replica_ok r"
  by (auto simp: check_replica_def replica_ok_def ReplicaOff_def ReplicaPrimary_def ReplicaSecondary_def)

definition store_usable :: "cfgenv \<Rightarrow> storecfg \<Rightarrow> bool" where
  "store_usable E s \<longleftrightarrow> isAbs (sc_data s) \<and> ce_hostPort E (sc_listen s) \<and> sc_buckets s \<noteq> [] \<and>
     list_all bucket_ok (sc_buckets s) \<and> distinct (map bc_name (sc_buckets s)) \<and> replica_ok (sc_replica s)"

lemma validateStore_Inr:
  assumes "validateStore E c = Inr c'"
  shows "store_usable E (cf_store c')" "cf_roles c' = cf_roles c" "cf_sites c' = cf_sites c"
    "cf_store c' = (cf_store c)\<lparr>sc_buckets := sc_buckets (cf_store c')\<rparr>"
proof -
  obtain k ws where b: "check_buckets (sc_buckets (cf_store c)) [] = (k, ws)" by force
  from assms b obtain rw where r: "check_replica (sc_replica (cf_store c)) = Inr rw" and k: "k \<noteq> []"
    and c': "c' = c\<lparr>cf_store := (cf_store c)\<lparr>sc_buckets := k\<rparr>, cf_warnings := cf_warnings c @ ws @ rw\<rparr>"
    and o: "isAbs (sc_data (cf_store c))" "ce_hostPort E (sc_listen (cf_store c))"
    by (auto simp: validateStore_def Let_def res_bind_Inr split: if_splits)
  show "store_usable E (cf_store c')"
    using check_buckets_kept [OF b] check_replica_ok r k o by (auto simp: c' store_usable_def)
  show "cf_roles c' = cf_roles c" "cf_sites c' = cf_sites c"
    "cf_store c' = (cf_store c)\<lparr>sc_buckets := sc_buckets (cf_store c')\<rparr>" by (simp_all add: c')
qed

lemma validateStore_again:
  assumes "store_usable E (cf_store c)"
  shows "\<exists>w. validateStore E c = Inr (c\<lparr>cf_warnings := w\<rparr>)"
proof -
  have "check_buckets (sc_buckets (cf_store c)) [] = (sc_buckets (cf_store c), [])"
    using assms by (intro check_buckets_again) (simp_all add: store_usable_def)
  moreover obtain rw where "check_replica (sc_replica (cf_store c)) = Inr rw"
    using assms check_replica_ok by (auto simp: store_usable_def)
  ultimately have "validateStore E c = Inr (c\<lparr>cf_store := (cf_store c)\<lparr>sc_buckets := sc_buckets (cf_store c)\<rparr>, cf_warnings := cf_warnings c @ rw\<rparr>)"
    using assms by (simp add: validateStore_def store_usable_def Let_def)
  then show ?thesis by auto
qed

subsection \<open>The sites\<close>

definition site_paths :: "sitecfg \<Rightarrow> string list" where
  "site_paths s = [path_clean (si_uploads s), path_clean (si_backing s)]"

definition site_ok :: "cfgenv \<Rightarrow> sitecfg \<Rightarrow> bool" where
  "site_ok E s \<longleftrightarrow> si_name s \<noteq> [] \<and> isAbs (si_uploads s) \<and> isAbs (si_backing s) \<and>
     \<not> path_under (path_clean (si_backing s)) (path_clean (si_uploads s)) \<and>
     \<not> path_under (path_clean (si_uploads s)) (path_clean (si_backing s)) \<and>
     (\<exists>scheme host. ce_url E (be_endpoint (si_backend s)) = Some (scheme, host) \<and> host \<noteq> [] \<and> scheme \<in> {''http'', ''https''}) \<and>
     be_endpoint (si_backend s) \<noteq> [] \<and> validBucketName (be_bucket (si_backend s)) \<and>
     be_accessKey (si_backend s) \<noteq> [] \<and> be_secretKey (si_backend s) \<noteq> [] \<and> be_ack (si_backend s) \<in> {AckRemote, AckLocal} \<and>
     0 \<le> sint (ca_maxSize (si_cache s)) \<and> 0 \<le> sint (ca_minFree (si_cache s)) \<and> 0 \<le> sint (ca_keepBelow (si_cache s)) \<and>
     (0 < sint (ca_maxSize (si_cache s)) \<longrightarrow> sint (ca_keepBelow (si_cache s)) \<le> sint (ca_maxSize (si_cache s)))"

lemma path_under_refl [simp]: "path_under p p"
  by (simp add: path_under_def)

lemma checkSite_None:
  "checkSite E s names paths = None \<longleftrightarrow>
     site_ok E s \<and> si_name s \<notin> set names \<and> set (site_paths s) \<inter> fst ` set paths = {}"
proof -
  have "map_of paths p = None \<longleftrightarrow> p \<notin> fst ` set paths" for p by (rule map_of_eq_None_iff)
  moreover have "(case ce_url E u of None \<Rightarrow> True | Some (scheme, host) \<Rightarrow> host = [] \<or> (scheme \<noteq> ''http'' \<and> scheme \<noteq> ''https'')) \<longleftrightarrow>
      \<not> (\<exists>scheme host. ce_url E u = Some (scheme, host) \<and> host \<noteq> [] \<and> scheme \<in> {''http'', ''https''})" for u
    by (auto split: option.splits)
  moreover have "be_bucket (si_backend s) = [] \<Longrightarrow> \<not> validBucketName (be_bucket (si_backend s))"
    by (simp add: validBucketName_def)
  ultimately show ?thesis
    unfolding checkSite_def Let_def site_ok_def site_paths_def
    by (auto simp: not_less simp del: map_of_eq_None_iff)
qed

lemma site_paths_distinct: "site_ok E s \<Longrightarrow> distinct (site_paths s)"
  using path_under_refl by (auto simp: site_ok_def site_paths_def)

lemma check_sites_kept:
  "check_sites E ss names paths = (k, w) \<Longrightarrow>
   list_all (site_ok E) k \<and> distinct (map si_name k) \<and> distinct (concat (map site_paths k)) \<and>
   set (map si_name k) \<inter> set names = {} \<and> set (concat (map site_paths k)) \<inter> fst ` set paths = {} \<and> set k \<subseteq> set ss"
proof (induction ss arbitrary: names paths k w)
  case (Cons s ss)
  show ?case
  proof (cases "checkSite E s names paths")
    case (Some e)
    with Cons.prems obtain w' where "check_sites E ss names paths = (k, w')" by (auto split: prod.splits)
    from Cons.IH [OF this] show ?thesis by auto
  next
    case None
    let ?p = "(path_clean (si_backing s), si_name s) # (path_clean (si_uploads s), si_name s) # paths"
    from None Cons.prems obtain k' where r: "check_sites E ss (si_name s # names) ?p = (k', w)" and k: "k = s # k'"
      by (auto split: prod.splits)
    have ps: "set (site_paths s) \<union> fst ` set paths = fst ` set ?p" by (auto simp: site_paths_def)
    note s = None [unfolded checkSite_None]
    show ?thesis
      using Cons.IH [OF r] s site_paths_distinct [of E s] unfolding k ps [symmetric] by auto
  qed
qed auto

lemma check_sites_again:
  "list_all (site_ok E) k \<Longrightarrow> distinct (map si_name k) \<Longrightarrow> distinct (concat (map site_paths k)) \<Longrightarrow>
   set (map si_name k) \<inter> set names = {} \<Longrightarrow> set (concat (map site_paths k)) \<inter> fst ` set paths = {} \<Longrightarrow>
   check_sites E k names paths = (k, [])"
proof (induction k arbitrary: names paths)
  case (Cons s k)
  let ?p = "(path_clean (si_backing s), si_name s) # (path_clean (si_uploads s), si_name s) # paths"
  have ps: "fst ` set ?p = set (site_paths s) \<union> fst ` set paths" by (auto simp: site_paths_def)
  have "check_sites E k (si_name s # names) ?p = (k, [])"
  proof (rule Cons.IH)
    show "set (concat (map site_paths k)) \<inter> fst ` set ?p = {}" unfolding ps using Cons.prems by auto
  qed (use Cons.prems in auto)
  moreover have "checkSite E s names paths = None" unfolding checkSite_None using Cons.prems by auto
  ultimately show ?case by simp
qed simp

definition sites_usable :: "cfgenv \<Rightarrow> sitecfg list \<Rightarrow> bool" where
  "sites_usable E ss \<longleftrightarrow> ss \<noteq> [] \<and> list_all (site_ok E) ss \<and> distinct (map si_name ss) \<and> distinct (concat (map site_paths ss))"

lemma validateAgent_Inr:
  assumes "validateAgent E c = Inr c'"
  shows "sites_usable E (cf_sites c')" "cf_roles c' = cf_roles c" "cf_store c' = cf_store c" "set (cf_sites c') \<subseteq> set (cf_sites c)"
proof -
  obtain k ws where b: "check_sites E (cf_sites c) [] [] = (k, ws)" by force
  with assms show "sites_usable E (cf_sites c')" "cf_roles c' = cf_roles c" "cf_store c' = cf_store c" "set (cf_sites c') \<subseteq> set (cf_sites c)"
    using check_sites_kept [OF b] by (auto simp: validateAgent_def sites_usable_def split: if_splits)
qed

lemma validateAgent_again:
  assumes "sites_usable E (cf_sites c)"
  shows "\<exists>w. validateAgent E c = Inr (c\<lparr>cf_warnings := w\<rparr>)"
proof -
  have "check_sites E (cf_sites c) [] [] = (cf_sites c, [])"
    using assms by (intro check_sites_again) (simp_all add: sites_usable_def)
  then show ?thesis
    using assms by (intro exI [of _ "cf_warnings c"]) (simp add: validateAgent_def sites_usable_def)
qed


subsection \<open>Loading\<close>

definition config_usable :: "cfgenv \<Rightarrow> config \<Rightarrow> bool" where
  "config_usable E c \<longleftrightarrow> cf_roles c \<noteq> [] \<and> set (cf_roles c) \<subseteq> {RoleStore, RoleAgent} \<and>
     (cfg_Has c RoleStore \<longrightarrow> store_usable E (cf_store c)) \<and> (cfg_Has c RoleAgent \<longrightarrow> sites_usable E (cf_sites c))"

lemma crossCheck_fields [simp]:
  "cf_roles (crossCheck c) = cf_roles c" "cf_store (crossCheck c) = cf_store c" "cf_sites (crossCheck c) = cf_sites c"
  by (simp_all add: crossCheck_def Let_def)

lemma cfg_Has_cong: "cf_roles c = cf_roles c' \<Longrightarrow> cfg_Has c r = cfg_Has c' r"
  by (simp add: cfg_Has_def)

definition defaulted :: "config \<Rightarrow> bool" where
  "defaulted c \<longleftrightarrow> applyDefaults c = c"

lemma store_defaults_idem: "store_defaults (store_defaults s) = store_defaults s"
proof -
  have d: "sc_data (cf_store cfg_Default) \<noteq> []" "sc_listen (cf_store cfg_Default) \<noteq> []" "sc_region (cf_store cfg_Default) \<noteq> []"
    "gc_interval (sc_gc (cf_store cfg_Default)) \<noteq> 0" "gc_grace (sc_gc (cf_store cfg_Default)) \<noteq> 0" "ReplicaOff \<noteq> []"
    by (simp_all add: cfg_Default_def DefaultStoreData_def hour_ns_def ReplicaOff_def)
  define s' where "s' = store_defaults s"
  have "sc_data s' \<noteq> []" "sc_listen s' \<noteq> []" "sc_region s' \<noteq> []" "gc_interval (sc_gc s') \<noteq> 0" "gc_grace (sc_gc s') \<noteq> 0"
    "rc_mode (sc_replica s') \<noteq> []" "rc_interval (sc_replica s') \<noteq> 0"
    using d by (simp_all add: s'_def store_defaults_def Let_def del: not_gr_zero)
  then have "store_defaults s' = s'" by (simp add: store_defaults_def Let_def)
  then show ?thesis by (simp add: s'_def)
qed

lemma store_defaults_region: "sc_region (store_defaults s) \<noteq> []"
  by (simp add: store_defaults_def Let_def cfg_Default_def)

lemma site_defaults_idem: "region \<noteq> [] \<Longrightarrow> site_defaults region (site_defaults region s) = site_defaults region s"
proof -
  assume r: "region \<noteq> []"
  define s' where "s' = site_defaults region s"
  have "be_region (si_backend s') \<noteq> []" "be_ack (si_backend s') \<noteq> []" "ca_keepBelow (si_cache s') \<noteq> 0" "ca_interval (si_cache s') \<noteq> 0"
    using r by (simp_all add: s'_def site_defaults_def Let_def AckRemote_def push_bit_eq_mult)
  then have "site_defaults region s' = s'" by (simp add: site_defaults_def Let_def)
  then show ?thesis by (simp add: s'_def)
qed

lemma applyDefaults_idem: "defaulted (applyDefaults c)"
proof -
  have "map (site_defaults (sc_region (store_defaults (cf_store c)))) (map (site_defaults (sc_region (store_defaults (cf_store c)))) (cf_sites c)) =
      map (site_defaults (sc_region (store_defaults (cf_store c)))) (cf_sites c)"
    using site_defaults_idem [OF store_defaults_region] by simp
  then show ?thesis by (simp add: defaulted_def applyDefaults_def Let_def store_defaults_idem)
qed

lemma defaulted_iff:
  "defaulted c \<longleftrightarrow> store_defaults (cf_store c) = cf_store c \<and> (\<forall>s \<in> set (cf_sites c). site_defaults (sc_region (cf_store c)) s = s)"
proof -
  have "c\<lparr>cf_store := st, cf_sites := ss\<rparr> = c \<longleftrightarrow> st = cf_store c \<and> ss = cf_sites c" for st ss
    by (cases c) auto
  then show ?thesis
    by (auto simp: defaulted_def applyDefaults_def Let_def map_idI map_eq_conv [of _ _ "\<lambda>x. x", simplified])
qed

lemma store_defaults_buckets: "store_defaults (s\<lparr>sc_buckets := k\<rparr>) = (store_defaults s)\<lparr>sc_buckets := k\<rparr>"
  by (simp add: store_defaults_def Let_def)

lemma validateStore_defaulted:
  assumes "validateStore E c = Inr c'" "defaulted c"
  shows "defaulted c'"
proof -
  note v = validateStore_Inr [OF assms(1)]
  have "store_defaults (cf_store c') = cf_store c'"
    using assms(2) unfolding defaulted_iff by (subst (1 2) v(4)) (simp add: store_defaults_buckets)
  moreover have "sc_region (cf_store c') = sc_region (cf_store c)" by (subst v(4)) simp
  ultimately show ?thesis using assms(2) v(3) by (simp add: defaulted_iff)
qed

lemma cfg_validate_Inr:
  assumes "cfg_validate E c = Inr c'"
  shows "config_usable E c'" "defaulted c \<Longrightarrow> defaulted c'" "cf_roles c' = cf_roles c"
proof -
  from assms have roles: "cf_roles c \<noteq> []" "\<not> list_ex (\<lambda>r. r \<noteq> RoleStore \<and> r \<noteq> RoleAgent) (cf_roles c)"
    by (auto simp: cfg_validate_def split: if_splits)
  from assms roles obtain c1 c2 where
    s1: "(if cfg_Has c RoleStore then validateStore E c else Inr c) = Inr c1"
    and s2: "(if cfg_Has c1 RoleAgent then validateAgent E c1 else Inr c1) = Inr c2"
    and c': "c' = (if cfg_Has c2 RoleStore \<and> cfg_Has c2 RoleAgent then crossCheck c2 else c2)"
    unfolding cfg_validate_def by (auto simp: res_bind_Inr simp del: if_split)
  have r1: "cf_roles c1 = cf_roles c" using s1 validateStore_Inr(2) [of E c c1] by (auto split: if_splits)
  have r2: "cf_roles c2 = cf_roles c1" using s2 validateAgent_Inr(2) [of E c1 c2] by (auto split: if_splits)
  have st: "cf_store c2 = cf_store c1" using s2 validateAgent_Inr(3) [of E c1 c2] by (auto split: if_splits)
  have sites: "set (cf_sites c2) \<subseteq> set (cf_sites c1)" using s2 validateAgent_Inr(4) [of E c1 c2] by (auto split: if_splits)
  have cc: "cf_roles c' = cf_roles c2" "cf_store c' = cf_store c2" "cf_sites c' = cf_sites c2" by (simp_all add: c')
  show "cf_roles c' = cf_roles c" using cc r1 r2 by simp
  have has: "cfg_Has c' r = cfg_Has c r" "cfg_Has c1 r = cfg_Has c r" for r using cc r1 r2 by (simp_all add: cfg_Has_def)
  have "cfg_Has c RoleStore \<longrightarrow> store_usable E (cf_store c1)" using s1 validateStore_Inr(1) by auto
  moreover have "cfg_Has c RoleAgent \<longrightarrow> sites_usable E (cf_sites c2)" using s2 validateAgent_Inr(1) has by auto
  moreover have "set (cf_roles c) \<subseteq> {RoleStore, RoleAgent}" using roles(2) by (auto simp: list_ex_iff)
  ultimately show "config_usable E c'" using roles(1) cc st r1 r2 has by (simp add: config_usable_def)
  assume d: "defaulted c"
  have "defaulted c1" using s1 d validateStore_defaulted by (auto split: if_splits)
  then show "defaulted c'" using cc st sites by (auto simp: defaulted_iff)
qed

lemma cfg_validate_again:
  assumes "config_usable E c"
  shows "\<exists>w. cfg_validate E c = Inr (c\<lparr>cf_warnings := w\<rparr>)"
proof -
  obtain w1 where s1: "(if cfg_Has c RoleStore then validateStore E c else Inr c) = Inr (c\<lparr>cf_warnings := w1\<rparr>)"
  proof (cases "cfg_Has c RoleStore")
    case True
    then show thesis using that validateStore_again [of E c] assms by (auto simp: config_usable_def)
  next
    case False
    then show thesis using that [of "cf_warnings c"] by simp
  qed
  let ?c1 = "c\<lparr>cf_warnings := w1\<rparr>"
  have h: "cfg_Has (c\<lparr>cf_warnings := w\<rparr>) r = cfg_Has c r" for w r by (simp add: cfg_Has_def)
  obtain w2 where s2: "(if cfg_Has ?c1 RoleAgent then validateAgent E ?c1 else Inr ?c1) = Inr (c\<lparr>cf_warnings := w2\<rparr>)"
  proof (cases "cfg_Has c RoleAgent")
    case True
    then show thesis using that validateAgent_again [of E ?c1] assms h by (auto simp: config_usable_def)
  next
    case False
    then show thesis using that [of w1] h by simp
  qed
  have roles: "cf_roles c \<noteq> []" "\<not> list_ex (\<lambda>r. r \<noteq> RoleStore \<and> r \<noteq> RoleAgent) (cf_roles c)"
    using assms by (auto simp: config_usable_def list_ex_iff)
  have "\<exists>w. (if P then crossCheck (c\<lparr>cf_warnings := w2\<rparr>) else c\<lparr>cf_warnings := w2\<rparr>) = c\<lparr>cf_warnings := w\<rparr>" for P
    by (auto simp: crossCheck_def Let_def)
  then show ?thesis using roles s1 s2 unfolding cfg_validate_def by (simp del: if_split)
qed


lemma cfg_Load_Inr:
  assumes "cfg_Load E file = Inr c"
  shows "config_usable E c" "defaulted c"
proof -
  obtain c0 where "cfg_validate E (applyDefaults c0) = Inr c"
    using assms by (auto simp: cfg_Load_def split: sum.splits option.splits)
  from cfg_validate_Inr [OF this] applyDefaults_idem show "config_usable E c" "defaulted c" by simp_all
qed

subsection \<open>The manager\<close>

fun watch_run :: "cfgenv \<Rightarrow> watch_event list \<Rightarrow> manager \<Rightarrow> manager" where
  "watch_run E [] m = m"
| "watch_run E (ev # evs) m = watch_run E evs (fst (watch_step E ev m))"

lemma watch_step_cases:
  "fst (watch_step E ev m) = m \<or>
   (\<exists>file e. cfg_Load E file = Inl e \<and> watch_step E ev m = (m\<lparr>mg_reloadErr := Some e\<rparr>, OnErr e)) \<or>
   (\<exists>file c. cfg_Load E file = Inr c \<and> watch_step E ev m = (m\<lparr>mg_reloadErr := None, mg_current := c\<rparr>, OnReload c))"
  by (cases ev) (auto simp: mg_Reload_def mg_Get_def split: sum.splits)

lemma watch_run_inv:
  "P (mg_current m) \<Longrightarrow> (\<And>file c. cfg_Load E file = Inr c \<Longrightarrow> P c) \<Longrightarrow> P (mg_current (watch_run E evs m))"
proof (induction evs arbitrary: m)
  case (Cons ev evs)
  have "P (mg_current (fst (watch_step E ev m)))"
    using watch_step_cases [of E ev m] Cons.prems by (elim disjE exE conjE) simp_all
  then show ?case using Cons.IH Cons.prems(2) by simp
qed simp

subsection \<open>Sizes\<close>

text \<open>
  What the code relies on of the floating point reader: a whole number up to \<open>2^53\<close> is
  exact, and so is its product with a power of two that fits an \<open>int64\<close>.
\<close>

definition float_exact :: "'f floats \<Rightarrow> bool" where
  "float_exact F \<longleftrightarrow>
     (\<forall>q k. q \<le> 2 ^ 53 \<longrightarrow> k \<in> {0, 10, 20, 30, 40 :: nat} \<longrightarrow> q * 2 ^ k < 2 ^ 63 \<longrightarrow>
        (\<exists>v. fl_parse F (format_nat q) = Some v \<and> \<not> fl_neg F v \<and> fl_scale F v (2 ^ k) = of_nat (q * 2 ^ k)))"

lemma digit_upper: "is_digit c \<Longrightarrow> upper_char c = c \<and> \<not> is_space c \<and> c \<notin> set ''TGMKIB''"
proof -
  assume a: "is_digit c"
  have d: "48 \<le> (of_char c :: nat)" "(of_char c :: nat) \<le> 57" using a by (simp_all add: is_digit_def)
  have "c \<noteq> x" if "x \<in> set ''TGMKIB''" for x using d that by auto
  then show ?thesis using d by (auto simp: upper_char_def is_space_def)
qed

lemma dropWhile_none: "s \<noteq> [] \<Longrightarrow> \<not> P (hd s) \<Longrightarrow> dropWhile P s = s"
  by (cases s) auto

lemma trim_digits: "list_all is_digit s \<Longrightarrow> s \<noteq> [] \<Longrightarrow> trim_space s = s"
proof -
  assume a: "list_all is_digit s" "s \<noteq> []"
  then have "\<not> is_space (hd s)" "\<not> is_space (last s)" using digit_upper by (auto simp: list_all_iff)
  with a show ?thesis by (simp add: trim_space_def dropWhile_none hd_rev)
qed

lemma trim_sized: "list_all is_digit s \<Longrightarrow> s \<noteq> [] \<Longrightarrow> u \<noteq> [] \<Longrightarrow> \<not> is_space (last u) \<Longrightarrow> trim_space (s @ u) = s @ u"
proof -
  assume a: "list_all is_digit s" "s \<noteq> []" "u \<noteq> []" "\<not> is_space (last u)"
  then have "\<not> is_space (hd s)" using digit_upper by (auto simp: list_all_iff)
  with a show ?thesis by (simp add: trim_space_def dropWhile_none hd_rev hd_append)
qed

lemma cut_suffix_sized: "cut_suffix (s @ u) u = Some s"
  by (simp add: cut_suffix_Some)

lemma cut_suffix_other:
  assumes "list_all is_digit s" "s \<noteq> []" "u \<noteq> []" "set u \<subseteq> set ''TGMKIB''" "x \<noteq> []" "set x \<subseteq> set ''TGMKIB''"
    and "\<not> has_suffix u x"
  shows "cut_suffix (s @ u) x = None"
proof -
  have no: "u \<noteq> w @ x" for w using assms(7) by (auto simp: has_suffix_iff)
  have "s @ u \<noteq> w @ x" for w
  proof
    assume e: "s @ u = w @ x"
    then consider v where "s = w @ v" "v @ u = x" | v where "s @ v = w" "u = v @ x"
      by (auto simp: append_eq_append_conv2)
    then show False
    proof cases
      case 1
      have "v \<noteq> []" using 1 no by (metis append_Nil)
      then have "hd v \<in> set s" "hd v \<in> set x" using 1 by (auto simp: hd_append)
      then show False using assms(1,6) digit_upper by (auto simp: list_all_iff)
    next
      case 2
      with no show False by blast
    qed
  qed
  then show ?thesis by (auto simp: cut_suffix_def has_suffix_iff)
qed

lemma format_int_nat: "0 \<le> i \<Longrightarrow> format_int i = format_nat (nat i)"
  by (simp add: format_int_def)

text \<open>A printed size is digits and one of five suffixes, whose multiplier is exact.\<close>

lemma size_string_form:
  assumes "0 \<le> sint z"
  obtains q k u where "size_string z = format_nat q @ u" "sint z = int (q * 2 ^ k)"
    "(u, k) \<in> {(''TB'', 40), (''GB'', 30), (''MB'', 20), (''KB'', 10), (''B'', 0)}"
proof -
  have dv: "sint z = int (nat (sint z div 2 ^ k) * 2 ^ k)" if "sint z mod 2 ^ k = 0" for k
    using that assms by (simp add: pos_imp_zdiv_nonneg_iff) (metis div_mult_mod_eq add.right_neutral)
  have ps: "0 \<le> sint z div 2 ^ k" for k using assms by (simp add: pos_imp_zdiv_nonneg_iff)
  have fm: "format_int (sint z div 2 ^ k) = format_nat (nat (sint z div 2 ^ k))" for k
    by (rule format_int_nat) (rule ps)
  show thesis
  proof (cases "sint z mod 2 ^ 40 = 0 \<and> 2 ^ 40 \<le> sint z")
    case True
    then have "size_string z = format_nat (nat (sint z div 2 ^ 40)) @ ''TB''" using fm [of 40] by (simp add: size_string_def)
    then show thesis by (rule that [OF _ dv [of 40]]) (use True in simp_all)
  next
    case n1: False
    show thesis
    proof (cases "sint z mod 2 ^ 30 = 0 \<and> 2 ^ 30 \<le> sint z")
      case True
      then have "size_string z = format_nat (nat (sint z div 2 ^ 30)) @ ''GB''" using n1 fm [of 30] by (auto simp: size_string_def)
      then show thesis by (rule that [OF _ dv [of 30]]) (use True in simp_all)
    next
      case n2: False
      show thesis
      proof (cases "sint z mod 2 ^ 20 = 0 \<and> 2 ^ 20 \<le> sint z")
        case True
        then have "size_string z = format_nat (nat (sint z div 2 ^ 20)) @ ''MB''" using n1 n2 fm [of 20] by (auto simp: size_string_def)
        then show thesis by (rule that [OF _ dv [of 20]]) (use True in simp_all)
      next
        case n3: False
        show thesis
        proof (cases "sint z mod 2 ^ 10 = 0 \<and> 2 ^ 10 \<le> sint z")
          case True
          then have "size_string z = format_nat (nat (sint z div 2 ^ 10)) @ ''KB''" using n1 n2 n3 fm [of 10] by (auto simp: size_string_def)
          then show thesis by (rule that [OF _ dv [of 10]]) (use True in simp_all)
        next
          case n4: False
          then have "size_string z = format_nat (nat (sint z)) @ ''B''"
            using n1 n2 n3 format_int_nat [OF assms] by (auto simp: size_string_def)
          then show thesis by (rule that [where k = 0]) (use assms in simp_all)
        qed
      qed
    qed
  qed
qed


lemma size_units_sized:
  assumes s: "list_all is_digit s" "s \<noteq> []"
    and u: "(u, k) \<in> {(''TB'', 40), (''GB'', 30), (''MB'', 20), (''KB'', 10), (''B'', 0 :: nat)}"
    and f: "fl_parse F s = Some v" "\<not> fl_neg F v"
  shows "size_units F (s @ u) sizeUnits = Inr (fl_scale F v (2 ^ k))"
proof -
  have step: "size_units F (s @ y) ((x, m) # us) = size_units F (s @ y) us"
    if "\<not> has_suffix y x" "x \<noteq> []" "set x \<subseteq> set ''TGMKIB''" "y \<noteq> []" "set y \<subseteq> set ''TGMKIB''" for x y m us
    using cut_suffix_other [OF s that(4,5,2,3,1)] by simp
  have hit: "size_units F (s @ x) ((x, m) # us) = Inr (fl_scale F v m)" for x m us
    using trim_digits s f by (simp add: cut_suffix_sized)
  from u consider "u = ''TB'' \<and> k = 40" | "u = ''GB'' \<and> k = 30" | "u = ''MB'' \<and> k = 20" | "u = ''KB'' \<and> k = 10"
    | "u = ''B'' \<and> k = 0" by auto
  then show ?thesis
    by cases (simp_all add: sizeUnits_def step has_suffix_def hit del: size_units.simps)
qed

lemma upper_sized:
  "list_all is_digit s \<Longrightarrow> (u, k) \<in> {(''TB'', 40), (''GB'', 30), (''MB'', 20), (''KB'', 10), (''B'', 0 :: nat)} \<Longrightarrow>
   map upper_char (s @ u) = s @ u"
proof -
  assume a: "list_all is_digit s" "(u, k) \<in> {(''TB'', 40), (''GB'', 30), (''MB'', 20), (''KB'', 10), (''B'', 0 :: nat)}"
  have "map upper_char u = u" using a(2) by (auto simp: upper_char_def)
  moreover have "map upper_char s = s" using a(1) digit_upper by (auto simp: list_all_iff intro: map_idI)
  ultimately show ?thesis by simp
qed

lemma size_roundtrip:
  assumes F: "float_exact F" and z: "0 \<le> sint z" "sint z \<le> 2 ^ 53"
  shows "ParseSize F (size_string z) = Inr z"
proof -
  obtain q k u where p: "size_string z = format_nat q @ u" "sint z = int (q * 2 ^ k)"
    and u: "(u, k) \<in> {(''TB'', 40), (''GB'', 30), (''MB'', 20), (''KB'', 10), (''B'', 0)}"
    by (rule size_string_form [OF z(1)])
  have q: "q * 2 ^ k \<le> 2 ^ 53" using z(2) p(2) by (simp add: of_nat_le_iff [symmetric, where 'a = int] del: of_nat_le_iff)
  then have "q \<le> 2 ^ 53" by (rule order_trans [rotated]) simp
  moreover have "k \<in> {0, 10, 20, 30, 40}" using u by auto
  moreover have "q * 2 ^ k < 2 ^ 63" using q by (rule order_le_less_trans) simp
  ultimately obtain v where v: "fl_parse F (format_nat q) = Some v" "\<not> fl_neg F v" "fl_scale F v (2 ^ k) = of_nat (q * 2 ^ k)"
    using F unfolding float_exact_def by blast
  note d = format_nat_props [of q]
  then have dl: "list_all is_digit (format_nat q)" and ne: "format_nat q \<noteq> []" by auto
  have "u \<noteq> []" "\<not> is_space (last u)" using u by (auto simp: is_space_def)
  then have "map upper_char (trim_space (format_nat q @ u)) = format_nat q @ u"
    using trim_sized [OF dl ne] upper_sized [OF dl u] by simp
  moreover have "of_nat (q * 2 ^ k) = z"
  proof -
    have "z = of_int (sint z)" by simp
    also have "\<dots> = of_nat (q * 2 ^ k)" unfolding p(2) by (rule of_int_of_nat_eq)
    finally show ?thesis ..
  qed
  ultimately show ?thesis
    using ne size_units_sized [OF dl ne u v(1,2)] v(3) by (simp add: ParseSize_def p(1) Let_def)
qed

subsection \<open>Days\<close>

lemma wrap64_small: "- (2 ^ 63) \<le> i \<Longrightarrow> i < 2 ^ 63 \<Longrightarrow> wrap64 i = i"
  by (simp add: wrap64_def signed_take_bit_int_eq_self signed_of_int)

lemma parse_int_nat: "n < 2 ^ 63 \<Longrightarrow> parse_int (format_nat n) = Some (int n)"
proof -
  assume n: "n < 2 ^ 63"
  note d = format_nat_props [of n]
  have h: "is_digit (hd (format_nat n))" using d by (cases "format_nat n") auto
  then have "hd (format_nat n) \<noteq> CHR ''-''" "hd (format_nat n) \<noteq> CHR ''+''" by (auto simp: is_digit_def)
  then show ?thesis using d n by (simp add: parse_int_def Let_def)
qed

lemma Duration_days:
  assumes "n < 2 ^ 58"
  shows "Duration_Unmarshal pd (format_nat n @ ''d'') = Inr (wrap64 (int n * (24 * hour_ns)))"
proof -
  have "parse_int (format_nat n) = Some (int n)" by (rule parse_int_nat) (rule less_trans [OF assms], simp)
  moreover have "wrap64 (int n * 24) = int n * 24" using assms by (intro wrap64_small) auto
  ultimately show ?thesis by (simp add: Duration_Unmarshal_def cut_suffix_sized mult.assoc)
qed


subsection \<open>The properties\<close>

definition demo_site :: "string \<Rightarrow> string \<Rightarrow> string \<Rightarrow> sitecfg" where
  "demo_site name up back =
     \<lparr>si_name = name, si_uploads = up, si_backing = back,
      si_cache = \<lparr>ca_maxSize = 0, ca_minFree = 0, ca_keepBelow = 0, ca_neverEvict = [], ca_interval = 0\<rparr>,
      si_backend = \<lparr>be_endpoint = ''http://s3'', be_bucket = ''media'', be_region = [], be_accessKey = ''AK'',
                    be_secretKey = ''SK'', be_ack = []\<rparr>,
      si_mount = \<lparr>mo_allowOther = True, mo_populateUser = [], mo_debug = False\<rparr>\<rparr>"

definition demo_config :: config where
  "demo_config = cfg_Default\<lparr>cf_roles := [RoleStore, RoleAgent],
     cf_store := (cf_store cfg_Default)\<lparr>sc_buckets :=
       [\<lparr>bc_name = ''media'', bc_accessKey = ''AK'', bc_secretKey = ''SK'', bc_publicRead = True, bc_protected = [''woo/**'']\<rparr>,
        \<lparr>bc_name = ''Bad'', bc_accessKey = ''A'', bc_secretKey = ''S'', bc_publicRead = False, bc_protected = []\<rparr>]\<rparr>,
     cf_sites := [demo_site ''one'' ''/w/up'' ''/w/back'']\<rparr>"

definition demo_cfgenv :: cfgenv where
  "demo_cfgenv =
     \<lparr>ce_yaml = (\<lambda>data cfg. if data = ''ok'' then Some demo_config else None), ce_hostPort = (\<lambda>_. True),
      ce_url = (\<lambda>u. map_option (\<lambda>h. (''http'', h)) (cut_prefix u ''http://'')),
      ce_quote = (\<lambda>s. CHR 0x22 # s @ [CHR 0x22])\<rparr>"

lemma demo_load: "\<exists>c. cfg_Load demo_cfgenv (Inr ''ok'') = Inr c"
proof -
  have "\<not> isl (cfg_Load demo_cfgenv (Inr ''ok''))" by code_simp
  then show ?thesis by (cases "cfg_Load demo_cfgenv (Inr ''ok'')") auto
qed



text \<open>
  Loading is idempotent.  The defaults applied to a loaded configuration change nothing,
  and validating it again drops no bucket and no site and changes no field but the warnings:
  what the daemon runs is what a file holding it would load to.
\<close>

theorem loading_is_idempotent:
  assumes "cfg_Load E file = Inr c"
  shows "applyDefaults c = c \<and> (\<exists>w. cfg_validate E (applyDefaults c) = Inr (c\<lparr>cf_warnings := w\<rparr>))"
  using cfg_Load_Inr [OF assms] cfg_validate_again by (simp add: defaulted_def)

theorem loading_is_idempotent_witness:
  "\<exists>c. cfg_Load demo_cfgenv (Inr ''ok'') = Inr c \<and> applyDefaults c = c"
  using demo_load loading_is_idempotent by blast



definition demo_floats :: "nat floats" where
  "demo_floats = \<lparr>fl_parse = (\<lambda>s. if s \<noteq> [] \<and> list_all is_digit s then Some (digits_val s) else None), fl_neg = (\<lambda>_. False),
     fl_scale = (\<lambda>v m. of_nat v * m)\<rparr>"

lemma demo_float_exact: "float_exact demo_floats"
  using format_nat_props by (simp add: float_exact_def demo_floats_def)

text \<open>
  A size survives the configuration file.  Every size from zero up to \<open>2^53\<close> bytes is
  printed with a unit that divides it and read back as the same number of bytes.
\<close>

theorem size_survives_printing:
  assumes "float_exact F" "0 \<le> sint z" "sint z \<le> 2 ^ 53"
  shows "ParseSize F (size_string z) = Inr z"
  by (rule size_roundtrip [OF assms])

theorem size_survives_printing_witness:
  "ParseSize demo_floats (size_string (3 * 2 ^ 30)) = Inr (3 * 2 ^ 30) \<and> size_string (3 * 2 ^ 30) = ''3GB''"
proof -
  have "size_string (3 * 2 ^ 30) = ''3GB''" by code_simp
  then show ?thesis using size_survives_printing [OF demo_float_exact, of "3 * 2 ^ 30"] by simp
qed

text \<open>
  The bound of a retention window in days.  A whole number of days up to 106751 is read
  exactly, as that many days of nanoseconds; from 106752 on the product leaves the range of
  a \<open>Duration\<close>, and the value read is not that many days (106752 itself is read as a negative
  window, which makes every unreferenced blob collectable at once).
\<close>

theorem days_are_exact_up_to_106751:
  "(n \<le> 106751 \<longrightarrow> Duration_Unmarshal pd (format_nat n @ ''d'') = Inr (int n * (24 * hour_ns))) \<and>
   (106752 \<le> n \<and> n < 2 ^ 58 \<longrightarrow> (\<exists>v. Duration_Unmarshal pd (format_nat n @ ''d'') = Inr v \<and> v < int n * (24 * hour_ns))) \<and>
   (\<exists>v. Duration_Unmarshal pd (format_nat 106752 @ ''d'') = Inr v \<and> v < 0)"
proof -
  have small: "Duration_Unmarshal pd (format_nat n @ ''d'') = Inr (int n * (24 * hour_ns))" if n: "n \<le> 106751"
  proof -
    have "n < 2 ^ 58" by (rule le_less_trans [OF n]) simp
    moreover have "wrap64 (int n * (24 * hour_ns)) = int n * (24 * hour_ns)"
      using n by (intro wrap64_small) (simp_all add: hour_ns_def)
    ultimately show ?thesis by (simp add: Duration_days)
  qed
  have top: "wrap64 i < 2 ^ 63" for i using sint_less [of "word_of_int i :: i64"] by (simp add: wrap64_def)
  have big: "wrap64 (int n * (24 * hour_ns)) < int n * (24 * hour_ns)" if n: "106752 \<le> n"
  proof -
    have "(2 :: int) ^ 63 \<le> 106752 * (24 * hour_ns)" by (simp add: hour_ns_def)
    also have "\<dots> \<le> int n * (24 * hour_ns)" using n by (simp add: hour_ns_def)
    finally show ?thesis using top by (rule order.strict_trans2 [rotated])
  qed
  have "wrap64 (int 106752 * (24 * hour_ns)) < 0"
    by (simp add: wrap64_def hour_ns_def signed_of_int signed_take_bit_int_eq_self_iff)
  then show ?thesis using small big Duration_days by auto
qed

theorem days_are_exact_up_to_106751_witness:
  "Duration_Unmarshal (\<lambda>_. None) (format_nat 7 @ ''d'') = Inr (7 * (24 * hour_ns))"
  using days_are_exact_up_to_106751 [of 7 "\<lambda>_. None"] by simp

text \<open>
  The uniqueness is of the cleaned paths, not of what they contain: the mount point of one
  site may lie inside the mount point of another, and both are kept.
\<close>

lemma nested_sites_are_accepted:
  "length (fst (check_sites demo_cfgenv
     (map (site_defaults ''tana'') [demo_site ''one'' ''/w/up'' ''/w/back'', demo_site ''two'' ''/w/up/in'' ''/w/up/deep'']) [] [])) = 2"
  by code_simp

text \<open>A rule that is not a well-formed pattern covers nothing, whatever it was meant to protect.\<close>

lemma malformed_rule_covers_nothing: "\<not> MatchGlob ''woo[commerce'' key"
proof -
  have cr: "class_ranges r True ''commerce'' = None" for r
    by (simp add: class_ranges.simps get_esc_def decode_rune_def Let_def rune_error_def)
  have plain: "match_chunk f (c # cs) s = None" if "plain_char c" "\<And>f s. match_chunk f cs s = None" for f c cs s
    using that by (simp add: plain_char_def Let_def)
  have br: "match_chunk f ''[commerce'' s = None" for f s by (subst match_chunk.simps) (simp add: Let_def cr)
  have b1: "match_chunk f ''o[commerce'' s = None" for f s by (rule plain [OF _ br]) (simp add: plain_char_def)
  have b2: "match_chunk f ''oo[commerce'' s = None" for f s by (rule plain [OF _ b1]) (simp add: plain_char_def)
  have bad: "match_chunk f ''woo[commerce'' s = None" for f s by (rule plain [OF _ b2]) (simp add: plain_char_def)
  have sc: "scan_chunk ''woo[commerce'' = (False, ''woo[commerce'', [])" by (simp add: scan_chunk_def)
  have "path_match ''woo[commerce'' key = None" by (subst path_match.simps) (simp only: sc bad prod.case option.case, simp)
  then show ?thesis by (simp add: MatchGlob_def cut_suffix_def has_suffix_def)
qed

end
