(* ===== verification/Agent.thy ===== *)
theory Agent
  imports Index ConfigLoad "HOL-Library.Product_Lexorder"
begin

text \<open>
  internal/agent: one site kept in step with its bucket.  The state is the index, the
  files of the machine by path, the objects of the bucket by key, and the in-memory
  queue with the set of keys already in it.  An operation takes an \<open>agentsys\<close>: the
  clock, what the disk and the index commit allow for each key, and the outcome of each
  request to the store.  WordPress writes to the files behind the agent's back, which is
  why the index and the disk can differ between operations.
\<close>

unbundle bit_operations_syntax

record lfile =
  lf_data :: string
  lf_mtime :: gotime
  lf_mode :: u32

definition lf_size :: "lfile \<Rightarrow> i64" where
  "lf_size f = of_nat (length (lf_data f))"

record agent =
  ag_site :: sitecfg
  ag_db :: db
  ag_disk :: "lfile bucket"
  ag_remote :: "string bucket"
  ag_queue :: "string list"
  ag_pending :: "string list"

text \<open>
  How a request ends: done, 404, another status, or no answer, where the request may
  have taken effect all the same.
\<close>

datatype net = NetOK | NetNotFound | NetAPI nat | NetLost bool

datatype cerr = CNotExist | CNotFound string | CApi nat | COther

datatype fetch_fault = FF_none | FF_mkdir | FF_open | FF_copy | FF_close | FF_chtimes | FF_rename

record agentsys =
  as_now :: gotime
  as_info :: "string \<Rightarrow> bool"
  as_commit :: "string \<Rightarrow> bool"
  as_unlink :: "string \<Rightarrow> bool"
  as_send :: "string \<Rightarrow> nat \<Rightarrow> net"
  as_fetch :: "string \<Rightarrow> fetch_fault"
  as_stop :: "nat \<Rightarrow> bool"

definition workers :: nat where "workers = 4"
definition queueDepth :: nat where "queueDepth = 4096"
definition maxAttempts :: nat where "maxAttempts = 5"
definition baseBackoff :: duration where "baseBackoff = 500000000"
definition tempSuffix :: string where "tempSuffix = ''.tana-recall''"

definition agent_ns :: "agent \<Rightarrow> string" where
  "agent_ns a = ix_namespace ScopeAgent (si_name (ag_site a))"

subsection \<open>Keys and paths\<close>

text \<open>\<open>filepath.Rel\<close>: what is below the base, or nothing when the path is not below it.\<close>

definition keyOf :: "string \<Rightarrow> string \<Rightarrow> string option" where
  "keyOf backing p =
     (let b = path_clean backing; q = path_clean p;
          rel = (if b = q then None else if b = ''/'' then cut_prefix q ''/'' else cut_prefix q (b @ ''/''))
      in case rel of None \<Rightarrow> None | Some r \<Rightarrow> if has_prefix r ''..'' then None else Some r)"

definition pathOf :: "string \<Rightarrow> string \<Rightarrow> string" where
  "pathOf backing key = path_clean (path_join [backing, key])"

definition agent_path :: "agent \<Rightarrow> string \<Rightarrow> string" where
  "agent_path a key = pathOf (si_backing (ag_site a)) key"

subsection \<open>The client's calls, as the agent sees them\<close>

definition Retryable :: "nat \<Rightarrow> bool" where
  "Retryable status \<longleftrightarrow> 500 \<le> status \<or> status = 408 \<or> status = 429"

definition cli_PutFile :: "net \<Rightarrow> string \<Rightarrow> string \<Rightarrow> agent \<Rightarrow> agent \<times> cerr option" where
  "cli_PutFile out key path a =
     (case bk_get (ag_disk a) path of
        None \<Rightarrow> (a, Some CNotExist)
      | Some f \<Rightarrow>
          (case out of
             NetOK \<Rightarrow> (a\<lparr>ag_remote := bk_put key (lf_data f) (ag_remote a)\<rparr>, None)
           | NetNotFound \<Rightarrow> (a, Some (CNotFound key))
           | NetAPI status \<Rightarrow> (a, Some (CApi status))
           | NetLost took \<Rightarrow>
               (if took then a\<lparr>ag_remote := bk_put key (lf_data f) (ag_remote a)\<rparr> else a, Some COther)))"

definition cli_Delete :: "net \<Rightarrow> string \<Rightarrow> agent \<Rightarrow> agent \<times> cerr option" where
  "cli_Delete out key a =
     (case out of
        NetOK \<Rightarrow> (a\<lparr>ag_remote := bk_del key (ag_remote a)\<rparr>, None)
      | NetNotFound \<Rightarrow> (a, None)
      | NetAPI status \<Rightarrow> (a, Some (CApi status))
      | NetLost took \<Rightarrow> (if took then a\<lparr>ag_remote := bk_del key (ag_remote a)\<rparr> else a, Some COther))"

definition cli_Get :: "net \<Rightarrow> string \<Rightarrow> agent \<Rightarrow> cerr + string" where
  "cli_Get out key a =
     (case out of
        NetOK \<Rightarrow> (case bk_get (ag_remote a) key of None \<Rightarrow> Inl (CNotFound key) | Some d \<Rightarrow> Inr d)
      | NetNotFound \<Rightarrow> Inl (CNotFound key)
      | NetAPI status \<Rightarrow> Inl (CApi status)
      | NetLost _ \<Rightarrow> Inl COther)"

subsection \<open>The queue\<close>

definition Enqueue :: "string \<Rightarrow> agent \<Rightarrow> agent" where
  "Enqueue key a =
     (if key \<in> set (ag_pending a) then a
      else if length (ag_queue a) < queueDepth
      then a\<lparr>ag_queue := ag_queue a @ [key], ag_pending := key # ag_pending a\<rparr>
      else a)"

datatype upload_result = UpDone nat | UpGone | UpRefused | UpStopped | UpPending

text \<open>
  The retry loop of \<open>upload\<close>: \<open>left\<close> attempts remain, the next is number \<open>i\<close>, and the third
  component lists the delays it waited for.
\<close>

fun upload_attempts ::
    "agentsys \<Rightarrow> string \<Rightarrow> nat \<Rightarrow> nat \<Rightarrow> duration \<Rightarrow> agent \<Rightarrow> agent \<times> upload_result \<times> duration list" where
  "upload_attempts as key 0 i backoff a = (a, UpPending, [])"
| "upload_attempts as key (Suc left) i backoff a =
     (case cli_PutFile (as_send as key i) key (agent_path a key) a of
        (a1, None) \<Rightarrow> (a1, UpDone i, [])
      | (a1, Some err) \<Rightarrow>
          if err = CNotExist then (a1, UpGone, [])
          else if (case err of CApi status \<Rightarrow> \<not> Retryable status | _ \<Rightarrow> False) then (a1, UpRefused, [])
          else if as_stop as i then (a1, UpStopped, [])
          else (case upload_attempts as key left (Suc i) (backoff * 2) a1 of (a2, r, ws) \<Rightarrow> (a2, r, backoff # ws)))"

definition agent_upload :: "env \<Rightarrow> agentsys \<Rightarrow> string \<Rightarrow> agent \<Rightarrow> agent" where
  "agent_upload E as key a =
     (case db_get (agent_ns a) key (ag_db a) of
        Inr (Some e) \<Rightarrow>
          if st_safe (e_state e) then a
          else
            (case upload_attempts as key maxAttempts 1 baseBackoff a of
               (a1, UpDone _, _) \<Rightarrow>
                 a1\<lparr>ag_db := fst (db_setState E (as_commit as key) (agent_ns a1) key Synced (ag_db a1))\<rparr>
             | (a1, _, _) \<Rightarrow> a1)
      | _ \<Rightarrow> a)"

text \<open>One turn of a worker: the head of the queue is uploaded and leaves the pending set.\<close>

definition worker_turn :: "env \<Rightarrow> agentsys \<Rightarrow> agent \<Rightarrow> agent" where
  "worker_turn E as a =
     (case ag_queue a of
        [] \<Rightarrow> a
      | key # rest \<Rightarrow>
          let a1 = agent_upload E as key (a\<lparr>ag_queue := rest\<rparr>)
          in a1\<lparr>ag_pending := removeAll key (ag_pending a1)\<rparr>)"

text \<open>One tick of the sweep; a walk that fails is logged and enqueues nothing.\<close>

definition sweep_tick :: "agent \<Rightarrow> agent" where
  "sweep_tick a =
     (case ix_walk (agent_ns a) (\<lambda>e acc. (if \<not> st_safe (e_state e) then acc @ [e_key e] else acc, None))
             (db_file (ag_db a)) [] of
        (dirty, None) \<Rightarrow> fold Enqueue dirty a
      | (_, Some _) \<Rightarrow> a)"

subsection \<open>Reconciling the backing store with the index\<close>

record scanStats =
  ss_files :: nat
  ss_new :: nat
  ss_changed :: nat
  ss_removed :: nat

definition fresh_entry :: "agentsys \<Rightarrow> string \<Rightarrow> lfile \<Rightarrow> entry" where
  "fresh_entry as key f =
     \<lparr>e_key = key, e_size = lf_size f, e_mtime = lf_mtime f, e_mode = lf_mode f AND 511, e_hash = [], e_etag = [],
      e_state = Dirty, e_atime = as_now as, e_pinned = False\<rparr>"

definition index_file :: "env \<Rightarrow> agentsys \<Rightarrow> string \<Rightarrow> lfile \<Rightarrow> agent \<Rightarrow> agent \<times> gerr option" where
  "index_file E as key f a =
     (case db_put E (as_commit as key) (as_now as) (agent_ns a) (fresh_entry as key f) (ag_db a) of
        (d, Inl e) \<Rightarrow> (a\<lparr>ag_db := d\<rparr>, Some e)
      | (d, Inr _) \<Rightarrow> (Enqueue key (a\<lparr>ag_db := d\<rparr>), None))"

type_synonym scan_state = "agent \<times> scanStats \<times> string list"

definition scan_file :: "env \<Rightarrow> agentsys \<Rightarrow> string \<times> lfile \<Rightarrow> scan_state \<Rightarrow> scan_state \<times> gerr option" where
  "scan_file E as pf s =
     (case s of (a, st, seen) \<Rightarrow>
        (case keyOf (si_backing (ag_site a)) (fst pf) of
           None \<Rightarrow> (s, None)
         | Some key \<Rightarrow>
             if \<not> as_info as key then (s, Some ErrIO)
             else
               let f = snd pf; st1 = st\<lparr>ss_files := ss_files st + 1\<rparr>; seen1 = key # seen in
               (case db_get (agent_ns a) key (ag_db a) of
                  Inl e \<Rightarrow> ((a, st1, seen1), Some e)
                | Inr (Some prev) \<Rightarrow>
                    if e_size prev \<noteq> lf_size f \<or> e_mtime prev \<noteq> lf_mtime f then
                      (case index_file E as key f a of
                         (a1, err) \<Rightarrow> ((a1, st1\<lparr>ss_changed := ss_changed st1 + 1\<rparr>, seen1), err))
                    else ((a, st1, seen1), None)
                | Inr None \<Rightarrow>
                    (case index_file E as key f a of
                       (a1, err) \<Rightarrow> ((a1, st1\<lparr>ss_new := ss_new st1 + 1\<rparr>, seen1), err)))))"

definition agent_remove :: "env \<Rightarrow> agentsys \<Rightarrow> string \<Rightarrow> agent \<Rightarrow> agent \<times> bool" where
  "agent_remove E as key a =
     (case cli_Delete (as_send as key 0) key a of
        (a1, Some _) \<Rightarrow> (a1, False)
      | (a1, None) \<Rightarrow>
          (case db_delete E (as_commit as key) (agent_ns a1) key (ag_db a1) of
             (d, Inl _) \<Rightarrow> (a1\<lparr>ag_db := d\<rparr>, False)
           | (d, Inr _) \<Rightarrow> (a1\<lparr>ag_db := d\<rparr>, True)))"

fun remove_gone :: "env \<Rightarrow> agentsys \<Rightarrow> string list \<Rightarrow> agent \<times> nat \<Rightarrow> agent \<times> nat" where
  "remove_gone E as [] s = s"
| "remove_gone E as (key # keys) s =
     (case agent_remove E as key (fst s) of
        (a, ok) \<Rightarrow> remove_gone E as keys (a, if ok then Suc (snd s) else snd s))"

text \<open>The files the walk delivers are those below the backing directory.\<close>

definition backing_files :: "agent \<Rightarrow> (string \<times> lfile) list" where
  "backing_files a =
     (let root = path_clean (si_backing (ag_site a))
      in filter (\<lambda>p. has_prefix (fst p) (if root = ''/'' then root else root @ ''/'')) (ag_disk a))"

definition agent_Scan :: "env \<Rightarrow> agentsys \<Rightarrow> agent \<Rightarrow> agent \<times> scanStats \<times> gerr option" where
  "agent_Scan E as a =
     (case fold_cb (scan_file E as) (backing_files a) (a, \<lparr>ss_files = 0, ss_new = 0, ss_changed = 0, ss_removed = 0\<rparr>, []) of
        ((a1, st, _), Some _) \<Rightarrow> (a1, st, Some (Errf ''agent: scan''))
      | ((a1, st, seen), None) \<Rightarrow>
          (case ix_walk (agent_ns a1)
                  (\<lambda>e gone. (if e_key e \<notin> set seen \<and> st_local (e_state e) then gone @ [e_key e] else gone, None))
                  (db_file (ag_db a1)) [] of
             (_, Some e) \<Rightarrow> (a1, st, Some e)
           | (gone, None) \<Rightarrow>
               (case remove_gone E as gone (a1, 0) of
                  (a2, n) \<Rightarrow> (a2, st\<lparr>ss_removed := n\<rparr>, None))))"

text \<open>An event of the watcher, with what \<open>os.Stat\<close> says of its name.\<close>

datatype fstat = SErr | SDir | SFile lfile

record fsevent =
  ev_name :: string
  ev_removed :: bool
  ev_changed :: bool
  ev_stat :: fstat

definition handleEvent :: "env \<Rightarrow> agentsys \<Rightarrow> fsevent \<Rightarrow> agent \<Rightarrow> agent" where
  "handleEvent E as ev a =
     (case keyOf (si_backing (ag_site a)) (ev_name ev) of
        None \<Rightarrow> a
      | Some key \<Rightarrow>
          if ev_removed ev then Enqueue key a
          else
            (case ev_stat ev of
               SErr \<Rightarrow> a
             | SDir \<Rightarrow> fst (agent_Scan E as a)
             | SFile f \<Rightarrow> if \<not> ev_changed ev then a else fst (index_file E as key f a)))"

subsection \<open>Recall and eviction\<close>

definition has_file :: "agent \<Rightarrow> string \<Rightarrow> bool" where
  "has_file a key \<longleftrightarrow> bk_get (ag_disk a) (agent_path a key) \<noteq> None"

definition recall_fetch :: "env \<Rightarrow> agentsys \<Rightarrow> string \<Rightarrow> entry \<Rightarrow> agent \<Rightarrow> agent \<times> gerr option" where
  "recall_fetch E as key e a =
     (case cli_Get (as_send as key 0) key a of
        Inl _ \<Rightarrow> (a, Some (Errf ''agent: recall''))
      | Inr data \<Rightarrow>
          let dst = agent_path a key; tmp = dst @ tempSuffix; flt = as_fetch as key;
              cleaned = a\<lparr>ag_disk := bk_del tmp (ag_disk a)\<rparr> in
          if flt = FF_mkdir \<or> flt = FF_open then (a, Some ErrIO)
          else if flt = FF_copy then (cleaned, Some (Errf ''agent: recall''))
          else if flt \<noteq> FF_none then (cleaned, Some ErrIO)
          else
            let a1 = a\<lparr>ag_disk := bk_put dst \<lparr>lf_data = data, lf_mtime = e_mtime e, lf_mode = e_mode e AND 511\<rparr>
                        (bk_del tmp (ag_disk a))\<rparr> in
            (case db_setState E (as_commit as key) (agent_ns a1) key Synced (ag_db a1) of
               (d, Inl err) \<Rightarrow> (a1\<lparr>ag_db := d\<rparr>, Some err)
             | (d, Inr _) \<Rightarrow> (a1\<lparr>ag_db := db_touch (agent_ns a1) key (as_now as) d\<rparr>, None)))"

text \<open>
  \<open>joined\<close> is the state a recall of the same key that was already running left, when there
  was one: this call then waits for it and only looks for the file.
\<close>

definition agent_Recall :: "env \<Rightarrow> agentsys \<Rightarrow> agent option \<Rightarrow> string \<Rightarrow> agent \<Rightarrow> agent \<times> gerr option" where
  "agent_Recall E as joined key a =
     (case db_get (agent_ns a) key (ag_db a) of
        Inl e \<Rightarrow> (a, Some e)
      | Inr None \<Rightarrow> (a, Some ErrNotExist)
      | Inr (Some e) \<Rightarrow>
          if st_local (e_state e) \<and> has_file a key then (a, None)
          else
            (case joined of
               Some a1 \<Rightarrow> (a1, if has_file a1 key then None else Some (Errf ''agent: recall failed in another request''))
             | None \<Rightarrow> recall_fetch E as key e a))"

definition agent_Evict :: "env \<Rightarrow> agentsys \<Rightarrow> string \<Rightarrow> agent \<Rightarrow> agent \<times> gerr option" where
  "agent_Evict E as key a =
     (case db_get (agent_ns a) key (ag_db a) of
        Inl e \<Rightarrow> (a, Some e)
      | Inr None \<Rightarrow> (a, Some ErrNotExist)
      | Inr (Some e) \<Rightarrow>
          if \<not> st_safe (e_state e) then (a, Some (Errf ''agent: refusing to evict: it is not on the store yet''))
          else if e_state e = Evicted then (a, None)
          else if has_file a key \<and> \<not> as_unlink as key then (a, Some ErrIO)
          else
            let a1 = a\<lparr>ag_disk := bk_del (agent_path a key) (ag_disk a)\<rparr> in
            (case db_setState E (as_commit as key) (agent_ns a1) key Evicted (ag_db a1) of
               (d, Inl err) \<Rightarrow> (a1\<lparr>ag_db := d\<rparr>, Some err)
             | (d, Inr _) \<Rightarrow> (a1\<lparr>ag_db := d\<rparr>, None)))"

definition agent_Pin :: "env \<Rightarrow> agentsys \<Rightarrow> string \<Rightarrow> bool \<Rightarrow> agent \<Rightarrow> agent \<times> gerr option" where
  "agent_Pin E as key pinned a =
     (case db_update (as_commit as key)
             (unit_tx (\<lambda>x. res_bind (tx_get (agent_ns a) key x) (\<lambda>r.
                case r of
                  None \<Rightarrow> Inl ErrNotExist
                | Some e \<Rightarrow> tx_put E (as_now as) (agent_ns a) (e\<lparr>e_pinned := pinned\<rparr>) x))) (ag_db a) of
        (d, Inl err) \<Rightarrow> (a\<lparr>ag_db := d\<rparr>, Some err)
      | (d, Inr _) \<Rightarrow> (a\<lparr>ag_db := d\<rparr>, None))"

record evictStats =
  es_candidates :: nat
  es_evicted :: nat
  es_bytesFreed :: i64
  es_skipped :: nat

record candidate =
  cd_key :: string
  cd_size :: i64
  cd_atime :: gotime

text \<open>\<open>free\<close> is what \<open>freeSpace\<close> reports, or nothing when it fails.\<close>

definition overBy :: "cachecfg \<Rightarrow> i64 option \<Rightarrow> i64 \<Rightarrow> i64" where
  "overBy cache free localBytes =
     (let need = (if 0 < sint (ca_maxSize cache) \<and> sint (ca_maxSize cache) < sint localBytes
                  then localBytes - ca_maxSize cache else 0)
      in if 0 < sint (ca_minFree cache) then
           (case free of
              None \<Rightarrow> need
            | Some fr \<Rightarrow>
                if sint fr < sint (ca_minFree cache) then
                  (let short = ca_minFree cache - fr in if sint need < sint short then short else need)
                else need)
         else need)"

definition agent_protected :: "agent \<Rightarrow> string \<Rightarrow> bool" where
  "agent_protected a key = MatchAny (ca_neverEvict (si_cache (ag_site a))) key"

definition evict_candidate :: "agent \<Rightarrow> entry \<Rightarrow> candidate list \<times> nat \<Rightarrow> (candidate list \<times> nat) \<times> gerr option" where
  "evict_candidate a e s =
     (if \<not> st_local (e_state e) \<or> \<not> st_safe (e_state e) then (s, None)
      else if sint (e_size e) < sint (ca_keepBelow (si_cache (ag_site a))) then (s, None)
      else if e_pinned e \<or> agent_protected a (e_key e) then ((fst s, Suc (snd s)), None)
      else ((fst s @ [\<lparr>cd_key = e_key e, cd_size = e_size e, cd_atime = e_atime e\<rparr>], snd s), None))"

definition evict_order :: "candidate list \<Rightarrow> candidate list" where
  "evict_order pool = sort_key (\<lambda>c. (cd_atime c, - sint (cd_size c))) pool"

fun evict_loop :: "env \<Rightarrow> agentsys \<Rightarrow> i64 \<Rightarrow> candidate list \<Rightarrow> agent \<times> evictStats \<Rightarrow> agent \<times> evictStats" where
  "evict_loop E as target [] s = s"
| "evict_loop E as target (c # cs) s =
     (if sint target \<le> sint (es_bytesFreed (snd s)) then s
      else
        (case agent_Evict E as (cd_key c) (fst s) of
           (a, Some _) \<Rightarrow> evict_loop E as target cs (a, snd s)
         | (a, None) \<Rightarrow>
             evict_loop E as target cs
               (a, (snd s)\<lparr>es_evicted := es_evicted (snd s) + 1, es_bytesFreed := es_bytesFreed (snd s) + cd_size c\<rparr>)))"

definition EvictToFit :: "env \<Rightarrow> agentsys \<Rightarrow> i64 option \<Rightarrow> agent \<Rightarrow> agent \<times> evictStats \<times> gerr option" where
  "EvictToFit E as free a =
     (let cache = si_cache (ag_site a);
          st0 = \<lparr>es_candidates = 0, es_evicted = 0, es_bytesFreed = 0, es_skipped = 0\<rparr> in
      if sint (ca_maxSize cache) \<le> 0 \<and> sint (ca_minFree cache) \<le> 0 then (a, st0, None)
      else
        (case ix_statsOf (agent_ns a) (db_file (ag_db a)) of
           Inl e \<Rightarrow> (a, st0, Some e)
         | Inr stats \<Rightarrow>
             let target = overBy cache free (s_localBytes stats) in
             if sint target \<le> 0 then (a, st0, None)
             else
               (case ix_walk (agent_ns a) (evict_candidate a) (db_file (ag_db a)) ([], 0) of
                  ((_, skipped), Some e) \<Rightarrow> (a, st0\<lparr>es_skipped := skipped\<rparr>, Some e)
                | ((pool, skipped), None) \<Rightarrow>
                    (case evict_loop E as target (evict_order pool)
                            (a, st0\<lparr>es_skipped := skipped, es_candidates := length pool\<rparr>) of
                       (a1, st) \<Rightarrow> (a1, st, None)))))"

subsection \<open>The read side\<close>

definition agent_Entry :: "agent \<Rightarrow> string \<Rightarrow> gerr + entry option" where
  "agent_Entry a key = db_get (agent_ns a) key (ag_db a)"

definition agent_Touch :: "agentsys \<Rightarrow> string \<Rightarrow> agent \<Rightarrow> agent" where
  "agent_Touch as key a = a\<lparr>ag_db := db_touch (agent_ns a) key (as_now as) (ag_db a)\<rparr>"

text \<open>\<open>os.ModeDir | 0o750\<close>.\<close>

definition dir_mode :: u32 where "dir_mode = 0x800001E8"

definition child_entry :: "string \<Rightarrow> string \<Rightarrow> entry" where
  "child_entry prefix name =
     \<lparr>e_key = path_clean (prefix @ name), e_size = 0, e_mtime = 0, e_mode = dir_mode, e_hash = [], e_etag = [],
      e_state = Dirty, e_atime = 0, e_pinned = False\<rparr>"

definition children_cb :: "string \<Rightarrow> entry \<Rightarrow> (string \<times> entry) list \<Rightarrow> (string \<times> entry) list \<times> gerr option" where
  "children_cb prefix e out =
     (if st_local (e_state e) then (out, None)
      else
        let rest = trim_prefix (e_key e) prefix in
        (case cut_at (CHR ''/'') rest of
           (name, Some _) \<Rightarrow> (if bk_get out name \<noteq> None then out else bk_put name (child_entry prefix name) out, None)
         | (_, None) \<Rightarrow> (bk_put rest e out, None)))"

definition EvictedChildren :: "string \<Rightarrow> agent \<Rightarrow> (string \<times> entry) list \<times> gerr option" where
  "EvictedChildren dir a =
     (let prefix = (if dir \<noteq> [] \<and> \<not> has_suffix dir ''/'' then dir @ ''/'' else dir)
      in ix_walkPrefix (agent_ns a) prefix (children_cb prefix) (db_file (ag_db a)) [])"

text \<open>
  A ranged read of \<open>n\<close> bytes.  The body is what the connection delivers and the error other
  than an early end it breaks off with; a body that ends early is not an error.
\<close>

definition ReadRemoteAt ::
    "(string \<Rightarrow> i64 \<Rightarrow> i64 \<Rightarrow> cerr + (string \<times> cerr option)) \<Rightarrow> string \<Rightarrow> nat \<Rightarrow> i64 \<Rightarrow> string \<times> cerr option" where
  "ReadRemoteAt getRange key n off =
     (if n = 0 then ([], None)
      else
        (case getRange key off (of_nat n) of
           Inl e \<Rightarrow> ([], Some e)
         | Inr (body, broke) \<Rightarrow> if n \<le> length body then (take n body, None) else (body, broke)))"

definition OpenRemote :: "agentsys \<Rightarrow> string \<Rightarrow> agent \<Rightarrow> cerr + string" where
  "OpenRemote as key a = cli_Get (as_send as key 0) key a"

subsection \<open>The eviction loop\<close>

definition eviction_interval :: "duration \<Rightarrow> duration" where
  "eviction_interval interval = (if interval \<le> 0 then 60 * 1000000000 else interval)"

text \<open>One pass for every tick until the loop is stopped; an error is only logged.\<close>

fun StartEviction :: "env \<Rightarrow> (agentsys \<times> i64 option) list \<Rightarrow> agent \<Rightarrow> agent" where
  "StartEviction E [] a = a"
| "StartEviction E (t # ts) a = StartEviction E ts (fst (EvictToFit E (fst t) (snd t) a))"

text \<open>\<open>Drain\<close> waits for this.\<close>

definition drained :: "agent \<Rightarrow> bool" where
  "drained a \<longleftrightarrow> ag_pending a = [] \<and> ag_queue a = []"

end
