(* ===== verification/PathLaws.thy ===== *)
theory PathLaws
  imports Agent
begin

text \<open>
  Paths by their components: splitting and joining are inverse on components without a
  separator, \<open>path.Clean\<close> of an absolute path is the join of good components, and the
  keys of the agent are exactly the component lists below its backing directory, so that
  a key and its path determine each other.
\<close>

definition good_part :: "string \<Rightarrow> bool" where
  "good_part w \<longleftrightarrow> w \<noteq> [] \<and> w \<noteq> ''.'' \<and> w \<noteq> ''..'' \<and> CHR ''/'' \<notin> set w"

lemma split_slash_nonempty [simp]: "split_slash s \<noteq> []"
  by (induction s) (auto split: list.splits)

lemma split_slash_parts: "w \<in> set (split_slash s) \<Longrightarrow> CHR ''/'' \<notin> set w"
  by (induction s arbitrary: w) (auto split: list.splits if_splits)

lemma split_slash_append: "split_slash (x @ CHR ''/'' # y) = split_slash x @ split_slash y"
proof (induction x)
  case (Cons c x)
  then show ?case by (cases "split_slash x") auto
qed simp

lemma split_slash_plain: "CHR ''/'' \<notin> set w \<Longrightarrow> split_slash w = [w]"
  by (induction w) auto

lemma path_join_Cons: "ks \<noteq> [] \<Longrightarrow> path_join (w # ks) = w @ CHR ''/'' # path_join ks"
  by (cases ks) auto

lemma join_split: "path_join (split_slash s) = s"
proof (induction s)
  case (Cons c s)
  obtain w ws where "split_slash s = w # ws" by (cases "split_slash s") auto
  with Cons show ?case by (cases ws) (auto simp: path_join_Cons)
qed simp

lemma split_join: "ks \<noteq> [] \<Longrightarrow> \<forall>w \<in> set ks. CHR ''/'' \<notin> set w \<Longrightarrow> split_slash (path_join ks) = ks"
proof (induction ks rule: path_join.induct)
  case (3 p q ps)
  then show ?case by (simp add: split_slash_append split_slash_plain)
qed (auto simp: split_slash_plain)

lemma clean_parts_append: "clean_parts r (xs @ ys) acc = clean_parts r ys (clean_parts r xs acc)"
  by (induction r xs acc rule: clean_parts.induct) auto

lemma clean_parts_good: "list_all good_part acc \<Longrightarrow> \<forall>w \<in> set ws. CHR ''/'' \<notin> set w \<Longrightarrow> list_all good_part (clean_parts True ws acc)"
proof (induction True ws acc rule: clean_parts.induct)
  case (2 w ws acc)
  have "list_all good_part (butlast acc)" using 2(2) by (auto simp: list_all_iff dest: in_set_butlastD)
  then show ?case using 2 by (simp add: good_part_def)
qed simp

lemma clean_parts_id: "list_all good_part ws \<Longrightarrow> clean_parts r ws acc = acc @ ws"
  by (induction ws arbitrary: acc) (auto simp: good_part_def)

definition path_parts :: "string \<Rightarrow> string list" where
  "path_parts p = clean_parts True (split_slash (tl p)) []"

lemma path_parts_good: "list_all good_part (path_parts p)"
  using split_slash_parts by (auto simp: path_parts_def intro!: clean_parts_good)

lemma isAbs_iff: "isAbs p \<longleftrightarrow> p \<noteq> [] \<and> hd p = CHR ''/''"
  by (cases p) (auto simp: isAbs_def)

lemma path_clean_abs: "isAbs p \<Longrightarrow> path_clean p = CHR ''/'' # path_join (path_parts p)"
  by (simp add: isAbs_iff path_clean_def path_parts_def)

lemma isAbs_clean: "isAbs p \<Longrightarrow> isAbs (path_clean p)"
  by (simp add: path_clean_abs isAbs_iff)

lemma good_no_slash: "list_all good_part ks \<Longrightarrow> \<forall>w \<in> set ks. CHR ''/'' \<notin> set w"
  by (auto simp: list_all_iff good_part_def)

lemma clean_split_join: "list_all good_part ks \<Longrightarrow> clean_parts r (split_slash (path_join ks)) acc = acc @ ks"
proof (cases "ks = []")
  case False
  assume g: "list_all good_part ks"
  then show ?thesis using split_join [OF False good_no_slash [OF g]] clean_parts_id [OF g] by simp
qed simp

lemma path_join_inj:
  assumes "list_all good_part a" "list_all good_part b" "path_join a = path_join b"
  shows "a = b"
proof -
  have "a = clean_parts True (split_slash (path_join a)) []" using clean_split_join [OF assms(1), of True "[]"] by simp
  also have "\<dots> = b" unfolding assms(3) using clean_split_join [OF assms(2), of True "[]"] by simp
  finally show ?thesis .
qed

lemma path_parts_clean: "isAbs p \<Longrightarrow> path_parts (path_clean p) = path_parts p"
proof -
  assume a: "isAbs p"
  have "path_parts (CHR ''/'' # path_join (path_parts p)) = path_parts p"
    unfolding path_parts_def [of "CHR ''/'' # path_join (path_parts p)"]
    by (simp add: clean_split_join [OF path_parts_good])
  then show ?thesis by (simp add: path_clean_abs [OF a])
qed

lemma path_clean_idem:
  assumes "isAbs p"
  shows "path_clean (path_clean p) = path_clean p"
  unfolding path_clean_abs [OF isAbs_clean [OF assms]] path_parts_clean [OF assms]
  by (simp add: path_clean_abs [OF assms])

lemma path_parts_join: "isAbs b \<Longrightarrow> path_parts (path_join [b, k]) = clean_parts True (split_slash k) (path_parts b)"
proof -
  assume "isAbs b"
  then have "tl (path_join [b, k]) = tl b @ CHR ''/'' # k" by (cases b) (auto simp: isAbs_iff)
  then show ?thesis by (simp add: path_parts_def split_slash_append clean_parts_append)
qed

lemma isAbs_join: "isAbs b \<Longrightarrow> isAbs (path_join [b, k])"
  by (simp add: isAbs_iff)

subsection \<open>Keys\<close>

definition key_ok :: "string \<Rightarrow> bool" where
  "key_ok k \<longleftrightarrow> (\<exists>ks. ks \<noteq> [] \<and> list_all good_part ks \<and> k = path_join ks) \<and> \<not> has_prefix k ''..''"

lemma path_join_append:
  "a \<noteq> [] \<Longrightarrow> b \<noteq> [] \<Longrightarrow> path_join (a @ b) = path_join a @ CHR ''/'' # path_join b"
proof (induction a rule: path_join.induct)
  case (2 p)
  then show ?case by (simp add: path_join_Cons)
qed auto

text \<open>The components of a path below the backing directory are the directory's and the key's.\<close>

lemma keyOf_Some:
  assumes b: "isAbs backing" and p: "isAbs p"
  shows "keyOf backing p = Some k \<longleftrightarrow>
    (\<exists>ks. ks \<noteq> [] \<and> path_parts p = path_parts backing @ ks \<and> k = path_join ks) \<and> \<not> has_prefix k ''..''"
proof -
  let ?pb = "path_parts backing" and ?pp = "path_parts p"
  note gb = path_parts_good [of backing] and gp = path_parts_good [of p]
  define rel where "rel = (if path_clean backing = path_clean p then None
      else if path_clean backing = ''/'' then cut_prefix (path_clean p) ''/'' else cut_prefix (path_clean p) (path_clean backing @ ''/''))"
  have k: "keyOf backing p = Some k \<longleftrightarrow> rel = Some k \<and> \<not> has_prefix k ''..''"
    by (auto simp: keyOf_def rel_def Let_def split: option.splits)
  have same: "path_clean backing = path_clean p \<longleftrightarrow> ?pb = ?pp"
    using path_join_inj [OF gb gp] by (auto simp: path_clean_abs [OF b] path_clean_abs [OF p])
  have jn: "path_join ks = [] \<longleftrightarrow> ks = []" if "list_all good_part ks" for ks
    using path_join_inj [OF that, of "[]"] by auto
  have "rel = Some k \<longleftrightarrow> (\<exists>ks. ks \<noteq> [] \<and> ?pp = ?pb @ ks \<and> k = path_join ks)"
  proof (cases "?pb = []")
    case True
    then have "path_clean backing = ''/''" by (simp add: path_clean_abs [OF b])
    then have "rel = (if ?pp = [] then None else Some (path_join ?pp))"
      using same True by (auto simp: rel_def path_clean_abs [OF p] cut_prefix_def)
    then show ?thesis using True by auto
  next
    case False
    then have nb: "path_clean backing \<noteq> ''/''" using jn [OF gb] by (simp add: path_clean_abs [OF b])
    have "cut_prefix (path_clean p) (path_clean backing @ ''/'') = Some k \<longleftrightarrow> path_join ?pp = path_join ?pb @ CHR ''/'' # k"
      by (simp add: cut_prefix_Some path_clean_abs [OF p] path_clean_abs [OF b])
    also have "\<dots> \<longleftrightarrow> (\<exists>ks. ks \<noteq> [] \<and> ?pp = ?pb @ ks \<and> k = path_join ks)"
    proof
      assume e: "path_join ?pp = path_join ?pb @ CHR ''/'' # k"
      then have ne: "?pp \<noteq> []" by auto
      have "?pp = ?pb @ split_slash k"
        using arg_cong [OF e, of split_slash] split_join [OF ne good_no_slash [OF gp]] split_join [OF False good_no_slash [OF gb]]
        by (simp add: split_slash_append)
      then show "\<exists>ks. ks \<noteq> [] \<and> ?pp = ?pb @ ks \<and> k = path_join ks"
        using join_split [of k] by (intro exI [of _ "split_slash k"]) simp
    next
      assume "\<exists>ks. ks \<noteq> [] \<and> ?pp = ?pb @ ks \<and> k = path_join ks"
      then show "path_join ?pp = path_join ?pb @ CHR ''/'' # k" using path_join_append [OF False] by auto
    qed
    finally have c: "cut_prefix (path_clean p) (path_clean backing @ ''/'') = Some k \<longleftrightarrow>
        (\<exists>ks. ks \<noteq> [] \<and> ?pp = ?pb @ ks \<and> k = path_join ks)" .
    show ?thesis
    proof (cases "?pb = ?pp")
      case True
      then show ?thesis by (auto simp: rel_def same)
    next
      case False
      then show ?thesis using c nb same by (auto simp: rel_def)
    qed
  qed
  with k show ?thesis by blast
qed

lemma pathOf_parts: "isAbs backing \<Longrightarrow> list_all good_part ks \<Longrightarrow> path_parts (pathOf backing (path_join ks)) = path_parts backing @ ks"
  unfolding pathOf_def
  by (simp only: path_parts_clean [OF isAbs_join] path_parts_join clean_split_join)

lemma isAbs_pathOf: "isAbs backing \<Longrightarrow> isAbs (pathOf backing k)"
  unfolding pathOf_def by (intro isAbs_clean isAbs_join)

lemma keyOf_pathOf:
  assumes b: "isAbs backing" and k: "key_ok k"
  shows "keyOf backing (pathOf backing k) = Some k"
proof -
  from k obtain ks where ks: "ks \<noteq> []" "list_all good_part ks" "k = path_join ks" "\<not> has_prefix k ''..''"
    by (auto simp: key_ok_def)
  have "path_parts (pathOf backing k) = path_parts backing @ ks" using pathOf_parts [OF b ks(2)] ks(3) by simp
  then show ?thesis unfolding keyOf_Some [OF b isAbs_pathOf [OF b]] using ks(1,3,4) by blast
qed

lemma keyOf_key_ok:
  assumes b: "isAbs backing" and p: "isAbs p" and k: "keyOf backing p = Some k"
  shows "key_ok k" "pathOf backing k = path_clean p"
proof -
  obtain ks where ks: "ks \<noteq> []" "path_parts p = path_parts backing @ ks" "k = path_join ks" "\<not> has_prefix k ''..''"
    using k [unfolded keyOf_Some [OF b p]] by blast
  have g: "list_all good_part ks" using path_parts_good [of p] ks(2) by simp
  then show "key_ok k" using ks by (auto simp: key_ok_def)
  have "path_clean (pathOf backing k) = path_clean p"
    using pathOf_parts [OF b g] ks by (simp add: path_clean_abs [OF isAbs_pathOf [OF b]] path_clean_abs [OF p])
  moreover have "path_clean (pathOf backing k) = pathOf backing k"
    unfolding pathOf_def by (rule path_clean_idem [OF isAbs_join [OF b]])
  ultimately show "pathOf backing k = path_clean p" by simp
qed

lemma pathOf_inject:
  assumes "isAbs backing" "key_ok a" "key_ok b" "pathOf backing a = pathOf backing b"
  shows "a = b"
proof -
  have "Some a = keyOf backing (pathOf backing a)" by (rule keyOf_pathOf [OF assms(1,2), symmetric])
  also have "\<dots> = Some b" unfolding assms(4) by (rule keyOf_pathOf [OF assms(1,3)])
  finally show ?thesis by simp
qed

end
