(* ===== verification/AgentLaws.thy ===== *)
theory AgentLaws
  imports PathLaws IndexLaws
begin

text \<open>
  The agent never destroys the only copy.  The invariant says that whatever the index
  calls safe is on the store, and that a local file which still is the one the index
  describes has the bytes the store has.  Every operation of the agent keeps it, for any
  outcome of the requests, the disk and the index commits except the two the text names,
  and so does every file operation of WordPress that leaves a trace in size or time.
\<close>

subsection \<open>The index operations, by what they do to the entries\<close>

lemma db_setState_view:
  assumes "db_inv d" "db_setState E ok ns k s d = (d', r)"
  shows "db_inv d'" "db_view d' = (if isl r then db_view d
      else (db_view d)((ns, k) := map_option (e_state_update (\<lambda>_. s)) (db_view d (ns, k))))"
    "isl r \<Longrightarrow> d' = d"
proof -
  show "db_inv d'"
    using db_update_inv [OF assms(1) assms(2) [unfolded db_setState_def]] tx_setState_Inr(1) by blast
  show "isl r \<Longrightarrow> d' = d" using assms(2) db_update_Inl unfolding db_setState_def by (cases r) auto
  then show "db_view d' = (if isl r then db_view d
      else (db_view d)((ns, k) := map_option (e_state_update (\<lambda>_. s)) (db_view d (ns, k))))"
    using assms tx_setState_Inr(3) [of "db_file d" E ns k s]
    by (cases r) (auto simp: db_setState_def db_update_Inr db_view_def db_inv_def)
qed

lemma db_put_view:
  assumes "db_inv d" "db_put E ok now ns e d = (d', r)"
  shows "db_inv d'" "db_view d' = (if isl r then db_view d else (db_view d)((ns, e_key e) \<mapsto> stamped now e))"
proof -
  show "db_inv d'"
    using db_update_inv [OF assms(1) assms(2) [unfolded db_put_def]] tx_put_Inr(1) by (auto simp: unit_tx_def res_bind_Inr)
  show "db_view d' = (if isl r then db_view d else (db_view d)((ns, e_key e) \<mapsto> stamped now e))"
    using assms tx_put_Inr(2) [of "db_file d" E now ns e] db_update_Inl [of ok "unit_tx (tx_put E now ns e)" d d']
    by (cases r) (auto simp: db_put_def db_update_Inr db_view_def db_inv_def)
qed

lemma db_delete_view:
  assumes "db_inv d" "db_delete E ok ns k d = (d', r)"
  shows "db_inv d'" "db_view d' = (if isl r then db_view d else (db_view d)((ns, k) := None))"
    "ok \<Longrightarrow> name_ok E ns \<Longrightarrow> \<not> isl r"
proof -
  define d0 where "d0 = (case bk_get (db_pending d) ns of None \<Rightarrow> d | Some m \<Rightarrow> d\<lparr>db_pending := bk_put ns (bk_del k m) (db_pending d)\<rparr>)"
  let ?body = "unit_tx (\<lambda>x. res_bind (tx_delete E ns k x) (\<lambda>(_, x'). Inr x'))"
  have f: "db_file d0 = db_file d" by (simp add: d0_def split: option.split)
  have inv: "db_inv d0" using assms(1) f by (simp add: db_inv_def)
  have up: "db_update ok ?body d0 = (d', r)" using assms(2) by (simp add: db_delete_def d0_def)
  show "db_inv d'"
  proof (rule db_update_inv [OF inv up])
    fix u :: unit and x
    assume "idx_inv (db_file d0)" "?body (db_file d0) = Inr (u, x)"
    then show "idx_inv x" using tx_delete_Inr(1) [of "db_file d0" E ns k] by (auto simp: unit_tx_def res_bind_Inr)
  qed
  show "db_view d' = (if isl r then db_view d else (db_view d)((ns, k) := None))"
    using up db_update_Inl [of ok ?body d0 d'] tx_delete_Inr(3) [of "db_file d" E ns k] assms(1) f
    by (cases r) (auto simp: db_update_Inr db_view_def db_inv_def res_bind_Inr split: prod.splits)
  assume "ok" "name_ok E ns"
  moreover obtain old x' where "tx_delete E ns k (db_file d) = Inr (old, x')"
    using tx_delete_succeeds [of "db_file d" E ns k] assms(1) \<open>name_ok E ns\<close> by (auto simp: db_inv_def)
  ultimately show "\<not> isl r" using up f by (auto simp: db_update_def unit_tx_def)
qed

lemma db_get_safe:
  assumes "db_inv d" "db_get ns k d = Inr r"
  shows "(r = None \<longleftrightarrow> db_view d (ns, k) = None) \<and>
    (\<forall>e. r = Some e \<longrightarrow> (\<exists>t. e = (the (db_view d (ns, k)))\<lparr>e_atime := t\<rparr>))"
proof -
  obtain r' where "db_get ns k d = Inr r'" "atime_only (db_view d (ns, k)) r'" using db_get_view [OF assms(1)] by blast
  then show ?thesis using assms(2) by (auto simp: atime_only_def option_rel_Some1 option_rel_Some2 rel_option_iff split: option.splits)
qed

lemma db_touch_view [simp]: "db_view (db_touch ns k t d) = db_view d" "db_inv (db_touch ns k t d) = db_inv d"
  by (simp_all add: db_touch_def db_view_def db_inv_def Let_def)

subsection \<open>The invariant\<close>

definition ag_view :: "agent \<Rightarrow> string \<Rightarrow> entry option" where
  "ag_view a k = db_view (ag_db a) (agent_ns a, k)"

definition matches :: "entry \<Rightarrow> lfile \<Rightarrow> bool" where
  "matches e f \<longleftrightarrow> lf_size f = e_size e \<and> lf_mtime f = e_mtime e"

definition held_fast :: "agent \<Rightarrow> string \<Rightarrow> entry \<Rightarrow> bool" where
  "held_fast a k e \<longleftrightarrow>
     (\<exists>d. bk_get (ag_remote a) k = Some d \<and>
        (\<forall>f. bk_get (ag_disk a) (agent_path a k) = Some f \<and> matches e f \<longrightarrow> lf_data f = d))"

definition agent_inv :: "env \<Rightarrow> agent \<Rightarrow> bool" where
  "agent_inv E a \<longleftrightarrow> isAbs (si_backing (ag_site a)) \<and> name_ok E (agent_ns a) \<and> db_inv (ag_db a) \<and>
     (\<forall>k e. ag_view a k = Some e \<longrightarrow> key_ok k) \<and>
     (\<forall>k e. ag_view a k = Some e \<longrightarrow> st_safe (e_state e) \<longrightarrow> held_fast a k e)"

lemma agent_invI:
  assumes "agent_inv E a" "ag_site a' = ag_site a" "db_inv (ag_db a')"
    and "\<And>k e. ag_view a' k = Some e \<Longrightarrow> key_ok k"
    and "\<And>k e. ag_view a' k = Some e \<Longrightarrow> st_safe (e_state e) \<Longrightarrow> held_fast a' k e"
  shows "agent_inv E a'"
  using assms by (simp add: agent_inv_def agent_ns_def)

lemma agent_same_site:
  "ag_site a' = ag_site a \<Longrightarrow> agent_ns a' = agent_ns a" "ag_site a' = ag_site a \<Longrightarrow> agent_path a' k = agent_path a k"
  by (simp_all add: agent_ns_def agent_path_def)

lemma agent_updates [simp]:
  "agent_ns (a\<lparr>ag_db := d\<rparr>) = agent_ns a" "agent_ns (a\<lparr>ag_disk := f\<rparr>) = agent_ns a"
  "agent_ns (a\<lparr>ag_remote := r\<rparr>) = agent_ns a" "agent_ns (a\<lparr>ag_queue := q\<rparr>) = agent_ns a"
  "agent_ns (a\<lparr>ag_pending := p\<rparr>) = agent_ns a"
  "agent_path (a\<lparr>ag_db := d\<rparr>) = agent_path a" "agent_path (a\<lparr>ag_disk := f\<rparr>) = agent_path a"
  "agent_path (a\<lparr>ag_remote := r\<rparr>) = agent_path a" "agent_path (a\<lparr>ag_queue := q\<rparr>) = agent_path a"
  "agent_path (a\<lparr>ag_pending := p\<rparr>) = agent_path a"
  by (simp_all add: agent_ns_def agent_path_def fun_eq_iff)

lemma ag_view_updates [simp]:
  "ag_view (a\<lparr>ag_disk := f\<rparr>) = ag_view a" "ag_view (a\<lparr>ag_remote := r\<rparr>) = ag_view a"
  "ag_view (a\<lparr>ag_queue := q\<rparr>) = ag_view a" "ag_view (a\<lparr>ag_pending := p\<rparr>) = ag_view a"
  by (simp_all add: ag_view_def fun_eq_iff)

lemma held_updates [simp]:
  "held_fast (a\<lparr>ag_db := d\<rparr>) = held_fast a" "held_fast (a\<lparr>ag_queue := q\<rparr>) = held_fast a" "held_fast (a\<lparr>ag_pending := p\<rparr>) = held_fast a"
  by (simp_all add: held_fast_def fun_eq_iff)

lemma Enqueue_fields [simp]:
  "ag_site (Enqueue k a) = ag_site a" "ag_db (Enqueue k a) = ag_db a" "ag_disk (Enqueue k a) = ag_disk a"
  "ag_remote (Enqueue k a) = ag_remote a"
  by (simp_all add: Enqueue_def)

text \<open>Two agents with the same index, files and objects satisfy the invariant together.\<close>

lemma agent_inv_queue:
  assumes "ag_site a' = ag_site a" "ag_db a' = ag_db a" "ag_disk a' = ag_disk a" "ag_remote a' = ag_remote a"
  shows "agent_inv E a' = agent_inv E a"
  using assms by (simp add: agent_inv_def agent_ns_def agent_path_def ag_view_def held_fast_def)

lemma Enqueue_inv [simp]: "agent_inv E (Enqueue k a) = agent_inv E a"
  by (rule agent_inv_queue) simp_all

text \<open>A write to the index of one entry.\<close>

lemma agent_inv_index:
  assumes inv: "agent_inv E a" and d: "db_inv d" and v: "db_view d = (db_view (ag_db a))((agent_ns a, k) := r)"
    and k: "r \<noteq> None \<Longrightarrow> key_ok k" and h: "\<And>e. r = Some e \<Longrightarrow> st_safe (e_state e) \<Longrightarrow> held_fast a k e"
  shows "agent_inv E (a\<lparr>ag_db := d\<rparr>)"
proof (rule agent_invI [OF inv])
  fix k' e assume "ag_view (a\<lparr>ag_db := d\<rparr>) k' = Some e"
  then have c: "k' = k \<and> r = Some e \<or> k' \<noteq> k \<and> ag_view a k' = Some e"
    by (auto simp: ag_view_def v split: if_splits)
  show "key_ok k'" using c k inv by (auto simp: agent_inv_def)
  show "held_fast (a\<lparr>ag_db := d\<rparr>) k' e" if "st_safe (e_state e)" using c h inv that by (auto simp: agent_inv_def)
qed (simp_all add: d)

subsection \<open>Uploading\<close>

text \<open>
  The attempts change nothing but the object under the key, which then has bytes of the
  file; when they end well the object is the file.
\<close>

lemma upload_attempts_effect:
  "upload_attempts as key left i backoff a = (a', r, ws) \<Longrightarrow>
   ag_site a' = ag_site a \<and> ag_db a' = ag_db a \<and> ag_disk a' = ag_disk a \<and>
   (\<forall>k. k \<noteq> key \<longrightarrow> bk_get (ag_remote a') k = bk_get (ag_remote a) k) \<and>
   (\<forall>n. r = UpDone n \<longrightarrow> (\<exists>f. bk_get (ag_disk a) (agent_path a key) = Some f \<and> bk_get (ag_remote a') key = Some (lf_data f)))"
proof (induction as key left i backoff a arbitrary: a' r ws rule: upload_attempts.induct)
  case (2 as key left i backoff a)
  obtain a1 err where p: "cli_PutFile (as_send as key i) key (agent_path a key) a = (a1, err)" by force
  have a1: "ag_site a1 = ag_site a \<and> ag_db a1 = ag_db a \<and> ag_disk a1 = ag_disk a \<and>
    (\<forall>k. k \<noteq> key \<longrightarrow> bk_get (ag_remote a1) k = bk_get (ag_remote a) k) \<and>
    (err = None \<longrightarrow> (\<exists>f. bk_get (ag_disk a) (agent_path a key) = Some f \<and> bk_get (ag_remote a1) key = Some (lf_data f)))"
    using p by (auto simp: cli_PutFile_def split: option.splits net.splits if_splits)
  show ?case
  proof (cases err)
    case None
    with "2.prems" p a1 show ?thesis by auto
  next
    case (Some e)
    show ?thesis
    proof (cases "e = CNotExist \<or> (case e of CApi status \<Rightarrow> \<not> Retryable status | _ \<Rightarrow> False) \<or> as_stop as i")
      case True
      then show ?thesis using "2.prems" p a1 Some by (auto split: if_splits)
    next
      case False
      then obtain ws' where r: "upload_attempts as key left (Suc i) (backoff * 2) a1 = (a', r, ws')"
        using "2.prems" p Some by (auto split: prod.splits)
      from False have c: "e \<noteq> CNotExist" "\<not> (case e of CApi status \<Rightarrow> \<not> Retryable status | _ \<Rightarrow> False)" "\<not> as_stop as i" by auto
      note ih = "2.IH" [OF p [symmetric] Some c r]
      have "ag_site a1 = ag_site a" using a1 by blast
      then have path: "agent_path a1 key = agent_path a key" by (rule agent_same_site(2))
      have rem: "\<forall>k. k \<noteq> key \<longrightarrow> bk_get (ag_remote a') k = bk_get (ag_remote a) k" using ih a1 by simp
      show ?thesis using ih a1 rem path by (simp only: simp_thms) blast
    qed
  qed
qed auto

lemma upload_inv:
  assumes inv: "agent_inv E a"
  shows "agent_inv E (agent_upload E as key a)"
proof (cases "db_get (agent_ns a) key (ag_db a)")
  case (Inr r)
  show ?thesis
  proof (cases r)
    case (Some e)
    have dinv: "db_inv (ag_db a)" using inv by (simp add: agent_inv_def)
    obtain e0 t where e0: "ag_view a key = Some e0" "e = e0\<lparr>e_atime := t\<rparr>"
      using db_get_safe [OF dinv Inr] Some by (cases "ag_view a key") (auto simp: ag_view_def)
    show ?thesis
    proof (cases "st_safe (e_state e)")
      case True
      with Inr Some inv show ?thesis by (simp add: agent_upload_def)
    next
      case False
      obtain a1 res ws where u: "upload_attempts as key maxAttempts 1 baseBackoff a = (a1, res, ws)" by (metis prod.exhaust)
      note eff = upload_attempts_effect [OF u]
      have same: "agent_ns a1 = agent_ns a" "agent_path a1 k = agent_path a k" for k using eff agent_same_site [of a1 a] by simp_all
      have inv1: "agent_inv E a1"
      proof (rule agent_invI [OF inv])
        fix k e' assume "ag_view a1 k = Some e'"
        then have v: "ag_view a k = Some e'" using eff same by (simp add: ag_view_def)
        then show "key_ok k" using inv by (auto simp: agent_inv_def)
        assume s: "st_safe (e_state e')"
        then have "k \<noteq> key" using v e0 False by auto
        moreover have "held_fast a k e'" using inv v s by (auto simp: agent_inv_def)
        ultimately show "held_fast a1 k e'" using eff same by (simp add: held_fast_def)
      qed (use eff dinv in simp_all)
      show ?thesis
      proof (cases "\<exists>n. res = UpDone n")
        case True
        then obtain n f where n: "res = UpDone n" and f: "bk_get (ag_disk a1) (agent_path a1 key) = Some f"
          "bk_get (ag_remote a1) key = Some (lf_data f)" using eff same by auto
        obtain d x where d: "db_setState E (as_commit as key) (agent_ns a1) key Synced (ag_db a1) = (d, x)" by force
        have d1: "db_inv (ag_db a1)" using inv1 by (simp add: agent_inv_def)
        note dv = db_setState_view [OF d1 d]
        have up: "agent_upload E as key a = a1\<lparr>ag_db := d\<rparr>" using Inr Some False u n d by (simp add: agent_upload_def)
        show ?thesis
        proof (cases "isl x")
          case True
          then show ?thesis using dv(3) up inv1 by simp
        next
          case F: False
          have "key_ok key" using inv e0 by (auto simp: agent_inv_def)
          then show ?thesis unfolding up using dv F f
            by (intro agent_inv_index [OF inv1 dv(1), of key]) (auto simp: held_fast_def)
        qed
      next
        case False
        then have "agent_upload E as key a = a1" using Inr Some \<open>\<not> st_safe (e_state e)\<close> u
          by (cases res) (auto simp: agent_upload_def)
        then show ?thesis using inv1 by simp
      qed
    qed
  qed (use Inr inv in \<open>simp add: agent_upload_def\<close>)
qed (use inv in \<open>simp add: agent_upload_def\<close>)

lemma worker_turn_inv:
  assumes "agent_inv E a"
  shows "agent_inv E (worker_turn E as a)"
proof (cases "ag_queue a")
  case (Cons key rest)
  have "agent_inv E (a\<lparr>ag_queue := rest\<rparr>)" using assms agent_inv_queue [of "a\<lparr>ag_queue := rest\<rparr>" a] by simp
  from upload_inv [OF this, of as key]
  have u: "agent_inv E (agent_upload E as key (a\<lparr>ag_queue := rest\<rparr>))" .
  have "agent_inv E (b\<lparr>ag_pending := p\<rparr>) = agent_inv E b" for b p by (rule agent_inv_queue) simp_all
  with u Cons show ?thesis by (simp add: worker_turn_def Let_def)
qed (use assms in \<open>simp add: worker_turn_def\<close>)

lemma sweep_inv: "agent_inv E a \<Longrightarrow> agent_inv E (sweep_tick a)"
proof -
  have "agent_inv E b \<Longrightarrow> agent_inv E (fold Enqueue ks b)" for ks b
    by (induction ks arbitrary: b) auto
  then show "agent_inv E a \<Longrightarrow> agent_inv E (sweep_tick a)" by (auto simp: sweep_tick_def split: prod.splits option.splits)
qed


subsection \<open>Reconciling\<close>

text \<open>
  What is asked of the system for a reconciliation: an index write it makes commits, and a
  deletion that reached the store is answered.
\<close>

definition answered :: "agentsys \<Rightarrow> bool" where
  "answered as \<longleftrightarrow> (\<forall>k. as_commit as k \<and> as_send as k 0 \<noteq> NetLost True)"

lemma index_file_effect:
  assumes inv: "agent_inv E a" and k: "key_ok key" and res: "index_file E as key f a = (a', e)"
  shows "agent_inv E a'" "ag_site a' = ag_site a"
proof -
  obtain d r where d: "db_put E (as_commit as key) (as_now as) (agent_ns a) (fresh_entry as key f) (ag_db a) = (d, r)" by force
  have dinv: "db_inv (ag_db a)" using inv by (simp add: agent_inv_def)
  note dv = db_put_view [OF dinv d]
  have "agent_inv E (a\<lparr>ag_db := d\<rparr>)"
  proof (cases "isl r")
    case True
    then have "db_view d = db_view (ag_db a)" using dv(2) by simp
    then have v: "db_view d = (db_view (ag_db a))((agent_ns a, key) := ag_view a key)" by (auto simp: ag_view_def fun_eq_iff)
    show ?thesis by (rule agent_inv_index [OF inv dv(1) v]) (use inv in \<open>auto simp: agent_inv_def\<close>)
  next
    case False
    then have v: "db_view d = (db_view (ag_db a))((agent_ns a, key) := Some (stamped (as_now as) (fresh_entry as key f)))"
      using dv(2) by (simp add: fresh_entry_def)
    show ?thesis by (rule agent_inv_index [OF inv dv(1) v k]) (auto simp: fresh_entry_def st_safe_def)
  qed
  then show "agent_inv E a'" using res d by (cases r) (auto simp: index_file_def)
  show "ag_site a' = ag_site a" using res d by (cases r) (auto simp: index_file_def)
qed

lemma fold_cb_inv: "P st \<Longrightarrow> (\<And>x s. x \<in> set xs \<Longrightarrow> P s \<Longrightarrow> P (fst (fn x s))) \<Longrightarrow> P (fst (fold_cb fn xs st))"
proof (induction xs arbitrary: st)
  case (Cons x xs)
  obtain s' e where s: "fn x st = (s', e)" by force
  have "P s'" using Cons.prems(2) [of x st] Cons.prems(1) s by simp
  then show ?case using Cons.IH [of s'] Cons.prems(2) s by (cases e) simp_all
qed simp

lemma scan_file_inv:
  assumes inv: "agent_inv E a" and p: "isAbs (fst pf)" and res: "scan_file E as pf (a, st, seen) = ((a', st', seen'), e)"
  shows "agent_inv E a'" "ag_site a' = ag_site a"
proof -
  have b: "isAbs (si_backing (ag_site a))" using inv by (simp add: agent_inv_def)
  have "a' = a \<or> (\<exists>key e'. keyOf (si_backing (ag_site a)) (fst pf) = Some key \<and> index_file E as key (snd pf) a = (a', e'))"
    using res by (auto simp: scan_file_def Let_def split: option.splits if_splits sum.splits prod.splits)
  then show "agent_inv E a'" "ag_site a' = ag_site a"
    using inv index_file_effect [OF inv] keyOf_key_ok(1) [OF b p] by blast+
qed

lemma agent_remove_inv:
  assumes inv: "agent_inv E a" and ans: "answered as" and res: "agent_remove E as key a = (a', ok)"
  shows "agent_inv E a'" "ag_site a' = ag_site a"
proof -
  obtain a1 e1 where c: "cli_Delete (as_send as key 0) key a = (a1, e1)" by force
  have a1: "ag_site a1 = ag_site a" "ag_db a1 = ag_db a" "ag_disk a1 = ag_disk a"
    "\<And>k. k \<noteq> key \<Longrightarrow> bk_get (ag_remote a1) k = bk_get (ag_remote a) k" "e1 \<noteq> None \<Longrightarrow> a1 = a"
    using c ans by (auto simp: cli_Delete_def answered_def split: net.splits if_splits)
  have "agent_inv E a' \<and> ag_site a' = ag_site a"
  proof (cases e1)
    case (Some x)
    then show ?thesis using res c a1(5) inv by (simp add: agent_remove_def)
  next
    case None
    have same: "agent_ns a1 = agent_ns a" "agent_path a1 k = agent_path a k" for k using agent_same_site [of a1 a] a1(1) by simp_all
    obtain d r where d: "db_delete E (as_commit as key) (agent_ns a1) key (ag_db a1) = (d, r)" by force
    have dinv: "db_inv (ag_db a1)" and n: "name_ok E (agent_ns a1)" using inv a1 same by (simp_all add: agent_inv_def)
    note dv = db_delete_view [OF dinv d]
    have r: "\<not> isl r" using dv(3) ans n by (simp add: answered_def)
    have a': "a' = a1\<lparr>ag_db := d\<rparr>" using res c None d r by (cases r) (auto simp: agent_remove_def)
    have "agent_inv E a'"
    proof (rule agent_invI [OF inv])
      fix k e assume v: "ag_view a' k = Some e"
      then have k: "k \<noteq> key" "ag_view a k = Some e"
        using dv(2) r a1(2) same by (auto simp: a' ag_view_def split: if_splits)
      then show "key_ok k" using inv by (auto simp: agent_inv_def)
      assume "st_safe (e_state e)"
      then have "held_fast a k e" using inv k by (auto simp: agent_inv_def)
      then show "held_fast a' k e" using a1 same k by (simp add: held_fast_def a')
    qed (use a1 dv(1) a' in simp_all)
    with a1 a' show ?thesis by simp
  qed
  then show "agent_inv E a'" "ag_site a' = ag_site a" by simp_all
qed

lemma remove_gone_inv:
  "agent_inv E (fst s) \<Longrightarrow> answered as \<Longrightarrow> agent_inv E (fst (remove_gone E as keys s))"
proof (induction keys arbitrary: s)
  case (Cons key keys)
  obtain a ok where r: "agent_remove E as key (fst s) = (a, ok)" by force
  from agent_remove_inv(1) [OF Cons.prems r] Cons.IH Cons.prems(2) r show ?case by simp
qed simp

text \<open>The walk of the backing directory delivers absolute paths.\<close>

lemma backing_abs: "isAbs (si_backing (ag_site a)) \<Longrightarrow> p \<in> set (backing_files a) \<Longrightarrow> isAbs (fst p)"
  using isAbs_clean [of "si_backing (ag_site a)"]
  by (auto simp: backing_files_def Let_def has_prefix_iff isAbs_iff split: if_splits)

lemma Scan_inv:
  assumes inv: "agent_inv E a" and ans: "answered as"
  shows "agent_inv E (fst (agent_Scan E as a))"
proof -
  let ?st = "\<lparr>ss_files = 0, ss_new = 0, ss_changed = 0, ss_removed = 0\<rparr>"
  obtain a1 st seen err where f: "fold_cb (scan_file E as) (backing_files a) (a, ?st, []) = ((a1, st, seen), err)"
    by (metis prod.exhaust)
  have ab: "isAbs (si_backing (ag_site a))" using inv by (simp add: agent_inv_def)
  have "agent_inv E (fst (fst (fold_cb (scan_file E as) (backing_files a) (a, ?st, []))))"
  proof (rule fold_cb_inv [where P = "\<lambda>s. agent_inv E (fst s)"])
    fix x and s :: scan_state assume x: "x \<in> set (backing_files a)" and s: "agent_inv E (fst s)"
    obtain b st seen where b: "s = (b, st, seen)" by (cases s)
    obtain b' st' seen' e where r: "scan_file E as x (b, st, seen) = ((b', st', seen'), e)" by (metis prod.exhaust)
    have "agent_inv E b" using s b by simp
    from scan_file_inv(1) [OF this backing_abs [OF ab x] r] show "agent_inv E (fst (fst (scan_file E as x s)))" by (simp add: b r)
  qed (use inv in simp)
  then have i1: "agent_inv E a1" by (simp add: f)
  then have "agent_inv E (fst (remove_gone E as gone (a1, 0)))" for gone by (intro remove_gone_inv) (simp_all add: ans)
  then show ?thesis using i1 f by (auto simp: agent_Scan_def split: option.splits prod.splits) (metis fst_conv)
qed

lemma handleEvent_inv:
  assumes inv: "agent_inv E a" and ans: "answered as" and ab: "isAbs (ev_name ev)"
  shows "agent_inv E (handleEvent E as ev a)"
proof (cases "keyOf (si_backing (ag_site a)) (ev_name ev)")
  case (Some key)
  have b: "isAbs (si_backing (ag_site a))" using inv by (simp add: agent_inv_def)
  have k: "key_ok key" by (rule keyOf_key_ok(1) [OF b ab Some])
  have "agent_inv E (fst (index_file E as key f a))" for f
    using index_file_effect(1) [OF inv k] by (metis prod.collapse)
  then show ?thesis using Some inv Scan_inv [OF inv ans]
    by (auto simp: handleEvent_def split: fstat.splits)
qed (use inv in \<open>simp add: handleEvent_def\<close>)


subsection \<open>Recall and eviction\<close>

lemma setState_inv:
  assumes inv: "agent_inv E a" and h: "\<And>e. ag_view a key = Some e \<Longrightarrow> held_fast a key e"
    and d: "db_setState E ok (agent_ns a) key s (ag_db a) = (d, r)"
  shows "agent_inv E (a\<lparr>ag_db := d\<rparr>)"
proof -
  have dinv: "db_inv (ag_db a)" using inv by (simp add: agent_inv_def)
  note dv = db_setState_view [OF dinv d]
  show ?thesis
  proof (cases "isl r")
    case True
    then show ?thesis using dv(3) inv by simp
  next
    case False
    then have v: "db_view d = (db_view (ag_db a))((agent_ns a, key) := map_option (e_state_update (\<lambda>_. s)) (ag_view a key))"
      using dv(2) by (simp add: ag_view_def)
    show ?thesis
    proof (rule agent_inv_index [OF inv dv(1) v])
      show "map_option (e_state_update (\<lambda>_. s)) (ag_view a key) \<noteq> None \<Longrightarrow> key_ok key" using inv by (auto simp: agent_inv_def)
      fix e assume "map_option (e_state_update (\<lambda>_. s)) (ag_view a key) = Some e"
      then obtain e0 where "ag_view a key = Some e0" "e = e0\<lparr>e_state := s\<rparr>" by auto
      then show "held_fast a key e" using h [of e0] by (simp add: held_fast_def matches_def)
    qed
  qed
qed

lemma disk_drop_inv: "agent_inv E a \<Longrightarrow> agent_inv E (a\<lparr>ag_disk := bk_del p (ag_disk a)\<rparr>)"
proof (rule agent_invI [where a = a])
  assume inv: "agent_inv E a"
  fix k e assume "ag_view (a\<lparr>ag_disk := bk_del p (ag_disk a)\<rparr>) k = Some e"
  then have v: "ag_view a k = Some e" by simp
  then show "key_ok k" using inv by (auto simp: agent_inv_def)
  assume "st_safe (e_state e)"
  then have "held_fast a k e" using inv v by (auto simp: agent_inv_def)
  then show "held_fast (a\<lparr>ag_disk := bk_del p (ag_disk a)\<rparr>) k e" by (auto simp: held_fast_def)
qed (simp_all add: agent_inv_def)

lemma disk_put_inv:
  assumes inv: "agent_inv E a"
    and h: "\<And>k e. ag_view a k = Some e \<Longrightarrow> st_safe (e_state e) \<Longrightarrow> agent_path a k = p \<Longrightarrow> matches e f \<Longrightarrow>
      bk_get (ag_remote a) k = Some (lf_data f)"
  shows "agent_inv E (a\<lparr>ag_disk := bk_put p f (ag_disk a)\<rparr>)"
proof (rule agent_invI [OF inv])
  fix k e assume "ag_view (a\<lparr>ag_disk := bk_put p f (ag_disk a)\<rparr>) k = Some e"
  then have v: "ag_view a k = Some e" by simp
  then show "key_ok k" using inv by (auto simp: agent_inv_def)
  assume s: "st_safe (e_state e)"
  then have "held_fast a k e" using inv v by (auto simp: agent_inv_def)
  then show "held_fast (a\<lparr>ag_disk := bk_put p f (ag_disk a)\<rparr>) k e"
    using h [OF v s] by (auto simp: held_fast_def)
qed (use inv in \<open>simp_all add: agent_inv_def\<close>)

lemma recall_fetch_inv:
  assumes inv: "agent_inv E a" and e: "ag_view a key = Some e0" "e = e0\<lparr>e_atime := t\<rparr>"
  shows "agent_inv E (fst (recall_fetch E as key e a))"
proof -
  let ?dst = "agent_path a key" and ?clean = "a\<lparr>ag_disk := bk_del (agent_path a key @ tempSuffix) (ag_disk a)\<rparr>"
  have clean: "agent_inv E ?clean" by (rule disk_drop_inv [OF inv])
  show ?thesis
  proof (cases "\<exists>data. cli_Get (as_send as key 0) key a = Inr data \<and> as_fetch as key = FF_none")
    case True
    then obtain data where c: "cli_Get (as_send as key 0) key a = Inr data" and flt: "as_fetch as key = FF_none" by blast
    from c have got: "bk_get (ag_remote a) key = Some data" by (auto simp: cli_Get_def split: net.splits option.splits)
    define f where "f = \<lparr>lf_data = data, lf_mtime = e_mtime e, lf_mode = e_mode e AND 511\<rparr>"
    define a1 where "a1 = ?clean\<lparr>ag_disk := bk_put ?dst f (ag_disk ?clean)\<rparr>"
    have b: "isAbs (si_backing (ag_site a))" and k: "key_ok key" using inv e by (auto simp: agent_inv_def)
    have only: "k = key" if "ag_view a k = Some e'" "agent_path a k = agent_path a key" for k e'
    proof -
      have "key_ok k" using that(1) inv by (auto simp: agent_inv_def)
      then show ?thesis using pathOf_inject [OF b _ k] that(2) by (simp add: agent_path_def)
    qed
    have i1: "agent_inv E a1"
      unfolding a1_def by (rule disk_put_inv [OF clean]) (use only got in \<open>auto simp: f_def\<close>)
    have h1: "held_fast a1 key e'" for e' using got by (simp add: held_fast_def a1_def f_def)
    obtain d r where d: "db_setState E (as_commit as key) (agent_ns a1) key Synced (ag_db a1) = (d, r)" by force
    have i2: "agent_inv E (a1\<lparr>ag_db := d\<rparr>)" by (rule setState_inv [OF i1 h1 d])
    have i3: "agent_inv E (a1\<lparr>ag_db := db_touch ns kk tt d\<rparr>)" for ns kk tt
      using i2 by (simp add: agent_inv_def ag_view_def)
    have "recall_fetch E as key e a = (case db_setState E (as_commit as key) (agent_ns a1) key Synced (ag_db a1) of
        (d, Inl err) \<Rightarrow> (a1\<lparr>ag_db := d\<rparr>, Some err)
      | (d, Inr _) \<Rightarrow> (a1\<lparr>ag_db := db_touch (agent_ns a1) key (as_now as) d\<rparr>, None))"
      unfolding a1_def f_def using c flt by (simp add: recall_fetch_def Let_def split: prod.split sum.split)
    then show ?thesis using i2 i3 d by (cases r) simp_all
  next
    case False
    then have "fst (recall_fetch E as key e a) \<in> {a, ?clean}"
      by (cases "cli_Get (as_send as key 0) key a") (simp_all add: recall_fetch_def Let_def)
    then show ?thesis using inv clean by auto
  qed
qed

lemma db_get_view_some:
  assumes "agent_inv E a" "db_get (agent_ns a) key (ag_db a) = Inr (Some e)"
  obtains e0 t where "ag_view a key = Some e0" "e = e0\<lparr>e_atime := t\<rparr>"
proof -
  have "db_inv (ag_db a)" using assms(1) by (simp add: agent_inv_def)
  from db_get_safe [OF this assms(2)] show thesis using that by (cases "ag_view a key") (auto simp: ag_view_def)
qed

lemma Recall_inv:
  assumes inv: "agent_inv E a"
  shows "agent_inv E (fst (agent_Recall E as None key a))"
proof (cases "\<exists>e. db_get (agent_ns a) key (ag_db a) = Inr (Some e) \<and> \<not> (st_local (e_state e) \<and> has_file a key)")
  case True
  then obtain e where g: "db_get (agent_ns a) key (ag_db a) = Inr (Some e)" and n: "\<not> (st_local (e_state e) \<and> has_file a key)" by blast
  obtain e0 t where "ag_view a key = Some e0" "e = e0\<lparr>e_atime := t\<rparr>" by (rule db_get_view_some [OF inv g])
  from recall_fetch_inv [OF inv this] show ?thesis using g n inv by (simp add: agent_Recall_def)
next
  case False
  then have "fst (agent_Recall E as None key a) = a"
    by (auto simp: agent_Recall_def split: sum.splits option.splits)
  with inv show ?thesis by simp
qed

text \<open>
  An eviction removes at most the file of a safe entry, whose bytes the store then has if
  the file still was the one the index describes; the objects on the store stay.
\<close>

lemma Evict_effect:
  assumes inv: "agent_inv E a" and res: "agent_Evict E as key a = (a', r)"
  shows "agent_inv E a'" "ag_site a' = ag_site a" "ag_remote a' = ag_remote a"
    "ag_disk a' = ag_disk a \<or> ag_disk a' = bk_del (agent_path a key) (ag_disk a)"
    "ag_disk a' \<noteq> ag_disk a \<Longrightarrow> \<exists>e. ag_view a key = Some e \<and> e_state e = Synced \<and> held_fast a key e"
proof -
  consider (kept) "a' = a"
    | (evicted) e where "db_get (agent_ns a) key (ag_db a) = Inr (Some e)" "e_state e = Synced"
      "a' = (a\<lparr>ag_disk := bk_del (agent_path a key) (ag_disk a)\<rparr>)
         \<lparr>ag_db := fst (db_setState E (as_commit as key) (agent_ns a) key Evicted (ag_db a))\<rparr>"
    using res by (auto simp: agent_Evict_def st_safe_def Let_def split: sum.splits option.splits if_splits prod.splits)
  then have "agent_inv E a' \<and> ag_site a' = ag_site a \<and> ag_remote a' = ag_remote a \<and>
    (ag_disk a' = ag_disk a \<or> ag_disk a' = bk_del (agent_path a key) (ag_disk a)) \<and>
    (ag_disk a' \<noteq> ag_disk a \<longrightarrow> (\<exists>e. ag_view a key = Some e \<and> e_state e = Synced \<and> held_fast a key e))"
  proof cases
    case evicted
    let ?a1 = "a\<lparr>ag_disk := bk_del (agent_path a key) (ag_disk a)\<rparr>"
    obtain e0 t where e0: "ag_view a key = Some e0" "e = e0\<lparr>e_atime := t\<rparr>" by (rule db_get_view_some [OF inv evicted(1)])
    then have h: "held_fast a key e0" using inv evicted(2) by (auto simp: agent_inv_def st_safe_def)
    have i1: "agent_inv E ?a1" by (rule disk_drop_inv [OF inv])
    obtain d x where d: "db_setState E (as_commit as key) (agent_ns ?a1) key Evicted (ag_db ?a1) = (d, x)" by force
    have "held_fast ?a1 key e'" if "ag_view ?a1 key = Some e'" for e' using that e0 h by (auto simp: held_fast_def)
    from setState_inv [OF i1 this d] have "agent_inv E (?a1\<lparr>ag_db := d\<rparr>)" .
    then show ?thesis using evicted(2,3) d e0 h by auto
  qed (use inv in simp)
  then show "agent_inv E a'" "ag_site a' = ag_site a" "ag_remote a' = ag_remote a"
    "ag_disk a' = ag_disk a \<or> ag_disk a' = bk_del (agent_path a key) (ag_disk a)"
    "ag_disk a' \<noteq> ag_disk a \<Longrightarrow> \<exists>e. ag_view a key = Some e \<and> e_state e = Synced \<and> held_fast a key e" by blast+
qed

lemma evict_loop_inv:
  "agent_inv E (fst s) \<Longrightarrow> agent_inv E (fst (evict_loop E as target cs s))"
proof (induction cs arbitrary: s)
  case (Cons c cs)
  obtain a r where e: "agent_Evict E as (cd_key c) (fst s) = (a, r)" by force
  have "agent_inv E a" by (rule Evict_effect(1) [OF Cons.prems e])
  then have "agent_inv E (fst (evict_loop E as target cs (a, st)))" for st using Cons.IH [of "(a, st)"] by simp
  then show ?case using Cons.prems e by (simp split: option.split)
qed simp

lemma EvictToFit_inv:
  assumes "agent_inv E a"
  shows "agent_inv E (fst (EvictToFit E as free a))"
proof -
  have l: "agent_inv E (fst (evict_loop E as target cs (a, st)))" for target cs st
    by (rule evict_loop_inv) (simp add: assms)
  have "fst (EvictToFit E as free a) = a \<or> (\<exists>target cs st. fst (EvictToFit E as free a) = fst (evict_loop E as target cs (a, st)))"
    by (auto simp: EvictToFit_def Let_def split: sum.splits prod.splits option.splits) (metis fst_conv)+
  then show ?thesis using l assms by auto
qed

lemma Pin_inv:
  assumes inv: "agent_inv E a"
  shows "agent_inv E (fst (agent_Pin E as key pinned a))"
proof -
  let ?body = "unit_tx (\<lambda>x. res_bind (tx_get (agent_ns a) key x) (\<lambda>r.
                case r of
                  None \<Rightarrow> Inl ErrNotExist
                | Some e \<Rightarrow> tx_put E (as_now as) (agent_ns a) (e\<lparr>e_pinned := pinned\<rparr>) x))"
  obtain d r where d: "db_update (as_commit as key) ?body (ag_db a) = (d, r)" by force
  have dinv: "db_inv (ag_db a)" and iinv: "idx_inv (db_file (ag_db a))" using inv by (simp_all add: agent_inv_def db_inv_def)
  have "agent_inv E (a\<lparr>ag_db := d\<rparr>)"
  proof (cases r)
    case (Inl x)
    then show ?thesis using db_update_Inl [of "as_commit as key" ?body "ag_db a" d x] d inv by simp
  next
    case (Inr u)
    then obtain e x where e: "ix_lookup (db_file (ag_db a)) (agent_ns a, key) = Some e"
      and p: "tx_put E (as_now as) (agent_ns a) (e\<lparr>e_pinned := pinned\<rparr>) (db_file (ag_db a)) = Inr x"
      and dd: "d = (ag_db a)\<lparr>db_file := x\<rparr>"
      using d tx_get_lookup [OF iinv, of "agent_ns a" key]
      by (auto simp: db_update_Inr unit_tx_def res_bind_Inr split: option.splits)
    note tp = tx_put_Inr [OF iinv p]
    have ek: "e_key e = key" by (rule ix_lookup_key [OF iinv e])
    have v: "db_view d = (db_view (ag_db a))((agent_ns a, key) := Some (stamped (as_now as) (e\<lparr>e_pinned := pinned\<rparr>)))"
      using tp(2) ek by (simp add: db_view_def dd)
    have view: "ag_view a key = Some e" using e by (simp add: ag_view_def db_view_def)
    show ?thesis
    proof (rule agent_inv_index [OF inv _ v])
      show "db_inv d" using tp(1) by (simp add: db_inv_def dd)
      show "key_ok key" using inv view by (auto simp: agent_inv_def)
      fix e' assume e': "Some (stamped (as_now as) (e\<lparr>e_pinned := pinned\<rparr>)) = Some e'" "st_safe (e_state e')"
      then have "held_fast a key e" using inv view by (auto simp: agent_inv_def)
      then show "held_fast a key e'" using e'(1) by (auto simp: held_fast_def matches_def)
    qed
  qed
  then show ?thesis using d by (cases r) (auto simp: agent_Pin_def)
qed

lemma flush_agent_inv:
  assumes inv: "agent_inv E a"
  shows "agent_inv E (a\<lparr>ag_db := db_flushATimes E ok (ag_db a)\<rparr>)"
proof (rule agent_invI [OF inv])
  have dinv: "db_inv (ag_db a)" using inv by (simp add: agent_inv_def)
  then show "db_inv (ag_db (a\<lparr>ag_db := db_flushATimes E ok (ag_db a)\<rparr>))" by (simp add: db_flush_inv)
  fix k e assume v: "ag_view (a\<lparr>ag_db := db_flushATimes E ok (ag_db a)\<rparr>) k = Some e"
  have "atime_only (ag_view a k) (Some e)"
    using db_flush_view(1) [OF dinv, of "(agent_ns a, k)" E ok] v by (simp add: ag_view_def)
  then obtain e0 where e0: "ag_view a k = Some e0" "e = e0\<lparr>e_atime := e_atime e\<rparr>"
    by (auto simp: atime_only_def option_rel_Some2)
  then show "key_ok k" using inv by (auto simp: agent_inv_def)
  assume "st_safe (e_state e)"
  then have "held_fast a k e0" using inv e0 by (auto simp: agent_inv_def) (metis e0(2) entry.select_convs(7) entry.surjective entry.update_convs(8))
  then show "held_fast (a\<lparr>ag_db := db_flushATimes E ok (ag_db a)\<rparr>) k e"
    by (subst e0(2)) (simp add: held_fast_def matches_def)
qed simp

end
