(* ===== verification/AgentProps.thy ===== *)
theory AgentProps
  imports AgentLaws ConfigLaws Demo "HOL-Library.Multiset"
begin

text \<open>
  The agent as a step relation, with WordPress as part of the system, and what follows:
  no eviction destroys bytes the store does not have, an eviction pass takes exactly the
  coldest objects the policy allows until the target is met, the retry loop is bounded,
  and what is dirty is uploaded once the store answers.
\<close>

subsection \<open>The system\<close>

text \<open>
  A file WordPress puts in place differs in size or modification time from what the index
  recorded for it as safe, unless it has the bytes the store has.
\<close>

definition leaves_a_trace :: "agent \<Rightarrow> string \<Rightarrow> lfile \<Rightarrow> bool" where
  "leaves_a_trace a p f \<longleftrightarrow>
     (\<forall>k e. ag_view a k = Some e \<longrightarrow> st_safe (e_state e) \<longrightarrow> agent_path a k = p \<longrightarrow> matches e f \<longrightarrow>
        bk_get (ag_remote a) k = Some (lf_data f))"

inductive agent_step :: "env \<Rightarrow> agent \<Rightarrow> agent \<Rightarrow> bool" for E where
  turn: "agent_step E a (worker_turn E as a)"
| sweep: "agent_step E a (sweep_tick a)"
| scan: "answered as \<Longrightarrow> agent_step E a (fst (agent_Scan E as a))"
| event: "answered as \<Longrightarrow> isAbs (ev_name ev) \<Longrightarrow> agent_step E a (handleEvent E as ev a)"
| recall: "agent_step E a (fst (agent_Recall E as None key a))"
| evict: "agent_step E a (fst (agent_Evict E as key a))"
| fit: "agent_step E a (fst (EvictToFit E as free a))"
| pin: "agent_step E a (fst (agent_Pin E as key pinned a))"
| touch: "agent_step E a (agent_Touch as key a)"
| flush: "agent_step E a (a\<lparr>ag_db := db_flushATimes E ok (ag_db a)\<rparr>)"
| wp_write: "leaves_a_trace a p f \<Longrightarrow> agent_step E a (a\<lparr>ag_disk := bk_put p f (ag_disk a)\<rparr>)"
| wp_remove: "agent_step E a (a\<lparr>ag_disk := bk_del p (ag_disk a)\<rparr>)"

lemma agent_step_inv: "agent_step E a a' \<Longrightarrow> agent_inv E a \<Longrightarrow> agent_inv E a'"
proof (induction rule: agent_step.induct)
  case (evict a as key)
  then show ?case using Evict_effect(1) by (metis prod.collapse)
next
  case (touch a as key)
  then show ?case by (simp add: agent_Touch_def agent_inv_def ag_view_def)
next
  case (wp_write a p f)
  show ?case by (rule disk_put_inv [OF wp_write(2)]) (use wp_write(1) in \<open>auto simp: leaves_a_trace_def\<close>)
qed (simp_all add: worker_turn_inv sweep_inv Scan_inv handleEvent_inv Recall_inv EvictToFit_inv Pin_inv flush_agent_inv disk_drop_inv)

lemma agent_reach_inv: "(agent_step E)\<^sup>*\<^sup>* a a' \<Longrightarrow> agent_inv E a \<Longrightarrow> agent_inv E a'"
  by (induction rule: rtranclp_induct) (auto intro: agent_step_inv)

subsection \<open>One eviction, and a pass of them\<close>

lemma Evict_view:
  assumes inv: "agent_inv E a" and res: "agent_Evict E as key a = (a', r)"
  shows "k \<noteq> key \<Longrightarrow> ag_view a' k = ag_view a k"
    "ag_view a' key = ag_view a key \<or> (\<exists>e. ag_view a key = Some e \<and> ag_view a' key = Some (e\<lparr>e_state := Evicted\<rparr>))"
proof -
  have dinv: "db_inv (ag_db a)" using inv by (simp add: agent_inv_def)
  obtain d x where d: "db_setState E (as_commit as key) (agent_ns a) key Evicted (ag_db a) = (d, x)" by force
  note dv = db_setState_view(2) [OF dinv d]
  have "a' = a \<or> (\<exists>f. a' = a\<lparr>ag_disk := f, ag_db := d\<rparr>)"
    using res d by (auto simp: agent_Evict_def Let_def split: sum.splits option.splits if_splits prod.splits)
  then show "k \<noteq> key \<Longrightarrow> ag_view a' k = ag_view a k"
    "ag_view a' key = ag_view a key \<or> (\<exists>e. ag_view a key = Some e \<and> ag_view a' key = Some (e\<lparr>e_state := Evicted\<rparr>))"
    using dv by (cases "ag_view a key"; auto simp: ag_view_def split: if_splits)+
qed

text \<open>A file a pass removed was that of a candidate, and the store had its bytes if it matched.\<close>

definition covered :: "agent \<Rightarrow> candidate list \<Rightarrow> string \<Rightarrow> lfile \<Rightarrow> bool" where
  "covered a cs p f \<longleftrightarrow>
     (\<exists>c \<in> set cs. \<exists>e. agent_path a (cd_key c) = p \<and> ag_view a (cd_key c) = Some e \<and> e_state e = Synced \<and>
        (matches e f \<longrightarrow> bk_get (ag_remote a) (cd_key c) = Some (lf_data f)))"

lemma Evict_covers:
  assumes inv: "agent_inv E a" and res: "agent_Evict E as key a = (a', r)"
    and f: "bk_get (ag_disk a) p = Some f" and gone: "bk_get (ag_disk a') p \<noteq> Some f"
  shows "p = agent_path a key \<and> (\<exists>e. ag_view a key = Some e \<and> e_state e = Synced \<and>
     (matches e f \<longrightarrow> bk_get (ag_remote a) key = Some (lf_data f)))"
proof -
  note eff = Evict_effect [OF inv res]
  from f gone have "ag_disk a' \<noteq> ag_disk a" by auto
  moreover from this eff(4) have "ag_disk a' = bk_del (agent_path a key) (ag_disk a)" by blast
  then have p: "p = agent_path a key" using f gone by (auto split: if_splits)
  ultimately obtain e where e: "ag_view a key = Some e" "e_state e = Synced" "held_fast a key e" using eff(5) by blast
  from e(3) have "matches e f \<longrightarrow> bk_get (ag_remote a) key = Some (lf_data f)" using f p by (auto simp: held_fast_def)
  with p e show ?thesis by blast
qed

lemma evict_loop_covers:
  "agent_inv E (fst s) \<Longrightarrow> distinct (map cd_key cs) \<Longrightarrow> bk_get (ag_disk (fst s)) p = Some f \<Longrightarrow>
   bk_get (ag_disk (fst (evict_loop E as target cs s))) p \<noteq> Some f \<Longrightarrow> covered (fst s) cs p f"
proof (induction cs arbitrary: s)
  case (Cons c cs)
  obtain a r where e: "agent_Evict E as (cd_key c) (fst s) = (a, r)" by force
  note eff = Evict_effect [OF Cons.prems(1) e]
  obtain st where rest: "sint (es_bytesFreed (snd s)) < sint target"
    "evict_loop E as target (c # cs) s = evict_loop E as target cs (a, st)"
    using Cons.prems(3,4) e by (cases r) (auto split: if_splits)
  show ?case
  proof (cases "bk_get (ag_disk a) p = Some f")
    case False
    from Evict_covers [OF Cons.prems(1) e Cons.prems(3) this] show ?thesis by (auto simp: covered_def)
  next
    case True
    have "covered a cs p f" using Cons.IH [of "(a, st)"] eff(1) Cons.prems(2,4) True rest(2) by simp
    moreover have "agent_path a = agent_path (fst s)" using agent_same_site(2) [OF eff(2)] by (simp add: fun_eq_iff)
    moreover have "ag_view a (cd_key c') = ag_view (fst s) (cd_key c')" if "c' \<in> set cs" for c'
    proof (rule Evict_view(1) [OF Cons.prems(1) e])
      have "cd_key c' \<in> cd_key ` set cs" using that by (rule imageI)
      then show "cd_key c' \<noteq> cd_key c" using Cons.prems(2) by auto
    qed
    ultimately show ?thesis using eff(3) by (auto simp: covered_def)
  qed
qed simp

text \<open>The candidates of a pass, in the order of the walk.\<close>

definition evictable :: "agent \<Rightarrow> entry \<Rightarrow> bool" where
  "evictable a e \<longleftrightarrow> e_state e = Synced \<and> sint (ca_keepBelow (si_cache (ag_site a))) \<le> sint (e_size e) \<and>
     \<not> e_pinned e \<and> \<not> agent_protected a (e_key e)"

definition as_candidate :: "entry \<Rightarrow> candidate" where
  "as_candidate e = \<lparr>cd_key = e_key e, cd_size = e_size e, cd_atime = e_atime e\<rparr>"

definition site_entries :: "agent \<Rightarrow> entry list" where
  "site_entries a = entries_of (ns_objs (db_file (ag_db a)) (agent_ns a))"

definition evict_pool :: "agent \<Rightarrow> candidate list" where
  "evict_pool a = map as_candidate (filter (evictable a) (site_entries a))"

lemma fold_evict_candidate:
  "fst (fst (fold_cb (evict_candidate a) es s)) = fst s @ map as_candidate (filter (evictable a) es) \<and>
   snd (fold_cb (evict_candidate a) es s) = None"
proof (induction es arbitrary: s)
  case (Cons e es)
  have st: "st_local (e_state e) \<and> st_safe (e_state e) \<longleftrightarrow> e_state e = Synced" by (auto simp: st_local_def st_safe_def)
  have "\<exists>s1. evict_candidate a e s = (s1, None) \<and> fst s1 = fst s @ (if evictable a e then [as_candidate e] else [])"
    using st by (cases s) (auto simp: evict_candidate_def evictable_def as_candidate_def)
  then obtain s1 where s1: "evict_candidate a e s = (s1, None)" "fst s1 = fst s @ (if evictable a e then [as_candidate e] else [])"
    by blast
  with Cons.IH [of s1] show ?case by simp
qed simp

lemma site_entries_view: "agent_inv E a \<Longrightarrow> e \<in> set (site_entries a) \<longleftrightarrow> ag_view a (e_key e) = Some e"
  using entries_of_lookup [of "db_file (ag_db a)" e "agent_ns a"]
  by (simp add: agent_inv_def db_inv_def site_entries_def ag_view_def db_view_def)

lemma ag_view_key: "agent_inv E a \<Longrightarrow> ag_view a k = Some e \<Longrightarrow> e_key e = k"
  by (auto simp: agent_inv_def db_inv_def ag_view_def db_view_def dest: ix_lookup_key)

lemma site_entries_distinct: "agent_inv E a \<Longrightarrow> distinct (map e_key (site_entries a))"
proof -
  assume "agent_inv E a"
  then have "objs_ok (ns_objs (db_file (ag_db a)) (agent_ns a))" by (simp add: agent_inv_def db_inv_def idx_invD(1))
  from entries_of_sorted [OF this] show ?thesis by (simp add: site_entries_def strict_sorted_iff)
qed

lemma evict_pool_keys:
  assumes "agent_inv E a"
  shows "distinct (map cd_key (evict_pool a))" "c \<in> set (evict_pool a) \<Longrightarrow>
    \<exists>e. ag_view a (cd_key c) = Some e \<and> evictable a e \<and> c = as_candidate e"
proof -
  have k: "map cd_key (evict_pool a) = map e_key (filter (evictable a) (site_entries a))"
    by (simp add: evict_pool_def as_candidate_def)
  show "distinct (map cd_key (evict_pool a))"
    unfolding k using site_entries_distinct [OF assms] by (simp add: distinct_map_filter)
  show "c \<in> set (evict_pool a) \<Longrightarrow> \<exists>e. ag_view a (cd_key c) = Some e \<and> evictable a e \<and> c = as_candidate e"
    using site_entries_view [OF assms] by (auto simp: evict_pool_def as_candidate_def)
qed

lemma evict_order_pool: "set (evict_order p) = set p" "distinct (map cd_key (evict_order p)) = distinct (map cd_key p)"
proof -
  show "set (evict_order p) = set p" by (simp add: evict_order_def)
  have "mset (evict_order p) = mset p" by (simp add: evict_order_def)
  then have "mset (map cd_key (evict_order p)) = mset (map cd_key p)" by (metis mset_map)
  then show "distinct (map cd_key (evict_order p)) = distinct (map cd_key p)" by (rule mset_eq_imp_distinct_iff)
qed

lemma overBy_unlimited:
  "sint (ca_maxSize c) \<le> 0 \<and> sint (ca_minFree c) \<le> 0 \<Longrightarrow> overBy c free n = 0"
  by (simp add: overBy_def)

text \<open>A pass does nothing, or runs the loop over its candidates in order.\<close>

lemma EvictToFit_cases:
  assumes inv: "agent_inv E a" and res: "EvictToFit E as free a = (a', st, e)"
  obtains (idle) "a' = a" "e = None" "es_evicted st = 0" "es_bytesFreed st = 0"
      "sint (overBy (si_cache (ag_site a)) free (s_localBytes (stats_of (ns_objs (db_file (ag_db a)) (agent_ns a))))) \<le> 0"
  | (ran) target st0 where "0 < sint target" "e = None" "es_evicted st0 = 0" "es_bytesFreed st0 = 0"
      "target = overBy (si_cache (ag_site a)) free (s_localBytes (stats_of (ns_objs (db_file (ag_db a)) (agent_ns a))))"
      "es_candidates st0 = length (evict_pool a)"
      "(a', st) = evict_loop E as target (evict_order (evict_pool a)) (a, st0)"
proof -
  have iinv: "idx_inv (db_file (ag_db a))" using inv by (simp add: agent_inv_def db_inv_def)
  let ?s = "stats_of (ns_objs (db_file (ag_db a)) (agent_ns a))"
  let ?t = "overBy (si_cache (ag_site a)) free (s_localBytes ?s)"
  have s: "ix_statsOf (agent_ns a) (db_file (ag_db a)) = Inr ?s" by (rule idx_invD(3) [OF iinv])
  obtain skipped where w: "ix_walk (agent_ns a) (evict_candidate a) (db_file (ag_db a)) ([], 0) = ((evict_pool a, skipped), None)"
    using ix_walk_entries [OF iinv, of "agent_ns a" "evict_candidate a" "([], 0)"] fold_evict_candidate [of a "site_entries a" "([], 0)"]
    by (cases "fold_cb (evict_candidate a) (site_entries a) ([], 0)") (auto simp: site_entries_def evict_pool_def)
  show thesis
  proof (cases "sint (ca_maxSize (si_cache (ag_site a))) \<le> 0 \<and> sint (ca_minFree (si_cache (ag_site a))) \<le> 0 \<or> sint ?t \<le> 0")
    case True
    have "EvictToFit E as free a = (a, \<lparr>es_candidates = 0, es_evicted = 0, es_bytesFreed = 0, es_skipped = 0\<rparr>, None)"
      unfolding EvictToFit_def Let_def s sum.case using True by (elim disjE) (simp, simp split: if_split)
    then have "a' = a \<and> e = None \<and> es_evicted st = 0 \<and> es_bytesFreed st = 0" using res by auto
    moreover have "sint ?t \<le> 0" using True overBy_unlimited by (metis order_refl sint_0)
    ultimately show thesis by (intro idle) (simp_all only: simp_thms)
  next
    case False
    let ?st0 = "\<lparr>es_candidates = length (evict_pool a), es_evicted = 0, es_bytesFreed = 0, es_skipped = skipped\<rparr>"
    have "EvictToFit E as free a = (case evict_loop E as ?t (evict_order (evict_pool a)) (a, ?st0) of (a1, st) \<Rightarrow> (a1, st, None))"
    proof -
      from False have n: "\<not> (sint (ca_maxSize (si_cache (ag_site a))) \<le> 0 \<and> sint (ca_minFree (si_cache (ag_site a))) \<le> 0)"
        "\<not> sint ?t \<le> 0" by blast+
      show ?thesis unfolding EvictToFit_def Let_def s sum.case if_not_P [OF n(1)] if_not_P [OF n(2)] w by simp
    qed
    moreover have "0 < sint ?t" using False by linarith
    ultimately show thesis using res
      by (intro ran [of ?t ?st0]) (auto split: prod.splits)
  qed
qed


subsection \<open>What a pass takes\<close>

lemma setState_succeeds:
  assumes "db_inv d" "name_ok E ns" "name_ok E k"
  shows "\<exists>d' b. db_setState E True ns k s d = (d', Inr b)"
proof -
  have "\<exists>b x. tx_setState E ns k s (db_file d) = Inr (b, x)"
    using assms tx_setState_eq [of "db_file d" E ns k s] by (auto simp: db_inv_def Let_def split: option.splits)
  then show ?thesis by (auto simp: db_setState_def db_update_def)
qed

lemma key_ok_name: "key_ok k \<Longrightarrow> key_fits E k \<Longrightarrow> name_ok E k"
proof -
  assume k: "key_ok k" "key_fits E k"
  then obtain ks where ks: "ks \<noteq> []" "list_all good_part ks" "k = path_join ks" by (auto simp: key_ok_def)
  have "path_join ks \<noteq> []" using ks(1,2) path_join_inj [OF ks(2), of "[]"] by auto
  with k ks(3) show ?thesis by (simp add: name_ok_def)
qed

lemma Evict_takes:
  assumes inv: "agent_inv E a" and e: "ag_view a key = Some e" "e_state e = Synced"
    and fits: "key_fits E key" and can: "as_unlink as key" "as_commit as key"
  obtains a' where "agent_Evict E as key a = (a', None)" "ag_view a' = (ag_view a)(key \<mapsto> e\<lparr>e_state := Evicted\<rparr>)"
    "ag_disk a' = bk_del (agent_path a key) (ag_disk a)" "ag_site a' = ag_site a" "ag_remote a' = ag_remote a"
proof -
  have d: "db_inv (ag_db a)" "name_ok E (agent_ns a)" "key_ok key" using inv e(1) by (auto simp: agent_inv_def)
  obtain d' b where st: "db_setState E True (agent_ns a) key Evicted (ag_db a) = (d', Inr b)"
    using setState_succeeds [OF d(1,2) key_ok_name [OF d(3) fits]] by blast
  obtain t where g: "db_get (agent_ns a) key (ag_db a) = Inr (Some (e\<lparr>e_atime := t\<rparr>))"
    using db_get_some [of "ag_db a" "agent_ns a" key e] d(1) e(1) by (auto simp: ag_view_def db_view_def db_inv_def)
  show thesis
  proof (rule that)
    show "agent_Evict E as key a = (a\<lparr>ag_disk := bk_del (agent_path a key) (ag_disk a), ag_db := d'\<rparr>, None)"
      using g st can e(2) by (simp add: agent_Evict_def st_safe_def)
    show "ag_view (a\<lparr>ag_disk := bk_del (agent_path a key) (ag_disk a), ag_db := d'\<rparr>) = (ag_view a)(key \<mapsto> e\<lparr>e_state := Evicted\<rparr>)"
      using db_setState_view(2) [OF d(1) st] e(1) by (auto simp: ag_view_def fun_eq_iff)
  qed simp_all
qed

definition freed :: "candidate list \<Rightarrow> i64" where
  "freed cs = sum_list (map cd_size cs)"

definition evicted_view :: "candidate list \<Rightarrow> agent \<Rightarrow> string \<Rightarrow> entry option" where
  "evicted_view cs a k =
     (if k \<in> cd_key ` set cs then map_option (e_state_update (\<lambda>_. Evicted)) (ag_view a k) else ag_view a k)"

lemma evict_loop_takes:
  "agent_inv E a \<Longrightarrow> distinct (map cd_key cs) \<Longrightarrow>
   (\<And>c. c \<in> set cs \<Longrightarrow> (\<exists>e. ag_view a (cd_key c) = Some e \<and> e_state e = Synced) \<and>
      key_fits E (cd_key c) \<and> as_unlink as (cd_key c) \<and> as_commit as (cd_key c)) \<Longrightarrow>
   evict_loop E as target cs (a, st) = (a', st') \<Longrightarrow>
   \<exists>n \<le> length cs. es_evicted st' = es_evicted st + n \<and> es_bytesFreed st' = es_bytesFreed st + freed (take n cs) \<and>
     ag_view a' = evicted_view (take n cs) a \<and>
     (\<forall>m < n. sint (es_bytesFreed st + freed (take m cs)) < sint target) \<and>
     (n < length cs \<longrightarrow> sint target \<le> sint (es_bytesFreed st + freed (take n cs)))"
proof (induction cs arbitrary: a st)
  case (Cons c cs)
  note [simp] = freed_def evicted_view_def
  show ?case
  proof (cases "sint target \<le> sint (es_bytesFreed st)")
    case True
    with Cons.prems(4) show ?thesis by (intro exI [of _ 0]) auto
  next
    case False
    from Cons.prems(3) [of c] obtain e where e: "ag_view a (cd_key c) = Some e" "e_state e = Synced" by auto
    obtain a1 where a1: "agent_Evict E as (cd_key c) a = (a1, None)" "ag_view a1 = (ag_view a)(cd_key c \<mapsto> e\<lparr>e_state := Evicted\<rparr>)"
      using Evict_takes [OF Cons.prems(1) e, of as] Cons.prems(3) [of c] by auto
    let ?st = "st\<lparr>es_evicted := es_evicted st + 1, es_bytesFreed := es_bytesFreed st + cd_size c\<rparr>"
    have ne: "cd_key x \<noteq> cd_key c" if "x \<in> set cs" for x
      using imageI [OF that, of cd_key] Cons.prems(2) by auto
    have ih: "\<exists>n \<le> length cs. es_evicted st' = es_evicted ?st + n \<and> es_bytesFreed st' = es_bytesFreed ?st + freed (take n cs) \<and>
        ag_view a' = evicted_view (take n cs) a1 \<and>
        (\<forall>m < n. sint (es_bytesFreed ?st + freed (take m cs)) < sint target) \<and>
        (n < length cs \<longrightarrow> sint target \<le> sint (es_bytesFreed ?st + freed (take n cs)))"
    proof (rule Cons.IH)
      show "agent_inv E a1" by (rule Evict_effect(1) [OF Cons.prems(1) a1(1)])
      show "evict_loop E as target cs (a1, ?st) = (a', st')" using Cons.prems(4) False a1(1) by simp
    qed (use Cons.prems(2,3) a1(2) ne in auto)
    then obtain n where n: "n \<le> length cs" "es_evicted st' = es_evicted st + Suc n"
      "es_bytesFreed st' = es_bytesFreed st + (cd_size c + freed (take n cs))" "ag_view a' = evicted_view (take n cs) a1"
      "\<forall>m < n. sint (es_bytesFreed st + (cd_size c + freed (take m cs))) < sint target"
      "n < length cs \<longrightarrow> sint target \<le> sint (es_bytesFreed st + (cd_size c + freed (take n cs)))"
      by (auto simp: add.assoc)
    have "sint (es_bytesFreed st + freed (take m (c # cs))) < sint target" if "m < Suc n" for m
      using that n(5) False by (cases m) auto
    moreover have "ag_view a' = evicted_view (take (Suc n) (c # cs)) a"
      using n(4) a1(2) e(1) ne by (auto simp: fun_eq_iff dest: in_set_takeD)
    ultimately show ?thesis using n by (intro exI [of _ "Suc n"]) auto
  qed
qed (simp add: freed_def evicted_view_def fun_eq_iff)

subsection \<open>What the sweep and the workers achieve\<close>

definition dirty_keys :: "agent \<Rightarrow> string list" where
  "dirty_keys a = map e_key (filter (\<lambda>e. \<not> st_safe (e_state e)) (site_entries a))"

lemma sweep_walk:
  assumes "agent_inv E a"
  shows "sweep_tick a = fold Enqueue (dirty_keys a) a"
proof -
  let ?f = "\<lambda>(e::entry) acc. (if \<not> st_safe (e_state e) then acc @ [e_key e] else acc, None :: gerr option)"
  have "fold_cb ?f es acc = (acc @ map e_key (filter (\<lambda>e. \<not> st_safe (e_state e)) es), None)" for es acc
    by (induction es arbitrary: acc) auto
  moreover have "idx_inv (db_file (ag_db a))" using assms by (simp add: agent_inv_def db_inv_def)
  ultimately have "ix_walk (agent_ns a) ?f (db_file (ag_db a)) [] = (dirty_keys a, None)"
    by (simp add: ix_walk_entries [of "db_file (ag_db a)" "agent_ns a" ?f] dirty_keys_def site_entries_def)
  then show ?thesis by (simp add: sweep_tick_def)
qed

lemma Enqueue_all:
  "distinct ks \<Longrightarrow> set ks \<inter> set (ag_pending a) = {} \<Longrightarrow> length (ag_queue a) + length ks \<le> queueDepth \<Longrightarrow>
   fold Enqueue ks a = a\<lparr>ag_queue := ag_queue a @ ks, ag_pending := rev ks @ ag_pending a\<rparr>"
proof (induction ks arbitrary: a)
  case (Cons k ks)
  have "Enqueue k a = a\<lparr>ag_queue := ag_queue a @ [k], ag_pending := k # ag_pending a\<rparr>"
    using Cons.prems by (simp add: Enqueue_def)
  then show ?case using Cons.IH [of "Enqueue k a"] Cons.prems by auto
qed simp

text \<open>What a worker needs to finish one key: its file, an answer of the store and a commit.\<close>

definition sendable :: "env \<Rightarrow> agentsys \<Rightarrow> agent \<Rightarrow> string \<Rightarrow> bool" where
  "sendable E as a k \<longleftrightarrow> bk_get (ag_disk a) (agent_path a k) \<noteq> None \<and> as_send as k 1 = NetOK \<and> as_commit as k \<and> key_fits E k"

lemma worker_turn_sends:
  assumes inv: "agent_inv E a" and q: "ag_queue a = k # rest"
    and e: "ag_view a k = Some e" "\<not> st_safe (e_state e)" and s: "sendable E as a k"
  shows "ag_view (worker_turn E as a) = (ag_view a)(k \<mapsto> e\<lparr>e_state := Synced\<rparr>)"
    "ag_queue (worker_turn E as a) = rest" "ag_disk (worker_turn E as a) = ag_disk a" "ag_site (worker_turn E as a) = ag_site a"
proof -
  let ?a0 = "a\<lparr>ag_queue := rest\<rparr>"
  from s obtain f where f: "bk_get (ag_disk a) (agent_path a k) = Some f" by (auto simp: sendable_def)
  have d: "db_inv (ag_db a)" "name_ok E (agent_ns a)" "key_ok k" using inv e(1) by (auto simp: agent_inv_def)
  have "name_ok E k" using key_ok_name [OF d(3)] s by (simp add: sendable_def)
  from setState_succeeds [OF d(1,2) this]
  obtain d' b where st: "db_setState E True (agent_ns a) k Synced (ag_db a) = (d', Inr b)" by blast
  obtain t where g: "db_get (agent_ns a) k (ag_db a) = Inr (Some (e\<lparr>e_atime := t\<rparr>))"
    using db_get_some [of "ag_db a" "agent_ns a" k e] d(1) e(1) by (auto simp: ag_view_def db_view_def db_inv_def)
  have m: "maxAttempts = Suc 4" by (simp add: maxAttempts_def)
  have "upload_attempts as k maxAttempts 1 baseBackoff ?a0 = (?a0\<lparr>ag_remote := bk_put k (lf_data f) (ag_remote a)\<rparr>, UpDone 1, [])"
    unfolding m upload_attempts.simps(2) using s f by (simp add: cli_PutFile_def sendable_def)
  then have u: "agent_upload E as k ?a0 = (?a0\<lparr>ag_remote := bk_put k (lf_data f) (ag_remote a)\<rparr>)\<lparr>ag_db := d'\<rparr>"
    using g e(2) st s by (simp add: agent_upload_def sendable_def)
  show "ag_view (worker_turn E as a) = (ag_view a)(k \<mapsto> e\<lparr>e_state := Synced\<rparr>)"
    using db_setState_view(2) [OF d(1) st] e(1) q u by (auto simp: worker_turn_def Let_def ag_view_def fun_eq_iff)
  show "ag_queue (worker_turn E as a) = rest" "ag_disk (worker_turn E as a) = ag_disk a" "ag_site (worker_turn E as a) = ag_site a"
    using q u by (simp_all add: worker_turn_def Let_def)
qed

lemma workers_drain:
  "agent_inv E a \<Longrightarrow> ag_queue a = ks \<Longrightarrow> distinct ks \<Longrightarrow>
   (\<And>k. k \<in> set ks \<Longrightarrow> (\<exists>e. ag_view a k = Some e \<and> \<not> st_safe (e_state e)) \<and> sendable E as a k) \<Longrightarrow>
   ag_view ((worker_turn E as ^^ length ks) a) =
     (\<lambda>k. if k \<in> set ks then map_option (e_state_update (\<lambda>_. Synced)) (ag_view a k) else ag_view a k)"
proof (induction ks arbitrary: a)
  case (Cons k ks)
  from Cons.prems(4) [of k] obtain e where e: "ag_view a k = Some e" "\<not> st_safe (e_state e)" "sendable E as a k" by auto
  let ?a1 = "worker_turn E as a"
  note w = worker_turn_sends [OF Cons.prems(1,2) e]
  have path: "agent_path ?a1 x = agent_path a x" for x by (rule agent_same_site(2) [OF w(4)])
  have ne: "x \<noteq> k" if "x \<in> set ks" for x using that Cons.prems(3) by auto
  have "ag_view ((worker_turn E as ^^ length ks) ?a1) =
     (\<lambda>x. if x \<in> set ks then map_option (e_state_update (\<lambda>_. Synced)) (ag_view ?a1 x) else ag_view ?a1 x)"
  proof (rule Cons.IH)
    show "agent_inv E ?a1" by (rule worker_turn_inv [OF Cons.prems(1)])
    fix x assume "x \<in> set ks"
    then show "(\<exists>e. ag_view ?a1 x = Some e \<and> \<not> st_safe (e_state e)) \<and> sendable E as ?a1 x"
      using Cons.prems(4) [of x] ne [of x] w(1,3) path by (simp add: sendable_def)
  qed (use w(2) Cons.prems(3) in auto)
  then show ?case using w(1) e(1) ne by (auto simp: funpow_swap1 fun_eq_iff)
qed (simp add: fun_eq_iff)

lemma inv_holds:
  "agent_inv E a \<Longrightarrow> ag_view a k = Some e \<Longrightarrow> st_safe (e_state e) \<Longrightarrow> bk_get (ag_remote a) k \<noteq> None"
  unfolding agent_inv_def held_fast_def by (metis option.distinct(1))

lemma workers_inv: "agent_inv E a \<Longrightarrow> agent_inv E ((worker_turn E as ^^ n) a)"
  by (induction n) (simp_all add: worker_turn_inv)

subsection \<open>A concrete agent\<close>

definition first_agent :: "sitecfg \<Rightarrow> lfile bucket \<Rightarrow> string bucket \<Rightarrow> agent" where
  "first_agent site files objects =
     \<lparr>ag_site = site, ag_db = \<lparr>db_file = idx_empty, db_pending = []\<rparr>, ag_disk = files, ag_remote = objects,
      ag_queue = [], ag_pending = []\<rparr>"

lemma first_agent_inv:
  "isAbs (si_backing site) \<Longrightarrow> key_fits E (ix_namespace ScopeAgent (si_name site)) \<Longrightarrow> agent_inv E (first_agent site files objects)"
  by (simp add: agent_inv_def first_agent_def agent_ns_def name_ok_def ix_namespace_def ScopeAgent_def ag_view_def
      db_inv_def db_view_def idx_empty_def ix_lookup_def ns_objs_def)
    (simp flip: idx_empty_def)

definition demo_agent_site :: sitecfg where
  "demo_agent_site = (demo_site ''one'' ''/w'' ''/b'')\<lparr>si_cache :=
     \<lparr>ca_maxSize = 3, ca_minFree = 0, ca_keepBelow = 0, ca_neverEvict = [], ca_interval = 0\<rparr>\<rparr>"

definition demo_wide_env :: env where "demo_wide_env = demo_env\<lparr>key_fits := \<lambda>_. True\<rparr>"

definition demo_agentsys :: agentsys where
  "demo_agentsys = \<lparr>as_now = 5, as_info = \<lambda>_. True, as_commit = \<lambda>_. True, as_unlink = \<lambda>_. True,
     as_send = \<lambda>_ _. NetOK, as_fetch = \<lambda>_. FF_none, as_stop = \<lambda>_. False\<rparr>"

definition demo_file :: lfile where "demo_file = \<lparr>lf_data = ''hello'', lf_mtime = 3, lf_mode = 420\<rparr>"

text \<open>One file, scanned and uploaded.\<close>

definition demo_media_entry :: entry where
  "demo_media_entry = \<lparr>e_key = ''a'', e_size = 5, e_mtime = 3, e_mode = 420, e_hash = [], e_etag = [], e_state = Synced,
     e_atime = 5, e_pinned = False\<rparr>"

definition demo_agent_with :: "entry \<Rightarrow> stats \<Rightarrow> agent" where
  "demo_agent_with e st =
     (first_agent demo_agent_site [(''/b/a'', demo_file)] [])
       \<lparr>ag_db := \<lparr>db_file = idx_empty\<lparr>ix_objs := [(''agent:one'', [(''a'', Enc e)])], ix_stats := [(''agent:one'', Enc st)]\<rparr>,
                  db_pending = []\<rparr>\<rparr>"

definition demo_scanned :: agent where
  "demo_scanned =
     (demo_agent_with (demo_media_entry\<lparr>e_state := Dirty\<rparr>)
        \<lparr>s_objects = 1, s_bytes = 5, s_localObjects = 1, s_localBytes = 5, s_dirtyObjects = 1, s_dirtyBytes = 5\<rparr>)
       \<lparr>ag_queue := [''a''], ag_pending := [''a'']\<rparr>"

definition demo_agent :: agent where
  "demo_agent =
     (demo_agent_with demo_media_entry
        \<lparr>s_objects = 1, s_bytes = 5, s_localObjects = 1, s_localBytes = 5, s_dirtyObjects = 0, s_dirtyBytes = 0\<rparr>)
       \<lparr>ag_remote := [(''a'', ''hello'')]\<rparr>"

lemma demo_scan: "fst (agent_Scan demo_wide_env demo_agentsys (first_agent demo_agent_site [(''/b/a'', demo_file)] [])) = demo_scanned"
  by code_simp

lemma demo_upload: "worker_turn demo_wide_env demo_agentsys demo_scanned = demo_agent"
  by code_simp

lemma demo_fit: "map fst (ag_disk (fst (EvictToFit demo_wide_env demo_agentsys None demo_agent))) = []"
  by code_simp

lemma demo_begin: "isAbs (si_backing demo_agent_site)" "key_fits demo_wide_env ns"
  by (simp_all add: demo_agent_site_def demo_site_def isAbs_def demo_wide_env_def)

lemma demo_agent_reached:
  "(agent_step demo_wide_env)\<^sup>*\<^sup>* (first_agent demo_agent_site [(''/b/a'', demo_file)] []) demo_agent"
proof -
  have "answered demo_agentsys" by (simp add: answered_def demo_agentsys_def)
  from agent_step.scan [OF this, of demo_wide_env "first_agent demo_agent_site [(''/b/a'', demo_file)] []"]
  have "agent_step demo_wide_env (first_agent demo_agent_site [(''/b/a'', demo_file)] []) demo_scanned"
    by (simp add: demo_scan)
  moreover have "agent_step demo_wide_env demo_scanned demo_agent"
    using agent_step.turn [of demo_wide_env demo_scanned demo_agentsys] by (simp add: demo_upload)
  ultimately show ?thesis by (meson rtranclp.rtrancl_refl rtranclp.rtrancl_into_rtrancl)
qed

lemma demo_agent_inv: "agent_inv demo_wide_env demo_agent"
  by (rule agent_reach_inv [OF demo_agent_reached first_agent_inv [OF demo_begin]])

subsection \<open>Nothing is lost\<close>



lemma evicts_coldest:
  assumes inv: "agent_inv E a" and res: "EvictToFit E as free a = (a', st, e)"
    and can: "\<And>k e. ag_view a k = Some e \<Longrightarrow> key_fits E k \<and> as_unlink as k \<and> as_commit as k"
  defines "order \<equiv> evict_order (evict_pool a)"
    and "target \<equiv> overBy (si_cache (ag_site a)) free (s_localBytes (stats_of (ns_objs (db_file (ag_db a)) (agent_ns a))))"
  shows "e = None \<and> (\<exists>n \<le> length order. es_evicted st = n \<and> es_bytesFreed st = freed (take n order) \<and>
      ag_view a' = evicted_view (take n order) a \<and>
      (\<forall>m < n. sint (freed (take m order)) < sint target) \<and>
      (n < length order \<longrightarrow> sint target \<le> sint (freed (take n order))))"
    and "sorted (map (\<lambda>c. (cd_atime c, - sint (cd_size c))) order)"
    and "c \<in> set order \<longleftrightarrow> (\<exists>e. ag_view a (cd_key c) = Some e \<and> evictable a e \<and> c = as_candidate e)"
proof -
  have dist: "distinct (map cd_key order)" using evict_pool_keys(1) [OF inv] evict_order_pool(2) by (simp add: order_def)
  have mem: "c \<in> set order \<longleftrightarrow> (\<exists>e. ag_view a (cd_key c) = Some e \<and> evictable a e \<and> c = as_candidate e)" for c
  proof
    assume "c \<in> set order"
    then show "\<exists>e. ag_view a (cd_key c) = Some e \<and> evictable a e \<and> c = as_candidate e"
      using evict_pool_keys(2) [OF inv] by (simp add: order_def evict_order_pool(1))
  next
    assume "\<exists>e. ag_view a (cd_key c) = Some e \<and> evictable a e \<and> c = as_candidate e"
    then show "c \<in> set order"
      using site_entries_view [OF inv] by (auto simp: order_def evict_order_pool(1) evict_pool_def as_candidate_def)
  qed
  then show "c \<in> set order \<longleftrightarrow> (\<exists>e. ag_view a (cd_key c) = Some e \<and> evictable a e \<and> c = as_candidate e)" .
  show "sorted (map (\<lambda>c. (cd_atime c, - sint (cd_size c))) order)" by (simp add: order_def evict_order_def)
  show "e = None \<and> (\<exists>n \<le> length order. es_evicted st = n \<and> es_bytesFreed st = freed (take n order) \<and>
      ag_view a' = evicted_view (take n order) a \<and>
      (\<forall>m < n. sint (freed (take m order)) < sint target) \<and>
      (n < length order \<longrightarrow> sint target \<le> sint (freed (take n order))))"
  proof (rule EvictToFit_cases [OF inv res], goal_cases)
    case 1
    then show ?case by (intro conjI exI [of _ 0]) (simp_all add: freed_def evicted_view_def fun_eq_iff target_def)
  next
    case (2 t st0)
    have "(\<exists>e. ag_view a (cd_key c) = Some e \<and> e_state e = Synced) \<and>
        key_fits E (cd_key c) \<and> as_unlink as (cd_key c) \<and> as_commit as (cd_key c)" if "c \<in> set order" for c
      using that can mem by (auto simp: evictable_def)
    note taken = evict_loop_takes [OF inv dist this, of target st0 a' st]
    have "evict_loop E as target order (a, st0) = (a', st)" using 2 by (simp add: order_def target_def)
    from taken [OF _ this] 2(3,4) show ?case by (simp add: 2(2))
  qed
qed

text \<open>
  C20: a pass takes exactly the coldest objects that suffice.  When files can be unlinked
  and the index commits, the pass evicts the first \<open>n\<close> candidates of the order by access
  time, larger first among equals, where fewer would not have met the target and the rest
  are left because it is met; nothing else changes state.
\<close>

theorem eviction_takes_the_coldest_that_suffice:
  assumes "agent_inv E a" "EvictToFit E as free a = (a', st, e)"
    and "\<And>k e. ag_view a k = Some e \<Longrightarrow> key_fits E k \<and> as_unlink as k \<and> as_commit as k"
  defines "order \<equiv> evict_order (evict_pool a)"
    and "target \<equiv> overBy (si_cache (ag_site a)) free (s_localBytes (stats_of (ns_objs (db_file (ag_db a)) (agent_ns a))))"
  shows "e = None \<and> (\<exists>n \<le> length order. es_evicted st = n \<and> es_bytesFreed st = freed (take n order) \<and>
      ag_view a' = evicted_view (take n order) a \<and>
      (\<forall>m < n. sint (freed (take m order)) < sint target) \<and>
      (n < length order \<longrightarrow> sint target \<le> sint (freed (take n order)))) \<and>
    sorted (map (\<lambda>c. (cd_atime c, - sint (cd_size c))) order) \<and>
    set order = {c. \<exists>e. ag_view a (cd_key c) = Some e \<and> evictable a e \<and> c = as_candidate e}"
  using evicts_coldest [OF assms(1,2)] assms(3) unfolding order_def target_def by blast

theorem eviction_takes_the_coldest_that_suffice_witness:
  "\<exists>a' st n. EvictToFit demo_wide_env demo_agentsys None demo_agent = (a', st, None) \<and> es_evicted st = n \<and>
     n \<le> length (evict_order (evict_pool demo_agent))"
proof -
  obtain a' st e where r: "EvictToFit demo_wide_env demo_agentsys None demo_agent = (a', st, e)" by (metis prod.collapse)
  have "key_fits demo_wide_env k \<and> as_unlink demo_agentsys k \<and> as_commit demo_agentsys k" for k
    by (simp add: demo_begin(2) demo_agentsys_def)
  with eviction_takes_the_coldest_that_suffice [OF demo_agent_inv r] r show ?thesis by blast
qed

text \<open>The agent between the scan and the upload, with nothing queued.\<close>

definition demo_idle :: agent where
  "demo_idle =
     demo_agent_with (demo_media_entry\<lparr>e_state := Dirty\<rparr>)
       \<lparr>s_objects = 1, s_bytes = 5, s_localObjects = 1, s_localBytes = 5, s_dirtyObjects = 1, s_dirtyBytes = 5\<rparr>"

lemma demo_idle_inv: "agent_inv demo_wide_env demo_idle"
proof -
  let ?a = "first_agent demo_agent_site [(''/b/a'', demo_file)] []"
  have "answered demo_agentsys" by (simp add: answered_def demo_agentsys_def)
  from Scan_inv [OF first_agent_inv [OF demo_begin] this, of "[(''/b/a'', demo_file)]" "[]"]
  have "agent_inv demo_wide_env demo_scanned" by (simp add: demo_scan)
  moreover have "agent_inv demo_wide_env demo_scanned = agent_inv demo_wide_env demo_idle"
    by (rule agent_inv_queue) (simp_all add: demo_scanned_def demo_idle_def)
  ultimately show ?thesis by simp
qed

lemma upload_attempts_bound:
  "upload_attempts as key left i b a = (a', r, ws) \<Longrightarrow>
   length ws \<le> left \<and> ws = map (\<lambda>j. b * 2 ^ j) [0..<length ws] \<and> (r = UpPending \<longleftrightarrow> length ws = left) \<and>
   (\<forall>n. r = UpDone n \<longrightarrow> n = length ws + i \<and> length ws < left)"
proof (induction as key left i b a arbitrary: a' r ws rule: upload_attempts.induct)
  case (2 as key left i b a)
  obtain a1 err where p: "cli_PutFile (as_send as key i) key (agent_path a key) a = (a1, err)" by force
  consider (stop) "ws = []" "r \<noteq> UpPending" "\<forall>n. r = UpDone n \<longrightarrow> n = i"
    | (again) e ws' where "err = Some e" "e \<noteq> CNotExist" "\<not> (case e of CApi status \<Rightarrow> \<not> Retryable status | _ \<Rightarrow> False)" "\<not> as_stop as i"
      "upload_attempts as key left (Suc i) (b * 2) a1 = (a', r, ws')" "ws = b # ws'"
    using "2.prems" p by (cases err) (auto split: if_splits prod.splits)
  then show ?case
  proof cases
    case again
    have "map (\<lambda>j. b * 2 ^ j) [0..<Suc n] = b # map (\<lambda>j. b * 2 * 2 ^ j) [0..<n]" for n
      by (simp add: upt_conv_Cons map_Suc_upt [symmetric] del: upt_Suc)
    with "2.IH" [OF p [symmetric] again(1-5)] again(6) show ?thesis by auto
  qed auto
qed auto

subsection \<open>Uploads\<close>

lemma workers_send_all:
  assumes inv: "agent_inv E a" and idle: "ag_queue a = []" "ag_pending a = []"
    and depth: "length (dirty_keys a) \<le> queueDepth"
    and ok: "\<And>k. k \<in> set (dirty_keys a) \<Longrightarrow> sendable E as a k"
  defines "a' \<equiv> (worker_turn E as ^^ length (dirty_keys a)) (sweep_tick a)"
  shows "ag_view a' k = map_option (\<lambda>e. if st_safe (e_state e) then e else e\<lparr>e_state := Synced\<rparr>) (ag_view a k)"
    and "ag_view a' k \<noteq> None \<longrightarrow> bk_get (ag_remote a') k \<noteq> None"
proof -
  have sub: "set (map e_key (filter P xs)) \<subseteq> set (map e_key xs)" for P and xs :: "entry list" by auto
  have dist: "distinct (dirty_keys a)"
    using site_entries_distinct [OF inv] by (simp add: dirty_keys_def distinct_map_filter)
  have mem: "x \<in> set (dirty_keys a) \<longleftrightarrow> (\<exists>e. ag_view a x = Some e \<and> \<not> st_safe (e_state e))" for x
    using site_entries_view [OF inv] ag_view_key [OF inv] by (auto simp: dirty_keys_def image_iff) 
  let ?s = "a\<lparr>ag_queue := dirty_keys a, ag_pending := rev (dirty_keys a)\<rparr>"
  have sw: "sweep_tick a = ?s"
    using sweep_walk [OF inv] Enqueue_all [OF dist, of a] idle depth by simp
  have sv: "ag_view ?s = ag_view a" by (simp add: ag_view_def agent_ns_def fun_eq_iff)
  have si: "agent_inv E ?s" using sweep_inv [OF inv] sw by simp
  have v: "ag_view a' = (\<lambda>x. if x \<in> set (dirty_keys a) then map_option (e_state_update (\<lambda>_. Synced)) (ag_view a x) else ag_view a x)"
    using workers_drain [OF si, of "dirty_keys a" as, unfolded sv] dist mem ok by (simp add: a'_def sw sendable_def)
  show "ag_view a' k = map_option (\<lambda>e. if st_safe (e_state e) then e else e\<lparr>e_state := Synced\<rparr>) (ag_view a k)" for k
    using mem [of k] by (cases "ag_view a k") (auto simp: v)
  note safe = this [of k]
  have "agent_inv E a'" unfolding a'_def by (rule workers_inv [OF sweep_inv [OF inv]])
  then show "ag_view a' k \<noteq> None \<longrightarrow> bk_get (ag_remote a') k \<noteq> None"
    using safe inv_holds [of E a' k] by (cases "ag_view a k") (auto simp: st_safe_def split: if_splits)
qed



lemma attempts_bounds:
  assumes "upload_attempts as key maxAttempts 1 baseBackoff a = (a', r, ws)"
  shows "length ws \<le> maxAttempts" "ws = map (\<lambda>i. 500000000 * 2 ^ i) [0..<length ws]"
    "sum_list ws \<le> 15500000000" "r = UpPending \<longleftrightarrow> length ws = maxAttempts"
    "r = UpDone n \<Longrightarrow> n = length ws + 1 \<and> n \<le> maxAttempts"
    "ag_db a' = ag_db a \<and> ag_disk a' = ag_disk a \<and> (\<forall>k. k \<noteq> key \<longrightarrow> bk_get (ag_remote a') k = bk_get (ag_remote a) k)"
proof -
  note b = upload_attempts_bound [OF assms]
  then show "length ws \<le> maxAttempts" "ws = map (\<lambda>i. 500000000 * 2 ^ i) [0..<length ws]" "r = UpPending \<longleftrightarrow> length ws = maxAttempts"
    "r = UpDone n \<Longrightarrow> n = length ws + 1 \<and> n \<le> maxAttempts" by (simp_all add: baseBackoff_def)
  from b have "length ws \<le> 5" by (simp add: maxAttempts_def)
  then have "length ws = 0 \<or> length ws = 1 \<or> length ws = 2 \<or> length ws = 3 \<or> length ws = 4 \<or> length ws = 5" by linarith
  then have "sum_list (map (\<lambda>i. 500000000 * 2 ^ i :: int) [0..<length ws]) \<le> 15500000000" by (elim disjE) (simp_all add: upt_rec)
  then show "sum_list ws \<le> 15500000000" using b by (simp add: baseBackoff_def)
  show "ag_db a' = ag_db a \<and> ag_disk a' = ag_disk a \<and> (\<forall>k. k \<noteq> key \<longrightarrow> bk_get (ag_remote a') k = bk_get (ag_remote a) k)"
    using upload_attempts_effect [OF assms] by blast
qed



subsection \<open>Keys and paths\<close>

text \<open>
  A key and its path determine each other.  The key of a file is a clean relative
  path whose place below the backing directory is that file, and every such key is the
  key of its path.
\<close>

theorem keys_and_paths_agree:
  assumes "isAbs backing"
  shows "isAbs p \<Longrightarrow> keyOf backing p = Some k \<Longrightarrow> key_ok k \<and> pathOf backing k = path_clean p"
    "key_ok k \<Longrightarrow> keyOf backing (pathOf backing k) = Some k"
  by (simp_all add: keyOf_key_ok [OF assms] keyOf_pathOf [OF assms])

theorem keys_and_paths_agree_witness:
  "key_ok ''a/b.jpg'' \<and> pathOf ''/b'' ''a/b.jpg'' = ''/b/a/b.jpg'' \<and> keyOf ''/b'' (pathOf ''/b'' ''a/b.jpg'') = Some ''a/b.jpg''"
proof -
  have abs: "isAbs ''/b''" "isAbs ''/b/./a//b.jpg''" by (simp_all add: isAbs_def)
  have k: "keyOf ''/b'' ''/b/./a//b.jpg'' = Some ''a/b.jpg''" "path_clean ''/b/./a//b.jpg'' = ''/b/a/b.jpg''" by code_simp+
  from keys_and_paths_agree(1) [OF abs(1,2) k(1)] k(2) keys_and_paths_agree(2) [OF abs(1), of "''a/b.jpg''"]
  show ?thesis by simp
qed

text \<open>A file whose name begins with two dots has no key, and is never sent.\<close>

lemma dotted_names_are_never_synced: "keyOf ''/b'' ''/b/..hidden.jpg'' = None"
  by code_simp

subsection \<open>Evicting and recalling\<close>



text \<open>
  An eviction looks at the index and not at the file: a change the agent has not noticed
  yet is deleted with it, and the store keeps the old bytes.
\<close>

lemma unnoticed_change_is_evicted:
  "map fst (ag_disk (fst (agent_Evict demo_wide_env demo_agentsys ''a''
     (demo_agent\<lparr>ag_disk := [(''/b/a'', demo_file\<lparr>lf_data := ''world'', lf_mtime := 9\<rparr>)]\<rparr>)))) = []"
  by code_simp

end
