(* ===== verification/S3Errors.thy ===== *)
theory S3Errors
  imports Types
begin

text \<open>
  internal/s3/errors.go: the errors the S3 front end answers with, each with the HTTP
  status and the code a client decides by.  A status of 0 is sent as 500.
\<close>

record apierr =
  er_code :: string
  er_message :: string
  er_resource :: string
  er_status :: nat

definition er_Status :: "apierr \<Rightarrow> nat" where
  "er_Status e = (if er_status e = 0 then 500 else er_status e)"

definition er_Error :: "apierr \<Rightarrow> string" where
  "er_Error e = er_code e @ '': '' @ er_message e"

definition errorf :: "nat \<Rightarrow> string \<Rightarrow> string \<Rightarrow> apierr" where
  "errorf status code message = \<lparr>er_code = code, er_message = message, er_resource = [], er_status = status\<rparr>"

definition errNoSuchBucket :: apierr where
  "errNoSuchBucket = errorf 404 ''NoSuchBucket'' ''The specified bucket does not exist''"

definition errNoSuchKey :: apierr where
  "errNoSuchKey = errorf 404 ''NoSuchKey'' ''The specified key does not exist''"

definition errNoSuchUpload :: apierr where
  "errNoSuchUpload = errorf 404 ''NoSuchUpload'' ''The specified multipart upload does not exist''"

definition errAccessDenied :: apierr where
  "errAccessDenied = errorf 403 ''AccessDenied'' ''Access Denied''"

definition errInvalidAccessKeyID :: apierr where
  "errInvalidAccessKeyID = errorf 403 ''InvalidAccessKeyId'' ''The access key ID does not exist in our records''"

definition errSignatureMismatch :: apierr where
  "errSignatureMismatch = errorf 403 ''SignatureDoesNotMatch''
     ''The request signature we calculated does not match the signature you provided''"

definition errMissingAuth :: apierr where
  "errMissingAuth = errorf 403 ''MissingSecurityHeader'' ''The request is missing its authentication header''"

definition errRequestExpired :: apierr where
  "errRequestExpired = errorf 403 ''RequestTimeTooSkewed''
     (''The difference between the request time and the server'' @ [CHR 0x27] @ ''s time is too large'')"

definition errInvalidRequest :: "string \<Rightarrow> apierr" where
  "errInvalidRequest msg = errorf 400 ''InvalidRequest'' msg"

definition errInvalidArgument :: "string \<Rightarrow> apierr" where
  "errInvalidArgument msg = errorf 400 ''InvalidArgument'' msg"

definition errMalformedXML :: apierr where
  "errMalformedXML = errorf 400 ''MalformedXML'' ''The XML you provided was not well-formed''"

definition errInvalidDigest :: apierr where
  "errInvalidDigest = errorf 400 ''BadDigest'' ''The content sent did not match the checksum the client declared''"

definition errInvalidPart :: apierr where
  "errInvalidPart = errorf 400 ''InvalidPart''
     ''One or more of the requested parts was not found or its entity tag did not match''"

definition errEntityTooLarge :: apierr where
  "errEntityTooLarge = errorf 400 ''EntityTooLarge'' ''The upload exceeds the maximum allowed object size''"

definition errInvalidRange :: apierr where
  "errInvalidRange = errorf 416 ''InvalidRange'' ''The requested range is not satisfiable''"

definition errNotImplemented :: "string \<Rightarrow> apierr" where
  "errNotImplemented what = errorf 501 ''NotImplemented''
     (''tana does not implement '' @ what @ '': it is sized for WordPress media, not for general S3'')"

definition errInternal :: apierr where
  "errInternal = errorf 500 ''InternalError'' ''We encountered an internal error. Please try again.''"

end
