(* ===== verification/Sigv4.thy ===== *)
theory Sigv4
  imports S3Errors ConfigLoad
begin

text \<open>
  internal/s3/sigv4.go: AWS Signature Version 4 as the store verifies it.  A request is
  what net/http hands the handler: the method, the host, the decoded path and its escaped
  form, the query and the headers by name, the declared length and the body.  The MAC,
  the time formats and quoting are those of \<open>crypto\<close>; SHA-256 is the environment's.
\<close>

unbundle bit_operations_syntax

subsection \<open>Requests\<close>

type_synonym urlvals = "(string \<times> string list) list"

record httpreq =
  rq_method :: string
  rq_host :: string
  rq_urlHost :: string
  rq_path :: string
  rq_escaped :: string
  rq_rawQuery :: string
  rq_query :: urlvals
  rq_header :: urlvals
  rq_length :: int
  rq_body :: "string \<times> gerr option"

record crypto =
  cr_hmac :: "string \<Rightarrow> string \<Rightarrow> string"
  cr_amzDate :: "gotime \<Rightarrow> string"
  cr_shortDate :: "gotime \<Rightarrow> string"
  cr_parseAmz :: "string \<Rightarrow> gotime option"
  cr_parseHTTP :: "string \<Rightarrow> gotime option"
  cr_quote :: "string \<Rightarrow> string"

text \<open>\<open>url.Values.Get\<close> and \<open>Has\<close>; \<open>Header.Get\<close> and \<open>Values\<close> of a canonical name.\<close>

definition val_all :: "urlvals \<Rightarrow> string \<Rightarrow> string list" where
  "val_all q k = (case map_of q k of None \<Rightarrow> [] | Some vs \<Rightarrow> vs)"

definition val_get :: "urlvals \<Rightarrow> string \<Rightarrow> string" where
  "val_get q k = (case val_all q k of [] \<Rightarrow> [] | v # _ \<Rightarrow> v)"

definition val_has :: "urlvals \<Rightarrow> string \<Rightarrow> bool" where
  "val_has q k \<longleftrightarrow> map_of q k \<noteq> None"

definition lower_char :: "char \<Rightarrow> char" where
  "lower_char c = (if 65 \<le> (of_char c :: nat) \<and> (of_char c :: nat) \<le> 90 then char_of (of_char c + 32 :: nat) else c)"

definition token_char :: "char \<Rightarrow> bool" where
  "token_char c \<longleftrightarrow> is_digit c \<or> (65 \<le> (of_char c :: nat) \<and> (of_char c :: nat) \<le> 90) \<or>
     (97 \<le> (of_char c :: nat) \<and> (of_char c :: nat) \<le> 122) \<or> c \<in> set ''!#$%&*+-.^_|~'' \<or> c = CHR 0x27 \<or> c = CHR 0x60"

fun canon_chars :: "bool \<Rightarrow> string \<Rightarrow> string" where
  "canon_chars up [] = []"
| "canon_chars up (c # cs) = (if up then upper_char c else lower_char c) # canon_chars (c = CHR ''-'') cs"

text \<open>\<open>http.CanonicalHeaderKey\<close>: a name that is not a token is left alone.\<close>

definition CanonicalHeaderKey :: "string \<Rightarrow> string" where
  "CanonicalHeaderKey s = (if list_all token_char s then canon_chars True s else s)"

text \<open>\<open>strings.Split\<close> at one byte, \<open>strings.Join\<close>, \<open>strings.Fields\<close>.\<close>

fun split_on :: "char \<Rightarrow> string \<Rightarrow> string list" where
  "split_on d [] = [[]]"
| "split_on d (c # cs) =
     (if c = d then [] # split_on d cs
      else (case split_on d cs of [] \<Rightarrow> [[c]] | w # ws \<Rightarrow> (c # w) # ws))"

fun join_with :: "string \<Rightarrow> string list \<Rightarrow> string" where
  "join_with d [] = []"
| "join_with d [p] = p"
| "join_with d (p # q # ps) = p @ d @ join_with d (q # ps)"

lemma str_fields_shorter: "dropWhile P s = c # cs \<Longrightarrow> length (dropWhile (\<lambda>x. \<not> P x) (c # cs)) < length s"
proof -
  assume a: "dropWhile P s = c # cs"
  then have "\<not> P c" by (metis dropWhile_eq_Cons_conv)
  then have "length (dropWhile (\<lambda>x. \<not> P x) (c # cs)) \<le> length cs" by (simp add: length_dropWhile_le)
  also have "\<dots> < length (dropWhile P s)" using a by simp
  also have "\<dots> \<le> length s" by (rule length_dropWhile_le)
  finally show ?thesis .
qed

function str_fields :: "string \<Rightarrow> string list" where
  "str_fields s =
     (case dropWhile is_space s of
        [] \<Rightarrow> []
      | c # cs \<Rightarrow> takeWhile (\<lambda>x. \<not> is_space x) (c # cs) # str_fields (dropWhile (\<lambda>x. \<not> is_space x) (c # cs)))"
  by pat_completeness auto
termination
  by (relation "measure length") (use str_fields_shorter in fastforce)+

declare str_fields.simps [simp del]

subsection \<open>Hexadecimal\<close>

definition lower_hex :: "nat \<Rightarrow> char" where
  "lower_hex n = (if n < 10 then char_of (48 + n) else char_of (87 + n))"

definition upper_hex :: "nat \<Rightarrow> char" where
  "upper_hex n = (if n < 10 then char_of (48 + n) else char_of (55 + n))"

definition char_hi :: "char \<Rightarrow> nat" where "char_hi c = of_char c div 16"
definition char_lo :: "char \<Rightarrow> nat" where "char_lo c = of_char c mod 16"

fun hex_encode :: "string \<Rightarrow> string" where
  "hex_encode [] = []"
| "hex_encode (c # cs) = lower_hex (char_hi c) # lower_hex (char_lo c) # hex_encode cs"

subsection \<open>The canonical request\<close>

definition algorithm :: string where "algorithm = ''AWS4-HMAC-SHA256''"
definition service :: string where "service = ''s3''"
definition terminator :: string where "terminator = ''aws4_request''"
definition unsignedPayload :: string where "unsignedPayload = ''UNSIGNED-PAYLOAD''"
definition streamingSigned :: string where "streamingSigned = ''STREAMING-AWS4-HMAC-SHA256-PAYLOAD''"
definition streamingSignedTrailer :: string where
  "streamingSignedTrailer = ''STREAMING-AWS4-HMAC-SHA256-PAYLOAD-TRAILER''"
definition streamingUnsignedTrailer :: string where
  "streamingUnsignedTrailer = ''STREAMING-UNSIGNED-PAYLOAD-TRAILER''"
definition maxSkew :: duration where "maxSkew = 15 * 60 * 1000000000"

definition unreserved :: "char \<Rightarrow> bool" where
  "unreserved c \<longleftrightarrow>
     c \<in> set ''ABCDEFGHIJKLMNOPQRSTUVWXYZabcdefghijklmnopqrstuvwxyz0123456789-_.~''"

fun uriEncode :: "string \<Rightarrow> string" where
  "uriEncode [] = []"
| "uriEncode (c # s) =
     (if unreserved c then c # uriEncode s
      else CHR ''%'' # upper_hex (char_hi c) # upper_hex (char_lo c) # uriEncode s)"

text \<open>The pairs in the order the query is written: names in order, the values of a name in order.\<close>

definition query_pairs :: "urlvals \<Rightarrow> (string \<times> string) list" where
  "query_pairs q = concat (map (\<lambda>k. map (\<lambda>v. (k, v)) (sort (val_all q k))) (sort (map fst q)))"

fun write_pairs :: "string \<Rightarrow> (string \<times> string) list \<Rightarrow> string" where
  "write_pairs b [] = b"
| "write_pairs b ((k, v) # ps) =
     write_pairs ((if b = [] then b else b @ ''&'') @ uriEncode k @ ''='' @ uriEncode v) ps"

definition canonicalQuery :: "urlvals \<Rightarrow> string" where
  "canonicalQuery q = write_pairs [] (query_pairs q)"

definition canonicalURI :: "httpreq \<Rightarrow> string" where
  "canonicalURI r =
     (if rq_escaped r = [] then ''/''
      else join_with ''/'' (map uriEncode (split_on (CHR ''/'') (rq_path r))))"

definition canonicalHeaderValue :: "httpreq \<Rightarrow> string \<Rightarrow> string" where
  "canonicalHeaderValue r name =
     (if name = ''host'' then (if rq_host r \<noteq> [] then rq_host r else rq_urlHost r)
      else join_with '','' (map (\<lambda>v. join_with '' '' (str_fields v)) (val_all (rq_header r) (CanonicalHeaderKey name))))"

definition header_lines :: "httpreq \<Rightarrow> string list \<Rightarrow> string" where
  "header_lines r names = concat (map (\<lambda>name. name @ '':'' @ canonicalHeaderValue r name @ [NL]) names)"

definition canonicalRequest :: "httpreq \<Rightarrow> string list \<Rightarrow> string \<Rightarrow> urlvals option \<Rightarrow> string" where
  "canonicalRequest r signedHeaders payloadHash query =
     (let q = (case query of None \<Rightarrow> rq_query r | Some q \<Rightarrow> q); names = sort signedHeaders
      in join_with [NL]
           [rq_method r, canonicalURI r, canonicalQuery q, header_lines r names, join_with '';'' names, payloadHash])"

subsection \<open>The signature\<close>

definition stringToSign :: "env \<Rightarrow> crypto \<Rightarrow> gotime \<Rightarrow> string \<Rightarrow> string \<Rightarrow> string" where
  "stringToSign E C when scope canonical =
     join_with [NL] [algorithm, cr_amzDate C when, scope, sha256_hex E canonical]"

definition signingKey :: "crypto \<Rightarrow> string \<Rightarrow> gotime \<Rightarrow> string \<Rightarrow> string" where
  "signingKey C secret when region =
     (let k = cr_hmac C (''AWS4'' @ secret) (cr_shortDate C when);
          k = cr_hmac C k region;
          k = cr_hmac C k service
      in cr_hmac C k terminator)"

definition sign_with :: "crypto \<Rightarrow> string \<Rightarrow> gotime \<Rightarrow> string \<Rightarrow> string \<Rightarrow> string" where
  "sign_with C secret when region sts = hex_encode (cr_hmac C (signingKey C secret when region) sts)"

definition emptyPayloadHash :: "env \<Rightarrow> string" where
  "emptyPayloadHash E = sha256_hex E []"

subsection \<open>Verification\<close>

record credentials =
  cd_accessKey :: string
  cd_secretKey :: string
  cd_bucket :: string

record signature =
  sg_creds :: credentials
  sg_scope :: string
  sg_date :: gotime
  sg_seed :: string
  sg_payload :: string
  sg_presigned :: bool

definition streaming :: "signature \<Rightarrow> bool" where
  "streaming s \<longleftrightarrow>
     sg_payload s = streamingSigned \<or> sg_payload s = streamingSignedTrailer \<or> sg_payload s = streamingUnsignedTrailer"

definition chunksSigned :: "signature \<Rightarrow> bool" where
  "chunksSigned s \<longleftrightarrow> sg_payload s = streamingSigned \<or> sg_payload s = streamingSignedTrailer"

record verifier =
  vf_lookup :: "string \<Rightarrow> credentials option"
  vf_region :: string
  vf_now :: gotime

definition resolve :: "crypto \<Rightarrow> verifier \<Rightarrow> string \<Rightarrow> apierr + (credentials \<times> string)" where
  "resolve C v credential =
     (case split_on (CHR ''/'') credential of
        [accessKey, day, region, svc, term] \<Rightarrow>
          if region \<noteq> vf_region v then
            Inl (errInvalidRequest (''credential scope region '' @ cr_quote C region @
                   '' does not match the store region '' @ cr_quote C (vf_region v)))
          else if svc \<noteq> service \<or> term \<noteq> terminator then Inl (errInvalidRequest ''malformed credential scope'')
          else
            (case vf_lookup v accessKey of
               None \<Rightarrow> Inl errInvalidAccessKeyID
             | Some creds \<Rightarrow> Inr (creds, join_with ''/'' [day, region, svc, term]))
      | _ \<Rightarrow> Inl (errInvalidRequest ''malformed credential scope''))"

definition requestTime :: "crypto \<Rightarrow> verifier \<Rightarrow> string \<Rightarrow> string \<Rightarrow> apierr + gotime" where
  "requestTime C v amzDate httpDate =
     (if amzDate = [] \<and> httpDate = [] then Inl (errInvalidRequest ''missing X-Amz-Date'')
      else
        (case (if amzDate \<noteq> [] then cr_parseAmz C amzDate else cr_parseHTTP C httpDate) of
           None \<Rightarrow> Inl (errInvalidRequest ''malformed request date'')
         | Some when \<Rightarrow>
             let d = time_sub (vf_now v) when in
             if maxSkew < d \<or> d < - maxSkew then Inl errRequestExpired else Inr when))"

text \<open>The parts of the \<open>Authorization\<close> header; the last one of a name wins.\<close>

definition auth_part :: "string \<Rightarrow> string \<times> string \<times> string \<Rightarrow> string \<times> string \<times> string" where
  "auth_part part acc =
     (case acc of (credential, signedHeaders, provided) \<Rightarrow>
        (case cut_at (CHR ''='') (trim_space part) of
           (_, None) \<Rightarrow> acc
         | (k, Some val) \<Rightarrow>
             if k = ''Credential'' then (val, signedHeaders, provided)
             else if k = ''SignedHeaders'' then (credential, val, provided)
             else if k = ''Signature'' then (credential, signedHeaders, val)
             else acc))"

definition auth_fields :: "string \<Rightarrow> string \<times> string \<times> string" where
  "auth_fields rest = fold auth_part (split_on (CHR '','') rest) ([], [], [])"

definition verifyHeader :: "env \<Rightarrow> crypto \<Rightarrow> verifier \<Rightarrow> httpreq \<Rightarrow> apierr + signature" where
  "verifyHeader E C v r =
     (let auth = val_get (rq_header r) ''Authorization'' in
      if auth = [] then Inl errMissingAuth
      else
        (case cut_prefix auth (algorithm @ '' '') of
           None \<Rightarrow> Inl (errInvalidRequest ''unsupported authorization algorithm'')
         | Some rest \<Rightarrow>
             (case auth_fields rest of (credential, signedHeaders, provided) \<Rightarrow>
                if credential = [] \<or> signedHeaders = [] \<or> provided = []
                then Inl (errInvalidRequest ''malformed authorization header'')
                else
                  (case resolve C v credential of
                     Inl e \<Rightarrow> Inl e
                   | Inr (creds, scope) \<Rightarrow>
                       (case requestTime C v (val_get (rq_header r) ''X-Amz-Date'') (val_get (rq_header r) ''Date'') of
                          Inl e \<Rightarrow> Inl e
                        | Inr when \<Rightarrow>
                            let payload = val_get (rq_header r) ''X-Amz-Content-Sha256'' in
                            if payload = [] then Inl (errInvalidRequest ''missing X-Amz-Content-Sha256'')
                            else
                              let canonical = canonicalRequest r (split_on (CHR '';'') signedHeaders) payload None;
                                  expected = sign_with C (cd_secretKey creds) when (vf_region v) (stringToSign E C when scope canonical)
                              in if expected \<noteq> provided then Inl errSignatureMismatch
                                 else Inr \<lparr>sg_creds = creds, sg_scope = scope, sg_date = when, sg_seed = expected,
                                           sg_payload = payload, sg_presigned = False\<rparr>)))))"

definition verifyPresigned :: "env \<Rightarrow> crypto \<Rightarrow> verifier \<Rightarrow> httpreq \<Rightarrow> apierr + signature" where
  "verifyPresigned E C v r =
     (let q = rq_query r; credential = val_get q ''X-Amz-Credential'';
          signedHeaders = val_get q ''X-Amz-SignedHeaders''; provided = val_get q ''X-Amz-Signature'' in
      if val_get q ''X-Amz-Algorithm'' \<noteq> algorithm then Inl (errInvalidRequest ''unsupported presigned algorithm'')
      else if credential = [] \<or> signedHeaders = [] then Inl (errInvalidRequest ''malformed presigned request'')
      else
        (case resolve C v credential of
           Inl e \<Rightarrow> Inl e
         | Inr (creds, scope) \<Rightarrow>
             (case cr_parseAmz C (val_get q ''X-Amz-Date'') of
                None \<Rightarrow> Inl (errInvalidRequest ''malformed X-Amz-Date'')
              | Some when \<Rightarrow>
                  (case parse_int (val_get q ''X-Amz-Expires'') of
                     None \<Rightarrow> Inl (errInvalidRequest ''malformed X-Amz-Expires'')
                   | Some expires \<Rightarrow>
                       if expires \<le> 0 then Inl (errInvalidRequest ''malformed X-Amz-Expires'')
                       else if when + wrap64 (expires * 1000000000) < vf_now v then Inl errRequestExpired
                       else
                         let filtered = filter (\<lambda>p. fst p \<noteq> ''X-Amz-Signature'') q;
                             canonical = canonicalRequest r (split_on (CHR '';'') signedHeaders) unsignedPayload (Some filtered);
                             expected = sign_with C (cd_secretKey creds) when (vf_region v) (stringToSign E C when scope canonical)
                         in if expected \<noteq> provided then Inl errSignatureMismatch
                            else Inr \<lparr>sg_creds = creds, sg_scope = scope, sg_date = when, sg_seed = expected,
                                      sg_payload = unsignedPayload, sg_presigned = True\<rparr>))))"

definition verify_request :: "env \<Rightarrow> crypto \<Rightarrow> verifier \<Rightarrow> httpreq \<Rightarrow> apierr + signature" where
  "verify_request E C v r =
     (if val_get (rq_query r) ''X-Amz-Signature'' \<noteq> [] then verifyPresigned E C v r else verifyHeader E C v r)"

end
