(* ===== verification/Sigv4Laws.thy ===== *)
theory Sigv4Laws
  imports Sigv4
begin

text \<open>
  What a verified signature binds.  Percent-encoding, the query string and the path can
  be read back, so a canonical request determines the method, the path, the query, the
  values of the signed headers and the payload digest; two requests the verifier accepts
  under one signature agree in all of them unless a digest collides.
\<close>

subsection \<open>Encodings can be read back\<close>

lemma upper_hex_inj: "a < 16 \<Longrightarrow> b < 16 \<Longrightarrow> upper_hex a = upper_hex b \<Longrightarrow> a = b"
proof -
  assume ab: "a < 16" "b < 16" "upper_hex a = upper_hex b"
  have v: "n < 16 \<Longrightarrow> (of_char (upper_hex n) :: nat) = (if n < 10 then 48 + n else 55 + n)" for n
    by (simp add: upper_hex_def)
  from arg_cong [OF ab(3), of "of_char :: char \<Rightarrow> nat"] show "a = b"
    using v [OF ab(1)] v [OF ab(2)] ab(1,2) by (simp split: if_splits)
qed

lemma lower_hex_inj: "a < 16 \<Longrightarrow> b < 16 \<Longrightarrow> lower_hex a = lower_hex b \<Longrightarrow> a = b"
proof -
  assume ab: "a < 16" "b < 16" "lower_hex a = lower_hex b"
  have v: "n < 16 \<Longrightarrow> (of_char (lower_hex n) :: nat) = (if n < 10 then 48 + n else 87 + n)" for n
    by (simp add: lower_hex_def)
  from arg_cong [OF ab(3), of "of_char :: char \<Rightarrow> nat"] show "a = b"
    using v [OF ab(1)] v [OF ab(2)] ab(1,2) by (simp split: if_splits)
qed

lemma char_nibbles: "char_hi c < 16" "char_lo c < 16"
  unfolding char_hi_def char_lo_def by (rule less_mult_imp_div_less) simp_all

lemma char_eq_nibbles: "char_hi c = char_hi d \<Longrightarrow> char_lo c = char_lo d \<Longrightarrow> c = d"
proof -
  assume "char_hi c = char_hi d" "char_lo c = char_lo d"
  then have "(of_char c :: nat) = of_char d" unfolding char_hi_def char_lo_def by (metis div_mult_mod_eq)
  then show "c = d" by simp
qed

lemma hex_encode_inj: "hex_encode s = hex_encode t \<Longrightarrow> s = t"
proof (induction s arbitrary: t)
  case Nil
  then show ?case by (cases t) auto
next
  case (Cons c s)
  then obtain d t' where t: "t = d # t'" by (cases t) auto
  have e: "lower_hex (char_hi c) = lower_hex (char_hi d)" "lower_hex (char_lo c) = lower_hex (char_lo d)"
    using Cons.prems t by simp_all
  have "c = d"
    by (rule char_eq_nibbles) (rule lower_hex_inj [OF char_nibbles(1) char_nibbles(1) e(1)], rule lower_hex_inj [OF char_nibbles(2) char_nibbles(2) e(2)])
  with Cons t show ?case by simp
qed

lemma unreserved_percent [simp]: "\<not> unreserved (CHR ''%'')"
  by (simp add: unreserved_def)

lemma uriEncode_inj: "uriEncode s = uriEncode t \<Longrightarrow> s = t"
proof (induction s arbitrary: t)
  case Nil
  then show ?case by (cases t) (auto split: if_splits)
next
  case (Cons c s)
  then obtain d t' where t: "t = d # t'" by (cases t) (auto split: if_splits)
  show ?case
  proof (cases "unreserved c \<or> unreserved d")
    case True
    with Cons t show ?thesis by (auto split: if_splits)
  next
    case False
    then have e: "upper_hex (char_hi c) = upper_hex (char_hi d)" "upper_hex (char_lo c) = upper_hex (char_lo d)"
      using Cons.prems t by simp_all
    have "c = d"
      by (rule char_eq_nibbles) (rule upper_hex_inj [OF char_nibbles(1) char_nibbles(1) e(1)], rule upper_hex_inj [OF char_nibbles(2) char_nibbles(2) e(2)])
    with False Cons t show ?thesis by simp
  qed
qed

lemma upper_hex_plain: "n < 16 \<Longrightarrow> unreserved (upper_hex n)"
proof -
  assume "n < 16"
  moreover have "list_all (\<lambda>n. unreserved (upper_hex n)) [0..<16]" by code_simp
  ultimately show ?thesis by (simp add: list_all_iff)
qed

lemma lower_hex_plain: "n < 16 \<Longrightarrow> unreserved (lower_hex n)"
proof -
  assume "n < 16"
  moreover have "list_all (\<lambda>n. unreserved (lower_hex n)) [0..<16]" by code_simp
  ultimately show ?thesis by (simp add: list_all_iff)
qed

lemma hex_encode_plain: "c \<in> set (hex_encode s) \<Longrightarrow> unreserved c"
  by (induction s) (auto simp: char_nibbles lower_hex_plain)

lemma unreserved_not_space: "unreserved c \<Longrightarrow> \<not> is_space c"
  by (auto simp: unreserved_def is_space_def)

lemma trim_space_plain: "s \<noteq> [] \<Longrightarrow> \<not> is_space (hd s) \<Longrightarrow> \<not> is_space (last s) \<Longrightarrow> trim_space s = s"
proof -
  assume s: "s \<noteq> []" "\<not> is_space (hd s)" "\<not> is_space (last s)"
  have "dropWhile is_space s = s" using s(1,2) by (cases s) simp_all
  moreover have "dropWhile is_space (rev s) = rev s" using s(1,3) by (cases s rule: rev_cases) simp_all
  ultimately show ?thesis by (simp add: trim_space_def)
qed

lemma trim_space_lead: "trim_space (CHR '' '' # s) = trim_space s"
  by (simp add: trim_space_def is_space_def)

text \<open>An encoded string has no separator of any kind in it.\<close>

lemma uriEncode_plain: "c \<in> set (uriEncode s) \<Longrightarrow> unreserved c \<or> c = CHR ''%''"
  by (induction s) (auto simp: upper_hex_plain char_nibbles split: if_splits)

lemma uriEncode_no_sep [simp]:
  "CHR ''/'' \<notin> set (uriEncode s)" "CHR ''&'' \<notin> set (uriEncode s)" "CHR ''='' \<notin> set (uriEncode s)" "NL \<notin> set (uriEncode s)"
  by (auto dest!: uriEncode_plain simp: unreserved_def NL_def)

subsection \<open>Splitting and joining\<close>

lemma split_on_nonempty [simp]: "split_on d s \<noteq> []"
  by (induction s) (auto split: list.splits)

lemma split_on_parts: "w \<in> set (split_on d s) \<Longrightarrow> d \<notin> set w"
  by (induction s arbitrary: w) (auto split: list.splits if_splits)

lemma split_on_plain: "d \<notin> set w \<Longrightarrow> split_on d w = [w]"
  by (induction w) auto

lemma split_on_append: "split_on d (x @ d # y) = split_on d x @ split_on d y"
proof (induction x)
  case (Cons c x)
  then show ?case by (cases "split_on d x") auto
qed simp

lemma join_with_Cons: "ps \<noteq> [] \<Longrightarrow> join_with d (p # ps) = p @ d @ join_with d ps"
  by (cases ps) auto

lemma join_split_on: "join_with [d] (split_on d s) = s"
proof (induction s)
  case (Cons c s)
  obtain w ws where "split_on d s = w # ws" by (cases "split_on d s") auto
  with Cons show ?case by (cases ws) (auto simp: join_with_Cons)
qed simp

lemma split_join_with: "ps \<noteq> [] \<Longrightarrow> \<forall>w \<in> set ps. d \<notin> set w \<Longrightarrow> split_on d (join_with [d] ps) = ps"
proof (induction "[d]" ps rule: join_with.induct)
  case (3 p q ps)
  then show ?case by (simp add: split_on_append split_on_plain)
qed (auto simp: split_on_plain)

lemma join_with_inj:
  assumes "ps \<noteq> []" "qs \<noteq> []" "\<forall>w \<in> set ps. d \<notin> set w" "\<forall>w \<in> set qs. d \<notin> set w" "join_with [d] ps = join_with [d] qs"
  shows "ps = qs"
  using split_join_with [OF assms(1,3)] split_join_with [OF assms(2,4)] assms(5) by metis

lemma split_on_inj: "split_on d s = split_on d t \<Longrightarrow> s = t"
  by (metis join_split_on)

lemma set_join_with: "c \<in> set (join_with d ps) \<Longrightarrow> c \<in> set d \<or> (\<exists>p \<in> set ps. c \<in> set p)"
  by (induction d ps rule: join_with.induct) auto

lemma set_split_on: "w \<in> set (split_on d s) \<Longrightarrow> set w \<subseteq> set s"
proof -
  assume w: "w \<in> set (split_on d s)"
  have "c \<in> set w \<Longrightarrow> c \<in> set (join_with [d] ps)" if "w \<in> set ps" for c and ps :: "string list"
    using that by (induction "[d]" ps rule: join_with.induct) auto
  from this [OF w] show "set w \<subseteq> set s" by (auto simp: join_split_on)
qed

subsection \<open>The canonical path and query\<close>

definition uri_path :: "string \<Rightarrow> string" where
  "uri_path p = join_with ''/'' (map uriEncode (split_on (CHR ''/'') p))"

lemma uri_path_inj: "uri_path p = uri_path q \<Longrightarrow> p = q"
proof -
  assume "uri_path p = uri_path q"
  then have "map uriEncode (split_on (CHR ''/'') p) = map uriEncode (split_on (CHR ''/'') q)"
    unfolding uri_path_def by (intro join_with_inj [where d = "CHR ''/''"]) auto
  then have "split_on (CHR ''/'') p = split_on (CHR ''/'') q"
    using uriEncode_inj by (metis list.inj_map_strong)
  then show ?thesis by (rule split_on_inj)
qed

lemma uri_path_no_NL: "NL \<notin> set (uri_path p)"
  unfolding uri_path_def by (auto dest!: set_join_with simp: NL_def) (simp_all flip: NL_def)

definition pair_text :: "string \<times> string \<Rightarrow> string" where
  "pair_text p = uriEncode (fst p) @ ''='' @ uriEncode (snd p)"

lemma write_pairs_join: "b \<noteq> [] \<Longrightarrow> write_pairs b ps = join_with ''&'' (b # map pair_text ps)"
proof (induction b ps rule: write_pairs.induct)
  case (2 b k v ps)
  then show ?case by (cases ps) (simp_all add: pair_text_def)
qed simp

lemma canonicalQuery_join: "canonicalQuery q = join_with ''&'' (map pair_text (query_pairs q))"
proof (cases "query_pairs q")
  case (Cons p ps)
  then show ?thesis by (cases p) (simp add: canonicalQuery_def write_pairs_join pair_text_def)
qed (simp add: canonicalQuery_def)

lemma pair_text_inj: "pair_text a = pair_text b \<Longrightarrow> a = b"
proof -
  assume "pair_text a = pair_text b"
  then have "cut_at (CHR ''='') (uriEncode (fst a) @ CHR ''='' # uriEncode (snd a)) =
      cut_at (CHR ''='') (uriEncode (fst b) @ CHR ''='' # uriEncode (snd b))" by (simp add: pair_text_def)
  then have "uriEncode (fst a) = uriEncode (fst b)" "uriEncode (snd a) = uriEncode (snd b)"
    by (simp_all add: cut_at_append)
  then show "a = b" using uriEncode_inj by (auto simp: prod_eq_iff)
qed

lemma pair_text_props: "pair_text p \<noteq> []" "CHR ''&'' \<notin> set (pair_text p)" "NL \<notin> set (pair_text p)"
  by (auto simp: pair_text_def) (auto simp: NL_def)

lemma canonicalQuery_inj: "canonicalQuery q = canonicalQuery q' \<Longrightarrow> query_pairs q = query_pairs q'"
proof -
  assume e: "canonicalQuery q = canonicalQuery q'"
  have empty: "join_with ''&'' (map pair_text ps) = [] \<longleftrightarrow> ps = []" for ps
    by (cases ps rule: list.exhaust; cases "tl ps") (auto simp: pair_text_props)
  have "map pair_text (query_pairs q) = map pair_text (query_pairs q')"
  proof (cases "query_pairs q = [] \<or> query_pairs q' = []")
    case True
    with e empty show ?thesis unfolding canonicalQuery_join by metis
  next
    case False
    with e show ?thesis unfolding canonicalQuery_join
      by (intro join_with_inj [where d = "CHR ''&''"]) (auto simp: pair_text_props)
  qed
  then show ?thesis using pair_text_inj by (metis list.inj_map_strong)
qed

lemma canonicalQuery_no_NL: "NL \<notin> set (canonicalQuery q)"
  unfolding canonicalQuery_join by (auto dest!: set_join_with simp: pair_text_props) (auto simp: NL_def)

subsection \<open>The canonical request\<close>

lemma cut_line: "a @ NL # b = a' @ NL # b' \<Longrightarrow> NL \<notin> set a \<Longrightarrow> NL \<notin> set a' \<Longrightarrow> a = a' \<and> b = b'"
  by (metis cut_at_append option.inject prod.inject)

lemma cut_last_line: "a @ NL # b = a' @ NL # b' \<Longrightarrow> NL \<notin> set b \<Longrightarrow> NL \<notin> set b' \<Longrightarrow> a = a' \<and> b = b'"
proof -
  assume e: "a @ NL # b = a' @ NL # b'" and b: "NL \<notin> set b" "NL \<notin> set b'"
  from arg_cong [OF e, of rev] have "rev b @ NL # rev a = rev b' @ NL # rev a'" by simp
  from cut_line [OF this] b show ?thesis by simp
qed

lemma canonical_lines:
  assumes "join_with [NL] [m, u, q, h, s, p] = join_with [NL] [m', u', q', h', s', p']"
    and "NL \<notin> set m" "NL \<notin> set m'" "NL \<notin> set u" "NL \<notin> set u'" "NL \<notin> set q" "NL \<notin> set q'"
    and "NL \<notin> set s" "NL \<notin> set s'" "NL \<notin> set p" "NL \<notin> set p'"
  shows "m = m'" "u = u'" "q = q'" "h = h'" "s = s'" "p = p'"
proof -
  have e: "m @ NL # u @ NL # q @ NL # h @ NL # s @ NL # p = m' @ NL # u' @ NL # q' @ NL # h' @ NL # s' @ NL # p'"
    using assms(1) by simp
  note c1 = cut_line [OF e assms(2,3)]
  note c2 = cut_line [OF conjunct2 [OF c1] assms(4,5)]
  note c3 = cut_line [OF conjunct2 [OF c2] assms(6,7)]
  have "(h @ NL # s) @ NL # p = (h' @ NL # s') @ NL # p'" using conjunct2 [OF c3] by simp
  from cut_last_line [OF this assms(10,11)] have c4: "h @ NL # s = h' @ NL # s'" "p = p'" by auto
  from cut_last_line [OF c4(1) assms(8,9)] c1 c2 c3 c4(2)
  show "m = m'" "u = u'" "q = q'" "h = h'" "s = s'" "p = p'" by auto
qed

text \<open>What net/http accepts as a request has no line break in the method, the host or a header value.\<close>

definition one_line :: "httpreq \<Rightarrow> bool" where
  "one_line r \<longleftrightarrow> NL \<notin> set (rq_method r) \<and> NL \<notin> set (rq_host r) \<and> NL \<notin> set (rq_urlHost r) \<and>
     (\<forall>(k, vs) \<in> set (rq_header r). \<forall>v \<in> set vs. NL \<notin> set v)"

lemma one_line_get: "one_line r \<Longrightarrow> NL \<notin> set (val_get (rq_header r) k)"
  by (auto simp: one_line_def val_get_def val_all_def split: option.splits list.splits dest!: map_of_SomeD)

lemma is_space_NL [simp]: "is_space NL"
  by (simp add: is_space_def NL_def)

lemma fields_words: "w \<in> set (str_fields s) \<Longrightarrow> c \<in> set w \<Longrightarrow> \<not> is_space c"
proof (induction s rule: str_fields.induct)
  case (1 s)
  show ?case
  proof (cases "dropWhile is_space s")
    case Nil
    with "1.prems" show ?thesis by (simp add: str_fields.simps)
  next
    case (Cons d ds)
    with "1.prems" have "w = takeWhile (\<lambda>x. \<not> is_space x) (d # ds) \<or> w \<in> set (str_fields (dropWhile (\<lambda>x. \<not> is_space x) (d # ds)))"
      by (subst (asm) str_fields.simps) auto
    then show ?thesis using "1.IH" [OF Cons] "1.prems"(2) by (auto dest: set_takeWhileD)
  qed
qed

lemma header_value_no_NL: "one_line r \<Longrightarrow> NL \<notin> set (canonicalHeaderValue r name)"
proof (cases "name = ''host''")
  case False
  have sp: "NL \<notin> set '' ''" "NL \<notin> set '',''" by (simp_all add: NL_def)
  have w: "NL \<notin> set (join_with '' '' (str_fields v))" for v
    using fields_words [of _ v NL] set_join_with [of NL "'' ''" "str_fields v"] sp by auto
  have "NL \<notin> set (join_with '','' (map (\<lambda>v. join_with '' '' (str_fields v)) vs))" for vs
    using set_join_with [of NL "'',''" "map (\<lambda>v. join_with '' '' (str_fields v)) vs"] sp w by auto
  then show ?thesis using False by (simp add: canonicalHeaderValue_def)
qed (auto simp: canonicalHeaderValue_def one_line_def)

lemma header_lines_inj:
  "header_lines r names = header_lines r' names \<Longrightarrow> one_line r \<Longrightarrow> one_line r' \<Longrightarrow> \<forall>n \<in> set names. NL \<notin> set n \<Longrightarrow>
   n \<in> set names \<Longrightarrow> canonicalHeaderValue r n = canonicalHeaderValue r' n"
proof (induction names)
  case (Cons m names)
  let ?t = "\<lambda>r. m @ '':'' @ canonicalHeaderValue r m"
  have "?t r @ NL # header_lines r names = ?t r' @ NL # header_lines r' names"
    using Cons.prems(1) by (simp add: header_lines_def)
  moreover have "NL \<notin> set (?t r)" "NL \<notin> set (?t r')"
    using Cons.prems(2-4) header_value_no_NL by (auto simp: NL_def)
  ultimately have "canonicalHeaderValue r m = canonicalHeaderValue r' m" "header_lines r names = header_lines r' names"
    using cut_line [of "?t r" "header_lines r names" "?t r'" "header_lines r' names"] by auto
  with Cons show ?case by auto
qed simp

text \<open>The document a request says it signed.\<close>

definition signed_names :: "httpreq \<Rightarrow> string list" where
  "signed_names r =
     (case cut_prefix (val_get (rq_header r) ''Authorization'') (algorithm @ '' '') of
        None \<Rightarrow> []
      | Some rest \<Rightarrow> (case auth_fields rest of (_, signedHeaders, _) \<Rightarrow> split_on (CHR '';'') signedHeaders))"

definition signed_doc :: "httpreq \<Rightarrow> string" where
  "signed_doc r = canonicalRequest r (signed_names r) (val_get (rq_header r) ''X-Amz-Content-Sha256'') None"

definition text_signed :: "env \<Rightarrow> crypto \<Rightarrow> signature \<Rightarrow> httpreq \<Rightarrow> string" where
  "text_signed E C s r = stringToSign E C (sg_date s) (sg_scope s) (signed_doc r)"

lemma trim_space_subset: "set (trim_space s) \<subseteq> set s"
  unfolding trim_space_def by (metis dual_order.trans set_dropWhileD set_rev subsetI)

lemma cut_at_subset: "cut_at c s = (a, Some b) \<Longrightarrow> set b \<subseteq> set s"
  by (auto simp: cut_at_Some)

lemma auth_part_subset:
  assumes "set part \<subseteq> X" "set (fst acc) \<subseteq> X" "set (fst (snd acc)) \<subseteq> X" "set (snd (snd acc)) \<subseteq> X"
  shows "set (fst (auth_part part acc)) \<subseteq> X \<and> set (fst (snd (auth_part part acc))) \<subseteq> X \<and> set (snd (snd (auth_part part acc))) \<subseteq> X"
proof -
  obtain a b c where acc: "acc = (a, b, c)" by (cases acc)
  obtain k o1 where k: "cut_at (CHR ''='') (trim_space part) = (k, o1)" by force
  show ?thesis
  proof (cases o1)
    case (Some val)
    have "set val \<subseteq> X" using cut_at_subset [OF k [unfolded Some]] trim_space_subset [of part] assms(1) by auto
    with Some assms acc k show ?thesis by (simp add: auth_part_def)
  qed (use assms acc k in \<open>simp add: auth_part_def\<close>)
qed

lemma auth_fields_subset:
  "auth_fields rest = (a, b, c) \<Longrightarrow> set a \<subseteq> set rest \<and> set b \<subseteq> set rest \<and> set c \<subseteq> set rest"
proof -
  have "\<forall>w \<in> set ps. set w \<subseteq> X \<Longrightarrow> set (fst acc) \<subseteq> X \<and> set (fst (snd acc)) \<subseteq> X \<and> set (snd (snd acc)) \<subseteq> X \<Longrightarrow>
    set (fst (fold auth_part ps acc)) \<subseteq> X \<and> set (fst (snd (fold auth_part ps acc))) \<subseteq> X \<and> set (snd (snd (fold auth_part ps acc))) \<subseteq> X"
    for ps acc X
    by (induction ps arbitrary: acc) (simp_all add: auth_part_subset)
  from this [of "split_on (CHR '','') rest" "set rest" "([], [], [])"] set_split_on
  show "auth_fields rest = (a, b, c) \<Longrightarrow> ?thesis" by (auto simp: auth_fields_def)
qed

lemma resolve_Inr:
  "resolve C v credential = Inr (creds, scope) \<Longrightarrow>
   \<exists>ak day. split_on (CHR ''/'') credential = [ak, day, vf_region v, service, terminator] \<and>
     vf_lookup v ak = Some creds \<and> scope = join_with ''/'' [day, vf_region v, service, terminator]"
  by (auto simp: resolve_def Let_def split: list.splits if_splits option.splits)

lemma scope_no_NL:
  assumes "resolve C v credential = Inr (creds, scope)" "NL \<notin> set credential"
  shows "NL \<notin> set scope"
proof -
  obtain ak day where s: "split_on (CHR ''/'') credential = [ak, day, vf_region v, service, terminator]"
    "scope = join_with ''/'' [day, vf_region v, service, terminator]" using resolve_Inr [OF assms(1)] by blast
  have "NL \<notin> set w" if "w \<in> {day, vf_region v, service, terminator}" for w
    using that assms(2) set_split_on [of w "CHR ''/''" credential] unfolding s(1) by auto
  then have "\<forall>p \<in> set [day, vf_region v, service, terminator]. NL \<notin> set p" by simp
  moreover have "NL \<notin> set ''/''" by (simp add: NL_def)
  ultimately show ?thesis unfolding s(2) using set_join_with [of NL "''/''"] by blast
qed

text \<open>What an accepted header signature says.\<close>

lemma verifyHeader_Inr:
  assumes "verifyHeader E C v r = Inr s"
  obtains rest credential signedHeaders where
    "cut_prefix (val_get (rq_header r) ''Authorization'') (algorithm @ '' '') = Some rest"
    "auth_fields rest = (credential, signedHeaders, sg_seed s)"
    "resolve C v credential = Inr (sg_creds s, sg_scope s)"
    "sg_seed s = sign_with C (cd_secretKey (sg_creds s)) (sg_date s) (vf_region v) (text_signed E C s r)"
    "sg_payload s = val_get (rq_header r) ''X-Amz-Content-Sha256''"
    "requestTime C v (val_get (rq_header r) ''X-Amz-Date'') (val_get (rq_header r) ''Date'') = Inr (sg_date s)"
    "sg_payload s \<noteq> []" "\<not> sg_presigned s" "sg_seed s \<noteq> []"
  using assms
  by (auto simp: verifyHeader_def text_signed_def signed_doc_def signed_names_def Let_def
      split: option.splits sum.splits prod.splits if_splits)

lemma canonicalRequest_inj:
  assumes e: "canonicalRequest r (split_on (CHR '';'') ns) p None = canonicalRequest r' (split_on (CHR '';'') ns') p' None"
    and l: "one_line r" "one_line r'" "NL \<notin> set ns" "NL \<notin> set ns'" "NL \<notin> set p" "NL \<notin> set p'"
    and esc: "rq_escaped r \<noteq> []" "rq_escaped r' \<noteq> []"
  shows "rq_method r = rq_method r'" "rq_path r = rq_path r'" "query_pairs (rq_query r) = query_pairs (rq_query r')"
    "set (split_on (CHR '';'') ns) = set (split_on (CHR '';'') ns')" "p = p'"
    "n \<in> set (split_on (CHR '';'') ns) \<Longrightarrow> canonicalHeaderValue r n = canonicalHeaderValue r' n"
proof -
  let ?n = "sort (split_on (CHR '';'') ns)" and ?n' = "sort (split_on (CHR '';'') ns')"
  have uri: "canonicalURI r = uri_path (rq_path r)" "canonicalURI r' = uri_path (rq_path r')"
    using esc by (simp_all add: canonicalURI_def uri_path_def)
  have plain: "NL \<notin> set (join_with '';'' (sort (split_on (CHR '';'') x)))" if "NL \<notin> set x" for x
  proof
    assume "NL \<in> set (join_with '';'' (sort (split_on (CHR '';'') x)))"
    then have "NL \<in> set '';'' \<or> (\<exists>w \<in> set (split_on (CHR '';'') x). NL \<in> set w)" using set_join_with by fastforce
    moreover have "NL \<notin> set '';''" by (simp add: NL_def)
    ultimately show False using that set_split_on by blast
  qed
  have m: "NL \<notin> set (rq_method r)" "NL \<notin> set (rq_method r')" using l(1,2) by (simp_all add: one_line_def)
  have e': "join_with [NL] [rq_method r, uri_path (rq_path r), canonicalQuery (rq_query r), header_lines r ?n, join_with '';'' ?n, p] =
    join_with [NL] [rq_method r', uri_path (rq_path r'), canonicalQuery (rq_query r'), header_lines r' ?n', join_with '';'' ?n', p']"
    using e unfolding canonicalRequest_def Let_def uri option.case .
  note lines = canonical_lines [OF e' m uri_path_no_NL uri_path_no_NL canonicalQuery_no_NL canonicalQuery_no_NL plain [OF l(3)] plain [OF l(4)] l(5,6)]
  have ne: "sort (split_on d x) \<noteq> []" for d x
    using split_on_nonempty [of d x] by (metis length_0_conv length_sort)
  have names: "?n = ?n'"
    using lines(5) ne split_on_parts by (intro join_with_inj [where d = "CHR '';''"]) auto
  show "rq_method r = rq_method r'" by (rule lines(1))
  show "rq_path r = rq_path r'" by (rule uri_path_inj [OF lines(2)])
  show "query_pairs (rq_query r) = query_pairs (rq_query r')" by (rule canonicalQuery_inj [OF lines(3)])
  show "p = p'" by (rule lines(6))
  from arg_cong [OF names, of set] show "set (split_on (CHR '';'') ns) = set (split_on (CHR '';'') ns')" by simp
  show "canonicalHeaderValue r n = canonicalHeaderValue r' n" if "n \<in> set (split_on (CHR '';'') ns)"
  proof (rule header_lines_inj)
    show "header_lines r ?n = header_lines r' ?n" using lines(4) names by simp
    show "\<forall>n \<in> set ?n. NL \<notin> set n" using set_split_on l(3) by (metis set_sort subsetD)
  qed (use l that in simp_all)
qed

lemma signature_determines:
  assumes v: "verifyHeader E C v r1 = Inr s1" "verifyHeader E C v r2 = Inr s2"
    and same: "sg_seed s1 = sg_seed s2"
    and lines: "one_line r1" "one_line r2" and esc: "rq_escaped r1 \<noteq> []" "rq_escaped r2 \<noteq> []"
    and date: "\<And>t. NL \<notin> set (cr_amzDate C t)"
    and mac: "\<And>k k'. cr_hmac C k (text_signed E C s1 r1) = cr_hmac C k' (text_signed E C s2 r2) \<Longrightarrow>
      text_signed E C s1 r1 = text_signed E C s2 r2"
    and sha: "sha256_hex E (signed_doc r1) = sha256_hex E (signed_doc r2) \<Longrightarrow> signed_doc r1 = signed_doc r2"
  shows "rq_method r1 = rq_method r2" "rq_path r1 = rq_path r2"
    "query_pairs (rq_query r1) = query_pairs (rq_query r2)" "sg_payload s1 = sg_payload s2"
    "n \<in> set (signed_names r1) \<Longrightarrow> n \<in> set (signed_names r2) \<and> canonicalHeaderValue r1 n = canonicalHeaderValue r2 n"
proof -
  obtain rest1 c1 h1 where a1: "cut_prefix (val_get (rq_header r1) ''Authorization'') (algorithm @ '' '') = Some rest1"
    "auth_fields rest1 = (c1, h1, sg_seed s1)" "resolve C v c1 = Inr (sg_creds s1, sg_scope s1)"
    "sg_seed s1 = sign_with C (cd_secretKey (sg_creds s1)) (sg_date s1) (vf_region v) (text_signed E C s1 r1)"
    "sg_payload s1 = val_get (rq_header r1) ''X-Amz-Content-Sha256''" by (rule verifyHeader_Inr [OF v(1)])
  obtain rest2 c2 h2 where a2: "cut_prefix (val_get (rq_header r2) ''Authorization'') (algorithm @ '' '') = Some rest2"
    "auth_fields rest2 = (c2, h2, sg_seed s2)" "resolve C v c2 = Inr (sg_creds s2, sg_scope s2)"
    "sg_seed s2 = sign_with C (cd_secretKey (sg_creds s2)) (sg_date s2) (vf_region v) (text_signed E C s2 r2)"
    "sg_payload s2 = val_get (rq_header r2) ''X-Amz-Content-Sha256''" by (rule verifyHeader_Inr [OF v(2)])
  have sts: "text_signed E C s1 r1 = text_signed E C s2 r2"
  proof (rule mac, rule hex_encode_inj)
    show "hex_encode (cr_hmac C (signingKey C (cd_secretKey (sg_creds s1)) (sg_date s1) (vf_region v)) (text_signed E C s1 r1)) =
      hex_encode (cr_hmac C (signingKey C (cd_secretKey (sg_creds s2)) (sg_date s2) (vf_region v)) (text_signed E C s2 r2))"
      using a1(4) a2(4) same by (simp add: sign_with_def)
  qed
  have no: "NL \<notin> set c1 \<and> NL \<notin> set h1" "NL \<notin> set c2 \<and> NL \<notin> set h2"
    using auth_fields_subset [OF a1(2)] auth_fields_subset [OF a2(2)]
      one_line_get [OF lines(1), of "''Authorization''"] one_line_get [OF lines(2), of "''Authorization''"] a1(1) a2(1)
    by (auto simp: cut_prefix_Some)
  have scope: "NL \<notin> set (sg_scope s1)" "NL \<notin> set (sg_scope s2)"
    using scope_no_NL [OF a1(3)] scope_no_NL [OF a2(3)] no by auto
  have alg: "NL \<notin> set algorithm" by (simp add: algorithm_def NL_def)
  have "sha256_hex E (signed_doc r1) = sha256_hex E (signed_doc r2)"
  proof -
    have "algorithm @ NL # cr_amzDate C (sg_date s1) @ NL # sg_scope s1 @ NL # sha256_hex E (signed_doc r1) =
        algorithm @ NL # cr_amzDate C (sg_date s2) @ NL # sg_scope s2 @ NL # sha256_hex E (signed_doc r2)"
      using sts by (simp add: text_signed_def stringToSign_def)
    from cut_line [OF this alg alg]
    have "cr_amzDate C (sg_date s1) @ NL # sg_scope s1 @ NL # sha256_hex E (signed_doc r1) =
        cr_amzDate C (sg_date s2) @ NL # sg_scope s2 @ NL # sha256_hex E (signed_doc r2)" by blast
    from cut_line [OF this date date]
    have "sg_scope s1 @ NL # sha256_hex E (signed_doc r1) = sg_scope s2 @ NL # sha256_hex E (signed_doc r2)" by blast
    from cut_line [OF this scope] show ?thesis by blast
  qed
  then have doc: "signed_doc r1 = signed_doc r2" by (rule sha)
  have names: "signed_names r1 = split_on (CHR '';'') h1" "signed_names r2 = split_on (CHR '';'') h2"
    using a1(1,2) a2(1,2) by (simp_all add: signed_names_def)
  have pay: "NL \<notin> set (sg_payload s1)" "NL \<notin> set (sg_payload s2)"
    using a1(5) a2(5) one_line_get lines by simp_all
  have "canonicalRequest r1 (split_on (CHR '';'') h1) (sg_payload s1) None =
      canonicalRequest r2 (split_on (CHR '';'') h2) (sg_payload s2) None"
    using doc names a1(5) a2(5) by (simp add: signed_doc_def)
  note inj = canonicalRequest_inj [OF this lines conjunct2 [OF no(1)] conjunct2 [OF no(2)] pay esc]
  show "rq_method r1 = rq_method r2" "rq_path r1 = rq_path r2" "query_pairs (rq_query r1) = query_pairs (rq_query r2)"
    "sg_payload s1 = sg_payload s2" by (rule inj)+
  show "n \<in> set (signed_names r2) \<and> canonicalHeaderValue r1 n = canonicalHeaderValue r2 n" if "n \<in> set (signed_names r1)"
    using that inj(4,6) names by simp
qed


end
