(* ===== verification/S3Client.thy ===== *)
theory S3Client
  imports Sigv4Laws
begin

text \<open>
  internal/s3client: the client of the store.  A call builds a URL from the endpoint and
  the key, lets net/url parse it, signs the request and maps the status of the answer.
  The first part is what the client uses of net/url; it is the library's documented
  behaviour, and the path a key is sent under depends on it.
\<close>

subsection \<open>net/url\<close>

definition hex_digit_val :: "char \<Rightarrow> nat option" where
  "hex_digit_val c =
     (let n = (of_char c :: nat) in
      if 48 \<le> n \<and> n \<le> 57 then Some (n - 48)
      else if 97 \<le> n \<and> n \<le> 102 then Some (n - 87)
      else if 65 \<le> n \<and> n \<le> 70 then Some (n - 55)
      else None)"

text \<open>\<open>PathUnescape\<close>, and \<open>QueryUnescape\<close> when \<open>isq\<close> is set.\<close>

fun url_unescape :: "bool \<Rightarrow> string \<Rightarrow> string option" where
  "url_unescape isq [] = Some []"
| "url_unescape isq (c # s) =
     (if c = CHR ''%'' then
        (case s of
           a # b # t \<Rightarrow>
             (case (hex_digit_val a, hex_digit_val b) of
                (Some x, Some y) \<Rightarrow> map_option ((#) (char_of (16 * x + y))) (url_unescape isq t)
              | _ \<Rightarrow> None)
         | _ \<Rightarrow> None)
      else map_option ((#) (if isq \<and> c = CHR ''+'' then CHR '' '' else c)) (url_unescape isq s))"

fun QueryEscape :: "string \<Rightarrow> string" where
  "QueryEscape [] = []"
| "QueryEscape (c # s) =
     (if unreserved c then c # QueryEscape s
      else if c = CHR '' '' then CHR ''+'' # QueryEscape s
      else CHR ''%'' # upper_hex (char_hi c) # upper_hex (char_lo c) # QueryEscape s)"

definition values_Encode :: "urlvals \<Rightarrow> string" where
  "values_Encode q =
     join_with ''&''
       (concat (map (\<lambda>k. map (\<lambda>v. QueryEscape k @ ''='' @ QueryEscape v) (val_all q k)) (sort (map fst q))))"

definition val_add :: "string \<Rightarrow> string \<Rightarrow> urlvals \<Rightarrow> urlvals" where
  "val_add k v q =
     (if val_has q k then map (\<lambda>p. if fst p = k then (k, snd p @ [v]) else p) q else q @ [(k, [v])])"

definition parse_pair :: "string \<Rightarrow> urlvals \<Rightarrow> urlvals" where
  "parse_pair part q =
     (if CHR '';'' \<in> set part \<or> part = [] then q
      else
        (case cut_at (CHR ''='') part of (k, v) \<Rightarrow>
           (case (url_unescape True k, url_unescape True (case v of None \<Rightarrow> [] | Some v \<Rightarrow> v)) of
              (Some k', Some v') \<Rightarrow> val_add k' v' q
            | _ \<Rightarrow> q)))"

definition ParseQuery :: "string \<Rightarrow> urlvals" where
  "ParseQuery raw = fold parse_pair (split_on (CHR ''&'') raw) []"

text \<open>
  \<open>url.Parse\<close> of the part behind the host: the fragment is cut off, then the query, and the
  path is unescaped; a control byte or a bad escape is an error.
\<close>

definition ctl_byte :: "char \<Rightarrow> bool" where
  "ctl_byte c \<longleftrightarrow> (of_char c :: nat) < 32 \<or> (of_char c :: nat) = 127"

definition parse_target :: "string \<Rightarrow> (string \<times> string \<times> string) option" where
  "parse_target t =
     (case cut_at (CHR ''#'') t of (u, frag) \<Rightarrow>
        if list_ex ctl_byte u then None
        else
          (case cut_at (CHR ''?'') u of (p, q) \<Rightarrow>
             map_option (\<lambda>path. (path, p, case q of None \<Rightarrow> [] | Some q \<Rightarrow> q)) (url_unescape False p)))"

subsection \<open>The client\<close>

record client =
  cl_base :: string
  cl_host :: string
  cl_bucket :: string
  cl_region :: string
  cl_accessKey :: string
  cl_secretKey :: string

definition cli_New :: "backendcfg \<Rightarrow> (string \<times> string) option \<Rightarrow> gerr + client" where
  "cli_New b endpoint =
     (case endpoint of
        None \<Rightarrow> Inl (Errf ''s3 client: endpoint'')
      | Some (host, base) \<Rightarrow>
          Inr \<lparr>cl_base = base, cl_host = host, cl_bucket = be_bucket b, cl_region = be_region b,
               cl_accessKey = be_accessKey b, cl_secretKey = be_secretKey b\<rparr>)"

fun rfc3986 :: "string \<Rightarrow> string" where
  "rfc3986 [] = []"
| "rfc3986 (c # s) =
     (if c \<in> set ''ABCDEFGHIJKLMNOPQRSTUVWXYZabcdefghijklmnopqrstuvwxyz0123456789-_.~'' then c # rfc3986 s
      else CHR ''%'' # upper_hex (char_hi c) # upper_hex (char_lo c) # rfc3986 s)"

definition encodePath :: "string \<Rightarrow> string" where
  "encodePath p = (if p = [] then ''/'' else join_with ''/'' (map rfc3986 (split_on (CHR ''/'') p)))"

fun encode_pairs :: "string \<Rightarrow> (string \<times> string) list \<Rightarrow> string" where
  "encode_pairs b [] = b"
| "encode_pairs b ((k, v) # ps) =
     encode_pairs ((if b = [] then b else b @ ''&'') @ rfc3986 k @ ''='' @ rfc3986 v) ps"

definition encodeQuery :: "urlvals \<Rightarrow> string" where
  "encodeQuery q =
     encode_pairs [] (concat (map (\<lambda>k. map (\<lambda>v. (k, v)) (sort (val_all q k))) (sort (map fst q))))"

definition cli_path :: "client \<Rightarrow> string \<Rightarrow> string" where
  "cli_path c key = (if key = [] then ''/'' @ cl_bucket c else ''/'' @ cl_bucket c @ ''/'' @ key)"

definition cli_sign :: "env \<Rightarrow> crypto \<Rightarrow> client \<Rightarrow> gotime \<Rightarrow> string \<Rightarrow> string \<Rightarrow> string" where
  "cli_sign E C c now scope canonical =
     (let sts = join_with [NL] [algorithm, cr_amzDate C now, scope, sha256_hex E canonical];
          k = cr_hmac C (''AWS4'' @ cl_secretKey c) (cr_shortDate C now);
          k = cr_hmac C k (cl_region c);
          k = cr_hmac C k service;
          k = cr_hmac C k terminator
      in hex_encode (cr_hmac C k sts))"

definition hdr_set :: "string \<Rightarrow> string \<Rightarrow> urlvals \<Rightarrow> urlvals" where
  "hdr_set name v h = (name, [v]) # filter (\<lambda>p. fst p \<noteq> name) h"

definition cli_scope :: "crypto \<Rightarrow> client \<Rightarrow> gotime \<Rightarrow> string" where
  "cli_scope C c now = cr_shortDate C now @ ''/'' @ cl_region c @ ''/'' @ service @ ''/'' @ terminator"

definition cli_signed :: "string list" where
  "cli_signed = [''host'', ''x-amz-content-sha256'', ''x-amz-date'']"

definition signRequest :: "env \<Rightarrow> crypto \<Rightarrow> client \<Rightarrow> gotime \<Rightarrow> string \<Rightarrow> httpreq \<Rightarrow> httpreq" where
  "signRequest E C c now payload r =
     (let stamp = cr_amzDate C now; scope = cli_scope C c now;
          r = r\<lparr>rq_header := hdr_set ''X-Amz-Content-Sha256'' payload (hdr_set ''X-Amz-Date'' stamp (rq_header r))\<rparr>;
          r = (if rq_host r = [] then r\<lparr>rq_host := cl_host c\<rparr> else r);
          signed = sort cli_signed;
          headers = concat (map (\<lambda>name. name @ '':'' @
              join_with '' '' (str_fields (if name = ''host'' then rq_host r
                                           else val_get (rq_header r) (CanonicalHeaderKey name))) @ [NL]) signed);
          canonical = join_with [NL]
              [rq_method r, encodePath (rq_path r), encodeQuery (rq_query r), headers, join_with '';'' signed, payload]
      in r\<lparr>rq_header := hdr_set ''Authorization''
            (algorithm @ '' Credential='' @ cl_accessKey c @ ''/'' @ scope @ '', SignedHeaders='' @ join_with '';'' signed @
             '', Signature='' @ cli_sign E C c now scope canonical) (rq_header r)\<rparr>)"

record clireq =
  cq_method :: string
  cq_key :: string
  cq_query :: urlvals
  cq_body :: "string \<times> gerr option"
  cq_length :: int
  cq_payload :: string
  cq_header :: urlvals

text \<open>\<open>do\<close> up to the wire: nothing when the URL does not parse.\<close>

definition cli_request :: "env \<Rightarrow> crypto \<Rightarrow> client \<Rightarrow> gotime \<Rightarrow> clireq \<Rightarrow> httpreq option" where
  "cli_request E C c now q =
     (let target = cl_base c @ cli_path c (cq_key q) @ (if cq_query q = [] then [] else ''?'' @ values_Encode (cq_query q))
      in case parse_target target of
           None \<Rightarrow> None
         | Some (path, escaped, raw) \<Rightarrow>
             let r = \<lparr>rq_method = cq_method q, rq_host = cl_host c, rq_urlHost = cl_host c, rq_path = path,
                      rq_escaped = escaped, rq_rawQuery = raw, rq_query = ParseQuery raw,
                      rq_header = fold (\<lambda>(k, vs) h. fold (val_add (CanonicalHeaderKey k)) vs h) (cq_header q) [],
                      rq_length = (if 0 < cq_length q then cq_length q else 0), rq_body = cq_body q\<rparr>;
                 payload = (if cq_payload q = [] then sha256_hex E [] else cq_payload q)
             in Some (signRequest E C c now payload r))"

text \<open>What a status means; the code and message of an error document only label the error.\<close>

datatype outcome = OK2xx | OutNotFound string | OutAPI nat

definition cli_outcome :: "clireq \<Rightarrow> nat \<Rightarrow> outcome" where
  "cli_outcome q status =
     (if 200 \<le> status \<and> status < 300 then OK2xx
      else if status = 404 then OutNotFound (cq_key q)
      else OutAPI status)"

definition bare_request :: "string \<Rightarrow> string \<Rightarrow> clireq" where
  "bare_request method key =
     \<lparr>cq_method = method, cq_key = key, cq_query = [], cq_body = ([], None), cq_length = 0, cq_payload = [], cq_header = []\<rparr>"

text \<open>The requests of the calls: \<open>PutFile\<close> and \<open>Put\<close> declare the digest of what they send.\<close>

definition put_request :: "env \<Rightarrow> string \<Rightarrow> string \<Rightarrow> clireq" where
  "put_request E key data =
     (bare_request ''PUT'' key)\<lparr>cq_body := (data, None), cq_length := int (length data), cq_payload := sha256_hex E data\<rparr>"

definition get_request :: "string \<Rightarrow> clireq" where "get_request key = bare_request ''GET'' key"
definition head_request :: "string \<Rightarrow> clireq" where "head_request key = bare_request ''HEAD'' key"
definition delete_request :: "string \<Rightarrow> clireq" where "delete_request key = bare_request ''DELETE'' key"

definition range_request :: "string \<Rightarrow> int \<Rightarrow> int \<Rightarrow> clireq" where
  "range_request key offset len =
     (bare_request ''GET'' key)\<lparr>cq_header :=
        [(''Range'', [''bytes='' @ format_int offset @ ''-'' @ format_int (wrap64 (wrap64 (offset + len) - 1))])]\<rparr>"

definition list_request :: "string \<Rightarrow> string \<Rightarrow> clireq" where
  "list_request prefix token =
     (bare_request ''GET'' [])\<lparr>cq_query :=
        [(''list-type'', [''2''])] @ (if prefix = [] then [] else [(''prefix'', [prefix])]) @
        (if token = [] then [] else [(''continuation-token'', [token])])\<rparr>"

text \<open>The URL of \<open>Presign\<close>, without the scheme and the host; \<open>secs\<close> is the lifetime in seconds.\<close>

definition cli_Presign :: "env \<Rightarrow> crypto \<Rightarrow> client \<Rightarrow> gotime \<Rightarrow> string \<Rightarrow> string \<Rightarrow> int \<Rightarrow> string" where
  "cli_Presign E C c now method key secs =
     (let scope = cli_scope C c now;
          q = [(''X-Amz-Algorithm'', [algorithm]), (''X-Amz-Credential'', [cl_accessKey c @ ''/'' @ scope]),
               (''X-Amz-Date'', [cr_amzDate C now]), (''X-Amz-Expires'', [format_int secs]),
               (''X-Amz-SignedHeaders'', [''host''])];
          canonical = join_with [NL]
              [method, encodePath (cli_path c key), encodeQuery q, ''host:'' @ cl_host c @ [NL], ''host'', unsignedPayload]
      in cl_base c @ cli_path c key @ ''?'' @
           values_Encode (q @ [(''X-Amz-Signature'', [cli_sign E C c now scope canonical])]))"

subsection \<open>Following a listing\<close>

record objinfo =
  ob_key :: string
  ob_size :: i64
  ob_etag :: string
  ob_modified :: gotime

record listing =
  ls_truncated :: bool
  ls_next :: string
  ls_objects :: "objinfo list"

partial_function (option) cli_List ::
    "(string \<Rightarrow> gerr + listing) \<Rightarrow> (objinfo \<Rightarrow> 's \<Rightarrow> 's \<times> gerr option) \<Rightarrow> string \<Rightarrow> 's \<Rightarrow> ('s \<times> gerr option) option" where
  "cli_List serve fn token st =
     (case serve token of
        Inl e \<Rightarrow> Some (st, Some e)
      | Inr page \<Rightarrow>
          (case fold_cb fn (ls_objects page) st of
             (st', Some e) \<Rightarrow> Some (st', Some e)
           | (st', None) \<Rightarrow>
               if \<not> ls_truncated page \<or> ls_next page = [] then Some (st', None)
               else cli_List serve fn (ls_next page) st'))"

end
