(* ===== verification/S3ClientLaws.thy ===== *)
theory S3ClientLaws
  imports S3Client Demo
begin

text \<open>
  The client and the verifier agree.  The client builds its canonical request with
  functions of its own; on every request it sends they give the document the verifier
  computes, so a request signed with a bucket's key within the clock window is accepted.
  A key without the characters a URL gives a meaning to reaches its own path; one with a
  question mark reaches another object.
\<close>

subsection \<open>Two canonical forms are one\<close>

lemma rfc3986_uriEncode: "rfc3986 s = uriEncode s"
  by (induction s) (simp_all add: unreserved_def)

lemma encodeQuery_canonical: "encodeQuery q = canonicalQuery q"
proof -
  have "encode_pairs b ps = write_pairs b ps" for b ps
    by (induction b ps rule: encode_pairs.induct) (simp_all add: rfc3986_uriEncode)
  then show ?thesis by (simp add: encodeQuery_def canonicalQuery_def query_pairs_def)
qed

lemma encodePath_uri: "p \<noteq> [] \<Longrightarrow> encodePath p = uri_path p"
proof -
  have "rfc3986 = uriEncode" by (simp add: fun_eq_iff rfc3986_uriEncode)
  then show "p \<noteq> [] \<Longrightarrow> encodePath p = uri_path p" by (simp add: encodePath_def uri_path_def)
qed

lemma val_all_hdr_set [simp]: "val_all (hdr_set n v h) m = (if m = n then [v] else val_all h m)"
proof -
  have "m \<noteq> n \<Longrightarrow> map_of (filter (\<lambda>p. fst p \<noteq> n) h) m = map_of h m" by (induction h) auto
  then show ?thesis by (simp add: val_all_def hdr_set_def)
qed

lemma val_get_hdr_set [simp]: "val_get (hdr_set n v h) m = (if m = n then v else val_get h m)"
  by (simp add: val_get_def)

lemma cli_signed_sorted: "sort cli_signed = cli_signed"
  by code_simp

lemma cli_signed_keys [simp]:
  "CanonicalHeaderKey ''x-amz-date'' = ''X-Amz-Date''"
  "CanonicalHeaderKey ''x-amz-content-sha256'' = ''X-Amz-Content-Sha256''"
  by code_simp+

subsection \<open>Reading the Authorization header\<close>

lemma auth_part_field:
  assumes "CHR ''='' \<notin> set k" "k \<noteq> []" "\<not> is_space (hd k)" "val \<noteq> []" "\<not> is_space (last val)"
  shows "auth_part (k @ CHR ''='' # val) (a, b, c) =
      (if k = ''Credential'' then (val, b, c) else if k = ''SignedHeaders'' then (a, val, c)
       else if k = ''Signature'' then (a, b, val) else (a, b, c))"
    "auth_part (CHR '' '' # k @ CHR ''='' # val) (a, b, c) =
      (if k = ''Credential'' then (val, b, c) else if k = ''SignedHeaders'' then (a, val, c)
       else if k = ''Signature'' then (a, b, val) else (a, b, c))"
proof -
  have "trim_space (k @ CHR ''='' # val) = k @ CHR ''='' # val"
    using assms by (intro trim_space_plain) (simp_all add: hd_append)
  then show "auth_part (k @ CHR ''='' # val) (a, b, c) =
      (if k = ''Credential'' then (val, b, c) else if k = ''SignedHeaders'' then (a, val, c)
       else if k = ''Signature'' then (a, b, val) else (a, b, c))"
    "auth_part (CHR '' '' # k @ CHR ''='' # val) (a, b, c) =
      (if k = ''Credential'' then (val, b, c) else if k = ''SignedHeaders'' then (a, val, c)
       else if k = ''Signature'' then (a, b, val) else (a, b, c))"
    using assms(1) by (simp_all add: auth_part_def trim_space_lead cut_at_append)
qed

lemma auth_fields_written:
  assumes "CHR '','' \<notin> set cred" "CHR '','' \<notin> set sh" "cred \<noteq> []" "sh \<noteq> []" "\<not> is_space (last cred)" "\<not> is_space (last sh)"
    and sg: "sg = hex_encode m" "m \<noteq> []"
  shows "auth_fields (''Credential='' @ cred @ '', SignedHeaders='' @ sh @ '', Signature='' @ sg) = (cred, sh, sg)"
proof -
  have hx: "\<forall>c \<in> set sg. unreserved c" using hex_encode_plain sg(1) by blast
  have ne: "sg \<noteq> []" using sg by (cases m) simp_all
  then have lst: "\<not> is_space (last sg)" using hx by (simp add: unreserved_not_space)
  have "\<not> unreserved (CHR '','')" by (simp add: unreserved_def)
  then have comma: "CHR '','' \<notin> set sg" using hx by blast
  have "''Credential='' @ cred @ '', SignedHeaders='' @ sh @ '', Signature='' @ sg =
      (''Credential'' @ CHR ''='' # cred) @ CHR '','' # (CHR '' '' # ''SignedHeaders'' @ CHR ''='' # sh) @ CHR '','' #
      (CHR '' '' # ''Signature'' @ CHR ''='' # sg)" by simp
  moreover have "split_on (CHR '','') \<dots> =
      [''Credential'' @ CHR ''='' # cred, CHR '' '' # ''SignedHeaders'' @ CHR ''='' # sh, CHR '' '' # ''Signature'' @ CHR ''='' # sg]"
    unfolding split_on_append using assms(1,2) comma by (subst split_on_plain, simp)+ simp
  ultimately have sp: "split_on (CHR '','') (''Credential='' @ cred @ '', SignedHeaders='' @ sh @ '', Signature='' @ sg) =
      [''Credential'' @ CHR ''='' # cred, CHR '' '' # ''SignedHeaders'' @ CHR ''='' # sh, CHR '' '' # ''Signature'' @ CHR ''='' # sg]"
    by simp
  have k: "CHR ''='' \<notin> set ''Credential''" "\<not> is_space (hd ''Credential'')" "CHR ''='' \<notin> set ''SignedHeaders''"
    "\<not> is_space (hd ''SignedHeaders'')" "CHR ''='' \<notin> set ''Signature''" "\<not> is_space (hd ''Signature'')"
    by (simp_all add: is_space_def)
  show ?thesis unfolding auth_fields_def sp
    using auth_part_field(1) [OF k(1) _ k(2) assms(3,5)] auth_part_field(2) [OF k(3) _ k(4) assms(4,6)]
      auth_part_field(2) [OF k(5) _ k(6) ne lst] by simp
qed

subsection \<open>The verifier computes what the client signed\<close>

lemma hdr_lines_signed:
  assumes "val_all h ''X-Amz-Date'' = [stamp]" "val_all h ''X-Amz-Content-Sha256'' = [payload]"
    and "join_with '' '' (str_fields host) = host" "host \<noteq> []" "rq_host r = host" "rq_header r = h"
  shows "header_lines r cli_signed = concat (map (\<lambda>name. name @ '':'' @
      join_with '' '' (str_fields (if name = ''host'' then host else val_get h (CanonicalHeaderKey name))) @ [NL]) cli_signed)"
  using assms by (simp add: header_lines_def cli_signed_def canonicalHeaderValue_def val_get_def)

lemma sign_with_client:
  assumes "cl_secretKey c = secret" "cl_region c = region" "cr_amzDate C when = cr_amzDate C now" "cr_shortDate C when = cr_shortDate C now"
  shows "sign_with C secret when region (stringToSign E C when scope doc) = cli_sign E C c now scope doc"
  using assms by (simp add: sign_with_def signingKey_def stringToSign_def cli_sign_def Let_def)

text \<open>What the time formats promise: a stamp reads back as a time with the same stamp and the same day.\<close>

definition stamp_ok :: "crypto \<Rightarrow> gotime \<Rightarrow> gotime \<Rightarrow> bool" where
  "stamp_ok C now when \<longleftrightarrow> cr_amzDate C now \<noteq> [] \<and> cr_parseAmz C (cr_amzDate C now) = Some when \<and>
     cr_amzDate C when = cr_amzDate C now \<and> cr_shortDate C when = cr_shortDate C now \<and>
     CHR ''/'' \<notin> set (cr_shortDate C now) \<and> CHR '','' \<notin> set (cr_shortDate C now)"

definition plain_cred :: "client \<Rightarrow> bool" where
  "plain_cred c \<longleftrightarrow> CHR ''/'' \<notin> set (cl_accessKey c) \<and> CHR '','' \<notin> set (cl_accessKey c) \<and>
     CHR ''/'' \<notin> set (cl_region c) \<and> CHR '','' \<notin> set (cl_region c)"

lemma signRequest_accepted:
  assumes cred: "plain_cred c" and region: "vf_region v = cl_region c"
    and lookup: "vf_lookup v (cl_accessKey c) = Some creds" "cd_secretKey creds = cl_secretKey c"
    and time: "stamp_ok C now when" and skew: "\<bar>time_sub (vf_now v) when\<bar> \<le> maxSkew"
    and mac: "\<And>k m. cr_hmac C k m \<noteq> []"
    and r: "rq_escaped r \<noteq> []" "rq_path r \<noteq> []" "rq_host r \<noteq> []" "join_with '' '' (str_fields (rq_host r)) = rq_host r"
    and payload: "payload \<noteq> []" and q: "val_get (rq_query r) ''X-Amz-Signature'' = []"
  shows "verify_request E C v (signRequest E C c now payload r) =
    Inr \<lparr>sg_creds = creds, sg_scope = cli_scope C c now, sg_date = when,
         sg_seed = cli_sign E C c now (cli_scope C c now)
            (canonicalRequest (r\<lparr>rq_header := hdr_set ''X-Amz-Content-Sha256'' payload (hdr_set ''X-Amz-Date'' (cr_amzDate C now) (rq_header r))\<rparr>)
              cli_signed payload None),
         sg_payload = payload, sg_presigned = False\<rparr>"
proof -
  let ?h = "hdr_set ''X-Amz-Content-Sha256'' payload (hdr_set ''X-Amz-Date'' (cr_amzDate C now) (rq_header r))"
  let ?r = "r\<lparr>rq_header := ?h\<rparr>"
  let ?doc = "canonicalRequest ?r cli_signed payload None"
  let ?cred = "cl_accessKey c @ ''/'' @ cli_scope C c now"
  let ?sh = "join_with '';'' cli_signed"
  let ?sg = "cli_sign E C c now (cli_scope C c now) ?doc"
  let ?rest = "''Credential='' @ ?cred @ '', SignedHeaders='' @ ?sh @ '', Signature='' @ ?sg"
  have lines: "header_lines ?r cli_signed = concat (map (\<lambda>name. name @ '':'' @
      join_with '' '' (str_fields (if name = ''host'' then rq_host r else val_get ?h (CanonicalHeaderKey name))) @ [NL]) cli_signed)"
    by (rule hdr_lines_signed) (use r in simp_all)
  have sn: "signRequest E C c now payload r = ?r\<lparr>rq_header := hdr_set ''Authorization'' (algorithm @ '' '' @ ?rest) ?h\<rparr>"
  proof -
    have rec: "rq_host (r\<lparr>rq_header := h\<rparr>) = rq_host r" "rq_method (r\<lparr>rq_header := h\<rparr>) = rq_method r"
      "rq_path (r\<lparr>rq_header := h\<rparr>) = rq_path r" "rq_query (r\<lparr>rq_header := h\<rparr>) = rq_query r"
      "rq_header (r\<lparr>rq_header := h\<rparr>) = h" "rq_escaped (r\<lparr>rq_header := h\<rparr>) = rq_escaped r" for h by simp_all
    have d: "?doc = join_with [NL] [rq_method r, encodePath (rq_path r), encodeQuery (rq_query r),
        concat (map (\<lambda>name. name @ '':'' @ join_with '' '' (str_fields (if name = ''host'' then rq_host r
          else val_get ?h (CanonicalHeaderKey name))) @ [NL]) cli_signed), ?sh, payload]"
      unfolding canonicalRequest_def Let_def option.case cli_signed_sorted canonicalURI_def rec if_not_P [OF r(1)] lines
        encodePath_uri [OF r(2)] encodeQuery_canonical uri_path_def ..
    show ?thesis
      unfolding signRequest_def Let_def rec if_not_P [OF r(3)] cli_signed_sorted d [symmetric]
      by (simp only: append_assoc) simp
  qed
  let ?rr = "signRequest E C c now payload r"
  have hdr: "val_get (rq_header ?rr) ''Authorization'' = algorithm @ '' '' @ ?rest"
    "val_get (rq_header ?rr) ''X-Amz-Date'' = cr_amzDate C now" "val_get (rq_header ?rr) ''X-Amz-Content-Sha256'' = payload"
    by (simp_all add: sn)
  have "canonicalHeaderValue ?rr n = canonicalHeaderValue ?r n" if "n \<in> set cli_signed" for n
    using that by (auto simp: canonicalHeaderValue_def sn cli_signed_def)
  then have "header_lines ?rr cli_signed = header_lines ?r cli_signed"
    unfolding header_lines_def by (intro arg_cong [of _ _ concat] map_cong) simp_all
  then have doc: "canonicalRequest ?rr cli_signed payload None = ?doc"
    unfolding canonicalRequest_def Let_def cli_signed_sorted by (simp add: sn canonicalURI_def)
  have sp: "split_on (CHR '';'') ?sh = cli_signed" by code_simp
  have alg: "CHR '','' \<notin> set ?sh" "?sh \<noteq> []" "\<not> is_space (last ?sh)" by code_simp+
  have cc: "CHR '','' \<notin> set ?cred" "?cred \<noteq> []" "\<not> is_space (last ?cred)"
    using cred time by (simp_all add: cli_scope_def plain_cred_def stamp_ok_def service_def terminator_def is_space_def)
  have af: "auth_fields ?rest = (?cred, ?sh, ?sg)"
  proof -
    obtain m where "?sg = hex_encode m" "m \<noteq> []" using mac unfolding cli_sign_def Let_def by blast
    then show ?thesis by (rule auth_fields_written [OF cc(1) alg(1) cc(2) alg(2) cc(3) alg(3)])
  qed
  have "split_on (CHR ''/'') ?cred = [cl_accessKey c, cr_shortDate C now, cl_region c, service, terminator]"
  proof -
    have "?cred = join_with ''/'' [cl_accessKey c, cr_shortDate C now, cl_region c, service, terminator]"
      by (simp add: cli_scope_def)
    moreover have "split_on (CHR ''/'') (join_with ''/'' [cl_accessKey c, cr_shortDate C now, cl_region c, service, terminator]) =
        [cl_accessKey c, cr_shortDate C now, cl_region c, service, terminator]"
      by (rule split_join_with) (use cred time in \<open>auto simp: plain_cred_def stamp_ok_def service_def terminator_def\<close>)
    ultimately show ?thesis by simp
  qed
  then have res: "resolve C v ?cred = Inr (creds, cli_scope C c now)"
    using lookup region by (simp add: resolve_def cli_scope_def)
  have tm: "requestTime C v (cr_amzDate C now) d = Inr when" for d
  proof -
    have "\<not> maxSkew < time_sub (vf_now v) when" "\<not> time_sub (vf_now v) when < - maxSkew" using skew by linarith+
    then show ?thesis using time by (simp add: requestTime_def stamp_ok_def Let_def)
  qed
  have ne: "?sg \<noteq> []"
  proof -
    have "m \<noteq> [] \<Longrightarrow> hex_encode m \<noteq> []" for m by (cases m) simp_all
    then show ?thesis by (simp add: cli_sign_def Let_def mac)
  qed
  have cut: "cut_prefix (algorithm @ '' '' @ ?rest) (algorithm @ '' '') = Some ?rest"
    by (simp only: cut_prefix_Some append_assoc)
  have sw: "sign_with C (cl_secretKey c) when (cl_region c) (stringToSign E C when (cli_scope C c now) ?doc) = ?sg"
    by (rule sign_with_client) (use time in \<open>simp_all add: stamp_ok_def\<close>)
  have "verifyHeader E C v ?rr =
    Inr \<lparr>sg_creds = creds, sg_scope = cli_scope C c now, sg_date = when, sg_seed = ?sg, sg_payload = payload, sg_presigned = False\<rparr>"
    unfolding verifyHeader_def hdr cut Let_def option.case af prod.case res sum.case tm sp doc lookup(2) region sw
    using alg(2) cc(2) ne payload by (simp add: algorithm_def)
  moreover have "val_get (rq_query ?rr) ''X-Amz-Signature'' = []" using q by (simp add: sn)
  ultimately show ?thesis by (simp add: verify_request_def)
qed

subsection \<open>Paths\<close>

text \<open>A character a URL path passes through unchanged.\<close>

definition plain_url :: "string \<Rightarrow> bool" where
  "plain_url s \<longleftrightarrow> (\<forall>c \<in> set s. c \<noteq> CHR ''%'' \<and> c \<noteq> CHR ''?'' \<and> c \<noteq> CHR ''#'' \<and> \<not> ctl_byte c)"

lemma url_unescape_plain: "CHR ''%'' \<notin> set s \<Longrightarrow> url_unescape False s = Some s"
  by (induction s) auto

lemma parse_target_plain: "plain_url p \<Longrightarrow> parse_target p = Some (p, p, [])"
proof -
  assume p: "plain_url p"
  then have "CHR ''#'' \<notin> set p" "CHR ''?'' \<notin> set p" "CHR ''%'' \<notin> set p" "\<not> list_ex ctl_byte p"
    by (auto simp: plain_url_def list_ex_iff)
  then show ?thesis by (simp add: parse_target_def cut_at_none url_unescape_plain)
qed

lemma parse_target_slash:
  assumes "parse_target (CHR ''/'' # t) = Some (path, escaped, raw)"
  shows "path \<noteq> []" "escaped \<noteq> []"
proof -
  obtain u f where u: "cut_at (CHR ''#'') t = (u, f)" by force
  obtain p q where q: "cut_at (CHR ''?'') u = (p, q)" by force
  from assms u q have "map_option ((#) (CHR ''/'')) (url_unescape False p) = Some path" "escaped = CHR ''/'' # p"
    by (auto simp: parse_target_def split: if_splits)
  then show "path \<noteq> []" "escaped \<noteq> []" by auto
qed

lemma cli_request_verified:
  assumes req: "cli_request E C c now q = Some r"
    and cred: "plain_cred c" and region: "vf_region v = cl_region c"
    and lookup: "vf_lookup v (cl_accessKey c) = Some creds" "cd_secretKey creds = cl_secretKey c"
    and time: "stamp_ok C now when" and skew: "\<bar>time_sub (vf_now v) when\<bar> \<le> maxSkew"
    and mac: "\<And>k m. cr_hmac C k m \<noteq> []" and sha: "sha256_hex E [] \<noteq> []"
    and host: "cl_host c \<noteq> []" "join_with '' '' (str_fields (cl_host c)) = cl_host c"
    and base: "cl_base c = [] \<or> hd (cl_base c) = CHR ''/''" and nosig: "val_get (rq_query r) ''X-Amz-Signature'' = []"
  shows "\<exists>sig. verify_request E C v r = Inr sig \<and> sg_creds sig = creds \<and> sg_date sig = when \<and>
    sg_payload sig = (if cq_payload q = [] then sha256_hex E [] else cq_payload q)"
proof -
  let ?t = "cl_base c @ cli_path c (cq_key q) @ (if cq_query q = [] then [] else ''?'' @ values_Encode (cq_query q))"
  have "?t \<noteq> [] \<and> hd ?t = CHR ''/''" using base by (cases "cl_base c") (simp_all add: cli_path_def)
  then obtain t where t: "?t = CHR ''/'' # t" by (cases ?t) auto
  from req obtain path escaped raw where p: "parse_target (CHR ''/'' # t) = Some (path, escaped, raw)"
    unfolding cli_request_def t Let_def by (auto split: option.splits)
  note ne = parse_target_slash [OF p]
  define r0 where "r0 = \<lparr>rq_method = cq_method q, rq_host = cl_host c, rq_urlHost = cl_host c, rq_path = path,
      rq_escaped = escaped, rq_rawQuery = raw, rq_query = ParseQuery raw,
      rq_header = fold (\<lambda>(k, vs) h. fold (val_add (CanonicalHeaderKey k)) vs h) (cq_header q) [],
      rq_length = (if 0 < cq_length q then cq_length q else 0), rq_body = cq_body q\<rparr>"
  define payload where "payload = (if cq_payload q = [] then sha256_hex E [] else cq_payload q)"
  have r: "r = signRequest E C c now payload r0"
    using req unfolding cli_request_def t Let_def p option.case prod.case r0_def payload_def by simp
  have "rq_query r = rq_query r0" by (simp add: r signRequest_def Let_def)
  then have "val_get (rq_query r0) ''X-Amz-Signature'' = []" using nosig by simp
  moreover have "payload \<noteq> []" using sha by (simp add: payload_def)
  ultimately show ?thesis
    unfolding r payload_def [symmetric]
    by (subst signRequest_accepted [OF cred region lookup time skew mac]) (use host ne in \<open>simp_all add: r0_def\<close>)
qed

text \<open>
  C26: what the client sends, the store accepts.  The client signs with code of its own;
  for every call, key and query, a client that has the bucket's key pair and a clock at
  most 15 minutes off produces a request the verifier accepts, under that pair and with
  the payload digest the client declared.
\<close>

theorem client_requests_are_accepted:
  assumes req: "cli_request E C c now q = Some r"
    and cred: "plain_cred c" and region: "vf_region v = cl_region c"
    and lookup: "vf_lookup v (cl_accessKey c) = Some creds" "cd_secretKey creds = cl_secretKey c"
    and time: "stamp_ok C now when" and skew: "\<bar>time_sub (vf_now v) when\<bar> \<le> maxSkew"
    and mac: "\<And>k m. cr_hmac C k m \<noteq> []" and sha: "sha256_hex E [] \<noteq> []"
    and host: "cl_host c \<noteq> []" "join_with '' '' (str_fields (cl_host c)) = cl_host c"
    and base: "cl_base c = [] \<or> hd (cl_base c) = CHR ''/''" and nosig: "val_get (rq_query r) ''X-Amz-Signature'' = []"
  shows "\<exists>sig. verify_request E C v r = Inr sig \<and> sg_creds sig = creds \<and> sg_date sig = when \<and>
    sg_payload sig = (if cq_payload q = [] then sha256_hex E [] else cq_payload q)"
  using cli_request_verified [OF req cred region lookup time skew mac sha host base nosig] .

subsection \<open>A concrete exchange\<close>

definition demo_crypto :: crypto where
  "demo_crypto = \<lparr>cr_hmac = (\<lambda>k m. ''m''), cr_amzDate = (\<lambda>t. ''20260101T000000Z''), cr_shortDate = (\<lambda>t. ''20260101''),
     cr_parseAmz = (\<lambda>s. Some 7), cr_parseHTTP = (\<lambda>s. None), cr_quote = (\<lambda>s. s)\<rparr>"

definition demo_client :: client where
  "demo_client = \<lparr>cl_base = [], cl_host = ''s3:9200'', cl_bucket = ''media'', cl_region = ''tana'', cl_accessKey = ''AK'',
     cl_secretKey = ''SK''\<rparr>"

definition demo_creds :: credentials where
  "demo_creds = \<lparr>cd_accessKey = ''AK'', cd_secretKey = ''SK'', cd_bucket = ''media''\<rparr>"

definition demo_verifier :: verifier where
  "demo_verifier = \<lparr>vf_lookup = (\<lambda>k. if k = ''AK'' then Some demo_creds else None), vf_region = ''tana'', vf_now = 9\<rparr>"

definition demo_request :: httpreq where
  "demo_request = the (cli_request demo_env demo_crypto demo_client 7 (get_request ''a.jpg''))"

lemma demo_target: "parse_target ''/media/a.jpg'' = Some (''/media/a.jpg'', ''/media/a.jpg'', [])"
  by code_simp

lemma demo_sent: "cli_request demo_env demo_crypto demo_client 7 (get_request ''a.jpg'') = Some demo_request"
proof -
  have "cl_base demo_client @ cli_path demo_client ''a.jpg'' = ''/media/a.jpg''"
    by (simp add: demo_client_def cli_path_def)
  then have "\<exists>r. cli_request demo_env demo_crypto demo_client 7 (get_request ''a.jpg'') = Some r"
    by (simp add: cli_request_def get_request_def bare_request_def demo_target Let_def)
  then show ?thesis by (auto simp: demo_request_def)
qed

theorem client_requests_are_accepted_witness:
  "\<exists>sig. verify_request demo_env demo_crypto demo_verifier demo_request = Inr sig \<and> sg_creds sig = demo_creds"
proof -
  have q: "val_get (rq_query demo_request) ''X-Amz-Signature'' = []"
  proof -
    have "cl_base demo_client @ cli_path demo_client ''a.jpg'' = ''/media/a.jpg''"
      by (simp add: demo_client_def cli_path_def)
    moreover have "val_get (ParseQuery []) ''X-Amz-Signature'' = []" by code_simp
    ultimately show ?thesis
      by (simp add: demo_request_def cli_request_def get_request_def bare_request_def demo_target Let_def signRequest_def)
  qed
  have c: "plain_cred demo_client" "stamp_ok demo_crypto 7 7" "sha256_hex demo_env [] \<noteq> []"
    by (simp_all add: plain_cred_def demo_client_def stamp_ok_def demo_crypto_def demo_env_def pad_hex_def)
  have h: "cl_host demo_client \<noteq> []" "join_with '' '' (str_fields (cl_host demo_client)) = cl_host demo_client" by code_simp+
  have v: "vf_region demo_verifier = cl_region demo_client" "vf_lookup demo_verifier (cl_accessKey demo_client) = Some demo_creds"
    "cd_secretKey demo_creds = cl_secretKey demo_client" "\<bar>time_sub (vf_now demo_verifier) 7\<bar> \<le> maxSkew"
    "cl_base demo_client = []" "cr_hmac demo_crypto k m \<noteq> []" for k m
    by (simp_all add: demo_verifier_def demo_client_def demo_creds_def time_sub_def maxSkew_def demo_crypto_def)
  from client_requests_are_accepted [OF demo_sent c(1) v(1,2,3) c(2) v(4,6) c(3) h disjI1 [OF v(5)] q]
  show ?thesis by blast
qed

subsection \<open>Two requests under one signature\<close>

lemma hdr_set_lines: "NL \<notin> set v \<Longrightarrow> \<forall>(k, vs) \<in> set h. \<forall>v \<in> set vs. NL \<notin> set v \<Longrightarrow> \<forall>(k, vs) \<in> set (hdr_set n v h). \<forall>v \<in> set vs. NL \<notin> set v"
  by (auto simp: hdr_set_def)

lemma cli_sign_no_NL: "NL \<notin> set (cli_sign E C c now scope doc)"
proof -
  have "\<not> unreserved NL" by (simp add: unreserved_def NL_def)
  then show ?thesis unfolding cli_sign_def Let_def using hex_encode_plain by blast
qed

lemma one_line_signed:
  assumes "one_line r" "rq_host r \<noteq> []" "NL \<notin> set (cl_accessKey c @ cl_region c @ cr_shortDate C now @ cr_amzDate C now @ payload)"
  shows "one_line (signRequest E C c now payload r)"
proof -
  have sh: "NL \<notin> set (join_with '';'' cli_signed)" by code_simp
  have fixed: "NL \<notin> set (algorithm @ '' Credential='')" "NL \<notin> set '', SignedHeaders=''" "NL \<notin> set '', Signature=''"
    "NL \<notin> set (''/'' @ service @ ''/'' @ terminator)"
    by (simp_all add: algorithm_def service_def terminator_def NL_def)
  have h: "\<forall>(k, vs) \<in> set (hdr_set ''X-Amz-Content-Sha256'' payload (hdr_set ''X-Amz-Date'' (cr_amzDate C now) (rq_header r))).
      \<forall>v \<in> set vs. NL \<notin> set v"
    by (intro hdr_set_lines) (use assms in \<open>simp_all add: one_line_def\<close>)
  have auth: "NL \<notin> set (algorithm @ '' Credential='' @ cl_accessKey c @ ''/'' @ cli_scope C c now @ '', SignedHeaders='' @
      join_with '';'' cli_signed @ '', Signature='' @ cli_sign E C c now scope doc)" for scope doc
    using fixed sh cli_sign_no_NL assms(3) by (simp add: cli_scope_def)
  have eq: "\<exists>doc. signRequest E C c now payload r = r\<lparr>rq_header := hdr_set ''Authorization''
      (algorithm @ '' Credential='' @ cl_accessKey c @ ''/'' @ cli_scope C c now @ '', SignedHeaders='' @
        join_with '';'' cli_signed @ '', Signature='' @ cli_sign E C c now (cli_scope C c now) doc)
      (hdr_set ''X-Amz-Content-Sha256'' payload (hdr_set ''X-Amz-Date'' (cr_amzDate C now) (rq_header r)))\<rparr>"
    unfolding signRequest_def Let_def cli_signed_sorted using assms(2) by (intro exI) simp
  then obtain doc where eq: "signRequest E C c now payload r = r\<lparr>rq_header := hdr_set ''Authorization''
      (algorithm @ '' Credential='' @ cl_accessKey c @ ''/'' @ cli_scope C c now @ '', SignedHeaders='' @
        join_with '';'' cli_signed @ '', Signature='' @ cli_sign E C c now (cli_scope C c now) doc)
      (hdr_set ''X-Amz-Content-Sha256'' payload (hdr_set ''X-Amz-Date'' (cr_amzDate C now) (rq_header r)))\<rparr>" by blast
  show ?thesis unfolding eq using assms(1) hdr_set_lines [OF auth h, of "''Authorization''"] by (simp add: one_line_def)
qed

definition demo_get :: "urlvals \<Rightarrow> httpreq" where
  "demo_get h = \<lparr>rq_method = ''GET'', rq_host = ''s3'', rq_urlHost = [], rq_path = ''/media/a'', rq_escaped = ''/media/a'',
     rq_rawQuery = [], rq_query = [], rq_header = h, rq_length = 0, rq_body = ([], None)\<rparr>"

definition demo_inj_env :: env where "demo_inj_env = demo_env\<lparr>sha256_hex := \<lambda>d. d @ ''h''\<rparr>"
definition demo_inj_crypto :: crypto where "demo_inj_crypto = demo_crypto\<lparr>cr_hmac := \<lambda>k m. m @ ''k''\<rparr>"

lemma demo_get_verified:
  assumes h: "val_get h ''Authorization'' = []" "\<forall>(k, vs) \<in> set h. \<forall>v \<in> set vs. NL \<notin> set v"
  defines "r \<equiv> signRequest demo_inj_env demo_inj_crypto demo_client 7 ''p'' (demo_get h)"
  shows "\<exists>s. verifyHeader demo_inj_env demo_inj_crypto demo_verifier r = Inr s \<and> sg_payload s = ''p'' \<and>
      sg_seed s = cli_sign demo_inj_env demo_inj_crypto demo_client 7 (cli_scope demo_inj_crypto demo_client 7)
         (canonicalRequest (demo_get (hdr_set ''X-Amz-Content-Sha256'' ''p'' (hdr_set ''X-Amz-Date'' ''20260101T000000Z'' []))) cli_signed ''p'' None)"
    and "one_line r" "rq_escaped r = ''/media/a''" "rq_path r = ''/media/a''"
proof -
  let ?g = "demo_get (hdr_set ''X-Amz-Content-Sha256'' ''p'' (hdr_set ''X-Amz-Date'' ''20260101T000000Z'' h))"
  let ?base = "demo_get (hdr_set ''X-Amz-Content-Sha256'' ''p'' (hdr_set ''X-Amz-Date'' ''20260101T000000Z'' []))"
  have p: "plain_cred demo_client" "vf_region demo_verifier = cl_region demo_client"
    "vf_lookup demo_verifier (cl_accessKey demo_client) = Some demo_creds" "cd_secretKey demo_creds = cl_secretKey demo_client"
    "stamp_ok demo_inj_crypto 7 7" "\<bar>time_sub (vf_now demo_verifier) 7\<bar> \<le> maxSkew" "cr_hmac demo_inj_crypto k m \<noteq> []" for k m
    by (simp_all add: plain_cred_def demo_client_def stamp_ok_def demo_inj_crypto_def demo_crypto_def demo_verifier_def demo_creds_def
        time_sub_def maxSkew_def)
  have w: "join_with '' '' (str_fields ''s3'') = ''s3''" by code_simp
  have e: "(demo_get h)\<lparr>rq_header := hdr_set ''X-Amz-Content-Sha256'' ''p'' (hdr_set ''X-Amz-Date'' (cr_amzDate demo_inj_crypto 7) (rq_header (demo_get h)))\<rparr> = ?g"
    by (simp add: demo_get_def demo_inj_crypto_def demo_crypto_def)
  have "verify_request demo_inj_env demo_inj_crypto demo_verifier r =
    Inr \<lparr>sg_creds = demo_creds, sg_scope = cli_scope demo_inj_crypto demo_client 7, sg_date = 7,
         sg_seed = cli_sign demo_inj_env demo_inj_crypto demo_client 7 (cli_scope demo_inj_crypto demo_client 7)
            (canonicalRequest ?g cli_signed ''p'' None), sg_payload = ''p'', sg_presigned = False\<rparr>"
    unfolding r_def by (subst signRequest_accepted [OF p(1-7)]) (simp_all add: e, simp_all add: demo_get_def w val_get_def val_all_def)
  moreover have "verify_request demo_inj_env demo_inj_crypto demo_verifier r = verifyHeader demo_inj_env demo_inj_crypto demo_verifier r"
    by (simp add: verify_request_def r_def signRequest_def Let_def demo_get_def val_get_def val_all_def)
  moreover have "canonicalRequest ?g cli_signed ''p'' None = canonicalRequest ?base cli_signed ''p'' None"
  proof -
    have "canonicalHeaderValue ?g n = canonicalHeaderValue ?base n" if "n \<in> set cli_signed" for n
      using that by (auto simp: canonicalHeaderValue_def demo_get_def cli_signed_def)
    then have "header_lines ?g cli_signed = header_lines ?base cli_signed"
      unfolding header_lines_def by (intro arg_cong [of _ _ concat] map_cong) simp_all
    moreover have "rq_method ?g = rq_method ?base" "canonicalURI ?g = canonicalURI ?base" "rq_query ?g = rq_query ?base"
      by (simp_all add: demo_get_def canonicalURI_def)
    ultimately show ?thesis unfolding canonicalRequest_def Let_def cli_signed_sorted option.case by (simp only:)
  qed
  ultimately show "\<exists>s. verifyHeader demo_inj_env demo_inj_crypto demo_verifier r = Inr s \<and> sg_payload s = ''p'' \<and>
      sg_seed s = cli_sign demo_inj_env demo_inj_crypto demo_client 7 (cli_scope demo_inj_crypto demo_client 7)
         (canonicalRequest ?base cli_signed ''p'' None)" by simp
  show "one_line r" unfolding r_def
    by (rule one_line_signed) (use h in \<open>simp_all add: one_line_def demo_get_def demo_client_def demo_inj_crypto_def demo_crypto_def NL_def\<close>)
  show "rq_escaped r = ''/media/a''" "rq_path r = ''/media/a''"
    by (simp_all add: r_def signRequest_def Let_def demo_get_def)
qed


text \<open>
  A key is written into the URL as it is: what follows a question mark becomes the query,
  so the object is stored under the part before it, and a percent sign must begin an
  escape or the request is never sent.
\<close>

lemma question_mark_reaches_another_object:
  "parse_target (cli_path demo_client ''a?b.jpg'') = Some (''/media/a'', ''/media/a'', ''b.jpg'')"
  by code_simp

lemma percent_sign_is_never_sent: "parse_target (cli_path demo_client ''100%.jpg'') = None"
  by code_simp

end
