(* ===== verification/Chunked.thy ===== *)
theory Chunked
  imports Sigv4Laws
begin

text \<open>
  internal/s3/chunked.go: the aws-chunked body.  The reader's input is what the connection
  still delivers and how it ends; \<open>nextChunk\<close> reads, verifies and buffers one chunk, and
  \<open>Read\<close> serves the buffer.  \<open>ck_drain\<close> is what all the reads of a consumer return together.
\<close>

subsection \<open>Reading lines\<close>

text \<open>An error of a read: the end of the input, or a failure.\<close>

datatype rderr = REof | RErr gerr

definition end_err :: "gerr option \<Rightarrow> rderr" where
  "end_err e = (case e of None \<Rightarrow> REof | Some g \<Rightarrow> RErr g)"

definition chunkAlgorithm :: string where "chunkAlgorithm = ''AWS4-HMAC-SHA256-PAYLOAD''"
definition maxChunkSize :: int where "maxChunkSize = push_bit 20 32"
definition maxTrailers :: nat where "maxTrailers = 16"

definition CRLF :: string where "CRLF = [CR, NL]"

definition trim_eol :: "string \<Rightarrow> string" where
  "trim_eol s = rev (dropWhile (\<lambda>c. c = CR \<or> c = NL) (rev s))"

text \<open>\<open>readLine\<close>: the part up to a line break, or what is left when there is none; nothing left is an error.\<close>

definition readLine :: "string \<times> gerr option \<Rightarrow> (string \<times> gerr option) \<times> (rderr + string)" where
  "readLine inp =
     (case cut_at NL (fst inp) of
        (line, Some rest) \<Rightarrow> ((rest, snd inp), Inr (trim_eol (line @ [NL])))
      | (line, None) \<Rightarrow>
          if line = [] then (inp, Inl (end_err (snd inp))) else (([], snd inp), Inr (trim_eol line)))"

lemma readLine_shorter: "readLine inp = (inp', Inr line) \<Longrightarrow> length (fst inp') < length (fst inp)"
  by (auto simp: readLine_def split: prod.splits option.splits if_splits dest: cut_at_shorter)

lemma readLine_end: "readLine inp = (inp', r) \<Longrightarrow> length (fst inp') \<le> length (fst inp) \<and> snd inp' = snd inp"
  by (auto simp: readLine_def split: prod.splits option.splits if_splits dest: cut_at_shorter)

text \<open>\<open>ParseInt(s, 16, 64)\<close>.\<close>

definition hexc_val :: "char \<Rightarrow> nat option" where
  "hexc_val c =
     (let n = (of_char c :: nat) in
      if 48 \<le> n \<and> n \<le> 57 then Some (n - 48)
      else if 97 \<le> n \<and> n \<le> 102 then Some (n - 87)
      else if 65 \<le> n \<and> n \<le> 70 then Some (n - 55)
      else None)"

definition hex_value :: "string \<Rightarrow> int" where
  "hex_value ds = foldl (\<lambda>a c. 16 * a + (case hexc_val c of None \<Rightarrow> 0 | Some d \<Rightarrow> int d)) 0 ds"

definition parse_hex :: "string \<Rightarrow> int option" where
  "parse_hex s =
     (let neg = (s \<noteq> [] \<and> hd s = CHR ''-'');
          ds = (if s \<noteq> [] \<and> (hd s = CHR ''-'' \<or> hd s = CHR ''+'') then tl s else s)
      in if ds = [] \<or> list_ex (\<lambda>c. hexc_val c = None) ds then None
         else let v = hex_value ds in
              if neg then (if v \<le> 2 ^ 63 then Some (- v) else None)
              else (if v < 2 ^ 63 then Some v else None))"

subsection \<open>The reader\<close>

record chunkctx =
  cx_key :: string
  cx_stamp :: string
  cx_scope :: string
  cx_empty :: string
  cx_verify :: bool

record chunkst =
  ck_in :: "string \<times> gerr option"
  ck_prev :: string
  ck_buf :: string
  ck_off :: nat
  ck_done :: bool
  ck_err :: "rderr option"

definition chunk_ctx :: "env \<Rightarrow> crypto \<Rightarrow> signature \<Rightarrow> string \<Rightarrow> chunkctx" where
  "chunk_ctx E C sig region =
     \<lparr>cx_key = signingKey C (cd_secretKey (sg_creds sig)) (sg_date sig) region, cx_stamp = cr_amzDate C (sg_date sig),
      cx_scope = sg_scope sig, cx_empty = emptyPayloadHash E, cx_verify = chunksSigned sig\<rparr>"

definition newChunkedReader :: "string \<times> gerr option \<Rightarrow> signature \<Rightarrow> chunkst" where
  "newChunkedReader body sig =
     \<lparr>ck_in = body, ck_prev = sg_seed sig, ck_buf = [], ck_off = 0, ck_done = False, ck_err = None\<rparr>"

definition signChunk :: "env \<Rightarrow> crypto \<Rightarrow> chunkctx \<Rightarrow> string \<Rightarrow> string \<Rightarrow> string" where
  "signChunk E C X prev data =
     hex_encode (cr_hmac C (cx_key X)
       (join_with [NL] [chunkAlgorithm, cx_stamp X, cx_scope X, prev, cx_empty X, sha256_hex E data]))"

definition chunkSignature :: "string \<Rightarrow> gerr + string" where
  "chunkSignature meta =
     (case cut_prefix (trim_space meta) ''chunk-signature='' of
        None \<Rightarrow> Inl (Errf ''aws-chunked: chunk is missing its signature'')
      | Some sig \<Rightarrow> Inr sig)"

text \<open>At most \<open>n\<close> lines up to an empty one or the end.\<close>

fun skip_trailers :: "nat \<Rightarrow> string \<times> gerr option \<Rightarrow> (string \<times> gerr option) \<times> rderr option" where
  "skip_trailers 0 inp = (inp, Some (RErr (Errf ''aws-chunked: too many trailing headers'')))"
| "skip_trailers (Suc n) inp =
     (case readLine inp of
        (inp1, Inl REof) \<Rightarrow> (inp1, None)
      | (inp1, Inl e) \<Rightarrow> (inp1, Some e)
      | (inp1, Inr line) \<Rightarrow> if line = [] then (inp1, None) else skip_trailers n inp1)"

text \<open>The header of a chunk; some clients emit a bare line break before it.\<close>

definition chunk_header :: "string \<times> gerr option \<Rightarrow> (string \<times> gerr option) \<times> (rderr + string)" where
  "chunk_header inp =
     (case readLine inp of
        (inp1, Inr []) \<Rightarrow> readLine inp1
      | r \<Rightarrow> r)"

text \<open>The size a header claims and its signature when there must be one.\<close>

definition chunk_meta :: "chunkctx \<Rightarrow> string \<Rightarrow> gerr + (int \<times> string)" where
  "chunk_meta X header =
     (case cut_at (CHR '';'') header of (sizeHex, meta) \<Rightarrow>
        (case parse_hex (trim_space sizeHex) of
           None \<Rightarrow> Inl (Errf ''aws-chunked: malformed chunk size'')
         | Some n \<Rightarrow>
             if n < 0 then Inl (Errf ''aws-chunked: malformed chunk size'')
             else if maxChunkSize < n then Inl (Errf ''aws-chunked: chunk exceeds the limit'')
             else if cx_verify X then
               res_bind (chunkSignature (case meta of None \<Rightarrow> [] | Some m \<Rightarrow> m)) (\<lambda>sig. Inr (n, sig))
             else Inr (n, [])))"

definition nextChunk :: "env \<Rightarrow> crypto \<Rightarrow> chunkctx \<Rightarrow> chunkst \<Rightarrow> chunkst \<times> rderr option" where
  "nextChunk E C X c =
     (case chunk_header (ck_in c) of
        (inp1, Inl e) \<Rightarrow> (c\<lparr>ck_in := inp1\<rparr>, Some e)
      | (inp1, Inr header) \<Rightarrow>
          (case chunk_meta X header of
             Inl e \<Rightarrow> (c\<lparr>ck_in := inp1\<rparr>, Some (RErr e))
           | Inr (n, sig) \<Rightarrow>
               if length (fst inp1) < nat n
               then (c\<lparr>ck_in := ([], snd inp1)\<rparr>, Some (RErr (Errf ''aws-chunked: short chunk'')))
               else
                 let data = take (nat n) (fst inp1) in
                 (case readLine (drop (nat n) (fst inp1), snd inp1) of
                    (inp2, Inl e) \<Rightarrow> (c\<lparr>ck_in := inp2\<rparr>, Some e)
                  | (inp2, Inr _) \<Rightarrow>
                      let expected = signChunk E C X (ck_prev c) data in
                      if cx_verify X \<and> expected \<noteq> sig
                      then (c\<lparr>ck_in := inp2\<rparr>, Some (RErr (Errf ''aws-chunked: chunk signature does not match'')))
                      else
                        let c1 = (if cx_verify X then c\<lparr>ck_in := inp2, ck_prev := expected\<rparr> else c\<lparr>ck_in := inp2\<rparr>) in
                        if n = 0 then
                          (case skip_trailers maxTrailers inp2 of
                             (inp3, e) \<Rightarrow> (c1\<lparr>ck_done := True, ck_in := inp3\<rparr>, e))
                        else (c1\<lparr>ck_buf := data, ck_off := 0\<rparr>, None))))"

lemma skip_trailers_shorter: "length (fst (fst (skip_trailers n inp))) \<le> length (fst inp)"
proof (induction n arbitrary: inp)
  case (Suc n)
  obtain inp1 r where r: "readLine inp = (inp1, r)" by (cases "readLine inp")
  have "length (fst inp1) \<le> length (fst inp)" using readLine_end [OF r] by blast
  then show ?case using r Suc.IH [of inp1] by (auto split: sum.splits rderr.splits)
qed simp

lemma chunk_header_shorter: "chunk_header inp = (inp', Inr h) \<Longrightarrow> length (fst inp') < length (fst inp)"
  by (auto simp: chunk_header_def split: prod.splits sum.splits list.splits dest!: readLine_shorter)

lemma nextChunk_shorter:
  assumes "nextChunk E C X c = (c', None)"
  shows "length (fst (ck_in c')) < length (fst (ck_in c))"
proof -
  obtain inp1 header where h: "chunk_header (ck_in c) = (inp1, Inr header)"
    using assms by (auto simp: nextChunk_def split: prod.splits sum.splits)
  obtain n sig where m: "chunk_meta X header = Inr (n, sig)"
    using assms h by (auto simp: nextChunk_def split: prod.splits sum.splits)
  have len: "\<not> length (fst inp1) < nat n" using assms h m by (auto simp: nextChunk_def split: if_splits)
  obtain inp2 l where l: "readLine (drop (nat n) (fst inp1), snd inp1) = (inp2, Inr l)"
    using assms h m len by (auto simp: nextChunk_def Let_def split: prod.splits sum.splits)
  have "length (fst (ck_in c')) \<le> length (fst inp2)"
    using assms h m len l skip_trailers_shorter [of maxTrailers inp2]
    by (auto simp: nextChunk_def Let_def split: prod.splits if_splits)
  also have "\<dots> < length (fst (ck_in c))"
    using readLine_shorter [OF l] chunk_header_shorter [OF h] by simp
  finally show ?thesis .
qed

text \<open>One \<open>Read\<close> into \<open>n\<close> bytes.\<close>

function ck_Read :: "env \<Rightarrow> crypto \<Rightarrow> chunkctx \<Rightarrow> nat \<Rightarrow> chunkst \<Rightarrow> chunkst \<times> string \<times> rderr option" where
  "ck_Read E C X n c =
     (if ck_off c < length (ck_buf c) then
        (let s = take n (drop (ck_off c) (ck_buf c)) in (c\<lparr>ck_off := ck_off c + length s\<rparr>, s, None))
      else
        (case ck_err c of
           Some e \<Rightarrow> (c, [], Some e)
         | None \<Rightarrow>
             if ck_done c then (c, [], Some REof)
             else
               (case nextChunk E C X c of
                  (c1, Some e) \<Rightarrow> (c1\<lparr>ck_err := Some e\<rparr>, [], Some e)
                | (c1, None) \<Rightarrow> ck_Read E C X n c1)))"
  by pat_completeness auto
termination
  by (relation "measure (\<lambda>(E, C, X, n, c). length (fst (ck_in c)))") (auto intro: nextChunk_shorter [OF sym])

declare ck_Read.simps [simp del]

text \<open>What the reads of a consumer return together, and how they end; a clean end is no error.\<close>

definition end_of :: "rderr \<Rightarrow> gerr option" where
  "end_of e = (case e of REof \<Rightarrow> None | RErr g \<Rightarrow> Some g)"

definition ck_served :: "chunkst \<Rightarrow> chunkst" where
  "ck_served c = c\<lparr>ck_off := length (ck_buf c)\<rparr>"

function ck_rest :: "env \<Rightarrow> crypto \<Rightarrow> chunkctx \<Rightarrow> chunkst \<Rightarrow> string \<times> gerr option" where
  "ck_rest E C X c =
     (case ck_err c of
        Some e \<Rightarrow> ([], end_of e)
      | None \<Rightarrow>
          if ck_done c then ([], None)
          else
            (case nextChunk E C X c of
               (c1, Some e) \<Rightarrow> ([], end_of e)
             | (c1, None) \<Rightarrow>
                 (case ck_rest E C X (ck_served c1) of (rest, e) \<Rightarrow> (drop (ck_off c1) (ck_buf c1) @ rest, e))))"
  by pat_completeness auto
termination
  by (relation "measure (\<lambda>(E, C, X, c). length (fst (ck_in c)))")
    (auto simp: ck_served_def intro: nextChunk_shorter [OF sym])

declare ck_rest.simps [simp del]

definition ck_drain :: "env \<Rightarrow> crypto \<Rightarrow> chunkctx \<Rightarrow> chunkst \<Rightarrow> string \<times> gerr option" where
  "ck_drain E C X c = (case ck_rest E C X (ck_served c) of (rest, e) \<Rightarrow> (drop (ck_off c) (ck_buf c) @ rest, e))"

end
