(* ===== verification/ChunkedLaws.thy ===== *)
theory ChunkedLaws
  imports S3ClientLaws Chunked
begin

text \<open>
  What a consumer of an aws-chunked body reads.  The pieces the single reads return add up
  to the payload; a framed payload is read back as it was; two streams whose last accepted
  presented signatures agree carried the same chunks; and a stream cut between two chunks is taken
  for a whole one.
\<close>

subsection \<open>Single reads\<close>

definition in_buffer :: "chunkst \<Rightarrow> bool" where
  "in_buffer c \<longleftrightarrow> ck_off c \<le> length (ck_buf c)"

lemma served_all: "in_buffer c \<Longrightarrow> \<not> ck_off c < length (ck_buf c) \<Longrightarrow> ck_served c = c"
  by (simp add: in_buffer_def ck_served_def)

lemma nextChunk_in_buffer: "nextChunk E C X c = (c', e) \<Longrightarrow> in_buffer c \<Longrightarrow> in_buffer c'"
  by (auto simp: nextChunk_def in_buffer_def Let_def split: prod.splits sum.splits if_splits)

lemma ck_Read_drain:
  "ck_Read E C X n c = (c', s, e) \<Longrightarrow> in_buffer c \<Longrightarrow>
     in_buffer c' \<and>
     (case e of None \<Rightarrow> ck_drain E C X c = (s @ fst (ck_drain E C X c'), snd (ck_drain E C X c'))
      | Some r \<Rightarrow> s = [] \<and> ck_drain E C X c = ([], end_of r))"
proof (induction E C X n c rule: ck_Read.induct)
  case (1 E C X n c)
  show ?case
  proof (cases "ck_off c < length (ck_buf c)")
    case True
    then have c': "c' = c\<lparr>ck_off := ck_off c + length s\<rparr>" "s = take n (drop (ck_off c) (ck_buf c))" "e = None"
      using "1.prems"(1) by (auto simp: ck_Read.simps [of E C X n c] Let_def)
    have sv: "ck_served c' = ck_served c" using c' by (simp add: ck_served_def)
    have dr: "drop (ck_off c) (ck_buf c) = s @ drop (ck_off c') (ck_buf c')"
    proof (cases "n \<le> length (ck_buf c) - ck_off c")
      case True
      then show ?thesis using c'(1,2) append_take_drop_id [of n "drop (ck_off c) (ck_buf c)"]
        by (simp add: add.commute min_def)
    next
      case False
      then show ?thesis using c'(1,2) by simp
    qed
    have "ck_drain E C X c = (s @ fst (ck_drain E C X c'), snd (ck_drain E C X c'))"
      unfolding ck_drain_def sv dr by (simp split: prod.split)
    moreover have "ck_off c' \<le> length (ck_buf c')" using True unfolding c'(1) by (simp add: c'(2))
    ultimately show ?thesis by (simp add: c'(3) in_buffer_def)
  next
    case False
    have sv: "ck_served c = c" "drop (ck_off c) (ck_buf c) = []"
      using False served_all [OF "1.prems"(2)] by simp_all
    have dr: "ck_drain E C X c = ck_rest E C X c" by (simp add: ck_drain_def sv split: prod.split)
    show ?thesis
    proof (cases "ck_err c")
      case (Some a)
      then have "ck_Read E C X n c = (c, [], Some a)" using False by (simp add: ck_Read.simps [of E C X n c])
      moreover have "ck_rest E C X c = ([], end_of a)" using Some by (simp add: ck_rest.simps [of E C X c])
      ultimately show ?thesis using "1.prems" dr by simp
    next
      case no_err: None
      show ?thesis
      proof (cases "ck_done c")
        case True
        then have "ck_Read E C X n c = (c, [], Some REof)" using False no_err by (simp add: ck_Read.simps [of E C X n c])
        moreover have "ck_rest E C X c = ([], None)" using True no_err by (simp add: ck_rest.simps [of E C X c])
        ultimately show ?thesis using "1.prems" dr by (simp add: end_of_def)
      next
        case open_c: False
        obtain c1 r where nx: "nextChunk E C X c = (c1, r)" by (cases "nextChunk E C X c")
        have ib: "in_buffer c1" using nextChunk_in_buffer [OF nx "1.prems"(2)] .
        show ?thesis
        proof (cases r)
          case None
          have "ck_Read E C X n c = ck_Read E C X n c1"
            using False no_err open_c nx None by (simp add: ck_Read.simps [of E C X n c])
          then have rd: "ck_Read E C X n c1 = (c', s, e)" using "1.prems"(1) by simp
          have "ck_rest E C X c = ck_drain E C X c1"
            using no_err open_c nx None by (simp add: ck_drain_def ck_rest.simps [of E C X c])
          then show ?thesis using "1.IH" [OF False no_err open_c nx [symmetric] None rd ib] dr by (simp split: option.splits)
        next
          case (Some a)
          have "ck_Read E C X n c = (c1\<lparr>ck_err := Some a\<rparr>, [], Some a)"
            using False no_err open_c nx Some by (simp add: ck_Read.simps [of E C X n c])
          moreover have "ck_rest E C X c = ([], end_of a)"
            using no_err open_c nx Some by (simp add: ck_rest.simps [of E C X c])
          ultimately show ?thesis using "1.prems" dr ib by (auto simp: in_buffer_def)
        qed
      qed
    qed
  qed
qed

text \<open>The reads of a consumer with the sizes it asks for, up to the first that reports an end.\<close>

fun ck_reads :: "env \<Rightarrow> crypto \<Rightarrow> chunkctx \<Rightarrow> nat list \<Rightarrow> chunkst \<Rightarrow> string \<times> rderr option" where
  "ck_reads E C X [] c = ([], None)"
| "ck_reads E C X (n # ns) c =
     (case ck_Read E C X n c of
        (c1, s, Some e) \<Rightarrow> (s, Some e)
      | (c1, s, None) \<Rightarrow> (case ck_reads E C X ns c1 of (t, e) \<Rightarrow> (s @ t, e)))"

lemma reads_add_up:
  "in_buffer c \<Longrightarrow> ck_reads E C X ns c = (s, Some r) \<Longrightarrow> ck_drain E C X c = (s, end_of r)"
  by (induction ns arbitrary: c s) (fastforce split: prod.splits option.splits dest!: ck_Read_drain)+

subsection \<open>A framed payload\<close>

text \<open>A size in hexadecimal, one frame, and the frames of a list of chunks up to the final empty one.\<close>

fun hex_digits :: "nat \<Rightarrow> string" where
  "hex_digits n = (if n < 16 then [lower_hex n] else hex_digits (n div 16) @ [lower_hex (n mod 16)])"

declare hex_digits.simps [simp del]

definition chunk_frame :: "env \<Rightarrow> crypto \<Rightarrow> chunkctx \<Rightarrow> string \<Rightarrow> string \<Rightarrow> string" where
  "chunk_frame E C X prev data =
     (hex_digits (length data) @ (if cx_verify X then '';chunk-signature='' @ signChunk E C X prev data else []))
     @ CRLF @ data @ CRLF"

definition chain_next :: "env \<Rightarrow> crypto \<Rightarrow> chunkctx \<Rightarrow> string \<Rightarrow> string \<Rightarrow> string" where
  "chain_next E C X prev data = (if cx_verify X then signChunk E C X prev data else prev)"

fun chunk_frames :: "env \<Rightarrow> crypto \<Rightarrow> chunkctx \<Rightarrow> string \<Rightarrow> string list \<Rightarrow> string" where
  "chunk_frames E C X prev [] = []"
| "chunk_frames E C X prev (d # ds) = chunk_frame E C X prev d @ chunk_frames E C X (chain_next E C X prev d) ds"

lemma hexc_lower: "d < 16 \<Longrightarrow> hexc_val (lower_hex d) = Some d"
proof -
  assume "d < 16"
  then have "(of_char (lower_hex d) :: nat) = (if d < 10 then 48 + d else 87 + d)" by (simp add: lower_hex_def)
  then show ?thesis using \<open>d < 16\<close> by (simp add: hexc_val_def Let_def)
qed

lemma hex_digits_char: "c \<in> set (hex_digits n) \<Longrightarrow> \<exists>d < 16. c = lower_hex d"
proof (induction n rule: hex_digits.induct)
  case (1 n)
  then consider "n < 16" "c = lower_hex n" | "\<not> n < 16" "c \<in> set (hex_digits (n div 16))" | "c = lower_hex (n mod 16)"
    by (auto simp: hex_digits.simps [of n] split: if_splits)
  then show ?case
  proof cases
    case 3
    then show ?thesis by (intro exI [of _ "n mod 16"]) simp
  qed (use 1 in auto)
qed

lemma hex_digits_plain: "c \<in> set (hex_digits n) \<Longrightarrow> unreserved c \<and> hexc_val c \<noteq> None"
  using hex_digits_char [of c n] by (auto simp: lower_hex_plain hexc_lower)

lemma hex_digits_nonempty [simp]: "hex_digits n \<noteq> []"
  by (simp add: hex_digits.simps [of n])

lemma hex_digits_value: "hex_value (hex_digits n) = int n"
proof (induction n rule: hex_digits.induct)
  case (1 n)
  show ?case
  proof (cases "n < 16")
    case True
    then show ?thesis by (simp add: hex_digits.simps [of n] hex_value_def hexc_lower)
  next
    case False
    have "16 * int (n div 16) + int (n mod 16) = int n" by (simp add: zdiv_int zmod_int)
    then show ?thesis using "1.IH" False by (simp add: hex_digits.simps [of n] hex_value_def hexc_lower)
  qed
qed

lemma hex_digits_parse: "n < 2 ^ 63 \<Longrightarrow> parse_hex (trim_space (hex_digits n)) = Some (int n)"
proof -
  assume n: "n < 2 ^ 63"
  have h: "hd (hex_digits n) \<in> set (hex_digits n)" "last (hex_digits n) \<in> set (hex_digits n)" by simp_all
  then have "\<not> is_space (hd (hex_digits n))" "\<not> is_space (last (hex_digits n))"
    using hex_digits_plain unreserved_not_space by blast+
  then have t: "trim_space (hex_digits n) = hex_digits n" by (simp add: trim_space_plain)
  have v: "hexc_val (CHR ''-'') = None" "hexc_val (CHR ''+'') = None" by code_simp+
  then have "hd (hex_digits n) \<noteq> CHR ''-''" "hd (hex_digits n) \<noteq> CHR ''+''"
    using hex_digits_plain [OF h(1)] by auto
  moreover have "\<not> list_ex (\<lambda>c. hexc_val c = None) (hex_digits n)"
    using hex_digits_plain by (auto simp: list_ex_iff)
  moreover have "int n < 2 ^ 63" using n by simp
  ultimately show ?thesis by (simp add: t parse_hex_def hex_digits_value)
qed

subsection \<open>Reading a frame back\<close>

lemma readLine_CRLF: "NL \<notin> set h \<Longrightarrow> h = [] \<or> last h \<noteq> CR \<Longrightarrow> readLine (h @ CRLF @ rest, e) = ((rest, e), Inr h)"
proof -
  assume h: "NL \<notin> set h" "h = [] \<or> last h \<noteq> CR"
  have "NL \<notin> set (h @ [CR])" using h(1) by (simp add: NL_def CR_def)
  from cut_at_append [OF this, of rest] have c: "cut_at NL (h @ CRLF @ rest) = (h @ [CR], Some rest)"
    by (simp add: CRLF_def)
  have "trim_eol ((h @ [CR]) @ [NL]) = h"
    using h by (cases h rule: rev_cases) (auto simp: trim_eol_def)
  then show ?thesis using c by (simp add: readLine_def)
qed

definition frame_header :: "env \<Rightarrow> crypto \<Rightarrow> chunkctx \<Rightarrow> string \<Rightarrow> string \<Rightarrow> string" where
  "frame_header E C X prev d =
     hex_digits (length d) @ (if cx_verify X then '';chunk-signature='' @ signChunk E C X prev d else [])"

lemma signChunk_plain: "c \<in> set (signChunk E C X prev d) \<Longrightarrow> unreserved c"
  unfolding signChunk_def by (rule hex_encode_plain)

lemma unreserved_breaks [simp]: "\<not> unreserved NL" "\<not> unreserved CR" "\<not> unreserved (CHR '';'')"
  by code_simp+

lemma frame_header_line:
  "NL \<notin> set (frame_header E C X prev d)" "frame_header E C X prev d \<noteq> []" "last (frame_header E C X prev d) \<noteq> CR"
proof -
  let ?h = "frame_header E C X prev d"
  have "set ?h \<subseteq> {c. unreserved c} \<union> set '';chunk-signature=''"
    using hex_digits_plain signChunk_plain by (fastforce simp: frame_header_def)
  moreover have "NL \<notin> set '';chunk-signature=''" "CR \<notin> set '';chunk-signature=''" by (simp_all add: NL_def CR_def)
  ultimately have "NL \<notin> set ?h" "CR \<notin> set ?h" using unreserved_breaks by (blast, blast)
  moreover show "?h \<noteq> []" by (simp add: frame_header_def)
  ultimately show "NL \<notin> set ?h" "last ?h \<noteq> CR" by (simp, metis last_in_set)
qed

lemma frame_header_read: "chunk_header (frame_header E C X prev d @ CRLF @ rest, e) = ((rest, e), Inr (frame_header E C X prev d))"
  using frame_header_line [of E C X prev d] readLine_CRLF [of "frame_header E C X prev d" rest e]
  by (simp add: chunk_header_def split: list.splits)

lemma frame_header_meta:
  assumes "int (length d) \<le> maxChunkSize"
  shows "chunk_meta X (frame_header E C X prev d) = Inr (int (length d), if cx_verify X then signChunk E C X prev d else [])"
proof -
  have "length d < 2 ^ 63" using assms by (simp add: maxChunkSize_def)
  note p = hex_digits_parse [OF this]
  have sc: "CHR '';'' \<notin> set (hex_digits (length d))" using hex_digits_plain unreserved_breaks(3) by blast
  have m: "chunkSignature (''chunk-signature='' @ signChunk E C X prev d) = Inr (signChunk E C X prev d)"
  proof -
    let ?m = "''chunk-signature='' @ signChunk E C X prev d"
    have "\<not> is_space (hd ?m)" by (simp add: is_space_def)
    moreover have "\<not> is_space (last ?m)"
    proof (cases "signChunk E C X prev d = []")
      case True
      then show ?thesis by (simp add: is_space_def)
    next
      case False
      then have "unreserved (last (signChunk E C X prev d))" using signChunk_plain last_in_set by blast
      then show ?thesis using False unreserved_not_space by (simp add: last_append)
    qed
    ultimately have "trim_space ?m = ?m" by (intro trim_space_plain) simp_all
    moreover have "cut_prefix ?m ''chunk-signature='' = Some (signChunk E C X prev d)"
      unfolding cut_prefix_Some by (rule refl)
    ultimately show ?thesis by (simp only: chunkSignature_def option.case)
  qed
  show ?thesis
  proof (cases "cx_verify X")
    case True
    then have "cut_at (CHR '';'') (frame_header E C X prev d) =
        (hex_digits (length d), Some (''chunk-signature='' @ signChunk E C X prev d))"
      using cut_at_append [OF sc] by (simp add: frame_header_def)
    then show ?thesis using True p m assms by (simp add: chunk_meta_def)
  next
    case False
    then have "cut_at (CHR '';'') (frame_header E C X prev d) = (hex_digits (length d), None)"
      using cut_at_none [OF sc] by (simp add: frame_header_def)
    then show ?thesis using False p assms by (simp add: chunk_meta_def)
  qed
qed

lemma frame_text: "chunk_frame E C X prev d @ rest = frame_header E C X prev d @ CRLF @ d @ CRLF @ rest"
  by (simp add: chunk_frame_def frame_header_def)

lemma frame_read:
  assumes "ck_in c = (chunk_frame E C X (ck_prev c) d @ rest, e)" "int (length d) \<le> maxChunkSize" "d \<noteq> []"
  shows "nextChunk E C X c =
    (c\<lparr>ck_in := (rest, e), ck_prev := chain_next E C X (ck_prev c) d, ck_buf := d, ck_off := 0\<rparr>, None)"
proof -
  have "readLine (CRLF @ rest, e) = ((rest, e), Inr [])" using readLine_CRLF [of "[]" rest e] by simp
  then show ?thesis
    using assms frame_header_read [of E C X "ck_prev c" d "d @ CRLF @ rest" e] frame_header_meta [OF assms(2)]
    by (cases "cx_verify X") (simp_all add: frame_text nextChunk_def chain_next_def Let_def)
qed

lemma last_frame_read:
  assumes "ck_in c = (chunk_frame E C X (ck_prev c) [] @ rest, e)"
  shows "nextChunk E C X c =
    (case skip_trailers maxTrailers (rest, e) of
       (inp, r) \<Rightarrow> (c\<lparr>ck_in := inp, ck_prev := chain_next E C X (ck_prev c) [], ck_done := True\<rparr>, r))"
proof -
  have "readLine (CRLF @ rest, e) = ((rest, e), Inr [])" using readLine_CRLF [of "[]" rest e] by simp
  moreover have "int (length []) \<le> maxChunkSize" by (simp add: maxChunkSize_def)
  ultimately show ?thesis
    using assms frame_header_read [of E C X "ck_prev c" "[]" "CRLF @ rest" e] frame_header_meta [of "[]" X E C "ck_prev c"]
    by (cases "cx_verify X") (simp_all add: frame_text nextChunk_def chain_next_def Let_def split: prod.split)
qed

text \<open>What is read when the chunks of a list come first.\<close>

definition all_served :: "chunkst \<Rightarrow> bool" where
  "all_served c \<longleftrightarrow> ck_off c = length (ck_buf c)"

fun chain_last :: "env \<Rightarrow> crypto \<Rightarrow> chunkctx \<Rightarrow> string \<Rightarrow> string list \<Rightarrow> string" where
  "chain_last E C X prev [] = prev"
| "chain_last E C X prev (d # ds) = chain_last E C X (chain_next E C X prev d) ds"

lemma frames_read:
  assumes "\<forall>d \<in> set ds. d \<noteq> [] \<and> int (length d) \<le> maxChunkSize" "ck_err c = None" "\<not> ck_done c" "all_served c"
    "ck_in c = (chunk_frames E C X (ck_prev c) ds @ rest, e)"
  shows "\<exists>c'. ck_err c' = None \<and> \<not> ck_done c' \<and> all_served c' \<and> ck_in c' = (rest, e) \<and>
      ck_prev c' = chain_last E C X (ck_prev c) ds \<and>
      ck_rest E C X c = (case ck_rest E C X c' of (s, r) \<Rightarrow> (concat ds @ s, r))"
  using assms
proof (induction ds arbitrary: c)
  case Nil
  then show ?case by (intro exI [of _ c]) (simp split: prod.split)
next
  case (Cons d ds)
  let ?c1 = "c\<lparr>ck_in := (chunk_frames E C X (chain_next E C X (ck_prev c) d) ds @ rest, e),
    ck_prev := chain_next E C X (ck_prev c) d, ck_buf := d, ck_off := 0\<rparr>"
  have nx: "nextChunk E C X c = (?c1, None)"
    using Cons.prems frame_read [of c E C X d "chunk_frames E C X (chain_next E C X (ck_prev c) d) ds @ rest" e] by simp
  have "\<exists>c'. ck_err c' = None \<and> \<not> ck_done c' \<and> all_served c' \<and> ck_in c' = (rest, e) \<and>
      ck_prev c' = chain_last E C X (ck_prev (ck_served ?c1)) ds \<and>
      ck_rest E C X (ck_served ?c1) = (case ck_rest E C X c' of (s, r) \<Rightarrow> (concat ds @ s, r))"
    by (rule Cons.IH) (use Cons.prems in \<open>simp_all add: ck_served_def all_served_def\<close>)
  then obtain c' where c': "ck_err c' = None" "\<not> ck_done c'" "all_served c'" "ck_in c' = (rest, e)"
      "ck_prev c' = chain_last E C X (chain_next E C X (ck_prev c) d) ds"
      "ck_rest E C X (ck_served ?c1) = (case ck_rest E C X c' of (s, r) \<Rightarrow> (concat ds @ s, r))"
    by (auto simp: ck_served_def)
  have "ck_rest E C X c = (case ck_rest E C X (ck_served ?c1) of (s, r) \<Rightarrow> (d @ s, r))"
    using Cons.prems nx by (simp add: ck_rest.simps [of E C X c])
  then show ?case using c' by (intro exI [of _ c']) (simp split: prod.split)
qed

lemma new_reader_rest: "ck_drain E C X (newChunkedReader body sig) = ck_rest E C X (newChunkedReader body sig)"
  by (simp add: ck_drain_def ck_served_def newChunkedReader_def split: prod.split)

text \<open>
  C27: an upload in chunks arrives whole.  Frame any list of non-empty chunks within the limit
  the way a client does, signed when the request declared a signed stream, and end it with
  the empty chunk: the reader serves the concatenation of the chunks and reports no error.
\<close>

theorem chunked_upload_round_trip:
  fixes E C sig region
  defines "X \<equiv> chunk_ctx E C sig region"
  assumes "\<forall>d \<in> set ds. d \<noteq> [] \<and> int (length d) \<le> maxChunkSize"
  shows "ck_drain E C X (newChunkedReader (chunk_frames E C X (sg_seed sig) (ds @ [[]]), None) sig) = (concat ds, None)"
proof -
  let ?last = "chunk_frame E C X (chain_last E C X (sg_seed sig) ds) []"
  let ?c = "newChunkedReader (chunk_frames E C X (sg_seed sig) ds @ ?last, None) sig"
  have split: "chunk_frames E C X p (ds @ [[]]) = chunk_frames E C X p ds @ chunk_frame E C X (chain_last E C X p ds) []" for p
    by (induction ds arbitrary: p) simp_all
  obtain c' where c': "ck_err c' = None" "\<not> ck_done c'" "all_served c'" "ck_in c' = (?last, None)"
      "ck_prev c' = chain_last E C X (sg_seed sig) ds"
      "ck_rest E C X ?c = (case ck_rest E C X c' of (s, r) \<Rightarrow> (concat ds @ s, r))"
    using frames_read [OF assms(2), of ?c E C X ?last None] by (auto simp: newChunkedReader_def all_served_def)
  obtain k where k: "maxTrailers = Suc k" by (simp add: maxTrailers_def)
  have "skip_trailers maxTrailers ([], None) = (([], None), None)"
    unfolding k by (simp add: readLine_def end_err_def)
  then have "nextChunk E C X c' =
      (c'\<lparr>ck_in := ([], None), ck_prev := chain_next E C X (ck_prev c') [], ck_done := True\<rparr>, None)"
    using last_frame_read [of c' E C X "[]" None] c'(4,5) by simp
  moreover have "ck_rest E C X d = ([], None)" if "ck_err d = None" "ck_done d" for d
    using that by (simp add: ck_rest.simps [of E C X d])
  ultimately have "ck_rest E C X c' = ([], None)" using c'(1-3)
    by (simp add: ck_rest.simps [of E C X c'] ck_served_def all_served_def)
  then show ?thesis using c'(6) by (simp add: new_reader_rest split)
qed

definition demo_stream :: signature where
  "demo_stream =
     \<lparr>sg_creds = demo_creds, sg_scope = ''20260101/tana/s3/aws4_request'', sg_date = 7,
      sg_seed = sign_with demo_inj_crypto ''SK'' 7 ''tana''
        (stringToSign demo_inj_env demo_inj_crypto 7 ''20260101/tana/s3/aws4_request'' ''c''),
      sg_payload = streamingSigned, sg_presigned = False\<rparr>"

abbreviation demo_chunkctx :: chunkctx where
  "demo_chunkctx \<equiv> chunk_ctx demo_inj_env demo_inj_crypto demo_stream ''tana''"

theorem chunked_upload_round_trip_witness:
  "ck_drain demo_inj_env demo_inj_crypto demo_chunkctx
     (newChunkedReader
        (chunk_frames demo_inj_env demo_inj_crypto demo_chunkctx (sg_seed demo_stream) ([''ab'', ''c''] @ [[]]), None) demo_stream)
   = (''abc'', None)"
  by (subst chunked_upload_round_trip) (simp_all add: maxChunkSize_def)

text \<open>
  The final empty chunk is not required: a stream the connection ends between two chunks
  reads as a whole one, so an upload cut there is stored as its first part.
\<close>

theorem truncated_stream_is_accepted:
  fixes E C sig region
  defines "X \<equiv> chunk_ctx E C sig region"
  assumes "\<forall>d \<in> set ds. d \<noteq> [] \<and> int (length d) \<le> maxChunkSize"
  shows "ck_drain E C X (newChunkedReader (chunk_frames E C X (sg_seed sig) ds, None) sig) = (concat ds, None)"
proof -
  let ?c = "newChunkedReader (chunk_frames E C X (sg_seed sig) ds, None) sig"
  obtain c' where c': "ck_err c' = None" "\<not> ck_done c'" "ck_in c' = ([], None)"
      "ck_rest E C X ?c = (case ck_rest E C X c' of (s, r) \<Rightarrow> (concat ds @ s, r))"
    using frames_read [OF assms(2), of ?c E C X "[]" None] by (auto simp: newChunkedReader_def all_served_def)
  have "nextChunk E C X c' = (c', Some REof)" using c'(3)
    by (cases c') (simp add: nextChunk_def chunk_header_def readLine_def end_err_def)
  then have "ck_rest E C X c' = ([], None)" using c'(1,2) by (simp add: ck_rest.simps [of E C X c'] end_of_def)
  then show ?thesis using c'(4) by (simp add: new_reader_rest)
qed

subsection \<open>The chain\<close>

text \<open>
  The signature the next chunk header presents, and the chunks a reader accepts before it
  stops, each with the signature its header presented.
\<close>

definition presented :: "chunkctx \<Rightarrow> chunkst \<Rightarrow> string" where
  "presented X c =
     (case chunk_header (ck_in c) of
        (_, Inr h) \<Rightarrow> (case chunk_meta X h of Inr (n, sig) \<Rightarrow> sig | Inl _ \<Rightarrow> [])
      | _ \<Rightarrow> [])"

function ck_accepted :: "env \<Rightarrow> crypto \<Rightarrow> chunkctx \<Rightarrow> chunkst \<Rightarrow> (string \<times> string) list" where
  "ck_accepted E C X c =
     (if ck_err c \<noteq> None \<or> ck_done c then []
      else
        (case nextChunk E C X c of
           (c1, Some e) \<Rightarrow> if ck_done c1 then [([], presented X c)] else []
         | (c1, None) \<Rightarrow>
             (if ck_done c1 then [] else ck_buf c1, presented X c) # ck_accepted E C X (ck_served c1)))"
  by pat_completeness auto
termination
  by (relation "measure (\<lambda>(E, C, X, c). length (fst (ck_in c)))")
    (auto simp: ck_served_def intro: nextChunk_shorter [OF sym])

declare ck_accepted.simps [simp del]

lemma nextChunk_chain:
  assumes "nextChunk E C X c = (c1, e)" "\<not> ck_done c" "cx_verify X"
  shows "ck_done c1 \<Longrightarrow> ck_prev c1 = signChunk E C X (ck_prev c) []"
    "\<not> ck_done c1 \<Longrightarrow> e = None \<Longrightarrow> ck_prev c1 = signChunk E C X (ck_prev c) (ck_buf c1) \<and> ck_off c1 = 0"
    "\<not> ck_done c1 \<Longrightarrow> e \<noteq> None \<Longrightarrow> ck_prev c1 = ck_prev c"
    "ck_done c1 \<Longrightarrow> ck_off c1 = ck_off c \<and> ck_buf c1 = ck_buf c"
    "ck_done c1 \<or> e = None \<Longrightarrow> ck_prev c1 = presented X c"
  using assms by (auto simp: nextChunk_def presented_def Let_def split: prod.splits sum.splits if_splits)

lemma accepted_chain:
  "cx_verify X \<Longrightarrow> last (ck_prev c # map snd (ck_accepted E C X c)) = chain_last E C X (ck_prev c) (map fst (ck_accepted E C X c))"
proof (induction E C X c rule: ck_accepted.induct)
  case (1 E C X c)
  show ?case
  proof (cases "ck_err c \<noteq> None \<or> ck_done c")
    case True
    then show ?thesis by (simp add: ck_accepted.simps [of E C X c])
  next
    case False
    obtain c1 e where nx: "nextChunk E C X c = (c1, e)" by (cases "nextChunk E C X c")
    note ch = nextChunk_chain [OF nx _ "1.prems"(1)]
    show ?thesis
    proof (cases e)
      case None
      have p: "ck_prev (ck_served c1) = presented X c"
        "presented X c = signChunk E C X (ck_prev c) (if ck_done c1 then [] else ck_buf c1)"
        using ch(1,2,5) False None by (auto simp: ck_served_def)
      from "1.IH" [OF False nx [symmetric] None "1.prems"(1)]
      show ?thesis using "1.prems" False nx None p
        by (simp add: ck_accepted.simps [of E C X c] chain_next_def)
    next
      case (Some a)
      then show ?thesis using "1.prems" False nx ch(1,5)
        by (auto simp: ck_accepted.simps [of E C X c] chain_next_def)
    qed
  qed
qed

lemma accepted_served:
  "cx_verify X \<Longrightarrow> all_served c \<Longrightarrow> fst (ck_rest E C X c) = concat (map fst (ck_accepted E C X c))"
proof (induction E C X c rule: ck_accepted.induct)
  case (1 E C X c)
  show ?case
  proof (cases "ck_err c \<noteq> None \<or> ck_done c")
    case True
    then show ?thesis by (cases "ck_err c") (simp_all add: ck_accepted.simps [of E C X c] ck_rest.simps [of E C X c])
  next
    case False
    obtain c1 e where nx: "nextChunk E C X c = (c1, e)" by (cases "nextChunk E C X c")
    note ch = nextChunk_chain [OF nx _ "1.prems"(1)]
    show ?thesis
    proof (cases e)
      case None
      have IH: "fst (ck_rest E C X (ck_served c1)) = concat (map fst (ck_accepted E C X (ck_served c1)))"
        using "1.IH" [OF False nx [symmetric] None "1.prems"(1)] by (simp add: all_served_def ck_served_def)
      have "drop (ck_off c1) (ck_buf c1) = (if ck_done c1 then [] else ck_buf c1)"
        using ch(2,4) False None "1.prems"(2) by (auto simp: all_served_def)
      then show ?thesis using False nx None IH
        by (cases "ck_rest E C X (ck_served c1)")
          (auto simp: ck_accepted.simps [of E C X c] ck_rest.simps [of E C X c])
    next
      case (Some a)
      then show ?thesis using False nx by (simp add: ck_accepted.simps [of E C X c] ck_rest.simps [of E C X c])
    qed
  qed
qed

text \<open>What a chunk's signature is computed over, and the texts of a chain.\<close>

definition chunk_text :: "env \<Rightarrow> chunkctx \<Rightarrow> string \<Rightarrow> string \<Rightarrow> string" where
  "chunk_text E X prev d =
     join_with [NL] [chunkAlgorithm, cx_stamp X, cx_scope X, prev, cx_empty X, sha256_hex E d]"

fun chain_texts :: "env \<Rightarrow> crypto \<Rightarrow> chunkctx \<Rightarrow> string \<Rightarrow> string list \<Rightarrow> string list" where
  "chain_texts E C X prev [] = []"
| "chain_texts E C X prev (d # ds) = chunk_text E X prev d # chain_texts E C X (signChunk E C X prev d) ds"

lemma signChunk_text: "signChunk E C X prev d = hex_encode (cr_hmac C (cx_key X) (chunk_text E X prev d))"
  by (simp add: signChunk_def chunk_text_def)

lemma chunk_text_inj:
  "NL \<notin> set p \<Longrightarrow> NL \<notin> set q \<Longrightarrow> chunk_text E X p d = chunk_text E X q d' \<Longrightarrow> p = q \<and> sha256_hex E d = sha256_hex E d'"
  using cut_line [of p "cx_empty X @ NL # sha256_hex E d" q "cx_empty X @ NL # sha256_hex E d'"]
  by (simp add: chunk_text_def)

lemma signChunk_no_NL: "NL \<notin> set (signChunk E C X prev d)"
  using signChunk_plain by fastforce

lemma chain_last_snoc: "chain_last E C X p (ds @ [d]) = chain_next E C X (chain_last E C X p ds) d"
  by (induction ds arbitrary: p) simp_all

lemma chain_texts_snoc:
  "cx_verify X \<Longrightarrow> chain_texts E C X p (ds @ [d]) = chain_texts E C X p ds @ [chunk_text E X (chain_last E C X p ds) d]"
  by (induction ds arbitrary: p) (simp_all add: chain_next_def)

lemma chain_last_no_NL: "NL \<notin> set p \<Longrightarrow> NL \<notin> set (chain_last E C X p ds)"
  by (induction ds arbitrary: p) (simp_all add: chain_next_def signChunk_no_NL)

lemma chain_inj:
  assumes "cx_verify X" "p = hex_encode (cr_hmac C (cx_key X) t)" "\<And>q d. t \<noteq> chunk_text E X q d"
    "inj_on (cr_hmac C (cx_key X)) (insert t (set (chain_texts E C X p ds) \<union> set (chain_texts E C X p ds')))"
    "inj_on (sha256_hex E) (set ds \<union> set ds')"
    "chain_last E C X p ds = chain_last E C X p ds'"
  shows "ds = ds'"
  using assms(4-6)
proof (induction ds arbitrary: ds' rule: rev_induct)
  case Nil
  show ?case
  proof (cases ds' rule: rev_cases)
    case (snoc es d)
    then have "hex_encode (cr_hmac C (cx_key X) t) = hex_encode (cr_hmac C (cx_key X) (chunk_text E X (chain_last E C X p es) d))"
      using Nil.prems(3) assms(1,2) by (simp add: chain_last_snoc chain_next_def signChunk_text)
    from hex_encode_inj [OF this] have "t = chunk_text E X (chain_last E C X p es) d"
      by (rule inj_onD [OF Nil.prems(1)]) (simp_all add: snoc chain_texts_snoc [OF assms(1)])
    then show ?thesis using assms(3) by blast
  qed simp
next
  case (snoc d ds)
  have pn: "NL \<notin> set p" using hex_encode_plain assms(2) by fastforce
  let ?u = "chunk_text E X (chain_last E C X p ds) d"
  have u: "chain_last E C X p (ds @ [d]) = hex_encode (cr_hmac C (cx_key X) ?u)"
    using assms(1) by (simp add: chain_last_snoc chain_next_def signChunk_text)
  show ?case
  proof (cases ds' rule: rev_cases)
    case Nil
    then have "hex_encode (cr_hmac C (cx_key X) ?u) = hex_encode (cr_hmac C (cx_key X) t)"
      using snoc.prems(3) u assms(2) by simp
    from hex_encode_inj [OF this] have "?u = t"
      by (rule inj_onD [OF snoc.prems(1)]) (simp_all add: chain_texts_snoc [OF assms(1)])
    then show ?thesis using assms(3) by metis
  next
    case last: (snoc es f)
    let ?v = "chunk_text E X (chain_last E C X p es) f"
    have "hex_encode (cr_hmac C (cx_key X) ?u) = hex_encode (cr_hmac C (cx_key X) ?v)"
      using snoc.prems(3) u last assms(1) by (simp add: chain_last_snoc chain_next_def signChunk_text)
    from hex_encode_inj [OF this] have "?u = ?v"
      by (rule inj_onD [OF snoc.prems(1)]) (simp_all add: last chain_texts_snoc [OF assms(1)])
    from chunk_text_inj [OF chain_last_no_NL [OF pn] chain_last_no_NL [OF pn] this]
    have e: "chain_last E C X p ds = chain_last E C X p es" "sha256_hex E d = sha256_hex E f" by auto
    have "d = f" by (rule inj_onD [OF snoc.prems(2) e(2)]) (simp_all add: last)
    moreover have "ds = es"
    proof (rule snoc.IH)
      show "inj_on (cr_hmac C (cx_key X)) (insert t (set (chain_texts E C X p ds) \<union> set (chain_texts E C X p es)))"
        by (rule inj_on_subset [OF snoc.prems(1)]) (auto simp: last chain_texts_snoc [OF assms(1)])
      show "inj_on (sha256_hex E) (set ds \<union> set es)" by (rule inj_on_subset [OF snoc.prems(2)]) (auto simp: last)
    qed (rule e(1))
    ultimately show ?thesis using last by simp
  qed
qed

text \<open>
  C28: the chunk signatures chain the payload.  Two bodies sent under one signed request whose
  last accepted chunks present the same signature served the same payload, whatever their
  bytes on the wire, unless the MAC or the digest collides on what the two chains signed.
\<close>

theorem chunk_chain_binds_the_payload:
  fixes E C sig region b1 b2
  defines "X \<equiv> chunk_ctx E C sig region"
    and "l1 \<equiv> ck_accepted E C (chunk_ctx E C sig region) (newChunkedReader b1 sig)"
    and "l2 \<equiv> ck_accepted E C (chunk_ctx E C sig region) (newChunkedReader b2 sig)"
  assumes "chunksSigned sig"
    and "sg_seed sig = sign_with C (cd_secretKey (sg_creds sig)) (sg_date sig) region (stringToSign E C (sg_date sig) (sg_scope sig) canonical)"
    and "last (sg_seed sig # map snd l1) = last (sg_seed sig # map snd l2)"
    and "inj_on (cr_hmac C (cx_key X)) (insert (stringToSign E C (sg_date sig) (sg_scope sig) canonical)
        (set (chain_texts E C X (sg_seed sig) (map fst l1)) \<union> set (chain_texts E C X (sg_seed sig) (map fst l2))))"
    and "inj_on (sha256_hex E) (fst ` set l1 \<union> fst ` set l2)"
  shows "fst (ck_drain E C X (newChunkedReader b1 sig)) = fst (ck_drain E C X (newChunkedReader b2 sig))"
proof -
  have v: "cx_verify X" using assms(4) by (simp add: X_def chunk_ctx_def)
  have fresh: "all_served (newChunkedReader b sig)" "ck_prev (newChunkedReader b sig) = sg_seed sig" for b
    by (simp_all add: newChunkedReader_def all_served_def)
  have other: "stringToSign E C (sg_date sig) (sg_scope sig) canonical \<noteq> chunk_text E X q d" for q d
    by (simp add: stringToSign_def chunk_text_def algorithm_def chunkAlgorithm_def NL_def)
  have seed: "sg_seed sig = hex_encode (cr_hmac C (cx_key X) (stringToSign E C (sg_date sig) (sg_scope sig) canonical))"
    using assms(5) by (simp add: sign_with_def X_def chunk_ctx_def)
  have "chain_last E C X (sg_seed sig) (map fst l1) = chain_last E C X (sg_seed sig) (map fst l2)"
    using accepted_chain [OF v, of "newChunkedReader b1 sig" E C] accepted_chain [OF v, of "newChunkedReader b2 sig" E C]
      assms(6) by (simp add: fresh(2) l1_def l2_def X_def del: last.simps)
  from chain_inj [OF v seed other assms(7) _ this] assms(8) have "map fst l1 = map fst l2" by simp
  then show ?thesis
    using accepted_served [OF v fresh(1) [of b1], of E C] accepted_served [OF v fresh(1) [of b2], of E C]
    by (simp add: new_reader_rest l1_def l2_def X_def)
qed

lemma one_frame_accepted:
  assumes "cx_verify X" "d \<noteq> []" "int (length d) \<le> maxChunkSize"
  shows "ck_accepted E C X (newChunkedReader (chunk_frames E C X (sg_seed sig) [d], e) sig) =
    [(d, signChunk E C X (sg_seed sig) d)]"
proof -
  let ?c = "newChunkedReader (chunk_frames E C X (sg_seed sig) [d], e) sig"
  let ?d = "?c\<lparr>ck_in := ([], e), ck_prev := signChunk E C X (sg_seed sig) d, ck_buf := d, ck_off := 0\<rparr>"
  have nx: "nextChunk E C X ?c = (?d, None)"
    using frame_read [of ?c E C X d "[]" e] assms by (simp add: newChunkedReader_def chain_next_def)
  have empty: "ck_accepted E C X s = []" if "ck_in s = ([], e)" "ck_err s = None" "\<not> ck_done s" for s
  proof -
    have "nextChunk E C X s = (s\<lparr>ck_in := ([], e)\<rparr>, Some (end_err e))"
      using that by (simp add: nextChunk_def chunk_header_def readLine_def)
    then show ?thesis using that by (simp add: ck_accepted.simps [of E C X s])
  qed
  have "ck_accepted E C X (ck_served ?d) = []"
    by (rule empty) (simp_all add: ck_served_def newChunkedReader_def)
  moreover have "ck_prev ?d = presented X ?c"
    by (rule nextChunk_chain(5) [OF nx _ assms(1)]) (simp_all add: newChunkedReader_def)
  ultimately show ?thesis unfolding ck_accepted.simps [of E C X ?c] nx by (simp add: newChunkedReader_def)
qed

theorem chunk_chain_binds_the_payload_witness:
  "fst (ck_drain demo_inj_env demo_inj_crypto demo_chunkctx
      (newChunkedReader (chunk_frames demo_inj_env demo_inj_crypto demo_chunkctx (sg_seed demo_stream) [''ab''], None) demo_stream)) =
   fst (ck_drain demo_inj_env demo_inj_crypto demo_chunkctx
      (newChunkedReader
        (chunk_frames demo_inj_env demo_inj_crypto demo_chunkctx (sg_seed demo_stream) [''ab''], Some (Errf ''reset'')) demo_stream))"
proof -
  have sig: "chunksSigned demo_stream"
    "sg_seed demo_stream = sign_with demo_inj_crypto (cd_secretKey (sg_creds demo_stream)) (sg_date demo_stream) ''tana''
       (stringToSign demo_inj_env demo_inj_crypto (sg_date demo_stream) (sg_scope demo_stream) ''c'')"
    by (simp_all add: demo_stream_def chunksSigned_def demo_creds_def)
  have v: "cx_verify demo_chunkctx" using sig(1) by (simp add: chunk_ctx_def)
  have d: "''ab'' \<noteq> []" "int (length ''ab'') \<le> maxChunkSize" by (simp_all add: maxChunkSize_def)
  have inj: "inj_on (cr_hmac demo_inj_crypto k) A" "inj_on (sha256_hex demo_inj_env) B" for k A B
    by (simp_all add: inj_on_def demo_inj_crypto_def demo_inj_env_def)
  show ?thesis
    by (rule chunk_chain_binds_the_payload [OF sig _ inj]) (simp only: one_frame_accepted [OF v d])
qed

end
