(* ===== verification/Mount.thy ===== *)
theory Mount
  imports Agent
begin

text \<open>
  internal/mount: the kernel binding.  A call of the kernel first goes to the loopback file
  system of go-fuse over the backing directory; what that answered is an argument here, an
  errno or a value.  What the mount adds for an object whose bytes are gone is modelled:
  the lookup, the attributes, the listing, the open and the read that goes to the store.
\<close>

unbundle bit_operations_syntax

definition ENOENT :: nat where "ENOENT = 2"
definition EIO :: nat where "EIO = 5"
definition S_IFREG :: u32 where "S_IFREG = 0x8000"
definition S_IFDIR :: u32 where "S_IFDIR = 0x4000"

text \<open>\<open>time.Time.Unix\<close>: seconds since 1970, of nanoseconds since the year 1.\<close>

definition unix_secs :: "gotime \<Rightarrow> int" where
  "unix_secs t = (t - 62135596800000000000) div 1000000000"

text \<open>\<open>fs.FileMode.IsDir\<close>.\<close>

definition mode_IsDir :: "u32 \<Rightarrow> bool" where
  "mode_IsDir m \<longleftrightarrow> m AND 0x80000000 \<noteq> 0"

subsection \<open>Attributes\<close>

definition fnv_offset :: u64 where "fnv_offset = 14695981039346656037"
definition fnv_prime :: u64 where "fnv_prime = 1099511628211"

definition fnv_step :: "char \<Rightarrow> u64 \<Rightarrow> u64" where
  "fnv_step c h = (h XOR of_nat (of_char c)) * fnv_prime"

definition inodeOf :: "string \<Rightarrow> u64" where
  "inodeOf key = (let h = fold fnv_step key fnv_offset in if h = 0 then 1 else h)"

record fuseattr =
  at_mode :: u32
  at_size :: u64
  at_blocks :: u64
  at_nlink :: u32
  at_mtime :: u64
  at_ctime :: u64
  at_atime :: u64
  at_ino :: u64

definition fillAttr :: "entry \<Rightarrow> fuseattr" where
  "fillAttr e =
     (let mode = (if e_mode e = 0 then 420 else e_mode e); sec = of_int (unix_secs (e_mtime e)) in
      \<lparr>at_mode = (if mode_IsDir (e_mode e) then S_IFDIR OR (mode AND 0xFFF) else S_IFREG OR (mode AND 0xFFF)),
       at_size = ucast (e_size e), at_blocks = 0, at_nlink = 1, at_mtime = sec, at_ctime = sec, at_atime = sec,
       at_ino = inodeOf (e_key e)\<rparr>)"

subsection \<open>Nodes\<close>

text \<open>\<open>path.Join\<close> of a directory's key, empty for the root, and a name.\<close>

definition key_join :: "string \<Rightarrow> string \<Rightarrow> string" where
  "key_join dir name = (if dir = [] then path_clean name else path_clean (path_join [dir, name]))"

text \<open>A node found on disk, or the attributes and the inode of an evicted object.\<close>

datatype 'c looked = OnDisk 'c | FromIndex string fuseattr u64

definition node_Lookup :: "nat + 'c \<Rightarrow> agent \<Rightarrow> string \<Rightarrow> string \<Rightarrow> nat + 'c looked" where
  "node_Lookup below a dir name =
     (case below of
        Inr child \<Rightarrow> Inr (OnDisk child)
      | Inl errno \<Rightarrow>
          if errno \<noteq> ENOENT then Inl errno
          else
            (let key = key_join dir name in
             case agent_Entry a key of
               Inr (Some e) \<Rightarrow> if st_local (e_state e) then Inl ENOENT else Inr (FromIndex key (fillAttr e) (inodeOf key))
             | _ \<Rightarrow> Inl ENOENT))"

definition node_Getattr :: "nat + fuseattr \<Rightarrow> agent \<Rightarrow> string \<Rightarrow> nat + fuseattr" where
  "node_Getattr below a key =
     (case below of
        Inr attr \<Rightarrow> Inr attr
      | Inl errno \<Rightarrow>
          if errno \<noteq> ENOENT then Inl errno
          else (case agent_Entry a key of Inr (Some e) \<Rightarrow> Inr (fillAttr e) | _ \<Rightarrow> Inl ENOENT))"

record dirent =
  dn_name :: string
  dn_mode :: u32
  dn_ino :: u64

definition evicted_dirent :: "string \<times> entry \<Rightarrow> dirent" where
  "evicted_dirent p =
     \<lparr>dn_name = fst p, dn_mode = (if mode_IsDir (e_mode (snd p)) then S_IFDIR else S_IFREG), dn_ino = inodeOf (e_key (snd p))\<rparr>"

text \<open>
  A directory stream is its entries and the errno it ends with, 0 for a whole one.  The
  evicted children come in the order of the model's map; the program's is unspecified.
\<close>

definition node_Readdir :: "nat + (dirent list \<times> nat) \<Rightarrow> agent \<Rightarrow> string \<Rightarrow> nat + (dirent list \<times> nat)" where
  "node_Readdir below a dir =
     (case below of
        Inl errno \<Rightarrow> Inl errno
      | Inr (entries, errno) \<Rightarrow>
          (case EvictedChildren dir a of
             (_, Some _) \<Rightarrow> Inr (entries, errno)
           | ([], None) \<Rightarrow> Inr (entries, errno)
           | (evicted, None) \<Rightarrow>
               if errno \<noteq> 0 then Inl errno
               else Inr (entries @ map evicted_dirent (filter (\<lambda>p. fst p \<notin> dn_name ` set entries) evicted), 0)))"

subsection \<open>Open\<close>

record mount =
  mt_phpUID :: u32
  mt_cacheAll :: bool

definition mount_New :: "u32 \<Rightarrow> mount" where
  "mount_New populateUID = \<lparr>mt_phpUID = populateUID, mt_cacheAll = (populateUID = 0)\<rparr>"

text \<open>The caller's uid, when go-fuse knows it.\<close>

definition shouldPopulate :: "mount \<Rightarrow> u32 option \<Rightarrow> bool" where
  "shouldPopulate m caller =
     (if mt_cacheAll m then True else (case caller of None \<Rightarrow> True | Some uid \<Rightarrow> uid = mt_phpUID m))"

datatype opened = Loopback | RemoteFile string i64

text \<open>\<open>O_WRONLY | O_RDWR | O_APPEND\<close>.\<close>

definition write_flags :: u32 where "write_flags = 0x403"

text \<open>
  \<open>below\<close> is what the loopback open answers, in the state it is asked in: an errno, 0 when it
  opened the file.
\<close>

definition node_Open ::
    "env \<Rightarrow> agentsys \<Rightarrow> agent option \<Rightarrow> mount \<Rightarrow> u32 option \<Rightarrow> u32 \<Rightarrow> (agent \<Rightarrow> nat) \<Rightarrow> string \<Rightarrow> agent \<Rightarrow> agent \<times> (nat + opened)" where
  "node_Open E as joined m caller flags below key a =
     (let passed = (\<lambda>known b.
            if below b \<noteq> 0 then (b, Inl (below b)) else ((if known then agent_Touch as key b else b), Inr Loopback)) in
      case agent_Entry a key of
        Inl _ \<Rightarrow> passed False a
      | Inr None \<Rightarrow> passed False a
      | Inr (Some e) \<Rightarrow>
          if st_local (e_state e) then passed True a
          else if flags AND write_flags \<noteq> 0 \<or> shouldPopulate m caller then
            (case agent_Recall E as joined key a of
               (b, Some _) \<Rightarrow> (b, Inl EIO)
             | (b, None) \<Rightarrow> passed False (agent_Touch as key b))
          else (agent_Touch as key a, Inr (RemoteFile key (e_size e))))"

text \<open>A read of \<open>n\<close> bytes of a file whose bytes stay on the store.\<close>

definition remoteFile_Read ::
    "(string \<Rightarrow> i64 \<Rightarrow> i64 \<Rightarrow> cerr + (string \<times> cerr option)) \<Rightarrow> string \<Rightarrow> i64 \<Rightarrow> nat \<Rightarrow> i64 \<Rightarrow> nat + string" where
  "remoteFile_Read getRange key len n off =
     (if sint len \<le> sint off then Inr []
      else
        (let n = (if sint (len - off) < int n then unat (len - off) else n) in
         case ReadRemoteAt getRange key n off of
           (_, Some _) \<Rightarrow> Inl EIO
         | (d, None) \<Rightarrow> Inr d))"

definition remoteFile_Getattr :: "agent \<Rightarrow> string \<Rightarrow> nat + fuseattr" where
  "remoteFile_Getattr a key =
     (case agent_Entry a key of Inr (Some e) \<Rightarrow> Inr (fillAttr e) | _ \<Rightarrow> Inl ENOENT)"

end
