(* ===== verification/S3Docs.thy ===== *)
theory S3Docs
  imports S3Errors ConfigLoad
begin

text \<open>
  internal/s3/xml.go and what the handlers use of the standard library to write and read a
  document: the XML documents as records, base64, file extensions.  The XML syntax itself,
  the MIME table and the HTTP date format are the parameters of \<open>httplib\<close>.
\<close>

subsection \<open>Documents\<close>

record owner =
  ow_ID :: string
  ow_DisplayName :: string

record bucketEntry =
  bk_Name :: string
  bk_CreationDate :: gotime

record listAllMyBucketsResult =
  lb_Owner :: owner
  lb_Bucket :: "bucketEntry list"

record objectEntry =
  oe_Key :: string
  oe_LastModified :: gotime
  oe_ETag :: string
  oe_Size :: i64
  oe_StorageClass :: string

record listBucketResult =
  lr_Name :: string
  lr_Prefix :: string
  lr_Delimiter :: string
  lr_MaxKeys :: int
  lr_KeyCount :: int
  lr_IsTruncated :: bool
  lr_ContinuationToken :: string
  lr_NextContinuationToken :: string
  lr_StartAfter :: string
  lr_EncodingType :: string
  lr_Contents :: "objectEntry list"
  lr_CommonPrefixes :: "string list"

record deleteRequest =
  dr_Quiet :: bool
  dr_Objects :: "string list"

text \<open>The message of a failed deletion is the text of the error it keeps here.\<close>

record deleteError =
  de_Key :: string
  de_Code :: string
  de_Message :: gerr

record deleteResult =
  ds_Deleted :: "string list"
  ds_Errors :: "deleteError list"

record copyObjectResult =
  cr_LastModified :: gotime
  cr_ETag :: string

record initiateMultipartUploadResult =
  im_Bucket :: string
  im_Key :: string
  im_UploadID :: string

record completedPartRef =
  pr_PartNumber :: int
  pr_ETag :: string

record completeMultipartUploadResult =
  cm_Location :: string
  cm_Bucket :: string
  cm_Key :: string
  cm_ETag :: string

record partInfo =
  pi_PartNumber :: int
  pi_LastModified :: gotime
  pi_ETag :: string
  pi_Size :: i64

record listPartsResult =
  lp_Bucket :: string
  lp_Key :: string
  lp_UploadID :: string
  lp_MaxParts :: int
  lp_IsTruncated :: bool
  lp_Parts :: "partInfo list"

record uploadInfo =
  ui_Key :: string
  ui_UploadID :: string
  ui_Initiated :: gotime

record listMultipartUploadsResult =
  lu_Bucket :: string
  lu_IsTruncated :: bool
  lu_Uploads :: "uploadInfo list"

datatype xdoc =
    XBuckets listAllMyBucketsResult
  | XList listBucketResult
  | XDelete deleteResult
  | XCopy copyObjectResult
  | XInitiate initiateMultipartUploadResult
  | XComplete completeMultipartUploadResult
  | XParts listPartsResult
  | XUploads listMultipartUploadsResult
  | XError apierr

text \<open>
  \<open>xml.Marshal\<close> of a document; \<open>xml.Unmarshal\<close> of the two request bodies (a batch delete, and
  the parts of a completion); \<open>mime.TypeByExtension\<close>; \<open>Format(http.TimeFormat)\<close>.
\<close>

record httplib =
  hl_xml :: "xdoc \<Rightarrow> string option"
  hl_xmlDelete :: "string \<Rightarrow> deleteRequest option"
  hl_xmlParts :: "string \<Rightarrow> completedPartRef list option"
  hl_mime :: "string \<Rightarrow> string"
  hl_date :: "gotime \<Rightarrow> string"

subsection \<open>Base64\<close>

definition b64_char :: "nat \<Rightarrow> char" where
  "b64_char n =
     (if n < 26 then char_of (65 + n) else if n < 52 then char_of (71 + n) else if n < 62 then char_of (n - 4)
      else if n = 62 then CHR ''+'' else CHR ''/'')"

definition b64_val :: "char \<Rightarrow> nat option" where
  "b64_val c =
     (let n = (of_char c :: nat) in
      if 65 \<le> n \<and> n \<le> 90 then Some (n - 65)
      else if 97 \<le> n \<and> n \<le> 122 then Some (n - 71)
      else if 48 \<le> n \<and> n \<le> 57 then Some (n + 4)
      else if n = 43 then Some 62
      else if n = 47 then Some 63
      else None)"

definition b64_1 :: "nat \<Rightarrow> char" where "b64_1 a = b64_char (a div 4)"
definition b64_2 :: "nat \<Rightarrow> nat \<Rightarrow> char" where "b64_2 a b = b64_char (a mod 4 * 16 + b div 16)"
definition b64_3 :: "nat \<Rightarrow> nat \<Rightarrow> char" where "b64_3 b c = b64_char (b mod 16 * 4 + c div 64)"
definition b64_4 :: "nat \<Rightarrow> char" where "b64_4 c = b64_char (c mod 64)"

fun b64_encode :: "string \<Rightarrow> string" where
  "b64_encode [] = []"
| "b64_encode [a] = [b64_1 (of_char a), b64_2 (of_char a) 0, CHR ''='', CHR ''='']"
| "b64_encode [a, b] = [b64_1 (of_char a), b64_2 (of_char a) (of_char b), b64_3 (of_char b) 0, CHR ''='']"
| "b64_encode (a # b # c # s) =
     b64_1 (of_char a) # b64_2 (of_char a) (of_char b) # b64_3 (of_char b) (of_char c) # b64_4 (of_char c) # b64_encode s"

definition b64_byte1 :: "nat \<Rightarrow> nat \<Rightarrow> char" where "b64_byte1 x y = char_of (x * 4 + y div 16)"
definition b64_byte2 :: "nat \<Rightarrow> nat \<Rightarrow> char" where "b64_byte2 y z = char_of (y mod 16 * 16 + z div 4)"
definition b64_byte3 :: "nat \<Rightarrow> nat \<Rightarrow> char" where "b64_byte3 z w = char_of (z mod 4 * 64 + w)"

fun b64_quads :: "string \<Rightarrow> string option" where
  "b64_quads [] = Some []"
| "b64_quads (p # q # r # t # s) =
     (case (b64_val p, b64_val q) of
        (Some x, Some y) \<Rightarrow>
          if r = CHR ''='' then (if t = CHR ''='' \<and> s = [] then Some [b64_byte1 x y] else None)
          else
            (case b64_val r of
               None \<Rightarrow> None
             | Some z \<Rightarrow>
                 if t = CHR ''='' then (if s = [] then Some [b64_byte1 x y, b64_byte2 y z] else None)
                 else
                   (case (b64_val t, b64_quads s) of
                      (Some w, Some d) \<Rightarrow> Some (b64_byte1 x y # b64_byte2 y z # b64_byte3 z w # d)
                    | _ \<Rightarrow> None))
      | _ \<Rightarrow> None)"
| "b64_quads _ = None"

text \<open>\<open>DecodeString\<close> skips line breaks.\<close>

definition b64_decode :: "string \<Rightarrow> string option" where
  "b64_decode s = b64_quads (filter (\<lambda>c. c \<noteq> NL \<and> c \<noteq> CR) s)"

lemma b64_val_char: "n < 64 \<Longrightarrow> b64_val (b64_char n) = Some n \<and> b64_char n \<noteq> CHR ''='' \<and> b64_char n \<noteq> NL \<and> b64_char n \<noteq> CR"
proof -
  assume n: "n < 64"
  define m :: nat where "m = of_char (b64_char n)"
  have m: "m = (if n < 26 then 65 + n else if n < 52 then 71 + n else if n < 62 then n - 4 else if n = 62 then 43 else 47)"
    using n by (simp add: m_def b64_char_def)
  have "b64_val (b64_char n) = Some n"
    using n unfolding b64_val_def Let_def m_def [symmetric] m by (auto split: if_splits)
  moreover have "m \<noteq> of_char (CHR ''='')" "m \<noteq> of_char NL" "m \<noteq> of_char CR"
    using n unfolding m by (auto simp: NL_def CR_def split: if_splits)
  ultimately show ?thesis unfolding m_def by metis
qed

lemma sextets:
  fixes a b c :: nat
  assumes "a < 256" "b < 256" "c < 256"
  shows "a div 4 < 64" "a mod 4 * 16 + b div 16 < 64" "b mod 16 * 4 + c div 64 < 64" "c mod 64 < 64"
proof -
  have "a mod 4 < 4" "b mod 16 < 16" "a div 4 < 64" "b div 16 < 16" "c div 64 < 4"
    using assms by (simp_all add: less_mult_imp_div_less)
  then show "a div 4 < 64" "a mod 4 * 16 + b div 16 < 64" "b mod 16 * 4 + c div 64 < 64" "c mod 64 < 64"
    by simp_all
qed

lemma b64_vals:
  assumes "a < 256" "b < 256" "c < 256"
  shows "b64_val (b64_1 a) = Some (a div 4)" "b64_val (b64_2 a b) = Some (a mod 4 * 16 + b div 16)"
    "b64_val (b64_3 b c) = Some (b mod 16 * 4 + c div 64)" "b64_val (b64_4 c) = Some (c mod 64)"
    "b64_3 b c \<noteq> CHR ''=''" "b64_4 c \<noteq> CHR ''=''"
    "set [b64_1 a, b64_2 a b, b64_3 b c, b64_4 c] \<inter> {NL, CR} = {}"
  using sextets [OF assms, THEN b64_val_char] by (simp_all add: b64_1_def b64_2_def b64_3_def b64_4_def)

lemma b64_bytes:
  fixes a b c :: nat
  assumes "b < 256" "c < 256"
  shows "a div 4 * 4 + (a mod 4 * 16 + b div 16) div 16 = a"
    "(a mod 4 * 16 + b div 16) mod 16 * 16 + (b mod 16 * 4 + c div 64) div 4 = b"
    "(b mod 16 * 4 + c div 64) mod 4 * 64 + c mod 64 = c"
proof -
  have l: "b div 16 < 16" "c div 64 < 4" using assms by (simp_all add: less_mult_imp_div_less)
  then show "a div 4 * 4 + (a mod 4 * 16 + b div 16) div 16 = a"
    "(a mod 4 * 16 + b div 16) mod 16 * 16 + (b mod 16 * 4 + c div 64) div 4 = b"
    "(b mod 16 * 4 + c div 64) mod 4 * 64 + c mod 64 = c" by simp_all
qed

lemma of_char_byte: "(of_char (c :: char) :: nat) < 256"
  using nat_of_char_less_256 by simp

lemma b64_quads_encode: "b64_quads (b64_encode s) = Some s"
proof (induction s rule: b64_encode.induct)
  case (2 a)
  show ?case using b64_vals [OF of_char_byte [of a], of 0 0] b64_bytes(1) [of 0 0 "of_char a"]
    by (simp add: b64_byte1_def)
next
  case (3 a b)
  show ?case using b64_vals [OF of_char_byte [of a] of_char_byte [of b], of 0] b64_bytes(1,2) [OF of_char_byte [of b], of 0 "of_char a"]
    by (simp add: b64_byte1_def b64_byte2_def)
next
  case (4 a b c s)
  then show ?case
    using b64_vals [OF of_char_byte [of a] of_char_byte [of b] of_char_byte [of c]]
      b64_bytes(1,2) [OF of_char_byte [of b] of_char_byte [of c], of "of_char a"]
      b64_bytes(3) [OF of_char_byte [of b] of_char_byte [of c]]
    by (simp add: b64_byte1_def b64_byte2_def b64_byte3_def)
qed simp

lemma b64_encode_plain: "c \<in> set (b64_encode s) \<Longrightarrow> c \<noteq> NL \<and> c \<noteq> CR"
proof (induction s rule: b64_encode.induct)
  case (2 a)
  then show ?case using b64_vals(7) [OF of_char_byte [of a], of 0 0] by (auto simp: NL_def CR_def)
next
  case (3 a b)
  then show ?case using b64_vals(7) [OF of_char_byte [of a] of_char_byte [of b], of 0] by (auto simp: NL_def CR_def)
next
  case (4 a b c s)
  then show ?case using b64_vals(7) [OF of_char_byte [of a] of_char_byte [of b] of_char_byte [of c]] by auto
qed simp

lemma b64_decode_encode [simp]: "b64_decode (b64_encode s) = Some s"
proof -
  have "filter (\<lambda>c. c \<noteq> NL \<and> c \<noteq> CR) (b64_encode s) = b64_encode s"
    by (rule filter_True) (use b64_encode_plain in blast)
  then show ?thesis by (simp add: b64_decode_def b64_quads_encode)
qed

lemma b64_encode_nonempty [simp]: "b64_encode s = [] \<longleftrightarrow> s = []"
  by (cases s rule: b64_encode.cases) simp_all

end
