(* ===== verification/Server.thy ===== *)
theory Server
  imports S3Docs Chunked S3Client Multipart
begin

text \<open>
  internal/s3/server.go: the S3 front end over the store.  A handler takes the store and
  gives the store after it, the headers it set, and either the error it returns or the
  status and the body it wrote; \<open>ServeHTTP\<close> turns that into the response.  Each call of
  the store in a request has its own system environment, clock readings and commit results.
\<close>

subsection \<open>Replies\<close>

datatype rbody = NoBody | Bytes string | Doc xdoc string

type_synonym headers = "(string \<times> string) list"
type_synonym httpreply = "headers \<times> (apierr + (nat \<times> rbody))"

record reqsys =
  rs_sys :: "nat \<Rightarrow> sysenv"
  rs_ok :: "nat \<Rightarrow> bool"
  rs_clock :: "nat \<Rightarrow> gotime"
  rs_rand :: "string option"
  rs_now :: gotime

record server =
  sv_store :: store
  sv_region :: string

definition h_set :: "string \<Rightarrow> string \<Rightarrow> headers \<Rightarrow> headers" where
  "h_set k v h = (k, v) # filter (\<lambda>p. fst p \<noteq> k) h"

definition defaultMaxKeys :: int where "defaultMaxKeys = 1000"
definition maxMaxKeys :: int where "maxMaxKeys = 1000"
definition maxObjectSize :: int where "maxObjectSize = 5368709120"
definition maxDeleteBatch :: nat where "maxDeleteBatch = 1000"
definition storageClass :: string where "storageClass = ''STANDARD''"

definition xml_header :: string where
  "xml_header = ''<?xml version='' @ [CHR 0x22] @ ''1.0'' @ [CHR 0x22] @ '' encoding='' @ [CHR 0x22] @ ''UTF-8'' @ [CHR 0x22] @ ''?>'' @ [NL]"

definition writeXML :: "httplib \<Rightarrow> nat \<Rightarrow> xdoc \<Rightarrow> headers \<Rightarrow> httpreply" where
  "writeXML H status doc h =
     (case hl_xml H doc of
        None \<Rightarrow> (h, Inl errInternal)
      | Some body \<Rightarrow>
          let out = xml_header @ body in
          (h_set ''Content-Length'' (format_nat (length out)) (h_set ''Content-Type'' ''application/xml'' h),
           Inr (status, Doc doc out)))"

text \<open>The S3 error for a store error; what is not classified is logged and opaque.\<close>

definition sv_fail :: "gerr \<Rightarrow> apierr" where
  "sv_fail e =
     (case e of
        ErrNoSuchBucket _ \<Rightarrow> errNoSuchBucket
      | ErrNoSuchKey _ _ \<Rightarrow> errNoSuchKey
      | ErrNoSuchUpload _ _ \<Rightarrow> errNoSuchUpload
      | ErrInvalidPart _ \<Rightarrow> errInvalidPart
      | ErrDigestMismatch _ _ \<Rightarrow> errInvalidDigest
      | _ \<Rightarrow> errInternal)"

subsection \<open>Names, ranges, tags\<close>

definition splitPath :: "string \<Rightarrow> string \<times> string" where
  "splitPath p =
     (let trimmed = trim_prefix (path_clean (''/'' @ trim_prefix p ''/'')) ''/'' in
      if trimmed = ''.'' \<or> trimmed = [] then ([], [])
      else (case cut_at (CHR ''/'') trimmed of (bucket, key) \<Rightarrow> (bucket, case key of None \<Rightarrow> [] | Some k \<Rightarrow> k)))"

text \<open>The offset, the length, and whether only a part is asked for.\<close>

definition parseRange :: "string \<Rightarrow> int \<Rightarrow> apierr + (int \<times> int \<times> bool)" where
  "parseRange header len =
     (if header = [] then Inr (0, len, False)
      else
        (case cut_prefix header ''bytes='' of
           None \<Rightarrow> Inl errInvalidRange
         | Some spec \<Rightarrow>
             if CHR '','' \<in> set spec then Inl errInvalidRange
             else
               (case cut_at (CHR ''-'') spec of
                  (_, None) \<Rightarrow> Inl errInvalidRange
                | (lo, Some hi) \<Rightarrow>
                    if lo = [] \<and> hi = [] then Inl errInvalidRange
                    else if lo = [] then
                      (case parse_int hi of
                         None \<Rightarrow> Inl errInvalidRange
                       | Some n \<Rightarrow>
                           if n \<le> 0 then Inl errInvalidRange
                           else let n = (if len < n then len else n) in Inr (len - n, n, True))
                    else
                      (case parse_int lo of
                         None \<Rightarrow> Inl errInvalidRange
                       | Some start \<Rightarrow>
                           if start < 0 \<or> len \<le> start then Inl errInvalidRange
                           else
                             (case (if hi = [] then Some (len - 1) else parse_int hi) of
                                None \<Rightarrow> Inl errInvalidRange
                              | Some end1 \<Rightarrow>
                                  let end2 = (if len \<le> end1 then len - 1 else end1) in
                                  if end2 < start then Inl errInvalidRange
                                  else Inr (start, end2 - start + 1, True))))))"

text \<open>\<open>path.Ext\<close>: from the last dot of the last element.\<close>

definition path_ext :: "string \<Rightarrow> string" where
  "path_ext p =
     (let t = takeWhile (\<lambda>c. c \<noteq> CHR ''/'') (rev p) in
      if CHR ''.'' \<in> set t then CHR ''.'' # rev (takeWhile (\<lambda>c. c \<noteq> CHR ''.'') t) else [])"

definition contentType :: "httplib \<Rightarrow> string \<Rightarrow> string" where
  "contentType H key =
     (let ct = hl_mime H (path_ext key) in if ct \<noteq> [] then ct else ''application/octet-stream'')"

definition quoteETag :: "string \<Rightarrow> string" where
  "quoteETag tag =
     (if tag = [] then [] else if has_prefix tag [CHR 0x22] then tag else [CHR 0x22] @ tag @ [CHR 0x22])"

definition maybeEncode :: "string \<Rightarrow> bool \<Rightarrow> string" where
  "maybeEncode s encode = (if \<not> encode then s else QueryEscape s)"

text \<open>The MD5 of what went through the tee, against the header in base64 or in hexadecimal.\<close>

definition md5_matches :: "env \<Rightarrow> string \<Rightarrow> string \<Rightarrow> bool" where
  "md5_matches E want got \<longleftrightarrow>
     (case hex_decode (md5_hex E got) of None \<Rightarrow> False | Some raw \<Rightarrow> b64_encode raw = want) \<or> md5_hex E got = want"

subsection \<open>Request bodies\<close>

definition requestBody :: "env \<Rightarrow> crypto \<Rightarrow> string \<Rightarrow> httpreq \<Rightarrow> signature \<Rightarrow> reader \<times> string" where
  "requestBody E C region r sig =
     (if streaming sig then (ck_drain E C (chunk_ctx E C sig region) (newChunkedReader (rq_body r) sig), [])
      else if sg_payload sig = [] \<or> sg_payload sig = unsignedPayload then (rq_body r, [])
      else if length (sg_payload sig) = 64 then (rq_body r, sg_payload sig)
      else (rq_body r, []))"

text \<open>\<open>io.LimitReader\<close>: past the limit the body ends without an error.\<close>

definition limit_reader :: "nat \<Rightarrow> reader \<Rightarrow> reader" where
  "limit_reader n r = (if n \<le> length (fst r) then (take n (fst r), None) else r)"

definition bodyLimit :: nat where "bodyLimit = 8388608"

subsection \<open>Listings\<close>

definition stop_page :: gerr where "stop_page = Errf ''page full''"

fun str_index :: "string \<Rightarrow> string \<Rightarrow> nat option" where
  "str_index [] d = (if d = [] then Some 0 else None)"
| "str_index (c # s) d = (if has_prefix (c # s) d then Some 0 else map_option Suc (str_index s d))"

record listacc =
  la_res :: listBucketResult
  la_seen :: "string list"
  la_last :: string

definition list_entry :: "bool \<Rightarrow> entry \<Rightarrow> objectEntry" where
  "list_entry encode e =
     \<lparr>oe_Key = maybeEncode (e_key e) encode, oe_LastModified = e_mtime e, oe_ETag = quoteETag (e_etag e),
      oe_Size = e_size e, oe_StorageClass = storageClass\<rparr>"

text \<open>What the callback of the walk does with one entry.\<close>

definition list_cb :: "string \<Rightarrow> string \<Rightarrow> bool \<Rightarrow> int \<Rightarrow> string \<Rightarrow> entry \<Rightarrow> listacc \<Rightarrow> listacc \<times> gerr option" where
  "list_cb prefix delimiter encode maxKeys after e a =
     (if after \<noteq> [] \<and> e_key e \<le> after then (a, None)
      else if maxKeys \<le> lr_KeyCount (la_res a) then (a\<lparr>la_res := (la_res a)\<lparr>lr_IsTruncated := True\<rparr>\<rparr>, Some stop_page)
      else
        let a = a\<lparr>la_last := e_key e\<rparr>; rest = trim_prefix (e_key e) prefix in
        case (if delimiter = [] then None else str_index rest delimiter) of
          Some i \<Rightarrow>
            let group = prefix @ take (i + length delimiter) rest in
            (if group \<in> set (la_seen a) then a
             else a\<lparr>la_seen := group # la_seen a,
                    la_res := (la_res a)\<lparr>lr_CommonPrefixes := lr_CommonPrefixes (la_res a) @ [maybeEncode group encode],
                                          lr_KeyCount := lr_KeyCount (la_res a) + 1\<rparr>\<rparr>, None)
        | None \<Rightarrow>
            (a\<lparr>la_res := (la_res a)\<lparr>lr_Contents := lr_Contents (la_res a) @ [list_entry encode e],
                                    lr_KeyCount := lr_KeyCount (la_res a) + 1\<rparr>\<rparr>, None))"

definition list_maxKeys :: "urlvals \<Rightarrow> apierr + int" where
  "list_maxKeys q =
     (let v = val_get q ''max-keys'' in
      if v = [] then Inr defaultMaxKeys
      else
        (case parse_int v of
           None \<Rightarrow> Inl (errInvalidArgument ''max-keys must be a non-negative integer'')
         | Some n \<Rightarrow>
             if n < 0 then Inl (errInvalidArgument ''max-keys must be a non-negative integer'')
             else Inr (min n maxMaxKeys)))"

definition list_after :: "urlvals \<Rightarrow> apierr + string" where
  "list_after q =
     (let tok = val_get q ''continuation-token'' in
      if tok = [] then Inr (val_get q ''start-after'')
      else (case b64_decode tok of
              None \<Rightarrow> Inl (errInvalidArgument ''malformed continuation-token'')
            | Some raw \<Rightarrow> Inr raw))"

definition list_page :: "store \<Rightarrow> urlvals \<Rightarrow> string \<Rightarrow> int \<Rightarrow> string \<Rightarrow> listacc \<times> gerr option" where
  "list_page s q bucket maxKeys after =
     (let prefix = val_get q ''prefix''; delimiter = val_get q ''delimiter''; encode = (val_get q ''encoding-type'' = ''url'');
          res = \<lparr>lr_Name = bucket, lr_Prefix = prefix, lr_Delimiter = delimiter, lr_MaxKeys = maxKeys, lr_KeyCount = 0,
                 lr_IsTruncated = False, lr_ContinuationToken = val_get q ''continuation-token'',
                 lr_NextContinuationToken = [], lr_StartAfter = val_get q ''start-after'',
                 lr_EncodingType = (if encode then ''url'' else []), lr_Contents = [], lr_CommonPrefixes = []\<rparr>
      in store_List bucket prefix (list_cb prefix delimiter encode maxKeys after) s
           \<lparr>la_res = res, la_seen = [], la_last = []\<rparr>)"

definition listObjects :: "httplib \<Rightarrow> store \<Rightarrow> httpreq \<Rightarrow> string \<Rightarrow> httpreply" where
  "listObjects H s r bucket =
     (let q = rq_query r; v = val_get q ''list-type'' in
      if v \<noteq> [] \<and> v \<noteq> ''2'' then ([], Inl (errNotImplemented ''ListObjects v1: use list-type=2''))
      else
        (case list_maxKeys q of
           Inl e \<Rightarrow> ([], Inl e)
         | Inr maxKeys \<Rightarrow>
             (case list_after q of
                Inl e \<Rightarrow> ([], Inl e)
              | Inr after \<Rightarrow>
                  (case list_page s q bucket maxKeys after of
                     (a, e) \<Rightarrow>
                       (case (if e = Some stop_page then None else e) of
                          Some err \<Rightarrow> ([], Inl (sv_fail err))
                        | None \<Rightarrow>
                         let res = (if lr_IsTruncated (la_res a)
                                    then (la_res a)\<lparr>lr_NextContinuationToken := b64_encode (la_last a)\<rparr> else la_res a)
                         in writeXML H 200 (XList res) [])))))"

subsection \<open>Objects\<close>

definition object_headers :: "httplib \<Rightarrow> string \<Rightarrow> entry \<Rightarrow> headers" where
  "object_headers H key e =
     (let h = h_set ''x-amz-storage-class'' storageClass
           (h_set ''Accept-Ranges'' ''bytes''
           (h_set ''Last-Modified'' (hl_date H (e_mtime e)) (h_set ''ETag'' (quoteETag (e_etag e)) [])));
          ct = contentType H key
      in if ct \<noteq> [] then h_set ''Content-Type'' ct h else h)"

definition getObject ::
    "httplib \<Rightarrow> sysenv \<Rightarrow> httpreq \<Rightarrow> string \<Rightarrow> string \<Rightarrow> bool \<Rightarrow> store \<Rightarrow> store \<times> httpreply" where
  "getObject H sy r bucket key body s =
     (case store_Head bucket key s of
        Inl err \<Rightarrow> (s, [], Inl (sv_fail err))
      | Inr e \<Rightarrow>
          let h = object_headers H key e; len = sint (e_size e) in
          if \<not> body then (s, h_set ''Content-Length'' (format_int len) h, Inr (200, NoBody))
          else
            (case store_Get sy bucket key s of
               (s1, Inl err) \<Rightarrow> (s1, h, Inl (sv_fail err))
             | (s1, Inr (_, data)) \<Rightarrow>
                 (case parseRange (val_get (rq_header r) ''Range'') len of
                    Inl err \<Rightarrow> (s1, h_set ''Content-Range'' (''bytes */'' @ format_int len) h, Inl err)
                  | Inr (offset, n, partial) \<Rightarrow>
                      if partial then
                        (s1, h_set ''Content-Length'' (format_int n)
                               (h_set ''Content-Range''
                                  (''bytes '' @ format_int offset @ ''-'' @ format_int (offset + n - 1) @ ''/'' @ format_int len) h),
                         Inr (206, Bytes (take (nat n) (drop (nat offset) data))))
                      else (s1, h_set ''Content-Length'' (format_int len) h, Inr (200, Bytes data)))))"

definition putObject ::
    "env \<Rightarrow> crypto \<Rightarrow> string \<Rightarrow> sysenv \<Rightarrow> gotime \<Rightarrow> httpreq \<Rightarrow> string \<Rightarrow> string \<Rightarrow> signature \<Rightarrow> store \<Rightarrow> store \<times> httpreply" where
  "putObject E C region sy now r bucket key sig s =
     (if maxObjectSize < rq_length r then (s, [], Inl errEntityTooLarge)
      else
        (case requestBody E C region r sig of
           (body, expectHash) \<Rightarrow>
             (case store_PutWith E sy bucket key body \<lparr>po_mtime = now, po_etag = [], po_expectHash = expectHash\<rparr> s of
                (s1, Inl err) \<Rightarrow> (s1, [], Inl (sv_fail err))
              | (s1, Inr e) \<Rightarrow>
                  let want = val_get (rq_header r) ''Content-Md5'' in
                  if want \<noteq> [] \<and> \<not> md5_matches E want (fst body) then (s1, [], Inl errInvalidDigest)
                  else (s1, h_set ''ETag'' (quoteETag (e_etag e)) [], Inr (200, NoBody)))))"

definition copyObject ::
    "env \<Rightarrow> httplib \<Rightarrow> (nat \<Rightarrow> sysenv) \<Rightarrow> gotime \<Rightarrow> string \<Rightarrow> string \<Rightarrow> string \<Rightarrow> store \<Rightarrow> store \<times> httpreply" where
  "copyObject E H sys now bucket key source s =
     (case splitPath (''/'' @ trim_prefix source ''/'') of
        (srcBucket, srcRaw) \<Rightarrow>
          let srcKey = (case url_unescape False srcRaw of Some k \<Rightarrow> k | None \<Rightarrow> srcRaw) in
          if srcBucket = [] \<or> srcKey = [] then (s, [], Inl (errInvalidArgument ''malformed x-amz-copy-source''))
          else if srcBucket \<noteq> bucket then (s, [], Inl errAccessDenied)
          else
            (case store_Get (sys 0) srcBucket srcKey s of
               (s1, Inl err) \<Rightarrow> (s1, [], Inl (sv_fail err))
             | (s1, Inr (_, data)) \<Rightarrow>
                 (case store_Put E (sys 1) bucket key (data, None) now s1 of
                    (s2, Inl err) \<Rightarrow> (s2, [], Inl (sv_fail err))
                  | (s2, Inr e) \<Rightarrow>
                      (s2, writeXML H 200 (XCopy \<lparr>cr_LastModified = e_mtime e, cr_ETag = quoteETag (e_etag e)\<rparr>) []))))"

definition deleteObject :: "env \<Rightarrow> sysenv \<Rightarrow> string \<Rightarrow> string \<Rightarrow> store \<Rightarrow> store \<times> httpreply" where
  "deleteObject E sy bucket key s =
     (case store_Delete E sy bucket key s of
        (s1, Some err) \<Rightarrow> (s1, [], Inl (sv_fail err))
      | (s1, None) \<Rightarrow> (s1, [], Inr (204, NoBody)))"

text \<open>The loop of a batch delete: a key that fails is reported and the others go on.\<close>

fun delete_keys ::
    "env \<Rightarrow> (nat \<Rightarrow> sysenv) \<Rightarrow> string \<Rightarrow> bool \<Rightarrow> nat \<Rightarrow> string list \<Rightarrow> store \<times> deleteResult \<Rightarrow> store \<times> deleteResult" where
  "delete_keys E sys bucket quiet i [] acc = acc"
| "delete_keys E sys bucket quiet i (k # ks) (s, res) =
     (case store_Delete E (sys i) bucket k s of
        (s1, Some err) \<Rightarrow>
          delete_keys E sys bucket quiet (Suc i) ks
            (s1, res\<lparr>ds_Errors := ds_Errors res @ [\<lparr>de_Key = k, de_Code = ''InternalError'', de_Message = err\<rparr>]\<rparr>)
      | (s1, None) \<Rightarrow>
          delete_keys E sys bucket quiet (Suc i) ks
            (s1, if quiet then res else res\<lparr>ds_Deleted := ds_Deleted res @ [k]\<rparr>))"

definition deleteObjects ::
    "env \<Rightarrow> crypto \<Rightarrow> httplib \<Rightarrow> string \<Rightarrow> (nat \<Rightarrow> sysenv) \<Rightarrow> httpreq \<Rightarrow> string \<Rightarrow> signature \<Rightarrow> store \<Rightarrow> store \<times> httpreply" where
  "deleteObjects E C H region sys r bucket sig s =
     (case limit_reader bodyLimit (fst (requestBody E C region r sig)) of
        (raw, Some _) \<Rightarrow> (s, [], Inl (errInvalidRequest ''could not read the request body''))
      | (raw, None) \<Rightarrow>
          (case hl_xmlDelete H raw of
             None \<Rightarrow> (s, [], Inl errMalformedXML)
           | Some req \<Rightarrow>
               if maxDeleteBatch < length (dr_Objects req)
               then (s, [], Inl (errInvalidArgument ''a batch delete may list at most 1000 keys''))
               else
                 (case delete_keys E sys bucket (dr_Quiet req) 0 (dr_Objects req) (s, \<lparr>ds_Deleted = [], ds_Errors = []\<rparr>) of
                    (s1, res) \<Rightarrow> (s1, writeXML H 200 (XDelete res) []))))"

subsection \<open>Multipart uploads\<close>

definition createUpload ::
    "env \<Rightarrow> httplib \<Rightarrow> reqsys \<Rightarrow> string \<Rightarrow> string \<Rightarrow> store \<Rightarrow> store \<times> httpreply" where
  "createUpload E H rs bucket key s =
     (case CreateUpload E (rs_ok rs 0) (rs_rand rs) (rs_clock rs 0) bucket key s of
        (s1, Inl err) \<Rightarrow> (s1, [], Inl (sv_fail err))
      | (s1, Inr u) \<Rightarrow>
          (s1, writeXML H 200 (XInitiate \<lparr>im_Bucket = bucket, im_Key = key, im_UploadID = u_id u\<rparr>) []))"

definition uploadPartOp ::
    "env \<Rightarrow> crypto \<Rightarrow> string \<Rightarrow> reqsys \<Rightarrow> httpreq \<Rightarrow> string \<Rightarrow> string \<Rightarrow> string \<Rightarrow> signature \<Rightarrow> store \<Rightarrow> store \<times> httpreply" where
  "uploadPartOp E C region rs r bucket uploadID partNumber sig s =
     (case parse_int partNumber of
        None \<Rightarrow> (s, [], Inl (errInvalidArgument ''partNumber must be an integer''))
      | Some n \<Rightarrow>
          (case UploadPart E (rs_sys rs 0) (rs_ok rs) (rs_clock rs) bucket uploadID n (fst (requestBody E C region r sig)) s of
             (s1, Inl err) \<Rightarrow> (s1, [], Inl (sv_fail err))
           | (s1, Inr part) \<Rightarrow> (s1, h_set ''ETag'' (quoteETag (p_etag part)) [], Inr (200, NoBody))))"

definition completeUpload ::
    "env \<Rightarrow> httplib \<Rightarrow> reqsys \<Rightarrow> httpreq \<Rightarrow> string \<Rightarrow> string \<Rightarrow> string \<Rightarrow> store \<Rightarrow> store \<times> httpreply" where
  "completeUpload E H rs r bucket key uploadID s =
     (case limit_reader bodyLimit (rq_body r) of
        (raw, Some _) \<Rightarrow> (s, [], Inl (errInvalidRequest ''could not read the request body''))
      | (raw, None) \<Rightarrow>
          (case hl_xmlParts H raw of
             None \<Rightarrow> (s, [], Inl errMalformedXML)
           | Some parts \<Rightarrow>
               (case CompleteUpload E (rs_sys rs 0) (rs_ok rs) (rs_clock rs) bucket uploadID
                       (map (\<lambda>p. \<lparr>cp_number = pr_PartNumber p, cp_etag = pr_ETag p\<rparr>) parts) s of
                  (s1, Inl err) \<Rightarrow> (s1, [], Inl (sv_fail err))
                | (s1, Inr e) \<Rightarrow>
                    (s1, writeXML H 200
                       (XComplete \<lparr>cm_Location = ''/'' @ bucket @ ''/'' @ key, cm_Bucket = bucket, cm_Key = key,
                                   cm_ETag = quoteETag (e_etag e)\<rparr>) []))))"

definition abortUpload :: "env \<Rightarrow> reqsys \<Rightarrow> string \<Rightarrow> string \<Rightarrow> store \<Rightarrow> store \<times> httpreply" where
  "abortUpload E rs bucket uploadID s =
     (case AbortUpload E (rs_ok rs) (rs_clock rs) bucket uploadID s of
        (s1, Some err) \<Rightarrow> (s1, [], Inl (sv_fail err))
      | (s1, None) \<Rightarrow> (s1, [], Inr (204, NoBody)))"

definition part_info :: "upload \<Rightarrow> int \<Rightarrow> partInfo list" where
  "part_info u n =
     (case map_of (u_parts u) n of
        None \<Rightarrow> []
      | Some p \<Rightarrow> [\<lparr>pi_PartNumber = n, pi_LastModified = p_uploaded p, pi_ETag = quoteETag (p_etag p), pi_Size = p_size p\<rparr>])"

definition listParts :: "httplib \<Rightarrow> string \<Rightarrow> string \<Rightarrow> string \<Rightarrow> store \<Rightarrow> httpreply" where
  "listParts H bucket key uploadID s =
     (case ListParts bucket uploadID s of
        Inl err \<Rightarrow> ([], Inl (sv_fail err))
      | Inr (u, numbers) \<Rightarrow>
          writeXML H 200
            (XParts \<lparr>lp_Bucket = bucket, lp_Key = key, lp_UploadID = uploadID, lp_MaxParts = int (length numbers),
                     lp_IsTruncated = False, lp_Parts = concat (map (part_info u) numbers)\<rparr>) [])"

definition listUploads :: "httplib \<Rightarrow> string \<Rightarrow> store \<Rightarrow> httpreply" where
  "listUploads H bucket s =
     (case ListUploads bucket s of
        (_, Some err) \<Rightarrow> ([], Inl (sv_fail err))
      | (ups, None) \<Rightarrow>
          writeXML H 200
            (XUploads \<lparr>lu_Bucket = bucket, lu_IsTruncated = False,
                       lu_Uploads = map (\<lambda>u. \<lparr>ui_Key = u_key u, ui_UploadID = u_id u, ui_Initiated = u_initiated u\<rparr>) ups\<rparr>) [])"

subsection \<open>Routing\<close>

definition unix_epoch :: gotime where "unix_epoch = 62135596800000000000"

definition listBuckets :: "httplib \<Rightarrow> signature \<Rightarrow> httpreply" where
  "listBuckets H sig =
     (let b = cd_bucket (sg_creds sig) in
      writeXML H 200
        (XBuckets \<lparr>lb_Owner = \<lparr>ow_ID = b, ow_DisplayName = b\<rparr>,
                   lb_Bucket = [\<lparr>bk_Name = b, bk_CreationDate = unix_epoch\<rparr>]\<rparr>) [])"

definition unsupported_names :: "string list" where
  "unsupported_names =
     [''versioning'', ''versions'', ''lifecycle'', ''policy'', ''acl'', ''cors'', ''tagging'', ''replication'',
      ''encryption'', ''notification'', ''object-lock'', ''accelerate'', ''logging'', ''website'', ''requestPayment'']"

definition unsupportedBucketQuery :: "urlvals \<Rightarrow> string" where
  "unsupportedBucketQuery q =
     (case find (val_has q) unsupported_names of None \<Rightarrow> [] | Some name \<Rightarrow> ''bucket '' @ name)"

definition publicRead :: "httpreq \<Rightarrow> string \<Rightarrow> string \<Rightarrow> store \<Rightarrow> bool" where
  "publicRead r bucket key s \<longleftrightarrow>
     bucket \<noteq> [] \<and> key \<noteq> [] \<and> (rq_method r = ''GET'' \<or> rq_method r = ''HEAD'') \<and>
     val_get (rq_header r) ''Authorization'' = [] \<and> val_get (rq_query r) ''X-Amz-Signature'' = [] \<and>
     rq_rawQuery r = [] \<and>
     (case store_Bucket s bucket of
        None \<Rightarrow> False
      | Some b \<Rightarrow> bc_publicRead b \<and> \<not> IsProtected b key)"

definition bucketOp ::
    "env \<Rightarrow> crypto \<Rightarrow> httplib \<Rightarrow> reqsys \<Rightarrow> httpreq \<Rightarrow> string \<Rightarrow> signature \<Rightarrow> server \<Rightarrow> store \<times> httpreply" where
  "bucketOp E C H rs r bucket sig sv =
     (let q = rq_query r; s = sv_store sv; m = rq_method r in
      if m = ''HEAD'' then
        (if store_Bucket s bucket = None then (s, [], Inl errNoSuchBucket)
         else (s, h_set ''x-amz-bucket-region'' (sv_region sv) [], Inr (200, NoBody)))
      else if m = ''GET'' then
        (if val_has q ''uploads'' then (s, listUploads H bucket s)
         else if unsupportedBucketQuery q \<noteq> [] then (s, [], Inl (errNotImplemented (unsupportedBucketQuery q)))
         else (s, listObjects H s r bucket))
      else if m = ''POST'' then
        (if val_has q ''delete'' then deleteObjects E C H (sv_region sv) (rs_sys rs) r bucket sig s
         else (s, [], Inl (errNotImplemented ''this bucket operation'')))
      else if m = ''PUT'' then
        (s, [], Inl (errNotImplemented (''creating buckets over the API: buckets are declared in tana'' @ [CHR 0x27] @ ''s configuration'')))
      else if m = ''DELETE'' then
        (s, [], Inl (errNotImplemented (''deleting buckets over the API: buckets are declared in tana'' @ [CHR 0x27] @ ''s configuration'')))
      else (s, [], Inl (errNotImplemented ''this method'')))"

definition objectOp ::
    "env \<Rightarrow> crypto \<Rightarrow> httplib \<Rightarrow> reqsys \<Rightarrow> httpreq \<Rightarrow> string \<Rightarrow> string \<Rightarrow> signature \<Rightarrow> server \<Rightarrow> store \<times> httpreply" where
  "objectOp E C H rs r bucket key sig sv =
     (let q = rq_query r; s = sv_store sv; m = rq_method r; uploadID = val_get q ''uploadId'' in
      if m = ''GET'' then
        (if uploadID \<noteq> [] then (s, listParts H bucket key uploadID s)
         else getObject H (rs_sys rs 0) r bucket key True s)
      else if m = ''HEAD'' then getObject H (rs_sys rs 0) r bucket key False s
      else if m = ''PUT'' then
        (if uploadID \<noteq> [] then uploadPartOp E C (sv_region sv) rs r bucket uploadID (val_get q ''partNumber'') sig s
         else
           (let src = val_get (rq_header r) ''X-Amz-Copy-Source'' in
            if src \<noteq> [] then copyObject E H (rs_sys rs) (rs_now rs) bucket key src s
            else putObject E C (sv_region sv) (rs_sys rs 0) (rs_now rs) r bucket key sig s))
      else if m = ''POST'' then
        (if val_has q ''uploads'' then createUpload E H rs bucket key s
         else if uploadID \<noteq> [] then completeUpload E H rs r bucket key uploadID s
         else (s, [], Inl (errNotImplemented ''this object operation'')))
      else if m = ''DELETE'' then
        (if uploadID \<noteq> [] then abortUpload E rs bucket uploadID s
         else deleteObject E (rs_sys rs 0) bucket key s)
      else (s, [], Inl (errNotImplemented ''this method'')))"

text \<open>\<open>New\<close>: the verifier looks a key up among the buckets.\<close>

definition sv_verifier :: "gotime \<Rightarrow> server \<Rightarrow> verifier" where
  "sv_verifier now sv =
     \<lparr>vf_lookup = (\<lambda>k. case BucketByAccessKey (sv_store sv) k of
                        None \<Rightarrow> None
                      | Some b \<Rightarrow> Some \<lparr>cd_accessKey = bc_accessKey b, cd_secretKey = bc_secretKey b, cd_bucket = bc_name b\<rparr>),
      vf_region = sv_region sv, vf_now = now\<rparr>"

definition route ::
    "env \<Rightarrow> crypto \<Rightarrow> httplib \<Rightarrow> reqsys \<Rightarrow> httpreq \<Rightarrow> string \<Rightarrow> string \<Rightarrow> server \<Rightarrow> store \<times> httpreply" where
  "route E C H rs r bucket key sv =
     (let s = sv_store sv in
      if publicRead r bucket key s then getObject H (rs_sys rs 0) r bucket key (rq_method r = ''GET'') s
      else
        (case verify_request E C (sv_verifier (rs_now rs) sv) r of
           Inl e \<Rightarrow> (s, [], Inl e)
         | Inr sig \<Rightarrow>
             if bucket \<noteq> [] \<and> bucket \<noteq> cd_bucket (sg_creds sig) then (s, [], Inl errAccessDenied)
             else if bucket = [] then
               (if rq_method r \<noteq> ''GET''
                then (s, [], Inl (errNotImplemented ''operations on the service root other than listing buckets''))
                else (s, listBuckets H sig))
             else if key = [] then bucketOp E C H rs r bucket sig sv
             else objectOp E C H rs r bucket key sig sv))"

subsection \<open>The response\<close>

record recorder =
  rr_status :: nat
  rr_written :: int
  rr_wrote :: bool

definition rec_WriteHeader :: "nat \<Rightarrow> recorder \<Rightarrow> recorder" where
  "rec_WriteHeader status c = (if rr_wrote c then c else c\<lparr>rr_wrote := True, rr_status := status\<rparr>)"

definition rec_Write :: "string \<Rightarrow> recorder \<Rightarrow> recorder" where
  "rec_Write p c =
     (let c = (if rr_wrote c then c else rec_WriteHeader 200 c) in c\<lparr>rr_written := rr_written c + int (length p)\<rparr>)"

definition body_bytes :: "rbody \<Rightarrow> string" where
  "body_bytes b = (case b of NoBody \<Rightarrow> [] | Bytes d \<Rightarrow> d | Doc _ d \<Rightarrow> d)"

text \<open>The error document, or the bare status of a HEAD.\<close>

definition writeError :: "httplib \<Rightarrow> httpreq \<Rightarrow> apierr \<Rightarrow> headers \<Rightarrow> headers \<times> (nat \<times> rbody)" where
  "writeError H r e h =
     (if rq_method r = ''HEAD'' then (h, er_Status e, NoBody)
      else
        (case writeXML H (er_Status e) (XError (e\<lparr>er_resource := rq_path r\<rparr>)) h of
           (h1, Inr w) \<Rightarrow> (h1, w)
         | (h1, Inl _) \<Rightarrow> (h1, 200, NoBody)))"

record httpresp =
  ht_status :: nat
  ht_headers :: headers
  ht_body :: rbody

record accesslog =
  al_bucket :: string
  al_key :: string
  al_status :: nat
  al_bytes :: int

definition ServeHTTP ::
    "env \<Rightarrow> crypto \<Rightarrow> httplib \<Rightarrow> reqsys \<Rightarrow> httpreq \<Rightarrow> server \<Rightarrow> server \<times> httpresp \<times> accesslog" where
  "ServeHTTP E C H rs r sv =
     (case splitPath (rq_path r) of
        (bucket, key) \<Rightarrow>
          (case route E C H rs r bucket key sv of
             (s, h, out) \<Rightarrow>
               (case (case out of Inl e \<Rightarrow> writeError H r e h | Inr w \<Rightarrow> (h, w)) of
                  (h1, status, body) \<Rightarrow>
                    let c = rec_Write (body_bytes body) (rec_WriteHeader status \<lparr>rr_status = 200, rr_written = 0, rr_wrote = False\<rparr>)
                    in (sv\<lparr>sv_store := s\<rparr>, \<lparr>ht_status = status, ht_headers = h1, ht_body = body\<rparr>,
                        \<lparr>al_bucket = bucket, al_key = key, al_status = rr_status c, al_bytes = rr_written c\<rparr>))))"

end
