(* ===== verification/ServerFrame.thy ===== *)
theory ServerFrame
  imports Server
begin

text \<open>
  What an operation of the store on one bucket can touch, whatever fails on the way: the
  entries of that bucket's namespace, its uploads and the sequence mark in the metadata,
  records of that bucket appended to the journal, and blobs that were not there before.
\<close>

subsection \<open>The index\<close>

definition apart :: "string \<Rightarrow> idx \<Rightarrow> idx \<Rightarrow> bool" where
  "apart b x x' \<longleftrightarrow>
     (\<forall>ns. ns \<noteq> store_ns b \<longrightarrow> ns_objs x' ns = ns_objs x ns) \<and>
     (\<forall>k. \<not> has_prefix k (uploadKey b []) \<longrightarrow> k \<noteq> appliedSeqKey \<longrightarrow> tx_meta k x' = tx_meta k x) \<and>
     (uploads_ok x \<longrightarrow> uploads_ok x')"

lemma apart_refl [intro, simp]: "apart b x x"
  by (simp add: apart_def)

lemma apart_trans [trans]: "apart b x y \<Longrightarrow> apart b y z \<Longrightarrow> apart b x z"
  by (simp add: apart_def)

lemma apart_same: "(\<And>ns. ns \<noteq> store_ns b \<Longrightarrow> ns_objs x' ns = ns_objs x ns) \<Longrightarrow> ix_meta x' = ix_meta x \<Longrightarrow> apart b x x'"
  by (simp add: apart_def tx_meta_def uploads_ok_def)

lemma apart_ref: "tx_ref E h d now x = Inr (n, x') \<Longrightarrow> apart b x x'"
  by (rule apart_same) (auto simp: tx_ref_def Let_def res_bind_Inr split: if_splits option.splits raw.splits)

lemma applyStats_same: "applyStats E ns old cur x = Inr x' \<Longrightarrow> ix_objs x' = ix_objs x \<and> ix_meta x' = ix_meta x"
  by (auto simp: applyStats_def Let_def res_bind_Inr split: option.splits raw.splits)

lemma apart_put: "tx_put E now (store_ns b) e x = Inr x' \<Longrightarrow> apart b x x'"
  by (rule apart_same)
    (auto simp: tx_put_def Let_def res_bind_Inr ns_objs_def dest!: applyStats_same split: if_splits)

lemma apart_delete: "tx_delete E (store_ns b) key x = Inr (old, x') \<Longrightarrow> apart b x x'"
  by (rule apart_same)
    (auto simp: tx_delete_def Let_def res_bind_Inr ns_objs_def dest!: applyStats_same split: option.splits)

lemma apart_meta:
  assumes "has_prefix k (uploadKey b []) \<or> k = appliedSeqKey"
    and "\<And>u. v = MUpload u \<Longrightarrow> k = uploadKey (u_bucket u) (u_id u) \<and> distinct (map fst (u_parts u))"
    and "tx_setMeta E k v x = Inr x'"
  shows "apart b x x'"
  using assms by (auto simp: tx_setMeta_def kv_put_def res_bind_Inr apart_def tx_meta_def uploads_ok_def split: if_splits)

lemma apart_applied: "set_applied E seq x = Inr x' \<Longrightarrow> apart b x x'"
  unfolding set_applied_def by (rule apart_meta) simp_all

lemma apart_delMeta: "has_prefix k (uploadKey b []) \<Longrightarrow> tx_delMeta k x = Inr x' \<Longrightarrow> apart b x x'"
  by (auto simp: tx_delMeta_def apart_def tx_meta_def uploads_ok_def split: if_splits)

lemma apart_bind:
  assumes "store_bind E t0 b key hash etag sz mtime now x = Inr x'"
  shows "apart b x x'"
proof -
  obtain old where old: "tx_get (store_ns b) key x = Inr old"
    using assms by (auto simp: store_bind_def res_bind_Inr)
  show ?thesis
  proof (cases old)
    case None
    then show ?thesis using assms old by (auto simp: store_bind_def res_bind_Inr intro: apart_put apart_ref apart_trans)
  next
    case (Some o1)
    show ?thesis
    proof (cases "e_hash o1 = hash")
      case True
      then show ?thesis using assms old Some by (auto simp: store_bind_def intro: apart_put)
    next
      case False
      then obtain x1 where x1: "(if e_hash o1 \<noteq> [] then res_bind (tx_ref E (e_hash o1) (- 1) now x) (\<lambda>(_, x'). Inr x') else Inr x) = Inr x1"
        and r: "res_bind (tx_ref E hash 1 now x1) (\<lambda>(_, x2). tx_put E t0 (store_ns b)
            \<lparr>e_key = key, e_size = sz, e_mtime = mtime, e_mode = mode644, e_hash = hash, e_etag = etag,
             e_state = Synced, e_atime = now, e_pinned = False\<rparr> x2) = Inr x'"
        using assms old Some by (auto simp: store_bind_def res_bind_Inr simp del: not_Cons_self2)
      have "apart b x x1" using x1 by (auto simp: res_bind_Inr split: if_splits intro: apart_ref)
      moreover have "apart b x1 x'" using r by (auto simp: res_bind_Inr intro: apart_put apart_ref apart_trans)
      ultimately show ?thesis by (rule apart_trans)
    qed
  qed
qed

lemma apart_unbind: "store_unbind E b key now x = Inr x' \<Longrightarrow> apart b x x'"
  by (auto simp: store_unbind_def res_bind_Inr split: option.splits if_splits
      intro: apart_delete apart_ref apart_trans)

lemma apart_update:
  assumes "db_update ok body d = (d', r)" and "\<And>a x'. body (db_file d) = Inr (a, x') \<Longrightarrow> apart b (db_file d) x'"
  shows "apart b (db_file d) (db_file d')"
  using assms by (auto simp: db_update_def split: sum.splits prod.splits if_splits)

subsection \<open>Blobs and journal\<close>

definition kept :: "blobfs \<Rightarrow> blobfs \<Rightarrow> bool" where
  "kept fs fs' \<longleftrightarrow> (\<forall>p f. bk_get (bf_blobs fs) p = Some f \<longrightarrow> bk_get (bf_blobs fs') p = Some f)"

lemma kept_commit: "blob_commit flt name info fs = (fs', r) \<Longrightarrow> kept fs fs'"
  by (auto simp: blob_commit_def kept_def Let_def split: if_splits option.splits blob_fault.splits)

lemma kept_put: "blob_put E flt now name r fs = (fs', res) \<Longrightarrow> kept fs fs'"
proof -
  assume p: "blob_put E flt now name r fs = (fs', res)"
  show ?thesis
  proof (cases "newTemp flt now name fs")
    case (Inl e)
    then show ?thesis using p by (simp add: blob_put_def kept_def)
  next
    case (Inr fs1)
    have t: "bf_blobs fs1 = bf_blobs fs" using Inr by (auto simp: newTemp_def split: if_splits)
    let ?fs2 = "fs1\<lparr>bf_tmp := bk_put name \<lparr>f_data = fst r, f_mtime = now\<rparr> (bf_tmp fs1)\<rparr>"
    let ?info = "\<lparr>bi_hash = sha256_hex E (fst r), bi_md5 = md5_hex E (fst r), bi_size = of_nat (length (fst r)), bi_deduped = False\<rparr>"
    obtain fs3 c where c: "blob_commit flt name ?info ?fs2 = (fs3, c)" by (metis prod.exhaust)
    have "bf_blobs fs' = bf_blobs ?fs2 \<or> bf_blobs fs' = bf_blobs fs3"
      using p Inr c by (auto simp: blob_put_def Let_def drop_tmp_def split: if_splits)
    then show ?thesis using kept_commit [OF c] t by (auto simp: kept_def)
  qed
qed

definition journals :: "env \<Rightarrow> string \<Rightarrow> journal \<Rightarrow> journal \<Rightarrow> bool" where
  "journals E b = rtranclp (\<lambda>j j'. \<exists>f t r. r_bucket r = b \<and> j' = fst (jappend E f t r j))"

lemma journals_append: "jappend E f t r j = (j', q) \<Longrightarrow> r_bucket r = b \<Longrightarrow> journals E b j j'"
  unfolding journals_def by (rule r_into_rtranclp) (metis fst_conv)

subsection \<open>The store\<close>

definition owned :: "env \<Rightarrow> string \<Rightarrow> store \<Rightarrow> store \<Rightarrow> bool" where
  "owned E b s s' \<longleftrightarrow>
     apart b (db_file (s_db s)) (db_file (s_db s')) \<and> journals E b (s_jrnl s) (s_jrnl s') \<and>
     kept (s_blobs s) (s_blobs s') \<and> s_buckets s' = s_buckets s \<and> s_gc s' = s_gc s"

definition touched :: "store \<Rightarrow> store \<Rightarrow> bool" where
  "touched s s' \<longleftrightarrow> (\<exists>p. s' = s\<lparr>s_db := (s_db s)\<lparr>db_pending := p\<rparr>\<rparr>)"

lemma touched_refl [intro, simp]: "touched s s"
  unfolding touched_def by (rule exI [of _ "db_pending (s_db s)"]) simp

lemma owned_refl [intro, simp]: "owned E b s s"
  by (simp add: owned_def kept_def journals_def)

lemma owned_trans [trans]: "owned E b s t \<Longrightarrow> owned E b t u \<Longrightarrow> owned E b s u"
  unfolding owned_def journals_def by (auto simp: kept_def intro: apart_trans)

lemma touched_owned: "touched s s' \<Longrightarrow> owned E b s s'"
  by (auto simp: touched_def owned_def kept_def journals_def)

lemma owned_db: "apart b (db_file (s_db s)) (db_file d) \<Longrightarrow> owned E b s (s\<lparr>s_db := d\<rparr>)"
  by (simp add: owned_def kept_def journals_def)

lemma owned_blobs: "kept (s_blobs s) fs \<Longrightarrow> owned E b s (s\<lparr>s_blobs := fs\<rparr>)"
  by (simp add: owned_def journals_def)

lemma owned_jrnl: "journals E b (s_jrnl s) j \<Longrightarrow> owned E b s (s\<lparr>s_jrnl := j\<rparr>)"
  by (simp add: owned_def kept_def)

lemma put_blob_owned: "put_blob E sy b k r opt s = (s', res) \<Longrightarrow> owned E b s s'"
  by (auto simp: put_blob_def split: if_splits prod.splits sum.splits intro!: owned_blobs dest: kept_put)

lemma put_journal_owned: "put_journal E sy b k opt info s = (s', res) \<Longrightarrow> owned E b s s'"
  by (auto simp: put_journal_def put_record_def split: prod.splits intro!: owned_jrnl dest: journals_append)

lemma put_index_owned: "put_index E sy b k opt info n s = (s', res) \<Longrightarrow> owned E b s s'"
proof -
  assume p: "put_index E sy b k opt info n s = (s', res)"
  let ?body = "unit_tx (\<lambda>x. res_bind (store_bind E (sy_clock sy 4) b k (bi_hash info) (put_etag opt info) (bi_size info)
      (put_mtime sy opt) (sy_clock sy 3) x) (set_applied E n))"
  obtain d q where u: "db_update (sy_commit sy) ?body (s_db s) = (d, q)" by (metis prod.exhaust)
  have "apart b (db_file (s_db s)) (db_file d)"
    by (rule apart_update [OF u]) (auto simp: unit_tx_def res_bind_Inr intro: apart_bind apart_applied apart_trans)
  moreover have "s' = s\<lparr>s_db := d\<rparr>" using p u by (auto simp: put_index_def Let_def split: sum.splits)
  ultimately show ?thesis by (simp add: owned_db)
qed

lemma PutWith_owned: "store_PutWith E sy b k r opt s = (s', res) \<Longrightarrow> owned E b s s'"
  by (auto simp: store_PutWith_def split: prod.splits sum.splits
      dest!: put_blob_owned put_journal_owned put_index_owned intro: owned_trans)

lemma delete_journal_owned: "delete_journal E sy b k s = (s', res) \<Longrightarrow> owned E b s s'"
  by (auto simp: delete_journal_def delete_record_def split: prod.splits intro!: owned_jrnl dest: journals_append)

lemma delete_index_owned: "delete_index E sy b k n s = (s', res) \<Longrightarrow> owned E b s s'"
proof -
  assume p: "delete_index E sy b k n s = (s', res)"
  let ?body = "unit_tx (\<lambda>x. res_bind (store_unbind E b k (sy_clock sy 1) x) (set_applied E n))"
  obtain d q where u: "db_update (sy_commit sy) ?body (s_db s) = (d, q)" by (metis prod.exhaust)
  have "apart b (db_file (s_db s)) (db_file d)"
    by (rule apart_update [OF u]) (auto simp: unit_tx_def res_bind_Inr intro: apart_unbind apart_applied apart_trans)
  moreover have "s' = s\<lparr>s_db := d\<rparr>" using p u by (auto simp: delete_index_def split: sum.splits)
  ultimately show ?thesis by (simp add: owned_db)
qed

lemma Delete_owned: "store_Delete E sy b k s = (s', res) \<Longrightarrow> owned E b s s'"
  by (auto simp: store_Delete_def split: if_splits prod.splits sum.splits option.splits
      dest!: delete_journal_owned delete_index_owned intro: owned_trans)

lemma Get_touched: "store_Get sy b k s = (s', res) \<Longrightarrow> touched s s'"
  by (auto simp: store_Get_def db_touch_def Let_def touched_def split: sum.splits
      intro: exI [of _ "db_pending (s_db s)"])

subsection \<open>Uploads\<close>

definition upload_of :: "string \<Rightarrow> upload \<Rightarrow> bool" where
  "upload_of b u \<longleftrightarrow> has_prefix (uploadKey (u_bucket u) (u_id u)) (uploadKey b []) \<and> distinct (map fst (u_parts u))"

lemma loadUpload_of:
  assumes "uploads_ok (db_file (s_db s))" "loadUpload b i s = Inr u"
  shows "upload_of b u"
proof -
  have "tx_meta (uploadKey b i) (db_file (s_db s)) = Some (MUpload u)"
    using assms(2) by (auto simp: loadUpload_def db_meta_def split: if_splits option.splits metaval.splits)
  then have "uploadKey b i = uploadKey (u_bucket u) (u_id u)" "distinct (map fst (u_parts u))"
    using assms(1) by (auto simp: uploads_ok_def)
  moreover have "has_prefix (uploadKey b i) (uploadKey b [])" by (simp add: uploadKey_def has_prefix_iff)
  ultimately show ?thesis by (simp add: upload_of_def)
qed

lemma saveUpload_owned:
  assumes "upload_of b u" "saveUpload E ok u s = (s', r)"
  shows "owned E b s s'"
proof -
  let ?body = "unit_tx (tx_setMeta E (uploadKey (u_bucket u) (u_id u)) (MUpload u))"
  obtain d q where u: "db_update ok ?body (s_db s) = (d, q)" by (metis prod.exhaust)
  have "apart b (db_file (s_db s)) (db_file d)"
    by (rule apart_update [OF u]) (use assms(1) in \<open>auto simp: unit_tx_def res_bind_Inr upload_of_def intro: apart_meta\<close>)
  moreover have "s' = s\<lparr>s_db := d\<rparr>" using assms(2) u by (auto simp: saveUpload_def split: sum.splits)
  ultimately show ?thesis by (simp add: owned_db)
qed

lemma releaseBlob_owned: "releaseBlob E ok now h s = (s', r) \<Longrightarrow> owned E b s s'"
proof -
  assume p: "releaseBlob E ok now h s = (s', r)"
  obtain d q where u: "db_update ok (tx_ref E h (- 1) now) (s_db s) = (d, q)" by (metis prod.exhaust)
  have "apart b (db_file (s_db s)) (db_file d)" by (rule apart_update [OF u]) (rule apart_ref)
  moreover have "s' = s\<lparr>s_db := d\<rparr>" using p u by (auto simp: releaseBlob_def split: sum.splits)
  ultimately show ?thesis by (simp add: owned_db)
qed

lemma CreateUpload_owned: "CreateUpload E ok raw now b k s = (s', r) \<Longrightarrow> owned E b s s'"
proof -
  assume p: "CreateUpload E ok raw now b k s = (s', r)"
  have "upload_of b \<lparr>u_bucket = b, u_key = k, u_id = i, u_initiated = now, u_parts = []\<rparr>" for i
    by (simp add: upload_of_def uploadKey_def has_prefix_iff)
  then show ?thesis using p
    by (auto simp: CreateUpload_def Let_def split: if_splits option.splits prod.splits dest: saveUpload_owned)
qed

lemma part_record_owned:
  assumes "upload_of b u" "part_record E ok clock u n info s = (s', r)"
  shows "owned E b s s'"
proof -
  obtain d q where u: "db_update (ok 0) (tx_ref E (bi_hash info) 1 (clock 0)) (s_db s) = (d, q)" by (metis prod.exhaust)
  have "apart b (db_file (s_db s)) (db_file d)" by (rule apart_update [OF u]) (rule apart_ref)
  then have o1: "owned E b s (s\<lparr>s_db := d\<rparr>)" by (rule owned_db)
  show ?thesis
  proof (cases q)
    case (Inl e)
    then show ?thesis using assms(2) u o1 by (simp add: part_record_def)
  next
    case (Inr c)
    obtain s2 e2 where rel: "(case map_of (u_parts u) n of None \<Rightarrow> (s\<lparr>s_db := d\<rparr>, None)
        | Some old \<Rightarrow> releaseBlob E (ok 1) (clock 1) (p_hash old) (s\<lparr>s_db := d\<rparr>)) = (s2, e2)" by (metis prod.exhaust)
    have o2: "owned E b (s\<lparr>s_db := d\<rparr>) s2"
      using rel by (auto split: option.splits dest: releaseBlob_owned)
    have up: "upload_of b (u\<lparr>u_parts := parts_put n p (u_parts u)\<rparr>)" for p
      using assms(1) by (auto simp: upload_of_def parts_put_def distinct_map_filter)
    show ?thesis
    proof (cases e2)
      case None
      then have "owned E b s2 s'"
        using assms(2) u Inr rel saveUpload_owned [OF up]
        by (auto simp: part_record_def Let_def split: prod.splits option.splits)
      then show ?thesis using o1 o2 owned_trans by blast
    next
      case (Some e)
      then have "s' = s2" using assms(2) u Inr rel by (simp add: part_record_def Let_def)
      then show ?thesis using o1 o2 owned_trans by blast
    qed
  qed
qed

lemma UploadPart_owned:
  assumes "uploads_ok (db_file (s_db s))" "UploadPart E sy ok clock b i n r s = (s', res)"
  shows "owned E b s s'"
proof (cases "n < 1 \<or> maxParts < n")
  case True
  then show ?thesis using assms(2) by (auto simp: UploadPart_def)
next
  case False
  show ?thesis
  proof (cases "loadUpload b i s")
    case (Inl e)
    then show ?thesis using assms(2) False by (simp add: UploadPart_def)
  next
    case (Inr u)
    obtain fs q where p: "blob_put E (sy_blob sy) (sy_clock sy 0) (sy_tmp sy) r (s_blobs s) = (fs, q)" by (metis prod.exhaust)
    have o1: "owned E b s (s\<lparr>s_blobs := fs\<rparr>)" by (rule owned_blobs [OF kept_put [OF p]])
    show ?thesis using assms(2) False Inr p o1 part_record_owned [OF loadUpload_of [OF assms(1) Inr]]
      by (cases q) (auto simp: UploadPart_def intro: owned_trans)
  qed
qed

lemma release_parts_owned: "release_parts E ok clock i ps s = (s', r) \<Longrightarrow> owned E b s s'"
proof (induction E ok clock i ps s rule: release_parts.induct)
  case (2 E ok clock i p ps s)
  obtain s1 e where r: "releaseBlob E (ok i) (clock i) (p_hash (snd p)) s = (s1, e)" by (metis prod.exhaust)
  show ?case using 2 r releaseBlob_owned [OF r, of b] by (cases e) (auto intro: owned_trans)
qed simp

lemma discardUpload_owned:
  assumes "upload_of b u" "discardUpload E ok clock u s = (s', r)"
  shows "owned E b s s'"
proof -
  obtain s1 e where rp: "release_parts E ok clock 0 (u_parts u) s = (s1, e)" by (metis prod.exhaust)
  have o1: "owned E b s s1" by (rule release_parts_owned [OF rp])
  let ?body = "unit_tx (tx_delMeta (uploadKey (u_bucket u) (u_id u)))"
  obtain d q where u: "db_update (ok (length (u_parts u))) ?body (s_db s1) = (d, q)" by (metis prod.exhaust)
  have "apart b (db_file (s_db s1)) (db_file d)"
    by (rule apart_update [OF u]) (use assms(1) in \<open>auto simp: unit_tx_def res_bind_Inr upload_of_def intro: apart_delMeta\<close>)
  then have "owned E b s1 (s1\<lparr>s_db := d\<rparr>)" by (rule owned_db)
  then show ?thesis using assms(2) rp u o1
    by (cases e; cases q) (auto simp: discardUpload_def intro: owned_trans)
qed

lemma AbortUpload_owned:
  assumes "uploads_ok (db_file (s_db s))" "AbortUpload E ok clock b i s = (s', r)"
  shows "owned E b s s'"
  using assms(2) discardUpload_owned [OF loadUpload_of [OF assms(1)]] by (auto simp: AbortUpload_def split: sum.splits)

lemma CompleteUpload_owned:
  assumes "uploads_ok (db_file (s_db s))" "CompleteUpload E sy ok clock b i parts s = (s', r)"
  shows "owned E b s s'"
proof (cases "loadUpload b i s")
  case (Inl e)
  then show ?thesis using assms(2) by (simp add: CompleteUpload_def)
next
  case (Inr u)
  show ?thesis
    using assms(2) Inr loadUpload_of [OF assms(1) Inr]
    by (auto simp: CompleteUpload_def split: if_splits sum.splits prod.splits option.splits
        dest!: PutWith_owned discardUpload_owned [rotated] intro: owned_trans)
qed

end
