(* ===== verification/ServerLaws.thy ===== *)
theory ServerLaws
  imports ServerFrame S3ClientLaws
begin

text \<open>
  What a request can do.  A request that changes anything was verified with the key pair of
  the bucket in its path and changes that bucket only; the bytes a request gets are those of
  the object in its path, for a caller verified for that bucket or a public, unprotected key.
\<close>

subsection \<open>Ranges\<close>

lemma parseRange_bounds:
  assumes "parseRange header len = Inr (offset, n, partial)" "0 \<le> len"
  shows "0 \<le> offset" "0 \<le> n" "offset + n \<le> len" "\<not> partial \<Longrightarrow> offset = 0 \<and> n = len" "partial \<Longrightarrow> 0 < len \<Longrightarrow> 0 < n"
  using assms by (auto simp: parseRange_def Let_def split: if_splits option.splits prod.splits)

subsection \<open>Who changes what\<close>

lemma getObject_touched: "getObject H sy r b k body s = (s', rep) \<Longrightarrow> touched s s'"
  by (auto simp: getObject_def Let_def split: sum.splits if_splits prod.splits dest: Get_touched)

lemma putObject_owned: "putObject E C region sy now r b k sig s = (s', rep) \<Longrightarrow> owned E b s s'"
  by (auto simp: putObject_def Let_def split: sum.splits if_splits prod.splits dest: PutWith_owned)

lemma copyObject_owned: "copyObject E H sys now b k src s = (s', rep) \<Longrightarrow> owned E b s s'"
  by (auto simp: copyObject_def store_Put_def Let_def split: sum.splits if_splits prod.splits
      dest!: PutWith_owned Get_touched intro: owned_trans touched_owned)

lemma deleteObject_owned: "deleteObject E sy b k s = (s', rep) \<Longrightarrow> owned E b s s'"
  by (auto simp: deleteObject_def split: option.splits prod.splits dest: Delete_owned)

lemma delete_keys_owned: "delete_keys E sys b quiet i ks (s, res) = (s', res') \<Longrightarrow> owned E b s s'"
proof (induction ks arbitrary: i s res)
  case (Cons k ks)
  obtain s1 e where d: "store_Delete E (sys i) b k s = (s1, e)" by (metis prod.exhaust)
  have "owned E b s1 s'" using Cons.prems d by (cases e) (auto intro: Cons.IH)
  then show ?case using Delete_owned [OF d] owned_trans by blast
qed simp

lemma deleteObjects_owned: "deleteObjects E C H region sys r b sig s = (s', rep) \<Longrightarrow> owned E b s s'"
  by (auto simp: deleteObjects_def split: prod.splits option.splits if_splits dest: delete_keys_owned)

lemma uploadOps_owned:
  assumes up: "uploads_ok (db_file (s_db s))"
  shows "createUpload E H rs b k s = (s', rep) \<Longrightarrow> owned E b s s'"
    "uploadPartOp E C region rs r b i n sig s = (s', rep) \<Longrightarrow> owned E b s s'"
    "completeUpload E H rs r b k i s = (s', rep) \<Longrightarrow> owned E b s s'"
    "abortUpload E rs b i s = (s', rep) \<Longrightarrow> owned E b s s'"
  by (auto simp: createUpload_def uploadPartOp_def completeUpload_def abortUpload_def split: prod.splits option.splits sum.splits
      dest: CreateUpload_owned UploadPart_owned [OF up] CompleteUpload_owned [OF up] AbortUpload_owned [OF up])

definition writing :: "string \<Rightarrow> bool" where
  "writing m \<longleftrightarrow> m = ''PUT'' \<or> m = ''POST'' \<or> m = ''DELETE''"

lemma bucketOp_owned:
  assumes "bucketOp E C H rs r b sig sv = (s', rep)"
  shows "s' = sv_store sv \<or> writing (rq_method r) \<and> owned E b (sv_store sv) s'"
  using assms by (auto simp: bucketOp_def Let_def writing_def split: if_splits dest: deleteObjects_owned)

lemma objectOp_owned:
  assumes "uploads_ok (db_file (s_db (sv_store sv)))" "objectOp E C H rs r b k sig sv = (s', rep)"
  shows "touched (sv_store sv) s' \<or> writing (rq_method r) \<and> owned E b (sv_store sv) s'"
  using assms(2) by (auto simp: objectOp_def Let_def writing_def split: if_splits
      dest: getObject_touched putObject_owned copyObject_owned deleteObject_owned uploadOps_owned [OF assms(1)])

text \<open>The request carries a signature by the key pair of a configured bucket of this name.\<close>

definition signed_for :: "env \<Rightarrow> crypto \<Rightarrow> gotime \<Rightarrow> httpreq \<Rightarrow> server \<Rightarrow> string \<Rightarrow> bool" where
  "signed_for E C now r sv b \<longleftrightarrow>
     (\<exists>sig cfg. verify_request E C (sv_verifier now sv) r = Inr sig \<and> cfg \<in> snd ` set (s_buckets (sv_store sv)) \<and>
        bc_name cfg = b \<and> sg_creds sig = \<lparr>cd_accessKey = bc_accessKey cfg, cd_secretKey = bc_secretKey cfg, cd_bucket = b\<rparr>)"

lemma verified_resolved:
  assumes "verify_request E C v r = Inr sig"
  obtains credential scope where "resolve C v credential = Inr (sg_creds sig, scope)"
proof (cases "val_get (rq_query r) ''X-Amz-Signature'' = []")
  case True
  with assms have "verifyHeader E C v r = Inr sig" by (simp add: verify_request_def)
  from verifyHeader_Inr [OF this] show ?thesis using that by metis
next
  case False
  with assms have "verifyPresigned E C v r = Inr sig" by (simp add: verify_request_def)
  then show ?thesis using that
    by (auto simp: verifyPresigned_def Let_def split: if_splits sum.splits prod.splits option.splits)
qed

lemma verified_signed_for:
  assumes "verify_request E C (sv_verifier now sv) r = Inr sig"
  shows "signed_for E C now r sv (cd_bucket (sg_creds sig))"
proof -
  from verified_resolved [OF assms] obtain credential scope
    where "resolve C (sv_verifier now sv) credential = Inr (sg_creds sig, scope)" .
  then obtain ak where "vf_lookup (sv_verifier now sv) ak = Some (sg_creds sig)" using resolve_Inr by blast
  then obtain cfg where f: "BucketByAccessKey (sv_store sv) ak = Some cfg"
    "sg_creds sig = \<lparr>cd_accessKey = bc_accessKey cfg, cd_secretKey = bc_secretKey cfg, cd_bucket = bc_name cfg\<rparr>"
    by (auto simp: sv_verifier_def split: option.splits)
  then have "cfg \<in> snd ` set (s_buckets (sv_store sv))"
    by (auto simp: BucketByAccessKey_def find_Some_iff)
  then show ?thesis using assms f by (auto simp: signed_for_def)
qed

lemma route_cases:
  assumes "route E C H rs r b k sv = (s', rep)"
  obtains
    (public) "publicRead r b k (sv_store sv)" "getObject H (rs_sys rs 0) r b k (rq_method r = ''GET'') (sv_store sv) = (s', rep)"
  | (refused) e where "s' = sv_store sv" "rep = ([], Inl e)"
  | (root) sig where "s' = sv_store sv" "rep = listBuckets H sig" "b = []"
  | (bucket) sig where "verify_request E C (sv_verifier (rs_now rs) sv) r = Inr sig" "cd_bucket (sg_creds sig) = b" "b \<noteq> []"
      "k = []" "bucketOp E C H rs r b sig sv = (s', rep)"
  | (object) sig where "verify_request E C (sv_verifier (rs_now rs) sv) r = Inr sig" "cd_bucket (sg_creds sig) = b" "b \<noteq> []"
      "k \<noteq> []" "objectOp E C H rs r b k sig sv = (s', rep)"
  using assms by (auto simp: route_def Let_def split: if_splits sum.splits)

lemma route_owned:
  assumes "uploads_ok (db_file (s_db (sv_store sv)))" "route E C H rs r b k sv = (s', rep)"
  shows "touched (sv_store sv) s' \<or>
    writing (rq_method r) \<and> signed_for E C (rs_now rs) r sv b \<and> owned E b (sv_store sv) s'"
  using assms(2)
proof (cases rule: route_cases)
  case (bucket sig)
  then show ?thesis using verified_signed_for [OF bucket(1)] bucketOp_owned [OF bucket(5)] by auto
next
  case (object sig)
  then show ?thesis using verified_signed_for [OF object(1)] objectOp_owned [OF assms(1) object(5)] by auto
qed (use getObject_touched in blast)+

lemma ServeHTTP_route:
  assumes "ServeHTTP E C H rs r sv = (sv', resp, al)" "splitPath (rq_path r) = (b, k)"
  obtains h out where "route E C H rs r b k sv = (sv_store sv', h, out)" "sv' = sv\<lparr>sv_store := sv_store sv'\<rparr>"
    "(case out of Inl e \<Rightarrow> writeError H r e h | Inr w \<Rightarrow> (h, w)) = (ht_headers resp, ht_status resp, ht_body resp)"
    "al = \<lparr>al_bucket = b, al_key = k, al_status = ht_status resp, al_bytes = int (length (body_bytes (ht_body resp)))\<rparr>"
proof -
  obtain s' h out where r: "route E C H rs r b k sv = (s', h, out)" by (metis prod.exhaust)
  obtain h1 st bd where w: "(case out of Inl e \<Rightarrow> writeError H r e h | Inr w \<Rightarrow> (h, w)) = (h1, st, bd)" by (metis prod.exhaust)
  show thesis
    by (rule that [of h out]) (use assms r w in \<open>auto simp: ServeHTTP_def Let_def rec_Write_def rec_WriteHeader_def\<close>)
qed

text \<open>
  C32: tenants are isolated.  Whatever a request is and whatever fails while it is served, the
  store is as before except for access times in memory, or the request was a PUT, POST or
  DELETE signed with the key pair of the bucket in its path, and then only that bucket's
  namespace, its uploads and the sequence mark differ, the journal has grown by records of
  that bucket, no blob that was there is gone or changed, and the configuration is the same.
\<close>

theorem tenants_are_isolated:
  assumes "uploads_ok (db_file (s_db (sv_store sv)))" "ServeHTTP E C H rs r sv = (sv', resp, al)"
  shows "sv_region sv' = sv_region sv \<and>
    (touched (sv_store sv) (sv_store sv') \<or>
     writing (rq_method r) \<and> signed_for E C (rs_now rs) r sv (fst (splitPath (rq_path r))) \<and>
       owned E (fst (splitPath (rq_path r))) (sv_store sv) (sv_store sv'))"
proof -
  obtain b k where p: "splitPath (rq_path r) = (b, k)" by (metis prod.exhaust)
  from ServeHTTP_route [OF assms(2) p] obtain h out where
    r: "route E C H rs r b k sv = (sv_store sv', h, out)" "sv' = sv\<lparr>sv_store := sv_store sv'\<rparr>" by metis
  have "sv_region sv' = sv_region sv" by (subst r(2)) simp
  then show ?thesis using route_owned [OF assms(1) r(1)] p by simp
qed

subsection \<open>Who reads what\<close>

definition readable :: "env \<Rightarrow> crypto \<Rightarrow> gotime \<Rightarrow> httpreq \<Rightarrow> server \<Rightarrow> string \<Rightarrow> string \<Rightarrow> bool" where
  "readable E C now r sv b k \<longleftrightarrow>
     signed_for E C now r sv b \<or>
     (\<exists>cfg. store_Bucket (sv_store sv) b = Some cfg \<and> bc_publicRead cfg \<and> \<not> MatchAny (bc_protected cfg) k)"

lemma writeXML_not_bytes: "writeXML H st doc h = (h', out) \<Longrightarrow> out \<noteq> Inr (st', Bytes d)"
  by (auto simp: writeXML_def Let_def split: option.splits)

lemma writeError_not_bytes: "writeError H r e h \<noteq> (h', st', Bytes d)"
  by (auto simp: writeError_def writeXML_def Let_def split: option.splits prod.splits sum.splits)

lemma getObject_bytes:
  assumes "getObject H sy r b k body s = (s', h, Inr (st, Bytes d))"
  shows "body \<and> (\<exists>e data. store_Head b k s = Inr e \<and> blob_open (e_hash e) (s_blobs s) = Inr data \<and>
    (\<exists>offset n partial. parseRange (val_get (rq_header r) ''Range'') (sint (e_size e)) = Inr (offset, n, partial) \<and>
       st = (if partial then 206 else 200) \<and> d = (if partial then take (nat n) (drop (nat offset) data) else data)))"
  using assms by (auto simp: getObject_def store_Get_def Let_def split: if_splits sum.splits prod.splits)

lemma not_Bytes_simps [simp]: "writeXML H st doc h \<noteq> (h', Inr (st', Bytes d))"
  using writeXML_not_bytes by blast

lemma objectOp_bytes:
  assumes "objectOp E C H rs r b k sig sv = (s', h, Inr (st, Bytes d))"
  shows "rq_method r = ''GET'' \<and> getObject H (rs_sys rs 0) r b k True (sv_store sv) = (s', h, Inr (st, Bytes d))"
proof -
  have no: "putObject E C region sy now r b k sig s \<noteq> (s', h, Inr (st, Bytes d))"
    "copyObject E H sys now b k src s \<noteq> (s', h, Inr (st, Bytes d))"
    "deleteObject E sy b k s \<noteq> (s', h, Inr (st, Bytes d))"
    "createUpload E H rs b k s \<noteq> (s', h, Inr (st, Bytes d))"
    "uploadPartOp E C region rs r b i n sig s \<noteq> (s', h, Inr (st, Bytes d))"
    "completeUpload E H rs r b k i s \<noteq> (s', h, Inr (st, Bytes d))"
    "abortUpload E rs b i s \<noteq> (s', h, Inr (st, Bytes d))"
    "listParts H b k i s \<noteq> (h, Inr (st, Bytes d))" for region sy now s sys src i n
    by (auto simp: putObject_def copyObject_def deleteObject_def createUpload_def uploadPartOp_def completeUpload_def
        abortUpload_def listParts_def Let_def split: sum.splits prod.splits option.splits if_splits)
  have head: "getObject H sy r b k False s \<noteq> (s', h, Inr (st, Bytes d))" for sy s
    by (auto simp: getObject_def Let_def split: sum.splits)
  show ?thesis using assms by (auto simp: objectOp_def Let_def no head split: if_splits)
qed

lemma bucketOp_bytes: "bucketOp E C H rs r b sig sv \<noteq> (s', h, Inr (st, Bytes d))"
proof -
  have "listUploads H b s \<noteq> (h, Inr (st, Bytes d))" "listObjects H s r b \<noteq> (h, Inr (st, Bytes d))"
    "deleteObjects E C H region sys r b sig s \<noteq> (s', h, Inr (st, Bytes d))" for s region sys
    by (auto simp: listUploads_def listObjects_def deleteObjects_def Let_def split: sum.splits prod.splits option.splits if_splits)
  then show ?thesis by (auto simp: bucketOp_def Let_def split: if_splits)
qed

lemma public_readable: "publicRead r b k (sv_store sv) \<Longrightarrow> readable E C now r sv b k"
  by (auto simp: publicRead_def readable_def IsProtected_def split: option.splits)

lemma signed_readable: "verify_request E C (sv_verifier now sv) r = Inr sig \<Longrightarrow> readable E C now r sv (cd_bucket (sg_creds sig)) k"
  using verified_signed_for by (auto simp: readable_def)

text \<open>
  C33: a reader gets only what it may read, and exactly the bytes it asked for.  Raw bytes go
  out only to a GET, for a caller that signed with the key pair of the bucket in the path or
  for a key of a public bucket no rule protects; they are the object the path names, whole
  with status 200, or with status 206 the slice the range asks for, which lies inside it.
\<close>

theorem readers_get_the_object_they_may_read:
  assumes "ServeHTTP E C H rs r sv = (sv', resp, al)" "ht_body resp = Bytes d"
    and "\<forall>b k e. store_Head b k (sv_store sv) = Inr e \<longrightarrow> 0 \<le> sint (e_size e)"
  shows "\<exists>b k e data. splitPath (rq_path r) = (b, k) \<and> rq_method r = ''GET'' \<and> readable E C (rs_now rs) r sv b k \<and>
    store_Head b k (sv_store sv) = Inr e \<and> blob_open (e_hash e) (s_blobs (sv_store sv)) = Inr data \<and>
    (ht_status resp = 200 \<and> d = data \<or>
     (\<exists>offset n. ht_status resp = 206 \<and> 0 \<le> offset \<and> 0 \<le> n \<and> offset + n \<le> sint (e_size e) \<and>
        parseRange (val_get (rq_header r) ''Range'') (sint (e_size e)) = Inr (offset, n, True) \<and>
        d = take (nat n) (drop (nat offset) data)))"
proof -
  obtain b k where p: "splitPath (rq_path r) = (b, k)" by (metis prod.exhaust)
  from ServeHTTP_route [OF assms(1) p] obtain h out where
    r: "route E C H rs r b k sv = (sv_store sv', h, out)"
    "(case out of Inl e \<Rightarrow> writeError H r e h | Inr w \<Rightarrow> (h, w)) = (ht_headers resp, ht_status resp, ht_body resp)" by metis
  have out: "out = Inr (ht_status resp, Bytes d)" "h = ht_headers resp"
    using r(2) assms(2) writeError_not_bytes by (auto split: sum.splits)
  have got: "readable E C (rs_now rs) r sv b k \<and> rq_method r = ''GET'' \<and>
    getObject H (rs_sys rs 0) r b k True (sv_store sv) = (sv_store sv', h, Inr (ht_status resp, Bytes d))"
    using r(1) [unfolded out(1)]
  proof (cases rule: route_cases)
    case public
    then show ?thesis using public_readable [OF public(1)] getObject_bytes [OF public(2)]
      by (cases "rq_method r = ''GET''") auto
  next
    case (object sig)
    then show ?thesis using signed_readable [OF object(1), of k] objectOp_bytes [OF object(5)] by auto
  next
    case (root sig)
    then show ?thesis using not_Bytes_simps unfolding listBuckets_def Let_def by metis
  next
    case (bucket sig)
    then show ?thesis using bucketOp_bytes by blast
  qed simp
  from getObject_bytes obtain e data offset n partial where g: "store_Head b k (sv_store sv) = Inr e"
    "blob_open (e_hash e) (s_blobs (sv_store sv)) = Inr data"
    "parseRange (val_get (rq_header r) ''Range'') (sint (e_size e)) = Inr (offset, n, partial)"
    "ht_status resp = (if partial then 206 else 200)" "d = (if partial then take (nat n) (drop (nat offset) data) else data)"
    using got by metis
  show ?thesis
    using p got g parseRange_bounds(1-3) [OF g(3) assms(3) [rule_format, OF g(1)]]
    by (intro exI [of _ b] exI [of _ k] exI [of _ e] exI [of _ data]) (cases partial; auto)
qed

end
