(* ===== verification/S3EndToEnd.thy ===== *)
theory S3EndToEnd
  imports ServerLaws PathLaws
begin

text \<open>
  The client and the front end together: what a call of the client does to the store behind
  the server, and what the next call of the client gets back.
\<close>

subsection \<open>The request of a call as the server sees it\<close>

text \<open>The client has the name and the key pair of a bucket of this server.\<close>

definition client_of :: "server \<Rightarrow> client \<Rightarrow> bool" where
  "client_of sv c \<longleftrightarrow>
     plain_cred c \<and> sv_region sv = cl_region c \<and> cl_base c = [] \<and> cl_host c \<noteq> [] \<and>
     join_with '' '' (str_fields (cl_host c)) = cl_host c \<and>
     store_Bucket (sv_store sv) (cl_bucket c) \<noteq> None \<and>
     (case BucketByAccessKey (sv_store sv) (cl_accessKey c) of
        None \<Rightarrow> False
      | Some cfg \<Rightarrow> bc_name cfg = cl_bucket c \<and> bc_secretKey cfg = cl_secretKey c)"

text \<open>A key whose characters mean themselves in a URL and whose elements no cleaning drops.\<close>

definition url_key :: "client \<Rightarrow> string \<Rightarrow> bool" where
  "url_key c key \<longleftrightarrow> plain_url (cli_path c key) \<and> good_part (cl_bucket c) \<and> list_all good_part (split_slash key)"

definition in_time :: "crypto \<Rightarrow> gotime \<Rightarrow> gotime \<Rightarrow> bool" where
  "in_time C now served \<longleftrightarrow> (\<exists>when. stamp_ok C now when \<and> \<bar>time_sub served when\<bar> \<le> maxSkew)"

lemma url_key_ne: "url_key c key \<Longrightarrow> key \<noteq> []"
  by (auto simp: url_key_def good_part_def)

lemma splitPath_key:
  assumes "good_part b" "list_all good_part (split_slash k)"
  shows "splitPath (''/'' @ b @ ''/'' @ k) = (b, k)"
proof -
  have ne: "b \<noteq> []" "CHR ''/'' \<notin> set b" using assms(1) by (auto simp: good_part_def)
  have j: "b @ CHR ''/'' # k = path_join (b # split_slash k)" by (simp add: path_join_Cons join_split)
  have "path_parts (CHR ''/'' # b @ CHR ''/'' # k) = b # split_slash k"
    unfolding path_parts_def list.sel(3) j using assms by (subst clean_split_join) simp_all
  then have c: "path_clean (CHR ''/'' # b @ CHR ''/'' # k) = CHR ''/'' # b @ CHR ''/'' # k"
    by (subst path_clean_abs) (simp_all add: isAbs_iff path_join_Cons join_split)
  have "trim_prefix (CHR ''/'' # s) ''/'' = s" for s by (simp add: trim_prefix_def cut_prefix_def)
  then show ?thesis
    using ne by (simp add: splitPath_def c cut_at_append [OF ne(2)])
      (cases b; auto simp: cut_at_append)
qed

lemma signRequest_frame:
  "rq_method (signRequest E C c now p r) = rq_method r" "rq_query (signRequest E C c now p r) = rq_query r"
  "rq_rawQuery (signRequest E C c now p r) = rq_rawQuery r" "rq_body (signRequest E C c now p r) = rq_body r"
  "rq_length (signRequest E C c now p r) = rq_length r" "rq_path (signRequest E C c now p r) = rq_path r"
  "h \<notin> {''Authorization'', ''X-Amz-Date'', ''X-Amz-Content-Sha256''} \<Longrightarrow>
     val_get (rq_header (signRequest E C c now p r)) h = val_get (rq_header r) h"
  by (simp_all add: signRequest_def Let_def)

definition sent_header :: "clireq \<Rightarrow> urlvals" where
  "sent_header q = fold (\<lambda>(k, vs) h. fold (val_add (CanonicalHeaderKey k)) vs h) (cq_header q) []"

lemma cli_request_plain:
  assumes c: "cl_base c = []" "cl_host c \<noteq> []" and k: "url_key c (cq_key q)" and q: "cq_query q = []"
  obtains r where "cli_request E C c now q = Some r" "rq_method r = cq_method q" "rq_query r = []" "rq_rawQuery r = []"
    "rq_body r = cq_body q" "rq_length r = (if 0 < cq_length q then cq_length q else 0)"
    "splitPath (rq_path r) = (cl_bucket c, cq_key q)"
    "\<And>h. h \<notin> {''Authorization'', ''X-Amz-Date'', ''X-Amz-Content-Sha256''} \<Longrightarrow>
       val_get (rq_header r) h = val_get (sent_header q) h"
proof -
  have p: "plain_url (cli_path c (cq_key q))" using k by (simp add: url_key_def)
  have path: "cli_path c (cq_key q) = ''/'' @ cl_bucket c @ ''/'' @ cq_key q" using url_key_ne [OF k] by (simp add: cli_path_def)
  have sp: "splitPath (cli_path c (cq_key q)) = (cl_bucket c, cq_key q)"
    unfolding path by (rule splitPath_key) (use k in \<open>simp_all add: url_key_def\<close>)
  have pq: "ParseQuery [] = []" by (simp add: ParseQuery_def parse_pair_def)
  define r0 where "r0 = \<lparr>rq_method = cq_method q, rq_host = cl_host c, rq_urlHost = cl_host c, rq_path = cli_path c (cq_key q),
      rq_escaped = cli_path c (cq_key q), rq_rawQuery = [], rq_query = [], rq_header = sent_header q,
      rq_length = (if 0 < cq_length q then cq_length q else 0), rq_body = cq_body q\<rparr>"
  define payload where "payload = (if cq_payload q = [] then sha256_hex E [] else cq_payload q)"
  have r: "cli_request E C c now q = Some (signRequest E C c now payload r0)"
    using c q by (simp add: cli_request_def parse_target_plain [OF p] Let_def pq r0_def payload_def sent_header_def)
  show thesis by (rule that [OF r]) (simp_all add: signRequest_frame, simp_all add: r0_def sp)
qed

lemma sha_nonempty: "env_ok E \<Longrightarrow> sha256_hex E d \<noteq> []"
proof -
  assume "env_ok E"
  then have "ValidHash (sha256_hex E d)" using env_okD(1) by (simp add: sha_ok_def)
  then show ?thesis by (auto simp: ValidHash_def)
qed

lemma client_accepted:
  assumes E: "env_ok E" and C: "\<And>k m. cr_hmac C k m \<noteq> []" and cl: "client_of sv c" and t: "in_time C now served"
    and r: "cli_request E C c now q = Some r" "val_get (rq_query r) ''X-Amz-Signature'' = []"
  obtains sig where "verify_request E C (sv_verifier served sv) r = Inr sig" "cd_bucket (sg_creds sig) = cl_bucket c"
    "sg_payload sig = (if cq_payload q = [] then sha256_hex E [] else cq_payload q)"
proof -
  from t obtain w where w: "stamp_ok C now w" "\<bar>time_sub served w\<bar> \<le> maxSkew" by (auto simp: in_time_def)
  from cl obtain cfg where b: "BucketByAccessKey (sv_store sv) (cl_accessKey c) = Some cfg" "bc_name cfg = cl_bucket c"
    "bc_secretKey cfg = cl_secretKey c" by (auto simp: client_of_def split: option.splits)
  let ?cr = "\<lparr>cd_accessKey = bc_accessKey cfg, cd_secretKey = bc_secretKey cfg, cd_bucket = bc_name cfg\<rparr>"
  have v: "vf_region (sv_verifier served sv) = cl_region c" "vf_lookup (sv_verifier served sv) (cl_accessKey c) = Some ?cr"
    "cd_secretKey ?cr = cl_secretKey c" "vf_now (sv_verifier served sv) = served"
    using cl b by (simp_all add: sv_verifier_def client_of_def)
  have cc: "plain_cred c" "cl_host c \<noteq> []" "join_with '' '' (str_fields (cl_host c)) = cl_host c" "cl_base c = []"
    using cl by (simp_all add: client_of_def)
  have "\<exists>sig. verify_request E C (sv_verifier served sv) r = Inr sig \<and> sg_creds sig = ?cr \<and> sg_date sig = w \<and>
      sg_payload sig = (if cq_payload q = [] then sha256_hex E [] else cq_payload q)"
    by (rule cli_request_verified [OF r(1) cc(1) v(1-3) w(1)]) (use w v cc sha_nonempty [OF E] C r(2) in simp_all)  then show thesis using that b(2) by auto
qed

subsection \<open>An upload\<close>

definition upload_opts :: "env \<Rightarrow> gotime \<Rightarrow> string \<Rightarrow> putOpts" where
  "upload_opts E now data = \<lparr>po_mtime = now, po_etag = [], po_expectHash = sha256_hex E data\<rparr>"

lemma er_Status_errors:
  "er_Status errEntityTooLarge = 400" "er_Status errInvalidDigest = 400" "200 \<le> er_Status (sv_fail e) \<Longrightarrow> \<not> er_Status (sv_fail e) < 300"
  by (auto simp: er_Status_def sv_fail_def errEntityTooLarge_def errInvalidDigest_def errNoSuchBucket_def errNoSuchKey_def
      errNoSuchUpload_def errInvalidPart_def errInternal_def errorf_def split: gerr.splits)

lemma writeError_status:
  assumes "\<And>e. hl_xml H (XError e) \<noteq> None"
  shows "fst (snd (writeError H r e h)) = er_Status e"
  using assms [of "e\<lparr>er_resource := rq_path r\<rparr>"] by (auto simp: writeError_def writeXML_def Let_def)

lemma requestBody_hash:
  assumes "env_ok E" "sg_payload sig = sha256_hex E d"
  shows "requestBody E C region r sig = (rq_body r, sha256_hex E d)"
proof -
  have "ValidHash (sha256_hex E d)" using env_okD(1) [OF assms(1)] by (simp add: sha_ok_def)
  then have h: "length (sha256_hex E d) = 64" by (simp add: ValidHash_def)
  have n: "length streamingSigned \<noteq> 64" "length streamingSignedTrailer \<noteq> 64" "length streamingUnsignedTrailer \<noteq> 64"
    "length unsignedPayload \<noteq> 64"
    by (simp_all add: streamingSigned_def streamingSignedTrailer_def streamingUnsignedTrailer_def unsignedPayload_def)
  have "sha256_hex E d \<noteq> streamingSigned" "sha256_hex E d \<noteq> streamingSignedTrailer" "sha256_hex E d \<noteq> streamingUnsignedTrailer"
    "sha256_hex E d \<noteq> unsignedPayload" "sha256_hex E d \<noteq> []"
    using h n by (metis list.size(3) zero_neq_numeral)+
  then show ?thesis by (simp add: requestBody_def streaming_def assms(2) h)
qed

lemma publicRead_method: "rq_method r = ''PUT'' \<Longrightarrow> \<not> publicRead r b k s"
  by (simp add: publicRead_def)

text \<open>A PUT of the client reaches \<open>PutWith\<close> with the bytes and the digest the client declared.\<close>

lemma client_put_served:
  assumes E: "env_ok E" and C: "\<And>k m. cr_hmac C k m \<noteq> []" and cl: "client_of sv c" and k: "url_key c key"
    and t: "in_time C now (rs_now rs)"
  obtains r where "cli_request E C c now (put_request E key data) = Some r" "splitPath (rq_path r) = (cl_bucket c, key)"
    "rq_method r = ''PUT''"
    "route E C H rs r (cl_bucket c) key sv =
       (if maxObjectSize < int (length data) then (sv_store sv, [], Inl errEntityTooLarge)
        else
          (case store_PutWith E (rs_sys rs 0) (cl_bucket c) key (data, None) (upload_opts E (rs_now rs) data) (sv_store sv) of
             (s1, Inl err) \<Rightarrow> (s1, [], Inl (sv_fail err))
           | (s1, Inr e) \<Rightarrow> (s1, h_set ''ETag'' (quoteETag (e_etag e)) [], Inr (200, NoBody))))"
proof -
  have c: "cl_base c = []" "cl_host c \<noteq> []" using cl by (simp_all add: client_of_def)
  have q: "cq_key (put_request E key data) = key" "cq_query (put_request E key data) = []" "cq_header (put_request E key data) = []"
    "cq_method (put_request E key data) = ''PUT''" "cq_payload (put_request E key data) = sha256_hex E data"
    "cq_body (put_request E key data) = (data, None)" "cq_length (put_request E key data) = int (length data)"
    by (simp_all add: put_request_def bare_request_def)
  have kq: "url_key c (cq_key (put_request E key data))" using k q by simp
  obtain r where r: "cli_request E C c now (put_request E key data) = Some r" "rq_method r = ''PUT''" "rq_query r = []"
    "rq_rawQuery r = []" "rq_body r = (data, None)" "rq_length r = int (length data)" "splitPath (rq_path r) = (cl_bucket c, key)"
    and h: "\<And>h. h \<notin> {''Authorization'', ''X-Amz-Date'', ''X-Amz-Content-Sha256''} \<Longrightarrow> val_get (rq_header r) h = []"
    by (rule cli_request_plain [OF c kq q(2), of E C now]) (simp add: q sent_header_def val_get_def val_all_def)
  obtain sig where sig: "verify_request E C (sv_verifier (rs_now rs) sv) r = Inr sig" "cd_bucket (sg_creds sig) = cl_bucket c"
    "sg_payload sig = sha256_hex E data"
    by (rule client_accepted [OF E C cl t r(1)]) (simp_all add: q r(3) val_get_def val_all_def sha_nonempty [OF E])
  have b: "cl_bucket c \<noteq> []" "key \<noteq> []" using k by (auto simp: url_key_def good_part_def)
  have hs: "val_get (rq_header r) ''X-Amz-Copy-Source'' = []" "val_get (rq_header r) ''Content-Md5'' = []"
    "val_get (rq_query r) ''uploadId'' = []"
    using h by (simp_all add: r val_get_def val_all_def)
  have "route E C H rs r (cl_bucket c) key sv = objectOp E C H rs r (cl_bucket c) key sig sv"
    by (simp add: route_def Let_def publicRead_method [OF r(2)] sig b)
  also have "\<dots> = putObject E C (sv_region sv) (rs_sys rs 0) (rs_now rs) r (cl_bucket c) key sig (sv_store sv)"
    by (simp add: objectOp_def Let_def r(2) hs)
  finally have ro: "route E C H rs r (cl_bucket c) key sv =
    putObject E C (sv_region sv) (rs_sys rs 0) (rs_now rs) r (cl_bucket c) key sig (sv_store sv)" .
  show thesis
    by (rule that [OF r(1,7,2)])
      (simp add: ro putObject_def requestBody_hash [OF E sig(3)] r(5,6) hs upload_opts_def Let_def)
qed

text \<open>A GET of the client reads the object under its key, public or not.\<close>

lemma client_read_served:
  assumes E: "env_ok E" and C: "\<And>k m. cr_hmac C k m \<noteq> []" and cl: "client_of sv c" and k: "url_key c (cq_key q)"
    and t: "in_time C now (rs_now rs)" and q: "cq_query q = []" "cq_method q = ''GET''"
  obtains r where "cli_request E C c now q = Some r" "splitPath (rq_path r) = (cl_bucket c, cq_key q)"
    "val_get (rq_header r) ''Range'' = val_get (sent_header q) ''Range''"
    "route E C H rs r (cl_bucket c) (cq_key q) sv = getObject H (rs_sys rs 0) r (cl_bucket c) (cq_key q) True (sv_store sv)"
proof -
  have c: "cl_base c = []" "cl_host c \<noteq> []" using cl by (simp_all add: client_of_def)
  obtain r where r: "cli_request E C c now q = Some r" "rq_method r = ''GET''" "rq_query r = []"
    "splitPath (rq_path r) = (cl_bucket c, cq_key q)"
    and h: "\<And>h. h \<notin> {''Authorization'', ''X-Amz-Date'', ''X-Amz-Content-Sha256''} \<Longrightarrow>
      val_get (rq_header r) h = val_get (sent_header q) h"
    by (rule cli_request_plain [OF c k q(1), of E C now]) (simp add: q)
  obtain sig where sig: "verify_request E C (sv_verifier (rs_now rs) sv) r = Inr sig" "cd_bucket (sg_creds sig) = cl_bucket c"
    by (rule client_accepted [OF E C cl t r(1)]) (simp_all add: r(3) val_get_def val_all_def)
  have b: "cl_bucket c \<noteq> []" "cq_key q \<noteq> []" using k by (auto simp: url_key_def good_part_def)
  have "val_get (rq_query r) ''uploadId'' = []" by (simp add: r val_get_def val_all_def)
  then have "objectOp E C H rs r (cl_bucket c) (cq_key q) sig sv =
      getObject H (rs_sys rs 0) r (cl_bucket c) (cq_key q) True (sv_store sv)"
    by (simp add: objectOp_def Let_def r(2))
  then have "route E C H rs r (cl_bucket c) (cq_key q) sv = getObject H (rs_sys rs 0) r (cl_bucket c) (cq_key q) True (sv_store sv)"
    by (simp add: route_def Let_def r(2) sig b)
  with that [OF r(1,4)] h show thesis by simp
qed

lemma client_get_served:
  assumes E: "env_ok E" and C: "\<And>k m. cr_hmac C k m \<noteq> []" and cl: "client_of sv c" and k: "url_key c key"
    and t: "in_time C now (rs_now rs)"
  obtains r where "cli_request E C c now (get_request key) = Some r" "splitPath (rq_path r) = (cl_bucket c, key)"
    "val_get (rq_header r) ''Range'' = []"
    "route E C H rs r (cl_bucket c) key sv = getObject H (rs_sys rs 0) r (cl_bucket c) key True (sv_store sv)"
proof -
  have q: "cq_key (get_request key) = key" "cq_query (get_request key) = []" "cq_method (get_request key) = ''GET''"
    "val_get (sent_header (get_request key)) ''Range'' = []"
    by (simp_all add: get_request_def bare_request_def sent_header_def val_get_def val_all_def)
  show thesis
    by (rule client_read_served [OF E C cl _ t q(2,3), of H]) (use k q that in simp_all)
qed

lemma Head_spec:
  assumes "store_inv E s" "in_step E s" "store_Head b k s = Inr e"
  shows "store_spec E s (b, k) = Some (objval_of e)"
proof -
  have i: "idx_inv (db_file (s_db s))" using assms(1) by (simp add: store_inv_def rec_index_ok_def index_ok_def)
  have "store_spec E s (b, k) = sabs (db_file (s_db s)) (b, k)" using assms(2) by (simp add: in_step_def)
  moreover have "db_get (store_ns b) k (s_db s) = Inr (Some e)"
    using assms(3) by (auto simp: store_Head_def res_bind_Inr split: if_splits sum.splits option.splits)
  ultimately show ?thesis
    using db_get_none [OF i, of "store_ns b" k] db_get_some [OF i, of "store_ns b" k]
    by (cases "ix_lookup (db_file (s_db s)) (store_ns b, k)") (auto simp: sabs_def objval_of_def)
qed

lemma getObject_whole:
  assumes "store_Get sy b k s = (s', Inr (e, d))" "val_get (rq_header r) ''Range'' = []"
  shows "\<exists>h. getObject H sy r b k True s = (s', h, Inr (200, Bytes d))"
  using assms by (auto simp: getObject_def store_Get_def parseRange_def Let_def split: sum.splits)

lemma client_put_stores:
  assumes E: "env_ok E" "\<And>k m. cr_hmac C k m \<noteq> []" "\<And>e. hl_xml H (XError e) \<noteq> None"
    and cl: "client_of sv c" "url_key c key" "in_time C now (rs_now rs)"
    and up: "cli_request E C c now (put_request E key data) = Some r" "ServeHTTP E C H rs r sv = (sv1, resp, al)"
      "cli_outcome (put_request E key data) (ht_status resp) = OK2xx"
  obtains e where "store_PutWith E (rs_sys rs 0) (cl_bucket c) key (data, None) (upload_opts E (rs_now rs) data) (sv_store sv)
      = (sv_store sv1, Inr e)" "sv_region sv1 = sv_region sv"
proof -
  obtain r' where r': "cli_request E C c now (put_request E key data) = Some r'" "splitPath (rq_path r') = (cl_bucket c, key)"
    and ro: "route E C H rs r' (cl_bucket c) key sv =
       (if maxObjectSize < int (length data) then (sv_store sv, [], Inl errEntityTooLarge)
        else
          (case store_PutWith E (rs_sys rs 0) (cl_bucket c) key (data, None) (upload_opts E (rs_now rs) data) (sv_store sv) of
             (s1, Inl err) \<Rightarrow> (s1, [], Inl (sv_fail err))
           | (s1, Inr e) \<Rightarrow> (s1, h_set ''ETag'' (quoteETag (e_etag e)) [], Inr (200, NoBody))))"
    by (rule client_put_served [OF E(1,2) cl, of data H]) blast
  have rr: "r' = r" using r'(1) up(1) by simp
  obtain h out where rt: "route E C H rs r (cl_bucket c) key sv = (sv_store sv1, h, out)"
    "sv1 = sv\<lparr>sv_store := sv_store sv1\<rparr>"
    "(case out of Inl e \<Rightarrow> writeError H r e h | Inr w \<Rightarrow> (h, w)) = (ht_headers resp, ht_status resp, ht_body resp)"
    by (rule ServeHTTP_route [OF up(2) r'(2) [unfolded rr]])
  have ok: "200 \<le> ht_status resp" "ht_status resp < 300" using up(3) by (auto simp: cli_outcome_def split: if_splits)
  have bad: "out = Inl e \<Longrightarrow> er_Status e = ht_status resp" for e
    using rt(3) writeError_status [OF E(3), of r e h] by simp
  have "out \<noteq> Inl errEntityTooLarge" "out \<noteq> Inl (sv_fail err)" for err
    using bad ok er_Status_errors(1) er_Status_errors(3) [of err] by force+
  then obtain e where "store_PutWith E (rs_sys rs 0) (cl_bucket c) key (data, None) (upload_opts E (rs_now rs) data) (sv_store sv)
      = (sv_store sv1, Inr e)"
    using rt(1) ro [unfolded rr] by (auto split: if_splits prod.splits sum.splits)
  moreover have "sv_region sv1 = sv_region sv" by (subst rt(2)) simp
  ultimately show thesis by (rule that)
qed

text \<open>
  C34: what the client uploads it downloads.  When a PUT of the client, signed and sent by its
  own code, is answered with a status the client takes for a success, the object is stored,
  and the client's next GET of the key is answered with status 200 and exactly those bytes.
\<close>

theorem upload_then_download:
  assumes E: "env_ok E" "\<And>k m. cr_hmac C k m \<noteq> []" "\<And>e. hl_xml H (XError e) \<noteq> None"
    and cl: "client_of sv c" "url_key c key" "in_time C now (rs_now rs)" "in_time C now2 (rs_now rs2)"
    and s: "store_inv E (sv_store sv)" "in_step E (sv_store sv)" "no_collision E (s_blobs (sv_store sv)) data"
      "put_ready E (rs_sys rs 0) (cl_bucket c) key (data, None) (upload_opts E (rs_now rs) data) (sv_store sv)"
    and up: "cli_request E C c now (put_request E key data) = Some r" "ServeHTTP E C H rs r sv = (sv1, resp, al)"
      "cli_outcome (put_request E key data) (ht_status resp) = OK2xx"
    and down: "cli_request E C c now2 (get_request key) = Some r2" "ServeHTTP E C H rs2 r2 sv1 = (sv2, resp2, al2)"
  shows "ht_status resp2 = 200 \<and> ht_body resp2 = Bytes data"
proof -
  obtain e where put: "store_PutWith E (rs_sys rs 0) (cl_bucket c) key (data, None) (upload_opts E (rs_now rs) data) (sv_store sv)
      = (sv_store sv1, Inr e)" and reg: "sv_region sv1 = sv_region sv"
    by (rule client_put_stores [OF E cl(1-3) up])
  note pe = PutWith_effect [OF E(1) s(1,2,4) put]
  have cl1: "client_of sv1 c"
    using cl(1) pe(5) reg by (simp add: client_of_def store_Bucket_def BucketByAccessKey_def)
  have bk: "store_Bucket (sv_store sv1) (cl_bucket c) \<noteq> None" using cl1 by (simp add: client_of_def)
  have v: "store_spec E (sv_store sv1) (cl_bucket c, key) = Some (put_value E (rs_sys rs 0) (data, None) (upload_opts E (rs_now rs) data))"
    by (simp add: pe(3))
  have "blob_at (s_blobs (sv_store sv1)) (ov_hash (put_value E (rs_sys rs 0) (data, None) (upload_opts E (rs_now rs) data))) = Some data"
    using pe(6) s(3) pe(4) by (metis fst_conv objval.select_convs(1) objval_of_def)
  then obtain s2 e2 where g: "store_Get (rs_sys rs2 0) (cl_bucket c) key (sv_store sv1) = (s2, Inr (e2, data))"
    using Get_spec [OF pe(1) caught_up_in_step [OF pe(1,2)] bk v, of "rs_sys rs2 0"] by auto
  obtain r2' where r2': "cli_request E C c now2 (get_request key) = Some r2'" "splitPath (rq_path r2') = (cl_bucket c, key)"
    "val_get (rq_header r2') ''Range'' = []"
    "route E C H rs2 r2' (cl_bucket c) key sv1 = getObject H (rs_sys rs2 0) r2' (cl_bucket c) key True (sv_store sv1)"
    by (rule client_get_served [OF E(1,2) cl1 cl(2,4), of H])
  have rr: "r2' = r2" using r2'(1) down(1) by simp
  obtain h out where rt: "route E C H rs2 r2 (cl_bucket c) key sv1 = (sv_store sv2, h, out)"
    "(case out of Inl e \<Rightarrow> writeError H r2 e h | Inr w \<Rightarrow> (h, w)) = (ht_headers resp2, ht_status resp2, ht_body resp2)"
    by (rule ServeHTTP_route [OF down(2) r2'(2) [unfolded rr]])
  then show ?thesis using getObject_whole [OF g r2'(3), of H] r2'(4) rr by auto
qed

subsection \<open>A concrete exchange\<close>

definition demo_http :: httplib where
  "demo_http = \<lparr>hl_xml = (\<lambda>d. Some ''<r/>''), hl_xmlDelete = (\<lambda>s. Some \<lparr>dr_Quiet = False, dr_Objects = [s]\<rparr>),
     hl_xmlParts = (\<lambda>s. Some []), hl_mime = (\<lambda>e. if e = ''.jpg'' then ''image/jpeg'' else []), hl_date = (\<lambda>t. ''now'')\<rparr>"

definition demo_server :: server where "demo_server = \<lparr>sv_store = demo_store, sv_region = ''tana''\<rparr>"

definition demo_rs :: reqsys where
  "demo_rs = \<lparr>rs_sys = (\<lambda>i. demo_sys), rs_ok = (\<lambda>i. True), rs_clock = (\<lambda>i. 1000 + int i), rs_rand = Some ''u'', rs_now = 9\<rparr>"

lemma demo_client_of: "client_of demo_server demo_client"
proof -
  have "join_with '' '' (str_fields ''s3:9200'') = ''s3:9200''" by code_simp
  then show ?thesis
    by (simp add: client_of_def demo_server_def demo_client_def plain_cred_def store_Bucket_def BucketByAccessKey_def
        demo_store_def demo_bucket_def bk_get_def)
qed

lemma demo_url_key: "url_key demo_client ''a.jpg''" by code_simp

lemma demo_in_time: "in_time demo_crypto 7 (rs_now demo_rs)"
  by (auto simp: in_time_def stamp_ok_def demo_crypto_def demo_rs_def time_sub_def maxSkew_def intro!: exI [of _ 7])

lemma demo_total: "cr_hmac demo_crypto k m \<noteq> []" "hl_xml demo_http d \<noteq> None"
  by (simp_all add: demo_crypto_def demo_http_def)

lemma demo_key_ready:
  assumes "k \<noteq> []" "length k < 1000"
  shows "put_ready demo_env (rs_sys demo_rs 0) (cl_bucket demo_client) k (''hello'', None)
     (upload_opts demo_env (rs_now demo_rs) ''hello'') (sv_store demo_server)"
proof -
  have n: "name_ok demo_env (store_ns ''media'')" "name_ok demo_env k"
    using assms by (simp_all add: name_ok_def demo_env_def store_ns_def ix_namespace_def ScopeStore_def)
  have "line_ok demo_env (stamp_rec (sy_clock demo_sys 2) (s_jrnl demo_store) (put_record demo_sys ''media'' k
      (upload_opts demo_env 9 ''hello'')
      \<lparr>bi_hash = sha256_hex demo_env ''hello'', bi_md5 = md5_hex demo_env ''hello'', bi_size = of_nat (length ''hello''), bi_deduped = False\<rparr>))"
    using assms(2)
    by (intro demo_line)
      (simp_all add: stamp_rec_def put_record_def put_mtime_def put_etag_def upload_opts_def demo_sys_def time_is_zero_def
        opPut_def demo_env_def pad_hex_def)
  then show ?thesis using n
    by (simp add: put_ready_def demo_sys_def time_is_zero_def demo_rs_def demo_client_def demo_server_def demo_store_def jempty_def)
qed

lemma demo_upload_ready:
  "put_ready demo_env (rs_sys demo_rs 0) (cl_bucket demo_client) ''a.jpg'' (''hello'', None)
     (upload_opts demo_env (rs_now demo_rs) ''hello'') (sv_store demo_server)"
  by (rule demo_key_ready) simp_all

lemma demo_no_collision: "no_collision demo_env (s_blobs (sv_store demo_server)) d"
  by (simp add: demo_server_def demo_store_def no_collision_def blobs_empty_def blob_at_def bk_get_def)

lemma demo_key_stored:
  assumes "k \<noteq> []" "length k < 1000"
  shows "\<exists>s e. store_PutWith demo_env (rs_sys demo_rs 0) (cl_bucket demo_client) k (''hello'', None)
     (upload_opts demo_env (rs_now demo_rs) ''hello'') (sv_store demo_server) = (s, Inr e)"
proof -
  have inv: "store_inv demo_env (sv_store demo_server)" by (simp add: demo_server_def)
  have bk: "store_Bucket (sv_store demo_server) (cl_bucket demo_client) \<noteq> None"
    using demo_client_of by (simp add: client_of_def)
  show ?thesis
    by (rule PutWith_succeeds [OF demo_env_ok inv demo_key_ready [OF assms] bk])
      (simp_all add: demo_rs_def demo_sys_def demo_server_def demo_store_def blobs_empty_def bk_get_def upload_opts_def)
qed

lemma demo_upload_stored:
  "\<exists>s e. store_PutWith demo_env (rs_sys demo_rs 0) (cl_bucket demo_client) ''a.jpg'' (''hello'', None)
     (upload_opts demo_env (rs_now demo_rs) ''hello'') (sv_store demo_server) = (s, Inr e)"
  by (rule demo_key_stored) simp_all

lemma demo_exchange:
  obtains r sv1 resp al r2 sv2 resp2 al2 s e
  where "cli_request demo_env demo_crypto demo_client 7 (put_request demo_env ''a.jpg'' ''hello'') = Some r"
    "ServeHTTP demo_env demo_crypto demo_http demo_rs r demo_server = (sv1, resp, al)"
    "ht_status resp = 200"
    "cli_request demo_env demo_crypto demo_client 7 (get_request ''a.jpg'') = Some r2"
    "ServeHTTP demo_env demo_crypto demo_http demo_rs r2 sv1 = (sv2, resp2, al2)"
    "rq_method r = ''PUT''" "splitPath (rq_path r) = (''media'', ''a.jpg'')"
    "store_PutWith demo_env (rs_sys demo_rs 0) (cl_bucket demo_client) ''a.jpg'' (''hello'', None)
       (upload_opts demo_env (rs_now demo_rs) ''hello'') (sv_store demo_server) = (sv_store sv1, Inr e)"
proof -
  obtain s e where put: "store_PutWith demo_env (rs_sys demo_rs 0) (cl_bucket demo_client) ''a.jpg'' (''hello'', None)
     (upload_opts demo_env (rs_now demo_rs) ''hello'') (sv_store demo_server) = (s, Inr e)" using demo_upload_stored by blast
  obtain r where r: "cli_request demo_env demo_crypto demo_client 7 (put_request demo_env ''a.jpg'' ''hello'') = Some r"
    "splitPath (rq_path r) = (cl_bucket demo_client, ''a.jpg'')" "rq_method r = ''PUT''"
    and ro: "route demo_env demo_crypto demo_http demo_rs r (cl_bucket demo_client) ''a.jpg'' demo_server =
      (s, h_set ''ETag'' (quoteETag (e_etag e)) [], Inr (200, NoBody))"
    by (rule client_put_served [OF demo_env_ok demo_total(1) demo_client_of demo_url_key demo_in_time, of "''hello''" demo_http])
      (simp add: put maxObjectSize_def)
  obtain sv1 resp al where sv: "ServeHTTP demo_env demo_crypto demo_http demo_rs r demo_server = (sv1, resp, al)"
    by (metis prod.exhaust)
  obtain r2 where r2: "cli_request demo_env demo_crypto demo_client 7 (get_request ''a.jpg'') = Some r2" using demo_sent by blast
  obtain sv2 resp2 al2 where sv2: "ServeHTTP demo_env demo_crypto demo_http demo_rs r2 sv1 = (sv2, resp2, al2)"
    by (metis prod.exhaust)
  from ServeHTTP_route [OF sv r(2)] ro have st: "ht_status resp = 200" "sv_store sv1 = s" by auto
  have "cl_bucket demo_client = ''media''" by (simp add: demo_client_def)
  then show thesis using that [OF r(1) sv st(1) r2 sv2 r(3)] r(2) put st(2) by simp
qed

theorem upload_then_download_witness:
  "\<exists>r sv1 resp al r2 sv2 resp2 al2.
     cli_request demo_env demo_crypto demo_client 7 (put_request demo_env ''a.jpg'' ''hello'') = Some r \<and>
     ServeHTTP demo_env demo_crypto demo_http demo_rs r demo_server = (sv1, resp, al) \<and> ht_status resp = 200 \<and>
     cli_request demo_env demo_crypto demo_client 7 (get_request ''a.jpg'') = Some r2 \<and>
     ServeHTTP demo_env demo_crypto demo_http demo_rs r2 sv1 = (sv2, resp2, al2) \<and> ht_body resp2 = Bytes ''hello''"
proof -
  obtain r sv1 resp al r2 sv2 resp2 al2 where
    x: "cli_request demo_env demo_crypto demo_client 7 (put_request demo_env ''a.jpg'' ''hello'') = Some r"
    "ServeHTTP demo_env demo_crypto demo_http demo_rs r demo_server = (sv1, resp, al)" "ht_status resp = 200"
    "cli_request demo_env demo_crypto demo_client 7 (get_request ''a.jpg'') = Some r2"
    "ServeHTTP demo_env demo_crypto demo_http demo_rs r2 sv1 = (sv2, resp2, al2)" by (rule demo_exchange)
  have s: "store_inv demo_env (sv_store demo_server)" "in_step demo_env (sv_store demo_server)" by (simp_all add: demo_server_def)
  have ok: "cli_outcome (put_request demo_env ''a.jpg'' ''hello'') (ht_status resp) = OK2xx" using x(3) by (simp add: cli_outcome_def)
  have "ht_status resp2 = 200 \<and> ht_body resp2 = Bytes ''hello''"
    by (rule upload_then_download [OF demo_env_ok demo_total demo_client_of demo_url_key demo_in_time demo_in_time s
          demo_no_collision demo_upload_ready x(1,2) ok x(4,5)])
  with x show ?thesis by blast
qed

theorem tenants_are_isolated_witness:
  "\<exists>r sv1 resp al. ServeHTTP demo_env demo_crypto demo_http demo_rs r demo_server = (sv1, resp, al) \<and> rq_method r = ''PUT'' \<and>
     ht_status resp = 200 \<and> signed_for demo_env demo_crypto 9 r demo_server ''media'' \<and>
     owned demo_env ''media'' (sv_store demo_server) (sv_store sv1)"
proof -
  obtain r sv1 resp al s e where
    x: "ServeHTTP demo_env demo_crypto demo_http demo_rs r demo_server = (sv1, resp, al)" "ht_status resp = 200"
    "rq_method r = ''PUT''" "splitPath (rq_path r) = (''media'', ''a.jpg'')"
    and put: "store_PutWith demo_env (rs_sys demo_rs 0) (cl_bucket demo_client) ''a.jpg'' (''hello'', None)
       (upload_opts demo_env (rs_now demo_rs) ''hello'') (sv_store demo_server) = (sv_store sv1, Inr e)" by (rule demo_exchange)
  have up: "uploads_ok (db_file (s_db (sv_store demo_server)))"
    by (simp add: uploads_ok_def demo_server_def demo_store_def)
  have "store_inv demo_env (sv_store demo_server)" "in_step demo_env (sv_store demo_server)" by (simp_all add: demo_server_def)
  from PutWith_effect(12) [OF demo_env_ok this demo_upload_ready put]
  have "\<not> touched (sv_store demo_server) (sv_store sv1)" by (auto simp: touched_def)
  with tenants_are_isolated [OF up x(1)] x show ?thesis by (auto simp: demo_rs_def)
qed

theorem readers_get_the_object_they_may_read_witness:
  "\<exists>r sv1 sv2 resp al. ServeHTTP demo_env demo_crypto demo_http demo_rs r sv1 = (sv2, resp, al) \<and> ht_body resp = Bytes ''hello'' \<and>
     readable demo_env demo_crypto 9 r sv1 (fst (splitPath (rq_path r))) (snd (splitPath (rq_path r)))"
proof -
  obtain sv1 e where put: "store_PutWith demo_env (rs_sys demo_rs 0) (cl_bucket demo_client) ''a.jpg'' (''hello'', None)
       (upload_opts demo_env (rs_now demo_rs) ''hello'') (sv_store demo_server) = (sv1, Inr e)" using demo_upload_stored by blast
  have s: "store_inv demo_env (sv_store demo_server)" "in_step demo_env (sv_store demo_server)" by (simp_all add: demo_server_def)
  note pe = PutWith_effect [OF demo_env_ok s demo_upload_ready put]
  let ?sv = "\<lparr>sv_store = sv1, sv_region = ''tana''\<rparr>"
  have small: "\<forall>b k e1. store_Head b k (sv_store ?sv) = Inr e1 \<longrightarrow> 0 \<le> sint (e_size e1)"
  proof (intro allI impI)
    fix b k e1 assume h: "store_Head b k (sv_store ?sv) = Inr e1"
    have "store_spec demo_env (sv_store demo_server) = Map.empty"
      using s(2) by (simp add: in_step_def demo_server_def demo_store_def sabs_def fun_eq_iff)
    moreover have "store_spec demo_env sv1 (b, k) = Some (objval_of e1)"
      using Head_spec [OF pe(1) caught_up_in_step [OF pe(1,2)]] h by simp
    ultimately have "e_size e1 = 5" by (auto simp: pe(3) objval_of_def put_value_def split: if_splits)
    then show "0 \<le> sint (e_size e1)" by simp
  qed
  have cl: "client_of ?sv demo_client"
    using demo_client_of pe(5) by (simp add: client_of_def store_Bucket_def BucketByAccessKey_def demo_server_def)
  obtain r where r: "splitPath (rq_path r) = (cl_bucket demo_client, ''a.jpg'')" "val_get (rq_header r) ''Range'' = []"
    "route demo_env demo_crypto demo_http demo_rs r (cl_bucket demo_client) ''a.jpg'' ?sv =
       getObject demo_http (rs_sys demo_rs 0) r (cl_bucket demo_client) ''a.jpg'' True sv1"
    using client_get_served [OF demo_env_ok demo_total(1) cl demo_url_key demo_in_time, of demo_http] by auto
  have bk: "store_Bucket sv1 (cl_bucket demo_client) \<noteq> None" using cl by (simp add: client_of_def)
  have at: "blob_at (s_blobs sv1) (e_hash e) = Some ''hello''" using pe(6) demo_no_collision by simp
  have "store_spec demo_env sv1 (cl_bucket demo_client, ''a.jpg'') = Some (objval_of e)" using pe(3,4) by simp
  from Get_spec [OF pe(1) caught_up_in_step [OF pe(1,2)] bk this, of "rs_sys demo_rs 0"] at
  obtain s2 e2 where g: "store_Get (rs_sys demo_rs 0) (cl_bucket demo_client) ''a.jpg'' sv1 = (s2, Inr (e2, ''hello''))"
    by (auto simp: objval_of_def)
  obtain sv2 resp al where sv: "ServeHTTP demo_env demo_crypto demo_http demo_rs r ?sv = (sv2, resp, al)" by (metis prod.exhaust)
  obtain h where "route demo_env demo_crypto demo_http demo_rs r (cl_bucket demo_client) ''a.jpg'' ?sv = (s2, h, Inr (200, Bytes ''hello''))"
    using r(3) getObject_whole [OF g r(2), of demo_http] by auto
  moreover obtain h2 out where "route demo_env demo_crypto demo_http demo_rs r (cl_bucket demo_client) ''a.jpg'' ?sv = (sv_store sv2, h2, out)"
    "(case out of Inl e \<Rightarrow> writeError demo_http r e h2 | Inr w \<Rightarrow> (h2, w)) = (ht_headers resp, ht_status resp, ht_body resp)"
    by (rule ServeHTTP_route [OF sv r(1)])
  ultimately have b: "ht_body resp = Bytes ''hello''" by simp
  obtain b2 k2 where rd: "splitPath (rq_path r) = (b2, k2)" "readable demo_env demo_crypto (rs_now demo_rs) r ?sv b2 k2"
    using readers_get_the_object_they_may_read [OF sv b small] by (elim exE conjE)
  then have "readable demo_env demo_crypto 9 r ?sv (fst (splitPath (rq_path r))) (snd (splitPath (rq_path r)))"
    by (simp add: demo_rs_def)
  with sv b show ?thesis by blast
qed

end
