(* ===== verification/S3Listing.thy ===== *)
theory S3Listing
  imports S3EndToEnd
begin

text \<open>
  A listing followed from page to page: the query the client sends and the server reads, the
  page the server answers, and the loop of the client over the pages.
\<close>

subsection \<open>A query through the URL\<close>

lemma hex_digit_upper: "n < 16 \<Longrightarrow> hex_digit_val (upper_hex n) = Some n"
  by (auto simp: hex_digit_val_def upper_hex_def Let_def)

lemma unescape_escape [simp]: "url_unescape True (QueryEscape s) = Some s"
proof (induction s)
  case (Cons c s)
  have p: "unreserved c \<Longrightarrow> c \<noteq> CHR ''%'' \<and> c \<noteq> CHR ''+''" by (auto simp: unreserved_def)
  have "char_of (16 * char_hi c + char_lo c) = c" by (simp add: char_hi_def char_lo_def)
  with Cons p show ?case by (auto simp: hex_digit_upper char_nibbles)
qed simp

lemma QueryEscape_chars: "c \<in> set (QueryEscape s) \<Longrightarrow> unreserved c \<or> c = CHR ''%'' \<or> c = CHR ''+''"
  by (induction s) (auto simp: upper_hex_plain char_nibbles split: if_splits)

definition pair_str :: "string \<times> string \<Rightarrow> string" where
  "pair_str p = QueryEscape (fst p) @ ''='' @ QueryEscape (snd p)"

lemma pair_str_chars: "c \<in> set (pair_str p) \<Longrightarrow> unreserved c \<or> c = CHR ''%'' \<or> c = CHR ''+'' \<or> c = CHR ''=''"
  using QueryEscape_chars by (auto simp: pair_str_def)

lemma parse_pair_str: "parse_pair (pair_str (k, v)) q = val_add k v q"
proof -
  have sc: "CHR '';'' \<notin> set (pair_str (k, v))" using pair_str_chars [of "CHR '';''"] by (auto simp: unreserved_def)
  have "CHR ''='' \<notin> set (QueryEscape k)" using QueryEscape_chars [of "CHR ''=''" k] by (auto simp: unreserved_def)
  then have "cut_at (CHR ''='') (pair_str (k, v)) = (QueryEscape k, Some (QueryEscape v))"
    by (simp add: pair_str_def cut_at_append)
  moreover have "pair_str (k, v) \<noteq> []" by (simp add: pair_str_def)
  ultimately show ?thesis using sc by (simp add: parse_pair_def)
qed

text \<open>The pairs of a query with one value per name, in the order they are written.\<close>

lemma ParseQuery_pairs:
  assumes "ps \<noteq> []"
  shows "ParseQuery (join_with ''&'' (map pair_str ps)) = fold (\<lambda>(k, v). val_add k v) ps []"
proof -
  have "CHR ''&'' \<notin> set (pair_str p)" for p using pair_str_chars [of "CHR ''&''" p] by (auto simp: unreserved_def)
  then have "split_on (CHR ''&'') (join_with ''&'' (map pair_str ps)) = map pair_str ps"
    using assms by (intro split_join_with) auto
  moreover have "fold parse_pair (map pair_str qs) q = fold (\<lambda>(k, v). val_add k v) qs q" for qs q
    by (induction qs arbitrary: q) (auto simp: parse_pair_str)
  ultimately show ?thesis by (simp add: ParseQuery_def)
qed

lemma parse_target_query:
  assumes "plain_url p" "\<And>c. c \<in> set q \<Longrightarrow> unreserved c \<or> c = CHR ''%'' \<or> c = CHR ''+'' \<or> c = CHR ''='' \<or> c = CHR ''&''"
  shows "parse_target (p @ ''?'' @ q) = Some (p, p, q)"
proof -
  have u: "unreserved c \<Longrightarrow> c \<noteq> CHR ''#'' \<and> \<not> ctl_byte c" for c by (auto simp: unreserved_def ctl_byte_def)
  have "c \<noteq> CHR ''#'' \<and> \<not> ctl_byte c" if "c \<in> set q" for c
    using assms(2) [OF that] u by (elim disjE) (simp_all add: ctl_byte_def)
  then have "CHR ''#'' \<notin> set q" "\<not> list_ex ctl_byte q" by (auto simp: list_ex_iff)
  moreover have "CHR ''#'' \<notin> set p" "CHR ''?'' \<notin> set p" "CHR ''%'' \<notin> set p" "\<not> list_ex ctl_byte p"
    using assms(1) by (auto simp: plain_url_def list_ex_iff)
  ultimately show ?thesis
    by (simp add: parse_target_def cut_at_none cut_at_append url_unescape_plain ctl_byte_def)
qed

subsection \<open>A page\<close>

text \<open>What a page keeps of the entries it took.\<close>

definition page_acc :: "entry list \<Rightarrow> listacc \<Rightarrow> listacc" where
  "page_acc xs a =
     a\<lparr>la_last := (if xs = [] then la_last a else e_key (last xs)),
       la_res := (la_res a)\<lparr>lr_Contents := lr_Contents (la_res a) @ map (list_entry False) xs,
                            lr_KeyCount := lr_KeyCount (la_res a) + int (length xs)\<rparr>\<rparr>"

definition page_full :: "listacc \<Rightarrow> listacc" where
  "page_full a = a\<lparr>la_res := (la_res a)\<lparr>lr_IsTruncated := True\<rparr>\<rparr>"

lemma page_skip:
  "\<forall>e \<in> set xs. after \<noteq> [] \<and> e_key e \<le> after \<Longrightarrow>
   fold_cb (list_cb p [] False m after) (xs @ ys) a = fold_cb (list_cb p [] False m after) ys a"
  by (induction xs) (auto simp: list_cb_def)

lemma page_acc_Nil [simp]: "page_acc [] a = a"
  by (simp add: page_acc_def)

lemma page_acc_Cons: "page_acc xs (page_acc [x] a) = page_acc (x # xs) a"
  by (simp add: page_acc_def)

lemma page_take:
  assumes "\<forall>e \<in> set ys. \<not> (after \<noteq> [] \<and> e_key e \<le> after)" "lr_KeyCount (la_res a) + int n = m"
  shows "fold_cb (list_cb p [] False m after) ys a =
    (if length ys \<le> n then (page_acc ys a, None) else (page_full (page_acc (take n ys) a), Some stop_page))"
  using assms
proof (induction ys arbitrary: a n)
  case Nil
  then show ?case by (simp add: page_acc_def)
next
  case (Cons e ys)
  show ?case
  proof (cases n)
    case 0
    with Cons.prems have "list_cb p [] False m after e a = (page_full a, Some stop_page)"
      by (auto simp: list_cb_def page_full_def)
    with 0 show ?thesis by simp
  next
    case (Suc n')
    then have "list_cb p [] False m after e a = (page_acc [e] a, None)"
      using Cons.prems by (auto simp: list_cb_def page_acc_def)
    moreover have "lr_KeyCount (la_res (page_acc [e] a)) + int n' = m" using Cons.prems(2) Suc by (simp add: page_acc_def)
    ultimately show ?thesis using Cons.IH [of "page_acc [e] a" n'] Cons.prems(1) Suc by (simp add: page_acc_Cons)
  qed
qed

subsection \<open>The query of the client's listing\<close>

definition list_pairs :: "string \<Rightarrow> string \<Rightarrow> (string \<times> string) list" where
  "list_pairs prefix token =
     (if token = [] then [] else [(''continuation-token'', token)]) @ [(''list-type'', ''2'')] @
     (if prefix = [] then [] else [(''prefix'', prefix)])"

definition list_query :: "string \<Rightarrow> string \<Rightarrow> urlvals" where
  "list_query prefix token = map (\<lambda>(k, v). (k, [v])) (list_pairs prefix token)"

lemma list_names_sorted:
  "sort [''list-type'', ''prefix'', ''continuation-token''] = [''continuation-token'', ''list-type'', ''prefix'']"
  "sort [''list-type'', ''prefix''] = [''list-type'', ''prefix'']"
  "sort [''list-type'', ''continuation-token''] = [''continuation-token'', ''list-type'']"
  by code_simp+

lemma values_Encode_list:
  "values_Encode (cq_query (list_request prefix token)) = join_with ''&'' (map pair_str (list_pairs prefix token))"
  by (simp add: values_Encode_def list_request_def bare_request_def list_pairs_def list_names_sorted val_all_def pair_str_def)

lemma ParseQuery_list: "ParseQuery (join_with ''&'' (map pair_str (list_pairs prefix token))) = list_query prefix token"
  by (subst ParseQuery_pairs) (simp_all add: list_pairs_def list_query_def val_add_def val_has_def)

lemma list_query_get:
  "val_get (list_query prefix token) ''list-type'' = ''2''" "val_get (list_query prefix token) ''prefix'' = prefix"
  "val_get (list_query prefix token) ''continuation-token'' = token" "val_get (list_query prefix token) ''delimiter'' = []"
  "val_get (list_query prefix token) ''encoding-type'' = []" "val_get (list_query prefix token) ''max-keys'' = []"
  "val_get (list_query prefix token) ''start-after'' = []" "val_get (list_query prefix token) ''X-Amz-Signature'' = []"
  "\<not> val_has (list_query prefix token) ''uploads''" "unsupportedBucketQuery (list_query prefix token) = []"
  by (simp_all add: list_query_def list_pairs_def val_get_def val_all_def val_has_def unsupportedBucketQuery_def unsupported_names_def)

subsection \<open>The page of the server\<close>

definition bucket_entries :: "store \<Rightarrow> string \<Rightarrow> string \<Rightarrow> entry list" where
  "bucket_entries s b prefix =
     filter (\<lambda>e. has_prefix (e_key e) prefix) (entries_of (ns_objs (db_file (s_db s)) (store_ns b)))"

lemma store_List_entries:
  assumes "idx_inv (db_file (s_db s))" "store_Bucket s b \<noteq> None"
  shows "store_List b prefix fn s st = fold_cb fn (bucket_entries s b prefix) st"
  using assms by (auto simp: store_List_def ix_walk_entries ix_walkPrefix_entries bucket_entries_def)

lemma bucket_entries_sorted:
  "idx_inv (db_file (s_db s)) \<Longrightarrow> sorted_wrt (<) (map e_key (bucket_entries s b prefix))"
  using entries_of_sorted [OF idx_invD(1), of "db_file (s_db s)" "store_ns b"]
  by (simp add: bucket_entries_def sorted_wrt_map sorted_wrt_filter)

text \<open>The token that resumes after the entries already delivered.\<close>

definition resume_key :: "entry list \<Rightarrow> string" where
  "resume_key xs = (if xs = [] then [] else e_key (last xs))"

lemma page_resume:
  assumes "sorted_wrt (<) (map e_key (xs @ ys))" "\<forall>e \<in> set xs. e_key e \<noteq> []" "lr_KeyCount (la_res a) = 0"
  shows "fold_cb (list_cb p [] False 1000 (resume_key xs)) (xs @ ys) a =
    (if length ys \<le> 1000 then (page_acc ys a, None) else (page_full (page_acc (take 1000 ys) a), Some stop_page))"
proof -
  have le: "e_key e \<le> e_key (last xs)" if "e \<in> set xs" for e
  proof -
    have "xs = butlast xs @ [last xs]" using that by (cases xs rule: rev_cases) auto
    moreover have "sorted_wrt (<) (map e_key xs)" using assms(1) by (simp add: sorted_wrt_append)
    ultimately have "sorted_wrt (<) (map e_key (butlast xs @ [last xs]))" "set xs = insert (last xs) (set (butlast xs))"
      by (metis, metis Un_insert_right list.simps(15) set_append empty_set sup_bot_right)
    with that show ?thesis by (auto simp: sorted_wrt_append)
  qed
  have "fold_cb (list_cb p [] False 1000 (resume_key xs)) (xs @ ys) a = fold_cb (list_cb p [] False 1000 (resume_key xs)) ys a"
    by (rule page_skip) (use le assms(2) in \<open>auto simp: resume_key_def\<close>)
  also have "\<dots> = (if length ys \<le> 1000 then (page_acc ys a, None) else (page_full (page_acc (take 1000 ys) a), Some stop_page))"
  proof (rule page_take)
    have "e_key (last xs) < e_key e" if "xs \<noteq> []" "e \<in> set ys" for e
      using assms(1) that by (simp add: sorted_wrt_append)
    then show "\<forall>e \<in> set ys. \<not> (resume_key xs \<noteq> [] \<and> e_key e \<le> resume_key xs)" by (auto simp: resume_key_def dest: leD)
  qed (simp add: assms(3))
  finally show ?thesis .
qed

definition listing_doc :: "string \<Rightarrow> string \<Rightarrow> string \<Rightarrow> entry list \<Rightarrow> listBucketResult" where
  "listing_doc b prefix token ys =
     \<lparr>lr_Name = b, lr_Prefix = prefix, lr_Delimiter = [], lr_MaxKeys = 1000, lr_KeyCount = int (length (take 1000 ys)),
      lr_IsTruncated = (1000 < length ys), lr_ContinuationToken = token,
      lr_NextContinuationToken = (if 1000 < length ys then b64_encode (resume_key (take 1000 ys)) else []),
      lr_StartAfter = [], lr_EncodingType = [], lr_Contents = map (list_entry False) (take 1000 ys), lr_CommonPrefixes = []\<rparr>"

lemma listObjects_page:
  assumes "idx_inv (db_file (s_db s))" "store_Bucket s b \<noteq> None" "bucket_entries s b prefix = xs @ ys"
    and "\<forall>e \<in> set xs. e_key e \<noteq> []" "rq_query r = list_query prefix (b64_encode (resume_key xs))"
  shows "listObjects H s r b = writeXML H 200 (XList (listing_doc b prefix (b64_encode (resume_key xs)) ys)) []"
proof -
  let ?tok = "b64_encode (resume_key xs)"
  have af: "list_after (list_query prefix ?tok) = Inr (resume_key xs)"
    by (simp add: list_after_def list_query_get Let_def)
  have mk: "list_maxKeys (list_query prefix ?tok) = Inr 1000" by (simp add: list_maxKeys_def list_query_get defaultMaxKeys_def)
  have so: "sorted_wrt (<) (map e_key (xs @ ys))" using bucket_entries_sorted [OF assms(1), of b prefix] assms(3) by simp
  let ?a = "\<lparr>la_res = \<lparr>lr_Name = b, lr_Prefix = prefix, lr_Delimiter = [], lr_MaxKeys = 1000, lr_KeyCount = 0,
      lr_IsTruncated = False, lr_ContinuationToken = ?tok, lr_NextContinuationToken = [], lr_StartAfter = [],
      lr_EncodingType = [], lr_Contents = [], lr_CommonPrefixes = []\<rparr>, la_seen = [], la_last = []\<rparr>"
  have "list_page s (list_query prefix ?tok) b 1000 (resume_key xs) =
      fold_cb (list_cb prefix [] False 1000 (resume_key xs)) (xs @ ys) ?a"
    by (simp add: list_page_def list_query_get store_List_entries [OF assms(1,2)] assms(3))
  also have "\<dots> = (if length ys \<le> 1000 then (page_acc ys ?a, None) else (page_full (page_acc (take 1000 ys) ?a), Some stop_page))"
    by (rule page_resume [OF so assms(4)]) simp
  finally have pg: "list_page s (list_query prefix ?tok) b 1000 (resume_key xs) = \<dots>" .
  have "ys \<noteq> [] \<Longrightarrow> take 1000 ys \<noteq> []" by simp
  then show ?thesis
    unfolding listObjects_def Let_def assms(5) af mk sum.case pg
    by (auto simp: list_query_get listing_doc_def page_acc_def page_full_def resume_key_def)
qed

subsection \<open>The answer as the client reads it\<close>

text \<open>
  One turn of the loop of \<open>List\<close>: the request of a page, and what is read of the answer, at
  most 32 MiB, with the quotes trimmed off the tags.  \<open>D\<close> is \<open>xml.Unmarshal\<close> into the
  client's listing.
\<close>

definition list_limit :: nat where "list_limit = 33554432"

definition trim_quotes :: "string \<Rightarrow> string" where
  "trim_quotes s = rev (dropWhile (\<lambda>c. c = CHR 0x22) (rev (dropWhile (\<lambda>c. c = CHR 0x22) s)))"

definition cli_listing :: "(string \<Rightarrow> listing option) \<Rightarrow> nat \<Rightarrow> string \<Rightarrow> gerr + listing" where
  "cli_listing D status body =
     (if 200 \<le> status \<and> status < 300 then
        (case D (take list_limit body) of
           None \<Rightarrow> Inl (Errf ''s3 client: malformed listing'')
         | Some l \<Rightarrow> Inr (l\<lparr>ls_objects := map (\<lambda>ob. ob\<lparr>ob_etag := trim_quotes (ob_etag ob)\<rparr>) (ls_objects l)\<rparr>))
      else Inl (Errf ''s3: http''))"

definition ask_list ::
    "env \<Rightarrow> crypto \<Rightarrow> httplib \<Rightarrow> (string \<Rightarrow> listing option) \<Rightarrow> client \<Rightarrow> (string \<Rightarrow> gotime) \<Rightarrow> (string \<Rightarrow> reqsys) \<Rightarrow> server \<Rightarrow>
     string \<Rightarrow> string \<Rightarrow> gerr + listing" where
  "ask_list E C H D c now rs sv prefix token =
     (case cli_request E C c (now token) (list_request prefix token) of
        None \<Rightarrow> Inl (Errf ''net/url: parse'')
      | Some r \<Rightarrow>
          (case ServeHTTP E C H (rs token) r sv of
             (_, resp, _) \<Rightarrow> cli_listing D (ht_status resp) (body_bytes (ht_body resp))))"

definition listing_of :: "listBucketResult \<Rightarrow> listing" where
  "listing_of d =
     \<lparr>ls_truncated = lr_IsTruncated d, ls_next = lr_NextContinuationToken d,
      ls_objects = map (\<lambda>oe. \<lparr>ob_key = oe_Key oe, ob_size = oe_Size oe, ob_etag = oe_ETag oe, ob_modified = oe_LastModified oe\<rparr>)
        (lr_Contents d)\<rparr>"

text \<open>A document that goes over the wire whole: marshalled, short enough, and read back as it was.\<close>

definition page_sent :: "httplib \<Rightarrow> (string \<Rightarrow> listing option) \<Rightarrow> listBucketResult \<Rightarrow> bool" where
  "page_sent H D d \<longleftrightarrow>
     (\<exists>x. hl_xml H (XList d) = Some x \<and> length (xml_header @ x) \<le> list_limit \<and> D (xml_header @ x) = Some (listing_of d))"

definition obj_info :: "entry \<Rightarrow> objinfo" where
  "obj_info e = \<lparr>ob_key = e_key e, ob_size = e_size e, ob_etag = trim_quotes (quoteETag (e_etag e)), ob_modified = e_mtime e\<rparr>"

lemma splitPath_bucket: "good_part b \<Longrightarrow> splitPath (''/'' @ b) = (b, [])"
proof -
  assume g: "good_part b"
  then have ne: "b \<noteq> []" "CHR ''/'' \<notin> set b" by (auto simp: good_part_def)
  have "path_parts (CHR ''/'' # b) = [b]"
    unfolding path_parts_def list.sel(3) using clean_split_join [of "[b]" True "[]"] g by simp
  then have c: "path_clean (CHR ''/'' # b) = CHR ''/'' # b"
    by (subst path_clean_abs) (simp_all add: isAbs_iff)
  have "trim_prefix (CHR ''/'' # s) ''/'' = s" for s by (simp add: trim_prefix_def cut_prefix_def)
  moreover have "b \<noteq> ''.''" using g by (auto simp: good_part_def)
  ultimately show ?thesis using ne by (simp add: splitPath_def c cut_at_none)
qed

lemma list_request_served:
  assumes E: "env_ok E" "\<And>k m. cr_hmac C k m \<noteq> []" and cl: "client_of sv c" "good_part (cl_bucket c)" "plain_url (''/'' @ cl_bucket c)"
    and t: "in_time C now (rs_now rs)"
  obtains r where "cli_request E C c now (list_request prefix token) = Some r" "rq_query r = list_query prefix token"
    "splitPath (rq_path r) = (cl_bucket c, [])"
    "route E C H rs r (cl_bucket c) [] sv = (sv_store sv, listObjects H (sv_store sv) r (cl_bucket c))"
proof -
  define q where "q = list_request prefix token"
  have q: "cq_key q = []" "cq_header q = []" "cq_method q = ''GET''" "cq_query q \<noteq> []"
    by (simp_all add: q_def list_request_def bare_request_def)
  have path: "cli_path c (cq_key q) = ''/'' @ cl_bucket c" using q by (simp add: cli_path_def)
  have enc: "values_Encode (cq_query q) = join_with ''&'' (map pair_str (list_pairs prefix token))"
    by (simp add: q_def values_Encode_list)
  have chars: "unreserved ch \<or> ch = CHR ''%'' \<or> ch = CHR ''+'' \<or> ch = CHR ''='' \<or> ch = CHR ''&''" if "ch \<in> set (values_Encode (cq_query q))" for ch
    using set_join_with [OF that [unfolded enc]] pair_str_chars by auto
  note pt = parse_target_query [OF cl(3) chars]
  define r0 where "r0 = \<lparr>rq_method = ''GET'', rq_host = cl_host c, rq_urlHost = cl_host c, rq_path = ''/'' @ cl_bucket c,
      rq_escaped = ''/'' @ cl_bucket c, rq_rawQuery = values_Encode (cq_query q), rq_query = list_query prefix token, rq_header = [],
      rq_length = (if 0 < cq_length q then cq_length q else 0), rq_body = cq_body q\<rparr>"
  define payload where "payload = (if cq_payload q = [] then sha256_hex E [] else cq_payload q)"
  have base: "cl_base c = []" using cl(1) by (simp add: client_of_def)
  have r: "cli_request E C c now q = Some (signRequest E C c now payload r0)"
    using base q path pt by (simp add: cli_request_def Let_def r0_def payload_def enc ParseQuery_list)
  have s0: "rq_method r0 = ''GET''" "rq_query r0 = list_query prefix token" "rq_path r0 = ''/'' @ cl_bucket c"
    "rq_rawQuery r0 = values_Encode (cq_query q)" by (simp_all add: r0_def)
  let ?r = "signRequest E C c now payload r0"
  obtain sig where sig: "verify_request E C (sv_verifier (rs_now rs) sv) ?r = Inr sig" "cd_bucket (sg_creds sig) = cl_bucket c"
    by (rule client_accepted [OF E cl(1) t r]) (simp_all add: signRequest_frame s0 list_query_get)
  have np: "\<not> publicRead ?r (cl_bucket c) [] (sv_store sv)" by (simp add: publicRead_def)
  have b: "cl_bucket c \<noteq> []" using cl(2) by (auto simp: good_part_def)
  have "route E C H rs ?r (cl_bucket c) [] sv = (sv_store sv, listObjects H (sv_store sv) ?r (cl_bucket c))"
    using b by (simp add: route_def Let_def np sig bucketOp_def signRequest_frame s0 list_query_get)
  then show thesis
    using that [OF r [unfolded q_def]] splitPath_bucket [OF cl(2)] by (simp add: signRequest_frame s0)
qed

text \<open>One page, from the client's question to the client's answer.\<close>

lemma ask_list_page:
  assumes E: "env_ok E" "\<And>k m. cr_hmac C k m \<noteq> []" and cl: "client_of sv c" "good_part (cl_bucket c)" "plain_url (''/'' @ cl_bucket c)"
    and t: "in_time C (now token) (rs_now (rs token))" and inv: "idx_inv (db_file (s_db (sv_store sv)))"
    and es: "bucket_entries (sv_store sv) (cl_bucket c) prefix = xs @ ys" "\<forall>e \<in> set xs. e_key e \<noteq> []"
    and tok: "token = b64_encode (resume_key xs)" and sent: "page_sent H D (listing_doc (cl_bucket c) prefix token ys)"
  shows "ask_list E C H D c now rs sv prefix token =
    Inr \<lparr>ls_truncated = (1000 < length ys), ls_next = (if 1000 < length ys then b64_encode (resume_key (take 1000 ys)) else []),
         ls_objects = map obj_info (take 1000 ys)\<rparr>"
proof -
  obtain r where r: "cli_request E C c (now token) (list_request prefix token) = Some r" "rq_query r = list_query prefix token"
    "splitPath (rq_path r) = (cl_bucket c, [])"
    "route E C H (rs token) r (cl_bucket c) [] sv = (sv_store sv, listObjects H (sv_store sv) r (cl_bucket c))"
    by (rule list_request_served [OF E cl t])
  obtain x where x: "hl_xml H (XList (listing_doc (cl_bucket c) prefix token ys)) = Some x" "length (xml_header @ x) \<le> list_limit"
    "D (xml_header @ x) = Some (listing_of (listing_doc (cl_bucket c) prefix token ys))"
    using sent by (auto simp: page_sent_def)
  have bk: "store_Bucket (sv_store sv) (cl_bucket c) \<noteq> None" using cl(1) by (simp add: client_of_def)
  from listObjects_page [OF inv bk es r(2) [unfolded tok], of H, folded tok] x(1) obtain h where
    lo: "listObjects H (sv_store sv) r (cl_bucket c) = (h, Inr (200, Doc (XList (listing_doc (cl_bucket c) prefix token ys)) (xml_header @ x)))"
    by (simp add: writeXML_def Let_def)
  obtain sv' resp al where sv: "ServeHTTP E C H (rs token) r sv = (sv', resp, al)" by (metis prod.exhaust)
  obtain h2 out where rt: "route E C H (rs token) r (cl_bucket c) [] sv = (sv_store sv', h2, out)"
    "(case out of Inl e \<Rightarrow> writeError H r e h2 | Inr w \<Rightarrow> (h2, w)) = (ht_headers resp, ht_status resp, ht_body resp)"
    by (rule ServeHTTP_route [OF sv r(3)])
  have "ht_status resp = 200" "ht_body resp = Doc (XList (listing_doc (cl_bucket c) prefix token ys)) (xml_header @ x)"
    using rt r(4) lo by auto
  then have "ht_status resp = 200" "body_bytes (ht_body resp) = xml_header @ x" by (simp_all add: body_bytes_def)
  then have "ask_list E C H D c now rs sv prefix token = cli_listing D 200 (xml_header @ x)"
    by (simp add: ask_list_def r(1) sv)
  then show ?thesis
    using x(2,3) by (simp add: cli_listing_def listing_of_def listing_doc_def obj_info_def list_entry_def maybeEncode_def)
qed

text \<open>
  C35: following a listing ends, and delivers every object once.  Over a store nobody writes
  to, the loop of the client over the pages of the server returns, and it has called its
  callback for exactly the objects of the bucket whose key has the prefix, each once, in
  ascending byte order of their keys, up to the first error of the callback.
\<close>

theorem listing_delivers_every_object_once:
  assumes E: "env_ok E" "\<And>k m. cr_hmac C k m \<noteq> []" and cl: "client_of sv c" "good_part (cl_bucket c)" "plain_url (''/'' @ cl_bucket c)"
    and t: "\<And>token. in_time C (now token) (rs_now (rs token))" and inv: "idx_inv (db_file (s_db (sv_store sv)))"
    and ne: "\<forall>e \<in> set (bucket_entries (sv_store sv) (cl_bucket c) prefix). e_key e \<noteq> []"
    and sent: "\<forall>xs ys. bucket_entries (sv_store sv) (cl_bucket c) prefix = xs @ ys \<longrightarrow>
      page_sent H D (listing_doc (cl_bucket c) prefix (b64_encode (resume_key xs)) ys)"
  shows "cli_List (ask_list E C H D c now rs sv prefix) fn [] st =
    Some (fold_cb fn (map obj_info (bucket_entries (sv_store sv) (cl_bucket c) prefix)) st)"
proof -
  have "cli_List (ask_list E C H D c now rs sv prefix) fn (b64_encode (resume_key xs)) st = Some (fold_cb fn (map obj_info ys) st)"
    if "bucket_entries (sv_store sv) (cl_bucket c) prefix = xs @ ys" for xs ys st
    using that
  proof (induction "length ys" arbitrary: xs ys st rule: less_induct)
    case less
    have nx: "\<forall>e \<in> set xs. e_key e \<noteq> []" using ne less.prems by simp
    note page = ask_list_page [where token = "b64_encode (resume_key xs)", OF E cl t inv less.prems nx refl sent [rule_format, OF less.prems]]
    show ?case
    proof (cases "1000 < length ys")
      case False
      then show ?thesis by (subst cli_List.simps) (auto simp: page split: prod.split option.split)
    next
      case True
      let ?zs = "take 1000 ys"
      have zs: "?zs \<noteq> []" using True by auto
      have "last ?zs \<in> set ys" by (rule in_set_takeD [OF last_in_set [OF zs]])
      then have rk: "resume_key (xs @ ?zs) = resume_key ?zs" "resume_key ?zs \<noteq> []"
        using zs ne less.prems by (simp_all add: resume_key_def)
      have "length (drop 1000 ys) < length ys" "bucket_entries (sv_store sv) (cl_bucket c) prefix = (xs @ ?zs) @ drop 1000 ys"
        using True less.prems by simp_all
      note IH = less.hyps [OF this]
      have "fold_cb fn (map obj_info ys) st = (case fold_cb fn (map obj_info ?zs) st of
          (st', Some e) \<Rightarrow> (st', Some e) | (st', None) \<Rightarrow> fold_cb fn (map obj_info (drop 1000 ys)) st')"
        using fold_cb_append [of fn "map obj_info ?zs" "map obj_info (drop 1000 ys)" st] by (simp flip: map_append)
      then show ?thesis using True rk IH
        by (subst cli_List.simps) (auto simp: page split: prod.split option.split)
    qed
  qed
  from this [of "[]" "bucket_entries (sv_store sv) (cl_bucket c) prefix" st] show ?thesis by (simp add: resume_key_def)
qed

subsection \<open>A concrete listing\<close>

definition demo_fields :: "listBucketResult \<Rightarrow> string list" where
  "demo_fields d =
     [if lr_IsTruncated d then ''1'' else ''0'', lr_NextContinuationToken d] @
     concat (map (\<lambda>oe. [oe_Key oe, format_uint (oe_Size oe), oe_ETag oe, int_str (oe_LastModified oe)]) (lr_Contents d))"

fun demo_objs :: "string list \<Rightarrow> objinfo list" where
  "demo_objs (k # z # t # m # fs) =
     \<lparr>ob_key = k, ob_size = (case parse_uint z of Some n \<Rightarrow> n | None \<Rightarrow> 0), ob_etag = t, ob_modified = str_int m\<rparr> # demo_objs fs"
| "demo_objs _ = []"

definition demo_list_http :: httplib where
  "demo_list_http = demo_http\<lparr>hl_xml := \<lambda>d. Some (case d of XList l \<Rightarrow> enc_fields (demo_fields l) | _ \<Rightarrow> [])\<rparr>"

definition demo_unmarshal :: "string \<Rightarrow> listing option" where
  "demo_unmarshal s =
     (case dec_fields (drop (length xml_header) s) of
        tr # nx # fs \<Rightarrow> Some \<lparr>ls_truncated = (tr = ''1''), ls_next = nx, ls_objects = demo_objs fs\<rparr>
      | _ \<Rightarrow> None)"

lemma demo_objs_fields:
  "demo_objs (concat (map (\<lambda>oe. [oe_Key oe, format_uint (oe_Size oe), oe_ETag oe, int_str (oe_LastModified oe)]) os)) =
   map (\<lambda>oe. \<lparr>ob_key = oe_Key oe, ob_size = oe_Size oe, ob_etag = oe_ETag oe, ob_modified = oe_LastModified oe\<rparr>) os"
  by (induction os) simp_all

lemma demo_page_sent:
  assumes "(\<Sum>f \<leftarrow> demo_fields d. 2 * length f + 1) < 30000000"
  shows "page_sent demo_list_http demo_unmarshal d"
proof -
  have "length xml_header < 100" by (simp add: xml_header_def)
  then show ?thesis using assms
    by (simp add: page_sent_def demo_list_http_def length_enc_fields list_limit_def demo_unmarshal_def)
      (simp add: demo_fields_def listing_of_def demo_objs_fields)
qed

lemma demo_stored:
  obtains sv e1 where "client_of sv demo_client" "idx_inv (db_file (s_db (sv_store sv)))"
    "bucket_entries (sv_store sv) ''media'' [] = [e1]" "e_key e1 = ''a.jpg''" "length (e_etag e1) < 100" "\<bar>e_mtime e1\<bar> < 100"
proof -
  obtain s e where put: "store_PutWith demo_env (rs_sys demo_rs 0) (cl_bucket demo_client) ''a.jpg'' (''hello'', None)
       (upload_opts demo_env (rs_now demo_rs) ''hello'') (sv_store demo_server) = (s, Inr e)" using demo_upload_stored by blast
  have s0: "store_inv demo_env (sv_store demo_server)" "in_step demo_env (sv_store demo_server)" by (simp_all add: demo_server_def)
  note pe = PutWith_effect [OF demo_env_ok s0 demo_upload_ready put]
  have inv: "idx_inv (db_file (s_db s))" using pe(1) by (simp add: store_inv_def rec_index_ok_def index_ok_def)
  have cl: "client_of \<lparr>sv_store = s, sv_region = ''tana''\<rparr> demo_client"
    using demo_client_of pe(5) by (simp add: client_of_def store_Bucket_def BucketByAccessKey_def demo_server_def)
  have spec0: "store_spec demo_env (sv_store demo_server) = Map.empty"
    using s0(2) by (simp add: in_step_def demo_server_def demo_store_def sabs_def fun_eq_iff)
  have "sabs (db_file (s_db s)) = (store_spec demo_env (sv_store demo_server))((cl_bucket demo_client, ''a.jpg'') \<mapsto>
      put_value demo_env (rs_sys demo_rs 0) (''hello'', None) (upload_opts demo_env (rs_now demo_rs) ''hello''))"
    using caught_up_in_step [OF pe(1,2)] pe(3) by (simp add: in_step_def)
  then have look: "map_option objval_of (ix_lookup (db_file (s_db s)) (store_ns ''media'', k)) =
      (if k = ''a.jpg'' then Some (put_value demo_env demo_sys (''hello'', None) (upload_opts demo_env 9 ''hello'')) else None)" for k
    unfolding spec0 by (auto simp: sabs_def fun_eq_iff demo_client_def demo_rs_def split: if_splits dest!: spec [of _ "''media''"])
  let ?es = "bucket_entries s ''media'' []"
  have mem: "e \<in> set ?es \<longleftrightarrow> ix_lookup (db_file (s_db s)) (store_ns ''media'', e_key e) = Some e" for e
    by (simp add: bucket_entries_def entries_of_lookup [OF inv])
  have keys: "e_key e = ''a.jpg''" if "e \<in> set ?es" for e using that look [of "e_key e"] by (auto simp: mem split: if_splits)
  obtain e1 where e1: "ix_lookup (db_file (s_db s)) (store_ns ''media'', ''a.jpg'') = Some e1"
    "objval_of e1 = put_value demo_env demo_sys (''hello'', None) (upload_opts demo_env 9 ''hello'')" using look [of "''a.jpg''"] by auto
  have "e1 \<in> set ?es" using e1(1) ix_lookup_key [OF inv e1(1)] by (simp add: mem)
  moreover have "e \<in> set ?es \<Longrightarrow> e = e1" for e using e1(1) keys [of e] mem [of e] by simp
  moreover have "sorted_wrt (<) (map e_key ?es)" by (rule bucket_entries_sorted [OF inv])
  ultimately have "?es = [e1]"
    using keys by (cases ?es; cases "tl ?es") auto
  moreover have "e_key e1 = ''a.jpg''" by (rule ix_lookup_key [OF inv e1(1)])
  moreover have "e_etag e1 = md5_hex demo_env ''hello''" "e_mtime e1 = 9"
    using e1(2) by (simp_all add: objval_of_def put_value_def upload_opts_def put_mtime_def time_is_zero_def)
  moreover have "length (md5_hex demo_env ''hello'') = 32" by (simp add: demo_env_def pad_hex_def)
  ultimately show thesis
    using that [of "\<lparr>sv_store = s, sv_region = ''tana''\<rparr>" e1] inv cl by simp
qed

theorem listing_delivers_every_object_once_witness:
  "\<exists>sv. cli_List (ask_list demo_env demo_crypto demo_list_http demo_unmarshal demo_client (\<lambda>_. 7) (\<lambda>_. demo_rs) sv [])
     (\<lambda>ob keys. (keys @ [ob_key ob], None)) [] [] = Some ([''a.jpg''], None)"
proof -
  obtain sv e1 where sv: "client_of sv demo_client" "idx_inv (db_file (s_db (sv_store sv)))"
    "bucket_entries (sv_store sv) ''media'' [] = [e1]" "e_key e1 = ''a.jpg''" "length (e_etag e1) < 100" "\<bar>e_mtime e1\<bar> < 100"
    by (rule demo_stored)
  have b: "cl_bucket demo_client = ''media''" by (simp add: demo_client_def)
  have es: "bucket_entries (sv_store sv) (cl_bucket demo_client) [] = [e1]" using sv(3) by (simp add: b)
  have g: "good_part (cl_bucket demo_client)" "plain_url (''/'' @ cl_bucket demo_client)" by code_simp+
  have t: "in_time demo_crypto 7 (rs_now demo_rs)" by (rule demo_in_time)
  have ne: "\<forall>e \<in> set (bucket_entries (sv_store sv) (cl_bucket demo_client) []). e_key e \<noteq> []" using es sv(4) by simp
  have q: "length (quoteETag (e_etag e1)) < 102" using sv(5) by (simp add: quoteETag_def)
  have "length (int_str (e_mtime e1)) \<le> 31" by (rule int_str_length) (use sv(6) in simp)
  then have sent: "\<forall>xs ys. bucket_entries (sv_store sv) (cl_bucket demo_client) [] = xs @ ys \<longrightarrow>
      page_sent demo_list_http demo_unmarshal (listing_doc (cl_bucket demo_client) [] (b64_encode (resume_key xs)) ys)"
    using q format_uint_length [of "e_size e1"] sv(4)
    by (auto simp: es Cons_eq_append_conv demo_fields_def listing_doc_def list_entry_def maybeEncode_def intro!: demo_page_sent)
  show ?thesis
    by (rule exI [of _ sv])
      (simp add: listing_delivers_every_object_once [OF demo_env_ok demo_total(1) sv(1) g t sv(2) ne sent] es obj_info_def sv(4))
qed

end
