(* ===== verification/S3Presign.thy ===== *)
theory S3Presign
  imports S3Listing ConfigLaws
begin

text \<open>
  Presigned URLs: the URL the client hands out, parsed as a browser's request, and what the
  verifier of the store makes of it before and after it expires.
\<close>

definition presign_pairs :: "crypto \<Rightarrow> client \<Rightarrow> gotime \<Rightarrow> int \<Rightarrow> (string \<times> string) list" where
  "presign_pairs C c now secs =
     [(''X-Amz-Algorithm'', algorithm), (''X-Amz-Credential'', cl_accessKey c @ ''/'' @ cli_scope C c now),
      (''X-Amz-Date'', cr_amzDate C now), (''X-Amz-Expires'', format_int secs)]"

lemma presign_names_sorted:
  "sort [''X-Amz-Algorithm'', ''X-Amz-Credential'', ''X-Amz-Date'', ''X-Amz-Expires'', ''X-Amz-SignedHeaders'', ''X-Amz-Signature''] =
     [''X-Amz-Algorithm'', ''X-Amz-Credential'', ''X-Amz-Date'', ''X-Amz-Expires'', ''X-Amz-Signature'', ''X-Amz-SignedHeaders'']"
  by code_simp

text \<open>The text the client signs, which the verifier has to rebuild from the URL.\<close>

definition presign_doc :: "crypto \<Rightarrow> client \<Rightarrow> gotime \<Rightarrow> string \<Rightarrow> string \<Rightarrow> int \<Rightarrow> string" where
  "presign_doc C c now method key secs =
     join_with [NL] [method, encodePath (cli_path c key),
       encodeQuery (map (\<lambda>(k, v). (k, [v])) (presign_pairs C c now secs @ [(''X-Amz-SignedHeaders'', ''host'')])),
       ''host:'' @ cl_host c @ [NL], ''host'', unsignedPayload]"

definition presign_query :: "env \<Rightarrow> crypto \<Rightarrow> client \<Rightarrow> gotime \<Rightarrow> string \<Rightarrow> string \<Rightarrow> int \<Rightarrow> (string \<times> string) list" where
  "presign_query E C c now method key secs =
     presign_pairs C c now secs @
     [(''X-Amz-Signature'', cli_sign E C c now (cli_scope C c now) (presign_doc C c now method key secs)),
      (''X-Amz-SignedHeaders'', ''host'')]"

lemma cli_Presign_query:
  "cli_Presign E C c now method key secs =
     cl_base c @ cli_path c key @ ''?'' @ join_with ''&'' (map pair_str (presign_query E C c now method key secs))"
  by (simp add: cli_Presign_def Let_def values_Encode_def presign_names_sorted presign_query_def presign_pairs_def presign_doc_def
      val_all_def pair_str_def)

lemma presign_parsed:
  assumes "cl_base c = []" "plain_url (cli_path c key)"
    and "parse_target (cli_Presign E C c now method key secs) = Some (path, escaped, raw)"
  shows "path = cli_path c key" "escaped = cli_path c key"
    "ParseQuery raw = map (\<lambda>(k, v). (k, [v])) (presign_query E C c now method key secs)"
proof -
  let ?q = "presign_query E C c now method key secs"
  have "unreserved ch \<or> ch = CHR ''%'' \<or> ch = CHR ''+'' \<or> ch = CHR ''='' \<or> ch = CHR ''&''"
    if "ch \<in> set (join_with ''&'' (map pair_str ?q))" for ch
    using set_join_with [OF that] pair_str_chars by auto
  from parse_target_query [OF assms(2) this] assms
  have p: "path = cli_path c key" "escaped = cli_path c key" "raw = join_with ''&'' (map pair_str ?q)"
    by (auto simp: cli_Presign_query)
  then show "path = cli_path c key" "escaped = cli_path c key" by simp_all
  have "?q \<noteq> []" by (simp add: presign_query_def)
  then show "ParseQuery raw = map (\<lambda>(k, v). (k, [v])) ?q"
    by (simp add: p(3) ParseQuery_pairs) (simp add: presign_query_def presign_pairs_def val_add_def val_has_def)
qed

lemma parse_int_format: "0 \<le> n \<Longrightarrow> n < 2 ^ 63 \<Longrightarrow> parse_int (format_int n) = Some n"
proof -
  assume n: "0 \<le> n" "n < 2 ^ 63"
  then have "nat n < 2 ^ 63" by (simp add: nat_less_iff)
  from parse_int_nat [OF this] n show ?thesis by (simp add: format_int_def)
qed

lemma split_cred:
  assumes "plain_cred c" "CHR ''/'' \<notin> set (cr_shortDate C now)"
  shows "split_on (CHR ''/'') (cl_accessKey c @ ''/'' @ cli_scope C c now) =
    [cl_accessKey c, cr_shortDate C now, cl_region c, service, terminator]"
proof -
  have "cl_accessKey c @ ''/'' @ cli_scope C c now =
      join_with [CHR ''/''] [cl_accessKey c, cr_shortDate C now, cl_region c, service, terminator]" by (simp add: cli_scope_def)
  moreover have "CHR ''/'' \<notin> set service" "CHR ''/'' \<notin> set terminator" by (simp_all add: service_def terminator_def)
  ultimately show ?thesis
    using split_join_with [of "[cl_accessKey c, cr_shortDate C now, cl_region c, service, terminator]" "CHR ''/''"] assms
    by (simp add: plain_cred_def)
qed

lemma presigned_verified:
  assumes cl: "plain_cred c" "cl_base c = []" "cl_host c \<noteq> []" "plain_url (cli_path c key)" "cli_path c key \<noteq> []"
    and v: "vf_region v = cl_region c" "vf_lookup v (cl_accessKey c) = Some creds" "cd_secretKey creds = cl_secretKey c"
    and t: "stamp_ok C now when" "0 < secs" "secs * 1000000000 < 2 ^ 63" and mac: "\<And>k m. cr_hmac C k m \<noteq> []"
    and r: "parse_target (cli_Presign E C c now method key secs) = Some (rq_path r, rq_escaped r, rq_rawQuery r)"
      "rq_query r = ParseQuery (rq_rawQuery r)" "rq_method r = method" "rq_host r = cl_host c"
  shows "verify_request E C v r =
    (if when + secs * 1000000000 < vf_now v then Inl errRequestExpired
     else Inr \<lparr>sg_creds = creds, sg_scope = cli_scope C c now, sg_date = when,
               sg_seed = cli_sign E C c now (cli_scope C c now) (presign_doc C c now method key secs),
               sg_payload = unsignedPayload, sg_presigned = True\<rparr>)"
proof -
  note p = presign_parsed [OF cl(2,4) r(1)]
  let ?sg = "cli_sign E C c now (cli_scope C c now) (presign_doc C c now method key secs)"
  let ?f = "map (\<lambda>(k, v). (k, [v])) (presign_pairs C c now secs @ [(''X-Amz-SignedHeaders'', ''host'')])"
  have q: "rq_query r = map (\<lambda>(k, v). (k, [v])) (presign_query E C c now method key secs)" using p(3) r(2) by simp
  have get: "val_get (rq_query r) ''X-Amz-Algorithm'' = algorithm"
    "val_get (rq_query r) ''X-Amz-Credential'' = cl_accessKey c @ ''/'' @ cli_scope C c now"
    "val_get (rq_query r) ''X-Amz-Date'' = cr_amzDate C now" "val_get (rq_query r) ''X-Amz-Expires'' = format_int secs"
    "val_get (rq_query r) ''X-Amz-SignedHeaders'' = ''host''" "val_get (rq_query r) ''X-Amz-Signature'' = ?sg"
    "filter (\<lambda>p. fst p \<noteq> ''X-Amz-Signature'') (rq_query r) = ?f"
    by (simp_all add: q presign_query_def presign_pairs_def val_get_def val_all_def)
  have "?sg \<noteq> []"
  proof -
    have "hex_encode m \<noteq> []" if "m \<noteq> []" for m using that by (cases m) simp_all
    then show ?thesis using mac by (simp add: cli_sign_def Let_def)
  qed
  then have vp: "verify_request E C v r = verifyPresigned E C v r" by (simp add: verify_request_def get)
  have sc: "join_with ''/'' [cr_shortDate C now, cl_region c, service, terminator] = cli_scope C c now" by (simp add: cli_scope_def)
  have sl: "CHR ''/'' \<notin> set (cr_shortDate C now)" using t(1) by (simp add: stamp_ok_def)
  have rs: "resolve C v (cl_accessKey c @ ''/'' @ cli_scope C c now) = Inr (creds, cli_scope C c now)"
    unfolding resolve_def split_cred [OF cl(1) sl] using v sc by simp
  have tm: "cr_parseAmz C (cr_amzDate C now) = Some when" using t(1) by (simp add: stamp_ok_def)
  have ex: "parse_int (format_int secs) = Some secs" using t by (intro parse_int_format) simp_all
  have wr: "wrap64 (secs * 1000000000) = secs * 1000000000" using t by (intro wrap64_small) simp_all
  have sp: "split_on (CHR '';'') ''host'' = [''host'']" by code_simp
  have pne: "rq_path r \<noteq> []" "rq_escaped r \<noteq> []" using p(1,2) cl(5) by simp_all
  have "canonicalURI r = encodePath (cli_path c key)"
    using pne p(1) by (simp add: canonicalURI_def encodePath_uri uri_path_def)
  then have doc: "canonicalRequest r [''host''] unsignedPayload (Some ?f) = presign_doc C c now method key secs"
    using cl(3) r(3,4) by (simp add: canonicalRequest_def Let_def presign_doc_def encodeQuery_canonical header_lines_def canonicalHeaderValue_def)
  have sw: "sign_with C (cd_secretKey creds) when (vf_region v) (stringToSign E C when (cli_scope C c now) doc) =
      cli_sign E C c now (cli_scope C c now) doc" for doc
    by (rule sign_with_client) (use v t(1) in \<open>simp_all add: stamp_ok_def\<close>)
  have ne: "cl_accessKey c @ ''/'' @ cli_scope C c now \<noteq> []" by simp
  show ?thesis
    unfolding vp verifyPresigned_def Let_def get rs tm ex wr sum.case prod.case option.case sp doc sw
    using t(2) by simp
qed

text \<open>
  C36: a presigned URL opens its object until it expires, and not after.  Whoever follows the
  URL the client made for a GET, with whatever headers, is served the object under the key
  until the lifetime has passed since the time the URL carries, and is refused from then on,
  also when the bucket is public.
\<close>

theorem presigned_url_opens_until_it_expires:
  assumes mac: "\<And>k m. cr_hmac C k m \<noteq> []" and cl: "client_of sv c" "url_key c key"
    and t: "stamp_ok C now when" "0 < secs" "secs * 1000000000 < 2 ^ 63"
    and url: "parse_target (cli_Presign E C c now ''GET'' key secs) = Some (rq_path r, rq_escaped r, rq_rawQuery r)"
      "rq_query r = ParseQuery (rq_rawQuery r)" "rq_method r = ''GET''" "rq_host r = cl_host c"
  shows "splitPath (rq_path r) = (cl_bucket c, key) \<and>
    route E C H rs r (cl_bucket c) key sv =
      (if when + secs * 1000000000 < rs_now rs then (sv_store sv, [], Inl errRequestExpired)
       else getObject H (rs_sys rs 0) r (cl_bucket c) key True (sv_store sv))"
proof -
  have c: "plain_cred c" "cl_base c = []" "cl_host c \<noteq> []" using cl(1) by (simp_all add: client_of_def)
  have k: "plain_url (cli_path c key)" "good_part (cl_bucket c)" "list_all good_part (split_slash key)"
    using cl(2) by (simp_all add: url_key_def)
  have path: "cli_path c key = ''/'' @ cl_bucket c @ ''/'' @ key" using url_key_ne [OF cl(2)] by (simp add: cli_path_def)
  note p = presign_parsed [OF c(2) k(1) url(1)]
  obtain cfg where b: "BucketByAccessKey (sv_store sv) (cl_accessKey c) = Some cfg" "bc_name cfg = cl_bucket c"
    "bc_secretKey cfg = cl_secretKey c" using cl(1) by (auto simp: client_of_def split: option.splits)
  let ?cr = "\<lparr>cd_accessKey = bc_accessKey cfg, cd_secretKey = bc_secretKey cfg, cd_bucket = bc_name cfg\<rparr>"
  have v: "vf_region (sv_verifier (rs_now rs) sv) = cl_region c" "vf_lookup (sv_verifier (rs_now rs) sv) (cl_accessKey c) = Some ?cr"
    "cd_secretKey ?cr = cl_secretKey c" "vf_now (sv_verifier (rs_now rs) sv) = rs_now rs"
    using cl(1) b by (simp_all add: sv_verifier_def client_of_def)
  have pne: "cli_path c key \<noteq> []" by (simp add: path)
  note ver = presigned_verified [OF c k(1) pne v(1-3) t mac url, unfolded v(4)]
  have q: "rq_query r = map (\<lambda>(k, v). (k, [v])) (presign_query E C c now ''GET'' key secs)" using p(3) url(2) by simp
  have np: "\<not> publicRead r (cl_bucket c) key (sv_store sv)"
  proof -
    have "rq_rawQuery r \<noteq> []" using q url(2) by (auto simp: ParseQuery_def parse_pair_def presign_query_def)
    then show ?thesis by (simp add: publicRead_def)
  qed
  have up: "val_get (rq_query r) ''uploadId'' = []" by (simp add: q presign_query_def presign_pairs_def val_get_def val_all_def)
  have ne: "cl_bucket c \<noteq> []" "key \<noteq> []" using k(2) url_key_ne [OF cl(2)] by (auto simp: good_part_def)
  have "splitPath (rq_path r) = (cl_bucket c, key)" unfolding p(1) path by (rule splitPath_key) (use k in simp_all)
  moreover have "route E C H rs r (cl_bucket c) key sv =
      (if when + secs * 1000000000 < rs_now rs then (sv_store sv, [], Inl errRequestExpired)
       else getObject H (rs_sys rs 0) r (cl_bucket c) key True (sv_store sv))"
    unfolding route_def Let_def if_not_P [OF np] ver using ne b(2) by (simp add: objectOp_def Let_def url(3) up)
  ultimately show ?thesis ..
qed

definition demo_visit :: "urlvals \<Rightarrow> httpreq" where
  "demo_visit h =
     (case parse_target (cli_Presign demo_env demo_crypto demo_client 7 ''GET'' ''a.jpg'' 60) of
        Some (path, escaped, raw) \<Rightarrow>
          \<lparr>rq_method = ''GET'', rq_host = ''s3:9200'', rq_urlHost = [], rq_path = path, rq_escaped = escaped, rq_rawQuery = raw,
           rq_query = ParseQuery raw, rq_header = h, rq_length = 0, rq_body = ([], None)\<rparr>
      | None \<Rightarrow> demo_get h)"

theorem presigned_url_opens_until_it_expires_witness:
  "route demo_env demo_crypto demo_http demo_rs (demo_visit []) ''media'' ''a.jpg'' demo_server =
     getObject demo_http demo_sys (demo_visit []) ''media'' ''a.jpg'' True demo_store \<and>
   route demo_env demo_crypto demo_http (demo_rs\<lparr>rs_now := 70000000000\<rparr>) (demo_visit []) ''media'' ''a.jpg'' demo_server =
     (demo_store, [], Inl errRequestExpired)"
proof -
  let ?q = "presign_query demo_env demo_crypto demo_client 7 ''GET'' ''a.jpg'' 60"
  have chars: "unreserved ch \<or> ch = CHR ''%'' \<or> ch = CHR ''+'' \<or> ch = CHR ''='' \<or> ch = CHR ''&''"
    if "ch \<in> set (join_with ''&'' (map pair_str ?q))" for ch
    using set_join_with [OF that] pair_str_chars by auto
  have "plain_url (cli_path demo_client ''a.jpg'')" using demo_url_key by (simp add: url_key_def)
  from parse_target_query [OF this chars]
  have "parse_target (cli_Presign demo_env demo_crypto demo_client 7 ''GET'' ''a.jpg'' 60) =
      Some (cli_path demo_client ''a.jpg'', cli_path demo_client ''a.jpg'', join_with ''&'' (map pair_str ?q))"
    by (simp add: cli_Presign_query) (simp add: demo_client_def)
  then have r: "parse_target (cli_Presign demo_env demo_crypto demo_client 7 ''GET'' ''a.jpg'' 60) =
      Some (rq_path (demo_visit []), rq_escaped (demo_visit []), rq_rawQuery (demo_visit []))"
    "rq_query (demo_visit []) = ParseQuery (rq_rawQuery (demo_visit []))" "rq_method (demo_visit []) = ''GET''"
    "rq_host (demo_visit []) = cl_host demo_client"
    by (simp_all add: demo_visit_def) (simp add: demo_client_def)
  have st: "stamp_ok demo_crypto 7 7" by (simp add: stamp_ok_def demo_crypto_def)
  have n: "(0::int) < 60" "(60::int) * 1000000000 < 2 ^ 63" by simp_all
  have b: "cl_bucket demo_client = ''media''" by (simp add: demo_client_def)
  have x: "rs_now demo_rs = 9" "rs_sys demo_rs 0 = demo_sys" "sv_store demo_server = demo_store"
    by (simp_all add: demo_rs_def demo_server_def)
  note th = presigned_url_opens_until_it_expires [OF demo_total(1) demo_client_of demo_url_key st n r, of demo_http, unfolded b]
  show ?thesis
    using th [of demo_rs] th [of "demo_rs\<lparr>rs_now := 70000000000\<rparr>"] x by simp
qed

end
