(* ===== verification/MountLaws.thy ===== *)
theory MountLaws
  imports Mount AgentProps S3Presign
begin

text \<open>
  Eviction does not show.  An evicted file keeps its name, size and times in the mount, and a
  read through the mount, the client, the front end and the store returns its bytes.
\<close>

subsection \<open>A ranged read over the wire\<close>

definition read_listed :: "clireq \<Rightarrow> httpresp \<Rightarrow> cerr + (string \<times> cerr option)" where
  "read_listed q resp =
     (case cli_outcome q (ht_status resp) of
        OK2xx \<Rightarrow> Inr (body_bytes (ht_body resp), None)
      | OutNotFound key \<Rightarrow> Inl (CNotFound key)
      | OutAPI status \<Rightarrow> Inl (CApi status))"

text \<open>\<open>GetRange\<close> of the client against the server; the connection does not break.\<close>

definition cli_GetRange ::
    "env \<Rightarrow> crypto \<Rightarrow> httplib \<Rightarrow> client \<Rightarrow> gotime \<Rightarrow> reqsys \<Rightarrow> server \<Rightarrow> string \<Rightarrow> i64 \<Rightarrow> i64 \<Rightarrow> cerr + (string \<times> cerr option)" where
  "cli_GetRange E C H c now rs sv key off len =
     (let q = range_request key (sint off) (sint len) in
      case cli_request E C c now q of
        None \<Rightarrow> Inl COther
      | Some r \<Rightarrow> (case ServeHTTP E C H rs r sv of (_, resp, _) \<Rightarrow> read_listed q resp))"

lemma format_int_digits:
  assumes "0 \<le> a"
  shows "format_int a \<noteq> []" "CHR ''-'' \<notin> set (format_int a)" "CHR '','' \<notin> set (format_int a)"
  using assms format_nat_props [of "nat a"] by (auto simp: format_int_def list_all_iff is_digit_def)

lemma parseRange_span:
  assumes "0 \<le> a" "a < len" "a \<le> b" "b < 2 ^ 63" "len < 2 ^ 63"
  shows "parseRange (''bytes='' @ format_int a @ ''-'' @ format_int b) len = Inr (a, min b (len - 1) - a + 1, True)"
proof -
  have b: "0 \<le> b" using assms by simp
  note fa = format_int_digits [OF assms(1)] and fb = format_int_digits [OF b]
  have p: "parse_int (format_int a) = Some a" "parse_int (format_int b) = Some b"
    using assms b by (auto intro!: parse_int_format)
  have cp: "cut_prefix (''bytes='' @ format_int a @ ''-'' @ format_int b) ''bytes='' = Some (format_int a @ CHR ''-'' # format_int b)"
    by (subst cut_prefix_Some) simp
  have ct: "cut_at (CHR ''-'') (format_int a @ CHR ''-'' # format_int b) = (format_int a, Some (format_int b))"
    by (rule cut_at_append) (rule fa(2))
  have "CHR '','' \<notin> set (format_int a @ CHR ''-'' # format_int b)" using fa fb by simp
  then show ?thesis
    unfolding parseRange_def cp option.case ct prod.case using fa(1) fb(1) p assms by (auto simp: Let_def min_def)
qed

lemma range_header:
  assumes "0 \<le> off" "0 < n" "off + n < 2 ^ 63"
  shows "val_get (sent_header (range_request key off n)) ''Range'' = ''bytes='' @ format_int off @ ''-'' @ format_int (off + n - 1)"
proof -
  have k: "CanonicalHeaderKey ''Range'' = ''Range''" by code_simp
  have "wrap64 (off + n) = off + n" "wrap64 (off + n - 1) = off + n - 1"
    by (rule wrap64_small; use assms in simp)+
  then show ?thesis
    by (simp add: sent_header_def range_request_def bare_request_def k val_add_def val_has_def val_get_def val_all_def)
qed

text \<open>The store has these bytes under the key.\<close>

definition stored_as :: "store \<Rightarrow> string \<Rightarrow> string \<Rightarrow> string \<Rightarrow> bool" where
  "stored_as s b k d \<longleftrightarrow>
     (\<exists>e. store_Head b k s = Inr e \<and> e_size e = of_nat (length d) \<and> blob_open (e_hash e) (s_blobs s) = Inr d)"

lemma GetRange_reads:
  assumes E: "env_ok E" "\<And>k m. cr_hmac C k m \<noteq> []" and cl: "client_of sv c" "url_key c key" "in_time C now (rs_now rs)"
    and st: "stored_as (sv_store sv) (cl_bucket c) key d" "int (length d) < 2 ^ 63"
    and r: "0 \<le> sint off" "0 < sint n" "sint off + sint n \<le> int (length d)"
  shows "cli_GetRange E C H c now rs sv key off n = Inr (take (nat (sint n)) (drop (nat (sint off)) d), None)"
proof -
  let ?q = "range_request key (sint off) (sint n)"
  have q: "cq_key ?q = key" "cq_query ?q = []" "cq_method ?q = ''GET''" by (simp_all add: range_request_def bare_request_def)
  have kq: "url_key c (cq_key ?q)" using cl(2) q by simp
  obtain req where req: "cli_request E C c now ?q = Some req" "splitPath (rq_path req) = (cl_bucket c, key)"
    "val_get (rq_header req) ''Range'' = val_get (sent_header ?q) ''Range''"
    "route E C H rs req (cl_bucket c) key sv = getObject H (rs_sys rs 0) req (cl_bucket c) key True (sv_store sv)"
    by (rule client_read_served [OF E cl(1) kq cl(3) q(2,3), of H]) (simp add: q)
  have hd: "val_get (rq_header req) ''Range'' = ''bytes='' @ format_int (sint off) @ ''-'' @ format_int (sint off + sint n - 1)"
    unfolding req(3) by (rule range_header) (use r st(2) in simp_all)
  obtain e where e: "store_Head (cl_bucket c) key (sv_store sv) = Inr e" "e_size e = of_nat (length d)"
    "blob_open (e_hash e) (s_blobs (sv_store sv)) = Inr d" using st(1) by (auto simp: stored_as_def)
  have sz: "sint (e_size e) = int (length d)" using e(2) st(2) by (simp add: signed_of_nat signed_take_bit_int_eq_self)
  have pr: "parseRange (val_get (rq_header req) ''Range'') (sint (e_size e)) = Inr (sint off, sint n, True)"
    unfolding hd sz using r st(2) by (subst parseRange_span) auto
  obtain h s' where g: "getObject H (rs_sys rs 0) req (cl_bucket c) key True (sv_store sv) =
      (s', h, Inr (206, Bytes (take (nat (sint n)) (drop (nat (sint off)) d))))"
    using e pr by (auto simp: getObject_def store_Get_def Let_def)
  obtain sv' resp al where sv: "ServeHTTP E C H rs req sv = (sv', resp, al)" by (metis prod.exhaust)
  obtain h2 out where rt: "route E C H rs req (cl_bucket c) key sv = (sv_store sv', h2, out)"
    "(case out of Inl e \<Rightarrow> writeError H req e h2 | Inr w \<Rightarrow> (h2, w)) = (ht_headers resp, ht_status resp, ht_body resp)"
    by (rule ServeHTTP_route [OF sv req(2)])
  have "ht_status resp = 206" "ht_body resp = Bytes (take (nat (sint n)) (drop (nat (sint off)) d))"
    using rt req(4) g by auto
  then show ?thesis
    by (simp add: cli_GetRange_def Let_def req(1) sv read_listed_def cli_outcome_def body_bytes_def)
qed

text \<open>A read of the mount is the read of the file.\<close>

lemma word_of_nonneg:
  fixes x :: i64
  assumes "x = word_of_int i" "0 \<le> i" "i < 2 ^ 63"
  shows "sint x = i" "unat x = nat i"
proof -
  show "sint x = i" using assms by (simp add: signed_of_int signed_take_bit_int_eq_self)
  have "uint x = i" using assms by (simp add: unsigned_of_int take_bit_int_eq_self)
  then show "unat x = nat i" by (simp add: unat_eq_nat_uint)
qed

lemma remoteFile_Read_reads:
  assumes E: "env_ok E" "\<And>k m. cr_hmac C k m \<noteq> []" and cl: "client_of sv c" "url_key c key" "in_time C now (rs_now rs)"
    and st: "stored_as (sv_store sv) (cl_bucket c) key d" "int (length d) < 2 ^ 63" "len = of_nat (length d)"
    and off: "0 \<le> sint off"
  shows "remoteFile_Read (cli_GetRange E C H c now rs sv) key len n off = Inr (take n (drop (nat (sint off)) d))"
proof (cases "sint len \<le> sint off")
  case True
  have "sint len = int (length d)" using st by (simp add: signed_of_nat signed_take_bit_int_eq_self)
  with True show ?thesis by (simp add: remoteFile_Read_def)
next
  case False
  have len: "sint len = int (length d)" using st by (simp add: signed_of_nat signed_take_bit_int_eq_self)
  have df: "len - off = word_of_int (sint len - sint off)" by simp
  note w = word_of_nonneg [OF df] len False off st(2)
  define m where "m = (if sint (len - off) < int n then unat (len - off) else n)"
  have m: "m = min n (length d - nat (sint off))" "int m < 2 ^ 63" "sint off + int m \<le> int (length d)"
    using w by (auto simp: m_def min_def)
  have tk: "take m (drop (nat (sint off)) d) = take n (drop (nat (sint off)) d)"
    using m(1) by (simp add: min_def)
  show ?thesis
  proof (cases "m = 0")
    case True
    then show ?thesis using False tk by (simp add: remoteFile_Read_def Let_def flip: m_def) (simp add: ReadRemoteAt_def)
  next
    case m0: False
    have sm: "sint (of_nat m :: i64) = int m" using m(2) by (simp add: signed_of_nat signed_take_bit_int_eq_self)
    have "cli_GetRange E C H c now rs sv key off (of_nat m) = Inr (take m (drop (nat (sint off)) d), None)"
      by (subst GetRange_reads [OF E cl st(1,2) off]) (use sm m m0 in simp_all)
    moreover have "m \<le> length (take m (drop (nat (sint off)) d))" using m by simp
    ultimately have "ReadRemoteAt (cli_GetRange E C H c now rs sv) key m off = (take m (drop (nat (sint off)) d), None)"
      using m0 by (simp add: ReadRemoteAt_def)
    then show ?thesis using False tk by (simp add: remoteFile_Read_def Let_def flip: m_def)
  qed
qed

subsection \<open>Eviction does not show\<close>

text \<open>What an eviction that succeeded did to an uploaded file and its entry.\<close>

lemma Evict_done:
  assumes inv: "agent_inv E a" and e: "agent_Entry a k = Inr (Some e)" "e_state e = Synced"
    and ev: "agent_Evict E as k a = (a', None)"
  shows "bk_get (ag_disk a') (agent_path a' k) = None" "\<exists>t. agent_Entry a' k = Inr (Some (e\<lparr>e_state := Evicted, e_atime := t\<rparr>))"
proof -
  have g: "db_get (agent_ns a) k (ag_db a) = Inr (Some e)" using e(1) by (simp add: agent_Entry_def)
  from db_get_view_some [OF inv g] obtain e0 t0 where e0: "ag_view a k = Some e0" "e = e0\<lparr>e_atime := t0\<rparr>" .
  have dinv: "db_inv (ag_db a)" using inv by (simp add: agent_inv_def)
  obtain d u where d: "db_setState E (as_commit as k) (agent_ns a) k Evicted (ag_db a) = (d, Inr u)"
    "a' = (a\<lparr>ag_disk := bk_del (agent_path a k) (ag_disk a)\<rparr>)\<lparr>ag_db := d\<rparr>"
    using ev g e(2) by (auto simp: agent_Evict_def st_safe_def Let_def split: if_splits prod.splits sum.splits)
  show "bk_get (ag_disk a') (agent_path a' k) = None" by (simp add: d(2) agent_path_def)
  note v = db_setState_view [OF dinv d(1)]
  have w: "db_view d (agent_ns a, k) = Some (e0\<lparr>e_state := Evicted\<rparr>)" using v(2) e0(1) by (simp add: ag_view_def)
  obtain r where r: "db_get (agent_ns a) k d = Inr r" "atime_only (db_view d (agent_ns a, k)) r" using db_get_view [OF v(1)] by blast
  have "db_view d (agent_ns a, k) \<noteq> None" using w by simp
  then obtain e1 t where "r = Some e1" "e1 = (e0\<lparr>e_state := Evicted\<rparr>)\<lparr>e_atime := t\<rparr>"
    using db_get_safe [OF v(1) r(1)] w by (cases r) auto
  then have "agent_Entry a' k = Inr (Some (e\<lparr>e_state := Evicted, e_atime := t\<rparr>))"
    using r(1) by (simp add: agent_Entry_def d(2) e0(2))
  then show "\<exists>t. agent_Entry a' k = Inr (Some (e\<lparr>e_state := Evicted, e_atime := t\<rparr>))" ..
qed

lemma fillAttr_fields:
  "at_size (fillAttr e) = e_size e" "at_mtime (fillAttr e) = of_int (unix_secs (e_mtime e))"
  "fillAttr (e\<lparr>e_state := s, e_atime := t\<rparr>) = fillAttr e"
  by (simp_all add: fillAttr_def Let_def)

text \<open>
  C37: eviction does not show.  After an uploaded, unchanged file is evicted its bytes are off
  the disk, yet the mount still finds it under its name, reports the size and the time of the
  file it was, and a reader whose reads are not to populate the cache gets, at any offset and
  length, exactly the bytes of the file, read through the client and the front end out of the
  store of the bucket.
\<close>

theorem evicted_file_reads_the_same:
  assumes inv: "agent_inv E a" and e: "agent_Entry a k = Inr (Some e)" "e_state e = Synced"
    and f: "bk_get (ag_disk a) (agent_path a k) = Some f" "matches e f" "int (length (lf_data f)) < 2 ^ 63"
    and ev: "agent_Evict E as k a = (a', None)" and k: "key_join dir name = k"
    and sv: "env_ok Es" "\<And>k m. cr_hmac C k m \<noteq> []" "client_of sv c" "url_key c k" "in_time C now (rs_now rs)"
    and held: "bk_get (ag_remote a) k = Some d" "stored_as (sv_store sv) (cl_bucket c) k d"
    and reader: "flags AND write_flags = 0" "\<not> shouldPopulate m caller"
  shows "\<exists>attr b len. bk_get (ag_disk a') (agent_path a' k) = None \<and>
    node_Lookup (Inl ENOENT) a' dir name = Inr (FromIndex k attr (inodeOf k)) \<and> node_Getattr (Inl ENOENT) a' k = Inr attr \<and>
    at_size attr = lf_size f \<and> at_mtime attr = of_int (unix_secs (lf_mtime f)) \<and>
    node_Open E as joined m caller flags below k a' = (b, Inr (RemoteFile k len)) \<and>
    (\<forall>n off. 0 \<le> sint off \<longrightarrow>
       remoteFile_Read (cli_GetRange Es C H c now rs sv) k len n off = Inr (take n (drop (nat (sint off)) (lf_data f))))"
proof -
  obtain t where e': "agent_Entry a' k = Inr (Some (e\<lparr>e_state := Evicted, e_atime := t\<rparr>))"
    using Evict_done(2) [OF inv e ev] by blast
  have g: "db_get (agent_ns a) k (ag_db a) = Inr (Some e)" using e(1) by (simp add: agent_Entry_def)
  from db_get_view_some [OF inv g] obtain e0 t0 where e0: "ag_view a k = Some e0" "e = e0\<lparr>e_atime := t0\<rparr>" .
  have "held_fast a k e0" using inv e0 e(2) by (auto simp: agent_inv_def st_safe_def)
  then have fd: "lf_data f = d" using f e0 held(1) by (auto simp: held_fast_def matches_def)
  have len: "e_size e = of_nat (length d)" using f(2) fd by (simp add: matches_def lf_size_def)
  have "remoteFile_Read (cli_GetRange Es C H c now rs sv) k (e_size e) n off = Inr (take n (drop (nat (sint off)) (lf_data f)))"
    if "0 \<le> sint off" for n off
    unfolding fd by (rule remoteFile_Read_reads [OF sv]) (use held f(3) fd len that in auto)
  moreover have "node_Lookup (Inl ENOENT) a' dir name = Inr (FromIndex k (fillAttr e) (inodeOf k))"
    by (simp add: node_Lookup_def k e' st_local_def fillAttr_fields)
  moreover have "node_Getattr (Inl ENOENT) a' k = Inr (fillAttr e)" by (simp add: node_Getattr_def e' fillAttr_fields)
  moreover have "node_Open E as joined m caller flags below k a' = (agent_Touch as k a', Inr (RemoteFile k (e_size e)))"
    using reader by (simp add: node_Open_def e' st_local_def Let_def)
  ultimately show ?thesis
    using Evict_done(1) [OF inv e ev] f(2)
    by (intro exI [of _ "fillAttr e"] exI [of _ "agent_Touch as k a'"] exI [of _ "e_size e"]) (auto simp: fillAttr_fields matches_def)
qed

lemma stored_after_put:
  assumes "env_ok E" "store_inv E s" "in_step E s" "put_ready E sy b k (d, None) opt s" "no_collision E (s_blobs s) d"
    and put: "store_PutWith E sy b k (d, None) opt s = (s', Inr e)"
  shows "stored_as s' b k d"
proof -
  note p = PutWith_effect [OF assms(1-4) put]
  have bk: "store_Bucket s' b \<noteq> None"
    using PutWith_Inr [OF put] p(5) by (auto simp: store_Bucket_def)
  have v: "store_spec E s' (b, k) = Some (put_value E sy (d, None) opt)" by (simp add: p(3))
  have at: "blob_at (s_blobs s') (e_hash e) = Some d" "e_hash e = ov_hash (put_value E sy (d, None) opt)"
    using p(4,6) assms(5) by (simp_all, metis objval.select_convs(1) objval_of_def)
  from Get_spec [OF p(1) caught_up_in_step [OF p(1,2)] bk v] at obtain s2 e2 where
    g: "store_Get sy b k s' = (s2, Inr (e2, d))" "objval_of e2 = put_value E sy (d, None) opt" by fastforce
  then have "store_Head b k s' = Inr e2" "blob_open (e_hash e2) (s_blobs s') = Inr d"
    by (auto simp: store_Get_def split: sum.splits)
  moreover have "e_size e2 = of_nat (length d)" using g(2) by (simp add: objval_of_def put_value_def)
  ultimately show ?thesis by (auto simp: stored_as_def)
qed

theorem evicted_file_reads_the_same_witness:
  "\<exists>sv a' b len. agent_Evict demo_wide_env demo_agentsys ''a'' demo_agent = (a', None) \<and>
     node_Open demo_wide_env demo_agentsys None (mount_New 33) (Some 34) 0 (\<lambda>_. ENOENT) ''a'' a' = (b, Inr (RemoteFile ''a'' len)) \<and>
     remoteFile_Read (cli_GetRange demo_env demo_crypto demo_http demo_client 7 demo_rs sv) ''a'' len 3 1 = Inr ''ell''"
proof -
  obtain s e where put: "store_PutWith demo_env (rs_sys demo_rs 0) (cl_bucket demo_client) ''a'' (''hello'', None)
     (upload_opts demo_env (rs_now demo_rs) ''hello'') (sv_store demo_server) = (s, Inr e)" using demo_key_stored [of "''a''"] by auto
  have s0: "store_inv demo_env (sv_store demo_server)" "in_step demo_env (sv_store demo_server)" by (simp_all add: demo_server_def)
  have ready: "put_ready demo_env (rs_sys demo_rs 0) (cl_bucket demo_client) ''a'' (''hello'', None)
     (upload_opts demo_env (rs_now demo_rs) ''hello'') (sv_store demo_server)" by (rule demo_key_ready) simp_all
  define sv where "sv = \<lparr>sv_store = s, sv_region = ''tana''\<rparr>"
  have st: "stored_as (sv_store sv) (cl_bucket demo_client) ''a'' ''hello''"
    using stored_after_put [OF demo_env_ok s0 ready demo_no_collision put] by (simp add: sv_def)
  have cl: "client_of sv demo_client"
    using demo_client_of PutWith_effect(5) [OF demo_env_ok s0 ready put]
    by (simp add: sv_def client_of_def store_Bucket_def BucketByAccessKey_def demo_server_def)
  have ky: "url_key demo_client ''a''" by code_simp
  have ent: "agent_Entry demo_agent ''a'' = Inr (Some demo_media_entry)" by code_simp
  have sy: "e_state demo_media_entry = Synced" by (simp add: demo_media_entry_def)
  have fl: "bk_get (ag_disk demo_agent) (agent_path demo_agent ''a'') = Some demo_file" by code_simp
  have mt: "matches demo_media_entry demo_file" by (simp add: matches_def demo_media_entry_def demo_file_def lf_size_def)
  have ln: "int (length (lf_data demo_file)) < 2 ^ 63" by (simp add: demo_file_def)
  have "snd (agent_Evict demo_wide_env demo_agentsys ''a'' demo_agent) = None" by code_simp
  then obtain a' where ev: "agent_Evict demo_wide_env demo_agentsys ''a'' demo_agent = (a', None)" by (metis prod.collapse)
  have kj: "key_join [] ''a'' = ''a''" by code_simp
  have rm: "bk_get (ag_remote demo_agent) ''a'' = Some ''hello''" by code_simp
  have rd: "(0 :: u32) AND write_flags = 0" "\<not> shouldPopulate (mount_New 33) (Some 34)"
    by (simp_all add: shouldPopulate_def mount_New_def)
  from evicted_file_reads_the_same [where joined = None and below = "\<lambda>_. ENOENT" and H = demo_http,
      OF demo_agent_inv ent sy fl mt ln ev kj demo_env_ok demo_total(1) cl ky demo_in_time rm st rd]
  obtain b len where r: "node_Open demo_wide_env demo_agentsys None (mount_New 33) (Some 34) 0 (\<lambda>_. ENOENT) ''a'' a' = (b, Inr (RemoteFile ''a'' len))"
    "\<forall>n off. 0 \<le> sint off \<longrightarrow> remoteFile_Read (cli_GetRange demo_env demo_crypto demo_http demo_client 7 demo_rs sv) ''a'' len n off =
       Inr (take n (drop (nat (sint off)) (lf_data demo_file)))" by (elim exE conjE)
  have "remoteFile_Read (cli_GetRange demo_env demo_crypto demo_http demo_client 7 demo_rs sv) ''a'' len 3 1 = Inr ''ell''"
    using r(2) [rule_format, of 1 3] by (simp add: demo_file_def)
  with ev r(1) show ?thesis by blast
qed

subsection \<open>A directory that is listed and not found\<close>

text \<open>
  A directory that is gone from the disk while it holds evicted objects is listed in its
  parent, as \<open>EvictedChildren\<close> promises, but its lookup asks the index for an object of
  that name and answers that it does not exist.
\<close>

lemma implied_directory_is_not_found:
  assumes "agent_Entry a (key_join dir name) = Inr None"
  shows "node_Lookup (Inl ENOENT) a dir name = Inl ENOENT"
  using assms by (simp add: node_Lookup_def Let_def)

definition demo_nested :: agent where
  "demo_nested = demo_agent\<lparr>ag_db := \<lparr>db_file = idx_empty\<lparr>ix_objs := [(''agent:one'', [(''2019/a'',
     Enc (demo_media_entry\<lparr>e_key := ''2019/a'', e_state := Evicted\<rparr>))])]\<rparr>, db_pending = []\<rparr>, ag_disk := []\<rparr>"

lemma listed_directory_is_not_found:
  "(case node_Readdir (Inr ([], 0)) demo_nested [] of Inr (ds, _) \<Rightarrow> map dn_name ds | Inl _ \<Rightarrow> []) = [''2019''] \<and>
   node_Lookup (Inl ENOENT :: nat + nat) demo_nested [] ''2019'' = Inl ENOENT"
  by code_simp

end
