(* ===== verification/SingleBox.thy ===== *)
theory SingleBox
  imports ServerFrame Gc AgentProps
begin

text \<open>
  Both roles on one machine share one index file.  The agent of a site writes the entries of
  its own namespace only, whatever fails; the store writes the entries of its buckets, the
  reference records and the metadata.  So neither role can break what the other one promises.
\<close>

subsection \<open>What the agent does to the shared index\<close>

definition stays_in :: "string \<Rightarrow> db \<Rightarrow> db \<Rightarrow> bool" where
  "stays_in ns d d' \<longleftrightarrow>
     (db_inv d \<longrightarrow>
        db_inv d' \<and> ix_refs (db_file d') = ix_refs (db_file d) \<and> ix_meta (db_file d') = ix_meta (db_file d) \<and>
        (\<forall>p. fst p \<noteq> ns \<longrightarrow> atime_only (db_view d p) (db_view d' p)))"

lemma stays_refl [intro, simp]: "stays_in ns d d"
  by (simp add: stays_in_def)

lemma stays_trans [trans]: "stays_in ns d e \<Longrightarrow> stays_in ns e f \<Longrightarrow> stays_in ns d f"
  unfolding stays_in_def using atime_only_trans by auto metis

lemma stays_pending: "db_file d' = db_file d \<Longrightarrow> stays_in ns d d'"
  by (simp add: stays_in_def db_inv_def db_view_def)

lemma stays_update:
  assumes "db_update ok body d = (d', r)"
    and "\<And>q x. idx_inv (db_file d) \<Longrightarrow> body (db_file d) = Inr (q, x) \<Longrightarrow>
      idx_inv x \<and> ix_refs x = ix_refs (db_file d) \<and> ix_meta x = ix_meta (db_file d) \<and>
      (\<forall>p. fst p \<noteq> ns \<longrightarrow> ix_lookup x p = ix_lookup (db_file d) p)"
  shows "stays_in ns d d'"
proof -
  have "db_file d' = db_file d \<or> (\<exists>q. body (db_file d) = Inr (q, db_file d'))"
    using assms(1) by (auto simp: db_update_def split: sum.splits prod.splits if_splits)
  then show ?thesis using assms(2) by (auto simp: stays_in_def db_inv_def db_view_def)
qed

lemma stays_put:
  assumes "db_put E ok now ns e d = (d', r)"
  shows "stays_in ns d d'"
proof (rule stays_update [OF assms [unfolded db_put_def]])
  fix q :: unit and x assume i: "idx_inv (db_file d)" and "unit_tx (tx_put E now ns e) (db_file d) = Inr (q, x)"
  then have "tx_put E now ns e (db_file d) = Inr x" by (simp add: unit_tx_def res_bind_Inr)
  note t = tx_put_Inr [OF i this]
  show "idx_inv x \<and> ix_refs x = ix_refs (db_file d) \<and> ix_meta x = ix_meta (db_file d) \<and>
      (\<forall>p. fst p \<noteq> ns \<longrightarrow> ix_lookup x p = ix_lookup (db_file d) p)"
    unfolding t(2-4) using t(1) by auto
qed

lemma stays_setState:
  assumes "db_setState E ok ns k st d = (d', r)"
  shows "stays_in ns d d'"
proof (rule stays_update [OF assms [unfolded db_setState_def]])
  fix q x assume i: "idx_inv (db_file d)" and "tx_setState E ns k st (db_file d) = Inr (q, x)"
  note t = tx_setState_Inr [OF this]
  show "idx_inv x \<and> ix_refs x = ix_refs (db_file d) \<and> ix_meta x = ix_meta (db_file d) \<and>
      (\<forall>p. fst p \<noteq> ns \<longrightarrow> ix_lookup x p = ix_lookup (db_file d) p)"
    unfolding t(3-5) using t(1) by auto
qed

lemma stays_delete:
  assumes "db_delete E ok ns k d = (d', r)"
  shows "stays_in ns d d'"
proof -
  define d0 where "d0 = (case bk_get (db_pending d) ns of None \<Rightarrow> d | Some m \<Rightarrow> d\<lparr>db_pending := bk_put ns (bk_del k m) (db_pending d)\<rparr>)"
  have "stays_in ns d d0" by (rule stays_pending) (simp add: d0_def split: option.split)
  also have "db_update ok (unit_tx (\<lambda>x. res_bind (tx_delete E ns k x) (\<lambda>(_, x'). Inr x'))) d0 = (d', r)"
    using assms by (simp add: db_delete_def d0_def)
  then have "stays_in ns d0 d'"
  proof (rule stays_update)
    fix q :: unit and x assume i: "idx_inv (db_file d0)"
      and "unit_tx (\<lambda>x. res_bind (tx_delete E ns k x) (\<lambda>(_, x'). Inr x')) (db_file d0) = Inr (q, x)"
    then obtain old where "tx_delete E ns k (db_file d0) = Inr (old, x)" by (auto simp: unit_tx_def res_bind_Inr)
    note t = tx_delete_Inr [OF i this]
    show "idx_inv x \<and> ix_refs x = ix_refs (db_file d0) \<and> ix_meta x = ix_meta (db_file d0) \<and>
        (\<forall>p. fst p \<noteq> ns \<longrightarrow> ix_lookup x p = ix_lookup (db_file d0) p)"
      unfolding t(3-5) using t(1) by auto
  qed
  finally show ?thesis .
qed

lemma stays_touch [simp]: "stays_in ns d (db_touch ns' k t d)"
  by (rule stays_pending) (simp add: db_touch_def Let_def)

lemma stays_flush: "stays_in ns d (db_flushATimes E ok d)"
  by (simp add: stays_in_def db_flush_inv db_flush_view)

definition keeps_out :: "agent \<Rightarrow> agent \<Rightarrow> bool" where
  "keeps_out a a' \<longleftrightarrow> ag_site a' = ag_site a \<and> stays_in (agent_ns a) (ag_db a) (ag_db a')"

lemma keeps_refl [intro, simp]: "keeps_out a a"
  by (simp add: keeps_out_def)

lemma keeps_trans [trans]: "keeps_out a b \<Longrightarrow> keeps_out b c \<Longrightarrow> keeps_out a c"
  unfolding keeps_out_def using stays_trans agent_same_site(1) by metis

lemma keeps_same_db: "ag_site a' = ag_site a \<Longrightarrow> ag_db a' = ag_db a \<Longrightarrow> keeps_out a a'"
  by (simp add: keeps_out_def)

lemma keeps_db: "stays_in (agent_ns a) (ag_db a) d \<Longrightarrow> keeps_out a (a\<lparr>ag_db := d\<rparr>)"
  by (simp add: keeps_out_def)

lemma keeps_files: "keeps_out (a\<lparr>ag_disk := f\<rparr>) b \<Longrightarrow> keeps_out a b"
  by (simp add: keeps_out_def)

lemma Enqueue_keeps: "keeps_out a b \<Longrightarrow> keeps_out a (Enqueue k b)"
  by (simp add: keeps_out_def)

lemma fold_Enqueue_keeps: "keeps_out a b \<Longrightarrow> keeps_out a (fold Enqueue ks b)"
  by (induction ks arbitrary: b) (auto intro: Enqueue_keeps)

lemma upload_keeps: "keeps_out a (agent_upload E as key a)"
proof -
  obtain a1 r ws where u: "upload_attempts as key maxAttempts 1 baseBackoff a = (a1, r, ws)" by (metis prod.exhaust)
  have k: "keeps_out a a1" by (rule keeps_same_db) (use upload_attempts_effect [OF u] in simp_all)
  obtain d q where d: "db_setState E (as_commit as key) (agent_ns a1) key Synced (ag_db a1) = (d, q)" by force
  have "keeps_out a (a1\<lparr>ag_db := d\<rparr>)" by (rule keeps_trans [OF k keeps_db [OF stays_setState [OF d]]])
  then show ?thesis using k u d
    by (auto simp: agent_upload_def split: sum.splits option.splits upload_result.splits)
qed

lemma worker_keeps: "keeps_out a (worker_turn E as a)"
proof (cases "ag_queue a")
  case (Cons key rest)
  have "keeps_out a (a\<lparr>ag_queue := rest\<rparr>)" by (simp add: keeps_same_db)
  also have "keeps_out (a\<lparr>ag_queue := rest\<rparr>) (agent_upload E as key (a\<lparr>ag_queue := rest\<rparr>))" by (rule upload_keeps)
  finally show ?thesis using Cons by (simp add: worker_turn_def Let_def keeps_out_def)
qed (simp add: worker_turn_def)

lemma sweep_keeps: "keeps_out a (sweep_tick a)"
  by (auto simp: sweep_tick_def intro: fold_Enqueue_keeps split: prod.splits option.splits)

lemma index_file_keeps: "index_file E as key f a = (a', r) \<Longrightarrow> keeps_out a a'"
  by (auto simp: index_file_def intro!: Enqueue_keeps keeps_db split: prod.splits sum.splits dest: stays_put)

lemma scan_file_keeps: "keeps_out (fst s) (fst (fst (scan_file E as pf s)))"
  by (cases s) (auto simp: scan_file_def Let_def split: option.splits sum.splits prod.splits if_splits dest: index_file_keeps)

lemma remove_keeps: "agent_remove E as key a = (a', ok) \<Longrightarrow> keeps_out a a'"
proof -
  assume r: "agent_remove E as key a = (a', ok)"
  obtain a1 e where c: "cli_Delete (as_send as key 0) key a = (a1, e)" by force
  have k: "keeps_out a a1" by (rule keeps_same_db) (use c in \<open>auto simp: cli_Delete_def split: net.splits if_splits\<close>)
  obtain d q where d: "db_delete E (as_commit as key) (agent_ns a1) key (ag_db a1) = (d, q)" by force
  have "keeps_out a (a1\<lparr>ag_db := d\<rparr>)" by (rule keeps_trans [OF k keeps_db [OF stays_delete [OF d]]])
  then show ?thesis using r c d k by (auto simp: agent_remove_def split: option.splits sum.splits)
qed

lemma remove_gone_keeps: "keeps_out (fst s) (fst (remove_gone E as keys s))"
proof (induction keys arbitrary: s)
  case (Cons key keys)
  obtain a ok where r: "agent_remove E as key (fst s) = (a, ok)" by force
  note remove_keeps [OF r]
  also note Cons.IH [of "(a, if ok then Suc (snd s) else snd s)", unfolded fst_conv]
  finally show ?case using r by simp
qed simp

lemma Scan_keeps: "keeps_out a (fst (agent_Scan E as a))"
proof -
  obtain a1 st seen e where f: "fold_cb (scan_file E as) (backing_files a)
      (a, \<lparr>ss_files = 0, ss_new = 0, ss_changed = 0, ss_removed = 0\<rparr>, []) = ((a1, st, seen), e)" by (metis prod.exhaust)
  have "keeps_out a (fst (fst (fold_cb (scan_file E as) (backing_files a)
      (a, \<lparr>ss_files = 0, ss_new = 0, ss_changed = 0, ss_removed = 0\<rparr>, []))))"
    by (rule fold_cb_inv [where P = "\<lambda>s. keeps_out a (fst s)"]) (auto intro: keeps_trans scan_file_keeps)
  then have k: "keeps_out a a1" by (simp add: f)
  show ?thesis
  proof (cases e)
    case None
    obtain gone g where w: "ix_walk (agent_ns a1)
        (\<lambda>e gone. (if e_key e \<notin> set seen \<and> st_local (e_state e) then gone @ [e_key e] else gone, None))
        (db_file (ag_db a1)) [] = (gone, g)" by force
    obtain a2 n where r: "remove_gone E as gone (a1, 0) = (a2, n)" by force
    have "keeps_out a a2" using keeps_trans [OF k] remove_gone_keeps [of "(a1, 0)" E as gone] r by simp
    then show ?thesis using f None w r k by (auto simp: agent_Scan_def split: option.splits)
  qed (use f k in \<open>simp add: agent_Scan_def\<close>)
qed

lemma event_keeps: "keeps_out a (handleEvent E as ev a)"
proof -
  have i: "keeps_out a (fst (index_file E as key f a))" for key f
    by (cases "index_file E as key f a") (simp add: index_file_keeps)
  show ?thesis by (auto simp: handleEvent_def intro: Enqueue_keeps Scan_keeps i split: option.splits fstat.splits)
qed

lemma recall_fetch_keeps: "keeps_out a (fst (recall_fetch E as key e a))"
proof -
  have "keeps_out a (a\<lparr>ag_disk := f, ag_db := d\<rparr>)" if "db_setState E ok (agent_ns a) key Synced (ag_db a) = (d, q)" for f d q ok
    using stays_setState [OF that] by (simp add: keeps_out_def)
  moreover have "keeps_out a (a\<lparr>ag_disk := f, ag_db := db_touch (agent_ns a) key t d\<rparr>)"
    if "db_setState E ok (agent_ns a) key Synced (ag_db a) = (d, q)" for f d q ok t
    using stays_trans [OF stays_setState [OF that] stays_touch] by (simp add: keeps_out_def)
  moreover have "keeps_out a (a\<lparr>ag_disk := f\<rparr>)" for f by (simp add: keeps_out_def)
  ultimately show ?thesis
    by (auto simp: recall_fetch_def Let_def split: sum.splits prod.splits)
qed

lemma Recall_keeps: "keeps_out a (fst (agent_Recall E as None key a))"
  by (auto simp: agent_Recall_def intro: recall_fetch_keeps split: sum.splits option.splits)

lemma Evict_keeps: "keeps_out a (fst (agent_Evict E as key a))"
proof -
  have "keeps_out a (a\<lparr>ag_disk := f, ag_db := d\<rparr>)" if "db_setState E ok (agent_ns a) key Evicted (ag_db a) = (d, q)" for f d q ok
    using stays_setState [OF that] by (simp add: keeps_out_def)
  then show ?thesis by (auto simp: agent_Evict_def Let_def split: sum.splits option.splits prod.splits)
qed

lemma evict_loop_keeps: "keeps_out (fst s) (fst (evict_loop E as target cs s))"
proof (induction cs arbitrary: s)
  case (Cons c cs)
  obtain a r where e: "agent_Evict E as (cd_key c) (fst s) = (a, r)" by force
  have k: "keeps_out (fst s) a" using Evict_keeps [of "fst s" E as "cd_key c"] e by simp
  have "keeps_out (fst s) (fst (evict_loop E as target cs (a, st)))" for st
    using keeps_trans [OF k] Cons.IH [of "(a, st)"] by simp
  then show ?case using e by (cases r) auto
qed simp

lemma Fit_keeps: "keeps_out a (fst (EvictToFit E as free a))"
proof -
  have "keeps_out a (fst (evict_loop E as target cs (a, st)))" for target cs st
    using evict_loop_keeps [of "(a, st)"] by simp
  then have "keeps_out a a1" if "evict_loop E as target cs (a, st) = (a1, st1)" for target cs st a1 st1
    using that by (metis fst_conv)
  then show ?thesis by (auto simp: EvictToFit_def Let_def split: sum.splits prod.splits option.splits)
qed

lemma Pin_keeps: "keeps_out a (fst (agent_Pin E as key pinned a))"
proof -
  let ?body = "unit_tx (\<lambda>x. res_bind (tx_get (agent_ns a) key x) (\<lambda>r.
      case r of None \<Rightarrow> Inl ErrNotExist | Some e \<Rightarrow> tx_put E (as_now as) (agent_ns a) (e\<lparr>e_pinned := pinned\<rparr>) x))"
  obtain d q where d: "db_update (as_commit as key) ?body (ag_db a) = (d, q)" by force
  have "stays_in (agent_ns a) (ag_db a) d"
  proof (rule stays_update [OF d])
    fix q :: unit and x assume i: "idx_inv (db_file (ag_db a))" and "?body (db_file (ag_db a)) = Inr (q, x)"
    then obtain e where "tx_put E (as_now as) (agent_ns a) e (db_file (ag_db a)) = Inr x"
      by (auto simp: unit_tx_def res_bind_Inr split: option.splits)
    note t = tx_put_Inr [OF i this]
    show "idx_inv x \<and> ix_refs x = ix_refs (db_file (ag_db a)) \<and> ix_meta x = ix_meta (db_file (ag_db a)) \<and>
        (\<forall>p. fst p \<noteq> agent_ns a \<longrightarrow> ix_lookup x p = ix_lookup (db_file (ag_db a)) p)"
      unfolding t(2-4) using t(1) by auto
  qed
  then show ?thesis using d by (auto simp: agent_Pin_def keeps_out_def split: sum.splits)
qed

lemmas agent_keeps = worker_keeps sweep_keeps Scan_keeps event_keeps Recall_keeps Evict_keeps Fit_keeps Pin_keeps

lemma agent_step_keeps: "agent_step E a a' \<Longrightarrow> keeps_out a a'"
  by (induction rule: agent_step.induct) (simp_all add: agent_keeps agent_Touch_def keeps_db stays_flush keeps_same_db)

subsection \<open>The store beside an agent\<close>

definition store_good :: "env \<Rightarrow> store \<Rightarrow> bool" where
  "store_good E s \<longleftrightarrow> store_inv E s \<and> in_step E s \<and> refs_inv (db_file (s_db s))"

lemma store_good_db:
  assumes "store_good E s" "appliedSeq d = appliedSeq (s_db s)" "sabs (db_file d) = sabs (db_file (s_db s))"
    and "rec_index_ok E (db_file d)" "refs_inv (db_file d)"
  shows "store_good E (s\<lparr>s_db := d\<rparr>)"
  using assms by (auto simp: store_good_def store_inv_def in_step_def store_spec_def)

lemma atime_only_hash: "atime_only a b \<Longrightarrow> map_option objval_of b = map_option objval_of a \<and> map_option e_hash b = map_option e_hash a"
  by (cases a; cases b) (auto simp: atime_only_def objval_of_def, (metis entry.ext_inject entry.surjective entry.update_convs(8))+)

lemma agent_scope [simp]: "agent_ns a \<noteq> store_ns b" "\<not> InScope (agent_ns a) ScopeStore"
  by (simp_all add: agent_ns_def store_ns_def ix_namespace_def ScopeAgent_def ScopeStore_def InScope_def has_prefix_iff)

lemma index_beside_agent:
  assumes x: "rec_index_ok E (db_file (ag_db a))" and k: "keeps_out a a'"
  shows "rec_index_ok E (db_file (ag_db a'))" "sabs (db_file (ag_db a')) = sabs (db_file (ag_db a))"
    "appliedSeq (ag_db a') = appliedSeq (ag_db a)"
    "fst p \<noteq> agent_ns a \<Longrightarrow>
      (\<exists>e. ix_lookup (db_file (ag_db a')) p = Some e \<and> e_hash e = g) = (\<exists>e. ix_lookup (db_file (ag_db a)) p = Some e \<and> e_hash e = g)"
    "ix_refs (db_file (ag_db a')) = ix_refs (db_file (ag_db a))" "ix_meta (db_file (ag_db a')) = ix_meta (db_file (ag_db a))"
proof -
  let ?x = "db_file (ag_db a)" and ?y = "db_file (ag_db a')"
  have i: "db_inv (ag_db a)" using x by (simp add: rec_index_ok_def index_ok_def db_inv_def)
  have y: "idx_inv ?y" "ix_refs ?y = ix_refs ?x" "ix_meta ?y = ix_meta ?x"
    using k i by (auto simp: keeps_out_def stays_in_def db_inv_def)
  show "ix_refs ?y = ix_refs ?x" "ix_meta ?y = ix_meta ?x" by (rule y)+
  have at: "atime_only (ix_lookup ?x p) (ix_lookup ?y p)" if "fst p \<noteq> agent_ns a" for p
    using k i that by (cases p) (auto simp: keeps_out_def stays_in_def db_view_def)
  have m: "tx_meta q ?y = tx_meta q ?x" for q by (simp add: tx_meta_def y(3))
  from m show "appliedSeq (ag_db a') = appliedSeq (ag_db a)" by (simp add: appliedSeq_def db_meta_def)
  have ov: "map_option objval_of (ix_lookup ?y p) = map_option objval_of (ix_lookup ?x p)"
    and h: "map_option e_hash (ix_lookup ?y p) = map_option e_hash (ix_lookup ?x p)" if "fst p \<noteq> agent_ns a" for p
    using atime_only_hash [OF at [OF that]] by simp_all
  show "sabs ?y = sabs ?x" by (simp add: sabs_def fun_eq_iff ov agent_scope(1) [symmetric])
  show hs: "(\<exists>e. ix_lookup ?y p = Some e \<and> e_hash e = g) = (\<exists>e. ix_lookup ?x p = Some e \<and> e_hash e = g)"
    if "fst p \<noteq> agent_ns a" for p g
    using h [OF that] by (cases "ix_lookup ?x p"; cases "ix_lookup ?y p") auto
  have "hashes_ok E ?x" using x by (simp add: rec_index_ok_def index_ok_def)
  then have "hashes_ok E ?y"
    unfolding hashes_ok_def
  proof (intro allI impI)
    fix b q e assume all: "\<forall>b k e. ix_lookup ?x (store_ns b, k) = Some e \<longrightarrow> name_ok E (e_hash e)"
      and e: "ix_lookup ?y (store_ns b, q) = Some e"
    have n: "fst (store_ns b, q) \<noteq> agent_ns a" by (simp add: agent_scope(1) [symmetric])
    obtain ea where ea: "ix_lookup ?x (store_ns b, q) = Some ea" "e_hash ea = e_hash e"
      using hs [OF n, of "e_hash e"] e by auto
    from all ea(1) have "name_ok E (e_hash ea)" by blast
    then show "name_ok E (e_hash e)" by (simp add: ea(2))
  qed
  then show "rec_index_ok E ?y" using x y(1) by (simp add: rec_index_ok_def index_ok_def applied_ok_def m)
qed

lemma store_beside_agent:
  assumes good: "store_good E s" and db: "s_db s = ag_db a" and k: "keeps_out a a'"
  shows "store_good E (s\<lparr>s_db := ag_db a'\<rparr>)" "sabs (db_file (ag_db a')) = sabs (db_file (s_db s))"
proof -
  let ?x = "db_file (s_db s)" and ?y = "db_file (ag_db a')"
  have x: "rec_index_ok E (db_file (ag_db a))" using good by (simp add: store_good_def store_inv_def flip: db)
  note b = index_beside_agent [OF x k, folded db]
  show "sabs ?y = sabs ?x" by (rule b(2))
  have "{p. \<exists>e. ix_lookup ?y p = Some e \<and> InScope (fst p) ScopeStore \<and> e_hash e = g} =
      {p. \<exists>e. ix_lookup ?x p = Some e \<and> InScope (fst p) ScopeStore \<and> e_hash e = g}" for g
  proof (rule Collect_cong)
    fix p
    show "(\<exists>e. ix_lookup ?y p = Some e \<and> InScope (fst p) ScopeStore \<and> e_hash e = g) =
        (\<exists>e. ix_lookup ?x p = Some e \<and> InScope (fst p) ScopeStore \<and> e_hash e = g)"
      using b(4) [of p g] agent_scope(2) [of a] by (cases "fst p = agent_ns a") auto
  qed
  then have "key_count ?y g = key_count ?x g" for g by (simp add: key_count_def holders_def)
  moreover have "part_count ?y g = part_count ?x g" for g by (simp add: part_count_def b(6))
  ultimately have "refs_inv ?y"
    using good by (simp add: store_good_def refs_inv_def refc_def ref_or_zero_def ix_ref_def b(5))
  then show "store_good E (s\<lparr>s_db := ag_db a'\<rparr>)" using store_good_db [OF good b(3,2,1)] by blast
qed

lemma agent_beside_store:
  assumes inv: "agent_inv E a" and db: "s_db s = ag_db a" and i: "idx_inv (db_file (s_db s'))"
    and same: "\<And>k. ix_lookup (db_file (s_db s')) (agent_ns a, k) = ix_lookup (db_file (s_db s)) (agent_ns a, k)"
  shows "agent_inv E (a\<lparr>ag_db := s_db s'\<rparr>)" "ag_view (a\<lparr>ag_db := s_db s'\<rparr>) = ag_view a"
proof -
  show v: "ag_view (a\<lparr>ag_db := s_db s'\<rparr>) = ag_view a"
    using same by (simp add: ag_view_def db_view_def fun_eq_iff db)
  show "agent_inv E (a\<lparr>ag_db := s_db s'\<rparr>)"
    by (rule agent_invI [OF inv]) (use inv i in \<open>simp_all add: v agent_inv_def db_inv_def\<close>)
qed

lemma owned_lookup: "owned E b s s' \<Longrightarrow> ns \<noteq> store_ns b \<Longrightarrow> ix_lookup (db_file (s_db s')) (ns, k) = ix_lookup (db_file (s_db s)) (ns, k)"
  by (simp add: owned_def apart_def ix_lookup_def)

subsection \<open>The machine\<close>

inductive store_step :: "env \<Rightarrow> store \<Rightarrow> store \<Rightarrow> bool" for E where
  put: "put_ready E sy b k r opt s \<Longrightarrow> store_PutWith E sy b k r opt s = (s', Inr e) \<Longrightarrow> store_step E s s'"
| delete: "delete_ready E sy b k s \<Longrightarrow> store_Delete E sy b k s = (s', None) \<Longrightarrow> store_step E s s'"
| get: "store_Get sy b k s = (s', r) \<Longrightarrow> store_step E s s'"
| collect: "few (db_file (s_db s)) \<Longrightarrow> gc_fits E G \<Longrightarrow>
    unat (j_last (s_jrnl s)) + length (ix_refs (db_file (s_db s))) < 2 ^ 64 - 1 \<Longrightarrow>
    store_GC E G now took s = ((s', st), None) \<Longrightarrow> store_step E s s'"

inductive box_step :: "env \<Rightarrow> store \<times> agent \<Rightarrow> store \<times> agent \<Rightarrow> bool" for E where
  agent: "agent_step E a a' \<Longrightarrow> box_step E (s, a) (s\<lparr>s_db := ag_db a'\<rparr>, a')"
| store: "store_step E s s' \<Longrightarrow> box_step E (s, a) (s', a\<lparr>ag_db := s_db s'\<rparr>)"

inductive_cases box_stepE: "box_step E sa sa'"

lemma store_step_good:
  assumes "store_step E s s'" "env_ok E" "store_good E s"
  shows "store_good E s' \<and> (\<forall>ns k. (\<forall>b. ns \<noteq> store_ns b) \<longrightarrow>
    ix_lookup (db_file (s_db s')) (ns, k) = ix_lookup (db_file (s_db s)) (ns, k))"
  using assms
proof (induction rule: store_step.induct)
  case (put sy b k r opt s s' e)
  from put.prems(2) have g: "store_inv E s" "in_step E s" "refs_inv (db_file (s_db s))" by (simp_all add: store_good_def)
  note p = PutWith_effect [OF put.prems(1) g(1,2) put.hyps]
  show ?case using p(1,2,7) g(3) caught_up_in_step owned_lookup [OF PutWith_owned [OF put.hyps(2)]] by (auto simp: store_good_def)
next
  case (delete sy b k s s')
  from delete.prems(2) have g: "store_inv E s" "in_step E s" "refs_inv (db_file (s_db s))" by (simp_all add: store_good_def)
  note d = Delete_effect [OF g(1,2) delete.hyps]
  show ?case using d(1,2,6) g(3) owned_lookup [OF Delete_owned [OF delete.hyps(2)]] by (auto simp: store_good_def)
next
  case (get sy b k s s' r)
  obtain p where "s' = s\<lparr>s_db := (s_db s)\<lparr>db_pending := p\<rparr>\<rparr>" using Get_touched [OF get.hyps] by (auto simp: touched_def)
  moreover have "appliedSeq ((s_db s)\<lparr>db_pending := p\<rparr>) = appliedSeq (s_db s)" by (simp add: appliedSeq_def db_meta_def)
  moreover have "rec_index_ok E (db_file (s_db s))" "refs_inv (db_file (s_db s))"
    using get.prems(2) by (simp_all add: store_good_def store_inv_def)
  ultimately show ?case using store_good_db [OF get.prems(2), of "(s_db s)\<lparr>db_pending := p\<rparr>"] by simp
next
  case (collect s G now took s' st)
  then have g: "gc_good E (store_spec E s) s" by (simp add: store_good_def gc_good_def)
  have i: "idx_inv (db_file (s_db s))" "refs_inv (db_file (s_db s))"
    using g by (simp_all add: gc_good_def store_inv_def rec_index_ok_def index_ok_def)
  show ?case
    using GC_keeps_store [OF g collect.hyps(2-4)] GC_safe [OF i collect.hyps(1,4)]
    by (simp add: store_good_def gc_good_def gc_safe_def Let_def)
qed

definition box_good :: "env \<Rightarrow> store \<times> agent \<Rightarrow> bool" where
  "box_good E sa \<longleftrightarrow> store_good E (fst sa) \<and> agent_inv E (snd sa) \<and> s_db (fst sa) = ag_db (snd sa)"

lemma store_step_beside:
  assumes "store_step E s s'" "env_ok E" "box_good E (s, a)"
  shows "agent_inv E (a\<lparr>ag_db := s_db s'\<rparr>)" "ag_view (a\<lparr>ag_db := s_db s'\<rparr>) = ag_view a"
proof -
  have g: "store_good E s" "agent_inv E a" "s_db s = ag_db a" using assms(3) by (simp_all add: box_good_def)
  note st = store_step_good [OF assms(1,2) g(1)]
  have "idx_inv (db_file (s_db s'))" using st by (simp add: store_good_def store_inv_def rec_index_ok_def index_ok_def)
  from agent_beside_store [OF g(2,3) this] st
  show "agent_inv E (a\<lparr>ag_db := s_db s'\<rparr>)" "ag_view (a\<lparr>ag_db := s_db s'\<rparr>) = ag_view a" by simp_all
qed

lemma box_step_good:
  assumes "box_step E sa sa'" "env_ok E" "box_good E sa"
  shows "box_good E sa'"
  using assms(1)
proof (cases rule: box_step.cases)
  case (agent a a' s)
  have g: "store_good E s" "agent_inv E a" "s_db s = ag_db a" using assms(3) agent(1) by (simp_all add: box_good_def)
  show ?thesis
    using store_beside_agent(1) [OF g(1,3) agent_step_keeps [OF agent(3)]] agent_step_inv [OF agent(3) g(2)] agent(2)
    by (simp add: box_good_def)
next
  case (store s s' a)
  have g: "box_good E (s, a)" using assms(3) store(1) by simp
  have "store_good E s'" using store_step_good [OF store(3) assms(2)] g by (simp add: box_good_def)
  then show ?thesis using store_step_beside(1) [OF store(3) assms(2) g] store(2) by (simp add: box_good_def)
qed

lemma box_reach_good: "(box_step E)\<^sup>*\<^sup>* sa sa' \<Longrightarrow> env_ok E \<Longrightarrow> box_good E sa \<Longrightarrow> box_good E sa'"
  by (induction rule: rtranclp_induct) (auto intro: box_step_good)

text \<open>
  C22: the two roles do not interfere over the index file they share.  Through any interleaving of
  puts, deletes, reads and collections of the store with the steps of an agent on the same
  machine, both invariants hold; a step of the agent leaves the store the map its journal
  denotes and every reference count exact, and a step of the store leaves every entry of the
  agent as it is.
\<close>

theorem roles_share_the_index:
  assumes "env_ok E" "store_good E s" "agent_inv E a" "s_db s = ag_db a" "(box_step E)\<^sup>*\<^sup>* (s, a) (s1, a1)"
  shows "store_good E s1 \<and> agent_inv E a1 \<and> s_db s1 = ag_db a1 \<and>
    (\<forall>a2. agent_step E a1 a2 \<longrightarrow> sabs (db_file (ag_db a2)) = store_spec E s1 \<and> refs_inv (db_file (ag_db a2))) \<and>
    (\<forall>s2. store_step E s1 s2 \<longrightarrow> ag_view (a1\<lparr>ag_db := s_db s2\<rparr>) = ag_view a1)"
proof -
  have g: "box_good E (s1, a1)" by (rule box_reach_good [OF assms(5,1)]) (simp add: box_good_def assms)
  then have p: "store_good E s1" "agent_inv E a1" "s_db s1 = ag_db a1" by (simp_all add: box_good_def)
  have "sabs (db_file (ag_db a2)) = store_spec E s1 \<and> refs_inv (db_file (ag_db a2))" if "agent_step E a1 a2" for a2
    using store_beside_agent [OF p(1,3) agent_step_keeps [OF that]] p(1) by (simp add: store_good_def in_step_def)
  then show ?thesis using p store_step_beside(2) [OF _ assms(1) g] by blast
qed

definition box_agent :: agent where
  "box_agent = (first_agent demo_agent_site [(''/b/a'', demo_file)] [])\<lparr>ag_db := s_db demo_store\<rparr>"

lemma box_agent_inv: "agent_inv demo_env box_agent"
proof -
  have i: "idx_inv (db_file (s_db demo_store))"
    using demo_store_inv(1) by (simp add: store_inv_def rec_index_ok_def index_ok_def)
  have "bk_get (ns_objs (db_file (s_db demo_store)) (agent_ns box_agent)) k = None" for k
    by (simp add: demo_store_def fresh_idx_def idx_empty_def ns_objs_def)
  then have "ag_view box_agent k = None" for k
    by (simp add: ag_view_def db_view_def ix_lookup_def box_agent_def)
  moreover have "isAbs (si_backing (ag_site box_agent))" "name_ok demo_env (agent_ns box_agent)"
    by (simp_all add: box_agent_def first_agent_def demo_agent_site_def demo_site_def isAbs_def name_ok_def demo_env_def agent_ns_def
        ix_namespace_def ScopeAgent_def)
  ultimately show ?thesis using i by (simp add: agent_inv_def db_inv_def) (simp add: box_agent_def)
qed

theorem roles_share_the_index_witness:
  "\<exists>s e a. store_PutWith demo_env demo_sys ''media'' ''a.jpg'' demo_reader demo_opts demo_store = (s, Inr e) \<and>
     a = fst (agent_Scan demo_env demo_agentsys (box_agent\<lparr>ag_db := s_db s\<rparr>)) \<and>
     agent_inv demo_env a \<and> sabs (db_file (ag_db a)) = store_spec demo_env s \<and> store_spec demo_env s (''media'', ''a.jpg'') \<noteq> None"
proof -
  obtain s e where p: "store_PutWith demo_env demo_sys ''media'' ''a.jpg'' demo_reader demo_opts demo_store = (s, Inr e)"
    using demo_put by blast
  let ?a = "box_agent\<lparr>ag_db := s_db s\<rparr>" and ?a2 = "fst (agent_Scan demo_env demo_agentsys (box_agent\<lparr>ag_db := s_db s\<rparr>))"
  have good: "store_good demo_env demo_store" by (simp add: store_good_def) (simp add: demo_store_def fresh_refs_inv)
  have "box_step demo_env (demo_store, box_agent) (s, ?a)"
    by (rule box_step.store, rule store_step.put [OF demo_ready p])
  then have reach: "(box_step demo_env)\<^sup>*\<^sup>* (demo_store, box_agent) (s, ?a)" by blast
  have ans: "answered demo_agentsys" by (simp add: answered_def demo_agentsys_def)
  have step: "agent_step demo_env ?a ?a2" by (rule agent_step.scan [OF ans])
  have db: "s_db demo_store = ag_db box_agent" by (simp add: box_agent_def)
  note r = roles_share_the_index [OF demo_env_ok good box_agent_inv db reach]
  have "agent_inv demo_env ?a2" using agent_step_inv [OF step] r by blast
  moreover have "sabs (db_file (ag_db ?a2)) = store_spec demo_env s" using r step by blast
  moreover have "store_spec demo_env s (''media'', ''a.jpg'') \<noteq> None"
    using PutWith_effect(3) [OF demo_env_ok demo_store_inv(1) demo_in_step demo_ready p] by simp
  ultimately show ?thesis using p by blast
qed

end
