(* ===== verification/Host.thy ===== *)
theory Host
  imports Sigv4
begin

text \<open>
  What runs before and beside the daemon: internal/caps, which probes the host, the service
  verbs, and internal/bootstrap with the first-run layout, the reset and the key generator.
  The operating system is an argument: what a probe reads, whether a call succeeds.
\<close>

subsection \<open>internal/caps\<close>

definition passthroughMajor :: int where "passthroughMajor = 6"
definition passthroughMinor :: int where "passthroughMinor = 9"

record report =
  rp_OS :: string
  rp_Arch :: string
  rp_Kernel :: string
  rp_KernelMajor :: int
  rp_KernelMinor :: int
  rp_Root :: bool
  rp_DevFuse :: bool
  rp_Fusermount :: string
  rp_Passthrough :: bool

definition AgentReady :: "report \<Rightarrow> gerr option" where
  "AgentReady r =
     (if rp_OS r \<noteq> ''linux'' then Some (Errf ''the agent role requires Linux'')
      else if \<not> rp_DevFuse r then Some (Errf ''/dev/fuse is missing'')
      else if \<not> rp_Root r \<and> rp_Fusermount r = [] then Some (Errf ''not running as root and fusermount3 is not installed'')
      else None)"

definition StoreReady :: "report \<Rightarrow> gerr option" where "StoreReady r = None"

definition KernelAtLeast :: "report \<Rightarrow> int \<Rightarrow> int \<Rightarrow> bool" where
  "KernelAtLeast r major minor =
     (if rp_KernelMajor r \<noteq> major then major < rp_KernelMajor r else minor \<le> rp_KernelMinor r)"

definition show_bool :: "bool \<Rightarrow> string" where "show_bool b = (if b then ''true'' else ''false'')"

definition report_Lines :: "report \<Rightarrow> string list" where
  "report_Lines r =
     (let kernel = (if rp_Kernel r = [] then ''n/a'' else rp_Kernel r);
          fusermount = (if rp_Fusermount r = [] then ''not found'' else rp_Fusermount r)
      in [''os:          '' @ rp_OS r @ ''/'' @ rp_Arch r,
          ''kernel:      '' @ kernel,
          ''root:        '' @ show_bool (rp_Root r),
          ''/dev/fuse:   '' @ show_bool (rp_DevFuse r),
          ''fusermount3: '' @ fusermount,
          ''passthrough: '' @ show_bool (rp_Passthrough r) @ '' (needs linux >= '' @ format_int passthroughMajor @ ''.'' @
            format_int passthroughMinor @ '')''])"

definition parseKernel :: "string \<Rightarrow> int \<times> int" where
  "parseKernel release =
     (let rel = takeWhile (\<lambda>c. c \<noteq> CHR ''-'' \<and> c \<noteq> CHR ''+'') (trim_space release) in
      case split_on (CHR ''.'') rel of
        a # b # _ \<Rightarrow>
          (case parse_int a of
             None \<Rightarrow> (0, 0)
           | Some major \<Rightarrow> (case parse_int b of None \<Rightarrow> (major, 0) | Some minor \<Rightarrow> (major, minor)))
      | _ \<Rightarrow> (0, 0))"

definition trimNewline :: "string \<Rightarrow> string" where
  "trimNewline s = rev (dropWhile (\<lambda>c. c = NL \<or> c = CR) (rev s))"

record hostfacts =
  hs_os :: string
  hs_arch :: string
  hs_root :: bool
  hs_osrelease :: "string option"
  hs_devfuse :: "bool option"
  hs_lookPath :: "string \<Rightarrow> string option"

text \<open>\<open>Probe\<close> on Linux; elsewhere only what \<open>base\<close> fills in.\<close>

definition report_base :: "hostfacts \<Rightarrow> report" where
  "report_base h =
     \<lparr>rp_OS = hs_os h, rp_Arch = hs_arch h, rp_Kernel = [], rp_KernelMajor = 0, rp_KernelMinor = 0, rp_Root = False,
      rp_DevFuse = False, rp_Fusermount = [], rp_Passthrough = False\<rparr>"

definition caps_Probe :: "hostfacts \<Rightarrow> report" where
  "caps_Probe h =
     (let r = (report_base h)\<lparr>rp_Root := hs_root h\<rparr>;
          r = (case hs_osrelease h of
                 None \<Rightarrow> r
               | Some release \<Rightarrow>
                   (case parseKernel release of
                      (major, minor) \<Rightarrow> r\<lparr>rp_KernelMajor := major, rp_KernelMinor := minor, rp_Kernel := trimNewline release\<rparr>));
          r = r\<lparr>rp_Passthrough := KernelAtLeast r passthroughMajor passthroughMinor\<rparr>;
          r = (case hs_devfuse h of None \<Rightarrow> r | Some char_device \<Rightarrow> r\<lparr>rp_DevFuse := char_device\<rparr>)
      in (case hs_lookPath h ''fusermount3'' of
            Some p \<Rightarrow> r\<lparr>rp_Fusermount := p\<rparr>
          | None \<Rightarrow> (case hs_lookPath h ''fusermount'' of Some p \<Rightarrow> r\<lparr>rp_Fusermount := p\<rparr> | None \<Rightarrow> r)))"

subsection \<open>internal/paths\<close>

definition ConfigDir :: string where "ConfigDir = ''/etc/tana''"
definition ConfigFile :: string where "ConfigFile = ''/etc/tana/config.yaml''"
definition StateDir :: string where "StateDir = ''/var/lib/tana''"
definition IndexFile :: string where "IndexFile = ''/var/lib/tana/index.db''"
definition LogDir :: string where "LogDir = ''/var/log/tana''"
definition RunDir :: string where "RunDir = ''/run/tana''"
definition Socket :: string where "Socket = ''/run/tana/tana.sock''"
definition Binary :: string where "Binary = ''/sbin/tana''"
definition UnitPath :: string where "UnitPath = ''/etc/systemd/system/tana.service''"
definition LogrotateFile :: string where "LogrotateFile = ''/etc/logrotate.d/tana''"

subsection \<open>internal/service\<close>

definition service_verbs :: "string list" where
  "service_verbs = [''start'', ''stop'', ''restart'', ''reload'', ''enable'', ''disable'']"

definition IsVerb :: "string \<Rightarrow> bool" where "IsVerb arg \<longleftrightarrow> arg \<in> set service_verbs"

definition verb_Names :: string where "verb_Names = join_with ''|'' service_verbs"

text \<open>
  \<open>Run\<close>: the error, or the line it prints when systemctl succeeded.  \<open>unit\<close> says whether
  \<open>os.Stat\<close> of the unit file fails because there is none.
\<close>

definition service_Run :: "hostfacts \<Rightarrow> bool \<Rightarrow> (string \<Rightarrow> string \<Rightarrow> bool) \<Rightarrow> string \<Rightarrow> gerr + string" where
  "service_Run h unit_missing run verb =
     (if verb \<notin> set service_verbs then Inl (Errf ''unknown command'')
      else if hs_os h \<noteq> ''linux'' then Inl (Errf ''service verbs need systemd'')
      else
        (case hs_lookPath h ''systemctl'' of
           None \<Rightarrow> Inl (Errf ''systemctl not found'')
         | Some systemctl \<Rightarrow>
             if unit_missing then Inl (Errf ''the unit is not installed'')
             else if \<not> hs_root h then Inl (Errf ''requires root'')
             else if \<not> run systemctl verb then Inl (Errf ''systemctl'')
             else if verb = ''start'' \<or> verb = ''restart'' then Inr (''tana '' @ verb @ ''ed; check it with: tana --status'')
             else if verb = ''reload'' then Inr ''tana reloaded (log files reopened)''
             else if verb = ''enable'' then Inr ''tana will start at boot''
             else if verb = ''disable'' then Inr ''tana will no longer start at boot''
             else Inr []))"

end
