(* ===== verification/Bootstrap.thy ===== *)
theory Bootstrap
  imports Host "HOL-Library.Monad_Syntax"
begin

text \<open>
  internal/bootstrap: the first-run layout, the installer, the reset and the key generator.
  The file system is a map from absolute paths to nodes; \<open>hostio\<close> says which system calls fail
  and how far they got.  The embedded skeleton files are arguments.
\<close>

subsection \<open>The file system\<close>

datatype fnode = FDir | FFile string

type_synonym fs = "string \<Rightarrow> fnode option"

datatype wout = WAll | WNoOpen | WShort nat

record hostio =
  io_stat :: "string \<Rightarrow> bool"
  io_mkdir :: "string \<Rightarrow> bool"
  io_read :: "string \<Rightarrow> bool"
  io_write :: "string \<Rightarrow> wout"
  io_rename :: "string \<Rightarrow> bool"
  io_remove :: "string \<Rightarrow> (string \<Rightarrow> bool) option"

text \<open>\<open>os.Stat\<close> succeeds, or says that there is no such file.\<close>

definition stat_ok :: "hostio \<Rightarrow> string \<Rightarrow> fs \<Rightarrow> bool" where
  "stat_ok io p m \<longleftrightarrow> io_stat io p \<and> m p \<noteq> None"

definition stat_missing :: "hostio \<Rightarrow> string \<Rightarrow> fs \<Rightarrow> bool" where
  "stat_missing io p m \<longleftrightarrow> io_stat io p \<and> m p = None"

text \<open>\<open>os.MkdirAll\<close> of an absolute path: its ancestors from the root down.\<close>

fun dir_chain :: "string \<Rightarrow> string list \<Rightarrow> string list" where
  "dir_chain acc [] = []"
| "dir_chain acc (c # cs) = (acc @ ''/'' @ c) # dir_chain (acc @ ''/'' @ c) cs"

definition ancestors :: "string \<Rightarrow> string list" where
  "ancestors p = dir_chain [] (tl (split_on (CHR ''/'') p))"

definition mk_dir :: "hostio \<Rightarrow> string \<Rightarrow> fs \<Rightarrow> fs \<times> gerr option" where
  "mk_dir io d m =
     (case m d of
        Some FDir \<Rightarrow> (m, None)
      | Some (FFile _) \<Rightarrow> (m, Some ErrIO)
      | None \<Rightarrow> if io_mkdir io d then (m(d \<mapsto> FDir), None) else (m, Some ErrIO))"

definition MkdirAll :: "hostio \<Rightarrow> string \<Rightarrow> fs \<Rightarrow> fs \<times> gerr option" where
  "MkdirAll io p m = fold_cb (mk_dir io) (ancestors p) m"

definition parent_dir :: "string \<Rightarrow> string" where
  "parent_dir p = rev (drop 1 (dropWhile (\<lambda>c. c \<noteq> CHR ''/'') (rev p)))"

definition WriteFile :: "hostio \<Rightarrow> string \<Rightarrow> string \<Rightarrow> fs \<Rightarrow> fs \<times> gerr option" where
  "WriteFile io p data m =
     (if m (parent_dir p) \<noteq> Some FDir \<or> m p = Some FDir then (m, Some ErrIO)
      else
        (case io_write io p of
           WAll \<Rightarrow> (m(p \<mapsto> FFile data), None)
         | WNoOpen \<Rightarrow> (m, Some ErrIO)
         | WShort n \<Rightarrow> (m(p \<mapsto> FFile (take n data)), Some ErrIO)))"

definition path_below :: "string \<Rightarrow> string \<Rightarrow> bool" where
  "path_below t p \<longleftrightarrow> p = t \<or> has_prefix p (t @ ''/'')"

text \<open>\<open>os.RemoveAll\<close>; when it fails some of the tree is left.\<close>

definition RemoveAll :: "hostio \<Rightarrow> string \<Rightarrow> fs \<Rightarrow> fs \<times> gerr option" where
  "RemoveAll io t m =
     (case io_remove io t of
        None \<Rightarrow> ((\<lambda>p. if path_below t p then None else m p), None)
      | Some left \<Rightarrow> ((\<lambda>p. if path_below t p \<and> \<not> left p then None else m p), Some ErrIO))"

subsection \<open>Installing\<close>

definition installIfMissing :: "hostio \<Rightarrow> string option \<Rightarrow> string \<Rightarrow> fs \<Rightarrow> fs \<times> (gerr + bool)" where
  "installIfMissing io src dst m =
     (if stat_ok io dst m then (m, Inr False)
      else
        (case src of
           None \<Rightarrow> (m, Inl (Errf ''embedded skel''))
         | Some data \<Rightarrow>
             (case WriteFile io dst data m of
                (m', Some _) \<Rightarrow> (m', Inl (Errf ''install''))
              | (m', None) \<Rightarrow> (m', Inr True))))"

definition layout_dir :: "hostio \<Rightarrow> string \<Rightarrow> fs \<Rightarrow> fs \<times> gerr option" where
  "layout_dir io d m = (case MkdirAll io d m of (m', Some _) \<Rightarrow> (m', Some (Errf ''create'')) | (m', None) \<Rightarrow> (m', None))"

text \<open>The second component is what is printed.\<close>

definition EnsureLayout :: "hostio \<Rightarrow> string option \<Rightarrow> fs \<Rightarrow> fs \<times> string list \<times> gerr option" where
  "EnsureLayout io skel m =
     (case fold_cb (layout_dir io) [ConfigDir, StateDir, LogDir] m of
        (m1, Some e) \<Rightarrow> (m1, [], Some e)
      | (m1, None) \<Rightarrow>
          (case installIfMissing io skel ConfigFile m1 of
             (m2, Inl e) \<Rightarrow> (m2, [], Some e)
           | (m2, Inr created) \<Rightarrow>
               (m2, if created then [''tana: installed default config at '' @ ConfigFile] else [], None)))"

definition requireRootLinux :: "hostfacts \<Rightarrow> gerr option" where
  "requireRootLinux h =
     (if hs_os h \<noteq> ''linux'' then Some (Errf ''only runs on Linux'')
      else if \<not> hs_root h then Some (Errf ''requires root'')
      else None)"

definition copyFile :: "hostio \<Rightarrow> string \<Rightarrow> string \<Rightarrow> fs \<Rightarrow> fs \<times> gerr option" where
  "copyFile io src dst m =
     (case m src of
        Some (FFile data) \<Rightarrow>
          if \<not> io_read io src then (m, Some ErrIO)
          else
            (case WriteFile io (dst @ ''.tmp'') data m of
               (m1, Some e) \<Rightarrow> (m1, Some e)
             | (m1, None) \<Rightarrow>
                 if m1 dst \<noteq> Some FDir \<and> io_rename io dst then (m1(dst @ ''.tmp'' := None, dst \<mapsto> FFile data), None)
                 else (m1, Some ErrIO))
      | _ \<Rightarrow> (m, Some ErrIO))"

text \<open>
  \<open>Init\<close>: \<open>self\<close> is the resolved path of the running executable, nothing when it cannot be
  found; \<open>unit\<close> and \<open>policy\<close> are the embedded unit file and logrotate policy.
\<close>

definition install_unit :: "hostio \<Rightarrow> string \<Rightarrow> string option \<Rightarrow> fs \<Rightarrow> fs \<times> string list \<times> gerr option" where
  "install_unit io unit policy m =
     (case WriteFile io UnitPath unit m of
        (m1, Some _) \<Rightarrow> (m1, [], Some (Errf ''install systemd unit''))
      | (m1, None) \<Rightarrow>
          let out = [''tana: installed systemd unit at '' @ UnitPath] in
          (case policy of
             None \<Rightarrow> (m1, out, Some (Errf ''embedded skel''))
           | Some data \<Rightarrow>
               (case WriteFile io LogrotateFile data m1 of
                  (m2, Some _) \<Rightarrow> (m2, out, Some (Errf ''install logrotate policy''))
                | (m2, None) \<Rightarrow> (m2, out @ [''tana: installed logrotate policy at '' @ LogrotateFile], None))))"

definition install_binary :: "hostio \<Rightarrow> string option \<Rightarrow> fs \<Rightarrow> fs \<times> string list \<times> gerr option" where
  "install_binary io self m =
     (case self of
        None \<Rightarrow> (m, [], Some (Errf ''locate executable''))
      | Some p \<Rightarrow>
          if p = Binary then (m, [], None)
          else
            (case copyFile io p Binary m of
               (m1, Some _) \<Rightarrow> (m1, [], Some (Errf ''install binary''))
             | (m1, None) \<Rightarrow> (m1, [''tana: installed binary at '' @ Binary], None)))"

definition boot_Init ::
    "hostfacts \<Rightarrow> hostio \<Rightarrow> string option \<Rightarrow> string option \<Rightarrow> string \<Rightarrow> string option \<Rightarrow> fs \<Rightarrow> fs \<times> string list \<times> gerr option" where
  "boot_Init h io skel self unit policy m =
     (case requireRootLinux h of
        Some e \<Rightarrow> (m, [], Some e)
      | None \<Rightarrow>
          (case EnsureLayout io skel m of
             (m1, o1, Some e) \<Rightarrow> (m1, o1, Some e)
           | (m1, o1, None) \<Rightarrow>
               (case install_binary io self m1 of
                  (m2, o2, Some e) \<Rightarrow> (m2, o1 @ o2, Some e)
                | (m2, o2, None) \<Rightarrow>
                    (case install_unit io unit policy m2 of
                       (m3, o3, e) \<Rightarrow> (m3, o1 @ o2 @ o3 @ (if e = None then [''installed''] else []), e)))))"

subsection \<open>Purging\<close>

definition PurgeTargets :: "string list" where
  "PurgeTargets = [ConfigDir, StateDir, LogDir, RunDir]"

definition allowedPurgePrefixes :: "string list" where
  "allowedPurgePrefixes = [''/etc/tana'', ''/var/lib/tana'', ''/var/log/tana'', ''/run/tana'']"

definition purgeAllowed :: "string \<Rightarrow> bool" where
  "purgeAllowed path \<longleftrightarrow>
     path \<noteq> [] \<and> path \<noteq> ''/'' \<and> (\<exists>p \<in> set allowedPurgePrefixes. path = p \<or> has_prefix path (p @ ''/''))"

text \<open>\<open>stdin\<close> is the line typed at a terminal, nothing when stdin is none.\<close>

definition purge_confirmed :: "bool \<Rightarrow> string option \<Rightarrow> gerr option" where
  "purge_confirmed assumeYes stdin =
     (if assumeYes then None
      else
        (case stdin of
           None \<Rightarrow> Some (Errf ''refusing to purge without --yes (stdin is not a terminal)'')
         | Some line \<Rightarrow> if trim_space line \<noteq> ''yes'' then Some (Errf ''aborted'') else None))"

definition purge_one :: "hostio \<Rightarrow> string \<Rightarrow> fs \<times> string list \<times> gerr list \<Rightarrow> fs \<times> string list \<times> gerr list" where
  "purge_one io t s =
     (case s of (m, removed, errs) \<Rightarrow>
        if stat_missing io t m then (m, removed, errs)
        else
          (case RemoveAll io t m of
             (m1, Some e) \<Rightarrow> (m1, removed, errs @ [e])
           | (m1, None) \<Rightarrow> (m1, removed @ [t], errs)))"

definition boot_Purge ::
    "hostfacts \<Rightarrow> hostio \<Rightarrow> bool \<Rightarrow> bool \<Rightarrow> string option \<Rightarrow> fs \<Rightarrow> fs \<times> string list \<times> gerr option" where
  "boot_Purge h io active assumeYes stdin m =
     (case requireRootLinux h of
        Some e \<Rightarrow> (m, [], Some e)
      | None \<Rightarrow>
          if active then (m, [], Some (Errf ''service is running: stop it first (tana stop)''))
          else if \<not> list_all purgeAllowed PurgeTargets then (m, [], Some (Errf ''refusing to remove unexpected path''))
          else
            (case purge_confirmed assumeYes stdin of
               Some e \<Rightarrow> (m, [], Some e)
             | None \<Rightarrow>
                 (case fold (purge_one io) PurgeTargets (m, [], []) of
                    (m1, removed, errs) \<Rightarrow>
                      (m1, removed, if errs \<noteq> [] then Some (Errf ''some paths could not be removed'') else None))))"

subsection \<open>Keys\<close>

definition key_limit :: "string \<Rightarrow> nat" where
  "key_limit alphabet = 256 - 256 mod length alphabet"

fun draw :: "nat \<Rightarrow> string \<Rightarrow> char list \<Rightarrow> string \<Rightarrow> string" where
  "draw n alphabet [] out = out"
| "draw n alphabet (b # bs) out =
     (if key_limit alphabet \<le> of_char b then draw n alphabet bs out
      else
        let out = out @ [alphabet ! (of_char b mod length alphabet)]
        in if length out = n then out else draw n alphabet bs out)"

text \<open>
  \<open>rand k\<close> is what the \<open>k\<close>-th read of \<open>crypto/rand\<close> fills the buffer with, nothing when it
  fails.  The loop need not end; the second component of the result is the number of the next
  read.
\<close>

partial_function (option) random_loop ::
    "(nat \<Rightarrow> char list option) \<Rightarrow> nat \<Rightarrow> string \<Rightarrow> nat \<Rightarrow> string \<Rightarrow> (gerr + string \<times> nat) option" where
  "random_loop rand n alphabet k out =
     (if length out < n then
        (case rand k of
           None \<Rightarrow> Some (Inl (Errf ''keygen''))
         | Some buf \<Rightarrow> random_loop rand n alphabet (Suc k) (draw n alphabet (take n buf) out))
      else Some (Inr (out, k)))"

definition randomString :: "(nat \<Rightarrow> char list option) \<Rightarrow> nat \<Rightarrow> nat \<Rightarrow> string \<Rightarrow> (gerr + string \<times> nat) option" where
  "randomString rand k n alphabet = random_loop rand n alphabet k []"

definition access_alphabet :: string where "access_alphabet = ''ABCDEFGHIJKLMNOPQRSTUVWXYZ234567''"

definition secret_alphabet :: string where
  "secret_alphabet = ''ABCDEFGHIJKLMNOPQRSTUVWXYZabcdefghijklmnopqrstuvwxyz0123456789+/''"

definition Keygen :: "(nat \<Rightarrow> char list option) \<Rightarrow> (gerr + string \<times> string) option" where
  "Keygen rand =
     (case randomString rand 0 20 access_alphabet of
        None \<Rightarrow> None
      | Some (Inl e) \<Rightarrow> Some (Inl e)
      | Some (Inr (access, k)) \<Rightarrow>
          (case randomString rand k 40 secret_alphabet of
             None \<Rightarrow> None
           | Some (Inl e) \<Rightarrow> Some (Inl e)
           | Some (Inr (secret, _)) \<Rightarrow> Some (Inr (''TANA'' @ access, secret))))"

end
