(* ===== verification/BootLaws.thy ===== *)
theory BootLaws
  imports Bootstrap ConfigLaws S3ClientLaws
begin

text \<open>
  What the lifecycle commands may touch: an install never replaces the operator's
  configuration, a reset takes the four directories of the layout and nothing else, and the
  generated keys are uniform and fit for a signature.
\<close>

subsection \<open>Installing\<close>

lemma mk_dir_keeps: "fst (mk_dir io d m) p = m p \<or> m p = None \<and> fst (mk_dir io d m) p = Some FDir"
  by (auto simp: mk_dir_def split: option.splits fnode.splits)

definition grown :: "fs \<Rightarrow> fs \<Rightarrow> bool" where
  "grown m m' \<longleftrightarrow> (\<forall>p. m' p = m p \<or> m p = None \<and> m' p = Some FDir)"

lemma grown_refl [simp]: "grown m m"
  by (simp add: grown_def)

lemma grown_trans: "grown m m1 \<Longrightarrow> grown m1 m2 \<Longrightarrow> grown m m2"
  unfolding grown_def by metis

lemma grown_file: "grown m m' \<Longrightarrow> m p = Some f \<Longrightarrow> m' p = Some f"
  unfolding grown_def by (metis option.distinct(1))

lemma fold_cb_grown: "(\<And>x m. grown m (fst (fn x m))) \<Longrightarrow> grown m (fst (fold_cb fn xs m))"
proof (induction xs arbitrary: m)
  case (Cons x xs)
  obtain m1 e where s: "fn x m = (m1, e)" by force
  have "grown m m1" using Cons.prems [of m x] s by simp
  moreover have "grown m1 (fst (fold_cb fn xs m1))" by (rule Cons.IH) (rule Cons.prems)
  ultimately show ?case using s by (cases e) (auto intro: grown_trans)
qed simp

lemma MkdirAll_grown: "grown m (fst (MkdirAll io p m))"
  unfolding MkdirAll_def by (rule fold_cb_grown) (auto simp: grown_def mk_dir_keeps)

lemma layout_dirs_grown: "fold_cb (layout_dir io) ds m = (m', e) \<Longrightarrow> grown m m'"
proof -
  assume f: "fold_cb (layout_dir io) ds m = (m', e)"
  have "grown n (fst (layout_dir io d n))" for d n
    using MkdirAll_grown [of n io d] by (auto simp: layout_dir_def split: prod.splits option.splits)
  from fold_cb_grown [of "layout_dir io", OF this, of m ds] f show ?thesis by simp
qed

lemma WriteFile_other: "WriteFile io p data m = (m', e) \<Longrightarrow> q \<noteq> p \<Longrightarrow> m' q = m q"
  by (auto simp: WriteFile_def split: if_splits wout.splits)

lemma WriteFile_done: "WriteFile io p data m = (m', None) \<Longrightarrow> m' p = Some (FFile data)"
  by (auto simp: WriteFile_def split: if_splits wout.splits)

lemma EnsureLayout_keeps:
  assumes "EnsureLayout io skel m = (m', out, e)" "m ConfigFile = Some f" "io_stat io ConfigFile"
  shows "m' ConfigFile = Some f"
proof -
  obtain m1 e1 where l: "fold_cb (layout_dir io) [ConfigDir, StateDir, LogDir] m = (m1, e1)" by force
  have f: "m1 ConfigFile = Some f" by (rule grown_file [OF layout_dirs_grown [OF l] assms(2)])
  then have "installIfMissing io skel ConfigFile m1 = (m1, Inr False)"
    using assms(3) by (simp add: installIfMissing_def stat_ok_def)
  then show ?thesis using assms(1) l f by (cases e1) (auto simp: EnsureLayout_def)
qed

lemma EnsureLayout_done:
  assumes "EnsureLayout io skel m = (m', out, None)"
  shows "\<exists>f. m' ConfigFile = Some f"
proof -
  obtain m1 where l: "fold_cb (layout_dir io) [ConfigDir, StateDir, LogDir] m = (m1, None)"
    using assms by (auto simp: EnsureLayout_def split: prod.splits option.splits)
  show ?thesis using assms l
    by (auto simp: EnsureLayout_def installIfMissing_def stat_ok_def dest: WriteFile_done
        split: prod.splits option.splits sum.splits if_splits)
qed

lemma copyFile_other: "copyFile io src dst m = (m', e) \<Longrightarrow> q \<noteq> dst \<Longrightarrow> q \<noteq> dst @ ''.tmp'' \<Longrightarrow> m' q = m q"
  by (auto simp: copyFile_def dest: WriteFile_other split: option.splits fnode.splits if_splits prod.splits)

text \<open>The installed binary is the old one or the new one, whatever fails.\<close>

lemma copyFile_atomic:
  assumes "copyFile io src dst m = (m', e)" "m src = Some (FFile data)"
  shows "m' dst = m dst \<and> e \<noteq> None \<or> m' dst = Some (FFile data) \<and> e = None"
proof -
  have n: "dst \<noteq> dst @ ''.tmp''" by simp
  show ?thesis using assms n
    by (auto simp: copyFile_def dest: WriteFile_other [OF _ n] split: if_splits prod.splits option.splits)
qed

lemma install_unit_other:
  assumes "install_unit io unit policy m = (m', out, e)" "q \<noteq> UnitPath" "q \<noteq> LogrotateFile"
  shows "m' q = m q"
proof -
  obtain m1 e1 where w: "WriteFile io UnitPath unit m = (m1, e1)" by force
  have 1: "m1 q = m q" by (rule WriteFile_other [OF w assms(2)])
  show ?thesis
  proof (cases "e1 = None \<and> policy \<noteq> None")
    case True
    then obtain data m2 e2 where d: "policy = Some data" "WriteFile io LogrotateFile data m1 = (m2, e2)" by force
    have "m2 q = m1 q" by (rule WriteFile_other [OF d(2) assms(3)])
    then show ?thesis using assms(1) w d True 1 by (cases e2) (auto simp: install_unit_def Let_def)
  next
    case False
    then show ?thesis using assms(1) w 1 by (cases e1; cases policy) (auto simp: install_unit_def Let_def)
  qed
qed

lemma install_binary_other:
  assumes "install_binary io self m = (m', out, e)" "q \<noteq> Binary" "q \<noteq> Binary @ ''.tmp''"
  shows "m' q = m q"
proof (cases self)
  case None
  then show ?thesis using assms(1) by (simp add: install_binary_def)
next
  case (Some p)
  show ?thesis
  proof (cases "p = Binary")
    case True
    then show ?thesis using assms(1) Some by (simp add: install_binary_def)
  next
    case False
    obtain m1 e1 where c: "copyFile io p Binary m = (m1, e1)" by (metis prod.exhaust)
    have "m1 q = m q" by (rule copyFile_other [OF c assms(2,3)])
    then show ?thesis using assms(1) Some False c by (cases e1) (simp_all add: install_binary_def)
  qed
qed

lemma Init_keeps:
  assumes i: "boot_Init h io skel self unit policy m = (m', out, e)" and c: "m ConfigFile = Some f" "io_stat io ConfigFile"
  shows "m' ConfigFile = Some f"
proof -
  obtain m1 o1 e1 where l: "EnsureLayout io skel m = (m1, o1, e1)" by (metis prod.exhaust)
  obtain m2 o2 e2 where b: "install_binary io self m1 = (m2, o2, e2)" by (metis prod.exhaust)
  obtain m3 o3 e3 where u: "install_unit io unit policy m2 = (m3, o3, e3)" by (metis prod.exhaust)
  have n: "ConfigFile \<noteq> Binary" "ConfigFile \<noteq> Binary @ ''.tmp''" "ConfigFile \<noteq> UnitPath" "ConfigFile \<noteq> LogrotateFile"
    by (simp_all add: ConfigFile_def Binary_def UnitPath_def LogrotateFile_def)
  have 1: "m1 ConfigFile = Some f" by (rule EnsureLayout_keeps [OF l c])
  have 2: "m2 ConfigFile = m1 ConfigFile"
    by (rule install_binary_other [OF b n(1,2)])
  have 3: "m3 ConfigFile = m2 ConfigFile"
    by (rule install_unit_other [OF u n(3,4)])
  show ?thesis using i l b u 1 2 3 c by (auto simp: boot_Init_def split: option.splits)
qed

subsection \<open>Purging\<close>

lemma PurgeTargets_allowed: "list_all purgeAllowed PurgeTargets"
  by code_simp

lemma purge_run:
  assumes "fold (purge_one io) ts (m, removed, errs) = (m', removed', errs')"
  shows "(\<forall>t \<in> set ts. \<not> path_below t p) \<longrightarrow> m' p = m p" "m' p = m p \<or> m' p = None" "\<exists>more. errs' = errs @ more"
    "(\<forall>t \<in> set ts. m t = None \<longrightarrow> path_below t p \<longrightarrow> m p = None) \<longrightarrow> errs' = [] \<longrightarrow> (\<exists>t \<in> set ts. path_below t p) \<longrightarrow> m' p = None"
proof -
  have "((\<forall>t \<in> set ts. \<not> path_below t p) \<longrightarrow> m' p = m p) \<and> (m' p = m p \<or> m' p = None) \<and> (\<exists>more. errs' = errs @ more) \<and>
    ((\<forall>t \<in> set ts. m t = None \<longrightarrow> path_below t p \<longrightarrow> m p = None) \<longrightarrow> errs' = [] \<longrightarrow> (\<exists>t \<in> set ts. path_below t p) \<longrightarrow> m' p = None)"
    using assms
  proof (induction ts arbitrary: m removed errs)
    case (Cons t ts)
    obtain m1 r1 e1 where o: "purge_one io t (m, removed, errs) = (m1, r1, e1)" by (metis prod.exhaust)
    have rest: "fold (purge_one io) ts (m1, r1, e1) = (m', removed', errs')" using Cons.prems o by simp
    note ih = Cons.IH [OF rest]
    have s: "\<not> path_below t q \<longrightarrow> m1 q = m q" "m1 q = m q \<or> m1 q = None" "\<exists>more. e1 = errs @ more"
      "e1 = [] \<longrightarrow> path_below t q \<longrightarrow> (m t = None \<longrightarrow> path_below t q \<longrightarrow> m q = None) \<longrightarrow> m1 q = None" for q
      using o by (auto simp: purge_one_def stat_missing_def RemoveAll_def split: if_splits prod.splits option.splits)
    obtain x y where e: "e1 = errs @ x" "errs' = e1 @ y" using s(3) ih by blast
    have none: "m1 p = None \<Longrightarrow> m' p = None" using ih by auto
    show ?case
    proof (intro conjI impI)
      show "m' p = m p" if "\<forall>t\<in>set (t # ts). \<not> path_below t p" using that ih s(1) [of p] by simp
      show "m' p = m p \<or> m' p = None" using ih s(2) [of p] by auto
      show "\<exists>more. errs' = errs @ more" using e by simp
      assume closed: "\<forall>t'\<in>set (t # ts). m t' = None \<longrightarrow> path_below t' p \<longrightarrow> m p = None"
        and none': "errs' = []" and some: "\<exists>t'\<in>set (t # ts). path_below t' p"
      show "m' p = None"
      proof (cases "path_below t p")
        case True
        then have "m1 p = None" using s(4) [of p] e none' closed by simp
        then show ?thesis by (rule none)
      next
        case False
        show ?thesis
        proof (cases "m1 p = None")
          case False
          have "m1 p = m p" using s(2) [of p]
          proof
            assume "m1 p = None"
            with False show ?thesis by simp
          qed
          have "\<forall>t'\<in>set ts. m1 t' = None \<longrightarrow> path_below t' p \<longrightarrow> m1 p = None"
          proof (intro ballI impI)
            fix t' assume t': "t' \<in> set ts" "m1 t' = None" "path_below t' p"
            show "m1 p = None"
            proof (cases "m t' = None")
              case True
              then show ?thesis using closed t' \<open>m1 p = m p\<close> by simp
            next
              case False
              then have "path_below t t'" using s(1) [of t'] t'(2) by auto
              then have "path_below t p" using t'(3) by (auto simp: path_below_def has_prefix_iff)
              with \<open>\<not> path_below t p\<close> show ?thesis by simp
            qed
          qed
          then show ?thesis using ih none' some \<open>\<not> path_below t p\<close> by auto
        qed (rule none)
      qed
    qed
  qed simp
  then show "(\<forall>t \<in> set ts. \<not> path_below t p) \<longrightarrow> m' p = m p" "m' p = m p \<or> m' p = None" "\<exists>more. errs' = errs @ more"
    "(\<forall>t \<in> set ts. m t = None \<longrightarrow> path_below t p \<longrightarrow> m p = None) \<longrightarrow> errs' = [] \<longrightarrow> (\<exists>t \<in> set ts. path_below t p) \<longrightarrow> m' p = None"
    by - (elim conjE, assumption)+
qed

lemma Purge_cases:
  assumes "boot_Purge h io active yes stdin m = (m', removed, e)"
  obtains (refused) "m' = m" "removed = []" "e \<noteq> None"
  | (ran) errs where "hs_root h" "hs_os h = ''linux''" "\<not> active" "purge_confirmed yes stdin = None"
      "fold (purge_one io) PurgeTargets (m, [], []) = (m', removed, errs)" "e = None \<longleftrightarrow> errs = []"
proof (cases "requireRootLinux h = None \<and> \<not> active \<and> purge_confirmed yes stdin = None")
  case True
  obtain m1 r1 errs where f: "fold (purge_one io) PurgeTargets (m, [], []) = (m1, r1, errs)" by (metis prod.exhaust)
  show thesis
    by (rule ran [of errs])
      (use True f assms PurgeTargets_allowed in \<open>auto simp: boot_Purge_def requireRootLinux_def split: if_splits\<close>)
next
  case False
  then have "m' = m \<and> removed = [] \<and> e \<noteq> None"
    using assms PurgeTargets_allowed by (cases e) (auto simp: boot_Purge_def split: option.splits if_splits)
  then show thesis using refused by blast
qed

text \<open>
  C38: a reset is confined.  \<open>--purge\<close> changes nothing unless it runs as root on Linux with the
  service stopped and was confirmed; when it runs, every path outside the four directories of
  the layout keeps its content whatever fails, and when it reports success nothing is left
  below any of the four.
\<close>

theorem purge_is_confined:
  assumes run: "boot_Purge h io active yes stdin m = (m', removed, e)"
    and tree: "\<forall>t \<in> set PurgeTargets. m t = None \<longrightarrow> (\<forall>p. path_below t p \<longrightarrow> m p = None)"
  shows "(m' \<noteq> m \<longrightarrow> hs_root h \<and> hs_os h = ''linux'' \<and> \<not> active \<and> (yes \<or> (\<exists>line. stdin = Some line \<and> trim_space line = ''yes''))) \<and>
    (\<forall>p. (\<forall>t \<in> set PurgeTargets. \<not> path_below t p) \<longrightarrow> m' p = m p) \<and>
    (e = None \<longrightarrow> (\<forall>p. (\<exists>t \<in> set PurgeTargets. path_below t p) \<longrightarrow> m' p = None))"
  using run
proof (cases rule: Purge_cases)
  case (ran errs)
  have "yes \<or> (\<exists>line. stdin = Some line \<and> trim_space line = ''yes'')"
    using ran(4) by (auto simp: purge_confirmed_def split: if_splits option.splits)
  then show ?thesis using ran purge_run(1,4) [OF ran(5)] tree by blast
qed auto

definition demo_host :: hostfacts where
  "demo_host = \<lparr>hs_os = ''linux'', hs_arch = ''amd64'', hs_root = True, hs_osrelease = Some ''6.8.0-45-generic'',
     hs_devfuse = Some True, hs_lookPath = \<lambda>_. None\<rparr>"

definition demo_io :: hostio where
  "demo_io = \<lparr>io_stat = \<lambda>_. True, io_mkdir = \<lambda>_. True, io_read = \<lambda>_. True, io_write = \<lambda>_. WAll, io_rename = \<lambda>_. True,
     io_remove = \<lambda>_. None\<rparr>"

definition demo_fs :: fs where
  "demo_fs = [''/etc'' \<mapsto> FDir, ''/etc/tana'' \<mapsto> FDir, ''/etc/tana/config.yaml'' \<mapsto> FFile ''roles: [store]'',
     ''/srv'' \<mapsto> FDir, ''/srv/tana'' \<mapsto> FDir, ''/srv/tana/x'' \<mapsto> FFile ''hello'']"

theorem purge_is_confined_witness:
  "\<exists>m' removed e. boot_Purge demo_host demo_io False False (Some ''yes '') demo_fs = (m', removed, e) \<and>
     m' ''/srv/tana/x'' = Some (FFile ''hello'')"
proof -
  obtain m' removed e where p: "boot_Purge demo_host demo_io False False (Some ''yes '') demo_fs = (m', removed, e)"
    by (metis prod.exhaust)
  have tree: "\<forall>t \<in> set PurgeTargets. demo_fs t = None \<longrightarrow> (\<forall>p. path_below t p \<longrightarrow> demo_fs p = None)"
    by (simp add: PurgeTargets_def ConfigDir_def StateDir_def LogDir_def RunDir_def demo_fs_def path_below_def has_prefix_iff)
  have out: "\<forall>t \<in> set PurgeTargets. \<not> path_below t ''/srv/tana/x''" by code_simp
  have "m' ''/srv/tana/x'' = demo_fs ''/srv/tana/x''" using purge_is_confined [OF p tree] out by blast
  then show ?thesis using p by (simp add: demo_fs_def)
qed

text \<open>
  The directory of the blobs is the operator's choice, and nothing keeps it out of the
  directories of the layout: a configuration that puts it below the state directory loads.
\<close>

definition blobs_below_state :: cfgenv where
  "blobs_below_state = demo_cfgenv\<lparr>ce_yaml := \<lambda>_ _. Some (demo_config\<lparr>cf_roles := [RoleStore],
     cf_store := (cf_store demo_config)\<lparr>sc_data := ''/var/lib/tana/blobs''\<rparr>\<rparr>)\<rparr>"

lemma purge_can_take_the_blobs:
  "\<exists>c. cfg_Load blobs_below_state (Inr ''ok'') = Inr c \<and> path_below StateDir (sc_data (cf_store c))"
proof -
  have l: "\<not> isl (cfg_Load blobs_below_state (Inr ''ok''))" by code_simp
  have "path_below StateDir (sc_data (cf_store (projr (cfg_Load blobs_below_state (Inr ''ok'')))))" by code_simp
  with l show ?thesis by (cases "cfg_Load blobs_below_state (Inr ''ok'')") auto
qed

text \<open>
  The operator's configuration is never replaced.  When a configuration file is there and can
  be looked up, an install and a first start leave it as it is, wherever they fail; and an
  install that reports success leaves a configuration in place.
\<close>

theorem install_keeps_the_operator_config:
  assumes "io_stat io ConfigFile"
    and "boot_Init h io skel self unit policy m = (m1, o1, e1)" "EnsureLayout io skel m = (m2, o2, e2)"
  shows "(\<forall>f. m ConfigFile = Some f \<longrightarrow> m1 ConfigFile = Some f \<and> m2 ConfigFile = Some f) \<and>
    (e2 = None \<longrightarrow> m2 ConfigFile \<noteq> None)"
  using Init_keeps [OF assms(2) _ assms(1)] EnsureLayout_keeps [OF assms(3) _ assms(1)]
    EnsureLayout_done [of io skel m m2 o2] assms(3) by auto

theorem install_keeps_the_operator_config_witness:
  "\<exists>m1 o1 e1. boot_Init demo_host demo_io (Some ''roles: []'') (Some ''/root/tana'') ''[Unit]'' (Some ''rotate'') demo_fs = (m1, o1, e1) \<and>
     m1 ConfigFile = Some (FFile ''roles: [store]'')"
proof -
  obtain m1 o1 e1 where i: "boot_Init demo_host demo_io (Some ''roles: []'') (Some ''/root/tana'') ''[Unit]'' (Some ''rotate'') demo_fs = (m1, o1, e1)"
    by (metis prod.exhaust)
  obtain m2 o2 e2 where l: "EnsureLayout demo_io (Some ''roles: []'') demo_fs = (m2, o2, e2)" by (metis prod.exhaust)
  have "io_stat demo_io ConfigFile" by (simp add: demo_io_def)
  from install_keeps_the_operator_config [OF this i l] have "m1 ConfigFile = Some (FFile ''roles: [store]'')"
    by (simp add: demo_fs_def ConfigFile_def)
  with i show ?thesis by blast
qed

subsection \<open>Keys\<close>

definition key_char :: "string \<Rightarrow> char \<Rightarrow> char" where
  "key_char alphabet b = alphabet ! (of_char b mod length alphabet)"

lemma draw_take:
  "length out < n \<Longrightarrow>
   draw n alphabet bs out = take n (out @ map (key_char alphabet) (filter (\<lambda>b. of_char b < key_limit alphabet) bs))"
proof (induction n alphabet bs out rule: draw.induct)
  case (2 n alphabet b bs out)
  show ?case
  proof (cases "key_limit alphabet \<le> of_char b")
    case True
    then show ?thesis using 2 by simp
  next
    case False
    show ?thesis
    proof (cases "length out + 1 = n")
      case True
      then have n: "n = Suc (length out)" by simp
      show ?thesis unfolding n using False by (simp add: key_char_def)
    next
      case c: False
      then show ?thesis using False "2.IH"(2) [OF False refl] "2.prems" by (simp add: key_char_def)
    qed
  qed
qed simp

text \<open>Bytes accepted from \<open>N\<close> reads.\<close>

definition accepted_bytes :: "(nat \<Rightarrow> char list) \<Rightarrow> nat \<Rightarrow> string \<Rightarrow> nat \<Rightarrow> nat \<Rightarrow> char list" where
  "accepted_bytes buf n alphabet k N =
     concat (map (\<lambda>j. filter (\<lambda>b. of_char b < key_limit alphabet) (take n (buf j))) [k..<k + N])"

lemma accepted_Suc:
  "accepted_bytes buf n alphabet k (Suc N) =
   filter (\<lambda>b. of_char b < key_limit alphabet) (take n (buf k)) @ accepted_bytes buf n alphabet (Suc k) N"
  by (simp add: accepted_bytes_def upt_rec [of k "Suc (k + N)"] del: upt_Suc)

lemma random_loop_returns:
  assumes "\<forall>j. k \<le> j \<and> j < k + N \<longrightarrow> rand j = Some (buf j)" "n \<le> length out + length (accepted_bytes buf n alphabet k N)"
    and "length out \<le> n"
  shows "\<exists>k'. random_loop rand n alphabet k out =
    Some (Inr (take n (out @ map (key_char alphabet) (accepted_bytes buf n alphabet k N)), k'))"
  using assms
proof (induction N arbitrary: k out)
  case 0
  then have "\<not> length out < n" "take n out = out" by (simp_all add: accepted_bytes_def)
  then show ?case by (simp add: accepted_bytes_def random_loop.simps [of rand n alphabet k out])
next
  case (Suc N)
  show ?case
  proof (cases "length out < n")
    case False
    with Suc.prems(3) show ?thesis by (simp add: random_loop.simps [of rand n alphabet k out])
  next
    case True
    let ?f = "filter (\<lambda>b. of_char b < key_limit alphabet) (take n (buf k))"
    let ?out = "draw n alphabet (take n (buf k)) out"
    have o: "?out = take n (out @ map (key_char alphabet) ?f)" by (rule draw_take [OF True])
    have "rand k = Some (buf k)" using Suc.prems(1) by simp
    then have r: "random_loop rand n alphabet k out = random_loop rand n alphabet (Suc k) ?out"
      using True by (simp add: random_loop.simps [of rand n alphabet k out])
    have "n \<le> length ?out + length (accepted_bytes buf n alphabet (Suc k) N)"
      using Suc.prems(2) unfolding o accepted_Suc by simp
    moreover have "length ?out \<le> n" by (simp add: o)
    moreover have "\<forall>j. Suc k \<le> j \<and> j < Suc k + N \<longrightarrow> rand j = Some (buf j)" using Suc.prems(1) by simp
    ultimately obtain k' where
      k': "random_loop rand n alphabet (Suc k) ?out =
        Some (Inr (take n (?out @ map (key_char alphabet) (accepted_bytes buf n alphabet (Suc k) N)), k'))"
      using Suc.IH by blast
    have "take n (?out @ xs) = take n (out @ map (key_char alphabet) ?f @ xs)" for xs
      unfolding o using True by (cases "length out + length ?f \<le> n") (simp_all add: take_append min_absorb1)
    then show ?thesis unfolding r k' accepted_Suc by simp
  qed
qed

text \<open>Every character of the alphabet stands for equally many of the accepted bytes.\<close>

lemma key_chars_uniform:
  assumes "distinct alphabet" "i < length alphabet"
  shows "card {b. b < key_limit alphabet \<and> alphabet ! (b mod length alphabet) = alphabet ! i} = 256 div length alphabet"
proof -
  let ?n = "length alphabet"
  have n: "0 < ?n" by (rule le_less_trans [OF le0 assms(2)])
  have l: "key_limit alphabet = ?n * (256 div ?n)" by (simp add: key_limit_def minus_mod_eq_mult_div)
  have "{b. b < key_limit alphabet \<and> alphabet ! (b mod ?n) = alphabet ! i} = (\<lambda>j. ?n * j + i) ` {..<256 div ?n}"
  proof (intro set_eqI iffI)
    fix b assume "b \<in> {b. b < key_limit alphabet \<and> alphabet ! (b mod ?n) = alphabet ! i}"
    then have b: "b < ?n * (256 div ?n)" "b mod ?n = i"
      using assms n by (auto simp: l nth_eq_iff_index_eq)
    have "b = ?n * (b div ?n) + i" using b(2) mult_div_mod_eq [of ?n b] by simp
    moreover have "b div ?n < 256 div ?n" using b(1) n by (simp add: div_less_iff_less_mult mult.commute)
    ultimately show "b \<in> (\<lambda>j. ?n * j + i) ` {..<256 div ?n}" by blast
  next
    fix b assume "b \<in> (\<lambda>j. ?n * j + i) ` {..<256 div ?n}"
    then obtain j where j: "j < 256 div ?n" "b = ?n * j + i" by blast
    have "b < ?n * Suc j" using j assms(2) by simp
    also have "\<dots> \<le> ?n * (256 div ?n)" using j(1) by (intro mult_le_mono2) simp
    finally show "b \<in> {b. b < key_limit alphabet \<and> alphabet ! (b mod ?n) = alphabet ! i}"
      using j assms(2) by (simp add: l)
  qed
  moreover have "inj_on (\<lambda>j. ?n * j + i) {..<256 div ?n}" using n by (auto intro: inj_onI)
  ultimately show ?thesis by (simp add: card_image)
qed

lemma alphabets:
  "length access_alphabet = 32" "length secret_alphabet = 64" "distinct access_alphabet" "distinct secret_alphabet"
  "key_limit access_alphabet = 256" "key_limit secret_alphabet = 256"
  "CHR ''/'' \<notin> set access_alphabet" "CHR '','' \<notin> set access_alphabet"
  by code_simp+

lemma of_char_256: "of_char b < (256 :: nat)"
  by (simp add: of_char_def)



end
