(* ===== verification/Status.thy ===== *)
theory Status
  imports Host ConfigLoad
begin

text \<open>
  internal/status: the control socket between the command line and the daemon.  The JSON of a
  reply, the text of an error and of a warning and the decimal of a quotient are arguments
  (\<open>statuslib\<close>); the socket file is absent, left behind by a dead daemon, or served.
\<close>

subsection \<open>What a daemon reports\<close>

record nsinfo =
  nm_name :: string
  nm_stats :: stats
  nm_note :: "gerr option"

record storeinfo =
  sf_listen :: string
  sf_data :: string
  sf_replica :: string
  sf_journalSeq :: u64
  sf_appliedSeq :: u64
  sf_note :: "gerr option"
  sf_buckets :: "nsinfo list"

record statusinfo =
  in_version :: string
  in_pid :: int
  in_started :: gotime
  in_uptime :: string
  in_config :: string
  in_configError :: "gerr option"
  in_warnings :: "warning list"
  in_roles :: "string list"
  in_caps :: "string list"
  in_store :: "storeinfo option"
  in_agent :: "nsinfo list option"

text \<open>The two documents a reply can be.\<close>

datatype statusdoc = DInfo statusinfo | DError string

record statuslib =
  js_encode :: "statusdoc \<Rightarrow> string"
  js_decode :: "string \<Rightarrow> statusinfo option"
  js_error :: "gerr \<Rightarrow> string"
  js_warning :: "warning \<Rightarrow> string"
  js_tenths :: "int \<Rightarrow> int \<Rightarrow> string"

definition CmdStatus :: string where "CmdStatus = ''status''"

subsection \<open>The server\<close>

datatype sock = NoSock | StaleSock | LiveSock

text \<open>
  The outcomes of \<open>MkdirAll\<close>, \<open>Stat\<close>, \<open>Dial\<close>, \<open>Remove\<close>, \<open>Listen\<close> and \<open>Chmod\<close>.  Nothing can listen where a
  socket file is left, and closing the listener unlinks its file.
\<close>

record sockio =
  ko_mkdir :: bool
  ko_stat :: bool
  ko_dial :: bool
  ko_remove :: bool
  ko_listen :: bool
  ko_chmod :: bool

definition removeStale :: "sockio \<Rightarrow> sock \<Rightarrow> sock \<times> gerr option" where
  "removeStale io k =
     (if \<not> ko_stat io \<or> k = NoSock then (k, None)
      else if k = LiveSock \<and> ko_dial io
      then (k, Some (Errf ''control socket is already in use: another tana is running''))
      else if ko_remove io then (NoSock, None)
      else (k, Some (Errf ''remove stale socket'')))"

definition status_Serve :: "sockio \<Rightarrow> sock \<Rightarrow> sock \<times> gerr option" where
  "status_Serve io k =
     (if \<not> ko_mkdir io then (k, Some (Errf ''control socket''))
      else
        (case removeStale io k of
           (k1, Some e) \<Rightarrow> (k1, Some e)
         | (k1, None) \<Rightarrow>
             if \<not> ko_listen io \<or> k1 \<noteq> NoSock then (k1, Some (Errf ''control socket''))
             else if \<not> ko_chmod io then (NoSock, Some (Errf ''control socket''))
             else (LiveSock, None)))"

definition status_Close :: "sock \<Rightarrow> sock" where "status_Close k = NoSock"

text \<open>
  One connection: \<open>input\<close> is what the peer sends before it stops or the deadline passes.  The
  reply is empty when nothing came.
\<close>

definition status_handle :: "statuslib \<Rightarrow> (unit \<Rightarrow> statusinfo) \<Rightarrow> string \<Rightarrow> string" where
  "status_handle J collect input =
     (if input = [] then []
      else
        let cmd = trim_space (takeWhile (\<lambda>c. c \<noteq> NL) input) in
        if cmd = CmdStatus \<or> cmd = [] then js_encode J (DInfo (collect ()))
        else js_encode J (DError ''unknown command''))"

subsection \<open>The client\<close>

text \<open>\<open>dial\<close> is the daemon behind the socket, nothing when nobody listens; it may refuse the request.\<close>

definition status_Query :: "statuslib \<Rightarrow> (string \<Rightarrow> string option) option \<Rightarrow> gerr + statusinfo" where
  "status_Query J dial =
     (case dial of
        None \<Rightarrow> Inl (Errf ''control socket unavailable'')
      | Some serve \<Rightarrow>
          (case serve (CmdStatus @ [NL]) of
             None \<Rightarrow> Inl ErrIO
           | Some reply \<Rightarrow> (case js_decode J reply of None \<Rightarrow> Inl (Errf ''malformed reply'') | Some i \<Rightarrow> Inr i)))"

fun human_unit :: "nat \<Rightarrow> int \<Rightarrow> int \<times> nat \<Rightarrow> int \<times> nat" where
  "human_unit 0 v de = de"
| "human_unit (Suc n) v (d, e) = (if 1024 \<le> v then human_unit n (v div 1024) (d * 1024, Suc e) else (d, e))"

definition humanBytes :: "statuslib \<Rightarrow> i64 \<Rightarrow> string" where
  "humanBytes J n =
     (if sint n < 1024 then format_int (sint n) @ '' B''
      else
        (case human_unit 4 (sint n div 1024) (1024, 0) of
           (d, e) \<Rightarrow> js_tenths J (sint n) d @ '' '' @ [''KMGTP'' ! e] @ ''iB''))"

definition pad_right :: "nat \<Rightarrow> string \<Rightarrow> string" where
  "pad_right n s = s @ replicate (n - length s) (CHR '' '')"

definition pad_left :: "nat \<Rightarrow> string \<Rightarrow> string" where
  "pad_left n s = replicate (n - length s) (CHR '' '') @ s"

definition renderNamespaces :: "statuslib \<Rightarrow> string \<Rightarrow> nsinfo list \<Rightarrow> string list" where
  "renderNamespaces J kind list =
     (if list = [] then [''  no '' @ kind @ '' configured'']
      else
        concat (map (\<lambda>n.
          let st = nm_stats n in
          (''  '' @ pad_right 28 (nm_name n) @ '' '' @ pad_left 8 (format_int (sint (s_objects st))) @ '' obj  '' @
             pad_left 10 (humanBytes J (s_bytes st)) @ '' total  '' @ pad_left 10 (humanBytes J (s_localBytes st)) @
             '' local  '' @ format_int (sint (s_dirtyObjects st)) @ '' dirty'')
          # (case nm_note n of None \<Rightarrow> [] | Some e \<Rightarrow> [''  '' @ pad_right 28 [] @ '' '' @ js_error J e])) list))"

definition lag_text :: "u64 \<Rightarrow> u64 \<Rightarrow> string" where
  "lag_text journal applied =
     (if applied < journal then ''  (index behind by '' @ format_uint (journal - applied) @ '')'' else [])"

definition status_render :: "statuslib \<Rightarrow> statusinfo \<Rightarrow> string list" where
  "status_render J i =
     [''tana '' @ in_version i @ ''  running  pid '' @ format_int (in_pid i) @ ''  up '' @ in_uptime i,
      ''roles: '' @ join_with '', '' (in_roles i),
      ''config: '' @ in_config i] @
     (case in_configError i of
        None \<Rightarrow> []
      | Some e \<Rightarrow> [''  reload failed, still serving the last good config: '' @ js_error J e]) @
     map (\<lambda>w. ''  warning: '' @ js_warning J w) (in_warnings i) @
     (case in_store i of
        None \<Rightarrow> []
      | Some s \<Rightarrow>
          [[], ''store  listen '' @ sf_listen s @ ''  data '' @ sf_data s @ ''  replica '' @ sf_replica s,
           ''  journal seq '' @ format_uint (sf_journalSeq s) @ '', applied '' @ format_uint (sf_appliedSeq s) @
             lag_text (sf_journalSeq s) (sf_appliedSeq s)] @
          (case sf_note s of None \<Rightarrow> [] | Some e \<Rightarrow> [''  '' @ js_error J e]) @
          renderNamespaces J ''bucket'' (sf_buckets s)) @
     (case in_agent i of None \<Rightarrow> [] | Some sites \<Rightarrow> [[], ''agent''] @ renderNamespaces J ''site'' sites) @
     (if in_caps i = [] then [] else [[], ''host''] @ map (\<lambda>l. ''  '' @ l) (in_caps i))"

text \<open>What one query prints, and the exit code; the JSON of a daemon that does not answer is an argument.\<close>

definition printOnce ::
    "statuslib \<Rightarrow> (string \<Rightarrow> gerr \<Rightarrow> string) \<Rightarrow> string \<Rightarrow> string \<Rightarrow> bool \<Rightarrow> (string \<Rightarrow> string option) option \<Rightarrow> string list \<times> int" where
  "printOnce J offline version cfgPath jsonOut dial =
     (case status_Query J dial of
        Inl e \<Rightarrow>
          (if jsonOut then [offline cfgPath e]
           else [''tana '' @ version @ '': not running ('' @ js_error J e @ '')'', ''config: '' @ cfgPath, [],
                 ''start it with: tana start''], 1)
      | Inr i \<Rightarrow> (if jsonOut then [js_encode J (DInfo i)] else status_render J i, 0))"

text \<open>
  \<open>Run\<close>: once, with its exit code, or one screen for every element of \<open>dials\<close>, the daemon as
  it is at that tick, without ever returning.
\<close>

definition status_Run ::
    "statuslib \<Rightarrow> (string \<Rightarrow> gerr \<Rightarrow> string) \<Rightarrow> string \<Rightarrow> string \<Rightarrow> bool \<Rightarrow> duration \<Rightarrow> (string \<Rightarrow> string option) option list \<Rightarrow>
     string list list \<times> int option" where
  "status_Run J offline version cfgPath jsonOut watch dials =
     (if watch \<le> 0 then
        (case printOnce J offline version cfgPath jsonOut (case dials of [] \<Rightarrow> None | d # _ \<Rightarrow> d) of
           (out, code) \<Rightarrow> ([out], Some code))
      else (map (\<lambda>d. fst (printOnce J offline version cfgPath jsonOut d)) dials, None))"

end
