(* ===== verification/Daemon.thy ===== *)
theory Daemon
  imports Status Bootstrap Fsck Gc Replica Mount S3Client Recovery
begin

text \<open>
  cmd/tana/main.go: the command line, the startup of the daemon with its two roles, the reload,
  the shutdown, the status it reports and the offline maintenance.  \<open>daemonio\<close> says how every
  call to the machine ends.  What is only logged or printed as progress is left out.
\<close>

subsection \<open>The front door\<close>

text \<open>\<open>http.ServeMux\<close> over the escaped path: cleaning, the missing slash, and the longer pattern first.\<close>

definition mux_cleanPath :: "string \<Rightarrow> string" where
  "mux_cleanPath p =
     (if p = [] then ''/''
      else
        let p = (if hd p = CHR ''/'' then p else CHR ''/'' # p); np = path_clean p in
        if last p = CHR ''/'' \<and> np \<noteq> ''/'' then np @ ''/'' else np)"

definition mux_segment :: "string \<Rightarrow> string" where
  "mux_segment seg = (case url_unescape False seg of None \<Rightarrow> seg | Some s \<Rightarrow> s)"

definition mux_segments :: "string \<Rightarrow> string list" where
  "mux_segments p = map mux_segment (tl (split_on (CHR ''/'') p))"

datatype routed = Moved string | ToReplica | ToS3

definition mux_route :: "bool \<Rightarrow> bool \<Rightarrow> string \<Rightarrow> routed" where
  "mux_route primary connect path =
     (let p = (if connect then path else mux_cleanPath path); segs = mux_segments p in
      if primary \<and> segs = [''-'', ''replica''] then Moved (p @ ''/'')
      else if p \<noteq> path then Moved p
      else if primary \<and> 3 \<le> length segs \<and> take 2 segs = [''-'', ''replica''] then ToReplica
      else ToS3)"

subsection \<open>A site\<close>

text \<open>
  \<open>mount.New\<close>: the mount point, the backing directory and go-fuse; and \<open>Unmount\<close>, which asks go-fuse once,
  however often it is called.
\<close>

record mountio =
  mi_mkdir :: bool
  mi_stat :: bool
  mi_fuse :: bool

definition mount_start :: "mountio \<Rightarrow> u32 \<Rightarrow> gerr + mount" where
  "mount_start io uid =
     (if \<not> mi_mkdir io then Inl (Errf ''mount: create mountpoint'')
      else if \<not> mi_stat io then Inl (Errf ''mount: stat backing store'')
      else if \<not> mi_fuse io then Inl (Errf ''mount'')
      else Inr (mount_New uid))"

definition mount_Unmount :: "bool \<Rightarrow> bool \<Rightarrow> bool \<times> gerr option" where
  "mount_Unmount ok once_done = (True, if once_done \<or> ok then None else Some ErrIO)"

text \<open>What a site meets: \<open>so_endpoint\<close> is what \<open>url.Parse\<close> makes of its endpoint, \<open>so_uid\<close> the user database.\<close>

record siteio =
  so_endpoint :: "(string \<times> string) option"
  so_mkdir :: bool
  so_sys :: agentsys
  so_watch :: bool
  so_uid :: "string \<Rightarrow> string option"
  so_mount :: mountio
  so_objects :: "string bucket"

definition agent_New :: "siteio \<Rightarrow> sitecfg \<Rightarrow> lfile bucket \<Rightarrow> db \<Rightarrow> gerr + agent" where
  "agent_New so site files d =
     res_bind (cli_New (si_backend site) (so_endpoint so)) (\<lambda>_.
       if \<not> so_mkdir so then Inl (Errf ''agent: create backing store'')
       else Inr \<lparr>ag_site = site, ag_db = d, ag_disk = files, ag_remote = so_objects so, ag_queue = [], ag_pending = []\<rparr>)"

text \<open>
  \<open>Start\<close>: the scan that finds what changed while the daemon was down, then the watcher, which
  from then on hands its events to \<open>handleEvent\<close>.
\<close>

definition agent_Start :: "env \<Rightarrow> siteio \<Rightarrow> agent \<Rightarrow> agent \<times> gerr option" where
  "agent_Start E so a =
     (case agent_Scan E (so_sys so) a of
        (a1, _, Some e) \<Rightarrow> (a1, Some e)
      | (a1, _, None) \<Rightarrow> if so_watch so then (a1, None) else (a1, Some (Errf ''agent: watch'')))"

definition agent_watch :: "env \<Rightarrow> (agentsys \<times> fsevent) list \<Rightarrow> agent \<Rightarrow> agent" where
  "agent_watch E evs a = fold (\<lambda>v. handleEvent E (fst v) (snd v)) evs a"

text \<open>\<open>Drain\<close> looks at the agent every ten milliseconds until it has nothing left or the context ends.\<close>

fun agent_Drain :: "agent list \<Rightarrow> gerr option" where
  "agent_Drain [] = Some (Errf ''context done'')"
| "agent_Drain (a # as) = (if drained a then None else agent_Drain as)"

definition parse_uid :: "string \<Rightarrow> u32 option" where
  "parse_uid s =
     (if s \<noteq> [] \<and> list_all is_digit s \<and> digits_val s < 2 ^ 32 then Some (of_nat (digits_val s)) else None)"

definition resolveUID :: "(string \<Rightarrow> string option) \<Rightarrow> string \<Rightarrow> gerr + u32" where
  "resolveUID lookup name =
     (if name = [] then Inr 0
      else
        (case parse_uid name of
           Some n \<Rightarrow> Inr n
         | None \<Rightarrow>
             (case lookup name of
                None \<Rightarrow> Inl (Errf ''mount.populate_user'')
              | Some uid \<Rightarrow> (case parse_uid uid of None \<Rightarrow> Inl (Errf ''mount.populate_user: unreadable uid'') | Some n \<Rightarrow> Inr n))))"

record sites =
  ss_db :: db
  ss_agents :: "(string \<times> agent) list"
  ss_mounts :: "(string \<times> mount) list"

definition start_site :: "env \<Rightarrow> (string \<Rightarrow> siteio) \<Rightarrow> lfile bucket \<Rightarrow> sitecfg \<Rightarrow> sites \<Rightarrow> sites \<times> gerr option" where
  "start_site E sio files site ss =
     (let so = sio (si_name site) in
      case agent_New so site files (ss_db ss) of
        Inl e \<Rightarrow> (ss, Some e)
      | Inr a \<Rightarrow>
          (case agent_Start E so a of
             (a1, Some _) \<Rightarrow> (ss\<lparr>ss_db := ag_db a1\<rparr>, Some (Errf ''site''))
           | (a1, None) \<Rightarrow>
               let ss1 = ss\<lparr>ss_db := ag_db a1, ss_agents := ss_agents ss @ [(si_name site, a1)]\<rparr> in
               (case resolveUID (so_uid so) (mo_populateUser (si_mount site)) of
                  Inl _ \<Rightarrow> (ss1, Some (Errf ''site''))
                | Inr uid \<Rightarrow>
                    (case mount_start (so_mount so) uid of
                       Inl _ \<Rightarrow> (ss1, Some (Errf ''site''))
                     | Inr mnt \<Rightarrow> (ss1\<lparr>ss_mounts := ss_mounts ss1 @ [(si_name site, mnt)]\<rparr>, None)))))"

subsection \<open>Startup\<close>

record daemonio =
  di_host :: hostfacts
  di_fs :: hostio
  di_skel :: "string option"
  di_logs :: bool
  di_sys :: sysenv
  di_tmp :: "string \<Rightarrow> bool"
  di_journal :: "open_fault option"
  di_listen :: bool
  di_site :: "string \<Rightarrow> siteio"
  di_watch :: bool
  di_sock :: sockio

text \<open>
  The machine: the file system of the layout, and beside it the disk of the store and the files of
  the sites, which have models of their own.
\<close>

record machine =
  mc_fs :: fs
  mc_disk :: disk
  mc_files :: "lfile bucket"
  mc_sock :: sock

record daemon =
  dm_mgr :: manager
  dm_host :: report
  dm_db :: db
  dm_store :: "store option"
  dm_secondary :: "replicaStatus option"
  dm_agents :: "(string \<times> agent) list"
  dm_mounts :: "(string \<times> mount) list"
  dm_sock :: sock
  dm_status :: bool

definition read_file :: "string \<Rightarrow> fs \<Rightarrow> gerr + string" where
  "read_file p m = (case m p of Some (FFile data) \<Rightarrow> Inr data | _ \<Rightarrow> Inl ErrIO)"

definition provision :: "hostio \<Rightarrow> string option \<Rightarrow> string \<Rightarrow> fs \<Rightarrow> fs \<times> gerr option" where
  "provision io skel cfgPath m =
     (if cfgPath = ConfigFile \<and> stat_missing io cfgPath m
      then (case EnsureLayout io skel m of (m', _, e) \<Rightarrow> (m', e))
      else (m, None))"

text \<open>The store role: open, replay, listen.\<close>

definition start_store :: "env \<Rightarrow> daemonio \<Rightarrow> storecfg \<Rightarrow> disk \<Rightarrow> db \<Rightarrow> gerr + store" where
  "start_store E io cfg dk d =
     res_bind (store_New E (di_tmp io) (di_journal io) (sc_buckets cfg) (sc_gc cfg) (dk_blobs dk) (dk_jrnl dk) d) (\<lambda>s.
       case store_Recover E (di_sys io) s of
         (_, Inl e) \<Rightarrow> Inl e
       | (s1, Inr _) \<Rightarrow> if di_listen io then Inr s1 else Inl (Errf ''s3 listener''))"

definition start_secondary :: "storecfg \<Rightarrow> store \<Rightarrow> replicaStatus option" where
  "start_secondary cfg s =
     (if rc_mode (sc_replica cfg) = ReplicaSecondary then Some (sec_status (NewSecondary s (sc_replica cfg))) else None)"

text \<open>
  \<open>runDaemon\<close> up to the signal loop: the mounts that exist when it is over, and the error it
  returns or the daemon.  Nothing unmounts what was mounted when a later step fails.
\<close>

definition run_roles :: "env \<Rightarrow> daemonio \<Rightarrow> manager \<Rightarrow> report \<Rightarrow> machine \<Rightarrow> db \<Rightarrow> (string \<times> mount) list \<times> (gerr + daemon)" where
  "run_roles E io mgr host mc d =
     (let cfg = mg_Get mgr in
      case (if cfg_Has cfg RoleStore then map_sum id Some (start_store E io (cf_store cfg) (mc_disk mc) d) else Inr None) of
        Inl e \<Rightarrow> ([], Inl e)
      | Inr st \<Rightarrow>
          let ss0 = \<lparr>ss_db = (case st of None \<Rightarrow> d | Some s \<Rightarrow> s_db s), ss_agents = [], ss_mounts = []\<rparr> in
          (case (if cfg_Has cfg RoleAgent then fold_cb (start_site E (di_site io) (mc_files mc)) (cf_sites cfg) ss0 else (ss0, None)) of
             (ss, Some e) \<Rightarrow> (ss_mounts ss, Inl e)
           | (ss, None) \<Rightarrow>
               if \<not> di_watch io then (ss_mounts ss, Inl (Errf ''config watch''))
               else
                 (case status_Serve (di_sock io) (mc_sock mc) of
                    (k, e) \<Rightarrow>
                      (ss_mounts ss,
                       Inr \<lparr>dm_mgr = mgr, dm_host = host, dm_db = ss_db ss,
                            dm_store = map_option (\<lambda>s. s\<lparr>s_db := ss_db ss\<rparr>) st,
                            dm_secondary = Option.bind st (start_secondary (cf_store cfg)),
                            dm_agents = map (\<lambda>p. (fst p, (snd p)\<lparr>ag_db := ss_db ss\<rparr>)) (ss_agents ss),
                            dm_mounts = ss_mounts ss, dm_sock = k, dm_status = (e = None)\<rparr>))))"

definition runDaemon :: "env \<Rightarrow> cfgenv \<Rightarrow> daemonio \<Rightarrow> string \<Rightarrow> machine \<Rightarrow> (string \<times> mount) list \<times> (gerr + daemon)" where
  "runDaemon E C io cfgPath mc =
     (case provision (di_fs io) (di_skel io) cfgPath (mc_fs mc) of
        (_, Some e) \<Rightarrow> ([], Inl e)
      | (m, None) \<Rightarrow>
          (case NewManager C cfgPath (read_file cfgPath m) of
             Inl e \<Rightarrow> ([], Inl e)
           | Inr mgr \<Rightarrow>
               let host = caps_Probe (di_host io) in
               if cfg_Has (mg_Get mgr) RoleAgent \<and> AgentReady host \<noteq> None
               then ([], Inl (Errf ''agent role declared''))
               else if \<not> di_logs io then ([], Inl (Errf ''open logs''))
               else
                 (case MkdirAll (di_fs io) StateDir m of
                    (_, Some _) \<Rightarrow> ([], Inl (Errf ''create''))
                  | (_, None) \<Rightarrow>
                      (case db_open E (sy_commit (di_sys io)) (dk_index (mc_disk mc)) of
                         (_, Inl e) \<Rightarrow> ([], Inl e)
                       | (d, Inr _) \<Rightarrow> run_roles E io mgr host mc d))))"

subsection \<open>The running daemon\<close>

text \<open>The ticks of \<open>atimeLoop\<close>; the access times of a flush that fails are dropped.\<close>

fun atime_ticks :: "env \<Rightarrow> bool list \<Rightarrow> db \<Rightarrow> db" where
  "atime_ticks E [] d = d"
| "atime_ticks E (ok # oks) d = atime_ticks E oks (db_flushATimes E ok d)"

text \<open>A collection for every tick, if the interval is positive; an error is only logged.\<close>

fun gc_ticks :: "env \<Rightarrow> (gcenv \<times> gotime \<times> duration) list \<Rightarrow> store \<Rightarrow> store" where
  "gc_ticks E [] s = s"
| "gc_ticks E ((G, now, took) # ts) s = gc_ticks E ts (fst (fst (store_GC E G now took s)))"

definition StartGC :: "env \<Rightarrow> (gcenv \<times> gotime \<times> duration) list \<Rightarrow> store \<Rightarrow> store" where
  "StartGC E ticks s = (if gc_interval (s_gc s) \<le> 0 then s else gc_ticks E ticks s)"

definition daemon_event :: "cfgenv \<Rightarrow> watch_event \<Rightarrow> daemon \<Rightarrow> daemon" where
  "daemon_event C ev d =
     (case watch_step C ev (dm_mgr d) of
        (m, OnReload cfg) \<Rightarrow>
          d\<lparr>dm_mgr := m, dm_store := map_option (store_Configure (sc_buckets (cf_store cfg)) (sc_gc (cf_store cfg))) (dm_store d)\<rparr>
      | (m, _) \<Rightarrow> d\<lparr>dm_mgr := m\<rparr>)"

datatype signal = SIGHUP | SIGINT | SIGTERM

text \<open>
  The signal loop: whether it returned, with what is left.  \<open>unm\<close> says which mounts can be
  unmounted; the store and the index are closed when \<open>runDaemon\<close> returns.
\<close>

definition daemon_shutdown :: "env \<Rightarrow> (string \<Rightarrow> bool) \<Rightarrow> bool \<Rightarrow> daemon \<Rightarrow> daemon" where
  "daemon_shutdown E unm flush d =
     d\<lparr>dm_mounts := filter (\<lambda>p. snd (mount_Unmount (unm (fst p)) False) \<noteq> None) (dm_mounts d),
       dm_sock := (if dm_status d then status_Close (dm_sock d) else dm_sock d),
       dm_store := map_option store_Close (dm_store d),
       dm_db := \<lparr>db_file = db_close E flush (dm_db d), db_pending = []\<rparr>\<rparr>"

fun signal_loop :: "env \<Rightarrow> (string \<Rightarrow> bool) \<Rightarrow> bool \<Rightarrow> signal list \<Rightarrow> daemon \<Rightarrow> daemon \<times> bool" where
  "signal_loop E unm flush [] d = (d, False)"
| "signal_loop E unm flush (s # ss) d =
     (if s = SIGHUP then signal_loop E unm flush ss d else (daemon_shutdown E unm flush d, True))"

subsection \<open>What the daemon reports\<close>

definition ns_status :: "db \<Rightarrow> string \<Rightarrow> string \<Rightarrow> gerr option \<Rightarrow> nsinfo" where
  "ns_status d scoped display note =
     (case ix_statsOf scoped (db_file d) of
        Inr st \<Rightarrow> \<lparr>nm_name = display, nm_stats = st, nm_note = note\<rparr>
      | Inl _ \<Rightarrow> \<lparr>nm_name = display, nm_stats = zero_stats, nm_note = Some (Errf ''index unreadable'')\<rparr>)"

definition store_status :: "daemon \<Rightarrow> storecfg \<Rightarrow> storeinfo" where
  "store_status d cfg =
     (let applied = (case dm_store d of None \<Rightarrow> Inr 0 | Some s \<Rightarrow> appliedSeq (dm_db d));
          lagging = Option.bind (dm_secondary d) rs_error
      in \<lparr>sf_listen = sc_listen cfg, sf_data = sc_data cfg,
          sf_replica =
            (case dm_secondary d of
               None \<Rightarrow> rc_mode (sc_replica cfg)
             | Some rep \<Rightarrow> ''secondary of '' @ rs_from rep @ '', lag '' @ format_uint (rs_lag rep)),
          sf_journalSeq = (case dm_store d of None \<Rightarrow> 0 | Some s \<Rightarrow> j_last (s_jrnl s)),
          sf_appliedSeq = (case applied of Inl _ \<Rightarrow> 0 | Inr v \<Rightarrow> v),
          sf_note =
            (case applied of
               Inl _ \<Rightarrow> Some (Errf ''journal position unreadable'')
             | Inr _ \<Rightarrow> map_option (\<lambda>_. Errf ''replication'') lagging),
          sf_buckets = map (\<lambda>b. ns_status (dm_db d) (ix_namespace ScopeStore (bc_name b)) (bc_name b) None) (sc_buckets cfg)\<rparr>)"

definition site_status :: "daemon \<Rightarrow> sitecfg \<Rightarrow> nsinfo" where
  "site_status d site =
     ns_status (dm_db d) (ix_namespace ScopeAgent (si_name site)) (si_name site)
       (if map_of (dm_agents d) (si_name site) = None then Some (Errf ''not running'') else None)"

text \<open>\<open>pid\<close>, \<open>started\<close> and \<open>uptime\<close> are what the system says of the process.\<close>

definition daemon_collect :: "string \<Rightarrow> int \<Rightarrow> gotime \<Rightarrow> string \<Rightarrow> daemon \<Rightarrow> statusinfo" where
  "daemon_collect version pid started uptime d =
     (let cfg = mg_Get (dm_mgr d) in
      \<lparr>in_version = version, in_pid = pid, in_started = started, in_uptime = uptime,
       in_config = mg_Path (dm_mgr d), in_configError = mg_LastError (dm_mgr d), in_warnings = cf_warnings cfg,
       in_roles = cf_roles cfg, in_caps = report_Lines (dm_host d),
       in_store = (if cfg_Has cfg RoleStore then Some (store_status d (cf_store cfg)) else None),
       in_agent = (if cfg_Has cfg RoleAgent then Some (map (site_status d) (cf_sites cfg)) else None)\<rparr>)"

subsection \<open>Maintenance with the daemon stopped\<close>

definition offlineStore :: "env \<Rightarrow> cfgenv \<Rightarrow> daemonio \<Rightarrow> bool \<Rightarrow> gerr + string \<Rightarrow> disk \<Rightarrow> gerr + store" where
  "offlineStore E C io active file dk =
     res_bind (cfg_Load C file) (\<lambda>cfg.
       if \<not> cfg_Has cfg RoleStore then Inl (Errf ''this machine does not run the store role'')
       else if active then Inl (Errf ''tana is running: stop it first (tana stop)'')
       else
         (case db_open E (sy_commit (di_sys io)) (dk_index dk) of
            (_, Inl e) \<Rightarrow> Inl e
          | (d, Inr _) \<Rightarrow>
              store_New E (di_tmp io) (di_journal io) (sc_buckets (cf_store cfg)) (sc_gc (cf_store cfg)) (dk_blobs dk) (dk_jrnl dk) d))"

text \<open>What the two print; \<open>took\<close> is the time they needed.  The progress of a scrub is left out.\<close>

definition missing_lines :: "string list \<Rightarrow> string list" where
  "missing_lines keys =
     (if keys = [] then []
      else [[], format_nat (length keys) @ '' object(s) reference content that is not on disk:''] @
        map (\<lambda>k. ''   '' @ k) (take 20 keys) @
        (if 20 < length keys then [''  ... and '' @ format_nat (length keys - 20) @ '' more''] else []) @
        [[], ''This is data loss, not bookkeeping: restore those objects from a'',
         ''secondary or a backup. Rebuilding the index will not bring them back.''])"

definition fsck_lines :: "string \<Rightarrow> fsckReport \<Rightarrow> string list" where
  "fsck_lines took rep =
     (if fr_rebuilt rep then [''rebuilt the index from '' @ format_nat (fr_journalRecords rep) @ '' journal record(s)''] else []) @
     [''objects:            '' @ format_int (sint (fr_objects rep)),
      ''references:         '' @ format_int (sint (fr_references rep)),
      ''unreferenced blobs: '' @ format_int (sint (fr_unreferenced rep)) @ '' (the collector removes these)'',
      ''stale references:   '' @ format_int (sint (fr_staleRefs rep)),
      ''checked in '' @ took] @
     missing_lines (fr_missing rep) @
     (if fsck_Healthy rep then [[], ''no problems found''] else [])"

definition scrub_lines :: "string \<Rightarrow> scrubReport \<Rightarrow> string list" where
  "scrub_lines took rep =
     [''blobs:   '' @ format_int (sint (sr_blobs rep)),
      ''bytes:   '' @ format_int (sint (sr_bytes rep)),
      ''foreign: '' @ format_int (sint (sr_foreign rep)) @ '' (files tana did not write, left alone)'',
      ''read in '' @ took] @
     (if sr_corrupt rep \<noteq> []
      then [[], format_nat (length (sr_corrupt rep)) @ '' blob(s) no longer match their hash:''] @
        map (\<lambda>h. ''   '' @ h) (sr_corrupt rep) @
        [[], ''The content rotted underneath tana. Whatever redundancy sits below'',
         ''the blob store did not do its job; check the array before restoring.'']
      else [[], ''every blob matches its hash''])"

text \<open>The exit code and what is printed; \<open>ok\<close> says which transactions commit.\<close>

definition runFsck ::
    "env \<Rightarrow> cfgenv \<Rightarrow> daemonio \<Rightarrow> bool \<Rightarrow> (nat \<Rightarrow> bool) \<Rightarrow> gotime \<Rightarrow> string \<Rightarrow> bool \<Rightarrow> gerr + string \<Rightarrow> disk \<Rightarrow> int \<times> string list" where
  "runFsck E C io active ok t0 took rebuild file dk =
     (case offlineStore E C io active file dk of
        Inl _ \<Rightarrow> (1, [])
      | Inr s \<Rightarrow>
          (case store_Fsck E ok t0 rebuild s of
             (_, _, Some _) \<Rightarrow> (1, [])
           | (_, rep, None) \<Rightarrow> (if fsck_Healthy rep then 0 else 1, fsck_lines took rep)))"

definition runScrub :: "env \<Rightarrow> cfgenv \<Rightarrow> daemonio \<Rightarrow> bool \<Rightarrow> string \<Rightarrow> gerr + string \<Rightarrow> disk \<Rightarrow> int \<times> string list" where
  "runScrub E C io active took file dk =
     (case offlineStore E C io active file dk of
        Inl _ \<Rightarrow> (1, [])
      | Inr s \<Rightarrow>
          let start = [''verifying every blob against its content hash; this reads the whole store''] in
          (case store_Scrub E (s_blobs s) of
             (_, Some _) \<Rightarrow> (1, start)
           | (rep, None) \<Rightarrow> (if sr_corrupt rep \<noteq> [] then 1 else 0, start @ scrub_lines took rep)))"

subsection \<open>The command line\<close>

text \<open>What the \<open>flag\<close> package makes of the arguments.\<close>

record flags =
  fl_init :: bool
  fl_purge :: bool
  fl_yes :: bool
  fl_status :: bool
  fl_statusJSON :: bool
  fl_watch :: duration
  fl_checkConfig :: bool
  fl_caps :: bool
  fl_keygen :: bool
  fl_fsck :: bool
  fl_rebuild :: bool
  fl_scrub :: bool
  fl_version :: bool
  fl_config :: string
  fl_args :: "string list"

datatype command =
    CmdService string
  | CmdUsage
  | CmdVersion
  | CmdKeygen
  | CmdCaps
  | CmdCheckConfig string
  | CmdInit
  | CmdPurge bool
  | CmdStat string bool duration
  | CmdFsck string bool
  | CmdScrub string
  | CmdUnknown string
  | CmdDaemon string

text \<open>\<open>parse\<close> is nothing when the flags are malformed, for which the package exits with 2.\<close>

definition main_command :: "(string list \<Rightarrow> flags option) \<Rightarrow> string list \<Rightarrow> command" where
  "main_command parse args =
     (if args \<noteq> [] \<and> IsVerb (hd args) then CmdService (hd args)
      else
        (case parse args of
           None \<Rightarrow> CmdUsage
         | Some f \<Rightarrow>
             if fl_version f then CmdVersion
             else if fl_keygen f then CmdKeygen
             else if fl_caps f then CmdCaps
             else if fl_checkConfig f then CmdCheckConfig (fl_config f)
             else if fl_init f then CmdInit
             else if fl_purge f then CmdPurge (fl_yes f)
             else if fl_status f \<or> fl_statusJSON f \<or> 0 < fl_watch f then CmdStat (fl_config f) (fl_statusJSON f) (fl_watch f)
             else if fl_fsck f then CmdFsck (fl_config f) (fl_rebuild f)
             else if fl_scrub f then CmdScrub (fl_config f)
             else if fl_args f \<noteq> [] then CmdUnknown (hd (fl_args f))
             else CmdDaemon (fl_config f)))"

definition fatal_code :: "gerr option \<Rightarrow> int" where
  "fatal_code e = (if e = None then 0 else 1)"

text \<open>The lines of \<open>--check-config\<close> and its exit code; \<open>show_list\<close> is the \<open>%v\<close> of a list of names.\<close>

definition show_list :: "string list \<Rightarrow> string" where
  "show_list xs = ''['' @ join_with '' '' xs @ '']''"

definition runCheckConfig :: "cfgenv \<Rightarrow> (warning \<Rightarrow> string) \<Rightarrow> string \<Rightarrow> gerr + string \<Rightarrow> string list \<times> int" where
  "runCheckConfig C show_warning cfgPath file =
     (case cfg_Load C file of
        Inl _ \<Rightarrow> ([], 1)
      | Inr cfg \<Rightarrow>
          ([cfgPath @ '': ok'', ''roles: '' @ show_list (cf_roles cfg)] @
           (if cfg_Has cfg RoleStore
            then [''store: listen '' @ sc_listen (cf_store cfg) @ '', data '' @ sc_data (cf_store cfg) @ '', '' @
                    format_int (int (length (sc_buckets (cf_store cfg)))) @ '' bucket(s), replica '' @
                    rc_mode (sc_replica (cf_store cfg))]
            else []) @
           (if cfg_Has cfg RoleAgent
            then (''agent: '' @ format_int (int (length (cf_sites cfg))) @ '' site(s)'') #
              map (\<lambda>s. ''  '' @ pad_right 28 (si_name s) @ '' '' @ si_uploads s @ '' -> '' @ be_endpoint (si_backend s) @
                '' (ack '' @ be_ack (si_backend s) @ '')'') (cf_sites cfg)
            else []) @
           map (\<lambda>w. ''warning: '' @ show_warning w) (cf_warnings cfg),
           if cf_warnings cfg \<noteq> [] then 1 else 0))"

definition printCaps :: "(gerr \<Rightarrow> string) \<Rightarrow> report \<Rightarrow> string list" where
  "printCaps show_error r =
     report_Lines r @ [[]] @
     [case AgentReady r of Some e \<Rightarrow> ''agent role: unavailable '' @ [CHR 0xE2, CHR 0x80, CHR 0x94] @ '' '' @ show_error e | None \<Rightarrow> ''agent role: ready''] @
     [case StoreReady r of Some e \<Rightarrow> ''store role: unavailable '' @ [CHR 0xE2, CHR 0x80, CHR 0x94] @ '' '' @ show_error e | None \<Rightarrow> ''store role: ready'']"

end
