(* ===== verification/DaemonLaws.thy ===== *)
theory DaemonLaws
  imports Daemon SingleBox BootLaws
begin

text \<open>
  What holds of the daemon as a whole: a start after a crash brings both roles back with the
  promises they had, and a start that fails half-way leaves the sites before the failing one
  mounted.
\<close>

subsection \<open>A scan that cannot fail\<close>

definition files_fit :: "env \<Rightarrow> agentsys \<Rightarrow> sitecfg \<Rightarrow> lfile bucket \<Rightarrow> bool" where
  "files_fit E as site files \<longleftrightarrow>
     (\<forall>key. as_info as key) \<and>
     (\<forall>p \<in> fst ` set files. \<forall>key. keyOf (si_backing site) p = Some key \<longrightarrow> key_fits E key)"

lemma index_file_fine:
  assumes inv: "agent_inv E a" and ans: "answered as" and k: "name_ok E key"
  shows "\<exists>a'. index_file E as key f a = (a', None) \<and> ag_disk a' = ag_disk a"
proof -
  have "idx_inv (db_file (ag_db a))" "name_ok E (agent_ns a)" using inv by (simp_all add: agent_inv_def db_inv_def)
  with k obtain x where "tx_put E (as_now as) (agent_ns a) (fresh_entry as key f) (db_file (ag_db a)) = Inr x"
    using tx_put_succeeds [of "db_file (ag_db a)" E "fresh_entry as key f" "agent_ns a"] by (auto simp: fresh_entry_def)
  then show ?thesis using ans by (simp add: index_file_def db_put_def db_update_def unit_tx_def answered_def)
qed

lemma db_get_fine: "db_inv d \<Longrightarrow> \<exists>r. db_get ns k d = Inr r"
  using db_get_view by blast

lemma key_ok_nonempty: "\<not> key_ok []"
proof
  assume "key_ok []"
  then obtain ks where "ks \<noteq> []" "list_all good_part ks" "path_join ks = []" by (auto simp: key_ok_def)
  then show False by (cases ks rule: path_join.cases) (simp_all add: good_part_def)
qed

lemma scan_file_fine:
  assumes inv: "agent_inv E a" and ans: "answered as" and fit: "files_fit E as (ag_site a) (ag_disk a)"
    and p: "isAbs (fst pf)" "fst pf \<in> fst ` set (ag_disk a)"
  shows "\<exists>a' st' seen'. scan_file E as pf (a, st, seen) = ((a', st', seen'), None) \<and> ag_disk a' = ag_disk a"
proof (cases "keyOf (si_backing (ag_site a)) (fst pf)")
  case None
  then show ?thesis by (simp add: scan_file_def)
next
  case (Some key)
  have b: "isAbs (si_backing (ag_site a))" using inv by (simp add: agent_inv_def)
  have k: "key_ok key" by (rule keyOf_key_ok(1) [OF b p(1) Some])
  then have "key \<noteq> []" using key_ok_nonempty by blast
  then have "name_ok E key" using fit p(2) Some by (auto simp: files_fit_def name_ok_def)
  note ix = index_file_fine [OF inv ans this]
  have "db_inv (ag_db a)" using inv by (simp add: agent_inv_def)
  then obtain r where r: "db_get (agent_ns a) key (ag_db a) = Inr r" using db_get_fine by blast
  have "as_info as key" using fit by (simp add: files_fit_def)
  then show ?thesis
    using Some r ix [of "snd pf"] by (cases r) (auto simp: scan_file_def Let_def)
qed

lemma scan_files_fine:
  assumes "agent_inv E a" "answered as" "files_fit E as (ag_site a) (ag_disk a)"
    "\<forall>pf \<in> set pfs. isAbs (fst pf) \<and> fst pf \<in> fst ` set (ag_disk a)"
  shows "\<exists>a' st' seen'. fold_cb (scan_file E as) pfs (a, st, seen) = ((a', st', seen'), None) \<and> agent_inv E a'"
  using assms
proof (induction pfs arbitrary: a st seen)
  case (Cons pf pfs)
  obtain a1 st1 seen1 where s: "scan_file E as pf (a, st, seen) = ((a1, st1, seen1), None)" "ag_disk a1 = ag_disk a"
    using scan_file_fine [OF Cons.prems(1-3), of pf] Cons.prems(4) by force
  from scan_file_inv [OF Cons.prems(1) _ s(1)] Cons.prems(4) have "agent_inv E a1" "ag_site a1 = ag_site a" by auto
  with Cons.IH [of a1 st1 seen1] Cons.prems s show ?case by simp
qed simp

lemma Scan_fine:
  assumes "agent_inv E a" "answered as" "files_fit E as (ag_site a) (ag_disk a)"
  shows "\<exists>a' st. agent_Scan E as a = (a', st, None)"
proof -
  let ?st = "\<lparr>ss_files = 0, ss_new = 0, ss_changed = 0, ss_removed = 0\<rparr>"
  have ab: "isAbs (si_backing (ag_site a))" using assms(1) by (simp add: agent_inv_def)
  have "\<forall>pf \<in> set (backing_files a). isAbs (fst pf) \<and> fst pf \<in> fst ` set (ag_disk a)"
    using backing_abs [OF ab] by (auto simp: backing_files_def Let_def)
  then obtain a1 st seen where f: "fold_cb (scan_file E as) (backing_files a) (a, ?st, []) = ((a1, st, seen), None)"
    and i: "agent_inv E a1" using scan_files_fine [OF assms] by blast
  let ?cb = "\<lambda>e gone. (if e_key e \<notin> set seen \<and> st_local (e_state e) then gone @ [e_key e] else gone, None)"
  have "idx_inv (db_file (ag_db a1))" using i by (simp add: agent_inv_def db_inv_def)
  moreover have "\<exists>g. fold_cb ?cb (entries_of (ns_objs (db_file (ag_db a1)) (agent_ns a1))) [] = (g, None)" by (intro exI, rule fold_cb_total) simp
  ultimately obtain gone where "ix_walk (agent_ns a1) ?cb (db_file (ag_db a1)) [] = (gone, None)"
    by (auto simp: ix_walk_entries)
  then show ?thesis using f by (auto simp: agent_Scan_def split: prod.splits)
qed

subsection \<open>Replaying touches the store only\<close>

lemma Recover_outside:
  assumes inv: "store_inv E s" and r: "store_Recover E sy s = (s', res)" and out: "\<not> InScope (fst p) ScopeStore"
  shows "ix_lookup (db_file (s_db s')) p = ix_lookup (db_file (s_db s)) p"
proof -
  let ?j = "s_jrnl s" and ?x = "db_file (s_db s)"
  from inv obtain a where a: "appliedSeq (s_db s) = Inr a" by (auto simp: store_inv_def)
  have J: "jwf E ?j" "list_all (rec_ok E) (jlog E ?j)" and X: "rec_index_ok E ?x"
    using inv by (auto simp: store_inv_def journal_inv_def)
  show ?thesis
  proof (cases "a < j_last ?j")
    case False
    then show ?thesis using r a by (simp add: store_Recover_def not_less)
  next
    case True
    let ?rs = "jpending E (a + 1) ?j"
    have ok: "list_all (rec_ok E) ?rs" using J consec_after [OF J(1) True] by (auto simp: list_all_iff)
    obtain x' where x': "app_all (store_apply E (sy_clock sy 0)) ?rs ?x = Inr x'"
      using rp.app_all_refines [OF X, of ?rs] ok by (auto simp: ok_all_list)
    have "replay_body E (sy_clock sy 0) (a + 1) ?j ?x = Inr (length ?rs, x')"
      using fold_replay_cb [OF x', of 0] by (simp add: replay_body_def jreplay_log [OF J(1)])
    then have "db_file (s_db s') = ?x \<or> db_file (s_db s') = x'"
      using r a True by (auto simp: store_Recover_def db_update_def split: if_splits)
    then show ?thesis using app_all_outside [OF X ok x' out] by auto
  qed
qed

subsection \<open>Starting the sites\<close>

definition site_ready :: "env \<Rightarrow> (string \<Rightarrow> siteio) \<Rightarrow> lfile bucket \<Rightarrow> sitecfg \<Rightarrow> bool" where
  "site_ready E sio files site \<longleftrightarrow>
     (let so = sio (si_name site) in
      so_endpoint so \<noteq> None \<and> so_mkdir so \<and> so_watch so \<and>
      mi_mkdir (so_mount so) \<and> mi_stat (so_mount so) \<and> mi_fuse (so_mount so) \<and> answered (so_sys so) \<and>
      resolveUID (so_uid so) (mo_populateUser (si_mount site)) \<noteq> Inl (Errf ''mount.populate_user'') \<and>
      resolveUID (so_uid so) (mo_populateUser (si_mount site)) \<noteq> Inl (Errf ''mount.populate_user: unreadable uid'') \<and>
      files_fit E (so_sys so) site files)"

definition resting :: "(string \<Rightarrow> siteio) \<Rightarrow> lfile bucket \<Rightarrow> db \<Rightarrow> sitecfg \<Rightarrow> agent" where
  "resting sio files d site =
     \<lparr>ag_site = site, ag_db = d, ag_disk = files, ag_remote = so_objects (sio (si_name site)), ag_queue = [], ag_pending = []\<rparr>"

lemma resting_fields [simp]:
  "ag_site (resting sio files d site) = site" "ag_db (resting sio files d site) = d" "ag_disk (resting sio files d site) = files"
  "(resting sio files d site)\<lparr>ag_db := d'\<rparr> = resting sio files d' site" "agent_ns (resting sio files d site) = ix_namespace ScopeAgent (si_name site)"
  by (simp_all add: resting_def agent_ns_def)

lemma start_site_ready:
  assumes ready: "site_ready E sio files site" and inv: "agent_inv E (resting sio files (ss_db ss) site)"
  obtains a uid where
    "start_site E sio files site ss =
       (\<lparr>ss_db = ag_db a, ss_agents = ss_agents ss @ [(si_name site, a)], ss_mounts = ss_mounts ss @ [(si_name site, mount_New uid)]\<rparr>, None)"
    "agent_inv E a" "ag_site a = site" "keeps_out (resting sio files (ss_db ss) site) a"
proof -
  let ?so = "sio (si_name site)" and ?a = "resting sio files (ss_db ss) site"
  have so: "so_endpoint ?so \<noteq> None" "so_mkdir ?so" "so_watch ?so" "mi_mkdir (so_mount ?so)" "answered (so_sys ?so)"
    "files_fit E (so_sys ?so) site files" using ready by (simp_all add: site_ready_def Let_def)
  have mnt: "mount_start (so_mount ?so) uid = Inr (mount_New uid)" for uid
    using ready by (simp add: site_ready_def mount_start_def Let_def)
  obtain uid where uid: "resolveUID (so_uid ?so) (mo_populateUser (si_mount site)) = Inr uid"
    using ready by (auto simp: site_ready_def Let_def resolveUID_def split: if_splits option.splits)
  obtain h b where e: "so_endpoint ?so = Some (h, b)" using so(1) by auto
  have new: "agent_New ?so site files (ss_db ss) = Inr ?a" by (simp add: agent_New_def cli_New_def e so resting_def)
  obtain a st where scan: "agent_Scan E (so_sys ?so) ?a = (a, st, None)" using Scan_fine [OF inv so(5)] so(6) by auto
  have start: "agent_Start E ?so ?a = (a, None)" by (simp add: agent_Start_def scan so)
  have i: "agent_inv E a" using Scan_inv [OF inv so(5)] scan by simp
  have k: "keeps_out ?a a" using Scan_keeps [of ?a E "so_sys ?so"] scan by simp
  then have "ag_site a = site" by (simp add: keeps_out_def)
  moreover have "start_site E sio files site ss =
      (\<lparr>ss_db = ag_db a, ss_agents = ss_agents ss @ [(si_name site, a)], ss_mounts = ss_mounts ss @ [(si_name site, mount_New uid)]\<rparr>, None)"
    by (simp add: start_site_def new start uid mnt Let_def)
  ultimately show thesis using that i k by blast
qed

text \<open>The agents that run already do not notice.\<close>

lemma agent_beside_agent:
  assumes inv: "agent_inv E a" and k: "stays_in ns (ag_db a) d" and ne: "agent_ns a \<noteq> ns"
  shows "agent_inv E (a\<lparr>ag_db := d\<rparr>)"
proof -
  have d: "db_inv d" and at: "atime_only (db_view (ag_db a) (agent_ns a, k)) (db_view d (agent_ns a, k))" for k
    using k inv ne by (simp_all add: stays_in_def agent_inv_def)
  have view: "\<exists>e0 t. ag_view a k = Some e0 \<and> e = e0\<lparr>e_atime := t\<rparr>" if "ag_view (a\<lparr>ag_db := d\<rparr>) k = Some e" for k e
    using at [of k] that by (auto simp: ag_view_def atime_only_def option_rel_Some2)
  show ?thesis
  proof (rule agent_invI [OF inv])
    show "ag_site (a\<lparr>ag_db := d\<rparr>) = ag_site a" "db_inv (ag_db (a\<lparr>ag_db := d\<rparr>))" using d by simp_all
    fix k e assume "ag_view (a\<lparr>ag_db := d\<rparr>) k = Some e"
    then obtain e0 t where e: "ag_view a k = Some e0" "e = e0\<lparr>e_atime := t\<rparr>" using view by blast
    show "key_ok k" using inv e(1) by (auto simp: agent_inv_def)
    assume "st_safe (e_state e)"
    then have "held_fast a k e0" using inv e by (auto simp: agent_inv_def)
    then show "held_fast (a\<lparr>ag_db := d\<rparr>) k e" by (simp add: held_fast_def matches_def e(2))
  qed
qed

definition running :: "env \<Rightarrow> sites \<Rightarrow> bool" where
  "running E ss \<longleftrightarrow> (\<forall>(n, a) \<in> set (ss_agents ss). si_name (ag_site a) = n \<and> agent_inv E (a\<lparr>ag_db := ss_db ss\<rparr>))"

lemma site_ns_inj: "ix_namespace ScopeAgent m = ix_namespace ScopeAgent n \<longleftrightarrow> m = n"
  by (simp add: ix_namespace_def)

lemma start_sites:
  assumes "\<forall>site \<in> set sites. site_ready E sio files site \<and> agent_inv E (resting sio files (ss_db ss) site)"
    and "distinct (map fst (ss_agents ss) @ map si_name sites)" "running E ss" "rec_index_ok E (db_file (ss_db ss))"
  shows "\<exists>ss'. fold_cb (start_site E sio files) sites ss = (ss', None) \<and> running E ss' \<and>
    map fst (ss_agents ss') = map fst (ss_agents ss) @ map si_name sites \<and>
    map fst (ss_mounts ss') = map fst (ss_mounts ss) @ map si_name sites \<and>
    rec_index_ok E (db_file (ss_db ss')) \<and> sabs (db_file (ss_db ss')) = sabs (db_file (ss_db ss)) \<and>
    appliedSeq (ss_db ss') = appliedSeq (ss_db ss)"
  using assms
proof (induction sites arbitrary: ss)
  case (Cons site sites)
  let ?a = "resting sio files (ss_db ss) site"
  have "site_ready E sio files site" "agent_inv E ?a" using Cons.prems(1) by simp_all
  then obtain a uid where st: "start_site E sio files site ss =
      (\<lparr>ss_db = ag_db a, ss_agents = ss_agents ss @ [(si_name site, a)], ss_mounts = ss_mounts ss @ [(si_name site, mount_New uid)]\<rparr>, None)"
    and a: "agent_inv E a" "ag_site a = site" and k: "keeps_out ?a a" by (rule start_site_ready)
  let ?ss = "\<lparr>ss_db = ag_db a, ss_agents = ss_agents ss @ [(si_name site, a)], ss_mounts = ss_mounts ss @ [(si_name site, mount_New uid)]\<rparr>"
  have stays: "stays_in (ix_namespace ScopeAgent (si_name site)) (ss_db ss) (ag_db a)" using k by (simp add: keeps_out_def)
  have beside: "agent_inv E (b\<lparr>ag_db := ag_db a\<rparr>)" if "agent_inv E (b\<lparr>ag_db := ss_db ss\<rparr>)" "si_name (ag_site b) \<noteq> si_name site" for b
    using agent_beside_agent [OF that(1), of "ix_namespace ScopeAgent (si_name site)" "ag_db a"] stays that(2)
    by (simp add: agent_ns_def site_ns_inj)
  have x: "rec_index_ok E (db_file (ag_db ?a))" using Cons.prems(4) by simp
  note ix = index_beside_agent [OF x k, simplified]
  have "\<forall>s \<in> set sites. site_ready E sio files s \<and> agent_inv E (resting sio files (ss_db ?ss) s)"
  proof
    fix s assume s: "s \<in> set sites"
    then have ne: "si_name s \<noteq> si_name site" using Cons.prems(2) by (auto simp: image_iff)
    have "agent_inv E ((resting sio files (ss_db ss) s)\<lparr>ag_db := ag_db a\<rparr>)"
      by (rule beside) (use Cons.prems(1) s ne in simp_all)
    then show "site_ready E sio files s \<and> agent_inv E (resting sio files (ss_db ?ss) s)" using Cons.prems(1) s by simp
  qed
  moreover have "running E ?ss"
  proof -
    have "agent_inv E (b\<lparr>ag_db := ag_db a\<rparr>) \<and> si_name (ag_site b) = n" if "(n, b) \<in> set (ss_agents ss)" for n b
    proof -
      have b: "si_name (ag_site b) = n" "agent_inv E (b\<lparr>ag_db := ss_db ss\<rparr>)" using Cons.prems(3) that by (auto simp: running_def)
      moreover have "n \<noteq> si_name site" using Cons.prems(2) that by (auto simp: image_iff)
      ultimately show ?thesis using beside by simp
    qed
    then show ?thesis using a by (auto simp: running_def)
  qed
  moreover have "distinct (map fst (ss_agents ?ss) @ map si_name sites)" using Cons.prems(2) by auto
  moreover have "rec_index_ok E (db_file (ss_db ?ss))" using ix(1) by simp
  ultimately obtain ss' where "fold_cb (start_site E sio files) sites ?ss = (ss', None)" "running E ss'"
    "map fst (ss_agents ss') = map fst (ss_agents ?ss) @ map si_name sites"
    "map fst (ss_mounts ss') = map fst (ss_mounts ?ss) @ map si_name sites"
    "rec_index_ok E (db_file (ss_db ss'))" "sabs (db_file (ss_db ss')) = sabs (db_file (ss_db ?ss))"
    "appliedSeq (ss_db ss') = appliedSeq (ss_db ?ss)" using Cons.IH [of ?ss] by blast
  then show ?case using st ix(2,3) by simp
qed simp

subsection \<open>The start after a crash\<close>

text \<open>Nothing outside the program fails while the daemon starts.\<close>

definition calm :: "daemonio \<Rightarrow> fs \<Rightarrow> bool" where
  "calm io m \<longleftrightarrow>
     AgentReady (caps_Probe (di_host io)) = None \<and> di_logs io \<and> snd (MkdirAll (di_fs io) StateDir m) = None \<and>
     sy_commit (di_sys io) \<and> di_tmp io = (\<lambda>_. True) \<and> di_journal io = None \<and> di_listen io \<and> di_watch io"

lemma store_inv_db:
  assumes "store_inv E s" "caught_up s" "rec_index_ok E (db_file d)" "sabs (db_file d) = sabs (db_file (s_db s))"
    "appliedSeq d = appliedSeq (s_db s)"
  shows "store_inv E (s\<lparr>s_db := d\<rparr>)" "caught_up (s\<lparr>s_db := d\<rparr>)" "store_spec E (s\<lparr>s_db := d\<rparr>) = store_spec E s"
    "sabs (db_file d) = store_spec E s"
  using assms caught_up_spec [OF assms(1,2)] by (auto simp: store_inv_def caught_up_def store_spec_def)

lemma resting_over:
  assumes "agent_inv E (resting sio files d site)" "db_inv d'"
    and "\<And>k. db_view d' (ix_namespace ScopeAgent (si_name site), k) = db_view d (ix_namespace ScopeAgent (si_name site), k)"
  shows "agent_inv E (resting sio files d' site)"
proof -
  have v: "ag_view (resting sio files d' site) = ag_view (resting sio files d site)"
    using assms(3) by (simp add: ag_view_def fun_eq_iff)
  show ?thesis
    by (rule agent_invI [OF assms(1)])
      (use assms(1,2) in \<open>auto simp: v agent_inv_def, auto simp: held_fast_def resting_def agent_path_def\<close>)
qed

lemma store_comes_back:
  assumes inv: "store_inv E s" and frag: "NL \<notin> set frag" and calm: "calm io m"
  obtains d s1 where "db_open E (sy_commit (di_sys io)) (dk_index (crash_disk frag tmp s)) = (d, Inr ())"
    "start_store E io cfg (crash_disk frag tmp s) d = Inr s1" "store_inv E s1" "caught_up s1"
    "store_spec E s1 = store_spec E s" "blob_at (s_blobs s1) = blob_at (s_blobs s)"
    "\<And>p. \<not> InScope (fst p) ScopeStore \<Longrightarrow> ix_lookup (db_file (s_db s1)) p = ix_lookup (db_file (s_db s)) p"
proof (rule open_after_crash [OF inv frag, where tmp = tmp and cfgs = "sc_buckets cfg" and gc = "sc_gc cfg"])
  fix s0
  assume o: "db_open E True (dk_index (crash_disk frag tmp s)) = (s_db s0, Inr ())"
    "store_New E (\<lambda>_. True) None (sc_buckets cfg) (sc_gc cfg) (dk_blobs (crash_disk frag tmp s)) (dk_jrnl (crash_disk frag tmp s)) (s_db s0) = Inr s0"
    "store_inv E s0" "store_spec E s0 = store_spec E s" "s_db s0 = \<lparr>db_file = db_file (s_db s), db_pending = []\<rparr>"
    "s_blobs s0 = (s_blobs s)\<lparr>bf_tmp := []\<rparr>"
  have io: "sy_commit (di_sys io)" "di_tmp io = (\<lambda>_. True)" "di_journal io = None" "di_listen io"
    using calm by (simp_all add: calm_def)
  from Recover_correct [OF o(3) io(1)] obtain n s1 where r: "store_Recover E (di_sys io) s0 = (s1, Inr n)" "store_inv E s1"
    "caught_up s1" "s_jrnl s1 = s_jrnl s0" "s_blobs s1 = s_blobs s0" by metis
  have st: "start_store E io cfg (crash_disk frag tmp s) (s_db s0) = Inr s1" using o(2) r(1) io by (simp add: start_store_def)
  show thesis
  proof (rule that [of "s_db s0" s1])
    show "ix_lookup (db_file (s_db s1)) p = ix_lookup (db_file (s_db s)) p" if "\<not> InScope (fst p) ScopeStore" for p
      using Recover_outside [OF o(3) r(1) that] o(5) by simp
  qed (use o r io st in \<open>simp_all add: store_spec_def\<close>)
qed

lemma daemon_starts:
  assumes "store_inv E s" "NL \<notin> set frag" "mc_disk mc = crash_disk frag tmp s"
    and "cfg_Load C (read_file cfgPath (mc_fs mc)) = Inr cfg" "cfg_Has cfg RoleStore" "cfg_Has cfg RoleAgent"
    and "calm io (mc_fs mc)"
    and "\<forall>site \<in> set (cf_sites cfg).
      site_ready E (di_site io) (mc_files mc) site \<and> agent_inv E (resting (di_site io) (mc_files mc) (s_db s) site)"
  shows "\<exists>d s1. runDaemon E C io cfgPath mc = (dm_mounts d, Inr d) \<and>
    dm_store d = Some s1 \<and> s_db s1 = dm_db d \<and> store_inv E s1 \<and> caught_up s1 \<and> store_spec E s1 = store_spec E s \<and>
    sabs (db_file (dm_db d)) = store_spec E s \<and> blob_at (s_blobs s1) = blob_at (s_blobs s) \<and>
    map fst (dm_mounts d) = map si_name (cf_sites cfg) \<and> map fst (dm_agents d) = map si_name (cf_sites cfg) \<and>
    (\<forall>(n, a) \<in> set (dm_agents d). ag_db a = dm_db d \<and> agent_inv E a) \<and>
    sf_appliedSeq (store_status d (cf_store cfg)) = sf_journalSeq (store_status d (cf_store cfg))"
proof -
  obtain raw where raw: "read_file cfgPath (mc_fs mc) = Inr raw"
    using assms(4) by (cases "read_file cfgPath (mc_fs mc)") (auto simp: cfg_Load_def)
  have prov: "provision (di_fs io) (di_skel io) cfgPath (mc_fs mc) = (mc_fs mc, None)"
    using raw by (auto simp: provision_def stat_missing_def read_file_def)
  let ?mgr = "\<lparr>mg_path = cfgPath, mg_current = cfg, mg_reloadErr = None\<rparr>"
  have mgr: "NewManager C cfgPath (read_file cfgPath (mc_fs mc)) = Inr ?mgr" by (simp add: NewManager_def assms(4))
  obtain d0 s0 where d0: "db_open E (sy_commit (di_sys io)) (dk_index (mc_disk mc)) = (d0, Inr ())"
    and s0: "start_store E io (cf_store cfg) (mc_disk mc) d0 = Inr s0" "store_inv E s0" "caught_up s0"
      "store_spec E s0 = store_spec E s" "blob_at (s_blobs s0) = blob_at (s_blobs s)"
    and out: "\<And>p. \<not> InScope (fst p) ScopeStore \<Longrightarrow> ix_lookup (db_file (s_db s0)) p = ix_lookup (db_file (s_db s)) p"
    using store_comes_back [OF assms(1,2,7), of tmp "cf_store cfg"] unfolding assms(3) by metis
  have x0: "rec_index_ok E (db_file (s_db s0))" using s0(2) by (simp add: store_inv_def)
  have dist: "distinct (map si_name (cf_sites cfg))" using cfg_Load_Inr [OF assms(4)] assms(6) by (simp add: config_usable_def sites_usable_def)
  let ?ss = "\<lparr>ss_db = s_db s0, ss_agents = [], ss_mounts = []\<rparr> :: sites"
  have scope: "\<not> InScope (ix_namespace ScopeAgent n) ScopeStore" for n
    by (simp add: ix_namespace_def ScopeAgent_def ScopeStore_def InScope_def has_prefix_iff)
  have "\<forall>site \<in> set (cf_sites cfg). site_ready E (di_site io) (mc_files mc) site \<and>
      agent_inv E (resting (di_site io) (mc_files mc) (ss_db ?ss) site)"
    using assms(8) resting_over [of E "di_site io" "mc_files mc" "s_db s"] x0 out scope
    by (simp add: db_view_def db_inv_def rec_index_ok_def index_ok_def)
  then obtain ss where ss: "fold_cb (start_site E (di_site io) (mc_files mc)) (cf_sites cfg) ?ss = (ss, None)" "running E ss"
    "map fst (ss_agents ss) = map si_name (cf_sites cfg)" "map fst (ss_mounts ss) = map si_name (cf_sites cfg)"
    "rec_index_ok E (db_file (ss_db ss))" "sabs (db_file (ss_db ss)) = sabs (db_file (s_db s0))" "appliedSeq (ss_db ss) = appliedSeq (s_db s0)"
    using start_sites [of "cf_sites cfg" E "di_site io" "mc_files mc" ?ss] dist x0 by (auto simp: running_def)
  note st = store_inv_db [OF s0(2,3) ss(5-7)]
  obtain k ke where k: "status_Serve (di_sock io) (mc_sock mc) = (k, ke)" by force
  have calm: "AgentReady (caps_Probe (di_host io)) = None" "di_logs io" "di_watch io"
    and mk: "\<exists>m. MkdirAll (di_fs io) StateDir (mc_fs mc) = (m, None)"
    using assms(7) by (simp_all add: calm_def) (metis prod.collapse)
  define d where "d = \<lparr>dm_mgr = ?mgr, dm_host = caps_Probe (di_host io), dm_db = ss_db ss, dm_store = Some (s0\<lparr>s_db := ss_db ss\<rparr>),
    dm_secondary = start_secondary (cf_store cfg) s0, dm_agents = map (\<lambda>p. (fst p, (snd p)\<lparr>ag_db := ss_db ss\<rparr>)) (ss_agents ss),
    dm_mounts = ss_mounts ss, dm_sock = k, dm_status = (ke = None)\<rparr>"
  have "run_roles E io ?mgr (caps_Probe (di_host io)) mc d0 = (ss_mounts ss, Inr d)"
    using s0(1) ss(1) calm(3) assms(5,6) k by (simp add: run_roles_def mg_Get_def Let_def d_def)
  then have "runDaemon E C io cfgPath mc = (dm_mounts d, Inr d)"
    using mk by (auto simp: runDaemon_def prov mgr mg_Get_def calm d0 d_def Let_def)
  moreover have "\<forall>(n, a) \<in> set (dm_agents d). ag_db a = dm_db d \<and> agent_inv E a"
    using ss(2) by (auto simp: d_def running_def)
  moreover have "sf_appliedSeq (store_status d (cf_store cfg)) = sf_journalSeq (store_status d (cf_store cfg))"
    using st(2) by (simp add: store_status_def d_def caught_up_def Let_def)
  ultimately show ?thesis using st s0(4,5) ss(3,4) by (intro exI [of _ d] exI [of _ "s0\<lparr>s_db := ss_db ss\<rparr>"]) (simp add: d_def comp_def)
qed


definition demo_siteio :: siteio where
  "demo_siteio = \<lparr>so_endpoint = Some (''s3'', []), so_mkdir = True, so_sys = demo_agentsys, so_watch = True,
     so_uid = \<lambda>_. None, so_mount = \<lparr>mi_mkdir = True, mi_stat = True, mi_fuse = True\<rparr>, so_objects = []\<rparr>"

definition demo_daemonio :: daemonio where
  "demo_daemonio = \<lparr>di_host = demo_host, di_fs = demo_io, di_skel = None, di_logs = True, di_sys = demo_sys, di_tmp = \<lambda>_. True,
     di_journal = None, di_listen = True, di_site = \<lambda>_. demo_siteio, di_watch = True,
     di_sock = \<lparr>ko_mkdir = True, ko_stat = True, ko_dial = True, ko_remove = True, ko_listen = True, ko_chmod = True\<rparr>\<rparr>"

definition demo_machine :: "disk \<Rightarrow> machine" where
  "demo_machine dk = \<lparr>mc_fs = demo_fs(''/etc/tana/config.yaml'' \<mapsto> FFile ''ok''), mc_disk = dk,
     mc_files = [(''/w/back/a.jpg'', demo_file)], mc_sock = StaleSock\<rparr>"

lemma demo_sites:
  "\<exists>c site. cfg_Load demo_cfgenv (Inr ''ok'') = Inr c \<and> cf_roles c = [RoleStore, RoleAgent] \<and> cf_sites c = [site] \<and>
     si_name site = ''one'' \<and> si_backing site = ''/w/back'' \<and> mo_populateUser (si_mount site) = []"
proof -
  have "case cfg_Load demo_cfgenv (Inr ''ok'') of Inl _ \<Rightarrow> False | Inr c \<Rightarrow> cf_roles c = [RoleStore, RoleAgent] \<and>
      map (\<lambda>s. (si_name s, si_backing s, mo_populateUser (si_mount s))) (cf_sites c) = [(''one'', ''/w/back'', [])]"
    by code_simp
  then show ?thesis by (auto split: sum.splits)
qed

lemma demo_calm: "calm demo_daemonio (mc_fs (demo_machine dk))"
proof -
  have "AgentReady (caps_Probe demo_host) = None" by code_simp
  moreover have "snd (MkdirAll demo_io StateDir (demo_fs(''/etc/tana/config.yaml'' \<mapsto> FFile ''ok''))) = None" by code_simp
  ultimately show ?thesis by (simp add: calm_def demo_daemonio_def demo_machine_def demo_sys_def)
qed

lemma demo_site_ready:
  assumes "si_backing site = ''/w/back''" "mo_populateUser (si_mount site) = []"
  shows "site_ready demo_env (\<lambda>_. demo_siteio) [(''/w/back/a.jpg'', demo_file)] site"
proof -
  have "keyOf ''/w/back'' ''/w/back/a.jpg'' = Some ''a.jpg''" by code_simp
  then show ?thesis
    using assms by (simp add: site_ready_def Let_def demo_siteio_def resolveUID_def files_fit_def answered_def demo_agentsys_def demo_env_def)
qed

lemma demo_resting:
  assumes "\<And>k. ix_lookup (db_file d) (''agent:one'', k) = None" "idx_inv (db_file d)"
    and "si_name site = ''one''" "si_backing site = ''/w/back''"
  shows "agent_inv demo_env (resting (\<lambda>_. demo_siteio) files d site)"
  using assms by (simp add: agent_inv_def agent_ns_def ix_namespace_def ScopeAgent_def isAbs_def name_ok_def demo_env_def ag_view_def db_view_def db_inv_def)


text \<open>
  What a start has mounted stays mounted when a later step fails: with everything as in the start
  above but the watcher of the configuration, \<open>runDaemon\<close> returns an error and the mounts are left.
\<close>

lemma watch_is_the_last_role_step:
  assumes "run_roles E io mgr host mc d = (ms, Inr dm)"
  shows "run_roles E (io\<lparr>di_watch := False\<rparr>) mgr host mc d = (ms, Inl (Errf ''config watch''))"
proof -
  have st: "start_store E (io\<lparr>di_watch := False\<rparr>) cfg dk x = start_store E io cfg dk x" for cfg dk x
    by (simp add: start_store_def cong: prod.case_cong sum.case_cong)
  show ?thesis
    using assms unfolding run_roles_def Let_def st
    by (auto split: prod.splits sum.splits option.splits if_splits)
qed

lemma watch_is_the_last_step:
  assumes "runDaemon E C io cfgPath mc = (ms, Inr d)"
  shows "runDaemon E C (io\<lparr>di_watch := False\<rparr>) cfgPath mc = (ms, Inl (Errf ''config watch''))"
proof -
  obtain m e where p: "provision (di_fs io) (di_skel io) cfgPath (mc_fs mc) = (m, e)" by force
  have "e = None" using assms by (cases e) (auto simp: runDaemon_def p)
  moreover obtain mgr where m: "NewManager C cfgPath (read_file cfgPath m) = Inr mgr"
    using assms by (cases "NewManager C cfgPath (read_file cfgPath m)") (auto simp: runDaemon_def p \<open>e = None\<close>)
  moreover obtain k ke where k: "MkdirAll (di_fs io) StateDir m = (k, ke)" by force
  moreover obtain x xe where x: "db_open E (sy_commit (di_sys io)) (dk_index (mc_disk mc)) = (x, xe)" by force
  ultimately have "ke = None \<and> \<not> isl xe \<and> run_roles E io mgr (caps_Probe (di_host io)) mc x = (ms, Inr d) \<and> di_logs io \<and>
      \<not> (cfg_Has (mg_Get mgr) RoleAgent \<and> AgentReady (caps_Probe (di_host io)) \<noteq> None)"
    using assms by (cases ke; cases xe) (auto simp: runDaemon_def p Let_def split: if_splits)
  then show ?thesis
    using watch_is_the_last_role_step p m k x \<open>e = None\<close> by (cases xe) (auto simp: runDaemon_def Let_def)
qed

lemma failed_start_leaves_the_mounts:
  assumes "store_inv E s" "NL \<notin> set frag" "mc_disk mc = crash_disk frag tmp s"
    and "cfg_Load C (read_file cfgPath (mc_fs mc)) = Inr cfg" "cfg_Has cfg RoleStore" "cfg_Has cfg RoleAgent"
    and "calm io (mc_fs mc)"
    and "\<forall>site \<in> set (cf_sites cfg).
      site_ready E (di_site io) (mc_files mc) site \<and> agent_inv E (resting (di_site io) (mc_files mc) (s_db s) site)"
  shows "\<exists>ms. runDaemon E C (io\<lparr>di_watch := False\<rparr>) cfgPath mc = (ms, Inl (Errf ''config watch'')) \<and>
    map fst ms = map si_name (cf_sites cfg)"
proof -
  obtain d where "runDaemon E C io cfgPath mc = (dm_mounts d, Inr d)" "map fst (dm_mounts d) = map si_name (cf_sites cfg)"
    using daemon_starts [OF assms] by blast
  then show ?thesis using watch_is_the_last_step by blast
qed

subsection \<open>Reloading\<close>

text \<open>
  A reload hands the buckets to the store whether or not the new file declares the store role,
  and without the role the buckets are not validated: one without credentials is served, and
  found by an empty access key.
\<close>

definition agent_only :: config where
  "agent_only = cfg_Default\<lparr>cf_roles := [RoleAgent],
     cf_store := (cf_store cfg_Default)\<lparr>sc_buckets :=
       [\<lparr>bc_name = ''media'', bc_accessKey = [], bc_secretKey = [], bc_publicRead = False, bc_protected = []\<rparr>]\<rparr>,
     cf_sites := [demo_site ''one'' ''/w/up'' ''/w/back'']\<rparr>"

definition agent_only_env :: cfgenv where
  "agent_only_env = demo_cfgenv\<lparr>ce_yaml := \<lambda>_ _. Some agent_only\<rparr>"

lemma agent_only_loads:
  "\<exists>c. cfg_Load agent_only_env (Inr []) = Inr c \<and> sc_buckets (cf_store c) = sc_buckets (cf_store agent_only)"
proof -
  have "case cfg_Load agent_only_env (Inr []) of Inl _ \<Rightarrow> False | Inr c \<Rightarrow> sc_buckets (cf_store c) = sc_buckets (cf_store agent_only)"
    by code_simp
  then show ?thesis by (auto split: sum.splits)
qed

lemma reload_serves_unvalidated_buckets:
  assumes "dm_store d = Some s"
  shows "\<exists>s1. dm_store (daemon_event agent_only_env (FileEvent (mg_path (dm_mgr d)) True (Inr [])) d) = Some s1 \<and>
    map_option bc_secretKey (BucketByAccessKey s1 []) = Some []"
proof -
  obtain c where c: "cfg_Load agent_only_env (Inr []) = Inr c" "sc_buckets (cf_store c) = sc_buckets (cf_store agent_only)"
    using agent_only_loads by blast
  have "dm_store (daemon_event agent_only_env (FileEvent (mg_path (dm_mgr d)) True (Inr [])) d) =
      Some (store_Configure (sc_buckets (cf_store c)) (sc_gc (cf_store c)) s)"
    by (simp add: daemon_event_def mg_Reload_def c(1) mg_Get_def assms)
  then show ?thesis
    by (simp add: c(2) agent_only_def store_Configure_def BucketByAccessKey_def)
qed

subsection \<open>The front door\<close>

text \<open>
  No request for a bucket reaches the replication endpoint: the first segment of its path is a
  valid bucket name, and \<open>-\<close> is not.
\<close>

lemma bucket_request_stays_out:
  assumes "mux_segments path \<noteq> []" "validBucketName (hd (mux_segments path))"
  shows "mux_route primary connect path \<noteq> ToReplica"
proof -
  obtain seg segs where p: "mux_segments path = seg # segs" using assms(1) by (cases "mux_segments path") auto
  then have "seg \<noteq> ''-''" using assms(2) by (auto simp: validBucketName_def)
  then have "mux_route primary connect path = ToReplica \<Longrightarrow> False"
    by (cases "(if connect then path else mux_cleanPath path) = path") (auto simp: mux_route_def Let_def p split: if_splits)
  then show ?thesis by blast
qed

text \<open>A key with an empty segment never reaches the store: the request is answered with a redirect.\<close>

lemma empty_segment_is_redirected: "mux_route False False ''/media/a//b'' = Moved ''/media/a/b''"
  by code_simp

subsection \<open>Maintenance\<close>

text \<open>An exit code of zero from \<open>--fsck\<close> means that no object of the index is without its content.\<close>

lemma clean_fsck_means_nothing_lost:
  assumes "runFsck E C io active ok t0 took False file dk = (0, out)"
  shows "\<not> active \<and> (\<exists>s. offlineStore E C io active file dk = Inr s \<and>
    (idx_inv (db_file (s_db s)) \<longrightarrow> (\<forall>b k. \<not> lost s b k)))"
proof -
  obtain s where s: "offlineStore E C io active file dk = Inr s"
    using assms by (cases "offlineStore E C io active file dk") (auto simp: runFsck_def)
  obtain rep e where r: "fsck_check s zero_fsck = (rep, e)" by force
  have e: "e = None" "fsck_Healthy rep"
    using assms s r by (auto simp: runFsck_def store_Fsck_def split: option.splits if_splits)
  have z: "fr_missing zero_fsck = []" by (simp add: zero_fsck_def)
  have "\<not> lost s b k" if "idx_inv (db_file (s_db s))" for b k
  proof
    assume "lost s b k"
    then have "b @ ''/'' @ k \<in> set (fr_missing rep)" using fsck_missing [OF that _ z] r e(1) by blast
    then show False using e(2) by (simp add: fsck_Healthy_def)
  qed
  moreover have "\<not> active" using s by (auto simp: offlineStore_def res_bind_Inr split: if_splits)
  ultimately show ?thesis using s by blast
qed

text \<open>Without a rebuild the journal is not looked at, whatever it holds.\<close>

lemma fsck_ignores_the_journal:
  "store_Fsck E ok t0 False (s\<lparr>s_jrnl := j\<rparr>) = (s\<lparr>s_jrnl := j\<rparr>, snd (store_Fsck E ok t0 False s))"
  by (simp add: store_Fsck_def fsck_check_def)

end
