(* ===== verification/Logging.thy ===== *)
theory Logging
  imports Host
begin

text \<open>
  internal/logging: files that can be reopened in place after a rotation, one of them behind a
  \<open>bufio.Writer\<close>.  Files are numbered in the order they are created; \<open>wr k\<close> is nothing when the
  \<open>k\<close>-th \<open>write(2)\<close> takes everything, and otherwise how many bytes it takes before it fails.  The
  rotation is what logrotate does to the name.
\<close>

definition bufSize :: nat where "bufSize = 32 * 1024"

record logfs =
  lg_files :: "string list"
  lg_path :: "string \<Rightarrow> nat option"
  lg_calls :: nat

record reopenFile =
  ro_path :: string
  ro_file :: nat
  ro_buffered :: bool
  ro_buf :: string
  ro_err :: bool

subsection \<open>The file and the buffer\<close>

definition file_write :: "(nat \<Rightarrow> nat option) \<Rightarrow> nat \<Rightarrow> string \<Rightarrow> logfs \<Rightarrow> logfs \<times> nat \<times> bool" where
  "file_write wr i p L =
     (let L' = L\<lparr>lg_calls := Suc (lg_calls L)\<rparr> in
      case wr (lg_calls L) of
        None \<Rightarrow> (L'\<lparr>lg_files := (lg_files L)[i := lg_files L ! i @ p]\<rparr>, length p, True)
      | Some n \<Rightarrow> (L'\<lparr>lg_files := (lg_files L)[i := lg_files L ! i @ take n p]\<rparr>, min n (length p), False))"

text \<open>\<open>os.OpenFile\<close> to append, creating the file if the name has none.\<close>

definition open_append :: "bool \<Rightarrow> string \<Rightarrow> logfs \<Rightarrow> (logfs \<times> nat) option" where
  "open_append ok path L =
     (if \<not> ok then None
      else
        (case lg_path L path of
           Some i \<Rightarrow> Some (L, i)
         | None \<Rightarrow>
             Some (L\<lparr>lg_files := lg_files L @ [[]], lg_path := (lg_path L)(path \<mapsto> length (lg_files L))\<rparr>, length (lg_files L))))"

definition openFile :: "bool \<Rightarrow> string \<Rightarrow> bool \<Rightarrow> logfs \<Rightarrow> logfs \<times> reopenFile option" where
  "openFile ok path buffered L =
     (case open_append ok path L of
        None \<Rightarrow> (L, None)
      | Some (L', i) \<Rightarrow>
          (L', Some \<lparr>ro_path = path, ro_file = i, ro_buffered = buffered, ro_buf = [], ro_err = False\<rparr>))"

text \<open>\<open>bufio.Writer\<close>: an error stays until \<open>Reset\<close>.\<close>

definition bw_flush :: "(nat \<Rightarrow> nat option) \<Rightarrow> reopenFile \<Rightarrow> logfs \<Rightarrow> reopenFile \<times> logfs \<times> bool" where
  "bw_flush wr r L =
     (if ro_err r then (r, L, False)
      else if ro_buf r = [] then (r, L, True)
      else
        (case file_write wr (ro_file r) (ro_buf r) L of
           (L', n, True) \<Rightarrow> (r\<lparr>ro_buf := []\<rparr>, L', True)
         | (L', n, False) \<Rightarrow> (r\<lparr>ro_buf := drop n (ro_buf r), ro_err := True\<rparr>, L', False)))"

lemma bw_flush_measure:
  "bw_flush wr r L = (r', L', ok) \<Longrightarrow> ro_err r' \<or> ro_buf r' = []"
  by (auto simp: bw_flush_def split: if_splits prod.splits bool.splits)

function bw_write :: "(nat \<Rightarrow> nat option) \<Rightarrow> string \<Rightarrow> reopenFile \<Rightarrow> logfs \<Rightarrow> reopenFile \<times> logfs \<times> bool" where
  "bw_write wr p r L =
     (if bufSize - length (ro_buf r) < length p \<and> \<not> ro_err r then
        if ro_buf r = [] then
          (case file_write wr (ro_file r) p L of (L', n, ok) \<Rightarrow> bw_write wr (drop n p) (r\<lparr>ro_err := \<not> ok\<rparr>) L')
        else
          (let n = bufSize - length (ro_buf r) in
           case bw_flush wr (r\<lparr>ro_buf := ro_buf r @ take n p\<rparr>) L of (r', L', _) \<Rightarrow> bw_write wr (drop n p) r' L')
      else if ro_err r then (r, L, False)
      else (r\<lparr>ro_buf := ro_buf r @ p\<rparr>, L, True))"
  by pat_completeness auto
termination
  by (relation "measure (\<lambda>(wr, p, r, L). if ro_err r then 0 else Suc (2 * length p + (if ro_buf r = [] then 0 else 1)))")
    (auto simp: file_write_def Let_def split: option.splits dest: bw_flush_measure [OF sym])

declare bw_write.simps [simp del]

definition rf_Write :: "(nat \<Rightarrow> nat option) \<Rightarrow> string \<Rightarrow> reopenFile \<Rightarrow> logfs \<Rightarrow> reopenFile \<times> logfs \<times> bool" where
  "rf_Write wr p r L =
     (if ro_buffered r then bw_write wr p r L else (case file_write wr (ro_file r) p L of (L', n, ok) \<Rightarrow> (r, L', ok)))"

definition rf_Flush :: "(nat \<Rightarrow> nat option) \<Rightarrow> reopenFile \<Rightarrow> logfs \<Rightarrow> reopenFile \<times> logfs \<times> bool" where
  "rf_Flush wr r L = (if ro_buffered r then bw_flush wr r L else (r, L, True))"

text \<open>\<open>closed\<close> is the outcome of closing the old file.\<close>

definition rf_Reopen :: "(nat \<Rightarrow> nat option) \<Rightarrow> bool \<Rightarrow> bool \<Rightarrow> reopenFile \<Rightarrow> logfs \<Rightarrow> reopenFile \<times> logfs \<times> bool" where
  "rf_Reopen wr ok closed r L =
     (case rf_Flush wr r L of
        (r1, L1, _) \<Rightarrow>
          (case open_append ok (ro_path r) L1 of
             None \<Rightarrow> (r1, L1, False)
           | Some (L2, i) \<Rightarrow>
               (if ro_buffered r then r1\<lparr>ro_file := i, ro_buf := [], ro_err := False\<rparr> else r1\<lparr>ro_file := i\<rparr>, L2, closed)))"

definition rf_Close :: "(nat \<Rightarrow> nat option) \<Rightarrow> bool \<Rightarrow> reopenFile \<Rightarrow> logfs \<Rightarrow> logfs \<times> bool" where
  "rf_Close wr closed r L = (case rf_Flush wr r L of (r1, L1, _) \<Rightarrow> (L1, closed))"

subsection \<open>The three streams\<close>

definition ServiceLog :: string where "ServiceLog = ''tana.log''"
definition AccessLog :: string where "AccessLog = ''access.log''"
definition TransferLog :: string where "TransferLog = ''transfer.log''"

definition log_defs :: "(string \<times> bool) list" where
  "log_defs = [(ServiceLog, False), (AccessLog, True), (TransferLog, False)]"

fun open_streams :: "(string \<Rightarrow> bool) \<Rightarrow> string \<Rightarrow> (string \<times> bool) list \<Rightarrow> logfs \<Rightarrow> logfs \<times> reopenFile list option" where
  "open_streams ok dir [] L = (L, Some [])"
| "open_streams ok dir ((name, buffered) # defs) L =
     (case openFile (ok name) (dir @ ''/'' @ name) buffered L of
        (L1, None) \<Rightarrow> (L1, None)
      | (L1, Some r) \<Rightarrow>
          (case open_streams ok dir defs L1 of (L2, None) \<Rightarrow> (L2, None) | (L2, Some rs) \<Rightarrow> (L2, Some (r # rs))))"

definition logs_Open :: "(string \<Rightarrow> bool) \<Rightarrow> string \<Rightarrow> logfs \<Rightarrow> logfs \<times> reopenFile list option" where
  "logs_Open ok dir L = open_streams ok dir log_defs L"

fun logs_each ::
    "(reopenFile \<Rightarrow> logfs \<Rightarrow> reopenFile \<times> logfs \<times> bool) \<Rightarrow> reopenFile list \<Rightarrow> logfs \<Rightarrow> reopenFile list \<times> logfs \<times> bool" where
  "logs_each f [] L = ([], L, True)"
| "logs_each f (r # rs) L =
     (case f r L of (r1, L1, ok) \<Rightarrow> (case logs_each f rs L1 of (rs1, L2, ok1) \<Rightarrow> (r1 # rs1, L2, ok \<and> ok1)))"

definition logs_flush :: "(nat \<Rightarrow> nat option) \<Rightarrow> reopenFile list \<Rightarrow> logfs \<Rightarrow> reopenFile list \<times> logfs \<times> bool" where
  "logs_flush wr = logs_each (rf_Flush wr)"

definition logs_Reopen ::
    "(nat \<Rightarrow> nat option) \<Rightarrow> (string \<Rightarrow> bool) \<Rightarrow> (string \<Rightarrow> bool) \<Rightarrow> reopenFile list \<Rightarrow> logfs \<Rightarrow> reopenFile list \<times> logfs \<times> bool" where
  "logs_Reopen wr ok closed = logs_each (\<lambda>r. rf_Reopen wr (ok (ro_path r)) (closed (ro_path r)) r)"

definition logs_Close :: "(nat \<Rightarrow> nat option) \<Rightarrow> (string \<Rightarrow> bool) \<Rightarrow> reopenFile list \<Rightarrow> logfs \<Rightarrow> reopenFile list \<times> logfs \<times> bool" where
  "logs_Close wr closed = logs_each (\<lambda>r L. case rf_Close wr (closed (ro_path r)) r L of (L1, ok) \<Rightarrow> (r, L1, ok))"

subsection \<open>Rotation\<close>

datatype logop = LWrite string | LFlush | LReopen bool bool | LRotate bool

definition rotate_log :: "string \<Rightarrow> bool \<Rightarrow> logfs \<Rightarrow> logfs" where
  "rotate_log path create L =
     (if create then L\<lparr>lg_files := lg_files L @ [[]], lg_path := (lg_path L)(path \<mapsto> length (lg_files L))\<rparr>
      else L\<lparr>lg_path := (lg_path L)(path := None)\<rparr>)"

fun log_step :: "(nat \<Rightarrow> nat option) \<Rightarrow> logop \<Rightarrow> reopenFile \<times> logfs \<Rightarrow> reopenFile \<times> logfs" where
  "log_step wr (LWrite p) (r, L) = (case rf_Write wr p r L of (r1, L1, _) \<Rightarrow> (r1, L1))"
| "log_step wr LFlush (r, L) = (case rf_Flush wr r L of (r1, L1, _) \<Rightarrow> (r1, L1))"
| "log_step wr (LReopen ok closed) (r, L) = (case rf_Reopen wr ok closed r L of (r1, L1, _) \<Rightarrow> (r1, L1))"
| "log_step wr (LRotate create) (r, L) = (r, rotate_log (ro_path r) create L)"

fun log_line :: "logop \<Rightarrow> string" where
  "log_line (LWrite p) = p"
| "log_line _ = []"

text \<open>The file of the stream is the last one that holds anything, and not newer than the one under its name.\<close>

definition log_inv :: "reopenFile \<Rightarrow> logfs \<Rightarrow> bool" where
  "log_inv r L \<longleftrightarrow> ro_file r < length (lg_files L) \<and> list_all (\<lambda>s. s = []) (drop (Suc (ro_file r)) (lg_files L)) \<and>
     (\<forall>i. lg_path L (ro_path r) = Some i \<longrightarrow> ro_file r \<le> i \<and> i < length (lg_files L)) \<and>
     \<not> ro_err r \<and> length (ro_buf r) \<le> bufSize \<and> (ro_buffered r \<or> ro_buf r = [])"

definition log_text :: "reopenFile \<Rightarrow> logfs \<Rightarrow> string" where
  "log_text r L = concat (lg_files L) @ ro_buf r"

lemma concat_at_last:
  "i < length fs \<Longrightarrow> list_all (\<lambda>s. s = []) (drop (Suc i) fs) \<Longrightarrow> concat (fs[i := fs ! i @ p]) = concat fs @ p"
proof (induction fs arbitrary: i)
  case (Cons f fs)
  show ?case
  proof (cases i)
    case 0
    then have "concat fs = []" using Cons.prems(2) by (simp add: list_all_iff)
    then show ?thesis using 0 by (simp del: concat_eq_Nil_conv)
  qed (use Cons in auto)
qed simp

lemma file_write_all:
  assumes "wr = (\<lambda>_. None)" "log_inv r L"
  shows "\<exists>L'. file_write wr (ro_file r) p L = (L', length p, True) \<and> log_inv r L' \<and> concat (lg_files L') = concat (lg_files L) @ p"
  using assms concat_at_last [of "ro_file r" "lg_files L" p] by (auto simp: file_write_def Let_def log_inv_def)

lemma log_inv_buf: "log_inv r L \<Longrightarrow> ro_buffered r \<Longrightarrow> length b \<le> bufSize \<Longrightarrow> log_inv (r\<lparr>ro_buf := b\<rparr>) L"
  by (simp add: log_inv_def)

lemma bw_flush_all:
  assumes "wr = (\<lambda>_. None)" "log_inv r L"
  shows "\<exists>L'. bw_flush wr r L = (r\<lparr>ro_buf := []\<rparr>, L', True) \<and> log_inv (r\<lparr>ro_buf := []\<rparr>) L' \<and>
    concat (lg_files L') = log_text r L"
proof (cases "ro_buf r = []")
  case True
  then have "r\<lparr>ro_buf := []\<rparr> = r" by simp
  then show ?thesis using assms(2) True by (simp add: bw_flush_def log_inv_def log_text_def)
next
  case False
  have e: "\<not> ro_err r" using assms(2) by (simp add: log_inv_def)
  obtain L' where L': "file_write wr (ro_file r) (ro_buf r) L = (L', length (ro_buf r), True)" "log_inv r L'"
    "concat (lg_files L') = concat (lg_files L) @ ro_buf r" using file_write_all [OF assms] by blast
  then show ?thesis using e False by (auto simp: bw_flush_def log_text_def log_inv_def)
qed

lemma bw_write_all:
  assumes "wr = (\<lambda>_. None)" "log_inv r L" "ro_buffered r"
  shows "\<exists>r' L'. bw_write wr p r L = (r', L', True) \<and> log_inv r' L' \<and> log_text r' L' = log_text r L @ p \<and> ro_buffered r'"
proof -
  have e: "\<not> ro_err r" using assms(2) by (simp add: log_inv_def)
  have fits: "bw_write wr q t M = (t\<lparr>ro_buf := ro_buf t @ q\<rparr>, M, True) \<and> log_inv (t\<lparr>ro_buf := ro_buf t @ q\<rparr>) M"
    if "log_inv t M" "ro_buffered t" "length q \<le> bufSize - length (ro_buf t)" for q t M
  proof -
    have "length (ro_buf t) \<le> bufSize" using that(1) by (simp add: log_inv_def)
    then have "length (ro_buf t @ q) \<le> bufSize" using that(3) by simp
    with that show ?thesis by (subst bw_write.simps) (simp add: log_inv_def)
  qed
  have empty: "\<exists>L'. bw_write wr q t M = (t\<lparr>ro_buf := (if bufSize < length q then [] else q)\<rparr>, L', True) \<and>
      log_inv (t\<lparr>ro_buf := (if bufSize < length q then [] else q)\<rparr>) L' \<and>
      concat (lg_files L') = concat (lg_files M) @ (if bufSize < length q then q else [])"
    if t: "log_inv t M" "ro_buffered t" "ro_buf t = []" for q t M
  proof (cases "bufSize < length q")
    case False
    then show ?thesis using fits [OF t(1,2), of q] t(3) by simp
  next
    case True
    obtain L' where L': "file_write wr (ro_file t) q M = (L', length q, True)" "log_inv t L'"
      "concat (lg_files L') = concat (lg_files M) @ q" using file_write_all [OF assms(1) t(1)] by blast
    have "\<not> ro_err t" using t(1) by (simp add: log_inv_def)
    then have te: "t\<lparr>ro_err := False\<rparr> = t" by (cases t) simp
    then have "bw_write wr q t M = bw_write wr [] t L'"
      using True L'(1) t(3) \<open>\<not> ro_err t\<close> by (subst bw_write.simps) (simp add: te)
    also have "\<dots> = (t, L', True)" using fits [OF L'(2) t(2), of "[]"] t(3) by simp
    finally have "bw_write wr q t M = (t\<lparr>ro_buf := []\<rparr>, L', True)" using t(3) by simp
    moreover have "t\<lparr>ro_buf := []\<rparr> = t" using t(3) by (cases t) simp
    ultimately show ?thesis using True L' by simp
  qed
  consider (fit) "length p \<le> bufSize - length (ro_buf r)" | (direct) "ro_buf r = []"
    | (spill) "bufSize - length (ro_buf r) < length p" "ro_buf r \<noteq> []" by linarith
  then show ?thesis
  proof cases
    case fit
    then show ?thesis using fits [OF assms(2,3)] assms(3) by (simp add: log_text_def)
  next
    case direct
    then show ?thesis using empty [OF assms(2,3) direct, of p] assms(3) by (auto simp: log_text_def)
  next
    case spill
    let ?n = "bufSize - length (ro_buf r)"
    let ?r = "r\<lparr>ro_buf := ro_buf r @ take ?n p\<rparr>"
    have "length (ro_buf r) \<le> bufSize" using assms(2) by (simp add: log_inv_def)
    then have i: "log_inv ?r L" by (intro log_inv_buf [OF assms(2,3)]) simp
    obtain L1 where L1: "bw_flush wr ?r L = (?r\<lparr>ro_buf := []\<rparr>, L1, True)" "log_inv (?r\<lparr>ro_buf := []\<rparr>) L1"
      "concat (lg_files L1) = log_text ?r L" using bw_flush_all [OF assms(1) i] by blast
    have "bw_write wr p r L = bw_write wr (drop ?n p) (?r\<lparr>ro_buf := []\<rparr>) L1"
      using spill L1(1) e by (subst bw_write.simps) (simp add: Let_def)
    moreover have "ro_buffered (?r\<lparr>ro_buf := []\<rparr>)" using assms(3) by simp
    ultimately show ?thesis
      using empty [OF L1(2), of "drop ?n p"] L1(3) assms(3) by (auto simp: log_text_def)
  qed
qed

lemma Flush_all:
  assumes "wr = (\<lambda>_. None)" "log_inv r L"
  shows "\<exists>r' L'. rf_Flush wr r L = (r', L', True) \<and> log_inv r' L' \<and> log_text r' L' = log_text r L \<and> ro_buf r' = [] \<and>
    r' = r\<lparr>ro_buf := []\<rparr>"
  using bw_flush_all [OF assms] assms(2) by (auto simp: rf_Flush_def log_text_def log_inv_def)

lemma open_append_inv:
  assumes "log_inv r L" "ro_buf r = []" "open_append ok (ro_path r) L = Some (L', i)"
  shows "log_inv (r\<lparr>ro_file := i\<rparr>) L'" "log_text (r\<lparr>ro_file := i\<rparr>) L' = log_text r L"
proof -
  have "list_all (\<lambda>s. s = []) (drop (Suc i) fs)" if "list_all (\<lambda>s. s = []) (drop (Suc j) fs)" "j \<le> i" for j fs
  proof -
    have "drop (Suc i) fs = drop (i - j) (drop (Suc j) fs)" using that(2) by simp
    then show ?thesis using that(1) by (metis list_all_iff in_set_dropD)
  qed
  then show "log_inv (r\<lparr>ro_file := i\<rparr>) L'" "log_text (r\<lparr>ro_file := i\<rparr>) L' = log_text r L"
    using assms by (auto simp: open_append_def log_inv_def log_text_def split: if_splits option.splits)
qed

lemma log_step_keeps:
  assumes wr: "wr = (\<lambda>_. None)" and inv: "log_inv r L" and st: "log_step wr op (r, L) = (r', L')"
  shows "log_inv r' L' \<and> log_text r' L' = log_text r L @ log_line op \<and> ro_buffered r' = ro_buffered r"
proof (cases op)
  case (LWrite p)
  show ?thesis
  proof (cases "ro_buffered r")
    case True
    then show ?thesis using bw_write_all [OF wr inv True, of p] st LWrite by (auto simp: rf_Write_def)
  next
    case False
    then have "ro_buf r = []" using inv by (simp add: log_inv_def)
    then show ?thesis using file_write_all [OF wr inv, of p] st LWrite False by (auto simp: rf_Write_def log_text_def)
  qed
next
  case LFlush
  then show ?thesis using Flush_all [OF wr inv] st by auto
next
  case (LReopen ok closed)
  obtain L1 where f: "rf_Flush wr r L = (r\<lparr>ro_buf := []\<rparr>, L1, True)" "log_inv (r\<lparr>ro_buf := []\<rparr>) L1"
    "log_text (r\<lparr>ro_buf := []\<rparr>) L1 = log_text r L" using Flush_all [OF wr inv] by auto
  show ?thesis
  proof (cases "open_append ok (ro_path r) L1")
    case None
    then show ?thesis using st f LReopen by (auto simp: rf_Reopen_def)
  next
    case (Some v)
    obtain L2 i where v: "v = (L2, i)" by force
    have e: "\<not> ro_err r" using inv by (simp add: log_inv_def)
    have p: "ro_path (r\<lparr>ro_buf := []\<rparr>) = ro_path r" by simp
    note o = open_append_inv [OF f(2), of ok L2 i]
    have "r' = r\<lparr>ro_buf := [], ro_file := i\<rparr>" "L' = L2" using st f(1) LReopen Some v e by (auto simp: rf_Reopen_def)
    then show ?thesis using o f(3) Some v LReopen by simp
  qed
next
  case (LRotate create)
  then show ?thesis using st inv by (cases create) (auto simp: rotate_log_def log_inv_def log_text_def)
qed

lemma log_run_keeps:
  assumes "wr = (\<lambda>_. None)" "log_inv r L" "fold (log_step wr) ops (r, L) = (r', L')"
  shows "log_inv r' L' \<and> log_text r' L' = log_text r L @ concat (map log_line ops) \<and> ro_buffered r' = ro_buffered r"
  using assms(2,3)
proof (induction ops arbitrary: r L)
  case (Cons op ops)
  obtain r1 L1 where s: "log_step wr op (r, L) = (r1, L1)" by force
  note k = log_step_keeps [OF assms(1) Cons.prems(1) s]
  then have "log_inv r' L' \<and> log_text r' L' = log_text r1 L1 @ concat (map log_line ops) \<and> ro_buffered r' = ro_buffered r1"
    using Cons.IH [of r1 L1] Cons.prems(2) s by simp
  then show ?case using k by simp
qed simp

text \<open>
  C40: a rotation loses no line.  Whatever the order of log lines, flushes, rotations (with or
  without a new file under the name) and reopenings, successful or not, as long as the disk takes
  what it is given the files in the order of their creation, followed by what is still in the
  buffer, are exactly the lines written, in order; the buffer never holds more than 32 KiB, and
  nothing for the service and transfer logs, which is all a crash can lose.
\<close>

theorem rotation_loses_no_line:
  assumes "openFile True path buffered \<lparr>lg_files = [], lg_path = \<lambda>_. None, lg_calls = 0\<rparr> = (L, Some r)"
    and "fold (log_step (\<lambda>_. None)) ops (r, L) = (r', L')"
  shows "concat (lg_files L') @ ro_buf r' = concat (map log_line ops) \<and> length (ro_buf r') \<le> bufSize \<and>
    (\<not> buffered \<longrightarrow> ro_buf r' = []) \<and> ro_buf (fst (log_step (\<lambda>_. None) LFlush (r', L'))) = []"
proof -
  have r: "log_inv r L" "log_text r L = []" "ro_buffered r = buffered"
    using assms(1) by (auto simp: openFile_def open_append_def log_inv_def log_text_def)
  have k: "log_inv r' L'" "log_text r' L' = concat (map log_line ops)" "ro_buffered r' = buffered"
    using log_run_keeps [OF refl r(1) assms(2)] r(2,3) by simp_all
  have "ro_buf (fst (log_step (\<lambda>_. None) LFlush (r', L'))) = []" using Flush_all [OF refl k(1)] by auto
  then show ?thesis using k by (auto simp: log_inv_def log_text_def)
qed

theorem rotation_loses_no_line_witness:
  "\<exists>L r r' L'. openFile True ''access.log'' True \<lparr>lg_files = [], lg_path = \<lambda>_. None, lg_calls = 0\<rparr> = (L, Some r) \<and>
     fold (log_step (\<lambda>_. None)) [LWrite ''one'', LRotate False, LWrite ''two'', LReopen True True, LWrite ''three''] (r, L) = (r', L') \<and>
     concat (lg_files L') @ ro_buf r' = ''onetwothree''"
proof -
  obtain L r where o: "openFile True ''access.log'' True \<lparr>lg_files = [], lg_path = \<lambda>_. None, lg_calls = 0\<rparr> = (L, Some r)"
    by (simp add: openFile_def open_append_def)
  obtain r' L' where f: "fold (log_step (\<lambda>_. None)) [LWrite ''one'', LRotate False, LWrite ''two'', LReopen True True, LWrite ''three''] (r, L) = (r', L')"
    by (metis prod.exhaust)
  from rotation_loses_no_line [OF o f] o f show ?thesis by auto
qed

text \<open>
  A write that fails once silences a buffered log: the error stays in the buffer, and no line is
  written until the file is reopened.
\<close>

lemma error_silences_the_log:
  assumes "ro_err r" "ro_buffered r" "\<forall>op \<in> set ops. op = LFlush \<or> (\<exists>p. op = LWrite p)"
  shows "fold (log_step wr) ops (r, L) = (r, L)"
  using assms(3)
proof (induction ops)
  case (Cons op ops)
  have "bw_write wr p r L = (r, L, False)" for p using assms(1) by (subst bw_write.simps) simp
  then have "log_step wr op (r, L) = (r, L)" using Cons.prems assms by (auto simp: rf_Write_def rf_Flush_def bw_flush_def)
  then show ?case using Cons by simp
qed simp

end
