(* ===== verification/ClientCalls.thy ===== *)
theory ClientCalls
  imports S3Listing Agent
begin

text \<open>
  The calls of internal/s3client from the request to the result: what \<open>do\<close> makes of an answer, the
  metadata of an object, and the errors the agent distinguishes.  \<open>wire\<close> is the HTTP transport,
  nothing when a request gets no answer; \<open>doc\<close> and \<open>date\<close> read an error document and an HTTP date.
  The agent of \<open>Agent\<close> sees only how a call ends, and the lemmas show that it ends that way.
\<close>

record answer =
  an_status :: nat
  an_header :: urlvals
  an_length :: i64
  an_body :: string

datatype s3err = SeNotFound string | SeAPI nat string string | SeOther gerr

definition decodeError :: "(string \<Rightarrow> (string \<times> string) option) \<Rightarrow> answer \<Rightarrow> s3err" where
  "decodeError doc a =
     (case doc (take 65536 (an_body a)) of
        Some (code, message) \<Rightarrow> SeAPI (an_status a) code message
      | None \<Rightarrow> SeAPI (an_status a) [] [])"

definition asNotFound :: "s3err \<Rightarrow> string option" where
  "asNotFound e = (case e of SeNotFound key \<Rightarrow> Some key | _ \<Rightarrow> None)"

definition s3_message :: "s3err \<Rightarrow> string option" where
  "s3_message e =
     (case e of
        SeNotFound key \<Rightarrow> Some (''no such key: '' @ key)
      | SeAPI status code message \<Rightarrow>
          Some (if code = [] then ''s3: http '' @ format_nat status else ''s3: '' @ code @ '': '' @ message)
      | SeOther _ \<Rightarrow> None)"

definition cli_do ::
    "env \<Rightarrow> crypto \<Rightarrow> (string \<Rightarrow> (string \<times> string) option) \<Rightarrow> (httpreq \<Rightarrow> answer option) \<Rightarrow> client \<Rightarrow> gotime \<Rightarrow> clireq \<Rightarrow>
     s3err + answer" where
  "cli_do E C doc wire c now q =
     (case cli_request E C c now q of
        None \<Rightarrow> Inl (SeOther (Errf ''invalid URL''))
      | Some r \<Rightarrow>
          (case wire r of
             None \<Rightarrow> Inl (SeOther ErrIO)
           | Some a \<Rightarrow>
               if 200 \<le> an_status a \<and> an_status a < 300 then Inr a
               else if an_status a = 404 then Inl (SeNotFound (cq_key q))
               else Inl (decodeError doc a)))"

record s3info =
  if_size :: i64
  if_etag :: string
  if_modified :: gotime

definition answer_etag :: "answer \<Rightarrow> string" where
  "answer_etag a = trim_quotes (val_get (an_header a) (CanonicalHeaderKey ''ETag''))"

definition infoOf :: "(string \<Rightarrow> gotime option) \<Rightarrow> answer \<Rightarrow> s3info" where
  "infoOf date a =
     \<lparr>if_size = an_length a, if_etag = answer_etag a,
      if_modified = (case date (val_get (an_header a) (CanonicalHeaderKey ''Last-Modified'')) of None \<Rightarrow> 0 | Some t \<Rightarrow> t)\<rparr>"

text \<open>
  \<open>PutFile\<close> reads the file twice: once for its digest and its size, once for the body.  Each read is
  what the file holds at that moment, or the error; the body is delivered until \<open>rderr\<close>.
\<close>

definition hashFile :: "env \<Rightarrow> cerr + string \<Rightarrow> cerr + (string \<times> int)" where
  "hashFile E read = (case read of Inl e \<Rightarrow> Inl e | Inr data \<Rightarrow> Inr (sha256_hex E data, int (length data)))"

datatype callerr = LocalErr cerr | S3Err s3err

definition call_PutFile ::
    "env \<Rightarrow> crypto \<Rightarrow> (string \<Rightarrow> (string \<times> string) option) \<Rightarrow> (httpreq \<Rightarrow> answer option) \<Rightarrow> client \<Rightarrow> gotime \<Rightarrow> string \<Rightarrow>
     cerr + string \<Rightarrow> cerr + (string \<times> gerr option) \<Rightarrow> callerr + string" where
  "call_PutFile E C doc wire c now key first_read second_read =
     (case hashFile E first_read of
        Inl e \<Rightarrow> Inl (LocalErr e)
      | Inr (hash, n) \<Rightarrow>
          (case second_read of
             Inl e \<Rightarrow> Inl (LocalErr e)
           | Inr body \<Rightarrow>
               (case cli_do E C doc wire c now
                      ((bare_request ''PUT'' key)\<lparr>cq_body := body, cq_length := n, cq_payload := hash\<rparr>) of
                  Inl e \<Rightarrow> Inl (S3Err e)
                | Inr a \<Rightarrow> Inr (answer_etag a))))"

definition call_Put ::
    "env \<Rightarrow> crypto \<Rightarrow> (string \<Rightarrow> (string \<times> string) option) \<Rightarrow> (httpreq \<Rightarrow> answer option) \<Rightarrow> client \<Rightarrow> gotime \<Rightarrow> string \<Rightarrow> string \<Rightarrow>
     s3err + string" where
  "call_Put E C doc wire c now key body = map_sum id answer_etag (cli_do E C doc wire c now (put_request E key body))"

definition call_Get ::
    "env \<Rightarrow> crypto \<Rightarrow> (string \<Rightarrow> (string \<times> string) option) \<Rightarrow> (string \<Rightarrow> gotime option) \<Rightarrow> (httpreq \<Rightarrow> answer option) \<Rightarrow> client \<Rightarrow> gotime \<Rightarrow>
     string \<Rightarrow> s3err + (string \<times> s3info)" where
  "call_Get E C doc date wire c now key =
     map_sum id (\<lambda>a. (an_body a, infoOf date a)) (cli_do E C doc wire c now (get_request key))"

definition call_Head ::
    "env \<Rightarrow> crypto \<Rightarrow> (string \<Rightarrow> (string \<times> string) option) \<Rightarrow> (string \<Rightarrow> gotime option) \<Rightarrow> (httpreq \<Rightarrow> answer option) \<Rightarrow> client \<Rightarrow> gotime \<Rightarrow>
     string \<Rightarrow> s3err + s3info" where
  "call_Head E C doc date wire c now key = map_sum id (infoOf date) (cli_do E C doc wire c now (head_request key))"

definition call_Delete ::
    "env \<Rightarrow> crypto \<Rightarrow> (string \<Rightarrow> (string \<times> string) option) \<Rightarrow> (httpreq \<Rightarrow> answer option) \<Rightarrow> client \<Rightarrow> gotime \<Rightarrow> string \<Rightarrow> s3err option" where
  "call_Delete E C doc wire c now key =
     (case cli_do E C doc wire c now (delete_request key) of
        Inl e \<Rightarrow> if asNotFound e \<noteq> None then None else Some e
      | Inr _ \<Rightarrow> None)"

subsection \<open>The agent's view\<close>

text \<open>How the agent tells errors apart (\<open>errors.As\<close>), and how a request ended; \<open>took\<close> is what is not known when nothing answered.\<close>

definition agent_sees :: "s3err \<Rightarrow> cerr" where
  "agent_sees e = (case e of SeNotFound key \<Rightarrow> CNotFound key | SeAPI status _ _ \<Rightarrow> CApi status | SeOther _ \<Rightarrow> COther)"

definition call_error :: "callerr \<Rightarrow> cerr" where
  "call_error e = (case e of LocalErr x \<Rightarrow> x | S3Err x \<Rightarrow> agent_sees x)"

definition net_of :: "bool \<Rightarrow> s3err + answer \<Rightarrow> net" where
  "net_of took res =
     (case res of
        Inr _ \<Rightarrow> NetOK
      | Inl (SeNotFound _) \<Rightarrow> NetNotFound
      | Inl (SeAPI status _ _) \<Rightarrow> NetAPI status
      | Inl (SeOther _) \<Rightarrow> NetLost took)"

lemma not_found_is_the_key: "cli_do E C doc wire c now q = Inl (SeNotFound k) \<Longrightarrow> k = cq_key q"
  by (auto simp: cli_do_def decodeError_def split: option.splits if_splits prod.splits)

lemma PutFile_as_the_agent_sees_it:
  assumes "bk_get (ag_disk a) path = map_option (\<lambda>d. \<lparr>lf_data = d, lf_mtime = t, lf_mode = m\<rparr>) data"
    and "reads = (case data of None \<Rightarrow> Inl CNotExist | Some d \<Rightarrow> Inr d)"
    and "put = cli_do E C doc wire c now (put_request E key (case data of None \<Rightarrow> [] | Some d \<Rightarrow> d))"
  shows "(case call_PutFile E C doc wire c now key reads (map_sum id (\<lambda>d. (d, None)) reads) of
        Inl e \<Rightarrow> Some (call_error e) | Inr _ \<Rightarrow> None) =
    snd (cli_PutFile (net_of took put) key path a)"
proof (cases data)
  case None
  then show ?thesis using assms(1,2) by (simp add: call_PutFile_def hashFile_def cli_PutFile_def call_error_def)
next
  case (Some d)
  have q: "(bare_request ''PUT'' key)\<lparr>cq_body := (d, None), cq_length := int (length d), cq_payload := sha256_hex E d\<rparr> = put_request E key d"
    by (simp add: put_request_def)
  have k: "put = Inl (SeNotFound x) \<Longrightarrow> x = key" for x
    using not_found_is_the_key [of E C doc wire c now "put_request E key d" x] assms(3) Some
    by (simp add: put_request_def bare_request_def)
  show ?thesis
    using assms Some k
    by (auto simp: call_PutFile_def hashFile_def q cli_PutFile_def net_of_def call_error_def agent_sees_def split: sum.split s3err.split)
qed

lemma Delete_as_the_agent_sees_it:
  assumes "del = cli_do E C doc wire c now (delete_request key)"
  shows "map_option agent_sees (call_Delete E C doc wire c now key) = snd (cli_Delete (net_of took del) key a)"
  using assms by (auto simp: call_Delete_def cli_Delete_def net_of_def asNotFound_def agent_sees_def split: sum.splits s3err.splits)

text \<open>
  A 404 is not the error type the agent asks about, so an upload to a bucket the store does not have
  is repeated like one that met a server error.
\<close>

lemma missing_bucket_is_retried:
  assumes "bk_get (ag_disk a) (agent_path a key) = Some f" "\<forall>i. as_send as key i = NetNotFound" "\<forall>i. \<not> as_stop as i"
  shows "upload_attempts as key n i backoff a = (a, UpPending, map (\<lambda>j. backoff * 2 ^ j) [0..<n])"
proof (induction n arbitrary: i backoff)
  case (Suc n)
  have "map (\<lambda>j. backoff * 2 ^ j) [0..<Suc n] = backoff # map (\<lambda>j. (backoff * 2) * 2 ^ j) [0..<n]"
    by (simp add: upt_conv_Cons map_Suc_upt [symmetric] del: upt_Suc)
  then show ?case using assms Suc.IH [of "Suc i" "backoff * 2"] by (simp add: cli_PutFile_def)
qed simp

end
