(* ===== verification/Spec2Isabelle.thy ===== *)
theory Spec2Isabelle
  imports GcComplete MultipartRun Fsck Layers Replica Glob ConfigLaws AgentProps ChunkedLaws MountLaws
    SingleBox BootLaws Status DaemonLaws Logging ClientCalls
begin

text \<open>
  Tana is one binary with two roles.  The store role is an S3 object store over plain files; the
  agent role keeps the uploads directory of a WordPress site in step with a bucket of a store,
  evicts the bytes of cold files and presents the whole tree through a FUSE mount.  A machine may
  run both.  All the metadata of both roles is in one index file.

  The store (src/internal/journal, blob, index, store).  A put writes a content-addressed blob,
  appends a record to the journal and updates the index; the journal is the truth, the index can be
  replayed from it.  \<open>Journal\<close> models segment files at byte level, \<open>Blob\<close> the files below blobs/ and
  tmp/, \<open>KV\<close> and \<open>Index\<close> the bbolt file as sorted buckets with the transactions of index.go and
  tx.go, \<open>Store\<close> the operations of store.go.  \<open>JournalLog\<close>, \<open>IndexLaws\<close>, \<open>StoreLaws\<close> and \<open>Recovery\<close>
  hold the refinement: the journal is a list of records (\<open>jlog\<close>), the index a map from bucket and
  key to an object value (\<open>sabs\<close>), and the store is the map its journal denotes (\<open>store_spec\<close>) whenever
  \<open>store_inv\<close> holds.  \<open>Durability\<close> has the writes against that invariant.  A crash keeps what was
  synced, leaves anything in tmp/ and a torn fragment after the last record (\<open>crash_disk\<close>).
  \<open>Multipart\<close> and \<open>MultipartRun\<close> are multipart.go, \<open>Gc\<close> and \<open>GcComplete\<close> gc.go, \<open>Fsck\<close> fsck.go, \<open>Replica\<close>
  replica.go with the two handlers of the primary, the polling loop of the secondary and the
  network as a peer of two functions.  \<open>Layers\<close> states the properties of the lower layers.

  The front end (src/internal/s3).  \<open>Sigv4\<close> and \<open>Chunked\<close> are the signature verifier and the
  aws-chunked reader, \<open>S3Errors\<close> and \<open>S3Docs\<close> the errors and the documents, \<open>Server\<close> every handler of
  server.go as a function from the store to the store and the reply.  \<open>Sigv4Laws\<close> shows what a
  signature binds, \<open>ChunkedLaws\<close> what a chunk chain binds, \<open>ServerFrame\<close> and \<open>ServerLaws\<close> what a request
  can touch and read.  The client (src/internal/s3client) is \<open>S3Client\<close>; \<open>S3ClientLaws\<close> shows that the
  verifier accepts what it signs, \<open>S3EndToEnd\<close>, \<open>S3Listing\<close> and \<open>S3Presign\<close> follow an upload, a paged
  listing and a presigned URL from the client through the front end to the store.  \<open>ClientCalls\<close> has the
  calls from the request to the result, and shows that they end as the agent's model has them end.

  The configuration (src/internal/config).  \<open>Glob\<close> is the pattern language of the protected and
  never_evict lists, \<open>Config\<close> and \<open>ConfigLoad\<close> the file, its defaults, its validation and the manager
  that reloads it, \<open>PathLaws\<close> and \<open>ConfigLaws\<close> what a loaded configuration guarantees.

  The agent (src/internal/agent, mount).  \<open>Agent\<close> is one site: scan, events, queue, uploads with
  retries, recall, eviction; its state has the index, the files of the machine and the objects of
  the bucket.  \<open>AgentLaws\<close> has the invariant, \<open>AgentProps\<close> the agent and WordPress as a step relation.
  \<open>Mount\<close> is what the FUSE nodes answer; \<open>MountLaws\<close> reads an evicted file through the mount, the client,
  the front end and the store.

  The machine (src/cmd/tana, src/internal/bootstrap, caps, service, status, logging).  \<open>Host\<close> is the probe
  of the host, the layout of the file system and the service verbs, \<open>Bootstrap\<close> the installer, the reset
  and the key generator over a file system whose calls may fail, \<open>BootLaws\<close> what they guarantee.
  \<open>Status\<close> is the control socket with both its ends, \<open>Logging\<close> the log files and their rotation.
  \<open>Daemon\<close> is main.go: the command line, \<open>runDaemon\<close> up to its signal loop with every early return,
  the mux in front of the store and the replication endpoint, reload, shutdown, the status snapshot,
  and the offline fsck and scrub.  \<open>SingleBox\<close> puts a store and an agent over one index file and shows
  that neither breaks the other; \<open>DaemonLaws\<close> starts the daemon after a crash and shows that both roles
  come back.  The workers and loops a start launches take their steps after it; the
  scan of a site runs to its end before the next site starts.

  How the effects are modelled.  An operation that can meet a failure takes its outcome as an
  argument: \<open>sysenv\<close>, \<open>gcenv\<close>, \<open>agentsys\<close>, \<open>reqsys\<close> and the fault types say which system call fails and
  how, so every early return of the code is a branch, and a theorem holds for every outcome unless
  it names one.  Errors are values: \<open>gerr + 'a\<close>, or \<open>gerr option\<close> beside a state that has changed.
  Machine integers are words (\<open>i64\<close>, \<open>u64\<close>, \<open>u32\<close>) where the width matters.  A bbolt transaction is a
  function on the whole file that may fail to commit, and then changes nothing.

  Code outside src/ is an argument: \<open>env\<close> has the digests, the JSON of journal records and the key
  limit of bbolt, \<open>crypto\<close> the HMAC and the time formats, \<open>httplib\<close> XML, MIME types and HTTP dates,
  \<open>cfgenv\<close> and \<open>floats\<close> the YAML decoder and the syntax of URLs, addresses and floats, \<open>statuslib\<close> JSON, and
  \<open>hostfacts\<close>, \<open>hostio\<close> and \<open>daemonio\<close> what the operating system answers.  The hypotheses
  about them (\<open>env_ok\<close> and the like) state documented behaviour: decoding inverts encoding, a digest
  has its length and alphabet.  Digests are never assumed injective; a theorem that needs it has
  \<open>no_collision\<close> for the bytes at hand as a hypothesis or a collision as the other outcome.  \<open>Demo\<close>
  has concrete instances, so that every hypothesis is met by some run.

  Interfaces.  The locale \<open>kv_store\<close> (with \<open>kv_sum\<close>) is the bucket interface, interpreted on the sorted
  lists of \<open>KV\<close>; \<open>durable_log\<close> is what the store needs of the journal, interpreted in \<open>JournalLog\<close>;
  \<open>replayable\<close> is replay as a refinement, interpreted twice in \<open>StoreLaws\<close>, for the map and for the
  reference counts.

  Bounds.  A journal line must be shorter than the 4 MiB buffer of the replay scanner (\<open>max_line\<close>).  Loops
  that end are structural or have a measure; the paging loop of the client, which asks a server it
  does not control, is a partial function, and \<open>listing_delivers_every_object_once\<close> shows it returns.
  No definition takes fuel.  Loops of the daemon that run until it stops are one function per turn,
  run over the list of their turns (\<open>secondary_Start\<close>, \<open>StartEviction\<close>, \<open>StartGC\<close>, \<open>watch_run\<close>).  The key
  generator may read for ever; \<open>keygen_returns_uniform_usable_keys\<close> shows when it returns.

  Not modelled.  Concurrency inside one operation: an operation is atomic except that a put, a
  delete and the collector can stop between any two of their steps, and an eviction or recall
  between its own.  Two operations that overlap are not interleaved.  The lines that are logged, the goroutines
  and tickers that call the modelled turns, directory fsync, statfs, the HTTP transport and FUSE
  protocol themselves, and the stubs for other platforms.
\<close>

section \<open>The store: what is acknowledged survives\<close>

lemma after_restart:
  assumes inv: "store_inv E s" and sy: "sy_commit sy" and frag: "NL \<notin> set frag"
  obtains s2 where "store_start E sy (\<lambda>_. True) None cfgs gc (crash_disk frag tmp s) = Inr s2" "store_inv E s2"
    "caught_up s2" "store_spec E s2 = store_spec E s" "blob_at (s_blobs s2) = blob_at (s_blobs s)"
    "store_Bucket s2 = bk_get (foldl (\<lambda>m c. bk_put (bc_name c) c m) [] cfgs)"
proof (rule start_after_crash [OF inv sy frag, of cfgs gc tmp])
  fix s2
  assume a: "store_start E sy (\<lambda>_. True) None cfgs gc (crash_disk frag tmp s) = Inr s2" "store_inv E s2" "caught_up s2"
    "store_spec E s2 = store_spec E s" "blob_at (s_blobs s2) = blob_at (s_blobs s)"
    "s_buckets s2 = foldl (\<lambda>m b. bk_put (bc_name b) b m) [] cfgs"
  show thesis by (rule that [OF a(1-5)]) (simp add: a(6) store_Bucket_def fun_eq_iff)
qed



text \<open>
  The states a \<open>PutWith\<close> passes through, at whose boundaries the process can die: the start,
  the blob durable, the journal record durable, the index transaction done or refused.  (A
  record torn in the middle of its append is the fragment \<open>crash_disk\<close> leaves in the journal.)
\<close>

definition put_points ::
    "env \<Rightarrow> sysenv \<Rightarrow> string \<Rightarrow> string \<Rightarrow> reader \<Rightarrow> putOpts \<Rightarrow> store \<Rightarrow> store list" where
  "put_points E sy b k r opt s =
     (case put_blob E sy b k r opt s of
        (s1, Inl _) \<Rightarrow> [s, s1]
      | (s1, Inr info) \<Rightarrow>
          (case put_journal E sy b k opt info s1 of
             (s2, Inl _) \<Rightarrow> [s, s1]
           | (s2, Inr n) \<Rightarrow> [s, s1, s2, fst (put_index E sy b k opt info n s2)]))"

lemma put_points_inv:
  assumes E: "env_ok E" and inv: "store_inv E s" "in_step E s" and rdy: "put_ready E sy b k r opt s"
    and t: "t \<in> set (put_points E sy b k r opt s)"
  shows "store_inv E t \<and>
    (store_spec E t = store_spec E s \<or> store_spec E t = (store_spec E s)((b, k) \<mapsto> put_value E sy r opt))"
proof -
  obtain s1 i where b: "put_blob E sy b k r opt s = (s1, i)" by (metis prod.collapse)
  have "fault_ok E (sy_blob sy) (fst r)" using rdy by (simp add: put_ready_def)
  note st1 = put_blob_stage [OF E inv(1) this b]
  show ?thesis
  proof (cases i)
    case (Inl e)
    with t b have "t = s \<or> t = s1" by (simp add: put_points_def)
    with inv st1 show ?thesis by blast
  next
    case (Inr info)
    obtain s2 q where j: "put_journal E sy b k opt info s1 = (s2, q)" by (metis prod.collapse)
    show ?thesis
    proof (cases q)
      case (Inl e)
      with t b j \<open>i = Inr info\<close> have "t = s \<or> t = s1" by (simp add: put_points_def)
      with inv st1 show ?thesis by blast
    next
      case (Inr n)
      note st2 = put_journal_stage [OF E inv(1) rdy b [unfolded \<open>i = Inr info\<close>] j [unfolded Inr]]
      obtain s3 a where x: "put_index E sy b k opt info n s2 = (s3, a)" by (metis prod.collapse)
      with t b j Inr \<open>i = Inr info\<close> have "t = s \<or> t = s1 \<or> t = s2 \<or> t = s3" by (auto simp: put_points_def)
      moreover have "store_inv E s3 \<and> store_spec E s3 = (store_spec E s)((b, k) \<mapsto> put_value E sy r opt)"
      proof (cases a)
        case (Inl e)
        then have "s3 = s2" using x by (auto simp: put_index_def Let_def db_update_def split: prod.splits sum.splits if_splits)
        with st2 show ?thesis by simp
      next
        case (Inr e)
        have "store_PutWith E sy b k r opt s = (s3, Inr e)"
          using b j x Inr \<open>i = Inr info\<close> \<open>q = Inr n\<close> by (simp add: store_PutWith_def)
        from PutWith_effect(1,3) [OF E inv rdy this] show ?thesis by simp
      qed
      ultimately show ?thesis using inv st1(1,2) st2(1,2) by blast
    qed
  qed
qed




lemma demo_delete_ready:
  assumes "Suc (unat (j_last (s_jrnl s))) < 2 ^ 64"
  shows "delete_ready demo_env demo_sys ''media'' ''a.jpg'' s"
proof -
  have "line_ok demo_env (stamp_rec (sy_clock demo_sys 0) (s_jrnl s) (delete_record ''media'' ''a.jpg''))"
    by (rule demo_line) (simp_all add: demo_sys_def stamp_rec_def delete_record_def opDelete_def time_is_zero_def)
  moreover have "name_ok demo_env (store_ns ''media'')"
    by (simp add: name_ok_def demo_env_def store_ns_def ix_namespace_def ScopeStore_def)
  ultimately show ?thesis using assms by (simp add: delete_ready_def demo_sys_def time_is_zero_def)
qed


text \<open>
  C5: read your writes: right after an acknowledged put, \<open>Get\<close> of the key returns exactly the
  bytes written with the metadata the put reported, and \<open>Get\<close> of any other key returns what
  it returned before, bytes and metadata.
\<close>

theorem read_your_writes:
  assumes E: "env_ok E" "store_inv E s" "in_step E s" "put_ready E sy b k r opt s" "no_collision E (s_blobs s) (fst r)"
    and put: "store_PutWith E sy b k r opt s = (s', Inr e)"
  shows "(\<exists>t e1. store_Get sy2 b k s' = (t, Inr (e1, fst r)) \<and> objval_of e1 = objval_of e) \<and>
    (\<forall>b2 k2 v d. (b2, k2) \<noteq> (b, k) \<longrightarrow> store_Bucket s b2 \<noteq> None \<longrightarrow> store_spec E s (b2, k2) = Some v \<longrightarrow>
       blob_at (s_blobs s) (ov_hash v) = Some d \<longrightarrow>
       (\<exists>t e2. store_Get sy2 b2 k2 s' = (t, Inr (e2, d)) \<and> objval_of e2 = v))"
proof (intro conjI allI impI)
  note p = PutWith_effect [OF E(1-4) put]
  have st: "in_step E s'" by (rule caught_up_in_step [OF p(1,2)])
  have bk: "store_Bucket s' c = store_Bucket s c" for c by (simp add: store_Bucket_def p(5))
  have "store_Bucket s b \<noteq> None" using put by (rule PutWith_Inr)
  moreover have "store_spec E s' (b, k) = Some (put_value E sy r opt)" by (simp add: p(3))
  ultimately obtain t e1 d where g: "store_Get sy2 b k s' = (t, Inr (e1, d))" "objval_of e1 = put_value E sy r opt"
    "blob_at (s_blobs s') (ov_hash (put_value E sy r opt)) = Some d"
    using Get_spec [OF p(1) st] bk by metis
  have "e_hash e = ov_hash (put_value E sy r opt)" using p(4) by (metis objval.select_convs(1) objval_of_def)
  with p(6) [OF E(5)] g p(4) show "\<exists>t e1. store_Get sy2 b k s' = (t, Inr (e1, fst r)) \<and> objval_of e1 = objval_of e" by simp
  fix b2 k2 v d
  assume o: "(b2, k2) \<noteq> (b, k)" "store_Bucket s b2 \<noteq> None" "store_spec E s (b2, k2) = Some v" "blob_at (s_blobs s) (ov_hash v) = Some d"
  from o(1,3) have "store_spec E s' (b2, k2) = Some v" by (auto simp: p(3))
  from Get_spec [OF p(1) st _ this] o(2) bk obtain t2 e2 d2 where g2: "store_Get sy2 b2 k2 s' = (t2, Inr (e2, d2))"
    "objval_of e2 = v" "blob_at (s_blobs s') (ov_hash v) = Some d2" by metis
  with p(10) [OF o(4)] show "\<exists>t e2. store_Get sy2 b2 k2 s' = (t, Inr (e2, d)) \<and> objval_of e2 = v" by simp
qed

theorem read_your_writes_witness:
  "\<exists>s e t e1. store_PutWith demo_env demo_sys ''media'' ''a.jpg'' demo_reader demo_opts demo_store = (s, Inr e) \<and>
     store_Get demo_sys ''media'' ''a.jpg'' s = (t, Inr (e1, ''hello''))"
proof -
  obtain s e where p: "store_PutWith demo_env demo_sys ''media'' ''a.jpg'' demo_reader demo_opts demo_store = (s, Inr e)"
    using demo_put by blast
  with read_your_writes [OF demo_env_ok demo_store_inv(1) demo_in_step demo_ready demo_fresh p, of demo_sys]
  show ?thesis by (auto simp: demo_reader_def)
qed

text \<open>
  C6: after any sequence of acknowledged puts and deletes the reference counts stay exact:
  one step of either kind keeps, for every digest, the stored count equal to the number of
  keys bound to it plus the parts of open uploads that hold it.
\<close>

theorem writes_keep_refs_exact:
  assumes "env_ok E" "store_inv E s" "in_step E s" "refs_inv (db_file (s_db s))"
    and "put_ready E sy b k r opt s \<and> store_PutWith E sy b k r opt s = (s', Inr e) \<or>
         delete_ready E sy b k s \<and> store_Delete E sy b k s = (s', None)"
  shows "store_inv E s' \<and> in_step E s' \<and> refs_inv (db_file (s_db s'))"
  using assms(5)
proof
  assume a: "put_ready E sy b k r opt s \<and> store_PutWith E sy b k r opt s = (s', Inr e)"
  note p = PutWith_effect [OF assms(1-3) conjunct1 [OF a] conjunct2 [OF a]]
  show ?thesis using p(1,2,7) assms(4) caught_up_in_step by blast
next
  assume a: "delete_ready E sy b k s \<and> store_Delete E sy b k s = (s', None)"
  note d = Delete_effect [OF assms(2,3) conjunct1 [OF a] conjunct2 [OF a]]
  show ?thesis using d(1,2,6) assms(4) by blast
qed

theorem writes_keep_refs_exact_witness:
  "\<exists>s e. store_PutWith demo_env demo_sys ''media'' ''a.jpg'' demo_reader demo_opts demo_store = (s, Inr e) \<and> refs_inv (db_file (s_db s))"
proof -
  obtain s e where p: "store_PutWith demo_env demo_sys ''media'' ''a.jpg'' demo_reader demo_opts demo_store = (s, Inr e)"
    using demo_put by blast
  have r: "refs_inv (db_file (s_db demo_store))" by (simp add: demo_store_def fresh_refs_inv)
  from writes_keep_refs_exact [OF demo_env_ok demo_store_inv(1) demo_in_step r disjI1 [OF conjI [OF demo_ready p]]] p
  show ?thesis by blast
qed

section \<open>The collector\<close>

text \<open>
  C7: whatever a pass of the collector does, completes, or is stopped by a failed system call
  in the middle: no blob a key or an open upload part holds loses a byte, every object and
  every upload stays as it was, and the reference counts are still exact.
\<close>

theorem GC_never_takes_what_is_held:
  assumes "idx_inv (db_file (s_db s))" "refs_inv (db_file (s_db s))" "few (db_file (s_db s))"
    and "store_GC E G now took s = ((s', st), e)"
  shows "(\<forall>h. held (db_file (s_db s)) h \<longrightarrow> blob_at (s_blobs s') h = blob_at (s_blobs s) h) \<and>
    ix_lookup (db_file (s_db s')) = ix_lookup (db_file (s_db s)) \<and> ix_meta (db_file (s_db s')) = ix_meta (db_file (s_db s)) \<and>
    refs_inv (db_file (s_db s'))"
  using GC_safe [OF assms] assms(1-3) by (simp add: gc_safe_def Let_def)

definition demo_gcenv :: gcenv where
  "demo_gcenv = \<lparr>ge_commit = (\<lambda>_. True), ge_rm = (\<lambda>_. True), ge_app = (\<lambda>_. None), ge_clock = (\<lambda>_. 5000)\<rparr>"

lemma fresh_few: "few fresh_idx"
proof -
  have "key_count fresh_idx h = 0" for h by (simp add: key_count_def holders_def)
  then show ?thesis by (simp add: few_def part_count_def fresh_idx_def idx_empty_def)
qed

lemma map_single: "[q \<mapsto> w] p = Some v \<Longrightarrow> p = q"
  by (simp split: if_splits)

text \<open>The put has bound one key to one blob; the count of that blob is one.\<close>

theorem GC_never_takes_what_is_held_witness:
  "\<exists>s e. store_PutWith demo_env demo_sys ''media'' ''a.jpg'' demo_reader demo_opts demo_store = (s, Inr e) \<and>
     blob_at (s_blobs (fst (fst (store_GC demo_env demo_gcenv 5000 7 s)))) (e_hash e) = Some ''hello''"
proof -
  obtain s e where p: "store_PutWith demo_env demo_sys ''media'' ''a.jpg'' demo_reader demo_opts demo_store = (s, Inr e)"
    using demo_put by blast
  note pe = PutWith_effect [OF demo_env_ok demo_store_inv(1) demo_in_step demo_ready p]
  let ?x = "db_file (s_db s)"
  have r: "refs_inv ?x" using pe(7) by (simp add: demo_store_def fresh_refs_inv)
  have i: "idx_inv ?x" using pe(1) by (simp add: store_inv_def rec_index_ok_def index_ok_def)
  have pc: "part_count ?x = part_count fresh_idx" using pe(8) by (simp add: demo_store_def)
  have sp: "sabs ?x = [(''media'', ''a.jpg'') \<mapsto> put_value demo_env demo_sys demo_reader demo_opts]"
    using pe(3) caught_up_in_step [OF pe(1,2)] by (simp add: in_step_def store_spec_def demo_store_def)
  have eh: "e_hash e = ov_hash (put_value demo_env demo_sys demo_reader demo_opts)"
    using pe(4) by (metis objval.select_convs(1) objval_of_def)
  have kc: "key_count ?x h \<le> 1" for h
  proof -
    have "p = (store_ns ''media'', ''a.jpg'')" if l: "ix_lookup ?x p = Some v" "InScope (fst p) ScopeStore" for p v
    proof -
      from InScope_store [OF l(2)] obtain b where b: "fst p = store_ns b" ..
      have "ix_lookup ?x (store_ns b, snd p) = Some v" using l(1) by (simp flip: b)
      then have "sabs ?x (b, snd p) = Some (objval_of v)" by (simp add: sabs_def)
      then have "(b, snd p) = (''media'', ''a.jpg'')" unfolding sp by (rule map_single)
      with b show ?thesis by (simp add: prod_eq_iff)
    qed
    then have "{p. \<exists>v. ix_lookup ?x p = Some v \<and> InScope (fst p) ScopeStore \<and> e_hash v = h} \<subseteq> {(store_ns ''media'', ''a.jpg'')}"
      by blast
    then show ?thesis unfolding key_count_def holders_def using card_mono [of "{(store_ns ''media'', ''a.jpg'')}"] by fastforce
  qed
  have "part_count ?x h = 0" for h by (simp add: pc part_count_def fresh_idx_def idx_empty_def)
  then have few: "few ?x" using le_less_trans [OF kc, of "2 ^ 63"] by (simp add: few_def)
  have "held ?x (e_hash e)" 
    using spec_held [OF caught_up_in_step [OF pe(1,2)], of "(''media'', ''a.jpg'')" "put_value demo_env demo_sys demo_reader demo_opts"]
    by (simp add: pe(3) eh)
  with GC_never_takes_what_is_held [OF i r few, of demo_env demo_gcenv 5000 7] pe(6) [OF demo_fresh] p
  show ?thesis by (metis demo_reader_def fst_conv prod.collapse)
qed

text \<open>
  C8: a pass whose system calls succeed returns, and does its work: no reference record that
  was collectable and no blob of one is left, no unreferenced blob older than the grace
  period is left, and the store holds the same objects as before, journal and index in step.
\<close>

theorem GC_pass_completes:
  assumes "gc_good E m s" "gc_fits E G" "gc_free G"
    and "unat (j_last (s_jrnl s)) + length (ix_refs (db_file (s_db s))) < 2 ^ 64 - 1"
    and "\<forall>h. ix_ref (db_file (s_db s)) h \<noteq> None \<longrightarrow> ValidHash h"
  shows "\<exists>s' st. store_GC E G now took s = ((s', st), None) \<and> gc_good E m s' \<and>
    (\<forall>h. expired (db_file (s_db s)) now (gc_grace (s_gc s)) h \<longrightarrow>
       ix_ref (db_file (s_db s')) h = None \<and> blob_at (s_blobs s') h = None) \<and>
    (\<forall>h. orphan_old s now (gc_grace (s_gc s)) h \<longrightarrow> blob_at (s_blobs s') h = None)"
proof -
  from GC_returns [OF assms, of now took] obtain s' st where r: "store_GC E G now took s = ((s', st), None)" by blast
  have i: "idx_inv (db_file (s_db s))" "bk_ok (bf_blobs (s_blobs s))"
    using assms(1) by (simp_all add: gc_good_def store_inv_def rec_index_ok_def index_ok_def blob_inv_def)
  from GC_keeps_store [OF assms(1,2,4) r] GC_drops [OF i(1) r] GC_drops_orphans [OF i r] r show ?thesis by blast
qed

text \<open>A put that died after its blob became durable: the collector removes the residue.\<close>

definition demo_residue :: store where
  "demo_residue = fst (put_blob demo_env demo_sys ''media'' ''a.jpg'' demo_reader demo_opts demo_store)"

lemma demo_residue_eq:
  "demo_residue = demo_store\<lparr>s_blobs :=
     \<lparr>bf_blobs = [(blob_Path (sha256_hex demo_env ''hello''), \<lparr>f_data = ''hello'', f_mtime = 1001\<rparr>)], bf_tmp = []\<rparr>\<rparr>"
proof -
  have "blob_put demo_env BF_none 1001 ''t'' (''hello'', None) blobs_empty =
      (\<lparr>bf_blobs = [(blob_Path (sha256_hex demo_env ''hello''), \<lparr>f_data = ''hello'', f_mtime = 1001\<rparr>)], bf_tmp = []\<rparr>,
       Inr \<lparr>bi_hash = sha256_hex demo_env ''hello'', bi_md5 = md5_hex demo_env ''hello'', bi_size = 5, bi_deduped = False\<rparr>)"
    by (simp add: blob_put_def newTemp_def blob_commit_def Let_def blobs_empty_def drop_tmp_def bk_get_def bk_del_def)
  then show ?thesis
    by (simp add: demo_residue_def put_blob_def demo_reader_def demo_sys_def demo_opts_def)
      (simp add: demo_store_def store_Bucket_def bk_get_def)
qed

theorem GC_pass_completes_witness:
  "\<exists>s' st. store_GC demo_env demo_gcenv 5000 7 demo_residue = ((s', st), None) \<and>
     blob_at (s_blobs demo_residue) (sha256_hex demo_env ''hello'') = Some ''hello'' \<and>
     blob_at (s_blobs s') (sha256_hex demo_env ''hello'') = None"
proof -
  let ?h = "sha256_hex demo_env ''hello''"
  obtain s1 i where b: "put_blob demo_env demo_sys ''media'' ''a.jpg'' demo_reader demo_opts demo_store = (s1, i)"
    by (metis prod.collapse)
  then have s1: "demo_residue = s1" by (simp add: demo_residue_def)
  note st = put_blob_stage [OF demo_env_ok demo_store_inv(1) _ b, folded s1]
  have x: "db_file (s_db demo_residue) = fresh_idx" by (simp add: demo_residue_eq demo_store_def)
  have dx: "db_file (s_db demo_store) = fresh_idx" by (simp add: demo_store_def)
  have "fault_ok demo_env (sy_blob demo_sys) (fst demo_reader)" by (simp add: demo_sys_def)
  with st demo_in_step have good: "gc_good demo_env (store_spec demo_env demo_store) demo_residue"
    using fresh_refs_inv fresh_few by (auto simp: gc_good_def in_step_def dx)
  have fits: "gc_fits demo_env demo_gcenv"
    unfolding gc_fits_def
  proof (intro allI impI)
    fix h :: string and q :: u64 assume "ValidHash h"
    then have "line_ok demo_env ((gc_record h)\<lparr>r_time := ge_clock demo_gcenv h, r_seq := q\<rparr>)"
      by (intro demo_line) (simp_all add: gc_record_def demo_gcenv_def opGC_def ValidHash_def)
    then show "\<not> time_is_zero (ge_clock demo_gcenv h) \<and> line_ok demo_env ((gc_record h)\<lparr>r_time := ge_clock demo_gcenv h, r_seq := q\<rparr>)"
      by (simp add: demo_gcenv_def time_is_zero_def)
  qed
  have free: "gc_free demo_gcenv" by (simp add: gc_free_def demo_gcenv_def)
  have none: "ix_ref fresh_idx h = None" for h by (simp add: ix_ref_def fresh_idx_def idx_empty_def bk_get_def)
  have room: "unat (j_last (s_jrnl demo_residue)) + length (ix_refs (db_file (s_db demo_residue))) < 2 ^ 64 - 1"
    by (simp add: x fresh_idx_def idx_empty_def) (simp add: demo_residue_eq demo_store_def jempty_def)
  have v: "ValidHash ?h" using demo_env_ok by (simp add: env_ok_def sha_ok_def)
  have old: "orphan_old demo_residue 5000 (gc_grace (s_gc demo_residue)) ?h"
    by (simp add: orphan_old_def x none v) (simp add: demo_residue_eq demo_store_def demo_gc_def bk_get_def time_sub_def)
  have "blob_at (s_blobs demo_residue) ?h = Some ''hello''" by (simp add: blob_at_def v demo_residue_eq bk_get_def)
  with GC_pass_completes [OF good fits free room, of 5000 7] none old x show ?thesis by auto
qed

section \<open>Multipart uploads\<close>

text \<open>
  An accepted part is stored under the digest of its bytes and recorded in the upload
  under its number, replacing the part it supersedes; no object changes, and the reference
  counts of all blobs, the new and the superseded one included, are exact.
\<close>

theorem UploadPart_records_the_part:
  assumes "env_ok E" "store_inv E s" "meta_ok E (db_file (s_db s))" "refs_inv (db_file (s_db s))"
    and "fault_ok E (sy_blob sy) (fst r)" "\<And>i. \<not> time_is_zero (clock i)"
    and "UploadPart E sy ok clock b i number r s = (s', Inr part)"
  shows "store_inv E s' \<and> store_spec E s' = store_spec E s \<and> meta_ok E (db_file (s_db s')) \<and> refs_inv (db_file (s_db s')) \<and>
    p_hash part = sha256_hex E (fst r) \<and> blob_at (s_blobs s') (p_hash part) \<noteq> None \<and>
    (\<exists>u'. loadUpload b i s' = Inr u' \<and> map_of (u_parts u') number = Some part)"
  using UploadPart_effect [OF assms] by blast

theorem UploadPart_records_the_part_witness:
  "\<exists>s part u. UploadPart demo_env demo_sys (\<lambda>_. True) demo_clock ''media'' ''u1'' 1 (''hello'', None) demo_open = (s, Inr part) \<and>
     loadUpload ''media'' ''u1'' s = Inr u \<and> map_of (u_parts u) 1 = Some part \<and> refs_inv (db_file (s_db s))"
proof -
  obtain s part where p: "UploadPart demo_env demo_sys (\<lambda>_. True) demo_clock ''media'' ''u1'' 1 (''hello'', None) demo_open = (s, Inr part)"
    using demo_part by blast
  have f: "fault_ok demo_env (sy_blob demo_sys) (fst (''hello'', None :: gerr option))" by (simp add: demo_sys_def)
  from UploadPart_records_the_part [OF demo_env_ok demo_open_inv(3,1,2) f demo_clock_runs p] p show ?thesis by blast
qed

text \<open>
  C9: completing an upload binds the key to the concatenation of the listed parts, in order of
  their part numbers, with the composite tag \<open>md5(md5s)-count\<close>; the upload is gone, every part
  reference is released, and the counts stay exact.
\<close>

theorem CompleteUpload_assembles_the_parts:
  assumes "env_ok E" "store_inv E s" "in_step E s" "meta_ok E (db_file (s_db s))" "refs_inv (db_file (s_db s))"
    and "\<And>i. \<not> time_is_zero (clock i)" "loadUpload b i s = Inr u"
    and "gather_parts u (s_blobs s) (sort_key cp_number parts) = Inr (datas, raws)"
    and "put_ready E sy b (u_key u) (datas, None) \<lparr>po_mtime = 0, po_etag = complete_etag E raws (length parts), po_expectHash = []\<rparr> s"
    and "no_collision E (s_blobs s) datas" "CompleteUpload E sy ok clock b i parts s = (s', Inr e)"
  shows "datas = concat (map (\<lambda>p. the (part_data u (s_blobs s) p)) (sort_key cp_number parts)) \<and>
    (\<exists>t e2. store_Get sy2 b (u_key u) s' = (t, Inr (e2, datas)) \<and> objval_of e2 = objval_of e \<and>
       e_etag e2 = complete_etag E raws (length parts)) \<and>
    loadUpload b i s' = Inl (ErrNoSuchUpload b i) \<and> refs_inv (db_file (s_db s')) \<and> store_inv E s' \<and>
    (\<forall>p. p \<noteq> (b, u_key u) \<longrightarrow> store_spec E s' p = store_spec E s p)"
proof -
  note c = CompleteUpload_effect [OF assms]
  let ?opt = "\<lparr>po_mtime = 0, po_etag = complete_etag E raws (length parts), po_expectHash = []\<rparr>"
  obtain s1 where put: "store_PutWith E sy b (u_key u) (datas, None) ?opt s = (s1, Inr e)"
    using assms(7,8,11) by (auto simp: CompleteUpload_def split: if_splits sum.splits prod.splits option.splits)
  have ov: "objval_of e = put_value E sy (datas, None) ?opt" by (rule PutWith_effect(4) [OF assms(1-3,9) put])
  have ne: "complete_etag E raws (length parts) \<noteq> []" by (simp add: complete_etag_def)
  have bk: "store_Bucket s' b \<noteq> None" using loadUpload_meta(2) [OF assms(7)] c(8) by (simp add: store_Bucket_def)
  have v: "store_spec E s' (b, u_key u) = Some (objval_of e)" by (simp add: c(5))
  from Get_spec [OF c(1,2) bk v] obtain t e2 d where g: "store_Get sy2 b (u_key u) s' = (t, Inr (e2, d))"
    "objval_of e2 = objval_of e" "blob_at (s_blobs s') (ov_hash (objval_of e)) = Some d" by blast
  have "d = datas" using g(3) c(6) by (simp add: objval_of_def)
  moreover have "e_etag e2 = complete_etag E raws (length parts)"
    using g(2) ov ne by (simp add: objval_of_def put_value_def)
  ultimately have "\<exists>t e2. store_Get sy2 b (u_key u) s' = (t, Inr (e2, datas)) \<and> objval_of e2 = objval_of e \<and>
       e_etag e2 = complete_etag E raws (length parts)" using g(1,2) by blast
  moreover have "\<forall>p. p \<noteq> (b, u_key u) \<longrightarrow> store_spec E s' p = store_spec E s p" by (auto simp: c(5))
  ultimately show ?thesis using gather_parts_data [OF assms(8)] c(1,4,7) by blast
qed

theorem CompleteUpload_assembles_the_parts_witness:
  "\<exists>s part s' e t e2. UploadPart demo_env demo_sys (\<lambda>_. True) demo_clock ''media'' ''u1'' 1 (''hello'', None) demo_open = (s, Inr part) \<and>
     CompleteUpload demo_env demo_sys (\<lambda>_. True) demo_clock ''media'' ''u1'' [\<lparr>cp_number = 1, cp_etag = md5_hex demo_env ''hello''\<rparr>] s = (s', Inr e) \<and>
     store_Get demo_sys ''media'' ''big.bin'' s' = (t, Inr (e2, ''hello''))"
proof -
  obtain s part where p: "UploadPart demo_env demo_sys (\<lambda>_. True) demo_clock ''media'' ''u1'' 1 (''hello'', None) demo_open = (s, Inr part)"
    using demo_part by blast
  have f: "fault_ok demo_env (sy_blob demo_sys) (fst (''hello'', None :: gerr option))" by (simp add: demo_sys_def)
  note u = UploadPart_effect [OF demo_env_ok demo_open_inv(3,1,2) f demo_clock_runs p]
  have st: "in_step demo_env s" by (rule u(8) [OF demo_open_inv(4)])
  obtain raw where raw: "hex_decode (md5_hex demo_env ''hello'') = Some raw" using demo_tag by blast
  note c = demo_complete [OF p u(1) st u(3,4) raw]
  from c(4) obtain s' e where r: "CompleteUpload demo_env demo_sys (\<lambda>_. True) demo_clock ''media'' ''u1''
      [\<lparr>cp_number = 1, cp_etag = md5_hex demo_env ''hello''\<rparr>] s = (s', Inr e)" by blast
  have k: "u_key (demo_upload\<lparr>u_parts := [(1, part)]\<rparr>) = ''big.bin''" by (simp add: demo_upload_def)
  have n: "length [\<lparr>cp_number = 1, cp_etag = md5_hex demo_env ''hello''\<rparr>] = 1" by simp
  from CompleteUpload_assembles_the_parts [OF demo_env_ok u(1) st u(3,4) demo_clock_runs demo_part_state(1) [OF p] c(1)
      c(2) [folded n, folded k] c(3) r, of demo_sys] p r
  show ?thesis unfolding k by blast
qed

section \<open>Checking and rebuilding\<close>




text \<open>An index with one object, over an empty blob store.\<close>

definition demo_entry :: entry where
  "demo_entry = \<lparr>e_key = ''a.jpg'', e_size = 5, e_mtime = 1, e_mode = mode644, e_hash = sha256_hex demo_env ''hello'',
     e_etag = ''t'', e_state = Synced, e_atime = 1, e_pinned = False\<rparr>"



definition demo_rot :: blobfs where
  "demo_rot = \<lparr>bf_blobs = [(blob_Path (sha256_hex demo_env ''hello''), \<lparr>f_data = ''1ello'', f_mtime = 1\<rparr>),
                           (''blobs/notes.txt'', \<lparr>f_data = ''x'', f_mtime = 1\<rparr>)], bf_tmp = []\<rparr>"

lemma demo_rot_placed: "placed demo_rot"
proof -
  have v: "ValidHash (sha256_hex demo_env ''hello'')" using demo_env_ok by (simp add: env_ok_def sha_ok_def)
  have "\<not> ValidHash (base_name ''blobs/notes.txt'')" by (simp add: base_name_def ValidHash_def)
  moreover have "blob_Path (sha256_hex demo_env ''hello'') < ''blobs/notes.txt''"
    using v unfolding blob_Path_valid [OF v]
    by (cases "sha256_hex demo_env ''hello''") (auto simp: ValidHash_def is_lower_hex_def is_digit_def less_char_def)
  ultimately show ?thesis using v by (simp add: placed_def demo_rot_def bk_ok_def)
qed


end
